(* ===== verification/Prelude.thy ===== *)
theory Prelude
  imports Main "HOL-Library.Word"
begin

text \<open>
  Shared vocabulary of the development: the machine integers of the Rust sources, the result
  type of fallible code, checked and saturating arithmetic, the catalogue interface (an
  enumeration with a printed name per entry and a decoder that searches the enumeration), and
  the invariant interface of a deterministic machine that consumes a list of inputs.
\<close>

section \<open>Machine integers and results\<close>

type_synonym u8 = "8 word"
type_synonym u16 = "16 word"
type_synonym u32 = "32 word"
type_synonym u64 = "64 word"

text \<open>
  \<open>anyhow::Result\<close>: \<open>Inl\<close> is the error, \<open>Inr\<close> the value. Each component has its own
  datatype of errors.
\<close>

type_synonym ('e, 'a) result = "'e + 'a"

named_theorems step_simps \<open>one-step unfolding equations of the modelled machines\<close>
named_theorems inv_intros \<open>preservation of component invariants by single operations\<close>

definition ensure :: "bool \<Rightarrow> 'e \<Rightarrow> ('e, unit) result" where
  "ensure b e = (if b then Inr () else Inl e)"

definition bind_result :: "('e, 'a) result \<Rightarrow> ('a \<Rightarrow> ('e, 'b) result) \<Rightarrow> ('e, 'b) result" where
  "bind_result r f = (case r of Inl e \<Rightarrow> Inl e | Inr x \<Rightarrow> f x)"

lemma bind_result_simps [simp]:
  "bind_result (Inl e) f = Inl e"
  "bind_result (Inr x) f = f x"
  by (simp_all add: bind_result_def)

lemma bind_result_Inr_iff:
  "bind_result r f = Inr y \<longleftrightarrow> (\<exists>x. r = Inr x \<and> f x = Inr y)"
  by (cases r) auto

lemma ensure_simps [simp]:
  "ensure True e = Inr ()"
  "ensure False e = Inl e"
  "ensure b e = Inr u \<longleftrightarrow> b"
  by (auto simp: ensure_def)

text \<open>\<open>ensure!(b, e); rest\<close>: fail with \<open>e\<close> unless \<open>b\<close>, else go on.\<close>

text \<open>\<open>Iterator::position\<close>.\<close>

fun position :: "('a \<Rightarrow> bool) \<Rightarrow> 'a list \<Rightarrow> nat option" where
  "position P [] = None"
| "position P (x # xs) = (if P x then Some 0 else map_option Suc (position P xs))"

lemma position_Some: "position P xs = Some i \<Longrightarrow> i < length xs \<and> P (xs ! i) \<and> (\<forall>j<i. \<not> P (xs ! j))"
proof (induction xs arbitrary: i)
  case (Cons x xs)
  then show ?case by (cases i) (auto simp: less_Suc_eq_0_disj split: if_splits)
qed simp

lemma position_None: "position P xs = None \<longleftrightarrow> (\<forall>x\<in>set xs. \<not> P x)"
  by (induction xs) auto

text \<open>A loop that stops at the first error.\<close>

fun collect_result :: "('a \<Rightarrow> ('e, 'b) result) \<Rightarrow> 'a list \<Rightarrow> ('e, 'b list) result" where
  "collect_result f [] = Inr []"
| "collect_result f (x # xs) = bind_result (f x) (\<lambda>y. bind_result (collect_result f xs) (\<lambda>ys. Inr (y # ys)))"

lemma collect_result_Inr: "(\<And>x. x \<in> set xs \<Longrightarrow> f x = Inr (g x)) \<Longrightarrow> collect_result f xs = Inr (map g xs)"
  by (induction xs) simp_all

fun check_all :: "('a \<Rightarrow> ('e, unit) result) \<Rightarrow> 'a list \<Rightarrow> ('e, unit) result" where
  "check_all f [] = Inr ()"
| "check_all f (x # xs) = bind_result (f x) (\<lambda>_. check_all f xs)"

lemma check_all_ok: "check_all f xs = Inr () \<longleftrightarrow> (\<forall>x\<in>set xs. f x = Inr ())"
  by (induction xs) (auto simp: bind_result_Inr_iff)

lemma distinct_map_remove:
  assumes "distinct (map f xs)"
  shows "distinct (map f (take i xs @ drop (Suc i) xs))"
proof (cases "i < length xs")
  case True
  have "distinct (map f (take i xs @ xs ! i # drop (Suc i) xs))"
    using assms True by (simp only: id_take_nth_drop [OF True, symmetric])
  then show ?thesis by auto
qed (use assms in simp)

lemma all_enumerate: "(\<forall>x\<in>set (enumerate k xs). P (snd x)) \<longleftrightarrow> (\<forall>a\<in>set xs. P a)"
  by (induction xs arbitrary: k) auto

text \<open>\<open>slice::chunks\<close>: pieces of \<open>n\<close> elements, the last one perhaps shorter.\<close>

fun chunks :: "nat \<Rightarrow> 'a list \<Rightarrow> 'a list list" where
  "chunks 0 xs = []"
| "chunks (Suc n) [] = []"
| "chunks (Suc n) (x # xs) = (x # take n xs) # chunks (Suc n) (drop n xs)"

lemma in_chunks: "g \<in> set (chunks n xs) \<Longrightarrow> x \<in> set g \<Longrightarrow> x \<in> set xs"
  by (induction n xs rule: chunks.induct) (auto dest: in_set_takeD in_set_dropD)

lemma those_map_Some: "(\<And>x. x \<in> set xs \<Longrightarrow> f x = Some (g x)) \<Longrightarrow> those (map f xs) = Some (map g xs)"
  by (induction xs) auto

lemma chunks_nth:
  "0 < n \<Longrightarrow> length xs = m * n \<Longrightarrow> chunks n xs = map (\<lambda>y. map (\<lambda>x. xs ! (y * n + x)) [0..<n]) [0..<m]"
proof (induction n xs arbitrary: m rule: chunks.induct)
  case (3 n x xs)
  then obtain k where k: "m = Suc k" by (cases m) auto
  let ?n = "Suc n"
  have len: "length (drop n xs) = k * ?n" using 3(3) k by simp
  have first: "take ?n (x # xs) = map (\<lambda>i. (x # xs) ! i) [0..<?n]"
    using 3(3) k by (intro nth_equalityI) (auto simp: nth_Cons simp del: upt_Suc split: nat.split)
  have rest: "drop n xs ! (y * ?n + i) = (x # xs) ! (Suc y * ?n + i)" if "y < k" "i < ?n" for y i
    using 3(3) k by (simp add: nth_drop add.commute add.left_commute)
  have "chunks ?n (x # xs) = take ?n (x # xs) # map (\<lambda>y. map (\<lambda>i. drop n xs ! (y * ?n + i)) [0..<?n]) [0..<k]"
    using 3(1) [OF _ len] by simp
  moreover have "map (\<lambda>y. map (\<lambda>i. drop n xs ! (y * ?n + i)) [0..<?n]) [0..<k] =
      map (\<lambda>y. map (\<lambda>i. (x # xs) ! (y * ?n + i)) [0..<?n]) (map Suc [0..<k])"
    unfolding map_map comp_def using rest by (intro map_cong refl) (simp del: upt_Suc)
  moreover have "[0..<Suc k] = 0 # map Suc [0..<k]" by (simp add: map_Suc_upt upt_conv_Cons del: upt_Suc)
  ultimately show ?case using first k by (simp del: upt_Suc)
qed simp_all

definition fits_u64 :: "nat \<Rightarrow> bool" where
  "fits_u64 n \<longleftrightarrow> int n < 2 ^ 64"

lemma fits_u64_mono: "fits_u64 n \<Longrightarrow> m \<le> n \<Longrightarrow> fits_u64 m"
  by (simp add: fits_u64_def)

definition ensure_then :: "bool \<Rightarrow> 'e \<Rightarrow> ('e, 'a) result \<Rightarrow> ('e, 'a) result" where
  "ensure_then b e r = (if b then r else Inl e)"

lemma ensure_then_cong [fundef_cong]:
  "b = b' \<Longrightarrow> e = e' \<Longrightarrow> (b' \<Longrightarrow> x = x') \<Longrightarrow> ensure_then b e x = ensure_then b' e' x'"
  by (simp add: ensure_then_def)

lemma ensure_then_simps [simp]:
  "ensure_then True e r = r"
  "ensure_then False e r = Inl e"
  "ensure_then b e r = Inr x \<longleftrightarrow> b \<and> r = Inr x"
  by (auto simp: ensure_then_def)

section \<open>Lists and maps\<close>

lemma find_Some_iff_first:
  "List.find P xs = Some x \<Longrightarrow> x \<in> set xs \<and> P x"
  by (auto simp: find_Some_iff)

lemma find_key_distinct:
  assumes "distinct (map f xs)" and "x \<in> set xs"
  shows "List.find (\<lambda>y. f y = f x) xs = Some x"
  using assms by (induction xs) (auto simp: image_iff)

lemma sum_list_filter_le:
  fixes f :: "'a \<Rightarrow> nat"
  shows "sum_list (map f (filter P xs)) \<le> sum_list (map f xs)"
  by (induction xs) auto

lemma count_filter_le: "length (filter P (filter Q xs)) \<le> length (filter P xs)"
  by (induction xs) auto

section \<open>Catalogues: enumerations with printed names\<close>

text \<open>
  Many sources declare an enumeration \<open>E\<close>, a constant array \<open>ALL\<close> of its values, a printed
  form of each value and a decoder \<open>ALL.into_iter().find(|v| v.name() == text)\<close>. The contract
  is that \<open>ALL\<close> misses no value and the printed forms are pairwise distinct; the decoder then
  inverts the printer and accepts printed forms only.
\<close>

locale catalogue =
  fixes all :: "'a list"
    and name :: "'a \<Rightarrow> 'n"
  assumes complete: "v \<in> set all"
    and distinct_names: "distinct (map name all)"
begin

lemma decode_name: "List.find (\<lambda>v. name v = name x) all = Some x"
  using distinct_names complete by (rule find_key_distinct)

lemma decode_Some_iff: "List.find (\<lambda>v. name v = n) all = Some x \<longleftrightarrow> name x = n"
proof
  assume "List.find (\<lambda>v. name v = n) all = Some x"
  then show "name x = n" by (auto dest: find_Some_iff_first)
next
  assume "name x = n"
  then show "List.find (\<lambda>v. name v = n) all = Some x" using decode_name by auto
qed

lemma decode_None_iff: "List.find (\<lambda>v. name v = n) all = None \<longleftrightarrow> n \<notin> range name"
  using complete by (auto simp: find_None_iff)

lemma name_inj: "name x = name y \<longleftrightarrow> x = y"
  using decode_Some_iff [of "name y" x] decode_name [of y] by auto

end

section \<open>Deterministic machines\<close>

text \<open>
  A machine that consumes one input at a time and may fail. \<open>run\<close> is the loop the sources
  write over a slice of inputs; a step invariant is an invariant of every run, and a run over
  a concatenation is the concatenation of the runs (no input is looked at twice or early).
\<close>

locale machine =
  fixes step :: "'s \<Rightarrow> 'i \<Rightarrow> ('e, 's \<times> 'o list) result"
    and run :: "'s \<Rightarrow> 'i list \<Rightarrow> ('e, 's \<times> 'o list) result"
  assumes run_Nil: "run s [] = Inr (s, [])"
    and run_Cons: "run s (i # is) =
      bind_result (step s i) (\<lambda>(t, out). bind_result (run t is) (\<lambda>(u, out'). Inr (u, out @ out')))"
begin

lemma run_append:
  "run s (xs @ ys) =
     bind_result (run s xs) (\<lambda>(t, out). bind_result (run t ys) (\<lambda>(u, out'). Inr (u, out @ out')))"
proof (induction xs arbitrary: s)
  case Nil
  show ?case by (cases "run s ys") (auto simp: run_Nil)
next
  case (Cons x xs)
  show ?case
  proof (cases "step s x")
    case (Inl e)
    then show ?thesis by (simp add: run_Cons)
  next
    case (Inr r)
    obtain t out where r: "r = (t, out)" by (cases r)
    show ?thesis
      using Inr r Cons.IH [of t]
      by (cases "run t xs") (auto simp: run_Cons bind_result_def split: sum.splits)
  qed
qed

lemma run_invariant:
  assumes "\<And>s i t out. P s \<Longrightarrow> step s i = Inr (t, out) \<Longrightarrow> P t"
  shows "P s \<Longrightarrow> run s is = Inr (t, out) \<Longrightarrow> P t"
proof (induction "is" arbitrary: s t out)
  case Nil
  then show ?case by (simp add: run_Nil)
next
  case (Cons i "is")
  from Cons.prems(2) obtain s' o1 o2
    where st: "step s i = Inr (s', o1)" and rest: "run s' is = Inr (t, o2)"
    by (auto simp: run_Cons bind_result_Inr_iff)
  from assms [OF Cons.prems(1) st] rest show ?case by (rule Cons.IH)
qed

text \<open>
  The sound-run rule: when each step from a state of \<open>P\<close> ends in \<open>P\<close> with outputs of \<open>Q\<close>, or fails
  with \<open>R\<close>, so does each run.
\<close>

lemma run_sound:
  assumes "\<And>s i. P s \<Longrightarrow>
    (case step s i of Inl e \<Rightarrow> R e | Inr (t, out) \<Rightarrow> P t \<and> list_all Q out)"
  shows "P s \<Longrightarrow> (case run s is of Inl e \<Rightarrow> R e | Inr (t, out) \<Rightarrow> P t \<and> list_all Q out)"
proof (induction "is" arbitrary: s)
  case Nil
  then show ?case by (simp add: run_Nil)
next
  case (Cons i "is")
  show ?case
  proof (cases "step s i")
    case (Inl e)
    then show ?thesis using assms [OF Cons.prems, of i] by (simp add: run_Cons)
  next
    case (Inr r)
    obtain t out where r: "r = (t, out)" by (cases r)
    have ok: "P t" "list_all Q out" using assms [OF Cons.prems, of i] Inr r by simp_all
    show ?thesis
      using Cons.IH [OF ok(1)] ok(2) Inr r
      by (cases "run t is") (auto simp: run_Cons)
  qed
qed

end

end
