(* ===== verification/QNegotiation.thy ===== *)
theory QNegotiation
  imports Prelude
begin

text \<open>
  \<open>crates/telnet/src/q.rs\<close>: the RFC 1143 option state machine. \<open>qstate\<close>, \<open>qstate_request\<close> and
  \<open>qstate_receive\<close> are the per-endpoint machine, \<open>negotiator\<close> the array of 256 options with two
  sides each, and \<open>negotiator_request\<close>/\<open>negotiator_receive\<close> its two entry points. The second
  half connects two negotiators by two first-in first-out wires and shows that any
  interleaving of requests and deliveries keeps the ends consistent.
\<close>

section \<open>The engine\<close>

datatype side = Local | Remote

datatype verb = Will | Wont | Do | Dont

definition verb_byte :: "verb \<Rightarrow> u8" where
  "verb_byte v = (case v of Will \<Rightarrow> 251 | Wont \<Rightarrow> 252 | Do \<Rightarrow> 253 | Dont \<Rightarrow> 254)"

definition verb_from_byte :: "u8 \<Rightarrow> verb option" where
  "verb_from_byte byte =
     (if byte = 251 then Some Will
      else if byte = 252 then Some Wont
      else if byte = 253 then Some Do
      else if byte = 254 then Some Dont
      else None)"

datatype qstate = No | Yes | WantNo (opposite: bool) | WantYes (opposite: bool)

definition enabled :: "qstate \<Rightarrow> bool" where
  "enabled s \<longleftrightarrow> s = Yes"

fun qstate_request :: "qstate \<Rightarrow> bool \<Rightarrow> qstate \<times> bool option" where
  "qstate_request No True = (WantYes False, Some True)"
| "qstate_request Yes False = (WantNo False, Some False)"
| "qstate_request (WantNo _) enable = (WantNo enable, None)"
| "qstate_request (WantYes _) enable = (WantYes (\<not> enable), None)"
| "qstate_request s _ = (s, None)"

fun qstate_receive :: "qstate \<Rightarrow> bool \<Rightarrow> bool \<Rightarrow> qstate \<times> bool option" where
  "qstate_receive No True accept = (if accept then Yes else No, Some accept)"
| "qstate_receive Yes True accept = (Yes, None)"
| "qstate_receive No False accept = (No, None)"
| "qstate_receive Yes False accept = (No, Some False)"
| "qstate_receive (WantNo False) _ accept = (No, None)"
| "qstate_receive (WantNo True) True accept = (Yes, None)"
| "qstate_receive (WantNo True) False accept = (WantYes False, Some True)"
| "qstate_receive (WantYes False) True accept = (Yes, None)"
| "qstate_receive (WantYes True) True accept = (WantNo False, Some False)"
| "qstate_receive (WantYes _) False accept = (No, None)"

record change =
  change_option :: u8
  change_side :: side
  change_before :: qstate
  change_after :: qstate

datatype event = Send verb u8 | Changed change

type_synonym negotiator = "u8 \<Rightarrow> side \<Rightarrow> qstate"

definition negotiator_default :: negotiator where
  "negotiator_default = (\<lambda>_ _. No)"

definition side_verb :: "side \<Rightarrow> bool \<Rightarrow> verb" where
  "side_verb sd enable =
     (case sd of Local \<Rightarrow> if enable then Will else Wont | Remote \<Rightarrow> if enable then Do else Dont)"

definition negotiator_apply ::
  "negotiator \<Rightarrow> u8 \<Rightarrow> side \<Rightarrow> qstate \<times> bool option \<Rightarrow> negotiator \<times> event list" where
  "negotiator_apply n opt sd r =
     (let (aft, send) = r;
          bef = n opt sd;
          n' = n(opt := (n opt)(sd := aft));
          sends = (case send of None \<Rightarrow> [] | Some enable \<Rightarrow> [Send (side_verb sd enable) opt]);
          changes = (if bef \<noteq> aft
                     then [Changed \<lparr>change_option = opt, change_side = sd, change_before = bef, change_after = aft\<rparr>]
                     else [])
      in (n', sends @ changes))"

definition negotiator_request :: "negotiator \<Rightarrow> u8 \<Rightarrow> side \<Rightarrow> bool \<Rightarrow> negotiator \<times> event list" where
  "negotiator_request n opt sd enable = negotiator_apply n opt sd (qstate_request (n opt sd) enable)"

definition verb_side :: "verb \<Rightarrow> side" where
  "verb_side v = (case v of Will \<Rightarrow> Remote | Wont \<Rightarrow> Remote | _ \<Rightarrow> Local)"

definition verb_positive :: "verb \<Rightarrow> bool" where
  "verb_positive v \<longleftrightarrow> v = Will \<or> v = Do"

definition negotiator_receive :: "negotiator \<Rightarrow> u8 \<Rightarrow> verb \<Rightarrow> bool \<Rightarrow> negotiator \<times> event list" where
  "negotiator_receive n opt v accept =
     (let sd = verb_side v
      in negotiator_apply n opt sd (qstate_receive (n opt sd) (verb_positive v) accept))"

section \<open>Two peers and their wires\<close>

text \<open>
  One option in one direction: endpoint \<open>a\<close> owns the option (its \<open>Local\<close> side), endpoint \<open>b\<close>
  tracks it (its \<open>Remote\<close> side). The messages in flight towards \<open>b\<close> and towards \<open>a\<close> are their
  polarities, oldest first. \<open>pair_ok\<close> lists, up to the queued opposite request of a pending
  endpoint, which messages can be in flight in which pair of states.
\<close>

datatype qphase = PNo | PYes | PWantNo | PWantYes

fun phase :: "qstate \<Rightarrow> qphase" where
  "phase No = PNo"
| "phase Yes = PYes"
| "phase (WantNo _) = PWantNo"
| "phase (WantYes _) = PWantYes"

definition pair_shapes :: "(qphase \<times> qphase \<times> bool list \<times> bool list) list" where
  "pair_shapes =
     [(PNo, PNo, [], []), (PYes, PYes, [], []),
      (PNo, PWantNo, [False], []), (PWantNo, PNo, [], [False]),
      (PNo, PWantYes, [], [True]), (PWantYes, PNo, [True], []),
      (PNo, PWantYes, [False], []), (PWantYes, PNo, [], [False]),
      (PYes, PWantNo, [], [False]), (PWantNo, PYes, [False], []),
      (PYes, PWantYes, [True], []), (PWantYes, PYes, [], [True]),
      (PWantNo, PWantNo, [False], [False]),
      (PWantNo, PWantYes, [], [False, True]), (PWantYes, PWantNo, [False, True], []),
      (PWantNo, PWantYes, [True, False], []), (PWantYes, PWantNo, [], [True, False]),
      (PWantYes, PWantYes, [True], [True]),
      (PWantYes, PWantYes, [], [False, True]), (PWantYes, PWantYes, [False, True], [])]"

definition pair_ok :: "qstate \<Rightarrow> qstate \<Rightarrow> bool list \<Rightarrow> bool list \<Rightarrow> bool" where
  "pair_ok a b ab ba \<longleftrightarrow> (phase a, phase b, ab, ba) \<in> set pair_shapes"

definition emit :: "bool option \<Rightarrow> bool list" where
  "emit out = (case out of None \<Rightarrow> [] | Some p \<Rightarrow> [p])"


text \<open>
  Messages a pending endpoint still causes: one per message in flight, one reply per message
  that reaches a settled endpoint, and two per queued opposite request.
\<close>

fun pending :: "qstate \<Rightarrow> nat" where
  "pending (WantNo _) = 1"
| "pending (WantYes _) = 1"
| "pending _ = 0"

fun reversal :: "qstate \<Rightarrow> nat" where
  "reversal (WantNo q) = (if q then 1 else 0)"
| "reversal (WantYes q) = (if q then 1 else 0)"
| "reversal _ = 0"

definition pair_work :: "qstate \<Rightarrow> qstate \<Rightarrow> bool list \<Rightarrow> bool list \<Rightarrow> nat" where
  "pair_work a b ab ba =
     length ab + length ba + (length ba - pending a) + (length ab - pending b)
     + 2 * (reversal a + reversal b)"

definition other :: "side \<Rightarrow> side" where
  "other sd = (case sd of Local \<Rightarrow> Remote | Remote \<Rightarrow> Local)"

record peers =
  left_peer :: negotiator
  right_peer :: negotiator
  to_right :: "(verb \<times> u8) list"
  to_left :: "(verb \<times> u8) list"

definition peers_init :: peers where
  "peers_init = \<lparr>left_peer = negotiator_default, right_peer = negotiator_default,
                 to_right = [], to_left = []\<rparr>"

fun sends_of :: "event list \<Rightarrow> (verb \<times> u8) list" where
  "sends_of [] = []"
| "sends_of (Send v opt # es) = (v, opt) # sends_of es"
| "sends_of (Changed c # es) = sends_of es"

text \<open>Wire deliveries, with any acceptance policy of the receiver at each delivery.\<close>

inductive peers_deliver :: "peers \<Rightarrow> peers \<Rightarrow> bool" where
  deliver_right:
    "to_right s = (v, opt) # rest \<Longrightarrow> negotiator_receive (right_peer s) opt v accept = (n, evs) \<Longrightarrow>
     peers_deliver s (s\<lparr>right_peer := n, to_right := rest, to_left := to_left s @ sends_of evs\<rparr>)"
| deliver_left:
    "to_left s = (v, opt) # rest \<Longrightarrow> negotiator_receive (left_peer s) opt v accept = (n, evs) \<Longrightarrow>
     peers_deliver s (s\<lparr>left_peer := n, to_left := rest, to_right := to_right s @ sends_of evs\<rparr>)"

inductive peers_step :: "peers \<Rightarrow> peers \<Rightarrow> bool" where
  deliver: "peers_deliver s t \<Longrightarrow> peers_step s t"
| request_left:
    "negotiator_request (left_peer s) opt sd enable = (n, evs) \<Longrightarrow>
     peers_step s (s\<lparr>left_peer := n, to_right := to_right s @ sends_of evs\<rparr>)"
| request_right:
    "negotiator_request (right_peer s) opt sd enable = (n, evs) \<Longrightarrow>
     peers_step s (s\<lparr>right_peer := n, to_left := to_left s @ sends_of evs\<rparr>)"

inductive peers_reachable :: "peers \<Rightarrow> bool" where
  reach_init: "peers_reachable peers_init"
| reach_step: "peers_reachable s \<Longrightarrow> peers_step s t \<Longrightarrow> peers_reachable t"

definition polarities :: "side \<Rightarrow> u8 \<Rightarrow> (verb \<times> u8) list \<Rightarrow> bool list" where
  "polarities sd opt ws = map (verb_positive \<circ> fst) (filter (\<lambda>(v, o'). o' = opt \<and> verb_side v = sd) ws)"

definition peers_ok :: "peers \<Rightarrow> bool" where
  "peers_ok s \<longleftrightarrow>
     (\<forall>opt sd. pair_ok (left_peer s opt sd) (right_peer s opt (other sd))
        (polarities (other sd) opt (to_right s)) (polarities sd opt (to_left s)))"

definition peers_work :: "peers \<Rightarrow> nat" where
  "peers_work s =
     (\<Sum>(opt, sd) \<in> UNIV. pair_work (left_peer s opt sd) (right_peer s opt (other sd))
        (polarities (other sd) opt (to_right s)) (polarities sd opt (to_left s)))"

lemma UNIV_side: "(UNIV :: side set) = {Local, Remote}"
  by (auto intro: side.exhaust)

instance side :: finite
  by standard (simp add: UNIV_side)

section \<open>Lemmas of one pair\<close>

lemma pair_ok_init: "pair_ok No No [] []"
  by (simp add: pair_ok_def pair_shapes_def)

lemma pair_ok_sym: "pair_ok a b ab ba \<longleftrightarrow> pair_ok b a ba ab"
  by (cases a; cases b) (auto simp: pair_ok_def pair_shapes_def)

lemma pair_ok_request:
  assumes "pair_ok a b ab ba"
  shows "pair_ok (fst (qstate_request a e)) b (ab @ emit (snd (qstate_request a e))) ba"
  using assms
  by (cases "(a, e)" rule: qstate_request.cases; cases b)
    (auto simp: pair_ok_def pair_shapes_def emit_def)

lemma pair_ok_receive:
  assumes "pair_ok a b ab (p # ba)"
  shows "pair_ok (fst (qstate_receive a p accept)) b
           (ab @ emit (snd (qstate_receive a p accept))) ba"
  using assms
  by (cases "(a, p, accept)" rule: qstate_receive.cases; cases b)
    (auto simp: pair_ok_def pair_shapes_def emit_def)

lemma pair_work_receive:
  assumes "pair_ok a b ab (p # ba)"
  shows "pair_work (fst (qstate_receive a p accept)) b
           (ab @ emit (snd (qstate_receive a p accept))) ba
         < pair_work a b ab (p # ba)"
  using assms
  by (cases "(a, p, accept)" rule: qstate_receive.cases; cases b)
    (auto simp: pair_ok_def pair_shapes_def emit_def pair_work_def)

lemma pair_ok_quiet: "pair_ok a b [] [] \<Longrightarrow> a = b \<and> (a = No \<or> a = Yes)"
  by (cases a; cases b) (auto simp: pair_ok_def pair_shapes_def)

lemma pair_ok_in_flight: "pair_ok a b ab ba \<Longrightarrow> length ab + length ba \<le> 2"
  by (cases a; cases b) (auto simp: pair_ok_def pair_shapes_def)

section \<open>Lemmas of the negotiator and the wires\<close>

lemma other_simps [simp]:
  "other (other sd) = sd" "other sd \<noteq> sd" "sd \<noteq> other sd"
  "other sd = other sd' \<longleftrightarrow> sd = sd'"
  by (cases sd; cases sd'; simp add: other_def)+

lemma side_cases: "sd' \<noteq> sd \<longleftrightarrow> sd' = other sd"
  by (cases sd; cases sd'; simp add: other_def)

lemma side_verb_simps [simp]:
  "verb_side (side_verb sd p) = other sd"
  "verb_positive (side_verb sd p) = p"
  by (cases sd; cases p; simp add: side_verb_def verb_side_def verb_positive_def other_def)+

lemma negotiator_apply_state:
  "fst (negotiator_apply n opt sd r) =
     (\<lambda>o' sd'. if o' = opt \<and> sd' = sd then fst r else n o' sd')"
  by (auto simp: negotiator_apply_def Let_def fun_eq_iff split: prod.splits)

lemma sends_of_apply:
  "sends_of (snd (negotiator_apply n opt sd r)) =
     map (\<lambda>p. (side_verb sd p, opt)) (emit (snd r))"
  by (auto simp: negotiator_apply_def Let_def emit_def split: prod.splits option.splits)

lemma negotiator_apply_eqD:
  assumes "negotiator_apply n opt sd r = (n', evs)"
  shows "n' = (\<lambda>o' sd'. if o' = opt \<and> sd' = sd then fst r else n o' sd')"
    and "sends_of evs = map (\<lambda>p. (side_verb sd p, opt)) (emit (snd r))"
  using negotiator_apply_state [of n opt sd r] sends_of_apply [of n opt sd r] assms by simp_all

lemma polarities_append [simp]:
  "polarities sd opt (ws @ ws') = polarities sd opt ws @ polarities sd opt ws'"
  by (simp add: polarities_def)

lemma polarities_Nil [simp]: "polarities sd opt [] = []"
  by (simp add: polarities_def)

lemma polarities_Cons:
  "polarities sd opt ((v, o') # ws) =
     (if o' = opt \<and> verb_side v = sd then [verb_positive v] else []) @ polarities sd opt ws"
  by (simp add: polarities_def)

lemma polarities_sends:
  "polarities sd' o' (map (\<lambda>p. (side_verb sd p, opt)) ps) =
     (if o' = opt \<and> sd' = other sd then ps else [])"
  by (induction ps) (auto simp: polarities_def)

lemmas wire_simps = negotiator_apply_state sends_of_apply polarities_Cons polarities_sends

lemma peers_ok_init: "peers_ok peers_init"
  by (simp add: peers_ok_def peers_init_def negotiator_default_def pair_ok_init)

lemma peers_okD:
  "peers_ok s \<Longrightarrow> pair_ok (left_peer s opt sd) (right_peer s opt (other sd))
     (polarities (other sd) opt (to_right s)) (polarities sd opt (to_left s))"
  by (simp add: peers_ok_def)

lemma peers_okD_sym:
  "peers_ok s \<Longrightarrow> pair_ok (right_peer s opt sd) (left_peer s opt (other sd))
     (polarities (other sd) opt (to_left s)) (polarities sd opt (to_right s))"
  using peers_okD [of s opt "other sd"] by (simp add: pair_ok_sym)

lemma peers_ok_request_left:
  assumes ok: "peers_ok s" and req: "negotiator_request (left_peer s) opt sd e = (n, evs)"
  shows "peers_ok (s\<lparr>left_peer := n, to_right := to_right s @ sends_of evs\<rparr>)"
  unfolding peers_ok_def
proof (intro allI)
  fix o' sd'
  let ?r = "qstate_request (left_peer s opt sd) e"
  note nw = negotiator_apply_eqD [OF req [unfolded negotiator_request_def]]
  show "pair_ok (left_peer (s\<lparr>left_peer := n, to_right := to_right s @ sends_of evs\<rparr>) o' sd')
    (right_peer (s\<lparr>left_peer := n, to_right := to_right s @ sends_of evs\<rparr>) o' (other sd'))
    (polarities (other sd') o' (to_right (s\<lparr>left_peer := n, to_right := to_right s @ sends_of evs\<rparr>)))
    (polarities sd' o' (to_left (s\<lparr>left_peer := n, to_right := to_right s @ sends_of evs\<rparr>)))"
    using pair_ok_request [OF peers_okD [OF ok, of opt sd]] peers_okD [OF ok, of o' sd']
    by (auto simp: nw wire_simps)
qed

lemma peers_deliver_left_pair:
  assumes ok: "peers_ok s" and w: "to_left s = (v, opt) # rest"
    and rec: "negotiator_receive (left_peer s) opt v accept = (n, evs)"
  defines "t \<equiv> s\<lparr>left_peer := n, to_left := rest, to_right := to_right s @ sends_of evs\<rparr>"
  shows "pair_ok (left_peer t o' sd') (right_peer t o' (other sd'))
           (polarities (other sd') o' (to_right t)) (polarities sd' o' (to_left t))"
    and "pair_work (left_peer t o' sd') (right_peer t o' (other sd'))
           (polarities (other sd') o' (to_right t)) (polarities sd' o' (to_left t))
         + (if o' = opt \<and> sd' = verb_side v then 1 else 0)
         \<le> pair_work (left_peer s o' sd') (right_peer s o' (other sd'))
           (polarities (other sd') o' (to_right s)) (polarities sd' o' (to_left s))"
proof -
  let ?sd = "verb_side v"
  let ?r = "qstate_receive (left_peer s opt ?sd) (verb_positive v) accept"
  note ne = negotiator_apply_eqD [OF rec [unfolded negotiator_receive_def Let_def]]
  have ok1: "pair_ok (left_peer s opt ?sd) (right_peer s opt (other ?sd))
      (polarities (other ?sd) opt (to_right s)) (verb_positive v # polarities ?sd opt rest)"
    using peers_okD [OF ok, of opt ?sd] by (simp add: w polarities_Cons)
  show "pair_ok (left_peer t o' sd') (right_peer t o' (other sd'))
      (polarities (other sd') o' (to_right t)) (polarities sd' o' (to_left t))"
    using pair_ok_receive [OF ok1] peers_okD [OF ok, of o' sd']
    by (auto simp: t_def ne w wire_simps split: if_splits)
  show "pair_work (left_peer t o' sd') (right_peer t o' (other sd'))
      (polarities (other sd') o' (to_right t)) (polarities sd' o' (to_left t))
      + (if o' = opt \<and> sd' = verb_side v then 1 else 0)
    \<le> pair_work (left_peer s o' sd') (right_peer s o' (other sd'))
      (polarities (other sd') o' (to_right s)) (polarities sd' o' (to_left s))"
    using pair_work_receive [OF ok1, of accept]
    by (auto simp: t_def ne w wire_simps Suc_le_eq)
qed

text \<open>The system is symmetric: exchanging the peers and their wires preserves everything.\<close>

definition swap_peers :: "peers \<Rightarrow> peers" where
  "swap_peers s = \<lparr>left_peer = right_peer s, right_peer = left_peer s,
                   to_right = to_left s, to_left = to_right s\<rparr>"

lemma swap_peers_simps [simp]:
  "left_peer (swap_peers s) = right_peer s" "right_peer (swap_peers s) = left_peer s"
  "to_right (swap_peers s) = to_left s" "to_left (swap_peers s) = to_right s"
  "swap_peers (swap_peers s) = s"
  by (simp_all add: swap_peers_def)

lemma swap_peers_update:
  "swap_peers (s\<lparr>right_peer := n, to_left := w\<rparr>) = (swap_peers s)\<lparr>left_peer := n, to_right := w\<rparr>"
  "swap_peers (s\<lparr>right_peer := n, to_right := r, to_left := w\<rparr>) =
     (swap_peers s)\<lparr>left_peer := n, to_left := r, to_right := w\<rparr>"
  by (simp_all add: swap_peers_def)

lemma peers_ok_swap [simp]: "peers_ok (swap_peers s) = peers_ok s"
  by (metis peers_okD_sym peers_ok_def swap_peers_simps)

lemma pair_work_sym: "pair_work a b ab ba = pair_work b a ba ab"
  by (simp add: pair_work_def)

lemma peers_work_swap [simp]: "peers_work (swap_peers s) = peers_work s"
proof -
  have bij: "bij (\<lambda>(opt :: u8, sd). (opt, other sd))"
    by (rule o_bij [of "\<lambda>(opt, sd). (opt, other sd)"]) (auto simp: fun_eq_iff)
  show ?thesis
    unfolding peers_work_def
    by (subst sum.reindex_bij_betw [OF bij, symmetric])
      (simp add: case_prod_unfold pair_work_sym)
qed

lemma peers_deliver_left_props:
  assumes ok: "peers_ok s" and w: "to_left s = (v, opt) # rest"
    and rec: "negotiator_receive (left_peer s) opt v accept = (n, evs)"
  defines "t \<equiv> s\<lparr>left_peer := n, to_left := rest, to_right := to_right s @ sends_of evs\<rparr>"
  shows "peers_ok t \<and> peers_work t < peers_work s"
proof
  note pair = peers_deliver_left_pair [OF ok w rec, folded t_def]
  show "peers_ok t" using pair(1) by (simp add: peers_ok_def)
  show "peers_work t < peers_work s"
    unfolding peers_work_def
  proof (rule sum_strict_mono_ex1)
    show "\<forall>x\<in>UNIV. (case x of (opt, sd) \<Rightarrow> pair_work (left_peer t opt sd) (right_peer t opt (other sd))
        (polarities (other sd) opt (to_right t)) (polarities sd opt (to_left t)))
      \<le> (case x of (opt, sd) \<Rightarrow> pair_work (left_peer s opt sd) (right_peer s opt (other sd))
        (polarities (other sd) opt (to_right s)) (polarities sd opt (to_left s)))"
      by (auto simp: case_prod_unfold intro: add_leD1 [OF pair(2)])
    show "\<exists>a\<in>UNIV. (case a of (opt, sd) \<Rightarrow> pair_work (left_peer t opt sd) (right_peer t opt (other sd))
        (polarities (other sd) opt (to_right t)) (polarities sd opt (to_left t)))
      < (case a of (opt, sd) \<Rightarrow> pair_work (left_peer s opt sd) (right_peer s opt (other sd))
        (polarities (other sd) opt (to_right s)) (polarities sd opt (to_left s)))"
      using pair(2) [of opt "verb_side v"] by (intro bexI [of _ "(opt, verb_side v)"]) auto
  qed simp
qed

lemma peers_deliver_props:
  assumes "peers_deliver s t" and "peers_ok s"
  shows "peers_ok t \<and> peers_work t < peers_work s"
  using assms
proof (induction rule: peers_deliver.induct)
  case (deliver_right s v opt rest accept n evs)
  let ?t = "s\<lparr>right_peer := n, to_right := rest, to_left := to_left s @ sends_of evs\<rparr>"
  have "peers_ok (swap_peers ?t) \<and> peers_work (swap_peers ?t) < peers_work (swap_peers s)"
    unfolding swap_peers_update
    using peers_deliver_left_props [of "swap_peers s"] deliver_right by simp
  then show ?case by simp
next
  case (deliver_left s v opt rest accept n evs)
  then show ?case using peers_deliver_left_props by blast
qed

lemma peers_step_ok:
  assumes "peers_step s t" and "peers_ok s"
  shows "peers_ok t"
  using assms
proof (induction rule: peers_step.induct)
  case (deliver s t)
  then show ?case using peers_deliver_props by blast
next
  case (request_left s opt sd enable n evs)
  then show ?case by (simp add: peers_ok_request_left)
next
  case (request_right s opt sd enable n evs)
  let ?t = "s\<lparr>right_peer := n, to_left := to_left s @ sends_of evs\<rparr>"
  have "peers_ok (swap_peers ?t)"
    unfolding swap_peers_update
    using peers_ok_request_left [of "swap_peers s"] request_right by simp
  then show ?case by simp
qed

lemma peers_reachable_ok: "peers_reachable s \<Longrightarrow> peers_ok s"
  by (induction rule: peers_reachable.induct) (auto intro: peers_ok_init peers_step_ok)

lemma peers_deliver_run_work:
  assumes "(peers_deliver ^^ k) s t" and "peers_ok s"
  shows "peers_ok t \<and> peers_work t + k \<le> peers_work s"
  using assms
proof (induction k arbitrary: t)
  case (Suc k)
  then obtain u where u: "(peers_deliver ^^ k) s u" "peers_deliver u t" by auto
  from Suc.IH [OF u(1) Suc.prems(2)] peers_deliver_props [OF u(2)] show ?case by force
qed simp

lemma pair_work_le: "pair_ok a b ab ba \<Longrightarrow> pair_work a b ab ba \<le> 7"
  by (cases a; cases b) (auto simp: pair_ok_def pair_shapes_def pair_work_def)

lemma peers_work_le: "peers_ok s \<Longrightarrow> peers_work s \<le> 3584"
proof -
  assume ok: "peers_ok s"
  have "peers_work s \<le> (\<Sum>x \<in> (UNIV :: (u8 \<times> side) set). 7)"
    unfolding peers_work_def using peers_okD [OF ok] pair_work_le
    by (intro sum_mono) (auto simp: case_prod_unfold)
  then show ?thesis by (simp add: card_word UNIV_side)
qed

lemma peers_can_deliver:
  "to_left s \<noteq> [] \<or> to_right s \<noteq> [] \<Longrightarrow> \<exists>t. peers_deliver s t"
proof -
  assume "to_left s \<noteq> [] \<or> to_right s \<noteq> []"
  then consider v opt rest where "to_left s = (v, opt) # rest"
    | v opt rest where "to_right s = (v, opt) # rest"
    by (metis neq_Nil_conv surj_pair)
  then show ?thesis
    by cases (metis deliver_left surj_pair, metis deliver_right surj_pair)
qed

text \<open>
  A completed handshake: the left peer asks the right peer to enable option 24 (terminal type),
  the request and its acknowledgement are delivered.
\<close>

definition handshake_requested :: peers where
  "handshake_requested =
     peers_init\<lparr>left_peer := fst (negotiator_request negotiator_default 24 Remote True),
                to_right := [(Do, 24)]\<rparr>"

definition handshake_answered :: peers where
  "handshake_answered =
     handshake_requested\<lparr>right_peer := fst (negotiator_receive negotiator_default 24 Do True),
                         to_right := [], to_left := [(Will, 24)]\<rparr>"

definition handshake_done :: peers where
  "handshake_done =
     handshake_answered\<lparr>left_peer := fst (negotiator_receive (left_peer handshake_requested) 24 Will True),
                        to_left := [], to_right := []\<rparr>"

lemmas handshake_defs = handshake_requested_def handshake_answered_def handshake_done_def
  peers_init_def negotiator_default_def negotiator_request_def negotiator_receive_def
  negotiator_apply_def side_verb_def verb_side_def verb_positive_def

lemma handshake_requested_reachable: "peers_reachable handshake_requested"
proof -
  have "peers_step peers_init handshake_requested"
    using request_left [OF prod.collapse [symmetric], of peers_init 24 Remote True]
    by (simp add: handshake_defs)
  then show ?thesis using reach_init by (rule reach_step [rotated])
qed

lemma handshake_answered_step: "peers_deliver handshake_requested handshake_answered"
  using deliver_right [OF _ prod.collapse [symmetric], of handshake_requested Do 24 "[]" True]
  by (simp add: handshake_defs)

lemma handshake_done_step: "peers_deliver handshake_answered handshake_done"
  using deliver_left [OF _ prod.collapse [symmetric], of handshake_answered Will 24 "[]" True]
  by (simp add: handshake_defs)

lemma handshake_done_reachable: "peers_reachable handshake_done"
  using handshake_requested_reachable handshake_answered_step handshake_done_step
  by (meson deliver reach_step)

section \<open>Properties\<close>

text \<open>
  C9. Two peers that run this engine over ordered wires, from the initial state, through any
  interleaving of enable and disable requests on any option and side and of deliveries, with
  any acceptance policy: whenever both wires are empty, the two ends agree on every option and
  side, and every option is settled (No or Yes).
\<close>

theorem peers_quiescent_agree:
  assumes "peers_reachable s" and "to_left s = []" and "to_right s = []"
  shows "left_peer s opt sd = right_peer s opt (other sd)
         \<and> (left_peer s opt sd = No \<or> left_peer s opt sd = Yes)"
proof -
  from assms(1) have "peers_ok s" by (rule peers_reachable_ok)
  then have "pair_ok (left_peer s opt sd) (right_peer s opt (other sd)) [] []"
    using peers_okD [of s opt sd] assms(2,3) by simp
  then show ?thesis by (rule pair_ok_quiet)
qed

theorem peers_quiescent_agree_witness:
  "peers_reachable handshake_done \<and> left_peer handshake_done 24 Remote = Yes
   \<and> right_peer handshake_done 24 Local = Yes"
proof -
  have "to_left handshake_done = []" "to_right handshake_done = []"
    by (simp_all add: handshake_done_def)
  from peers_quiescent_agree [OF handshake_done_reachable this, of 24 Remote]
  have "left_peer handshake_done 24 Remote = right_peer handshake_done 24 Local"
    by (simp add: other_def)
  moreover have "left_peer handshake_done 24 Remote = Yes" by (simp add: handshake_defs)
  ultimately show ?thesis using handshake_done_reachable by simp
qed

text \<open>
  C22. No negotiation loop: from any reachable state, at most 3584 deliveries (seven for each of
  the 512 option sides) can happen without a new request, and as long as a message is in flight
  a delivery is possible, so every run of deliveries ends with both wires empty.
\<close>

theorem peers_no_negotiation_loop:
  assumes "peers_reachable s" and "(peers_deliver ^^ k) s t"
  shows "k \<le> 3584 \<and> ((\<nexists>u. peers_deliver t u) \<longrightarrow> to_left t = [] \<and> to_right t = [])"
proof -
  from assms(1) have "peers_ok s" by (rule peers_reachable_ok)
  then have "k \<le> 3584"
    using peers_deliver_run_work [OF assms(2)] peers_work_le [of s] by simp
  then show ?thesis using peers_can_deliver by blast
qed

theorem peers_no_negotiation_loop_witness:
  "(peers_deliver ^^ 2) handshake_requested handshake_done \<and> (2::nat) \<le> 3584"
proof -
  have two: "(peers_deliver ^^ 2) handshake_requested handshake_done"
    using handshake_answered_step handshake_done_step
    by (auto simp: numeral_2_eq_2)
  show ?thesis using two peers_no_negotiation_loop [OF handshake_requested_reachable two] by blast
qed

text \<open>
  The engine never floods the wire: in every reachable state at most two messages about one
  option and one endpoint's side are in flight, counting both directions.
\<close>

lemma peers_in_flight_bound:
  assumes "peers_reachable s"
  shows "length (filter (\<lambda>(v, o'). o' = opt \<and> verb_side v = other sd) (to_right s))
         + length (filter (\<lambda>(v, o'). o' = opt \<and> verb_side v = sd) (to_left s)) \<le> 2"
  using pair_ok_in_flight [OF peers_okD [OF peers_reachable_ok [OF assms], of opt sd]]
  by (simp add: polarities_def)

end
