(* ===== verification/Rust_Str.thy ===== *)
theory Rust_Str
  imports Prelude
begin

text \<open>
  The parts of Rust's \<open>str\<close>, \<open>String\<close> and byte-slice library that the sources use. A string is
  its UTF-8 bytes: \<open>str::from_utf8\<close> checks them, \<open>String::from_utf8_lossy\<close> repairs them, and the
  ASCII operations work byte by byte. \<open>trim\<close> removes the Unicode white space of the standard
  library, written as its UTF-8 encodings.
\<close>

unbundle bit_operations_syntax

section \<open>Bytes and ASCII\<close>

type_synonym bytes = "u8 list"

definition bstr :: "string \<Rightarrow> bytes" where
  "bstr s = map of_char s"

definition ascii_lower :: "u8 \<Rightarrow> u8" where
  "ascii_lower b = (if 65 \<le> b \<and> b \<le> 90 then b + 32 else b)"

definition to_ascii_lowercase :: "bytes \<Rightarrow> bytes" where
  "to_ascii_lowercase s = map ascii_lower s"

definition eq_ignore_ascii_case :: "bytes \<Rightarrow> bytes \<Rightarrow> bool" where
  "eq_ignore_ascii_case s t \<longleftrightarrow> map ascii_lower s = map ascii_lower t"

definition is_ascii_digit :: "u8 \<Rightarrow> bool" where
  "is_ascii_digit b \<longleftrightarrow> 48 \<le> b \<and> b \<le> 57"

definition is_ascii_alphanumeric :: "u8 \<Rightarrow> bool" where
  "is_ascii_alphanumeric b \<longleftrightarrow>
     (48 \<le> b \<and> b \<le> 57) \<or> (65 \<le> b \<and> b \<le> 90) \<or> (97 \<le> b \<and> b \<le> 122)"

text \<open>\<open>u8::is_ascii_whitespace\<close>: space, tab, line feed, form feed and carriage return.\<close>

definition is_ascii_whitespace :: "u8 \<Rightarrow> bool" where
  "is_ascii_whitespace b \<longleftrightarrow> b = 32 \<or> b = 9 \<or> b = 10 \<or> b = 12 \<or> b = 13"

section \<open>UTF-8 validity\<close>

definition is_cont :: "u8 \<Rightarrow> bool" where
  "is_cont b \<longleftrightarrow> 128 \<le> b \<and> b \<le> 191"

definition second_ok3 :: "u8 \<Rightarrow> u8 \<Rightarrow> bool" where
  "second_ok3 b c \<longleftrightarrow>
     (b = 224 \<and> 160 \<le> c \<and> c \<le> 191) \<or> (225 \<le> b \<and> b \<le> 236 \<and> is_cont c)
     \<or> (b = 237 \<and> 128 \<le> c \<and> c \<le> 159) \<or> (238 \<le> b \<and> b \<le> 239 \<and> is_cont c)"

definition second_ok4 :: "u8 \<Rightarrow> u8 \<Rightarrow> bool" where
  "second_ok4 b c \<longleftrightarrow>
     (b = 240 \<and> 144 \<le> c \<and> c \<le> 191) \<or> (241 \<le> b \<and> b \<le> 243 \<and> is_cont c)
     \<or> (b = 244 \<and> 128 \<le> c \<and> c \<le> 143)"

text \<open>
  The tests on the bytes after a lead byte, from the standard library's width table; \<open>None\<close> for
  a byte that leads no character.
\<close>

definition tail_checks :: "u8 \<Rightarrow> (u8 \<Rightarrow> bool) list option" where
  "tail_checks b =
     (if b \<le> 127 then Some []
      else if 194 \<le> b \<and> b \<le> 223 then Some [is_cont]
      else if 224 \<le> b \<and> b \<le> 239 then Some [second_ok3 b, is_cont]
      else if 240 \<le> b \<and> b \<le> 244 then Some [second_ok4 b, is_cont, is_cont]
      else None)"

fun match_tail :: "(u8 \<Rightarrow> bool) list \<Rightarrow> bytes \<Rightarrow> nat \<Rightarrow> bool \<times> nat" where
  "match_tail [] s n = (True, n)"
| "match_tail (p # ps) [] n = (False, n)"
| "match_tail (p # ps) (c # s) n = (if p c then match_tail ps s (Suc n) else (False, n))"

text \<open>
  The first character of a byte list: \<open>(True, n)\<close> when its \<open>n\<close> bytes encode a scalar value,
  \<open>(False, n)\<close> when the first \<open>n\<close> bytes are one maximal invalid sequence.
\<close>

fun utf8_head :: "bytes \<Rightarrow> bool \<times> nat" where
  "utf8_head [] = (False, 0)"
| "utf8_head (b # r) =
     (case tail_checks b of None \<Rightarrow> (False, 1) | Some ps \<Rightarrow> match_tail ps r 1)"

lemma match_tail_ge: "n \<le> snd (match_tail ps s n)"
  by (induction ps s n rule: match_tail.induct) auto

lemma match_tail_le: "snd (match_tail ps s n) \<le> n + length s"
  by (induction ps s n rule: match_tail.induct) auto

lemma match_tail_append:
  "fst (match_tail ps s n) \<Longrightarrow> match_tail ps (s @ t) n = match_tail ps s n"
  by (induction ps s n rule: match_tail.induct) auto

lemma match_tail_take:
  "fst (match_tail ps s n) \<Longrightarrow>
   match_tail ps (take (snd (match_tail ps s n) - n) s) n = match_tail ps s n"
proof (induction ps s n rule: match_tail.induct)
  case (3 p ps c s n)
  then have "p c" by (auto split: if_splits)
  with 3 have "match_tail ps (take (snd (match_tail ps s (Suc n)) - Suc n) s) (Suc n)
      = match_tail ps s (Suc n)" by simp
  moreover have "Suc n \<le> snd (match_tail ps s (Suc n))" by (rule match_tail_ge)
  ultimately show ?case using \<open>p c\<close> by (simp add: take_Cons')
qed auto

lemma match_tail_excludes:
  "fst (match_tail ps s n) \<Longrightarrow> (\<forall>p\<in>set ps. \<not> p b) \<Longrightarrow>
   b \<notin> set (take (snd (match_tail ps s n) - n) s)"
proof (induction ps s n rule: match_tail.induct)
  case (3 p ps c s n)
  then have "p c" by (auto split: if_splits)
  moreover have "Suc n \<le> snd (match_tail ps s (Suc n))" by (rule match_tail_ge)
  ultimately show ?case using 3 by (auto simp: take_Cons' split: if_splits)
qed auto

lemma utf8_head_pos: "s \<noteq> [] \<Longrightarrow> 1 \<le> snd (utf8_head s)"
  by (cases s) (auto simp: match_tail_ge split: option.split)

lemma utf8_head_le: "snd (utf8_head s) \<le> length s"
proof (cases s)
  case (Cons b r)
  then show ?thesis using match_tail_le [of _ r 1] by (auto split: option.split)
qed simp

function utf8_valid :: "bytes \<Rightarrow> bool" where
  "utf8_valid s =
     (if s = [] then True else fst (utf8_head s) \<and> utf8_valid (drop (snd (utf8_head s)) s))"
  by pat_completeness auto
termination
proof (relation "measure length")
  fix s :: bytes
  assume "s \<noteq> []"
  then show "(drop (snd (utf8_head s)) s, s) \<in> measure length"
    using utf8_head_pos [of s] by simp
qed simp

declare utf8_valid.simps [simp del]

text \<open>\<open>str::from_utf8\<close> and \<open>String::from_utf8\<close>: the bytes themselves, when valid.\<close>

definition from_utf8 :: "bytes \<Rightarrow> bytes option" where
  "from_utf8 s = (if utf8_valid s then Some s else None)"

text \<open>\<open>String::from_utf8_lossy\<close>: each maximal invalid sequence becomes U+FFFD.\<close>

function from_utf8_lossy :: "bytes \<Rightarrow> bytes" where
  "from_utf8_lossy s =
     (if s = [] then []
      else (if fst (utf8_head s) then take (snd (utf8_head s)) s else [239, 191, 189])
           @ from_utf8_lossy (drop (snd (utf8_head s)) s))"
  by pat_completeness auto
termination
proof (relation "measure length")
  fix s :: bytes
  assume "s \<noteq> []"
  then show "(drop (snd (utf8_head s)) s, s) \<in> measure length"
    using utf8_head_pos [of s] by simp
qed simp

declare from_utf8_lossy.simps [simp del]

text \<open>\<open>str::chars\<close>: the encodings of the characters of a valid string.\<close>

function utf8_chars :: "bytes \<Rightarrow> bytes list" where
  "utf8_chars s =
     (if s = [] then []
      else take (snd (utf8_head s)) s # utf8_chars (drop (snd (utf8_head s)) s))"
  by pat_completeness auto
termination
proof (relation "measure length")
  fix s :: bytes
  assume "s \<noteq> []"
  then show "(drop (snd (utf8_head s)) s, s) \<in> measure length"
    using utf8_head_pos [of s] by simp
qed simp

declare utf8_chars.simps [simp del]

text \<open>\<open>str::is_char_boundary\<close>.\<close>

definition is_char_boundary :: "bytes \<Rightarrow> nat \<Rightarrow> bool" where
  "is_char_boundary s i \<longleftrightarrow>
     i = 0 \<or> (if length s \<le> i then i = length s else \<not> is_cont (s ! i))"

section \<open>Trimming and searching\<close>

text \<open>The UTF-8 encodings of the characters for which \<open>char::is_whitespace\<close> holds.\<close>

definition white_space :: "bytes list" where
  "white_space =
     [[9], [10], [11], [12], [13], [32], [194, 133], [194, 160], [225, 154, 128]]
     @ map (\<lambda>b. [226, 128, b]) [128, 129, 130, 131, 132, 133, 134, 135, 136, 137, 138, 168, 169, 175]
     @ [[226, 129, 159], [227, 128, 128]]"

definition strip_prefix :: "bytes \<Rightarrow> bytes \<Rightarrow> bytes option" where
  "strip_prefix p s = (if take (length p) s = p then Some (drop (length p) s) else None)"

definition strip_suffix :: "bytes \<Rightarrow> bytes \<Rightarrow> bytes option" where
  "strip_suffix p s =
     (if length p \<le> length s \<and> drop (length s - length p) s = p
      then Some (take (length s - length p) s) else None)"

definition head_white :: "bytes \<Rightarrow> nat" where
  "head_white s =
     (case List.find (\<lambda>w. take (length w) s = w) white_space of None \<Rightarrow> 0 | Some w \<Rightarrow> length w)"

definition last_white :: "bytes \<Rightarrow> nat" where
  "last_white s =
     (case List.find (\<lambda>w. length w \<le> length s \<and> drop (length s - length w) s = w) white_space of
        None \<Rightarrow> 0 | Some w \<Rightarrow> length w)"

lemma white_space_nonempty: "w \<in> set white_space \<Longrightarrow> w \<noteq> []"
  by (auto simp: white_space_def)

lemma head_white_le: "head_white s \<le> length s"
proof (cases "List.find (\<lambda>w. take (length w) s = w) white_space")
  case (Some w)
  then have "take (length w) s = w" by (auto dest: find_Some_iff_first)
  then have "length w \<le> length s" by (metis length_take min.cobounded1)
  with Some show ?thesis by (simp add: head_white_def)
qed (simp add: head_white_def)

lemma last_white_le: "last_white s \<le> length s"
  by (auto simp: last_white_def dest: find_Some_iff_first split: option.splits)

function trim_start :: "bytes \<Rightarrow> bytes" where
  "trim_start s = (if head_white s = 0 then s else trim_start (drop (head_white s) s))"
  by pat_completeness auto
termination
proof (relation "measure length")
  fix s :: bytes
  assume "head_white s \<noteq> 0"
  then show "(drop (head_white s) s, s) \<in> measure length"
    using head_white_le [of s] by (auto simp: diff_less)
qed simp

function trim_end :: "bytes \<Rightarrow> bytes" where
  "trim_end s = (if last_white s = 0 then s else trim_end (take (length s - last_white s) s))"
  by pat_completeness auto
termination
proof (relation "measure length")
  fix s :: bytes
  assume "last_white s \<noteq> 0"
  then show "(take (length s - last_white s) s, s) \<in> measure length"
    using last_white_le [of s] by auto
qed simp

declare trim_start.simps [simp del] trim_end.simps [simp del]

definition trim :: "bytes \<Rightarrow> bytes" where
  "trim s = trim_end (trim_start s)"

text \<open>Splitting at the characters for which \<open>char::is_whitespace\<close> holds.\<close>

fun find_white :: "bytes \<Rightarrow> nat" where
  "find_white [] = 0"
| "find_white (b # bs) = (if head_white (b # bs) \<noteq> 0 then 0 else Suc (find_white bs))"

lemma find_white_hit: "find_white s < length s \<Longrightarrow> 0 < head_white (drop (find_white s) s)"
  by (induction s) (auto split: if_splits)

function split_white :: "bytes \<Rightarrow> bytes list" where
  "split_white s =
     (let i = find_white s
      in if length s \<le> i then [s] else take i s # split_white (drop (i + head_white (drop i s)) s))"
  by pat_completeness auto
termination
proof (relation "measure length", goal_cases)
  case (2 s i)
  then show ?case using find_white_hit [of s] by (simp del: length_drop add: length_drop)
qed simp

declare split_white.simps [simp del]

definition split_whitespace :: "bytes \<Rightarrow> bytes list" where
  "split_whitespace s = filter (\<lambda>w. w \<noteq> []) (split_white s)"

text \<open>\<open>str::find\<close> with a predicate on bytes, the whole length when nothing matches.\<close>

fun find_or_len :: "(u8 \<Rightarrow> bool) \<Rightarrow> bytes \<Rightarrow> nat" where
  "find_or_len p [] = 0"
| "find_or_len p (b # bs) = (if p b then 0 else Suc (find_or_len p bs))"

fun find_byte :: "(u8 \<Rightarrow> bool) \<Rightarrow> bytes \<Rightarrow> nat option" where
  "find_byte p [] = None"
| "find_byte p (b # bs) = (if p b then Some 0 else map_option Suc (find_byte p bs))"

text \<open>\<open>slice::split\<close> on one byte: the fields between separators, always at least one.\<close>

fun split_on :: "u8 \<Rightarrow> bytes \<Rightarrow> bytes list" where
  "split_on sep [] = [[]]"
| "split_on sep (b # bs) =
     (if b = sep then [] # split_on sep bs
      else (b # hd (split_on sep bs)) # tl (split_on sep bs))"

text \<open>\<open>str::split_once\<close> on one ASCII byte, and the value of a string of digits.\<close>

definition split_once :: "u8 \<Rightarrow> bytes \<Rightarrow> (bytes \<times> bytes) option" where
  "split_once sep s =
     (if sep \<in> set s then Some (takeWhile (\<lambda>b. b \<noteq> sep) s, tl (dropWhile (\<lambda>b. b \<noteq> sep) s)) else None)"

definition decimal :: "bytes \<Rightarrow> nat" where
  "decimal s = fold (\<lambda>b n. 10 * n + unat (b - 48)) s 0"

text \<open>\<open>str::parse::<usize>\<close>: an optional plus sign and digits, below \<open>2 ^ 64\<close>.\<close>

definition parse_usize :: "bytes \<Rightarrow> nat option" where
  "parse_usize s =
     (let ds = (case strip_prefix [43] s of Some r \<Rightarrow> r | None \<Rightarrow> s)
      in if ds \<noteq> [] \<and> list_all is_ascii_digit ds \<and> fits_u64 (decimal ds) then Some (decimal ds) else None)"

text \<open>\<open>char::is_control\<close>: U+0000 to U+001F and U+007F to U+009F.\<close>

definition is_control :: "bytes \<Rightarrow> bool" where
  "is_control c \<longleftrightarrow>
     (case c of
        [b] \<Rightarrow> b \<le> 31 \<or> b = 127
      | [b, d] \<Rightarrow> b = 194 \<and> 128 \<le> d \<and> d \<le> 159
      | _ \<Rightarrow> False)"

section \<open>Lemmas\<close>

lemma length_to_ascii_lowercase [simp]: "length (to_ascii_lowercase s) = length s"
  by (simp add: to_ascii_lowercase_def)

lemma eq_ignore_ascii_case_refl [simp]: "eq_ignore_ascii_case s s"
  by (simp add: eq_ignore_ascii_case_def)

lemma ascii_lower_idem [simp]: "ascii_lower (ascii_lower b) = ascii_lower b"
proof (cases "65 \<le> b \<and> b \<le> 90")
  case True
  then have "\<not> (b + 32 \<le> 90)" by (simp add: word_le_nat_alt unat_word_ariths)
  with True show ?thesis by (simp add: ascii_lower_def)
next
  case False
  then show ?thesis by (auto simp: ascii_lower_def)
qed

lemma to_ascii_lowercase_idem [simp]: "to_ascii_lowercase (to_ascii_lowercase s) = to_ascii_lowercase s"
  by (simp add: to_ascii_lowercase_def)

lemma utf8_valid_Nil [simp]: "utf8_valid []"
  by (simp add: utf8_valid.simps)

lemma utf8_head_append:
  "fst (utf8_head s) \<Longrightarrow> utf8_head (s @ t) = utf8_head s"
  by (cases s) (auto simp: match_tail_append split: option.splits)

lemma utf8_head_take:
  assumes "fst (utf8_head s)"
  shows "utf8_head (take (snd (utf8_head s)) s) = utf8_head s"
proof (cases s)
  case (Cons b r)
  with assms obtain ps where ps: "tail_checks b = Some ps" by (auto split: option.splits)
  with assms Cons have "match_tail ps (take (snd (match_tail ps r 1) - 1) r) 1 = match_tail ps r 1"
    by (simp add: match_tail_take [of ps r 1, simplified])
  moreover have "1 \<le> snd (match_tail ps r 1)" by (rule match_tail_ge)
  ultimately show ?thesis using Cons ps by (simp add: take_Cons')
qed (use assms in simp)

lemma utf8_valid_append:
  "utf8_valid s \<Longrightarrow> utf8_valid (s @ t) \<longleftrightarrow> utf8_valid t"
proof (induction s rule: utf8_valid.induct)
  case (1 s)
  show ?case
  proof (cases "s = []")
    case True
    then show ?thesis by simp
  next
    case False
    with 1 have hd: "fst (utf8_head s)" and tl: "utf8_valid (drop (snd (utf8_head s)) s)"
      by (simp_all add: utf8_valid.simps [of s])
    from False hd have "utf8_valid (s @ t) = utf8_valid (drop (snd (utf8_head s)) s @ t)"
      using utf8_head_le [of s]
      by (simp add: utf8_valid.simps [of "s @ t"] utf8_head_append)
    also have "\<dots> = utf8_valid t" using "1.IH" [OF False tl] .
    finally show ?thesis .
  qed
qed

lemma utf8_valid_char: "fst (utf8_head s) \<Longrightarrow> utf8_valid (take (snd (utf8_head s)) s)"
  using utf8_head_take [of s] by (cases "s = []") (simp_all add: utf8_valid.simps [of "take _ s"])

lemma utf8_valid_replacement: "utf8_valid [239, 191, 189]"
  by (simp add: utf8_valid.simps tail_checks_def second_ok3_def is_cont_def)

lemma from_utf8_lossy_valid: "utf8_valid (from_utf8_lossy s)"
proof (induction s rule: from_utf8_lossy.induct)
  case (1 s)
  then show ?case
    by (subst from_utf8_lossy.simps)
      (simp add: utf8_valid_append utf8_valid_char utf8_valid_replacement)
qed

lemma from_utf8_lossy_id: "utf8_valid s \<Longrightarrow> from_utf8_lossy s = s"
proof (induction s rule: from_utf8_lossy.induct)
  case (1 s)
  then show ?case
    by (cases "s = []")
      (simp_all add: from_utf8_lossy.simps [of s] utf8_valid.simps [of s] from_utf8_lossy.simps [of "[]"])
qed

lemma tail_checks_no_255: "tail_checks b = Some ps \<Longrightarrow> b \<noteq> 255 \<and> (\<forall>p\<in>set ps. \<not> p 255)"
  by (auto simp: tail_checks_def second_ok3_def second_ok4_def is_cont_def split: if_splits)

lemma utf8_head_no_255:
  assumes "fst (utf8_head s)"
  shows "255 \<notin> set (take (snd (utf8_head s)) s)"
proof (cases s)
  case (Cons b r)
  with assms obtain ps where ps: "tail_checks b = Some ps" by (auto split: option.splits)
  with assms Cons have "255 \<notin> set (take (snd (match_tail ps r 1) - 1) r)"
    using match_tail_excludes [of ps r 1 255] tail_checks_no_255 [OF ps] by auto
  then show ?thesis using Cons ps tail_checks_no_255 [OF ps] by (auto simp: take_Cons')
qed (use assms in simp)

lemma utf8_valid_no_255: "utf8_valid s \<Longrightarrow> 255 \<notin> set s"
proof (induction s rule: utf8_valid.induct)
  case (1 s)
  show ?case
  proof (cases "s = []")
    case False
    with 1 have hd: "fst (utf8_head s)" and tl: "utf8_valid (drop (snd (utf8_head s)) s)"
      by (simp_all add: utf8_valid.simps [of s])
    have "255 \<notin> set (take (snd (utf8_head s)) s @ drop (snd (utf8_head s)) s)"
      using utf8_head_no_255 [OF hd] "1.IH" [OF False tl]
      by (simp del: append_take_drop_id)
    then show ?thesis by (simp only: append_take_drop_id not_False_eq_True)
  qed simp
qed

lemma ascii_utf8_valid: "\<forall>b\<in>set s. b \<le> 127 \<Longrightarrow> utf8_valid s"
  by (induction s) (simp_all add: utf8_valid.simps [of "_ # _"] tail_checks_def)

lemma find_or_len_le: "find_or_len p s \<le> length s"
  by (induction s) auto

lemma find_or_len_take: "b \<in> set (take (find_or_len p s) s) \<Longrightarrow> \<not> p b"
  by (induction s) (auto split: if_splits)

lemma find_byte_lt: "find_byte p s = Some i \<Longrightarrow> i < length s"
  by (induction s arbitrary: i) (auto split: if_splits)

lemma trim_start_length: "length (trim_start s) \<le> length s"
proof (induction s rule: trim_start.induct)
  case (1 s)
  then show ?case by (cases "head_white s = 0") (simp_all add: trim_start.simps [of s])
qed

lemma split_on_nonempty [simp]: "split_on sep s \<noteq> []"
  by (cases s) simp_all

lemma match_tail_high:
  "(\<forall>p\<in>set ps. \<forall>c. p c \<longrightarrow> 128 \<le> c) \<Longrightarrow>
   \<forall>c\<in>set (take (snd (match_tail ps s n) - n) s). 128 \<le> c"
proof (induction ps s n rule: match_tail.induct)
  case (3 p ps c s n)
  have "Suc n \<le> snd (match_tail ps s (Suc n))" by (rule match_tail_ge)
  then show ?case using 3 by (auto simp: take_Cons')
qed auto

lemma tail_checks_high:
  "tail_checks b = Some ps \<Longrightarrow> \<forall>p\<in>set ps. \<forall>c. p c \<longrightarrow> 128 \<le> c"
  by (auto simp: tail_checks_def is_cont_def second_ok3_def second_ok4_def word_le_nat_alt
      split: if_splits)

lemma match_tail_length: "fst (match_tail ps s n) \<Longrightarrow> snd (match_tail ps s n) = n + length ps"
  by (induction ps s n rule: match_tail.induct) (auto split: if_splits)

text \<open>A character is one ASCII byte or consists of bytes from 128 up.\<close>

lemma utf8_char_shape:
  assumes "fst (utf8_head s)"
  shows "(\<exists>b. take (snd (utf8_head s)) s = [b] \<and> b \<le> 127)
         \<or> (\<forall>b\<in>set (take (snd (utf8_head s)) s). 128 \<le> b)"
proof (cases s)
  case (Cons b r)
  with assms obtain ps where ps: "tail_checks b = Some ps" by (auto split: option.splits)
  have n: "snd (utf8_head s) = Suc (length ps)"
    using assms Cons ps match_tail_length [of ps r 1] by simp
  show ?thesis
  proof (cases "b \<le> 127")
    case True
    with ps have "ps = []" by (simp add: tail_checks_def)
    with True Cons n show ?thesis by simp
  next
    case False
    then have "128 \<le> b" by (simp add: word_le_nat_alt)
    moreover have "\<forall>c\<in>set (take (length ps) r). 128 \<le> c"
      using match_tail_high [OF tail_checks_high [OF ps], of r 1] assms Cons ps
        match_tail_length [of ps r 1] by simp
    ultimately show ?thesis using Cons n by auto
  qed
qed (use assms in simp)

lemma utf8_chars_shape:
  "utf8_valid s \<Longrightarrow> c \<in> set (utf8_chars s) \<Longrightarrow> (\<exists>b. c = [b] \<and> b \<le> 127) \<or> (\<forall>b\<in>set c. 128 \<le> b)"
proof (induction s rule: utf8_chars.induct)
  case (1 s)
  show ?case
  proof (cases "s = []")
    case True
    with "1.prems" show ?thesis by (simp add: utf8_chars.simps)
  next
    case False
    with "1.prems"(1) have "fst (utf8_head s)" "utf8_valid (drop (snd (utf8_head s)) s)"
      by (simp_all add: utf8_valid.simps [of s])
    then show ?thesis
      using "1.IH" [OF False] "1.prems"(2) False utf8_char_shape [of s]
      by (auto simp: utf8_chars.simps [of s])
  qed
qed

text \<open>Text that begins and ends with graphic characters is its own trimming.\<close>

lemma white_space_ends: "w \<in> set white_space \<Longrightarrow> \<not> (33 \<le> hd w \<and> hd w < 128) \<and> \<not> (33 \<le> last w \<and> last w < 128)"
proof -
  have "list_all (\<lambda>w. \<not> (33 \<le> hd w \<and> hd w < 128) \<and> \<not> (33 \<le> last w \<and> last w < 128)) white_space"
    by (simp add: white_space_def)
  then show "w \<in> set white_space \<Longrightarrow> ?thesis" by (simp add: list_all_iff)
qed

lemma head_white_graphic:
  assumes "s \<noteq> []" and "33 \<le> hd s \<and> hd s < 128"
  shows "head_white s = 0"
proof -
  have "take (length w) s \<noteq> w" if w: "w \<in> set white_space" for w
  proof
    assume "take (length w) s = w"
    then have "hd w = hd s" using white_space_nonempty [OF w] assms(1) by (cases s; cases w) auto
    then show False using white_space_ends [OF w] assms(2) by simp
  qed
  then have "List.find (\<lambda>w. take (length w) s = w) white_space = None" by (auto simp: find_None_iff)
  then show ?thesis by (simp add: head_white_def)
qed

lemma last_white_graphic:
  assumes "s \<noteq> []" and "33 \<le> last s \<and> last s < 128"
  shows "last_white s = 0"
proof -
  have "\<not> (length w \<le> length s \<and> drop (length s - length w) s = w)" if w: "w \<in> set white_space" for w
  proof
    assume "length w \<le> length s \<and> drop (length s - length w) s = w"
    then have "last w = last s"
      using white_space_nonempty [OF w] last_drop [of "length s - length w" s] by (cases w) auto
    then show False using white_space_ends [OF w] assms(2) by simp
  qed
  then have "List.find (\<lambda>w. length w \<le> length s \<and> drop (length s - length w) s = w) white_space = None"
    unfolding find_None_iff by blast
  then show ?thesis by (simp add: last_white_def)
qed

lemma trim_graphic:
  "s \<noteq> [] \<Longrightarrow> 33 \<le> hd s \<and> hd s < 128 \<Longrightarrow> 33 \<le> last s \<and> last s < 128 \<Longrightarrow> trim s = s"
  by (simp add: trim_def trim_start.simps trim_end.simps head_white_graphic last_white_graphic)

end
