(* ===== verification/BTree_Map.thy ===== *)
theory BTree_Map
  imports Prelude "HOL-Library.List_Lexorder" "HOL-Library.Product_Lexorder"
begin

text \<open>
  \<open>std::collections::BTreeMap\<close> as an association list in strictly increasing key order, which
  is its iteration order: \<open>insert\<close>, \<open>remove\<close>, \<open>retain\<close>, \<open>get\<close>, \<open>len\<close> and \<open>last_key_value\<close>. The
  locale \<open>map_store\<close> is the contract its clients use; the last command of the section
  interprets it on the association lists.
\<close>

section \<open>The contract\<close>

locale map_store =
  fixes ok :: "'m \<Rightarrow> bool"
    and get :: "'m \<Rightarrow> 'k \<Rightarrow> 'v option"
    and insert :: "'k \<Rightarrow> 'v \<Rightarrow> 'm \<Rightarrow> 'm"
    and remove :: "'k \<Rightarrow> 'm \<Rightarrow> 'm"
  assumes get_insert: "ok m \<Longrightarrow> get (insert k v m) = (get m)(k \<mapsto> v)"
    and get_remove: "ok m \<Longrightarrow> get (remove k m) = (get m)(k := None)"
    and ok_insert: "ok m \<Longrightarrow> ok (insert k v m)"
    and ok_remove: "ok m \<Longrightarrow> ok (remove k m)"
begin

definition assign :: "'k \<Rightarrow> 'v option \<Rightarrow> 'm \<Rightarrow> 'm" where
  "assign k x m = (case x of None \<Rightarrow> remove k m | Some v \<Rightarrow> insert k v m)"

lemma ok_assign: "ok m \<Longrightarrow> ok (assign k x m)"
  by (simp add: assign_def ok_insert ok_remove split: option.split)

lemma get_assign: "ok m \<Longrightarrow> get (assign k x m) = (get m)(k := x)"
  by (simp add: assign_def get_insert get_remove split: option.split)

lemma ok_fold_assign: "ok m \<Longrightarrow> ok (fold (\<lambda>(k, x). assign k x) us m)"
  by (induction us arbitrary: m) (auto simp: ok_assign)

lemma get_fold_assign:
  "ok m \<Longrightarrow> get (fold (\<lambda>(k, x). assign k x) us m) = fold (\<lambda>(k, x) g. g(k := x)) us (get m)"
  by (induction us arbitrary: m) (auto simp: ok_assign get_assign)

end

section \<open>Sorted association lists\<close>

type_synonym ('k, 'v) btree = "('k \<times> 'v) list"

definition bt_ok :: "('k::linorder, 'v) btree \<Rightarrow> bool" where
  "bt_ok m \<longleftrightarrow> sorted_wrt (<) (map fst m)"

fun bt_insert :: "'k::linorder \<Rightarrow> 'v \<Rightarrow> ('k, 'v) btree \<Rightarrow> ('k, 'v) btree" where
  "bt_insert k v [] = [(k, v)]"
| "bt_insert k v ((k', v') # m) =
     (if k < k' then (k, v) # (k', v') # m
      else if k = k' then (k, v) # m
      else (k', v') # bt_insert k v m)"

definition bt_remove :: "'k::linorder \<Rightarrow> ('k, 'v) btree \<Rightarrow> ('k, 'v) btree" where
  "bt_remove k m = filter (\<lambda>e. fst e \<noteq> k) m"

definition bt_retain :: "('k \<Rightarrow> 'v \<Rightarrow> bool) \<Rightarrow> ('k::linorder, 'v) btree \<Rightarrow> ('k, 'v) btree" where
  "bt_retain P m = filter (\<lambda>(k, v). P k v) m"

definition bt_get :: "('k, 'v) btree \<Rightarrow> 'k::linorder \<Rightarrow> 'v option" where
  "bt_get m k = map_of m k"

section \<open>Lemmas\<close>

lemma bt_ok_Nil [simp]: "bt_ok []"
  by (simp add: bt_ok_def)

lemma bt_ok_Cons: "bt_ok ((k, v) # m) \<longleftrightarrow> (\<forall>k'\<in>fst ` set m. k < k') \<and> bt_ok m"
  by (auto simp: bt_ok_def)

lemma bt_ok_distinct: "bt_ok m \<Longrightarrow> distinct (map fst m)"
  by (induction m) (force simp: bt_ok_Cons)+

lemma bt_ok_filter: "bt_ok m \<Longrightarrow> bt_ok (filter P m)"
  by (induction m) (auto simp: bt_ok_Cons)

lemma keys_bt_insert: "fst ` set (bt_insert k v m) = insert k (fst ` set m)"
  by (induction k v m rule: bt_insert.induct) auto

lemma bt_ok_insert: "bt_ok m \<Longrightarrow> bt_ok (bt_insert k v m)"
proof (induction k v m rule: bt_insert.induct)
  case (2 k v k' v' m)
  then show ?case by (fastforce simp: bt_ok_Cons keys_bt_insert)
qed (simp add: bt_ok_def)

lemma map_of_bt_insert: "bt_ok m \<Longrightarrow> map_of (bt_insert k v m) = (map_of m)(k \<mapsto> v)"
proof (induction k v m rule: bt_insert.induct)
  case (2 k v k' v' m)
  then show ?case by (auto simp: bt_ok_Cons fun_eq_iff)
qed (simp add: fun_eq_iff)

lemma map_of_filter_key: "map_of (filter (\<lambda>e. fst e \<noteq> k) m) = (map_of m)(k := None)"
  by (induction m) (auto simp: fun_eq_iff)

lemma map_of_filter_distinct:
  "distinct (map fst m) \<Longrightarrow>
   map_of (filter (\<lambda>(k, v). P k v) m) k =
     (case map_of m k of None \<Rightarrow> None | Some v \<Rightarrow> if P k v then Some v else None)"
  by (induction m) (auto simp: map_of_eq_None_iff image_iff split: option.splits)

lemma length_bt_insert:
  "bt_ok m \<Longrightarrow> length (bt_insert k v m) = (if k \<in> fst ` set m then length m else Suc (length m))"
proof (induction k v m rule: bt_insert.induct)
  case (2 k v k' v' m)
  then show ?case by (auto simp: bt_ok_Cons)
qed simp

lemma set_bt_insert: "bt_ok m \<Longrightarrow> set (bt_insert k v m) = insert (k, v) {e \<in> set m. fst e \<noteq> k}"
proof (induction k v m rule: bt_insert.induct)
  case (2 k v k' v' m)
  then show ?case by (auto simp: bt_ok_Cons)
qed simp

lemma set_bt_insert_subset: "set (bt_insert k v m) \<subseteq> insert (k, v) (set m)"
  by (induction k v m rule: bt_insert.induct) auto

lemma bt_get_in_set: "bt_ok m \<Longrightarrow> bt_get m k = Some v \<longleftrightarrow> (k, v) \<in> set m"
  by (simp add: bt_get_def bt_ok_distinct map_of_eq_Some_iff)

lemma bt_insert_last:
  "\<forall>k'\<in>fst ` set m. k' < k \<Longrightarrow> bt_insert k v m = m @ [(k, v)]"
  by (induction k v m rule: bt_insert.induct) auto

lemma sum_list_bt_insert_new:
  fixes f :: "'k::linorder \<times> 'v \<Rightarrow> nat"
  assumes "k \<notin> fst ` set m"
  shows "sum_list (map f (bt_insert k v m)) = f (k, v) + sum_list (map f m)"
  using assms by (induction k v m rule: bt_insert.induct) auto

text \<open>Sums over the entries when one entry is replaced or removed.\<close>

lemma sum_list_bt_replace:
  fixes f :: "'k::linorder \<times> 'v \<Rightarrow> nat"
  assumes "bt_ok m" and "bt_get m k = Some v"
  shows "sum_list (map f (bt_insert k v' m)) + f (k, v) = sum_list (map f m) + f (k, v')"
  using assms
proof (induction m)
  case (Cons x m)
  obtain j u where x: "x = (j, u)" by (cases x)
  have ok: "bt_ok m" "\<forall>j'\<in>fst ` set m. j < j'" using Cons.prems(1) x by (auto simp: bt_ok_Cons)
  show ?case
  proof (cases "k = j")
    case True
    then show ?thesis using Cons.prems x by (simp add: bt_get_def)
  next
    case False
    then have get: "bt_get m k = Some v" using Cons.prems(2) x by (simp add: bt_get_def)
    then have "j < k" using ok(2) by (force simp: bt_get_def dest: map_of_SomeD)
    then show ?thesis using Cons.IH [OF ok(1) get] x by auto
  qed
qed (simp add: bt_get_def)

lemma sum_list_bt_remove:
  fixes f :: "'k::linorder \<times> 'v \<Rightarrow> nat"
  assumes "bt_ok m" and "bt_get m k = Some v"
  shows "sum_list (map f (bt_remove k m)) + f (k, v) = sum_list (map f m)"
  using assms
proof (induction m)
  case (Cons x m)
  obtain j u where x: "x = (j, u)" by (cases x)
  have ok: "bt_ok m" "\<forall>j'\<in>fst ` set m. j < j'" using Cons.prems(1) x by (auto simp: bt_ok_Cons)
  show ?case
  proof (cases "k = j")
    case True
    then have "filter (\<lambda>e. fst e \<noteq> k) m = m" using ok(2) by (force simp: filter_id_conv)
    then show ?thesis using Cons.prems x True by (simp add: bt_get_def bt_remove_def)
  next
    case False
    then have get: "bt_get m k = Some v" using Cons.prems(2) x by (simp add: bt_get_def)
    then show ?thesis using Cons.IH [OF ok(1) get] x False by (simp add: bt_remove_def)
  qed
qed (simp add: bt_get_def)

interpretation bt: map_store bt_ok bt_get bt_insert bt_remove
  by unfold_locales
    (auto simp: bt_get_def [abs_def] bt_remove_def map_of_bt_insert map_of_filter_key
      bt_ok_insert bt_ok_filter)

section \<open>Collecting an iterator: later keys win\<close>

definition bt_collect :: "('k::linorder \<times> 'v) list \<Rightarrow> ('k, 'v) btree" where
  "bt_collect xs = fold (\<lambda>(k, v). bt_insert k v) xs []"

lemma bt_collect_snoc: "bt_collect (xs @ [(k, v)]) = bt_insert k v (bt_collect xs)"
  by (simp add: bt_collect_def)

lemma bt_ok_collect: "bt_ok (bt_collect xs)"
proof (induction xs rule: rev_induct)
  case (snoc x xs)
  then show ?case by (cases x) (simp add: bt_collect_snoc bt_ok_insert)
qed (simp add: bt_collect_def)

lemma keys_bt_collect: "fst ` set (bt_collect xs) = fst ` set xs"
proof (induction xs rule: rev_induct)
  case (snoc x xs)
  then show ?case by (cases x) (simp add: bt_collect_snoc keys_bt_insert)
qed (simp add: bt_collect_def)

lemma set_bt_collect: "set (bt_collect xs) \<subseteq> set xs"
proof (induction xs rule: rev_induct)
  case (snoc x xs)
  then show ?case using set_bt_insert_subset [of "fst x" "snd x" "bt_collect xs"] by (cases x) (auto simp: bt_collect_snoc)
qed (simp add: bt_collect_def)

lemma bt_get_collect:
  assumes "(k, v) \<in> set xs" and "\<And>v'. (k, v') \<in> set xs \<Longrightarrow> v' = v"
  shows "bt_get (bt_collect xs) k = Some v"
proof -
  have "k \<in> fst ` set (bt_collect xs)" using assms(1) by (force simp: keys_bt_collect)
  then obtain v' where "(k, v') \<in> set (bt_collect xs)" by force
  then show ?thesis using assms(2) set_bt_collect by (fastforce simp: bt_get_in_set [OF bt_ok_collect])
qed

lemma bt_get_collect_None: "k \<notin> fst ` set xs \<Longrightarrow> bt_get (bt_collect xs) k = None"
  by (simp add: bt_get_def map_of_eq_None_iff keys_bt_collect)

lemma bt_collect_id: "bt_ok xs \<Longrightarrow> bt_collect xs = xs"
proof (induction xs rule: rev_induct)
  case (snoc x xs)
  have "bt_ok xs" "\<forall>k\<in>fst ` set xs. k < fst x" using snoc.prems by (auto simp: bt_ok_def sorted_wrt_append)
  then show ?case using snoc.IH by (cases x) (simp add: bt_collect_snoc bt_insert_last)
qed (simp add: bt_collect_def)

section \<open>Grouping: entry, or_default, push\<close>

definition bt_push :: "'k::linorder \<Rightarrow> 'a \<Rightarrow> ('k, 'a list) btree \<Rightarrow> ('k, 'a list) btree" where
  "bt_push k x m = bt_insert k ((case bt_get m k of Some xs \<Rightarrow> xs | None \<Rightarrow> []) @ [x]) m"

definition bt_group :: "('a \<Rightarrow> 'k::linorder) \<Rightarrow> 'a list \<Rightarrow> ('k, 'a list) btree" where
  "bt_group key xs = fold (\<lambda>x. bt_push (key x) x) xs []"

lemma bt_group_snoc: "bt_group key (xs @ [x]) = bt_push (key x) x (bt_group key xs)"
  by (simp add: bt_group_def)

lemma bt_ok_group: "bt_ok (bt_group key xs)"
  by (induction xs rule: rev_induct)
    (simp add: bt_group_def, simp add: bt_group_snoc bt_push_def bt.ok_insert)

lemma bt_get_group:
  "bt_get (bt_group key xs) k =
     (if filter (\<lambda>x. key x = k) xs = [] then None else Some (filter (\<lambda>x. key x = k) xs))"
proof (induction xs rule: rev_induct)
  case Nil
  show ?case by (simp add: bt_group_def bt_get_def)
next
  case (snoc x xs)
  then show ?case
    by (auto simp: bt_group_snoc bt_push_def bt.get_insert bt_ok_group split: if_splits)
qed

lemma in_bt_group:
  "(k, g) \<in> set (bt_group key xs) \<longleftrightarrow> g = filter (\<lambda>x. key x = k) xs \<and> g \<noteq> []"
  using bt_get_in_set [OF bt_ok_group, of key xs k g] by (auto simp: bt_get_group split: if_splits)

lemma distinct_groups: "distinct (map snd (bt_group key xs))"
proof -
  have "distinct (bt_group key xs)"
    using bt_ok_distinct [OF bt_ok_group, of key xs] by (simp add: distinct_map)
  moreover have "inj_on snd (set (bt_group key xs))"
  proof (rule inj_onI)
    fix p q assume p: "p \<in> set (bt_group key xs)" and q: "q \<in> set (bt_group key xs)" and eq: "snd p = snd q"
    have sp: "snd p = filter (\<lambda>x. key x = fst p) xs \<and> snd p \<noteq> []"
      using p in_bt_group [of "fst p" "snd p" key xs] by (simp only: prod.collapse)
    have sq: "snd q = filter (\<lambda>x. key x = fst q) xs" using q in_bt_group [of "fst q" "snd q" key xs] by simp
    obtain y where y: "y \<in> set (snd p)" using conjunct2 [OF sp] by (meson hd_in_set)
    have "y \<in> set (filter (\<lambda>x. key x = fst p) xs)" using y sp by metis
    moreover have "y \<in> set (filter (\<lambda>x. key x = fst q) xs)" using y eq sq by metis
    ultimately have "fst p = fst q" by auto
    then show "p = q" using eq by (simp add: prod_eq_iff)
  qed
  ultimately show ?thesis by (simp add: distinct_map)
qed

lemma length_groups: "sum_list (map (\<lambda>p. length (snd p)) (bt_group key xs)) = length xs"
proof (induction xs rule: rev_induct)
  case (snoc x xs)
  show ?case
  proof (cases "bt_get (bt_group key xs) (key x)")
    case None
    then have "key x \<notin> fst ` set (bt_group key xs)" by (simp add: bt_get_def map_of_eq_None_iff)
    then show ?thesis
      using snoc.IH None by (simp add: bt_group_snoc bt_push_def sum_list_bt_insert_new)
  next
    case (Some g)
    then show ?thesis
      using snoc.IH sum_list_bt_replace [OF bt_ok_group Some, of "\<lambda>p. length (snd p)" "g @ [x]"]
      by (simp add: bt_group_snoc bt_push_def)
  qed
qed (simp add: bt_group_def)

end
