(* ===== verification/Telnet_Environment.thy ===== *)
theory Telnet_Environment
  imports Rust_Str BTree_Map
begin

text \<open>
  \<open>crates/telnet/src/environment.rs\<close>: NEW-ENVIRON (RFC 1572) storage of one connection.
  \<open>env_read\<close> decodes one escaped field, \<open>env_updates\<close> the update loop and \<open>env_update\<close> one IS or
  INFO message, which is committed only after complete validation.
\<close>

section \<open>Definitions\<close>

datatype env_kind = Var | UserVar

instantiation env_kind :: linorder
begin

definition less_env_kind :: "env_kind \<Rightarrow> env_kind \<Rightarrow> bool" where
  "less_env_kind a b \<longleftrightarrow> a = Var \<and> b = UserVar"

definition less_eq_env_kind :: "env_kind \<Rightarrow> env_kind \<Rightarrow> bool" where
  "less_eq_env_kind a b \<longleftrightarrow> a = Var \<or> b = UserVar"

instance
proof
  fix x y z :: env_kind
  show "x < y \<longleftrightarrow> x \<le> y \<and> \<not> y \<le> x" "x \<le> x" "x \<le> y \<or> y \<le> x"
    by (cases x; cases y; simp add: less_env_kind_def less_eq_env_kind_def)+
  show "x \<le> y \<Longrightarrow> y \<le> z \<Longrightarrow> x \<le> z" "x \<le> y \<Longrightarrow> y \<le> x \<Longrightarrow> x = y"
    by (cases x; cases y; cases z; simp add: less_eq_env_kind_def)+
qed

end

datatype env_error =
    ExpectedIsOrInfo | ExpectedVarOrUserVar | TooManyUpdates | TrailingEscape | FieldLimit
  | StorageLimit

type_synonym environment = "(env_kind \<times> bytes, bytes) btree"

text \<open>The field at the front of \<open>p\<close> and what follows it, stopping before a structural marker.\<close>

fun env_read :: "nat \<Rightarrow> bytes \<Rightarrow> bytes \<Rightarrow> (env_error, bytes \<times> bytes) result" where
  "env_read limit out [] = Inr (out, [])"
| "env_read limit out (b # p) =
     (if b = 0 \<or> b = 1 \<or> b = 3 then Inr (out, b # p)
      else if b = 2 then
        (case p of
           [] \<Rightarrow> Inl TrailingEscape
         | c # p' \<Rightarrow>
             if length (out @ [c]) \<le> limit then env_read limit (out @ [c]) p' else Inl FieldLimit)
      else if length (out @ [b]) \<le> limit then env_read limit (out @ [b]) p else Inl FieldLimit)"

lemma env_read_shrinks: "env_read limit out p = Inr (field, rest) \<Longrightarrow> length rest \<le> length p"
proof (induction limit out p rule: env_read.induct)
  case (2 limit out b p)
  show ?case
    using "2.prems" "2.IH"(1) [of "hd p" "tl p"] "2.IH"(2)
    by (auto split: if_splits list.splits)
qed simp

definition env_total :: "environment \<Rightarrow> nat" where
  "env_total env = sum_list (map (\<lambda>((_, n), v). length n + length v) env)"

definition env_within_limits :: "environment \<Rightarrow> bool" where
  "env_within_limits env \<longleftrightarrow> length env \<le> 64 \<and> env_total env \<le> 65536"

definition env_kind_of :: "u8 \<Rightarrow> env_kind option" where
  "env_kind_of b = (if b = 0 then Some Var else if b = 3 then Some UserVar else None)"

text \<open>The optional value after a name: a VALUE marker (1) and the next field.\<close>

definition env_value :: "bytes \<Rightarrow> (env_error, bytes option \<times> bytes) result" where
  "env_value p =
     (case p of
        b # p' \<Rightarrow>
          if b = 1 then bind_result (env_read 4096 [] p') (\<lambda>(v, rest). Inr (Some v, rest))
          else Inr (None, p)
      | [] \<Rightarrow> Inr (None, p))"

lemma env_value_shrinks: "env_value p = Inr (v, rest) \<Longrightarrow> length rest \<le> length p"
  by (auto simp: env_value_def bind_result_Inr_iff split: list.splits if_splits
      dest!: env_read_shrinks)

function env_updates :: "nat \<Rightarrow> environment \<Rightarrow> bytes \<Rightarrow> (env_error, environment) result" where
  "env_updates updates env [] = Inr env"
| "env_updates updates env (b # p) =
     (case env_kind_of b of
        None \<Rightarrow> Inl ExpectedVarOrUserVar
      | Some kind \<Rightarrow>
          if 64 < Suc updates then Inl TooManyUpdates
          else
            (case env_read 256 [] p of
               Inl e \<Rightarrow> Inl e
             | Inr (name, p1) \<Rightarrow>
                 (case env_value p1 of
                    Inl e \<Rightarrow> Inl e
                  | Inr (value, p2) \<Rightarrow>
                      let next = (case value of
                                    Some v \<Rightarrow> bt_insert (kind, name) v env
                                  | None \<Rightarrow> bt_remove (kind, name) env)
                      in if env_within_limits next then env_updates (Suc updates) next p2
                         else Inl StorageLimit)))"
  by pat_completeness auto
termination
  by (relation "measure (\<lambda>(_, _, p). length p)")
    (auto dest!: env_read_shrinks env_value_shrinks)

definition env_update :: "environment \<Rightarrow> bytes \<Rightarrow> (env_error, environment) result" where
  "env_update env p =
     (case p of
        [] \<Rightarrow> Inl ExpectedIsOrInfo
      | b # p' \<Rightarrow>
          if b = 0 then env_updates 0 [] p'
          else if b = 2 then env_updates 0 env p'
          else Inl ExpectedIsOrInfo)"

section \<open>Well-formed environments and the wire form of updates\<close>

definition env_ok :: "environment \<Rightarrow> bool" where
  "env_ok env \<longleftrightarrow> bt_ok env \<and> env_within_limits env
     \<and> (\<forall>((_, n), v) \<in> set env. length n \<le> 256 \<and> length v \<le> 4096)"

text \<open>
  What a client sends: each structural byte of a field (0 to 3) is preceded by the escape 2, a
  variable with a value carries the VALUE marker, a variable without one is an undefinition.
\<close>

type_synonym env_entry = "(env_kind \<times> bytes) \<times> bytes option"

fun env_escape :: "bytes \<Rightarrow> bytes" where
  "env_escape [] = []"
| "env_escape (b # bs) = (if b \<le> 3 then [2, b] else [b]) @ env_escape bs"

definition env_marker :: "env_kind \<Rightarrow> u8" where
  "env_marker k = (case k of Var \<Rightarrow> 0 | UserVar \<Rightarrow> 3)"

fun env_wire :: "env_entry list \<Rightarrow> bytes" where
  "env_wire [] = []"
| "env_wire (((k, n), v) # us) =
     env_marker k # env_escape n
     @ (case v of None \<Rightarrow> [] | Some x \<Rightarrow> 1 # env_escape x) @ env_wire us"

definition env_assign :: "env_entry \<Rightarrow> environment \<Rightarrow> environment" where
  "env_assign u env = bt.assign (fst u) (snd u) env"

text \<open>Every prefix of the updates stays within the storage limits.\<close>

fun env_fits :: "environment \<Rightarrow> env_entry list \<Rightarrow> bool" where
  "env_fits env [] = True"
| "env_fits env (u # us) =
     (length (snd (fst u)) \<le> 256 \<and> (case snd u of None \<Rightarrow> True | Some x \<Rightarrow> length x \<le> 4096)
      \<and> env_within_limits (env_assign u env) \<and> env_fits (env_assign u env) us)"

section \<open>Lemmas\<close>

lemma env_read_length:
  "env_read limit out p = Inr (field, rest) \<Longrightarrow> length out \<le> limit \<Longrightarrow> length field \<le> limit"
proof (induction limit out p rule: env_read.induct)
  case (2 limit out b p)
  show ?case
    using "2.prems" "2.IH"(1) [of "hd p" "tl p"] "2.IH"(2)
    by (auto split: if_splits list.splits)
qed simp

lemma env_value_length: "env_value p = Inr (Some v, rest) \<Longrightarrow> length v \<le> 4096"
  by (auto simp: env_value_def bind_result_Inr_iff split: list.splits if_splits
      dest: env_read_length)

lemma env_ok_Nil [simp]: "env_ok []"
  by (simp add: env_ok_def env_within_limits_def env_total_def)

lemma env_next_eq_assign:
  "(case value of Some v \<Rightarrow> bt_insert k v env | None \<Rightarrow> bt_remove k env) = bt.assign k value env"
  by (simp add: bt.assign_def split: option.split)

lemma set_bt_assign_subset:
  "set (bt.assign k x env) \<subseteq> set env \<union> (case x of None \<Rightarrow> {} | Some v \<Rightarrow> {(k, v)})"
  using set_bt_insert_subset [of k _ env] by (auto simp: bt.assign_def bt_remove_def split: option.split)

lemma env_ok_assign:
  assumes "env_ok env" and "length n \<le> 256"
    and "\<And>v. x = Some v \<Longrightarrow> length v \<le> 4096"
    and "env_within_limits (bt.assign (k, n) x env)"
  shows "env_ok (bt.assign (k, n) x env)"
  using assms set_bt_assign_subset [of "(k, n)" x env]
  by (fastforce simp: env_ok_def bt.ok_assign split: option.splits)

lemma env_updates_ok:
  "env_updates updates env p = Inr env' \<Longrightarrow> env_ok env \<Longrightarrow> env_ok env'"
proof (induction updates env p rule: env_updates.induct)
  case (1 updates env)
  then show ?case by simp
next
  case (2 updates env b p)
  from "2.prems"(1) obtain kind name p1 x p2 where
    steps: "env_kind_of b = Some kind" "\<not> 64 < Suc updates" "env_read 256 [] p = Inr (name, p1)"
      "env_value p1 = Inr (x, p2)"
      "env_within_limits (bt.assign (kind, name) x env)"
      "env_updates (Suc updates) (bt.assign (kind, name) x env) p2 = Inr env'"
    by (auto simp: env_next_eq_assign Let_def split: option.splits if_splits sum.splits)
  have "env_ok (bt.assign (kind, name) x env)"
    using steps "2.prems"(2)
    by (intro env_ok_assign) (auto dest: env_read_length env_value_length)
  then show ?case
    using "2.IH" steps by (simp add: env_next_eq_assign)
qed

lemma env_read_escape:
  "length (out @ bs) \<le> limit \<Longrightarrow> (rest = [] \<or> hd rest \<in> {0, 1, 3}) \<Longrightarrow>
   env_read limit out (env_escape bs @ rest) = Inr (out @ bs, rest)"
proof (induction bs arbitrary: out)
  case Nil
  then show ?case by (cases rest) auto
next
  case (Cons b bs)
  have small: "b \<le> 3 \<longleftrightarrow> b = 0 \<or> b = 1 \<or> b = 2 \<or> b = 3"
    by (auto simp: word_le_nat_alt word_unat_eq_iff)
  show ?case using Cons.IH [of "out @ [b]"] Cons.prems by (auto simp: small)
qed

lemma env_wire_hd: "env_wire us = [] \<or> hd (env_wire us) \<in> {0, 1, 3}"
  by (cases us rule: env_wire.cases) (auto simp: env_marker_def split: env_kind.split)

lemma env_kind_of_marker [simp]: "env_kind_of (env_marker k) = Some k"
  by (cases k) (simp_all add: env_kind_of_def env_marker_def)

lemma env_wire_not_value: "env_wire us = b # p \<Longrightarrow> b \<noteq> 1"
  by (cases us rule: env_wire.cases) (auto simp: env_marker_def split: env_kind.splits)

lemma env_value_wire:
  assumes "\<And>x. v = Some x \<Longrightarrow> length x \<le> 4096"
  shows "env_value ((case v of None \<Rightarrow> [] | Some x \<Rightarrow> 1 # env_escape x) @ env_wire us)
         = Inr (v, env_wire us)"
proof (cases v)
  case None
  then show ?thesis
    by (cases "env_wire us") (auto simp: env_value_def dest: env_wire_not_value)
next
  case (Some x)
  with assms env_read_escape [of "[]" x 4096 "env_wire us"] env_wire_hd [of us]
  show ?thesis by (simp add: env_value_def)
qed

lemma env_updates_wire:
  "updates + length us \<le> 64 \<Longrightarrow> env_fits env us \<Longrightarrow>
   env_updates updates env (env_wire us) = Inr (fold env_assign us env)"
proof (induction us arbitrary: updates env)
  case Nil
  then show ?case by simp
next
  case (Cons u us)
  obtain k n v where u: "u = ((k, n), v)" by (cases u) auto
  let ?tail = "(case v of None \<Rightarrow> [] | Some x \<Rightarrow> 1 # env_escape x) @ env_wire us"
  have hd: "?tail = [] \<or> hd ?tail \<in> {0, 1, 3}"
    using env_wire_hd [of us] by (auto split: option.split)
  have "env_read 256 [] (env_escape n @ ?tail) = Inr (n, ?tail)"
    using env_read_escape [of "[]" n 256 ?tail] hd Cons.prems by (simp add: u)
  moreover have "env_value ?tail = Inr (v, env_wire us)"
    using Cons.prems by (intro env_value_wire) (auto simp: u)
  ultimately show ?case
    using Cons.prems Cons.IH [of "Suc updates" "env_assign u env"]
    by (simp add: u env_next_eq_assign env_assign_def)
qed

lemma env_update_ok: "env_ok env \<Longrightarrow> env_update env p = Inr env' \<Longrightarrow> env_ok env'"
  by (auto simp: env_update_def split: list.splits if_splits dest: env_updates_ok)

section \<open>Properties\<close>

text \<open>
  C32. An accepted NEW-ENVIRON message keeps the connection's environment within its budget: at
  most 64 variables and 65536 bytes in total, names of at most 256 and values of at most 4096
  bytes, each variable stored once.
\<close>

theorem env_update_within_budget:
  assumes "env_ok env" and "env_update env p = Inr env'"
  shows "env_ok env'"
  using assms by (rule env_update_ok)

theorem env_update_within_budget_witness:
  "env_update [] [0, 0, 65, 1, 66] = Inr [((Var, [65]), [66])] \<and> env_ok [((Var, [65]), [66])]"
proof -
  have run: "env_update [] [0, 0, 65, 1, 66] = Inr [((Var, [65]), [66])]"
    by (simp add: env_update_def env_kind_of_def env_value_def env_within_limits_def env_total_def)
  show ?thesis using run env_update_within_budget [OF env_ok_Nil run] by simp
qed

text \<open>
  C23. Decoding inverts the RFC 1572 encoding: up to 64 definitions and undefinitions sent in an
  INFO message (2) patch the current environment in order, sent in an IS message (0) they
  replace it, whatever bytes names and values contain, as long as the limits are respected.
\<close>

theorem env_update_roundtrip:
  assumes "length us \<le> 64"
  shows "(env_fits env us \<longrightarrow> env_update env (2 # env_wire us) = Inr (fold env_assign us env))
       \<and> (env_fits [] us \<longrightarrow> env_update env (0 # env_wire us) = Inr (fold env_assign us []))"
  using env_updates_wire [of 0 us] assms by (simp add: env_update_def)

theorem env_update_roundtrip_witness:
  "env_update [((Var, [65]), [66])] (2 # env_wire [((UserVar, [1, 7]), Some [0]), ((Var, [65]), None)])
   = Inr [((UserVar, [1, 7]), [0])]"
proof -
  let ?us = "[((UserVar, [1, 7]), Some [0]), ((Var, [65]), None)]"
  let ?env = "[((Var, [65]), [66])]"
  have fits: "env_fits ?env ?us"
    by (simp add: env_assign_def bt.assign_def bt_remove_def env_within_limits_def env_total_def
        less_env_kind_def)
  have "fold env_assign ?us ?env = [((UserVar, [1, 7]), [0])]"
    by (simp add: env_assign_def bt.assign_def bt_remove_def less_env_kind_def)
  then show ?thesis using env_update_roundtrip [of ?us ?env] fits by simp
qed

end
