(* ===== verification/Telnet_Mxp.thy ===== *)
theory Telnet_Mxp
  imports Rust_Str BTree_Map
begin

text \<open>
  \<open>crates/telnet/src/mxp.rs\<close>: the MXP handshake. \<open>tag_parse\<close> reads one \<open><NAME attribute=value>\<close>
  reply, \<open>mxp_receive\<close> applies it to what is known about the client, \<open>mxp_quote\<close> prints an
  attribute value that cannot leave its quotes.
\<close>

section \<open>Definitions\<close>

definition MXP_OPTION :: u8 where "MXP_OPTION = 91"

definition LOCK_LOCKED :: bytes where "LOCK_LOCKED = 27 # bstr ''[7z''"
definition TEMP_SECURE :: bytes where "TEMP_SECURE = 27 # bstr ''[4z''"
definition SECURE_LINE :: bytes where "SECURE_LINE = 27 # bstr ''[1z''"

definition MAX_SUPPORTED_TAGS :: nat where "MAX_SUPPORTED_TAGS = 256"
definition MAX_TOKEN_BYTES :: nat where "MAX_TOKEN_BYTES = 63"

record mxp_client =
  client_name :: bytes
  client_version :: bytes
  client_mxp_version :: bytes
  client_registered :: "bool option"
  version_received :: bool
  supports_received :: bool
  client_supports :: "(bytes, unit) btree"

definition mxp_client_default :: mxp_client where
  "mxp_client_default =
     \<lparr>client_name = [], client_version = [], client_mxp_version = [], client_registered = None,
      version_received = False, supports_received = False, client_supports = []\<rparr>"

record mxp_tag =
  tag_name :: bytes
  tag_attributes :: "(bytes \<times> bytes option) list"

fun boundary_before :: "bytes \<Rightarrow> nat \<Rightarrow> nat" where
  "boundary_before s 0 = 0"
| "boundary_before s (Suc n) = (if is_char_boundary s (Suc n) then Suc n else boundary_before s n)"

definition bounded :: "bytes \<Rightarrow> bytes" where
  "bounded s =
     (if length s \<le> MAX_TOKEN_BYTES then s else take (boundary_before s MAX_TOKEN_BYTES) s)"

text \<open>The value after \<open>=\<close> and what follows it: quoted up to its closing quote, or one word.\<close>

definition attribute_value :: "bytes \<Rightarrow> bytes \<times> bytes" where
  "attribute_value rest =
     (case rest of
        q # body \<Rightarrow>
          if q = 34 \<or> q = 39 then
            (case find_byte (\<lambda>b. b = q) body of
               Some close \<Rightarrow> (take close body, drop (close + 1) body)
             | None \<Rightarrow> (body, []))
          else
            (let end = find_or_len is_ascii_whitespace rest in (take end rest, drop end rest))
      | [] \<Rightarrow> ([], []))"

lemma attribute_value_shrinks: "length (snd (attribute_value rest)) \<le> length rest"
  by (auto simp: attribute_value_def Let_def split: list.split option.split)

definition attribute_rest :: "bytes \<Rightarrow> bytes option \<times> bytes" where
  "attribute_rest rest =
     (case strip_prefix [61] rest of
        Some tail \<Rightarrow> (let (parsed, tail') = attribute_value tail in (Some (bounded parsed), tail'))
      | None \<Rightarrow> (None, rest))"

lemma attribute_rest_shrinks: "length (snd (attribute_rest rest)) \<le> length rest"
  using attribute_value_shrinks [of "drop 1 rest"]
  by (auto simp: attribute_rest_def strip_prefix_def Let_def case_prod_unfold)

definition name_end :: "bytes \<Rightarrow> nat" where
  "name_end rest = find_or_len (\<lambda>b. is_ascii_whitespace b \<or> b = 61) rest"

text \<open>
  The attribute loop. The character skipped when \<open>name_end\<close> is 0 satisfied an ASCII test, so it
  is one byte.
\<close>

function tag_attribute_list :: "bytes \<Rightarrow> (bytes \<times> bytes option) list" where
  "tag_attribute_list rest =
     (if rest = [] then []
      else if name_end rest = 0 then tag_attribute_list (drop 1 rest)
      else
        (to_ascii_lowercase (bounded (take (name_end rest) rest)),
         fst (attribute_rest (drop (name_end rest) rest)))
        # tag_attribute_list (trim_start (snd (attribute_rest (drop (name_end rest) rest)))))"
  by pat_completeness auto
termination
proof (relation "measure length")
  fix rest :: bytes
  assume "rest \<noteq> []" and pos: "name_end rest \<noteq> 0"
  have "length (trim_start (snd (attribute_rest (drop (name_end rest) rest))))
        \<le> length (drop (name_end rest) rest)"
    using trim_start_length attribute_rest_shrinks order_trans by blast
  also have "\<dots> < length rest"
    using pos \<open>rest \<noteq> []\<close> by simp
  finally show "(trim_start (snd (attribute_rest (drop (name_end rest) rest))), rest) \<in> measure length"
    by simp
qed simp_all

declare tag_attribute_list.simps [simp del]

definition tag_name_ok :: "bytes \<Rightarrow> bool" where
  "tag_name_ok name \<longleftrightarrow> name \<noteq> [] \<and> list_all (\<lambda>b. is_ascii_alphanumeric b \<or> b = 33) name"

definition tag_parse :: "bytes \<Rightarrow> mxp_tag option" where
  "tag_parse line =
     (case strip_prefix [60] (trim line) of
        None \<Rightarrow> None
      | Some opened \<Rightarrow>
          (case strip_suffix [62] opened of
             None \<Rightarrow> None
           | Some inner \<Rightarrow>
               let rest = trim_start inner;
                   end = find_or_len is_ascii_whitespace rest;
                   name = to_ascii_lowercase (bounded (take end rest))
               in if \<not> tag_name_ok name then None
                  else Some \<lparr>tag_name = name,
                             tag_attributes = tag_attribute_list (trim_start (drop end rest))\<rparr>))"

definition version_attribute :: "bytes \<times> bytes option \<Rightarrow> mxp_client \<Rightarrow> mxp_client" where
  "version_attribute attr c =
     (let (name, v) = attr; text = (case v of None \<Rightarrow> [] | Some x \<Rightarrow> x)
      in if name = bstr ''client'' then c\<lparr>client_name := text\<rparr>
         else if name = bstr ''version'' then c\<lparr>client_version := text\<rparr>
         else if name = bstr ''mxp'' then c\<lparr>client_mxp_version := text\<rparr>
         else if name = bstr ''registered'' then
           c\<lparr>client_registered := Some (eq_ignore_ascii_case text (bstr ''yes''))\<rparr>
         else c)"

definition supports_attribute :: "bytes \<times> bytes option \<Rightarrow> mxp_client \<Rightarrow> mxp_client" where
  "supports_attribute attr c =
     (let (name, v) = attr
      in if v \<noteq> None then c
         else
           (case strip_prefix [43] name of
              Some tag \<Rightarrow>
                if tag \<noteq> [] \<and> length (client_supports c) < MAX_SUPPORTED_TAGS
                then c\<lparr>client_supports := bt_insert tag () (client_supports c)\<rparr> else c
            | None \<Rightarrow>
                (case strip_prefix [45] name of
                   Some tag \<Rightarrow> c\<lparr>client_supports := bt_remove tag (client_supports c)\<rparr>
                 | None \<Rightarrow> c)))"

definition mxp_receive :: "mxp_client \<Rightarrow> bytes \<Rightarrow> mxp_client option" where
  "mxp_receive c line =
     (case tag_parse line of
        None \<Rightarrow> None
      | Some tag \<Rightarrow>
          if tag_name tag = bstr ''version'' then
            Some (fold version_attribute (tag_attributes tag) (c\<lparr>version_received := True\<rparr>))
          else if tag_name tag = bstr ''supports'' then
            Some (fold supports_attribute (tag_attributes tag)
                    (c\<lparr>supports_received := True, client_supports := []\<rparr>))
          else None)"

definition mxp_supports :: "mxp_client \<Rightarrow> bytes \<Rightarrow> bool" where
  "mxp_supports c tag \<longleftrightarrow> bt_get (client_supports c) (to_ascii_lowercase tag) \<noteq> None"

definition secure_tag :: "bytes \<Rightarrow> bytes" where
  "secure_tag tag = TEMP_SECURE @ tag"

definition mxp_activation :: bytes where
  "mxp_activation = LOCK_LOCKED @ secure_tag (bstr ''<VERSION>'') @ secure_tag (bstr ''<SUPPORT>'')"

definition quote_char :: "bytes \<Rightarrow> bytes" where
  "quote_char c =
     (if c = [34] then bstr ''&quot;''
      else if c = [60] then bstr ''&lt;''
      else if c = [62] then bstr ''&gt;''
      else if is_control c then []
      else c)"

definition mxp_quote :: "bytes \<Rightarrow> bytes" where
  "mxp_quote s = [34] @ concat (map quote_char (utf8_chars s)) @ [34]"

definition reply_body :: "bytes \<Rightarrow> bytes option" where
  "reply_body line =
     (case strip_prefix SECURE_LINE line of
        None \<Rightarrow> None
      | Some body \<Rightarrow> if take 1 (trim_start body) = [60] then Some body else None)"

section \<open>What a client can make the server retain\<close>

definition mxp_ok :: "mxp_client \<Rightarrow> bool" where
  "mxp_ok c \<longleftrightarrow>
     length (client_name c) \<le> 63 \<and> length (client_version c) \<le> 63
     \<and> length (client_mxp_version c) \<le> 63
     \<and> bt_ok (client_supports c) \<and> length (client_supports c) \<le> 256
     \<and> (\<forall>(t, _) \<in> set (client_supports c). length t \<le> 62 \<and> to_ascii_lowercase t = t)"

lemma boundary_before_le: "boundary_before s n \<le> n"
  by (induction n) auto

lemma bounded_length: "length (bounded s) \<le> 63"
  using boundary_before_le [of s 63] by (auto simp: bounded_def MAX_TOKEN_BYTES_def)

definition attribute_ok :: "bytes \<times> bytes option \<Rightarrow> bool" where
  "attribute_ok a \<longleftrightarrow>
     length (fst a) \<le> 63 \<and> to_ascii_lowercase (fst a) = fst a
     \<and> (case snd a of None \<Rightarrow> True | Some v \<Rightarrow> length v \<le> 63)"

lemma attribute_rest_ok:
  "case fst (attribute_rest rest) of None \<Rightarrow> True | Some v \<Rightarrow> length v \<le> 63"
  by (auto simp: attribute_rest_def bounded_length Let_def split: option.splits prod.splits)

lemma attribute_ok_parsed:
  "attribute_ok (to_ascii_lowercase (bounded s), fst (attribute_rest rest))"
  using attribute_rest_ok [of rest] by (simp add: attribute_ok_def bounded_length)

lemma tag_attribute_list_ok: "list_all attribute_ok (tag_attribute_list rest)"
proof (induction rest rule: tag_attribute_list.induct)
  case (1 rest)
  then show ?case
    by (subst tag_attribute_list.simps)
      (simp add: attribute_ok_parsed)
qed

lemma tag_parse_attributes_ok:
  "tag_parse line = Some tag \<Longrightarrow> list_all attribute_ok (tag_attributes tag)"
  by (auto simp: tag_parse_def Let_def tag_attribute_list_ok split: option.splits if_splits)

lemma version_attribute_ok: "attribute_ok a \<Longrightarrow> mxp_ok c \<Longrightarrow> mxp_ok (version_attribute a c)"
  by (cases a) (auto simp: version_attribute_def mxp_ok_def attribute_ok_def Let_def split: option.splits)

lemma supports_attribute_ok:
  assumes a: "attribute_ok a" and c: "mxp_ok c"
  shows "mxp_ok (supports_attribute a c)"
proof -
  obtain name v where a': "a = (name, v)" by (cases a)
  have tag: "length tag \<le> 62 \<and> to_ascii_lowercase tag = tag"
    if "strip_prefix [p] name = Some tag" for p tag
    using a that
    by (cases name) (auto simp: a' attribute_ok_def strip_prefix_def to_ascii_lowercase_def split: if_splits)
  have ins: "mxp_ok (c\<lparr>client_supports := bt_insert tag () (client_supports c)\<rparr>)"
    if "strip_prefix [p] name = Some tag" "length (client_supports c) < 256" for p tag
    using c tag [OF that(1)] that(2)
    by (auto simp: mxp_ok_def bt_ok_insert length_bt_insert set_bt_insert)
  have del: "mxp_ok (c\<lparr>client_supports := bt_remove tag (client_supports c)\<rparr>)" for tag
    using c by (auto simp: mxp_ok_def bt_remove_def bt_ok_filter intro: le_trans [OF length_filter_le])
  show ?thesis
    using c ins del
    by (auto simp: a' supports_attribute_def MAX_SUPPORTED_TAGS_def split: option.splits)
qed

lemma fold_mxp_ok:
  assumes "\<And>a c. attribute_ok a \<Longrightarrow> mxp_ok c \<Longrightarrow> mxp_ok (f a c)"
  shows "list_all attribute_ok as \<Longrightarrow> mxp_ok c \<Longrightarrow> mxp_ok (fold f as c)"
  by (induction "as" arbitrary: c) (auto simp: assms)

lemma mxp_ok_default: "mxp_ok mxp_client_default"
  by (simp add: mxp_ok_def mxp_client_default_def)

lemma mxp_receive_ok:
  assumes "mxp_ok c" and "mxp_receive c line = Some c'"
  shows "mxp_ok c'"
proof -
  from assms(2) obtain tag where tag: "tag_parse line = Some tag"
    by (auto simp: mxp_receive_def split: option.splits)
  have base: "mxp_ok (c\<lparr>version_received := True\<rparr>)"
      "mxp_ok (c\<lparr>supports_received := True, client_supports := []\<rparr>)"
    using assms(1) by (simp_all add: mxp_ok_def)
  show ?thesis
    using assms(2) tag_parse_attributes_ok [OF tag] base
    by (auto simp: mxp_receive_def tag fold_mxp_ok version_attribute_ok supports_attribute_ok
        split: if_splits)
qed

section \<open>Properties\<close>

text \<open>
  However many protocol replies a client sends and whatever they contain, what the server
  keeps stays bounded: at most 256 distinct advertised tags of at most 62 bytes, stored in lower
  case, and at most 63 bytes for each of the client, version and protocol fields.
\<close>

lemma mxp_replies_bounded:
  "mxp_ok (fold (\<lambda>line c. case mxp_receive c line of Some c' \<Rightarrow> c' | None \<Rightarrow> c)
             lines mxp_client_default)"
proof -
  have "mxp_ok c \<Longrightarrow> mxp_ok (fold (\<lambda>line c. case mxp_receive c line of Some c' \<Rightarrow> c' | None \<Rightarrow> c) lines c)"
    for c
    by (induction lines arbitrary: c) (auto simp: mxp_receive_ok split: option.split)
  then show ?thesis using mxp_ok_default by blast
qed

lemma quote_char_safe:
  assumes "(\<exists>b. c = [b] \<and> b \<le> 127) \<or> (\<forall>b\<in>set c. 128 \<le> b)" and "x \<in> set (quote_char c)"
  shows "x \<noteq> 34 \<and> x \<noteq> 60 \<and> x \<noteq> 62 \<and> 32 \<le> x \<and> x \<noteq> 127"
  using assms(1)
proof
  assume "\<exists>b. c = [b] \<and> b \<le> 127"
  then show ?thesis
    using assms(2)
    by (auto simp: quote_char_def bstr_def is_control_def word_le_nat_alt split: if_splits)
next
  assume "\<forall>b\<in>set c. 128 \<le> b"
  then show ?thesis
    using assms(2)
    by (fastforce simp: quote_char_def bstr_def word_le_nat_alt split: if_splits)
qed

text \<open>
  A quoted attribute value cannot leave its quotes or its tag: between the two quotes of
  \<open>mxp_quote s\<close> there is no quote, no angle bracket and no ASCII control character, whatever
  valid string \<open>s\<close> is.
\<close>

lemma mxp_quote_confined:
  assumes "utf8_valid s"
  shows "\<exists>body. mxp_quote s = [34] @ body @ [34]
           \<and> (\<forall>x. x \<in> set body \<longrightarrow> x \<noteq> 34 \<and> x \<noteq> 60 \<and> x \<noteq> 62 \<and> 32 \<le> x \<and> x \<noteq> 127)"
proof (intro exI conjI allI impI)
  show "mxp_quote s = [34] @ concat (map quote_char (utf8_chars s)) @ [34]"
    by (simp add: mxp_quote_def)
  fix x assume "x \<in> set (concat (map quote_char (utf8_chars s)))"
  then obtain c where "c \<in> set (utf8_chars s)" and x: "x \<in> set (quote_char c)" by auto
  with quote_char_safe [OF utf8_chars_shape [OF assms]]
  show "x \<noteq> 34" "x \<noteq> 60" "x \<noteq> 62" "32 \<le> x" "x \<noteq> 127" by blast+
qed

end
