(* ===== verification/Telnet_Decoder.thy ===== *)
theory Telnet_Decoder
  imports QNegotiation Telnet_Environment Telnet_Mxp
begin

text \<open>
  \<open>crates/telnet/src/lib.rs\<close>: incremental Telnet decoding. \<open>decoder\<close> is the \<open>Decoder\<close> struct,
  \<open>feed_byte\<close> the body of the loop of \<open>feed\<close> for one byte, \<open>sub\<close> the handler of a completed
  subnegotiation, \<open>effects\<close> the option effects of negotiation events. A failing step carries the
  decoder as the failing call left it, next to the error.
\<close>

unbundle bit_operations_syntax

section \<open>Definitions\<close>

definition TTYPE :: u8 where "TTYPE = 24"
definition NAWS :: u8 where "NAWS = 31"
definition CHARSET :: u8 where "CHARSET = 42"
definition NEW_ENVIRON :: u8 where "NEW_ENVIRON = 39"
definition MSSP :: u8 where "MSSP = 70"
definition MCCP2 :: u8 where "MCCP2 = 86"
definition MXP :: u8 where "MXP = MXP_OPTION"
definition GMCP :: u8 where "GMCP = 201"
definition SB :: u8 where "SB = 250"
definition SE :: u8 where "SE = 240"
definition IAC :: u8 where "IAC = 255"
definition ECHO :: u8 where "ECHO = 1"
definition TTYPE_TEXT_BYTES :: nat where "TTYPE_TEXT_BYTES = 63"

lemmas option_defs = TTYPE_def NAWS_def CHARSET_def NEW_ENVIRON_def MSSP_def MCCP2_def MXP_def
  MXP_OPTION_def GMCP_def SB_def SE_def IAC_def ECHO_def

definition OPTIONS :: "(u8 \<times> side) list" where
  "OPTIONS =
     [(TTYPE, Remote), (NAWS, Remote), (NEW_ENVIRON, Remote), (MSSP, Local), (MCCP2, Local),
      (CHARSET, Local), (GMCP, Local), (MXP, Local)]"

datatype framing =
    Data
  | Iac
  | OptionCmd u8
  | SubOption
  | Sub u8 bytes bool
  | DiscardSub bool

datatype problem = OversizedEnviron | InvalidEnviron env_error | UnsupportedCharset

datatype input =
    Line bytes
  | Reply bytes
  | InvalidUtf8
  | StartCompression
  | StatusRequest
  | Problem string problem
  | Negotiated change

record decoder =
  framing_state :: framing
  negotiation :: negotiator
  initialized :: bool
  ttype_responses :: u64
  charset_pending :: bool
  environ :: environment
  client :: bytes
  client_raw :: bytes
  color_depth :: nat
  screen_reader :: bool
  echo_suppressed :: bool
  charset_utf8 :: bool
  mxp :: mxp_client
  pending_line :: bytes
  discarded :: nat
  after_cr :: bool
  input_line_limit :: nat
  subnegotiation_limit :: nat
  width :: u16
  height :: u16
  ansi :: bool
  terminal :: bytes
  terminal_raw :: bytes

definition decoder_new :: "nat \<Rightarrow> nat \<Rightarrow> decoder" where
  "decoder_new input_line subnegotiation =
     \<lparr>framing_state = Data, negotiation = negotiator_default, initialized = False,
      ttype_responses = 0, charset_pending = False, environ = [], client = [], client_raw = [],
      color_depth = 16, screen_reader = False, echo_suppressed = False, charset_utf8 = True,
      mxp = mxp_client_default, pending_line = [], discarded = 0, after_cr = False,
      input_line_limit = input_line, subnegotiation_limit = subnegotiation,
      width = 80, height = 25, ansi = True, terminal = bstr ''vt100'', terminal_raw = bstr ''vt100''\<rparr>"

definition decoder_default :: decoder where
  "decoder_default = decoder_new 8192 8192"

definition option_state :: "decoder \<Rightarrow> u8 \<Rightarrow> side \<Rightarrow> qstate" where
  "option_state d opt sd = negotiation d opt sd"

definition escape_iac :: "bytes \<Rightarrow> bytes" where
  "escape_iac p = concat (map (\<lambda>b. if b = IAC then [b, b] else [b]) p)"

definition sub_frame :: "u8 \<Rightarrow> bytes \<Rightarrow> bytes" where
  "sub_frame opt payload = [IAC, SB, opt] @ escape_iac payload @ [IAC, SE]"

definition sub_reply :: "u8 \<Rightarrow> bytes \<Rightarrow> input" where
  "sub_reply opt payload = Reply (sub_frame opt payload)"

definition enable_effect :: "u8 \<times> side \<Rightarrow> decoder \<Rightarrow> decoder \<times> input list" where
  "enable_effect os d =
     (if os = (NEW_ENVIRON, Remote) then (d\<lparr>environ := []\<rparr>, [sub_reply NEW_ENVIRON [1]])
      else if os = (MSSP, Local) then (d, [StatusRequest])
      else if os = (MCCP2, Local) then (d, [StartCompression])
      else if os = (TTYPE, Remote) then (d, [sub_reply TTYPE [1]])
      else if os = (CHARSET, Local) then
        (d\<lparr>charset_pending := True\<rparr>, [sub_reply CHARSET (1 # bstr '';UTF-8'')])
      else if os = (MXP, Local) then (d\<lparr>mxp := mxp_client_default\<rparr>, [Reply mxp_activation])
      else (d, []))"

definition disable_effect :: "u8 \<times> side \<Rightarrow> decoder \<Rightarrow> decoder" where
  "disable_effect os d =
     (if os = (MXP, Local) then d\<lparr>mxp := mxp_client_default\<rparr>
      else if os = (TTYPE, Remote) then
        d\<lparr>terminal := bstr ''vt100'', terminal_raw := bstr ''vt100''\<rparr>
      else if os = (NAWS, Remote) then d\<lparr>width := 80, height := 25\<rparr>
      else if os = (CHARSET, Local) then d\<lparr>charset_pending := False\<rparr>
      else if os = (NEW_ENVIRON, Remote) then d\<lparr>environ := []\<rparr>
      else d)"

definition event_effect :: "event \<Rightarrow> decoder \<Rightarrow> decoder \<times> input list" where
  "event_effect e d =
     (case e of
        Send v opt \<Rightarrow> (d, [Reply [IAC, verb_byte v, opt]])
      | Changed c \<Rightarrow>
          let os = (change_option c, change_side c)
          in if enabled (change_after c) \<and> \<not> enabled (change_before c) then
               (let (d', out) = enable_effect os d in (d', Negotiated c # out))
             else if \<not> enabled (change_after c) then (disable_effect os d, [Negotiated c])
             else (d, [Negotiated c]))"

fun effects :: "event list \<Rightarrow> decoder \<Rightarrow> decoder \<times> input list" where
  "effects [] d = (d, [])"
| "effects (e # es) d =
     (let (d1, out1) = event_effect e d; (d2, out2) = effects es d1 in (d2, out1 @ out2))"

definition negotiate :: "decoder \<Rightarrow> u8 \<Rightarrow> side \<Rightarrow> bool \<Rightarrow> decoder \<times> input list" where
  "negotiate d opt sd enable =
     (if enable \<and> (opt, sd) \<notin> set OPTIONS \<and> (opt, sd) \<noteq> (ECHO, Local) then (d, [])
      else
        (let (n, events) = negotiator_request (negotiation d) opt sd enable
         in effects events (d\<lparr>negotiation := n\<rparr>)))"

fun negotiate_all :: "(u8 \<times> side) list \<Rightarrow> decoder \<Rightarrow> decoder \<times> input list" where
  "negotiate_all [] d = (d, [])"
| "negotiate_all ((opt, sd) # os) d =
     (let (d1, out1) = negotiate d opt sd True; (d2, out2) = negotiate_all os d1
      in (d2, out1 @ out2))"

definition initial :: "decoder \<Rightarrow> decoder \<times> input list" where
  "initial d = (if initialized d then (d, []) else negotiate_all OPTIONS (d\<lparr>initialized := True\<rparr>))"

definition echo :: "decoder \<Rightarrow> bool \<Rightarrow> decoder \<times> input list" where
  "echo d secret = negotiate (d\<lparr>echo_suppressed := secret\<rparr>) ECHO Local secret"

definition take_discarded :: "decoder \<Rightarrow> nat \<times> decoder" where
  "take_discarded d = (discarded d, d\<lparr>discarded := 0\<rparr>)"

text \<open>Popping from the end of the line: the argument is the reversed line.\<close>

fun pop_character :: "bytes \<Rightarrow> bytes" where
  "pop_character [] = []"
| "pop_character (b # r) = (if b AND 192 \<noteq> 128 then r else pop_character r)"

definition erase_character :: "decoder \<Rightarrow> decoder" where
  "erase_character d = d\<lparr>pending_line := rev (pop_character (rev (pending_line d)))\<rparr>"

datatype decode_error = LineTooLong nat | SubnegotiationTooLong

type_synonym decode_result = "(decode_error \<times> decoder, decoder \<times> input list) result"

definition line_done :: "decoder \<Rightarrow> u8 \<Rightarrow> decoder \<times> input list" where
  "line_done d b =
     (let line = pending_line d; d1 = d\<lparr>pending_line := [], after_cr := (b = 13)\<rparr>
      in case from_utf8 line of
           None \<Rightarrow> (d1\<lparr>discarded := discarded d1 + length line\<rparr>, [InvalidUtf8])
         | Some text \<Rightarrow>
             (case (if enabled (option_state d1 MXP Local) then reply_body text else None) of
                Some body \<Rightarrow>
                  (case mxp_receive (mxp d1) body of
                     Some c \<Rightarrow> (d1\<lparr>mxp := c\<rparr>, [])
                   | None \<Rightarrow> (d1, []))
              | None \<Rightarrow> (d1, [Line text])))"

definition text_byte :: "decoder \<Rightarrow> u8 \<Rightarrow> decode_result" where
  "text_byte d b =
     (if b = 13 \<or> b = 10 then Inr (line_done d b)
      else if b = 8 \<or> b = 127 then Inr (erase_character d, [])
      else if b = 0 then Inr (d, [])
      else
        (let line = pending_line d @ [b]
         in if input_line_limit d < length line
            then Inl (LineTooLong (input_line_limit d),
                      d\<lparr>pending_line := [], discarded := discarded d + length line\<rparr>)
            else Inr (d\<lparr>pending_line := line\<rparr>, [])))"

definition data :: "decoder \<Rightarrow> u8 \<Rightarrow> decode_result" where
  "data d b =
     (if after_cr d \<and> (b = 10 \<or> b = 0) then Inr (d\<lparr>after_cr := False\<rparr>, [])
      else text_byte (d\<lparr>after_cr := False\<rparr>) b)"

text \<open>The permissive \<open>strtol\<close> form of MTTS, with \<open>i64\<close>'s checked arithmetic.\<close>

definition is_strtol_space :: "u8 \<Rightarrow> bool" where
  "is_strtol_space b \<longleftrightarrow> (9 \<le> b \<and> b \<le> 13) \<or> b = 32"

fun decimal_value :: "nat \<Rightarrow> bytes \<Rightarrow> nat option" where
  "decimal_value acc [] = Some acc"
| "decimal_value acc (b # bs) =
     (if acc * 10 < 2 ^ 63 \<and> acc * 10 + unat (b - 48) < 2 ^ 63
      then decimal_value (acc * 10 + unat (b - 48)) bs else None)"

definition mtts_bits :: "bytes \<Rightarrow> nat option" where
  "mtts_bits name =
     (if length name < 5 \<or> \<not> eq_ignore_ascii_case (take 5 name) (bstr ''MTTS '') then None
      else
        (let suffix = drop 5 name
         in if suffix = [] then Some 0
            else
              (case dropWhile is_strtol_space suffix of
                 [] \<Rightarrow> None
               | c # r \<Rightarrow>
                   let negative = (c = 45);
                       body = (if c = 43 \<or> c = 45 then r else c # r);
                       digits = takeWhile is_ascii_digit body;
                       tail = dropWhile is_ascii_digit body
                   in (case decimal_value 0 digits of
                         None \<Rightarrow> None
                       | Some v \<Rightarrow>
                           if digits = [] \<or> tail \<noteq> [] \<or> (negative \<and> v \<noteq> 0) then None
                           else Some v))))"

definition contains_ascii_case_insensitive :: "bytes \<Rightarrow> bytes \<Rightarrow> bool" where
  "contains_ascii_case_insensitive haystack needle \<longleftrightarrow>
     list_ex (\<lambda>i. eq_ignore_ascii_case (take (length needle) (drop i haystack)) needle)
       [0..<length haystack + 1 - length needle]"

definition mtts_depth :: "nat \<Rightarrow> nat" where
  "mtts_depth bits =
     (if bits AND 256 \<noteq> 0 then 24 else if bits AND 8 \<noteq> 0 then 256
      else if bits AND 1 \<noteq> 0 then 16 else 0)"

definition name_depth :: "bytes \<Rightarrow> nat" where
  "name_depth name =
     (if contains_ascii_case_insensitive name (bstr ''TRUECOLOR'') then 24
      else if contains_ascii_case_insensitive name (bstr ''256COLOR'')
              \<or> eq_ignore_ascii_case name (bstr ''XTERM'') then 256
      else if eq_ignore_ascii_case name (bstr ''DUMB'') then 0
      else 16)"

definition saturating_succ :: "u64 \<Rightarrow> u64" where
  "saturating_succ n = (if n = - 1 then n else n + 1)"

definition ttype_is :: "decoder \<Rightarrow> bytes \<Rightarrow> decoder \<times> input list" where
  "ttype_is d p =
     (let name = takeWhile (\<lambda>b. b \<noteq> 0) (tl p);
          d1 = (case mtts_bits name of
                  Some bits \<Rightarrow>
                    d\<lparr>screen_reader := (bits AND 64 \<noteq> 0), color_depth := mtts_depth bits\<rparr>
                | None \<Rightarrow>
                    let displayed = take TTYPE_TEXT_BYTES name;
                        d0 = (if ttype_responses d = 0
                              then d\<lparr>client_raw := displayed, client := from_utf8_lossy displayed\<rparr>
                              else d)
                    in d0\<lparr>terminal_raw := displayed, terminal := from_utf8_lossy displayed,
                          color_depth := name_depth name\<rparr>);
          d2 = d1\<lparr>ansi := (color_depth d1 \<noteq> 0 \<and> \<not> screen_reader d1),
                  ttype_responses := saturating_succ (ttype_responses d1)\<rparr>
      in (d2, if ttype_responses d2 < 3 then [sub_reply TTYPE [1]] else []))"

definition charset_sub :: "decoder \<Rightarrow> bytes \<Rightarrow> decoder \<times> input list" where
  "charset_sub d p =
     (let c = hd p
      in if c = 2 then
           (let ok = eq_ignore_ascii_case (drop 1 p) (bstr ''UTF-8'')
            in (d\<lparr>charset_pending := False, charset_utf8 := ok\<rparr>,
                if ok then [] else [Problem ''CHARSET'' UnsupportedCharset]))
         else if c = 3 then (d\<lparr>charset_pending := False\<rparr>, [])
         else if c = 1 \<and> 2 < length p \<and> \<not> charset_pending d then
           (let accepted = list_ex (\<lambda>s. eq_ignore_ascii_case s (bstr ''UTF-8''))
                             (split_on (p ! 1) (drop 2 p))
            in (if accepted then d\<lparr>charset_utf8 := True\<rparr> else d,
                [sub_reply CHARSET (if accepted then 2 # bstr ''UTF-8'' else [3])]))
         else (d, [sub_reply CHARSET [3]]))"

definition u16_from_be :: "u8 \<Rightarrow> u8 \<Rightarrow> u16" where
  "u16_from_be hi lo = word_of_nat (unat hi * 256 + unat lo)"

definition sub :: "decoder \<Rightarrow> u8 \<Rightarrow> bytes \<Rightarrow> decoder \<times> input list" where
  "sub d opt p =
     (if opt = NEW_ENVIRON \<and> enabled (option_state d NEW_ENVIRON Remote) then
        (case env_update (environ d) p of
           Inr env \<Rightarrow> (d\<lparr>environ := env\<rparr>, [])
         | Inl e \<Rightarrow> (d, [Problem ''ENVIRON'' (InvalidEnviron e)]))
      else if opt = GMCP \<and> enabled (option_state d GMCP Local)
              \<and> (p = bstr ''Core.Ping'' \<or> take 10 p = bstr ''Core.Ping '') then
        (d, [sub_reply GMCP (bstr ''Core.Ping'')])
      else if opt = NAWS \<and> enabled (option_state d NAWS Remote) \<and> length p = 4 then
        (d\<lparr>width := u16_from_be (p ! 0) (p ! 1), height := u16_from_be (p ! 2) (p ! 3)\<rparr>, [])
      else if opt = TTYPE \<and> enabled (option_state d TTYPE Remote) \<and> take 1 p = [0] then ttype_is d p
      else if opt = CHARSET \<and> enabled (option_state d CHARSET Local) \<and> p \<noteq> [] then charset_sub d p
      else (d, []))"

definition option_byte :: "decoder \<Rightarrow> u8 \<Rightarrow> u8 \<Rightarrow> decoder \<times> input list" where
  "option_byte d cmd b =
     (case verb_from_byte cmd of
        None \<Rightarrow> (d, [])
      | Some v \<Rightarrow>
          let sd = (if v = Will \<or> v = Wont then Remote else Local);
              (n, events) = negotiator_receive (negotiation d) b v ((b, sd) \<in> set OPTIONS)
          in effects events (d\<lparr>negotiation := n\<rparr>))"

definition sub_byte :: "decoder \<Rightarrow> u8 \<Rightarrow> bytes \<Rightarrow> bool \<Rightarrow> u8 \<Rightarrow> decode_result" where
  "sub_byte d opt payload escaped b =
     (if escaped \<and> b = 240 then Inr (sub d opt payload)
      else if \<not> escaped \<and> b = IAC then Inr (d\<lparr>framing_state := Sub opt payload True\<rparr>, [])
      else
        (let payload' = (if \<not> escaped \<or> b = IAC then payload @ [b] else payload)
         in if subnegotiation_limit d < length payload' then
              (if opt = NEW_ENVIRON
               then Inr (d\<lparr>framing_state := DiscardSub False\<rparr>, [Problem ''ENVIRON'' OversizedEnviron])
               else Inl (SubnegotiationTooLong, d))
            else Inr (d\<lparr>framing_state := Sub opt payload' False\<rparr>, [])))"

definition feed_byte :: "decoder \<Rightarrow> u8 \<Rightarrow> decode_result" where
  "feed_byte d0 b =
     (let d = d0\<lparr>framing_state := Data\<rparr>
      in case framing_state d0 of
           Data \<Rightarrow> if b = IAC then Inr (d\<lparr>framing_state := Iac\<rparr>, []) else data d b
         | Iac \<Rightarrow>
             if b = IAC then data d b
             else if 251 \<le> b \<and> b \<le> 254 then Inr (d\<lparr>framing_state := OptionCmd b\<rparr>, [])
             else if b = 250 then Inr (d\<lparr>framing_state := SubOption\<rparr>, [])
             else if b = 247 then Inr (erase_character d, [])
             else if b = 248 then Inr (d\<lparr>pending_line := []\<rparr>, [])
             else Inr (d, [])
         | OptionCmd cmd \<Rightarrow> Inr (option_byte d cmd b)
         | DiscardSub escaped \<Rightarrow>
             if \<not> (escaped \<and> b = SE)
             then Inr (d\<lparr>framing_state := DiscardSub (\<not> escaped \<and> b = IAC)\<rparr>, []) else Inr (d, [])
         | SubOption \<Rightarrow> Inr (d\<lparr>framing_state := Sub b [] False\<rparr>, [])
         | Sub opt payload escaped \<Rightarrow> sub_byte d opt payload escaped b)"

fun feed :: "decoder \<Rightarrow> bytes \<Rightarrow> decode_result" where
  "feed d [] = Inr (d, [])"
| "feed d (b # bs) =
     bind_result (feed_byte d b)
       (\<lambda>(d', out). bind_result (feed d' bs) (\<lambda>(d'', out'). Inr (d'', out @ out')))"

text \<open>Text output: \<open>replace("\r\n", "\n")\<close>, \<open>replace('\n', "\r\n")\<close>, then IAC doubling.\<close>

fun crlf_to_lf :: "bytes \<Rightarrow> bytes" where
  "crlf_to_lf [] = []"
| "crlf_to_lf [b] = [b]"
| "crlf_to_lf (b # c # r) = (if b = 13 \<and> c = 10 then 10 # crlf_to_lf r else b # crlf_to_lf (c # r))"

definition lf_to_crlf :: "bytes \<Rightarrow> bytes" where
  "lf_to_crlf s = concat (map (\<lambda>b. if b = 10 then [13, 10] else [b]) s)"

definition encode :: "bytes \<Rightarrow> bytes" where
  "encode text = escape_iac (lf_to_crlf (crlf_to_lf text))"

fun valid_end :: "bytes \<Rightarrow> nat \<Rightarrow> nat" where
  "valid_end s 0 = 0"
| "valid_end s (Suc n) = (if from_utf8 (take (Suc n) s) = None then valid_end s n else Suc n)"

definition bounded_error :: "bytes \<Rightarrow> nat \<Rightarrow> bytes" where
  "bounded_error message limit =
     (let encoded = encode (message @ [13, 10])
      in take (valid_end encoded (min (length encoded) limit)) encoded)"

lemma valid_end_le: "valid_end s n \<le> n"
  by (induction n) auto

end
