(* ===== verification/Telnet_Session.thy ===== *)
theory Telnet_Session
  imports Telnet_Decoder
begin

text \<open>
  Sessions of the Telnet decoder: what holds of a decoder however the server and the client drive
  it. \<open>session_ok\<close> is the invariant of one connection (bounded buffers, a well-formed environment
  and MXP record, no option outside the supported table), \<open>session\<close> the ways a decoder evolves
  (\<open>initial\<close>, \<open>echo\<close>, \<open>negotiate\<close>, \<open>feed\<close> with either outcome, \<open>take_discarded\<close>), and the round
  trips relate the decoder to the frames and the text that are written for it.
\<close>

section \<open>The invariant of a connection\<close>

definition supported :: "u8 \<Rightarrow> side \<Rightarrow> bool" where
  "supported opt sd \<longleftrightarrow> (opt, sd) \<in> set OPTIONS \<or> (opt, sd) = (ECHO, Local)"

text \<open>Bytes that text input keeps: NUL, BS, LF, CR and DEL are acted on or dropped.\<close>

definition text_kept :: "u8 \<Rightarrow> bool" where
  "text_kept b \<longleftrightarrow> b \<notin> {0, 8, 10, 13, 127}"

definition line_ok :: "nat \<Rightarrow> bytes \<Rightarrow> bool" where
  "line_ok l line \<longleftrightarrow> length line \<le> l \<and> list_all text_kept line"

definition framing_ok :: "nat \<Rightarrow> framing \<Rightarrow> bool" where
  "framing_ok s f \<longleftrightarrow> (case f of Sub _ payload _ \<Rightarrow> length payload \<le> s | _ \<Rightarrow> True)"

definition negotiation_ok :: "negotiator \<Rightarrow> bool" where
  "negotiation_ok n \<longleftrightarrow> (\<forall>opt sd. n opt sd \<noteq> No \<longrightarrow> supported opt sd)"

definition session_ok :: "nat \<Rightarrow> nat \<Rightarrow> decoder \<Rightarrow> bool" where
  "session_ok l s d \<longleftrightarrow>
     input_line_limit d = l \<and> subnegotiation_limit d = s
     \<and> line_ok l (pending_line d) \<and> framing_ok s (framing_state d)
     \<and> negotiation_ok (negotiation d) \<and> env_ok (environ d) \<and> mxp_ok (mxp d)
     \<and> length (client_raw d) \<le> 63 \<and> length (terminal_raw d) \<le> 63"

definition input_ok :: "nat \<Rightarrow> input \<Rightarrow> bool" where
  "input_ok l i \<longleftrightarrow>
     (case i of Line t \<Rightarrow> line_ok l t \<and> utf8_valid t
      | Negotiated c \<Rightarrow> supported (change_option c) (change_side c) | _ \<Rightarrow> True)"

text \<open>The shape of a result: the invariant holds on both outcomes.\<close>

definition result_ok :: "nat \<Rightarrow> nat \<Rightarrow> decode_result \<Rightarrow> bool" where
  "result_ok l s r \<longleftrightarrow>
     (case r of Inl (e, d) \<Rightarrow> session_ok l s d
      | Inr (d, out) \<Rightarrow> session_ok l s d \<and> list_all (input_ok l) out)"

inductive session :: "nat \<Rightarrow> nat \<Rightarrow> decoder \<Rightarrow> bool" for l s where
  session_new: "session l s (decoder_new l s)"
| session_initial: "session l s d \<Longrightarrow> session l s (fst (initial d))"
| session_echo: "session l s d \<Longrightarrow> session l s (fst (echo d secret))"
| session_negotiate: "session l s d \<Longrightarrow> session l s (fst (negotiate d opt sd enable))"
| session_take_discarded: "session l s d \<Longrightarrow> session l s (snd (take_discarded d))"
| session_feed: "session l s d \<Longrightarrow> feed d bs = Inr (d', out) \<Longrightarrow> session l s d'"
| session_feed_error: "session l s d \<Longrightarrow> feed d bs = Inl (e, d') \<Longrightarrow> session l s d'"

lemma result_ok_simps [simp]:
  "result_ok l s (Inl (e, d)) \<longleftrightarrow> session_ok l s d"
  "result_ok l s (Inr p) \<longleftrightarrow> session_ok l s (fst p) \<and> list_all (input_ok l) (snd p)"
  by (auto simp: result_ok_def split: prod.splits)

lemma input_ok_simps [simp]:
  "input_ok l (Line t) \<longleftrightarrow> line_ok l t \<and> utf8_valid t"
  "input_ok l (Negotiated c) \<longleftrightarrow> supported (change_option c) (change_side c)"
  "input_ok l (Reply p)" "input_ok l InvalidUtf8" "input_ok l StartCompression"
  "input_ok l StatusRequest" "input_ok l (Problem n pr)" "input_ok l (sub_reply opt p)"
  by (simp_all add: input_ok_def sub_reply_def)

lemma framing_ok_simps [simp]:
  "framing_ok s Data" "framing_ok s Iac" "framing_ok s (OptionCmd c)" "framing_ok s SubOption"
  "framing_ok s (DiscardSub e)" "framing_ok s (Sub opt p e) \<longleftrightarrow> length p \<le> s"
  by (simp_all add: framing_ok_def)

lemma line_ok_Nil [simp]: "line_ok l []"
  by (simp add: line_ok_def)

text \<open>Field by field: each update preserves the invariant when the new value is in its bounds.\<close>

lemma session_ok_updates [inv_intros]:
  assumes "session_ok l s d"
  shows "framing_ok s f \<Longrightarrow> session_ok l s (d\<lparr>framing_state := f\<rparr>)"
    and "line_ok l line \<Longrightarrow> session_ok l s (d\<lparr>pending_line := line\<rparr>)"
    and "negotiation_ok n \<Longrightarrow> session_ok l s (d\<lparr>negotiation := n\<rparr>)"
    and "env_ok env \<Longrightarrow> session_ok l s (d\<lparr>environ := env\<rparr>)"
    and "mxp_ok c \<Longrightarrow> session_ok l s (d\<lparr>mxp := c\<rparr>)"
    and "length r \<le> 63 \<Longrightarrow> session_ok l s (d\<lparr>client_raw := r\<rparr>)"
    and "length r \<le> 63 \<Longrightarrow> session_ok l s (d\<lparr>terminal_raw := r\<rparr>)"
  using assms by (simp_all add: session_ok_def)

lemma session_ok_free_updates [simp]:
  "session_ok l s (d\<lparr>initialized := b\<rparr>) = session_ok l s d"
  "session_ok l s (d\<lparr>ttype_responses := n\<rparr>) = session_ok l s d"
  "session_ok l s (d\<lparr>charset_pending := b\<rparr>) = session_ok l s d"
  "session_ok l s (d\<lparr>client := t\<rparr>) = session_ok l s d"
  "session_ok l s (d\<lparr>color_depth := k\<rparr>) = session_ok l s d"
  "session_ok l s (d\<lparr>screen_reader := b\<rparr>) = session_ok l s d"
  "session_ok l s (d\<lparr>echo_suppressed := b\<rparr>) = session_ok l s d"
  "session_ok l s (d\<lparr>charset_utf8 := b\<rparr>) = session_ok l s d"
  "session_ok l s (d\<lparr>discarded := k\<rparr>) = session_ok l s d"
  "session_ok l s (d\<lparr>after_cr := b\<rparr>) = session_ok l s d"
  "session_ok l s (d\<lparr>width := w\<rparr>) = session_ok l s d"
  "session_ok l s (d\<lparr>height := w\<rparr>) = session_ok l s d"
  "session_ok l s (d\<lparr>ansi := b\<rparr>) = session_ok l s d"
  "session_ok l s (d\<lparr>terminal := t\<rparr>) = session_ok l s d"
  by (simp_all add: session_ok_def)

section \<open>Preservation, operation by operation\<close>

lemma length_vt100: "length (bstr ''vt100'') = 5"
  by (simp add: bstr_def)

lemma session_ok_new: "session_ok l s (decoder_new l s)"
  by (simp add: session_ok_def decoder_new_def negotiation_ok_def negotiator_default_def
      mxp_ok_default length_vt100)

lemma enable_effect_ok:
  "session_ok l s d \<Longrightarrow>
   session_ok l s (fst (enable_effect os d)) \<and> list_all (input_ok l) (snd (enable_effect os d))"
  by (simp add: enable_effect_def inv_intros mxp_ok_default)

lemma disable_effect_ok: "session_ok l s d \<Longrightarrow> session_ok l s (disable_effect os d)"
  by (simp add: disable_effect_def inv_intros mxp_ok_default length_vt100)

definition event_ok :: "event \<Rightarrow> bool" where
  "event_ok e \<longleftrightarrow> (case e of Changed c \<Rightarrow> supported (change_option c) (change_side c) | _ \<Rightarrow> True)"

lemma event_effect_ok:
  "session_ok l s d \<Longrightarrow> event_ok e \<Longrightarrow>
   session_ok l s (fst (event_effect e d)) \<and> list_all (input_ok l) (snd (event_effect e d))"
  using enable_effect_ok [of l s d] disable_effect_ok [of l s d]
  by (auto simp: event_effect_def event_ok_def Let_def split: event.splits prod.splits)
    (metis fst_conv snd_conv)+

lemma effects_ok:
  "session_ok l s d \<Longrightarrow> list_all event_ok es \<Longrightarrow>
   session_ok l s (fst (effects es d)) \<and> list_all (input_ok l) (snd (effects es d))"
proof (induction es arbitrary: d)
  case (Cons e es)
  then show ?case
    using event_effect_ok [of l s d e] Cons.IH [of "fst (event_effect e d)"]
    by (simp add: split_beta Let_def)
qed simp

lemma negotiator_apply_ok:
  assumes "negotiation_ok n" and "supported opt sd \<or> fst r = No"
    and "\<not> supported opt sd \<Longrightarrow> n opt sd = No"
  shows "negotiation_ok (fst (negotiator_apply n opt sd r))
       \<and> list_all event_ok (snd (negotiator_apply n opt sd r))"
  using assms
  by (cases r) (auto simp: negotiator_apply_def negotiation_ok_def event_ok_def Let_def
      split: option.splits)

lemma negotiate_ok:
  assumes "session_ok l s d"
  shows "session_ok l s (fst (negotiate d opt sd enable))
       \<and> list_all (input_ok l) (snd (negotiate d opt sd enable))"
proof (cases "enable \<and> \<not> supported opt sd")
  case True
  then show ?thesis using assms by (simp add: negotiate_def supported_def)
next
  case False
  have n: "negotiation_ok (negotiation d)" using assms by (simp add: session_ok_def)
  then have "supported opt sd \<or> negotiation d opt sd = No" by (auto simp: negotiation_ok_def)
  then have "negotiation_ok (fst (negotiator_request (negotiation d) opt sd enable))
       \<and> list_all event_ok (snd (negotiator_request (negotiation d) opt sd enable))"
    unfolding negotiator_request_def using False n
    by (intro negotiator_apply_ok) (cases enable; auto)+
  then show ?thesis
    using False assms effects_ok [OF session_ok_updates(3) [OF assms]]
    by (simp add: negotiate_def supported_def split_beta Let_def)
qed

lemma negotiate_all_ok:
  "session_ok l s d \<Longrightarrow>
   session_ok l s (fst (negotiate_all os d)) \<and> list_all (input_ok l) (snd (negotiate_all os d))"
proof (induction os arbitrary: d)
  case (Cons x os)
  then show ?case
    using negotiate_ok [of l s d "fst x" "snd x" True]
    by (cases x) (simp add: split_beta Let_def)
qed simp

lemma initial_ok:
  "session_ok l s d \<Longrightarrow>
   session_ok l s (fst (initial d)) \<and> list_all (input_ok l) (snd (initial d))"
  by (simp add: initial_def negotiate_all_ok)

lemma echo_ok:
  "session_ok l s d \<Longrightarrow>
   session_ok l s (fst (echo d secret)) \<and> list_all (input_ok l) (snd (echo d secret))"
  by (simp add: echo_def negotiate_ok)

lemma option_byte_ok:
  assumes "session_ok l s d"
  shows "session_ok l s (fst (option_byte d cmd b)) \<and> list_all (input_ok l) (snd (option_byte d cmd b))"
proof (cases "verb_from_byte cmd")
  case None
  then show ?thesis using assms by (simp add: option_byte_def)
next
  case (Some v)
  define acc where "acc \<longleftrightarrow> (b, verb_side v) \<in> set OPTIONS"
  have n: "negotiation_ok (negotiation d)" using assms by (simp add: session_ok_def)
  have sd: "(if v = Will \<or> v = Wont then Remote else Local) = verb_side v"
    by (cases v) (simp_all add: verb_side_def)
  have no: "\<not> supported b (verb_side v) \<Longrightarrow> negotiation d b (verb_side v) = No"
    using n by (auto simp: negotiation_ok_def)
  have "negotiation_ok (fst (negotiator_receive (negotiation d) b v acc))
       \<and> list_all event_ok (snd (negotiator_receive (negotiation d) b v acc))"
    unfolding negotiator_receive_def Let_def using n no
    by (intro negotiator_apply_ok)
      (cases "supported b (verb_side v)"; cases "verb_positive v"; simp add: acc_def supported_def)+
  then show ?thesis
    using Some effects_ok [OF session_ok_updates(3) [OF assms]]
    by (simp add: option_byte_def sd acc_def split_beta Let_def)
qed


lemma pop_character_suffix: "\<exists>t. r = t @ pop_character r"
proof (induction r)
  case (Cons b r)
  then obtain t where "r = t @ pop_character r" by blast
  then have "b # r = (b # t) @ pop_character r" by simp
  then show ?case by (metis append_Cons append_Nil pop_character.simps(2))
qed simp

lemma line_ok_pop: "line_ok l line \<Longrightarrow> line_ok l (rev (pop_character (rev line)))"
proof -
  obtain t where "rev line = t @ pop_character (rev line)" using pop_character_suffix by blast
  then have "line = rev (pop_character (rev line)) @ rev t" by (metis rev_append rev_rev_ident)
  then show "line_ok l line \<Longrightarrow> ?thesis"
    by (metis length_append line_ok_def list_all_append trans_le_add1 add_leD1)
qed

lemma erase_character_ok: "session_ok l s d \<Longrightarrow> session_ok l s (erase_character d)"
  unfolding erase_character_def
  by (rule session_ok_updates) (auto simp: session_ok_def intro: line_ok_pop)

lemma line_done_ok:
  assumes "session_ok l s d"
  shows "session_ok l s (fst (line_done d b)) \<and> list_all (input_ok l) (snd (line_done d b))"
proof -
  have base: "session_ok l s (d\<lparr>pending_line := [], after_cr := (b = 13)\<rparr>)"
    using session_ok_updates(2) [OF assms line_ok_Nil] by simp
  have "line_ok l (pending_line d)" using assms by (simp add: session_ok_def)
  moreover have "mxp_ok (mxp d)" using assms by (simp add: session_ok_def)
  ultimately show ?thesis using base
    by (auto simp: line_done_def Let_def from_utf8_def split: option.splits
        intro: session_ok_updates(5) mxp_receive_ok)
qed

lemma text_byte_ok:
  assumes "session_ok l s d"
  shows "result_ok l s (text_byte d b)"
  using assms line_done_ok [OF assms] erase_character_ok [OF assms]
  by (auto simp: text_byte_def Let_def session_ok_def line_ok_def text_kept_def)

lemma data_ok: "session_ok l s d \<Longrightarrow> result_ok l s (data d b)"
  by (simp add: data_def text_byte_ok)

lemma ttype_is_ok:
  "session_ok l s d \<Longrightarrow> session_ok l s (fst (ttype_is d p)) \<and> list_all (input_ok l) (snd (ttype_is d p))"
  by (auto simp: ttype_is_def Let_def TTYPE_TEXT_BYTES_def session_ok_def split: option.splits)

lemma charset_sub_ok:
  "session_ok l s d \<Longrightarrow>
   session_ok l s (fst (charset_sub d p)) \<and> list_all (input_ok l) (snd (charset_sub d p))"
  by (simp add: charset_sub_def Let_def)

lemma sub_ok:
  assumes "session_ok l s d"
  shows "session_ok l s (fst (sub d opt p)) \<and> list_all (input_ok l) (snd (sub d opt p))"
proof -
  have "env_ok (environ d)" using assms by (simp add: session_ok_def)
  then have "env_update (environ d) p = Inr env \<Longrightarrow> env_ok env" for env by (rule env_update_ok)
  then show ?thesis
    using assms ttype_is_ok [OF assms] charset_sub_ok [OF assms]
    by (auto simp: sub_def split: sum.splits intro: session_ok_updates)
qed

lemma sub_byte_ok:
  assumes "session_ok l s d" and "length payload \<le> s"
  shows "result_ok l s (sub_byte d opt payload escaped b)"
proof -
  have "subnegotiation_limit d = s" using assms(1) by (simp add: session_ok_def)
  then show ?thesis
    using assms sub_ok [OF assms(1), of opt payload]
    by (simp add: sub_byte_def Let_def inv_intros not_less)
qed

lemma feed_byte_ok:
  assumes "session_ok l s d"
  shows "result_ok l s (feed_byte d b)"
proof -
  let ?d = "d\<lparr>framing_state := Data\<rparr>"
  have d: "session_ok l s ?d" using assms by (simp add: inv_intros)
  have f: "framing_ok s (framing_state d)" using assms by (simp add: session_ok_def)
  show ?thesis
  proof (cases "framing_state d")
    case Data
    then show ?thesis using d data_ok [OF d] assms by (simp add: feed_byte_def Let_def inv_intros)
  next
    case Iac
    then show ?thesis
      using d data_ok [OF d] assms erase_character_ok [OF d]
      by (simp add: feed_byte_def Let_def inv_intros)
  next
    case (OptionCmd cmd)
    then show ?thesis using option_byte_ok [OF d] by (simp add: feed_byte_def)
  next
    case SubOption
    then show ?thesis using assms by (simp add: feed_byte_def Let_def inv_intros)
  next
    case (Sub opt payload escaped)
    then show ?thesis using sub_byte_ok [OF d] f by (simp add: feed_byte_def)
  next
    case (DiscardSub escaped)
    then show ?thesis using assms d by (simp add: feed_byte_def Let_def inv_intros)
  qed
qed

interpretation tel: machine feed_byte feed
  by unfold_locales simp_all

lemma feed_ok:
  assumes "session_ok l s d"
  shows "result_ok l s (feed d bs)"
proof -
  have "case feed d bs of Inl e \<Rightarrow> session_ok l s (snd e)
        | Inr (t, out) \<Rightarrow> session_ok l s t \<and> list_all (input_ok l) out"
  proof (rule tel.run_sound [where P = "session_ok l s"])
    show "session_ok l s d" by (rule assms)
  next
    fix d' i assume "session_ok l s d'"
    from feed_byte_ok [OF this, of i]
    show "case feed_byte d' i of Inl e \<Rightarrow> session_ok l s (snd e)
          | Inr (t, out) \<Rightarrow> session_ok l s t \<and> list_all (input_ok l) out"
      by (auto simp: result_ok_def split: sum.splits)
  qed
  then show ?thesis by (auto simp: result_ok_def split: sum.splits)
qed

lemma session_session_ok: "session l s d \<Longrightarrow> session_ok l s d"
proof (induction rule: session.induct)
  case (session_feed d bs d' out)
  then show ?case using feed_ok [of l s d bs] by simp
next
  case (session_feed_error d bs e d')
  then show ?case using feed_ok [of l s d bs] by simp
qed (simp_all add: session_ok_new initial_ok echo_ok negotiate_ok take_discarded_def)

section \<open>Frames and text\<close>

lemma escape_iac_simps [simp]:
  "escape_iac [] = []"
  "escape_iac (b # p) = (if b = IAC then [b, b] else [b]) @ escape_iac p"
  by (simp_all add: escape_iac_def)

lemma escape_iac_append: "escape_iac (p @ q) = escape_iac p @ escape_iac q"
  by (simp add: escape_iac_def)

lemma feed_sub_payload:
  assumes "framing_state d = Sub opt q False" and "length q + length p \<le> subnegotiation_limit d"
  shows "feed d (escape_iac p @ [IAC, SE]) = Inr (sub (d\<lparr>framing_state := Data\<rparr>) opt (q @ p))"
  using assms
proof (induction p arbitrary: d q)
  case Nil
  then show ?case
    by (simp add: feed_byte_def sub_byte_def SE_def Let_def split_beta)
next
  case (Cons b p)
  have next_state: "feed (d\<lparr>framing_state := Sub opt (q @ [b]) False\<rparr>) (escape_iac p @ [IAC, SE])
      = Inr (sub (d\<lparr>framing_state := Data\<rparr>) opt (q @ b # p))"
    using Cons.IH [of "d\<lparr>framing_state := Sub opt (q @ [b]) False\<rparr>" "q @ [b]"] Cons.prems by simp
  then show ?case
    using Cons.prems
    by (cases "b = IAC") (simp_all add: feed_byte_def sub_byte_def Let_def split_beta IAC_def)
qed

lemma crlf_to_lf_plain: "list_all (\<lambda>b. b \<noteq> 13) p \<Longrightarrow> crlf_to_lf p = p"
  by (induction p rule: crlf_to_lf.induct) auto

lemma lf_to_crlf_plain: "list_all (\<lambda>b. b \<noteq> 10) p \<Longrightarrow> lf_to_crlf (p @ q) = p @ lf_to_crlf q"
  by (induction p) (auto simp: lf_to_crlf_def)

lemma escape_iac_plain: "list_all (\<lambda>b. b \<noteq> IAC) p \<Longrightarrow> escape_iac p = p"
  by (induction p) auto

lemma utf8_no_iac: "utf8_valid t \<Longrightarrow> list_all (\<lambda>b. b \<noteq> IAC) t"
  using utf8_valid_no_255 [of t] by (auto simp: list_all_iff IAC_def)

lemma encode_line:
  assumes "utf8_valid t" and "list_all text_kept t"
  shows "encode (t @ [10]) = t @ [13, 10]"
proof -
  have "list_all (\<lambda>b. b \<noteq> 13) (t @ [10])" "list_all (\<lambda>b. b \<noteq> 10) t"
    using assms(2) by (auto simp: text_kept_def list_all_iff)
  then have "lf_to_crlf (crlf_to_lf (t @ [10])) = t @ [13, 10]"
    by (simp add: crlf_to_lf_plain lf_to_crlf_plain) (simp add: lf_to_crlf_def)
  moreover have "list_all (\<lambda>b. b \<noteq> IAC) (t @ [13, 10])"
    using utf8_no_iac [OF assms(1)] by (simp add: IAC_def)
  ultimately show ?thesis by (simp add: encode_def escape_iac_plain del: escape_iac_simps)
qed

lemma feed_text:
  assumes "framing_state d = Data" and "\<not> after_cr d"
    and "length (pending_line d) + length t \<le> input_line_limit d"
    and "list_all text_kept t" and "list_all (\<lambda>b. b \<noteq> IAC) t"
  shows "feed d t = Inr (d\<lparr>pending_line := pending_line d @ t\<rparr>, [])"
  using assms
proof (induction t arbitrary: d)
  case (Cons b t)
  let ?d = "d\<lparr>pending_line := pending_line d @ [b]\<rparr>"
  have "d\<lparr>framing_state := Data\<rparr> = d" "d\<lparr>after_cr := False\<rparr> = d" using Cons.prems by simp_all
  then have "feed_byte d b = Inr (?d, [])"
    using Cons.prems
    by (simp add: feed_byte_def data_def text_byte_def text_kept_def Let_def)
  then show ?case using Cons.IH [of ?d] Cons.prems by simp
qed simp

lemma feed_eol:
  assumes "framing_state d = Data" and "\<not> after_cr d"
    and "utf8_valid (pending_line d)" and "\<not> enabled (option_state d MXP Local)"
  shows "feed d [13, 10] = Inr (d\<lparr>pending_line := []\<rparr>, [Line (pending_line d)])"
proof -
  have "d\<lparr>framing_state := Data\<rparr> = d" "d\<lparr>after_cr := False\<rparr> = d" using assms by simp_all
  then show ?thesis
    using assms
    by (simp add: feed_byte_def data_def text_byte_def line_done_def from_utf8_def Let_def
        option_state_def IAC_def)
qed

lemma valid_end_valid: "utf8_valid (take (valid_end s n) s)"
proof (induction n)
  case 0
  show ?case by simp
qed (auto simp: from_utf8_def)

lemma valid_end_max: "k \<le> n \<Longrightarrow> utf8_valid (take k s) \<Longrightarrow> k \<le> valid_end s n"
  by (induction n) (auto simp: from_utf8_def le_Suc_eq)

section \<open>Properties\<close>

text \<open>
  C10. However the server drives a decoder and whatever bytes the client sends, through errors too:
  the unfinished line never exceeds the input limit, an unfinished subnegotiation never exceeds
  its limit, the environment and the MXP record keep their budgets, the retained terminal names
  have at most 63 bytes, and no option outside the supported table (and server ECHO) ever leaves
  the state No.
\<close>

theorem session_bounded:
  assumes "session l s d"
  shows "length (pending_line d) \<le> l
       \<and> (\<forall>opt payload e. framing_state d = Sub opt payload e \<longrightarrow> length payload \<le> s)
       \<and> env_ok (environ d) \<and> mxp_ok (mxp d)
       \<and> length (client_raw d) \<le> 63 \<and> length (terminal_raw d) \<le> 63
       \<and> (\<forall>opt sd. option_state d opt sd \<noteq> No \<longrightarrow> supported opt sd)"
  using session_session_ok [OF assms]
  by (auto simp: session_ok_def line_ok_def option_state_def negotiation_ok_def)

theorem session_bounded_witness:
  "length (pending_line (snd (take_discarded (decoder_new 80 100)))) \<le> 80
   \<and> mxp_ok (mxp (snd (take_discarded (decoder_new 80 100))))"
  using session_bounded [OF session_take_discarded [OF session_new, of 80 100]] by simp

text \<open>
  Every line a session delivers is valid UTF-8, no longer than the input limit, and free of
  NUL, backspace, line feed, carriage return and DEL, and of the IAC byte.
\<close>

lemma session_lines:
  assumes "session l s d" and "feed d bs = Inr (d', out)" and "Line t \<in> set out"
  shows "utf8_valid t \<and> length t \<le> l \<and> list_all text_kept t \<and> IAC \<notin> set t"
proof -
  have "input_ok l (Line t)"
    using feed_ok [OF session_session_ok [OF assms(1)], of bs] assms(2,3) by (auto simp: list_all_iff)
  then show ?thesis using utf8_no_iac [of t] by (auto simp: line_ok_def list_all_iff)
qed

text \<open>
  Decoding does not depend on how the transport splits the stream: feeding two chunks one
  after the other gives the same decoder, the same inputs in order and the same error as feeding
  their concatenation.
\<close>

lemma feed_chunks:
  "feed d (xs @ ys) =
     bind_result (feed d xs) (\<lambda>(d', out). bind_result (feed d' ys) (\<lambda>(d'', out'). Inr (d'', out @ out')))"
  by (rule tel.run_append)

text \<open>
  A subnegotiation frame reaches its handler intact: between negotiations, feeding
  IAC SB option, the payload with IAC doubled, IAC SE is exactly the handler on the payload, for
  every payload within the limit, whatever bytes it contains; a partial line in progress is kept.
\<close>

lemma subnegotiation_roundtrip:
  assumes "framing_state d = Data" and "length p \<le> subnegotiation_limit d"
  shows "feed d (sub_frame opt p) = Inr (sub d opt p)"
proof -
  have same: "d\<lparr>framing_state := Data\<rparr> = d" using assms(1) by simp
  have "feed (d\<lparr>framing_state := Sub opt [] False\<rparr>) (escape_iac p @ [IAC, SE]) = Inr (sub d opt p)"
    using feed_sub_payload [of "d\<lparr>framing_state := Sub opt [] False\<rparr>" opt "[]" p] assms same by simp
  then show ?thesis
    using assms by (simp add: sub_frame_def feed_byte_def SB_def IAC_def split_beta)
qed

text \<open>
  Server text reads back as the line it is: for a decoder at the start of a line with MXP off,
  feeding the encoding of a text line that fits the limit delivers exactly that line and returns
  the decoder to the same state.
\<close>

lemma line_roundtrip:
  assumes "framing_state d = Data" and "pending_line d = []" and "\<not> after_cr d"
    and "\<not> enabled (option_state d MXP Local)"
    and "utf8_valid t" and "list_all text_kept t" and "length t \<le> input_line_limit d"
  shows "feed d (encode (t @ [10])) = Inr (d, [Line t])"
proof -
  have "feed d t = Inr (d\<lparr>pending_line := t\<rparr>, [])"
    using feed_text [of d t] assms utf8_no_iac by simp
  moreover have "d\<lparr>pending_line := []\<rparr> = d" using assms(2) by simp
  then have "feed (d\<lparr>pending_line := t\<rparr>) [13, 10] = Inr (d, [Line t])"
    using feed_eol [of "d\<lparr>pending_line := t\<rparr>"] assms by (simp add: option_state_def)
  ultimately show ?thesis
    using tel.run_append [of d t "[13, 10]"] assms(5,6) by (simp add: encode_line del: feed.simps)
qed

text \<open>
  An unsupported option is refused and leaves no trace: in a session between negotiations,
  DO of an option the server does not offer is answered WONT, WILL of an option it does not want is
  answered DONT, and the decoder, a partial line included, is unchanged.
\<close>

lemma unsupported_option_refused:
  assumes "session l s d" and "framing_state d = Data"
  shows "(\<not> supported opt Local \<longrightarrow> feed d [IAC, 253, opt] = Inr (d, [Reply [IAC, 252, opt]]))
       \<and> (\<not> supported opt Remote \<longrightarrow> feed d [IAC, 251, opt] = Inr (d, [Reply [IAC, 254, opt]]))"
proof -
  have no: "\<not> supported opt sd \<Longrightarrow> negotiation d opt sd = No" for sd
    using session_session_ok [OF assms(1)] by (auto simp: session_ok_def negotiation_ok_def)
  have keep: "d\<lparr>framing_state := Data, negotiation := (negotiation d)(opt := (negotiation d opt)(sd := No))\<rparr> = d"
    if "negotiation d opt sd = No" for sd
  proof -
    have "(negotiation d)(opt := (negotiation d opt)(sd := No)) = negotiation d"
      using that by (auto simp: fun_eq_iff)
    then show ?thesis using assms(2) by simp
  qed
  show ?thesis
    using assms(2) no
    by (simp add: keep feed_byte_def option_byte_def verb_from_byte_def negotiator_receive_def
        negotiator_apply_def verb_side_def verb_positive_def side_verb_def verb_byte_def
        event_effect_def IAC_def supported_def)
qed

text \<open>
  An error message cut to a byte budget is the longest prefix of its Telnet encoding that fits
  the budget and is valid UTF-8.
\<close>

lemma bounded_error_longest:
  "length (bounded_error m limit) \<le> limit \<and> utf8_valid (bounded_error m limit)
   \<and> bounded_error m limit = take (length (bounded_error m limit)) (encode (m @ [13, 10]))
   \<and> (\<forall>k. k \<le> limit \<and> k \<le> length (encode (m @ [13, 10])) \<and> utf8_valid (take k (encode (m @ [13, 10])))
         \<longrightarrow> k \<le> length (bounded_error m limit))"
proof -
  let ?e = "encode (m @ [13, 10])"
  let ?k = "valid_end ?e (min (length ?e) limit)"
  have k: "?k \<le> min (length ?e) limit" by (rule valid_end_le)
  then have len: "length (bounded_error m limit) = ?k" by (simp add: bounded_error_def Let_def)
  then show ?thesis
    using k valid_end_valid [of ?e] valid_end_max [of _ "min (length ?e) limit" ?e]
    by (auto simp: bounded_error_def Let_def)
qed

end
