(* ===== verification/Map_Terrain.thy ===== *)
theory Map_Terrain
  imports Prelude
begin

text \<open>
  \<open>crates/map/src/terrain.rs\<close>: terrain identities with the names scripts use and the glyphs of
  the map notation. The decoders search \<open>ALL\<close>; both catalogues are shown complete with pairwise
  distinct names.
\<close>

section \<open>Definitions\<close>

datatype terrain =
    Clear | Pavement | Road | Rail | Rough | UltraRough | Rubble | UltraRubble | Sand |
    Tundra | Swamp | MagmaCrust | Magma | HeavyIndustrial | LightWoods | HeavyWoods |
    UltraHeavyWoods | LightJungle | HeavyJungle | UltraHeavyJungle | PlantedFields | Water |
    Ice | ThinSnow | DeepSnow | Mud | Bridge | Building | Wall | Fire | Smoke | HeavySmoke

definition terrain_ALL :: "terrain list" where
  "terrain_ALL =
     [Clear, Pavement, Road, Rail, Rough, UltraRough, Rubble, UltraRubble, Sand, Tundra, Swamp,
      MagmaCrust, Magma, HeavyIndustrial, LightWoods, HeavyWoods, UltraHeavyWoods, LightJungle,
      HeavyJungle, UltraHeavyJungle, PlantedFields, Water, Ice, ThinSnow, DeepSnow, Mud,
      Bridge, Building, Wall, Fire, Smoke, HeavySmoke]"

primrec terrain_name :: "terrain \<Rightarrow> string" where
  "terrain_name Clear = ''clear''"
| "terrain_name Pavement = ''pavement''"
| "terrain_name Road = ''road''"
| "terrain_name Rail = ''rail''"
| "terrain_name Rough = ''rough''"
| "terrain_name UltraRough = ''ultra_rough''"
| "terrain_name Rubble = ''rubble''"
| "terrain_name UltraRubble = ''ultra_rubble''"
| "terrain_name Sand = ''sand''"
| "terrain_name Tundra = ''tundra''"
| "terrain_name Swamp = ''swamp''"
| "terrain_name MagmaCrust = ''magma_crust''"
| "terrain_name Magma = ''magma''"
| "terrain_name HeavyIndustrial = ''heavy_industrial''"
| "terrain_name LightWoods = ''light_woods''"
| "terrain_name HeavyWoods = ''heavy_woods''"
| "terrain_name UltraHeavyWoods = ''ultra_heavy_woods''"
| "terrain_name LightJungle = ''light_jungle''"
| "terrain_name HeavyJungle = ''heavy_jungle''"
| "terrain_name UltraHeavyJungle = ''ultra_heavy_jungle''"
| "terrain_name PlantedFields = ''planted_fields''"
| "terrain_name Water = ''water''"
| "terrain_name Ice = ''ice''"
| "terrain_name ThinSnow = ''thin_snow''"
| "terrain_name DeepSnow = ''deep_snow''"
| "terrain_name Mud = ''mud''"
| "terrain_name Bridge = ''bridge''"
| "terrain_name Building = ''building''"
| "terrain_name Wall = ''wall''"
| "terrain_name Fire = ''fire''"
| "terrain_name Smoke = ''smoke''"
| "terrain_name HeavySmoke = ''heavy_smoke''"

primrec terrain_label :: "terrain \<Rightarrow> string" where
  "terrain_label Clear = ''Clear''"
| "terrain_label Pavement = ''Pavement''"
| "terrain_label Road = ''Road''"
| "terrain_label Rail = ''Rail''"
| "terrain_label Rough = ''Rough''"
| "terrain_label UltraRough = ''Ultra Rough''"
| "terrain_label Rubble = ''Rubble''"
| "terrain_label UltraRubble = ''Ultra Rubble''"
| "terrain_label Sand = ''Sand''"
| "terrain_label Tundra = ''Tundra''"
| "terrain_label Swamp = ''Swamp''"
| "terrain_label MagmaCrust = ''Magma Crust''"
| "terrain_label Magma = ''Magma''"
| "terrain_label HeavyIndustrial = ''Heavy Industrial''"
| "terrain_label LightWoods = ''Light Woods''"
| "terrain_label HeavyWoods = ''Heavy Woods''"
| "terrain_label UltraHeavyWoods = ''Ultra Woods''"
| "terrain_label LightJungle = ''Light Jungle''"
| "terrain_label HeavyJungle = ''Heavy Jungle''"
| "terrain_label UltraHeavyJungle = ''Ultra Jungle''"
| "terrain_label PlantedFields = ''Planted Fields''"
| "terrain_label Water = ''Water''"
| "terrain_label Ice = ''Ice''"
| "terrain_label ThinSnow = ''Thin Snow''"
| "terrain_label DeepSnow = ''Deep Snow''"
| "terrain_label Mud = ''Mud''"
| "terrain_label Bridge = ''Bridge''"
| "terrain_label Building = ''Building''"
| "terrain_label Wall = ''Wall''"
| "terrain_label Fire = ''Fire''"
| "terrain_label Smoke = ''Smoke''"
| "terrain_label HeavySmoke = ''Heavy Smoke''"

primrec terrain_symbol :: "terrain \<Rightarrow> char" where
  "terrain_symbol Clear = CHR '' ''"
| "terrain_symbol Pavement = CHR ''_''"
| "terrain_symbol Road = CHR ''#''"
| "terrain_symbol Rail = CHR ''|''"
| "terrain_symbol Rough = CHR ''%''"
| "terrain_symbol UltraRough = CHR ''^''"
| "terrain_symbol Rubble = CHR '';''"
| "terrain_symbol UltraRubble = CHR ''!''"
| "terrain_symbol Sand = CHR ''}''"
| "terrain_symbol Tundra = CHR ''{''"
| "terrain_symbol Swamp = CHR ''w''"
| "terrain_symbol MagmaCrust = CHR ''m''"
| "terrain_symbol Magma = CHR ''M''"
| "terrain_symbol HeavyIndustrial = CHR ''$''"
| "terrain_symbol LightWoods = CHR 0x60"
| "terrain_symbol HeavyWoods = CHR 0x22"
| "terrain_symbol UltraHeavyWoods = CHR ''W''"
| "terrain_symbol LightJungle = CHR ''j''"
| "terrain_symbol HeavyJungle = CHR ''J''"
| "terrain_symbol UltraHeavyJungle = CHR ''U''"
| "terrain_symbol PlantedFields = CHR ''f''"
| "terrain_symbol Water = CHR ''~''"
| "terrain_symbol Ice = CHR ''-''"
| "terrain_symbol ThinSnow = CHR ''*''"
| "terrain_symbol DeepSnow = CHR ''+''"
| "terrain_symbol Mud = CHR '',''"
| "terrain_symbol Bridge = CHR ''/''"
| "terrain_symbol Building = CHR ''@''"
| "terrain_symbol Wall = CHR ''=''"
| "terrain_symbol Fire = CHR ''&''"
| "terrain_symbol Smoke = CHR '':''"
| "terrain_symbol HeavySmoke = CHR ''?''"

datatype terrain_error = UnknownTerrain string | UnknownSymbol char

definition from_name :: "string \<Rightarrow> (terrain_error, terrain) result" where
  "from_name n =
     (case List.find (\<lambda>t. terrain_name t = n) terrain_ALL of
        Some t \<Rightarrow> Inr t | None \<Rightarrow> Inl (UnknownTerrain n))"

definition from_symbol :: "char \<Rightarrow> (terrain_error, terrain) result" where
  "from_symbol c =
     (case List.find (\<lambda>t. terrain_symbol t = c) terrain_ALL of
        Some t \<Rightarrow> Inr t | None \<Rightarrow> Inl (UnknownSymbol c))"

section \<open>Lemmas\<close>

lemma terrain_ALL_complete: "t \<in> set terrain_ALL"
  by (cases t) (simp_all add: terrain_ALL_def)

interpretation tname: catalogue terrain_ALL terrain_name
  by unfold_locales (simp_all add: terrain_ALL_complete, simp add: terrain_ALL_def)

interpretation tsym: catalogue terrain_ALL terrain_symbol
  by unfold_locales (simp_all add: terrain_ALL_complete, simp add: terrain_ALL_def)

lemma from_name_iff: "from_name n = Inr t \<longleftrightarrow> terrain_name t = n"
  using tname.decode_Some_iff [of n t] by (auto simp: from_name_def split: option.splits)

lemma from_symbol_iff: "from_symbol c = Inr t \<longleftrightarrow> terrain_symbol t = c"
  using tsym.decode_Some_iff [of c t] by (auto simp: from_symbol_def split: option.splits)

section \<open>Properties\<close>

text \<open>
  Names and glyphs identify terrain: decoding a name gives a terrain exactly when that terrain
  prints as the name, decoding a glyph exactly when the terrain shows as the glyph, no two terrains
  share either, anything else is an error, and no terrain shows as the full stop that grids read as
  clear.
\<close>

lemma terrain_catalogue:
  "(from_name n = Inr t \<longleftrightarrow> terrain_name t = n) \<and> (from_symbol c = Inr t \<longleftrightarrow> terrain_symbol t = c)
   \<and> (from_name n = Inl (UnknownTerrain n) \<longleftrightarrow> n \<notin> range terrain_name)
   \<and> (from_symbol c = Inl (UnknownSymbol c) \<longleftrightarrow> c \<notin> range terrain_symbol)
   \<and> terrain_symbol t \<noteq> CHR ''.''"
proof -
  have "terrain_symbol t \<noteq> CHR ''.''" by (cases t) simp_all
  moreover have "from_name n = Inl (UnknownTerrain n) \<longleftrightarrow> n \<notin> range terrain_name"
    using tname.decode_None_iff [of n] by (auto simp: from_name_def split: option.splits)
  moreover have "from_symbol c = Inl (UnknownSymbol c) \<longleftrightarrow> c \<notin> range terrain_symbol"
    using tsym.decode_None_iff [of c] by (auto simp: from_symbol_def split: option.splits)
  ultimately show ?thesis using from_name_iff from_symbol_iff by blast
qed

end
