(* ===== verification/Map_Layers.thy ===== *)
theory Map_Layers
  imports Map_Terrain
begin

text \<open>
  \<open>crates/map/src/layers.rs\<close>: the layers a battlefield hex is built from. Numbers keep their
  Rust width where the rules compute with them (\<open>u8\<close> heights and depths, \<open>u16\<close> construction
  factors); points and levels that only feed sums are natural numbers.
\<close>

section \<open>Ground and foliage\<close>

datatype ground =
    Clear | Pavement | Rough | UltraRough | Rubble | UltraRubble | Sand | Tundra | Swamp |
    MagmaCrust | Magma | HeavyIndustrial

definition ground_ALL :: "ground list" where
  "ground_ALL =
     [ground.Clear, ground.Pavement, ground.Rough, ground.UltraRough, ground.Rubble,
      ground.UltraRubble, ground.Sand, ground.Tundra, ground.Swamp, ground.MagmaCrust,
      ground.Magma, ground.HeavyIndustrial]"

primrec ground_name :: "ground \<Rightarrow> string" where
  "ground_name ground.Clear = ''clear''"
| "ground_name ground.Pavement = ''pavement''"
| "ground_name ground.Rough = ''rough''"
| "ground_name ground.UltraRough = ''ultra_rough''"
| "ground_name ground.Rubble = ''rubble''"
| "ground_name ground.UltraRubble = ''ultra_rubble''"
| "ground_name ground.Sand = ''sand''"
| "ground_name ground.Tundra = ''tundra''"
| "ground_name ground.Swamp = ''swamp''"
| "ground_name ground.MagmaCrust = ''magma_crust''"
| "ground_name ground.Magma = ''magma''"
| "ground_name ground.HeavyIndustrial = ''heavy_industrial''"

primrec ground_label :: "ground \<Rightarrow> string" where
  "ground_label ground.Clear = ''Clear''"
| "ground_label ground.Pavement = ''Pavement''"
| "ground_label ground.Rough = ''Rough''"
| "ground_label ground.UltraRough = ''Ultra rough''"
| "ground_label ground.Rubble = ''Rubble''"
| "ground_label ground.UltraRubble = ''Ultra rubble''"
| "ground_label ground.Sand = ''Sand''"
| "ground_label ground.Tundra = ''Tundra''"
| "ground_label ground.Swamp = ''Swamp''"
| "ground_label ground.MagmaCrust = ''Magma crust''"
| "ground_label ground.Magma = ''Magma''"
| "ground_label ground.HeavyIndustrial = ''Heavy industrial''"

definition supports_foliage :: "ground \<Rightarrow> bool" where
  "supports_foliage g \<longleftrightarrow> g \<notin> {ground.Magma, ground.Pavement, ground.HeavyIndustrial}"

datatype density =
    Light | Heavy | UltraHeavy

definition density_ALL :: "density list" where
  "density_ALL =
     [density.Light, density.Heavy, density.UltraHeavy]"

primrec thinner :: "density \<Rightarrow> density option" where
  "thinner density.Light = None"
| "thinner density.Heavy = Some density.Light"
| "thinner density.UltraHeavy = Some density.Heavy"

primrec density_points :: "density \<Rightarrow> nat" where
  "density_points density.Light = 1"
| "density_points density.Heavy = 2"
| "density_points density.UltraHeavy = 3"

datatype foliage =
    LightWoods | HeavyWoods | UltraHeavyWoods | LightJungle | HeavyJungle | UltraHeavyJungle |
    PlantedFields

definition foliage_ALL :: "foliage list" where
  "foliage_ALL =
     [foliage.LightWoods, foliage.HeavyWoods, foliage.UltraHeavyWoods, foliage.LightJungle,
      foliage.HeavyJungle, foliage.UltraHeavyJungle, foliage.PlantedFields]"

primrec woods :: "density \<Rightarrow> foliage" where
  "woods density.Light = foliage.LightWoods"
| "woods density.Heavy = foliage.HeavyWoods"
| "woods density.UltraHeavy = foliage.UltraHeavyWoods"

primrec jungle :: "density \<Rightarrow> foliage" where
  "jungle density.Light = foliage.LightJungle"
| "jungle density.Heavy = foliage.HeavyJungle"
| "jungle density.UltraHeavy = foliage.UltraHeavyJungle"

primrec foliage_name :: "foliage \<Rightarrow> string" where
  "foliage_name foliage.LightWoods = ''light_woods''"
| "foliage_name foliage.HeavyWoods = ''heavy_woods''"
| "foliage_name foliage.UltraHeavyWoods = ''ultra_heavy_woods''"
| "foliage_name foliage.LightJungle = ''light_jungle''"
| "foliage_name foliage.HeavyJungle = ''heavy_jungle''"
| "foliage_name foliage.UltraHeavyJungle = ''ultra_heavy_jungle''"
| "foliage_name foliage.PlantedFields = ''planted_fields''"

primrec foliage_label :: "foliage \<Rightarrow> string" where
  "foliage_label foliage.LightWoods = ''Light woods''"
| "foliage_label foliage.HeavyWoods = ''Heavy woods''"
| "foliage_label foliage.UltraHeavyWoods = ''Ultra-heavy woods''"
| "foliage_label foliage.LightJungle = ''Light jungle''"
| "foliage_label foliage.HeavyJungle = ''Heavy jungle''"
| "foliage_label foliage.UltraHeavyJungle = ''Ultra-heavy jungle''"
| "foliage_label foliage.PlantedFields = ''Planted fields''"

primrec foliage_density :: "foliage \<Rightarrow> density option" where
  "foliage_density foliage.LightWoods = Some density.Light"
| "foliage_density foliage.HeavyWoods = Some density.Heavy"
| "foliage_density foliage.UltraHeavyWoods = Some density.UltraHeavy"
| "foliage_density foliage.LightJungle = Some density.Light"
| "foliage_density foliage.HeavyJungle = Some density.Heavy"
| "foliage_density foliage.UltraHeavyJungle = Some density.UltraHeavy"
| "foliage_density foliage.PlantedFields = None"

definition is_jungle :: "foliage \<Rightarrow> bool" where
  "is_jungle f \<longleftrightarrow> f \<in> {foliage.LightJungle, foliage.HeavyJungle, foliage.UltraHeavyJungle}"

definition foliage_rise :: "foliage \<Rightarrow> nat" where
  "foliage_rise f =
     (case foliage_density f of Some density.UltraHeavy \<Rightarrow> 3 | Some _ \<Rightarrow> 2 | None \<Rightarrow> 1)"

primrec terrain_factor :: "foliage \<Rightarrow> nat" where
  "terrain_factor foliage.LightWoods = 50"
| "terrain_factor foliage.HeavyWoods = 90"
| "terrain_factor foliage.UltraHeavyWoods = 120"
| "terrain_factor foliage.LightJungle = 60"
| "terrain_factor foliage.HeavyJungle = 100"
| "terrain_factor foliage.UltraHeavyJungle = 130"
| "terrain_factor foliage.PlantedFields = 30"

definition thinned :: "foliage \<Rightarrow> foliage option" where
  "thinned f =
     (case foliage_density f of
        None \<Rightarrow> None
      | Some d \<Rightarrow>
          (case thinner d of
             None \<Rightarrow> None
           | Some t \<Rightarrow> Some (if is_jungle f then jungle t else woods t)))"

section \<open>Water, routes, conditions and overlays\<close>

datatype flow =
    Still | Rapids | Torrent

definition flow_ALL :: "flow list" where
  "flow_ALL =
     [flow.Still, flow.Rapids, flow.Torrent]"

definition is_still :: "flow \<Rightarrow> bool" where
  "is_still f \<longleftrightarrow> f = flow.Still"

primrec flow_label :: "flow \<Rightarrow> string" where
  "flow_label flow.Still = ''Still''"
| "flow_label flow.Rapids = ''Rapids''"
| "flow_label flow.Torrent = ''Torrent''"

record water =
  depth :: u8
  water_flow :: flow

definition still_water :: "u8 \<Rightarrow> water" where
  "still_water d = \<lparr>depth = d, water_flow = flow.Still\<rparr>"

datatype route =
    PavedRoad | GravelRoad | DirtRoad | Rail

definition route_ALL :: "route list" where
  "route_ALL =
     [route.PavedRoad, route.GravelRoad, route.DirtRoad, route.Rail]"

definition route_is_road :: "route \<Rightarrow> bool" where
  "route_is_road r \<longleftrightarrow> r \<noteq> route.Rail"

primrec route_label :: "route \<Rightarrow> string" where
  "route_label route.PavedRoad = ''Paved road''"
| "route_label route.GravelRoad = ''Gravel road''"
| "route_label route.DirtRoad = ''Dirt road''"
| "route_label route.Rail = ''Rail''"

datatype condition =
    Ice | ThinSnow | DeepSnow | Mud

definition condition_ALL :: "condition list" where
  "condition_ALL =
     [condition.Ice, condition.ThinSnow, condition.DeepSnow, condition.Mud]"

primrec condition_label :: "condition \<Rightarrow> string" where
  "condition_label condition.Ice = ''Ice''"
| "condition_label condition.ThinSnow = ''Thin snow''"
| "condition_label condition.DeepSnow = ''Deep snow''"
| "condition_label condition.Mud = ''Mud''"

datatype decoration_kind =
    Fire | Smoke | HeavySmoke

definition decoration_kind_ALL :: "decoration_kind list" where
  "decoration_kind_ALL =
     [decoration_kind.Fire, decoration_kind.Smoke, decoration_kind.HeavySmoke]"

primrec decoration_terrain :: "decoration_kind \<Rightarrow> terrain" where
  "decoration_terrain decoration_kind.Fire = terrain.Fire"
| "decoration_terrain decoration_kind.Smoke = terrain.Smoke"
| "decoration_terrain decoration_kind.HeavySmoke = terrain.HeavySmoke"

definition is_smoke :: "decoration_kind \<Rightarrow> bool" where
  "is_smoke k \<longleftrightarrow> k \<in> {decoration_kind.Smoke, decoration_kind.HeavySmoke}"

primrec decoration_density :: "decoration_kind \<Rightarrow> nat" where
  "decoration_density decoration_kind.Fire = 0"
| "decoration_density decoration_kind.Smoke = 1"
| "decoration_density decoration_kind.HeavySmoke = 2"

primrec decoration_kind_label :: "decoration_kind \<Rightarrow> string" where
  "decoration_kind_label decoration_kind.Fire = ''Fire''"
| "decoration_kind_label decoration_kind.Smoke = ''Smoke''"
| "decoration_kind_label decoration_kind.HeavySmoke = ''Heavy smoke''"

section \<open>Structures\<close>

datatype structure_kind =
    Building | Wall | Bridge

definition structure_kind_ALL :: "structure_kind list" where
  "structure_kind_ALL =
     [structure_kind.Building, structure_kind.Wall, structure_kind.Bridge]"

primrec structure_kind_label :: "structure_kind \<Rightarrow> string" where
  "structure_kind_label structure_kind.Building = ''Building''"
| "structure_kind_label structure_kind.Wall = ''Wall''"
| "structure_kind_label structure_kind.Bridge = ''Bridge''"

datatype construction_class =
    Light | Medium | Heavy | Hardened

definition construction_class_ALL :: "construction_class list" where
  "construction_class_ALL =
     [construction_class.Light, construction_class.Medium, construction_class.Heavy,
      construction_class.Hardened]"

definition MAX_CONSTRUCTION_FACTOR :: u16 where "MAX_CONSTRUCTION_FACTOR = 150"

definition class_of :: "u16 \<Rightarrow> construction_class" where
  "class_of cf =
     (if cf \<le> 15 then construction_class.Light else if cf \<le> 40 then construction_class.Medium
      else if cf \<le> 90 then construction_class.Heavy else construction_class.Hardened)"

primrec construction_factor :: "construction_class \<Rightarrow> u16" where
  "construction_factor construction_class.Light = 15"
| "construction_factor construction_class.Medium = 40"
| "construction_factor construction_class.Heavy = 90"
| "construction_factor construction_class.Hardened = MAX_CONSTRUCTION_FACTOR"

primrec construction_class_label :: "construction_class \<Rightarrow> string" where
  "construction_class_label construction_class.Light = ''Light''"
| "construction_class_label construction_class.Medium = ''Medium''"
| "construction_class_label construction_class.Heavy = ''Heavy''"
| "construction_class_label construction_class.Hardened = ''Hardened''"

primrec class_rubble :: "construction_class \<Rightarrow> ground" where
  "class_rubble construction_class.Light = ground.Rubble"
| "class_rubble construction_class.Medium = ground.Rubble"
| "class_rubble construction_class.Heavy = ground.UltraRubble"
| "class_rubble construction_class.Hardened = ground.UltraRubble"

record hex_structure =
  structure_kind :: structure_kind
  structure_class :: construction_class
  structure_height :: u8
  cf :: u16

definition structure_new :: "structure_kind \<Rightarrow> u8 \<Rightarrow> construction_class \<Rightarrow> hex_structure" where
  "structure_new k h c =
     \<lparr>structure_kind = k, structure_class = c, structure_height = h, cf = construction_factor c\<rparr>"

definition structure_building :: "u8 \<Rightarrow> hex_structure" where
  "structure_building h = structure_new structure_kind.Building h construction_class.Medium"

definition structure_wall :: "u8 \<Rightarrow> hex_structure" where
  "structure_wall h = structure_new structure_kind.Wall h construction_class.Medium"

definition structure_bridge :: "u8 \<Rightarrow> hex_structure" where
  "structure_bridge deck = structure_new structure_kind.Bridge deck construction_class.Medium"

definition is_intact :: "hex_structure \<Rightarrow> bool" where
  "is_intact s \<longleftrightarrow> construction_factor (structure_class s) \<le> cf s"

definition is_bridge :: "hex_structure \<Rightarrow> bool" where
  "is_bridge s \<longleftrightarrow> structure_kind s = structure_kind.Bridge"

definition is_standing :: "hex_structure \<Rightarrow> bool" where
  "is_standing s \<longleftrightarrow> \<not> is_bridge s"

section \<open>Lemmas\<close>

interpretation gname: catalogue ground_ALL ground_name
proof
  show "g \<in> set ground_ALL" for g by (cases g) (simp_all add: ground_ALL_def)
qed (simp add: ground_ALL_def)

interpretation fname: catalogue foliage_ALL foliage_name
proof
  show "f \<in> set foliage_ALL" for f by (cases f) (simp_all add: foliage_ALL_def)
qed (simp add: foliage_ALL_def)

lemma class_of_construction_factor: "class_of (construction_factor c) = c"
  by (cases c) (simp_all add: class_of_def MAX_CONSTRUCTION_FACTOR_def)

lemma construction_factor_range: "1 \<le> construction_factor c \<and> construction_factor c \<le> 150"
  by (cases c) (simp_all add: MAX_CONSTRUCTION_FACTOR_def)

definition foliage_points :: "foliage \<Rightarrow> nat" where
  "foliage_points f = (case foliage_density f of None \<Rightarrow> 0 | Some d \<Rightarrow> density_points d)"

text \<open>Cutting foliage back, as often as weapons fire wears out its terrain factor.\<close>

fun thin_times :: "nat \<Rightarrow> foliage option \<Rightarrow> foliage option" where
  "thin_times 0 f = f"
| "thin_times (Suc n) f = thin_times n (Option.bind f thinned)"

lemma thinned_points:
  "thinned f = Some g \<Longrightarrow> foliage_points f = Suc (foliage_points g) \<and> is_jungle g = is_jungle f"
  by (cases f) (auto simp: thinned_def foliage_points_def is_jungle_def)

lemma thinned_None: "thinned f = None \<longleftrightarrow> foliage_points f \<le> 1"
  by (cases f) (auto simp: thinned_def foliage_points_def)

lemma thin_times_None [simp]: "thin_times n None = None"
  by (induction n) auto

section \<open>Properties\<close>

text \<open>
  Weapons fire clears any foliage in exactly as many cuts as its density counts (one for
  planted fields), each cut keeps jungle jungle and woods woods, lowers the density by one step and
  leaves growth that takes strictly less damage to cut again.
\<close>

lemma foliage_clears:
  "(thin_times n (Some f) = None \<longleftrightarrow> max 1 (foliage_points f) \<le> n)
   \<and> (thinned f = Some g \<longrightarrow> terrain_factor g < terrain_factor f \<and> is_jungle g = is_jungle f
        \<and> foliage_points f = Suc (foliage_points g))"
proof -
  have "thin_times n (Some f) = None \<longleftrightarrow> max 1 (foliage_points f) \<le> n"
  proof (induction n arbitrary: f)
    case (Suc n)
    show ?case
    proof (cases "thinned f")
      case None
      then show ?thesis using thinned_None [of f] by simp
    next
      case (Some g)
      then show ?thesis using Suc thinned_points [OF Some] thinned_None [of f] by auto
    qed
  qed simp
  moreover have "thinned f = Some g \<Longrightarrow> terrain_factor g < terrain_factor f"
    by (cases f) (auto simp: thinned_def is_jungle_def)
  ultimately show ?thesis using thinned_points by blast
qed

end
