(* ===== verification/Map_Hex.thy ===== *)
theory Map_Hex
  imports Map_Layers
begin

text \<open>
  \<open>crates/map/src/hex.rs\<close>: one battlefield hex as independent layers, what makes a combination of
  layers valid, the feature a map shows, the heights units stand at, and how ice, crust and
  structures break. Heights (\<open>i16\<close> and \<open>i32\<close> in the source, computed from \<open>u8\<close> values) are integers.
\<close>

section \<open>Definitions\<close>

definition MAX_HEIGHT :: u8 where "MAX_HEIGHT = 35"
definition MAX_DEPTH :: u8 where "MAX_DEPTH = 9"

definition height_glyph :: "u8 \<Rightarrow> char" where
  "height_glyph h =
     (let n = unat h
      in if n < 10 then char_of (48 + n) else if n < 36 then char_of (87 + n) else CHR ''?'')"

record hex =
  level :: u8
  ground_of :: ground
  water_of :: "water option"
  foliage_of :: "foliage option"
  route_of :: "route option"
  structure_of :: "hex_structure option"
  condition_of :: "condition option"
  overlay_of :: "decoration_kind option"

definition at_level :: "u8 \<Rightarrow> hex" where
  "at_level l =
     \<lparr>level = l, ground_of = ground.Clear, water_of = None, foliage_of = None, route_of = None,
      structure_of = None, condition_of = None, overlay_of = None\<rparr>"

definition with_level :: "hex \<Rightarrow> u8 \<Rightarrow> hex" where
  "with_level h x = h\<lparr>level := x\<rparr>"

definition with_ground :: "hex \<Rightarrow> ground \<Rightarrow> hex" where
  "with_ground h x = h\<lparr>ground_of := x\<rparr>"

definition with_water :: "hex \<Rightarrow> water option \<Rightarrow> hex" where
  "with_water h x = h\<lparr>water_of := x\<rparr>"

definition with_foliage :: "hex \<Rightarrow> foliage option \<Rightarrow> hex" where
  "with_foliage h x = h\<lparr>foliage_of := x\<rparr>"

definition with_route :: "hex \<Rightarrow> route option \<Rightarrow> hex" where
  "with_route h x = h\<lparr>route_of := x\<rparr>"

definition with_structure :: "hex \<Rightarrow> hex_structure option \<Rightarrow> hex" where
  "with_structure h x = h\<lparr>structure_of := x\<rparr>"

definition with_condition :: "hex \<Rightarrow> condition option \<Rightarrow> hex" where
  "with_condition h x = h\<lparr>condition_of := x\<rparr>"

definition with_overlay :: "hex \<Rightarrow> decoration_kind option \<Rightarrow> hex" where
  "with_overlay h x = h\<lparr>overlay_of := x\<rparr>"

lemmas with_defs = with_level_def with_ground_def with_water_def with_foliage_def with_route_def
  with_structure_def with_condition_def with_overlay_def

definition hex_new :: "terrain \<Rightarrow> u8 \<Rightarrow> hex" where
  "hex_new t digit =
     (let dry = at_level digit; wet = with_water (at_level 0) (Some (still_water digit))
      in case t of
           terrain.Clear \<Rightarrow> dry
         | terrain.Pavement \<Rightarrow> with_ground dry ground.Pavement
         | terrain.Road \<Rightarrow> with_route dry (Some route.PavedRoad)
         | terrain.Rail \<Rightarrow> with_route dry (Some route.Rail)
         | terrain.Rough \<Rightarrow> with_ground dry ground.Rough
         | terrain.UltraRough \<Rightarrow> with_ground dry ground.UltraRough
         | terrain.Rubble \<Rightarrow> with_ground dry ground.Rubble
         | terrain.UltraRubble \<Rightarrow> with_ground dry ground.UltraRubble
         | terrain.Sand \<Rightarrow> with_ground dry ground.Sand
         | terrain.Tundra \<Rightarrow> with_ground dry ground.Tundra
         | terrain.Swamp \<Rightarrow> with_ground dry ground.Swamp
         | terrain.MagmaCrust \<Rightarrow> with_ground dry ground.MagmaCrust
         | terrain.Magma \<Rightarrow> with_ground dry ground.Magma
         | terrain.HeavyIndustrial \<Rightarrow> with_ground dry ground.HeavyIndustrial
         | terrain.LightWoods \<Rightarrow> with_foliage dry (Some foliage.LightWoods)
         | terrain.HeavyWoods \<Rightarrow> with_foliage dry (Some foliage.HeavyWoods)
         | terrain.UltraHeavyWoods \<Rightarrow> with_foliage dry (Some foliage.UltraHeavyWoods)
         | terrain.LightJungle \<Rightarrow> with_foliage dry (Some foliage.LightJungle)
         | terrain.HeavyJungle \<Rightarrow> with_foliage dry (Some foliage.HeavyJungle)
         | terrain.UltraHeavyJungle \<Rightarrow> with_foliage dry (Some foliage.UltraHeavyJungle)
         | terrain.PlantedFields \<Rightarrow> with_foliage dry (Some foliage.PlantedFields)
         | terrain.Water \<Rightarrow> wet
         | terrain.Ice \<Rightarrow> with_condition wet (Some condition.Ice)
         | terrain.ThinSnow \<Rightarrow> with_condition dry (Some condition.ThinSnow)
         | terrain.DeepSnow \<Rightarrow> with_condition dry (Some condition.DeepSnow)
         | terrain.Mud \<Rightarrow> with_condition dry (Some condition.Mud)
         | terrain.Bridge \<Rightarrow> 
             with_structure (with_water (at_level 0) (Some (still_water 1))) (Some (structure_bridge digit))
         | terrain.Building \<Rightarrow> with_structure (at_level 0) (Some (structure_building digit))
         | terrain.Wall \<Rightarrow> with_structure (at_level 0) (Some (structure_wall digit))
         | terrain.Fire \<Rightarrow> with_overlay dry (Some decoration_kind.Fire)
         | terrain.Smoke \<Rightarrow> with_overlay dry (Some decoration_kind.Smoke)
         | terrain.HeavySmoke \<Rightarrow> with_overlay dry (Some decoration_kind.HeavySmoke))"

definition water_depth :: "hex \<Rightarrow> u8" where
  "water_depth h = (case water_of h of Some w \<Rightarrow> depth w | None \<Rightarrow> 0)"

datatype hex_error =
    HeightsExceedLimits | WaterNotOverClear | SubmergedGrowthOrRoute | OnlyIceOverWater
  | ShallowFlow | CannotGrow foliage ground | OnMagma | BadConstructionFactor construction_class
  | BridgeNeedsWater | StandingNeedsDryGround

text \<open>The blocks of \<open>validate\<close>, one per layer, in the order the source checks them.\<close>

definition validate_structure :: "hex \<Rightarrow> (hex_error, unit) result" where
  "validate_structure h =
     (case structure_of h of
        None \<Rightarrow> Inr ()
      | Some s \<Rightarrow>
          ensure_then (1 \<le> cf s \<and> cf s \<le> construction_factor (structure_class s))
            (BadConstructionFactor (structure_class s))
            (case structure_kind s of
               structure_kind.Bridge \<Rightarrow> ensure (water_of h \<noteq> None) BridgeNeedsWater
             | _ \<Rightarrow>
                 ensure (water_of h = None \<and> foliage_of h = None \<and> route_of h = None)
                   StandingNeedsDryGround))"

definition validate_magma :: "hex \<Rightarrow> (hex_error, unit) result" where
  "validate_magma h =
     (if ground_of h = ground.Magma
      then ensure_then (condition_of h = None \<and> route_of h = None) OnMagma (validate_structure h)
      else validate_structure h)"

definition validate_foliage :: "hex \<Rightarrow> (hex_error, unit) result" where
  "validate_foliage h =
     (case foliage_of h of
        Some f \<Rightarrow>
          ensure_then (supports_foliage (ground_of h)) (CannotGrow f (ground_of h)) (validate_magma h)
      | None \<Rightarrow> validate_magma h)"

definition validate_water :: "hex \<Rightarrow> (hex_error, unit) result" where
  "validate_water h =
     (case water_of h of
        Some w \<Rightarrow>
          ensure_then (ground_of h = ground.Clear) WaterNotOverClear
            (ensure_then (foliage_of h = None \<and> route_of h = None) SubmergedGrowthOrRoute
              (ensure_then (condition_of h \<in> {None, Some condition.Ice}) OnlyIceOverWater
                (ensure_then (is_still (water_flow w) \<or> 1 \<le> depth w) ShallowFlow
                  (validate_foliage h))))
      | None \<Rightarrow> validate_foliage h)"

definition validate :: "hex \<Rightarrow> (hex_error, unit) result" where
  "validate h =
     (let structure_top = (case structure_of h of Some s \<Rightarrow> structure_height s | None \<Rightarrow> 0)
      in ensure_then
           (level h \<le> MAX_HEIGHT \<and> structure_top \<le> MAX_HEIGHT \<and> water_depth h \<le> MAX_DEPTH)
           HeightsExceedLimits (validate_water h))"

text \<open>The one feature a map shows.\<close>

primrec foliage_terrain :: "foliage \<Rightarrow> terrain" where
  "foliage_terrain foliage.LightWoods = terrain.LightWoods"
| "foliage_terrain foliage.HeavyWoods = terrain.HeavyWoods"
| "foliage_terrain foliage.UltraHeavyWoods = terrain.UltraHeavyWoods"
| "foliage_terrain foliage.LightJungle = terrain.LightJungle"
| "foliage_terrain foliage.HeavyJungle = terrain.HeavyJungle"
| "foliage_terrain foliage.UltraHeavyJungle = terrain.UltraHeavyJungle"
| "foliage_terrain foliage.PlantedFields = terrain.PlantedFields"

primrec ground_terrain :: "ground \<Rightarrow> terrain" where
  "ground_terrain ground.Clear = terrain.Clear"
| "ground_terrain ground.Pavement = terrain.Pavement"
| "ground_terrain ground.Rough = terrain.Rough"
| "ground_terrain ground.UltraRough = terrain.UltraRough"
| "ground_terrain ground.Rubble = terrain.Rubble"
| "ground_terrain ground.UltraRubble = terrain.UltraRubble"
| "ground_terrain ground.Sand = terrain.Sand"
| "ground_terrain ground.Tundra = terrain.Tundra"
| "ground_terrain ground.Swamp = terrain.Swamp"
| "ground_terrain ground.MagmaCrust = terrain.MagmaCrust"
| "ground_terrain ground.Magma = terrain.Magma"
| "ground_terrain ground.HeavyIndustrial = terrain.HeavyIndustrial"

primrec structure_terrain :: "structure_kind \<Rightarrow> terrain" where
  "structure_terrain structure_kind.Building = terrain.Building"
| "structure_terrain structure_kind.Wall = terrain.Wall"
| "structure_terrain structure_kind.Bridge = terrain.Bridge"

definition dry_terrain :: "hex \<Rightarrow> terrain" where
  "dry_terrain h =
     (case route_of h of
        Some route.Rail \<Rightarrow> terrain.Rail
      | Some _ \<Rightarrow> terrain.Road
      | None \<Rightarrow>
          (case foliage_of h of
             Some f \<Rightarrow> foliage_terrain f
           | None \<Rightarrow>
               (case condition_of h of
                  Some condition.Ice \<Rightarrow> terrain.Ice
                | Some condition.ThinSnow \<Rightarrow> terrain.ThinSnow
                | Some condition.DeepSnow \<Rightarrow> terrain.DeepSnow
                | Some condition.Mud \<Rightarrow> terrain.Mud
                | None \<Rightarrow> ground_terrain (ground_of h))))"

definition hex_terrain :: "hex \<Rightarrow> terrain" where
  "hex_terrain h =
     (case overlay_of h of
        Some k \<Rightarrow> decoration_terrain k
      | None \<Rightarrow>
          (case structure_of h of
             Some s \<Rightarrow> structure_terrain (structure_kind s)
           | None \<Rightarrow>
               if water_of h \<noteq> None
               then (if condition_of h = Some condition.Ice then terrain.Ice else terrain.Water)
               else dry_terrain h))"

section \<open>Questions\<close>

definition water_line :: "hex \<Rightarrow> int" where
  "water_line h = uint (level h)"

definition is_frozen :: "hex \<Rightarrow> bool" where
  "is_frozen h \<longleftrightarrow> water_of h \<noteq> None \<and> condition_of h = Some condition.Ice"

definition is_open_water :: "hex \<Rightarrow> bool" where
  "is_open_water h \<longleftrightarrow> water_of h \<noteq> None \<and> \<not> is_frozen h \<and> structure_of h = None"

definition is_burning :: "hex \<Rightarrow> bool" where
  "is_burning h \<longleftrightarrow> overlay_of h = Some decoration_kind.Fire"

definition is_smoky :: "hex \<Rightarrow> bool" where
  "is_smoky h \<longleftrightarrow> (case overlay_of h of Some k \<Rightarrow> is_smoke k | None \<Rightarrow> False)"

definition smoke_density :: "hex \<Rightarrow> nat" where
  "smoke_density h = (case overlay_of h of Some k \<Rightarrow> decoration_density k | None \<Rightarrow> 0)"

definition is_road :: "hex \<Rightarrow> bool" where
  "is_road h \<longleftrightarrow> (case route_of h of Some r \<Rightarrow> route_is_road r | None \<Rightarrow> False)
     \<and> water_of h = None \<and> structure_of h = None"

definition has_bridge :: "hex \<Rightarrow> bool" where
  "has_bridge h \<longleftrightarrow> (case structure_of h of Some s \<Rightarrow> is_bridge s | None \<Rightarrow> False)"

definition is_paved :: "hex \<Rightarrow> bool" where
  "is_paved h \<longleftrightarrow> is_road h \<or> has_bridge h \<or> ground_of h = ground.Pavement"

definition has_building :: "hex \<Rightarrow> bool" where
  "has_building h \<longleftrightarrow>
     (case structure_of h of Some s \<Rightarrow> structure_kind s = structure_kind.Building | None \<Rightarrow> False)"

definition has_standing_structure :: "hex \<Rightarrow> bool" where
  "has_standing_structure h \<longleftrightarrow>
     (case structure_of h of Some s \<Rightarrow> is_standing s | None \<Rightarrow> False)"

definition is_water_surface :: "hex \<Rightarrow> bool" where
  "is_water_surface h \<longleftrightarrow> water_of h \<noteq> None \<and> structure_of h = None"

definition is_ice :: "hex \<Rightarrow> bool" where
  "is_ice h \<longleftrightarrow> is_frozen h \<and> structure_of h = None"

definition is_icy :: "hex \<Rightarrow> bool" where
  "is_icy h \<longleftrightarrow> condition_of h = Some condition.Ice"

definition deck_clearance :: "hex \<Rightarrow> u8 option" where
  "deck_clearance h =
     (case structure_of h of
        Some s \<Rightarrow> if is_bridge s then Some (structure_height s) else None | None \<Rightarrow> None)"

definition deck_height :: "hex \<Rightarrow> int option" where
  "deck_height h = map_option (\<lambda>deck. uint (level h) + uint deck) (deck_clearance h)"

definition bottom_height :: "hex \<Rightarrow> int" where
  "bottom_height h = uint (level h) - uint (water_depth h)"

definition surface_height :: "hex \<Rightarrow> int" where
  "surface_height h =
     (case structure_of h of
        Some s \<Rightarrow> uint (level h) + uint (structure_height s) | None \<Rightarrow> bottom_height h)"

definition top_height :: "hex \<Rightarrow> int" where
  "top_height h =
     (case structure_of h of Some _ \<Rightarrow> surface_height h | None \<Rightarrow> uint (level h))"

definition standing_height :: "hex \<Rightarrow> int" where
  "standing_height h = (if is_ice h then uint (level h) else surface_height h)"

definition construction_class_of :: "hex \<Rightarrow> construction_class option" where
  "construction_class_of h = map_option structure_class (structure_of h)"

definition blocks_jump_entry :: "hex \<Rightarrow> int \<Rightarrow> bool" where
  "blocks_jump_entry h altitude \<longleftrightarrow>
     (if is_open_water h then False
      else
        (case deck_height h of
           Some deck \<Rightarrow> altitude < uint (level h) \<or> altitude = deck - 1
         | None \<Rightarrow> altitude < surface_height h))"

definition strikes_bridge_during_jump :: "hex \<Rightarrow> int \<Rightarrow> bool" where
  "strikes_bridge_during_jump h altitude \<longleftrightarrow>
     deck_height h \<noteq> None \<and> uint (level h) < altitude \<and> blocks_jump_entry h altitude"

section \<open>Changes\<close>

definition frozen :: "hex \<Rightarrow> hex" where
  "frozen h = (if water_of h = None then h else with_condition h (Some condition.Ice))"

definition thawed :: "hex \<Rightarrow> hex" where
  "thawed h = (if condition_of h = Some condition.Ice then with_condition h None else h)"

definition with_surface_broken :: "hex \<Rightarrow> hex" where
  "with_surface_broken h =
     (let h1 = (if has_bridge h then h\<lparr>structure_of := None\<rparr> else h)
      in if water_of h1 \<noteq> None then thawed h1 else h1)"

definition with_crust_broken :: "hex \<Rightarrow> hex" where
  "with_crust_broken h =
     (if ground_of h \<noteq> ground.MagmaCrust then h
      else with_condition (with_route (with_foliage (with_ground h ground.Magma) None) None) None)"

definition collapsed :: "hex \<Rightarrow> hex" where
  "collapsed h =
     (case structure_of h of
        Some s \<Rightarrow>
          if is_standing s then with_ground (with_structure h None) (class_rubble (structure_class s))
          else with_surface_broken h
      | None \<Rightarrow> h)"

definition with_structure_damage :: "hex \<Rightarrow> u16 \<Rightarrow> hex" where
  "with_structure_damage h damage =
     (case structure_of h of
        None \<Rightarrow> h
      | Some s \<Rightarrow>
          if cf s \<le> damage then collapsed h
          else with_structure h (Some (s\<lparr>cf := cf s - damage\<rparr>)))"

section \<open>Valid hexes\<close>

text \<open>The rules of the documentation of \<open>validate\<close>, as one predicate per rule.\<close>

definition limits_ok :: "hex \<Rightarrow> bool" where
  "limits_ok h \<longleftrightarrow> level h \<le> 35 \<and> (\<forall>s. structure_of h = Some s \<longrightarrow> structure_height s \<le> 35)
     \<and> (\<forall>w. water_of h = Some w \<longrightarrow> depth w \<le> 9)"

definition water_ok :: "hex \<Rightarrow> bool" where
  "water_ok h \<longleftrightarrow>
     (\<forall>w. water_of h = Some w \<longrightarrow>
        ground_of h = ground.Clear \<and> foliage_of h = None \<and> route_of h = None
        \<and> (condition_of h = None \<or> condition_of h = Some condition.Ice)
        \<and> (water_flow w = flow.Still \<or> 1 \<le> depth w))"

definition foliage_ok :: "hex \<Rightarrow> bool" where
  "foliage_ok h \<longleftrightarrow> (foliage_of h \<noteq> None \<longrightarrow> supports_foliage (ground_of h))"

definition magma_ok :: "hex \<Rightarrow> bool" where
  "magma_ok h \<longleftrightarrow> (ground_of h = ground.Magma \<longrightarrow> condition_of h = None \<and> route_of h = None)"

definition structure_ok :: "hex \<Rightarrow> bool" where
  "structure_ok h \<longleftrightarrow>
     (\<forall>s. structure_of h = Some s \<longrightarrow>
        1 \<le> cf s \<and> cf s \<le> construction_factor (structure_class s)
        \<and> (if is_bridge s then water_of h \<noteq> None
           else water_of h = None \<and> foliage_of h = None \<and> route_of h = None))"

definition hex_ok :: "hex \<Rightarrow> bool" where
  "hex_ok h \<longleftrightarrow> limits_ok h \<and> water_ok h \<and> foliage_ok h \<and> magma_ok h \<and> structure_ok h"

lemmas rule_defs = limits_ok_def water_ok_def foliage_ok_def magma_ok_def structure_ok_def

lemma validate_structure_iff: "validate_structure h = Inr () \<longleftrightarrow> structure_ok h"
proof (cases "structure_of h")
  case (Some s)
  then show ?thesis
    by (cases "structure_kind s") (simp_all add: validate_structure_def structure_ok_def is_bridge_def)
qed (simp add: validate_structure_def structure_ok_def)

lemma validate_magma_iff: "validate_magma h = Inr () \<longleftrightarrow> magma_ok h \<and> structure_ok h"
  by (auto simp: validate_magma_def magma_ok_def validate_structure_iff)

lemma validate_foliage_iff:
  "validate_foliage h = Inr () \<longleftrightarrow> foliage_ok h \<and> magma_ok h \<and> structure_ok h"
  by (auto simp: validate_foliage_def foliage_ok_def validate_magma_iff split: option.splits)

lemma validate_water_iff:
  "validate_water h = Inr () \<longleftrightarrow> water_ok h \<and> foliage_ok h \<and> magma_ok h \<and> structure_ok h"
  by (auto simp: validate_water_def water_ok_def is_still_def validate_foliage_iff split: option.splits)

lemma limits_iff:
  "level h \<le> MAX_HEIGHT \<and> (case structure_of h of Some s \<Rightarrow> structure_height s | None \<Rightarrow> 0) \<le> MAX_HEIGHT
     \<and> water_depth h \<le> MAX_DEPTH \<longleftrightarrow> limits_ok h"
  by (cases "structure_of h"; cases "water_of h")
    (simp_all add: limits_ok_def water_depth_def MAX_HEIGHT_def MAX_DEPTH_def)

lemma validate_iff: "validate h = Inr () \<longleftrightarrow> hex_ok h"
  by (simp add: validate_def Let_def hex_ok_def limits_iff validate_water_iff)

lemma frozen_ok: "hex_ok h \<Longrightarrow> hex_ok (frozen h)"
  by (auto simp: hex_ok_def rule_defs frozen_def with_defs)

lemma thawed_ok: "hex_ok h \<Longrightarrow> hex_ok (thawed h)"
  by (auto simp: hex_ok_def rule_defs thawed_def with_defs)

lemma bridge_removed_ok: "hex_ok h \<Longrightarrow> hex_ok (h\<lparr>structure_of := None\<rparr>)"
  by (auto simp: hex_ok_def rule_defs)

lemma with_surface_broken_ok: "hex_ok h \<Longrightarrow> hex_ok (with_surface_broken h)"
  by (auto simp: with_surface_broken_def Let_def bridge_removed_ok thawed_ok)

lemma with_crust_broken_ok: "hex_ok h \<Longrightarrow> hex_ok (with_crust_broken h)"
  by (auto simp: hex_ok_def rule_defs with_crust_broken_def with_defs)

lemma rubble_supports: "supports_foliage (class_rubble c)" "class_rubble c \<noteq> ground.Magma"
  by (cases c; simp add: supports_foliage_def)+

lemma collapsed_ok:
  assumes "hex_ok h"
  shows "hex_ok (collapsed h)"
proof (cases "structure_of h")
  case (Some s)
  show ?thesis
  proof (cases "is_bridge s")
    case True
    then show ?thesis
      using Some with_surface_broken_ok [OF assms] by (simp add: collapsed_def is_standing_def)
  next
    case False
    then show ?thesis
      using Some assms
      by (auto simp: collapsed_def is_standing_def hex_ok_def rule_defs with_defs rubble_supports)
  qed
qed (simp add: collapsed_def assms)

lemma damaged_cf:
  fixes c d :: u16
  assumes "\<not> c \<le> d" and "c \<le> full"
  shows "1 \<le> c - d \<and> c - d \<le> full"
proof -
  have "unat (c - d) = unat c - unat d" using assms(1) by (simp add: unat_sub)
  then show ?thesis using assms unfolding word_le_nat_alt by simp arith
qed

lemma with_structure_damage_ok:
  assumes "hex_ok h"
  shows "hex_ok (with_structure_damage h d)"
proof (cases "structure_of h")
  case (Some s)
  show ?thesis
  proof (cases "cf s \<le> d")
    case True
    then show ?thesis using Some collapsed_ok [OF assms] by (simp add: with_structure_damage_def)
  next
    case False
    have "cf s \<le> construction_factor (structure_class s)"
      using assms Some by (simp add: hex_ok_def structure_ok_def)
    from damaged_cf [OF False this] show ?thesis
      using Some False assms
      by (auto simp: with_structure_damage_def hex_ok_def rule_defs with_defs is_bridge_def)
  qed
qed (simp add: with_structure_damage_def assms)

section \<open>Damage\<close>

lemma collapsed_no_structure: "structure_of (collapsed h) = None"
  by (auto simp: collapsed_def with_surface_broken_def has_bridge_def is_standing_def thawed_def
      with_defs Let_def split: option.splits)

lemma damage_no_structure: "structure_of h = None \<Longrightarrow> with_structure_damage h d = h"
  by (simp add: with_structure_damage_def)

text \<open>Two volleys that together stay below \<open>u16\<close>'s range are one volley of their sum.\<close>

lemma damage_structure_None: "structure_of h = None \<Longrightarrow> fold (\<lambda>d h. with_structure_damage h d) ds h = h"
  by (induction ds) (simp_all add: damage_no_structure)

lemma collapsed_cf_irrelevant:
  assumes "structure_of h = Some s"
  shows "collapsed (with_structure h (Some (s\<lparr>cf := c\<rparr>))) = collapsed h"
  using assms
  by (cases h) (auto simp: collapsed_def with_surface_broken_def has_bridge_def is_standing_def
      is_bridge_def thawed_def with_defs Let_def)

lemma fold_damage:
  assumes "structure_of h = Some s"
  shows "fold (\<lambda>d h. with_structure_damage h d) ds h =
     (if sum_list (map unat ds) < unat (cf s)
      then with_structure h (Some (s\<lparr>cf := word_of_nat (unat (cf s) - sum_list (map unat ds))\<rparr>))
      else if ds = [] then h else collapsed h)"
  using assms
proof (induction ds arbitrary: h s)
  case Nil
  then show ?case by (cases h) (simp add: with_defs)
next
  case (Cons d ds)
  show ?case
  proof (cases "cf s \<le> d")
    case True
    then have "with_structure_damage h d = collapsed h"
      using Cons.prems by (simp add: with_structure_damage_def)
    moreover have "\<not> unat d + sum_list (map unat ds) < unat (cf s)"
      using True by (simp add: word_le_nat_alt)
    ultimately show ?thesis
      by (simp add: damage_structure_None collapsed_no_structure)
  next
    case False
    define t where "t = s\<lparr>cf := cf s - d\<rparr>"
    define g where "g = with_structure h (Some t)"
    have g: "structure_of g = Some t" by (simp add: g_def with_defs)
    have cf: "unat (cf t) = unat (cf s) - unat d" "unat d < unat (cf s)"
      using False by (auto simp: t_def unat_sub word_le_nat_alt)
    have keep: "with_structure g (Some (t\<lparr>cf := c\<rparr>)) = with_structure h (Some (s\<lparr>cf := c\<rparr>))" for c
      by (simp add: g_def t_def with_defs)
    have gone: "collapsed g = collapsed h"
      unfolding g_def t_def using Cons.prems by (rule collapsed_cf_irrelevant)
    have step: "with_structure_damage h d = g"
      using Cons.prems False by (simp add: with_structure_damage_def g_def t_def)
    show ?thesis
      using Cons.IH [OF g] cf by (auto simp: step keep gone)
  qed
qed

text \<open>The digit of the compact notation a hex was written with.\<close>

definition notation_digit :: "hex \<Rightarrow> int" where
  "notation_digit h = (if is_water_surface h then uint (water_depth h) else top_height h)"

section \<open>Properties\<close>

text \<open>
  C27. Nothing that happens to a hex in play makes it invalid: freezing, thawing, breaking the ice or
  the bridge, breaking the magma crust, collapse and any structure damage turn a hex that passes
  validation into a hex that passes validation.
\<close>

theorem hex_changes_valid:
  assumes "validate h = Inr ()"
  shows "validate (frozen h) = Inr () \<and> validate (thawed h) = Inr ()
       \<and> validate (with_surface_broken h) = Inr () \<and> validate (with_crust_broken h) = Inr ()
       \<and> validate (collapsed h) = Inr () \<and> validate (with_structure_damage h d) = Inr ()"
  using assms
  by (simp add: validate_iff frozen_ok thawed_ok with_surface_broken_ok with_crust_broken_ok
      collapsed_ok with_structure_damage_ok)

theorem hex_changes_valid_witness:
  "validate (with_structure_damage (hex_new terrain.Bridge 3) 7) = Inr ()"
proof -
  have "validate (hex_new terrain.Bridge 3) = Inr ()"
    by (simp add: validate_iff hex_ok_def rule_defs hex_new_def with_defs at_level_def
        structure_bridge_def structure_new_def is_bridge_def still_water_def)
  from hex_changes_valid [OF this, of 7] show ?thesis by simp
qed

lemma hex_new_ok: "digit \<le> 9 \<Longrightarrow> hex_ok (hex_new t digit)"
  using order_trans [of digit 9 35]
  by (cases t) (simp_all add: hex_ok_def rule_defs hex_new_def with_defs at_level_def structure_bridge_def
      structure_wall_def structure_building_def structure_new_def is_bridge_def still_water_def is_still_def supports_foliage_def)

text \<open>
  C33. The compact map notation is faithful: for every terrain and digit 0 to 9 the hex it denotes is
  valid, shows that terrain, and gives the digit back (the depth of a water surface, otherwise the
  height of the topmost surface).
\<close>

theorem notation_roundtrip:
  assumes "digit \<le> 9"
  shows "validate (hex_new t digit) = Inr () \<and> hex_terrain (hex_new t digit) = t
       \<and> notation_digit (hex_new t digit) = uint digit"
proof -
  have le: "digit \<le> 35" using assms by (rule order_trans) simp
  show ?thesis
    by (cases t) (simp_all add: validate_iff hex_ok_def rule_defs hex_new_def with_defs at_level_def
        structure_bridge_def structure_wall_def structure_building_def structure_new_def is_bridge_def
        still_water_def supports_foliage_def hex_terrain_def dry_terrain_def notation_digit_def
        is_water_surface_def water_depth_def top_height_def surface_height_def le assms)
qed

theorem notation_roundtrip_witness:
  "validate (hex_new terrain.Ice 9) = Inr () \<and> notation_digit (hex_new terrain.Ice 9) = 9"
  using notation_roundtrip [of 9 terrain.Ice] by simp

text \<open>
  Damage to a structure adds up, in whatever volleys it arrives: while the total stays below the
  construction factor the structure stands with exactly the difference left, and as soon as the
  total reaches it the hex is the collapsed hex, which further damage leaves alone.
\<close>

lemma structure_damage_total:
  assumes "structure_of h = Some s" and "0 < unat (cf s)"
  shows "fold (\<lambda>d h. with_structure_damage h d) ds h =
     (if sum_list (map unat ds) < unat (cf s)
      then with_structure h (Some (s\<lparr>cf := word_of_nat (unat (cf s) - sum_list (map unat ds))\<rparr>))
      else collapsed h)
     \<and> structure_of (collapsed h) = None"
  using fold_damage [OF assms(1), of ds] assms(2) by (auto simp: collapsed_no_structure)

text \<open>
  Heights are ordered and a standing unit has a surface: the bed or ground is never above the
  surface a unit stands on, which is never above the topmost surface; without a structure the
  topmost surface is the water line; the surfaces of a valid hex lie between 9 below and 70 above
  the datum; and a jump that strikes a bridge does so just below its deck, above the water.
\<close>

lemma heights_ordered:
  assumes "validate h = Inr ()"
  shows "bottom_height h \<le> standing_height h \<and> standing_height h \<le> top_height h
       \<and> - 9 \<le> bottom_height h \<and> top_height h \<le> 70
       \<and> (structure_of h = None \<longrightarrow> top_height h = water_line h)
       \<and> (strikes_bridge_during_jump h a \<longrightarrow> deck_height h = Some (a + 1) \<and> water_line h < a)"
proof -
  have lim: "limits_ok h" using assms by (simp add: validate_iff hex_ok_def)
  then have l: "uint (level h) \<le> 35" by (simp add: limits_ok_def word_le_def)
  have d: "uint (water_depth h) \<le> 9"
    using lim by (cases "water_of h") (simp_all add: limits_ok_def water_depth_def word_le_def)
  have s: "structure_of h = Some st \<Longrightarrow> uint (structure_height st) \<le> 35" for st
    using lim by (simp add: limits_ok_def word_le_def)
  have pos: "0 \<le> uint (level h)" "0 \<le> uint (water_depth h)" by simp_all
  have low: "- 9 \<le> bottom_height h" unfolding bottom_height_def using pos d by linarith
  have order: "bottom_height h \<le> standing_height h \<and> standing_height h \<le> top_height h
       \<and> - 9 \<le> bottom_height h \<and> top_height h \<le> 70"
  proof (cases "structure_of h")
    case None
    then show ?thesis using l low
      by (simp add: standing_height_def surface_height_def top_height_def is_ice_def)
        (simp add: bottom_height_def)
  next
    case (Some st)
    have "bottom_height h \<le> uint (level h) + uint (structure_height st)"
      unfolding bottom_height_def using pos uint_ge_0 [of "structure_height st"] by linarith
    then show ?thesis using Some s [OF Some] l low
      by (simp add: standing_height_def surface_height_def top_height_def is_ice_def)
  qed
  have "strikes_bridge_during_jump h a \<Longrightarrow> deck_height h = Some (a + 1) \<and> water_line h < a"
    by (auto simp: strikes_bridge_during_jump_def blocks_jump_entry_def water_line_def
        split: if_splits option.splits)
  then show ?thesis using order by (auto simp: top_height_def water_line_def)
qed

end
