(* ===== verification/Map_Rules.thy ===== *)
theory Map_Rules
  imports Map_Hex
begin

text \<open>
  \<open>crates/map/src/terrain_rules.rs\<close>: what ground movement pays to enter a hex, where it may not go,
  what it rolls there. Costs are natural numbers (the source's \<open>u8\<close> sums stay below 8, as shown
  below), modifiers and levels integers.
\<close>

section \<open>Definitions\<close>

datatype ground_movement = Legged | Tracked | Wheeled | Hover

definition is_bare :: "hex \<Rightarrow> bool" where
  "is_bare h \<longleftrightarrow> foliage_of h = None \<and> water_of h = None \<and> structure_of h = None"

definition is_open_ground :: "hex \<Rightarrow> bool" where
  "is_open_ground h \<longleftrightarrow>
     is_bare h \<and> overlay_of h = None \<and> condition_of h = None \<and> route_of h \<noteq> Some route.Rail
     \<and> ground_of h \<in> {ground.Clear, ground.Pavement, ground.Sand, ground.Tundra}"

definition hex_density :: "hex \<Rightarrow> density option" where
  "hex_density h = Option.bind (foliage_of h) foliage_density"

definition is_woods :: "hex \<Rightarrow> bool" where
  "is_woods h \<longleftrightarrow> hex_density h \<noteq> None"

definition woods_density :: "hex \<Rightarrow> nat" where
  "woods_density h = (case hex_density h of None \<Rightarrow> 0 | Some d \<Rightarrow> density_points d)"

definition foliage_height :: "hex \<Rightarrow> nat" where
  "foliage_height h = (case foliage_of h of None \<Rightarrow> 0 | Some f \<Rightarrow> foliage_rise f)"

definition holds_water :: "hex \<Rightarrow> bool" where
  "holds_water h \<longleftrightarrow> water_of h \<noteq> None"

definition is_rocky :: "hex \<Rightarrow> bool" where
  "is_rocky h \<longleftrightarrow>
     is_bare h \<and> ground_of h \<in> {ground.Rough, ground.UltraRough, ground.Rubble, ground.UltraRubble}"

definition ground_cost :: "ground \<Rightarrow> ground_movement \<Rightarrow> nat" where
  "ground_cost g m =
     (case g of
        ground.Rough \<Rightarrow> 1 | ground.Rubble \<Rightarrow> 1
      | ground.UltraRough \<Rightarrow> 2 | ground.UltraRubble \<Rightarrow> 2
      | ground.Sand \<Rightarrow> if m = Wheeled then 1 else 0
      | ground.Swamp \<Rightarrow> if m = Legged then 1 else if m = Hover then 0 else 2
      | ground.Magma \<Rightarrow> 1
      | ground.HeavyIndustrial \<Rightarrow> if m = Legged then 1 else 0
      | _ \<Rightarrow> 0)"

primrec foliage_cost :: "foliage \<Rightarrow> nat" where
  "foliage_cost foliage.LightWoods = 1"
| "foliage_cost foliage.HeavyWoods = 2"
| "foliage_cost foliage.UltraHeavyWoods = 3"
| "foliage_cost foliage.LightJungle = 2"
| "foliage_cost foliage.HeavyJungle = 3"
| "foliage_cost foliage.UltraHeavyJungle = 4"
| "foliage_cost foliage.PlantedFields = 0"

definition terrain_cost :: "hex \<Rightarrow> ground_movement \<Rightarrow> nat" where
  "terrain_cost h m =
     (let through = max (ground_cost (ground_of h) m)
                      (case foliage_of h of Some f \<Rightarrow> foliage_cost f | None \<Rightarrow> 0)
      in case route_of h of
           Some r \<Rightarrow> if route_is_road r then 0 else if m \<noteq> Hover then 1 else through
         | None \<Rightarrow> through)"

definition condition_cost :: "hex \<Rightarrow> ground_movement \<Rightarrow> nat" where
  "condition_cost h m =
     (if m = Hover then 0
      else
        (case condition_of h of
           Some condition.Ice \<Rightarrow> 1 | Some condition.DeepSnow \<Rightarrow> 1 | Some condition.Mud \<Rightarrow> 1
         | Some condition.ThinSnow \<Rightarrow> if m = Wheeled then 1 else 0
         | None \<Rightarrow> 0))"

primrec flow_cost :: "flow \<Rightarrow> nat" where
  "flow_cost flow.Still = 0"
| "flow_cost flow.Rapids = 1"
| "flow_cost flow.Torrent = 2"

definition water_cost :: "water \<Rightarrow> ground_movement \<Rightarrow> nat" where
  "water_cost w m =
     (if m = Hover then 0
      else (if depth w = 0 then 0 else if depth w = 1 then 1 else 3) + flow_cost (water_flow w))"

definition movement_cost :: "hex \<Rightarrow> ground_movement \<Rightarrow> nat" where
  "movement_cost h m =
     (let through = (case structure_of h of
                       Some _ \<Rightarrow> 0
                     | None \<Rightarrow>
                         (case water_of h of Some w \<Rightarrow> water_cost w m | None \<Rightarrow> terrain_cost h m));
          cost = 1 + through + condition_cost h m
      in if is_burning h then max cost 2 else cost)"

definition immerses :: "hex \<Rightarrow> int \<Rightarrow> bool" where
  "immerses h l \<longleftrightarrow> holds_water h \<and> l < uint (level h)"

definition touches_ground :: "hex \<Rightarrow> int \<Rightarrow> bool" where
  "touches_ground h l \<longleftrightarrow> water_of h = None \<and> structure_of h = None \<and> l \<le> uint (level h)"

definition in_liquid_magma :: "hex \<Rightarrow> int \<Rightarrow> bool" where
  "in_liquid_magma h l \<longleftrightarrow> ground_of h = ground.Magma \<and> touches_ground h l"

definition on_magma_crust :: "hex \<Rightarrow> int \<Rightarrow> bool" where
  "on_magma_crust h l \<longleftrightarrow> ground_of h = ground.MagmaCrust \<and> touches_ground h l"

definition ground_heat :: "hex \<Rightarrow> int \<Rightarrow> nat" where
  "ground_heat h l =
     (if \<not> touches_ground h l then 0
      else (case ground_of h of ground.MagmaCrust \<Rightarrow> 5 | ground.Magma \<Rightarrow> 10 | _ \<Rightarrow> 0))"

definition chills :: "hex \<Rightarrow> int \<Rightarrow> bool" where
  "chills h l \<longleftrightarrow> condition_of h = Some condition.DeepSnow \<and> touches_ground h l"

definition ground_piloting :: "ground \<Rightarrow> ground_movement \<Rightarrow> int" where
  "ground_piloting g m =
     (case g of
        ground.Sand \<Rightarrow> 1 | ground.Tundra \<Rightarrow> 1 | ground.MagmaCrust \<Rightarrow> 1 | ground.HeavyIndustrial \<Rightarrow> 1
      | ground.Magma \<Rightarrow> 4
      | ground.Swamp \<Rightarrow> if m = Legged then 1 else if m = Hover then 0 else 2
      | _ \<Rightarrow> 0)"

definition jungle_piloting :: "hex \<Rightarrow> int" where
  "jungle_piloting h =
     (case foliage_of h of
        Some f \<Rightarrow>
          if is_jungle f
          then (case foliage_density f of Some d \<Rightarrow> int (density_points d) | None \<Rightarrow> 0) else 0
      | None \<Rightarrow> 0)"

definition condition_piloting :: "hex \<Rightarrow> ground_movement \<Rightarrow> int" where
  "condition_piloting h m =
     (if m = Hover then 0
      else
        (case condition_of h of
           Some condition.Ice \<Rightarrow> 4
         | Some condition.DeepSnow \<Rightarrow> 1 | Some condition.Mud \<Rightarrow> 1
         | Some condition.ThinSnow \<Rightarrow> if m = Wheeled then 1 else 0
         | None \<Rightarrow> 0))"

primrec flow_piloting :: "flow \<Rightarrow> int" where
  "flow_piloting flow.Still = 0"
| "flow_piloting flow.Rapids = 2"
| "flow_piloting flow.Torrent = 3"

definition piloting_modifier :: "hex \<Rightarrow> ground_movement \<Rightarrow> int \<Rightarrow> int" where
  "piloting_modifier h m l =
     (if standing_height h < l then 0
      else
        (case water_of h of
           Some w \<Rightarrow>
             if is_ice h \<and> water_line h \<le> l then (if m = Hover then 0 else 4)
             else if m = Hover \<or> \<not> immerses h l then 0
             else flow_piloting (water_flow w)
         | None \<Rightarrow>
             if structure_of h \<noteq> None then 0
             else
               (if is_road h then 0 else ground_piloting (ground_of h) m + jungle_piloting h)
               + condition_piloting h m))"

definition entry_piloting_modifier :: "hex \<Rightarrow> ground_movement \<Rightarrow> int option" where
  "entry_piloting_modifier h m =
     (if is_road h \<or> structure_of h \<noteq> None \<or> is_icy h then None
      else if m \<noteq> Legged \<or> \<not> is_bare h then None
      else
        (case ground_of h of ground.Rubble \<Rightarrow> Some 0 | ground.UltraRubble \<Rightarrow> Some 1 | _ \<Rightarrow> None))"

datatype prohibition = DeepWater | TerrainBan string

definition foliage_banned :: "foliage \<Rightarrow> ground_movement \<Rightarrow> bool" where
  "foliage_banned f m \<longleftrightarrow>
     (let vehicle = (m \<noteq> Legged)
      in case foliage_density f of
           None \<Rightarrow> False
         | Some density.UltraHeavy \<Rightarrow> True
         | Some density.Heavy \<Rightarrow> vehicle
         | Some density.Light \<Rightarrow> is_jungle f \<and> vehicle \<or> m = Wheeled \<or> m = Hover)"

definition ground_banned :: "ground \<Rightarrow> ground_movement \<Rightarrow> bool" where
  "ground_banned g m \<longleftrightarrow>
     (let vehicle = (m \<noteq> Legged)
      in g = ground.Magma \<and> vehicle \<or> g = ground.UltraRough \<and> vehicle
         \<or> g \<in> {ground.Rough, ground.Rubble, ground.UltraRubble, ground.MagmaCrust} \<and> m = Wheeled)"

definition dry_prohibition :: "hex \<Rightarrow> ground_movement \<Rightarrow> prohibition option" where
  "dry_prohibition h m =
     (if ground_banned (ground_of h) m then Some (TerrainBan (ground_label (ground_of h)))
      else if condition_of h = Some condition.DeepSnow \<and> m = Wheeled
      then Some (TerrainBan (condition_label condition.DeepSnow))
      else None)"

definition hex_prohibition :: "hex \<Rightarrow> ground_movement \<Rightarrow> prohibition option" where
  "hex_prohibition h m =
     (if is_road h \<or> structure_of h \<noteq> None then None
      else
        (case water_of h of
           Some w \<Rightarrow>
             if \<not> is_frozen h \<and> m \<noteq> Legged \<and> m \<noteq> Hover \<and> 1 \<le> depth w then Some DeepWater else None
         | None \<Rightarrow>
             (case foliage_of h of
                Some f \<Rightarrow>
                  if foliage_banned f m then Some (TerrainBan (foliage_label f))
                  else dry_prohibition h m
              | None \<Rightarrow> dry_prohibition h m)))"

definition bog_down_modifier :: "hex \<Rightarrow> ground_movement \<Rightarrow> int option" where
  "bog_down_modifier h m =
     (if m = Hover \<or> is_road h \<or> structure_of h \<noteq> None \<or> holds_water h then None
      else
        (case condition_of h of
           Some condition.DeepSnow \<Rightarrow> Some (- 1)
         | Some condition.Mud \<Rightarrow> Some (- 1)
         | Some _ \<Rightarrow> None
         | None \<Rightarrow>
             (case ground_of h of
                ground.Swamp \<Rightarrow> Some 0 | ground.Sand \<Rightarrow> Some 0 | ground.Tundra \<Rightarrow> Some (- 1)
              | _ \<Rightarrow> None)))"

definition can_bog_down :: "hex \<Rightarrow> ground_movement \<Rightarrow> int \<Rightarrow> bool" where
  "can_bog_down h m l \<longleftrightarrow> bog_down_modifier h m \<noteq> None \<and> touches_ground h l"

definition is_slick :: "hex \<Rightarrow> bool" where
  "is_slick h \<longleftrightarrow> is_icy h \<or> is_road h \<or> has_bridge h \<or> ground_of h = ground.Pavement"

section \<open>Bounds of the tables\<close>

lemma ground_cost_le: "ground_cost g m \<le> 2"
  by (cases g) (simp_all add: ground_cost_def)

lemma foliage_cost_le: "foliage_cost f \<le> 4"
  by (cases f) simp_all

lemma terrain_cost_le: "terrain_cost h m \<le> 4"
  using ground_cost_le [of "ground_of h" m] foliage_cost_le
  by (simp add: terrain_cost_def Let_def split: option.split) (meson le_trans numeral_le_iff semiring_norm)

lemma water_cost_le: "water_cost w m \<le> 5"
  by (cases "water_flow w") (simp_all add: water_cost_def)

lemma condition_cost_le: "condition_cost h m \<le> 1"
  by (simp add: condition_cost_def split: option.split condition.split)

lemma movement_cost_bounds: "1 \<le> movement_cost h m \<and> movement_cost h m \<le> 7"
proof -
  define through where "through = (case structure_of h of Some _ \<Rightarrow> 0 | None \<Rightarrow>
    (case water_of h of Some w \<Rightarrow> water_cost w m | None \<Rightarrow> terrain_cost h m))"
  have "through \<le> 5"
    using terrain_cost_le [of h m] water_cost_le by (simp add: through_def split: option.split)
  then show ?thesis
    using condition_cost_le [of h m] by (simp add: movement_cost_def Let_def through_def [symmetric])
qed

section \<open>Prohibitions by movement type\<close>

lemma foliage_banned_mono:
  "foliage_banned f Legged \<Longrightarrow> foliage_banned f m"
  "foliage_banned f Tracked \<Longrightarrow> m \<noteq> Legged \<Longrightarrow> foliage_banned f m"
  by (cases m; cases f; simp add: foliage_banned_def is_jungle_def)+

lemma dry_prohibition_None:
  "dry_prohibition h m = None \<longleftrightarrow>
     \<not> ground_banned (ground_of h) m \<and> \<not> (condition_of h = Some condition.DeepSnow \<and> m = Wheeled)"
  by (simp add: dry_prohibition_def)

lemma ground_banned_mono:
  "\<not> ground_banned g Legged"
  "ground_banned g Tracked \<Longrightarrow> m \<noteq> Legged \<Longrightarrow> ground_banned g m"
  by (auto simp: ground_banned_def)

lemma dry_prohibition_mono:
  "dry_prohibition h Legged = None"
  "dry_prohibition h m = None \<Longrightarrow> m \<noteq> Legged \<Longrightarrow> dry_prohibition h Tracked = None"
  using ground_banned_mono [of "ground_of h"] by (auto simp: dry_prohibition_None)

section \<open>Properties\<close>

text \<open>
  The movement cost of any hex is between 1 and 7 points for every movement type, so the
  \<open>u8\<close> sum never overflows and no speed is divided by zero; fire makes it at least 2; a road costs
  one point plus its weather, whatever terrain it runs through; and a hovercraft pays one point for
  water of any depth and current that is not on fire.
\<close>

lemma movement_cost_table:
  "1 \<le> movement_cost h m \<and> movement_cost h m \<le> 7
   \<and> (is_burning h \<longrightarrow> 2 \<le> movement_cost h m)
   \<and> (is_road h \<and> \<not> is_burning h \<longrightarrow> movement_cost h m = 1 + condition_cost h m)
   \<and> (holds_water h \<and> \<not> is_burning h \<longrightarrow> movement_cost h Hover = 1)"
proof -
  have "is_burning h \<Longrightarrow> 2 \<le> movement_cost h m" by (simp add: movement_cost_def Let_def)
  moreover have "is_road h \<and> \<not> is_burning h \<Longrightarrow> movement_cost h m = 1 + condition_cost h m"
    by (simp add: is_road_def movement_cost_def terrain_cost_def Let_def split: option.splits)
  moreover have "holds_water h \<and> \<not> is_burning h \<Longrightarrow> movement_cost h Hover = 1"
    by (auto simp: holds_water_def movement_cost_def condition_cost_def water_cost_def Let_def
        split: option.splits)
  ultimately show ?thesis using movement_cost_bounds by blast
qed

text \<open>
  Restrictions grow from legs to tracks to wheels: whatever stops a 'Mech stops every vehicle,
  whatever stops tracks stops wheels; legs are stopped only by ultra-heavy growth on dry ground off
  the road; water never stops a hovercraft; an ice sheet, a road or a structure stops nothing; and
  open ground admits every unit at a cost of at most two.
\<close>

lemma prohibition_mono:
  "(hex_prohibition h Legged \<noteq> None \<longrightarrow> hex_prohibition h m \<noteq> None \<and> hex_density h = Some density.UltraHeavy)
   \<and> (hex_prohibition h Tracked \<noteq> None \<longrightarrow> hex_prohibition h Wheeled \<noteq> None)
   \<and> (holds_water h \<longrightarrow> hex_prohibition h Hover = None)
   \<and> (is_frozen h \<or> is_road h \<or> structure_of h \<noteq> None \<longrightarrow> hex_prohibition h m = None)
   \<and> (is_open_ground h \<longrightarrow> hex_prohibition h m = None \<and> movement_cost h m \<le> 2)"
proof -
  have legged: "hex_prohibition h Legged \<noteq> None \<Longrightarrow>
      hex_prohibition h m \<noteq> None \<and> hex_density h = Some density.UltraHeavy"
    using foliage_banned_mono(1) [of _ m] dry_prohibition_mono(1) [of h]
    by (auto simp: hex_prohibition_def hex_density_def foliage_banned_def Let_def
        split: if_splits option.splits density.splits)
  have tracked: "hex_prohibition h Tracked \<noteq> None \<Longrightarrow> hex_prohibition h Wheeled \<noteq> None"
    using foliage_banned_mono(2) [of _ Wheeled] dry_prohibition_mono(2) [of h Wheeled]
    by (fastforce simp: hex_prohibition_def split: if_splits option.splits)
  have "holds_water h \<Longrightarrow> hex_prohibition h Hover = None"
    by (auto simp: holds_water_def hex_prohibition_def)
  moreover have "is_frozen h \<or> is_road h \<or> structure_of h \<noteq> None \<Longrightarrow> hex_prohibition h m = None"
    by (auto simp: is_frozen_def hex_prohibition_def)
  moreover have "is_open_ground h \<Longrightarrow> hex_prohibition h m = None \<and> movement_cost h m \<le> 2"
    by (auto simp: is_open_ground_def is_bare_def hex_prohibition_def dry_prohibition_def
        ground_banned_def movement_cost_def terrain_cost_def condition_cost_def ground_cost_def
        is_burning_def route_is_road_def Let_def split: option.splits)
  ultimately show ?thesis using legged tracked by blast
qed



end
