(* ===== verification/World_Flags.thy ===== *)
theory World_Flags
  imports Rust_Str
begin

text \<open>
  \<open>src/flags.rs\<close>, the catalogue part: object flags with their storage columns, canonical names and
  display letters, and the typed flag set with its JSON form (the array of canonical names). A
  \<open>BTreeSet\<close> of flags is a set; the mutation policy \<open>change\<close> is in the theory of authority.
\<close>

section \<open>Definitions\<close>

datatype flag =
    Ansi | Audible | Auditorium | Blind | Connected | Dark | Floating | Gagged | Going |
    Halted | InCharacter | Light | Monitor | NoCommand | Safe | Suspect | Transparent |
    Wizard | Zombie

datatype mutation_policy = PolicyWizard | PolicyGod | PolicyGoing | PolicySession

definition flag_ALL :: "flag list" where
  "flag_ALL =
     [Ansi, Audible, Auditorium, Blind, Connected, Dark, Floating, Gagged, Going, Halted,
      InCharacter, Light, Monitor, NoCommand, Safe, Suspect, Transparent, Wizard, Zombie]"

primrec flag_column :: "flag \<Rightarrow> string" where
  "flag_column Ansi = ''has_ansi_flag''"
| "flag_column Audible = ''has_audible_flag''"
| "flag_column Auditorium = ''has_auditorium_flag''"
| "flag_column Blind = ''has_blind_flag''"
| "flag_column Connected = ''has_connected_flag''"
| "flag_column Dark = ''has_dark_flag''"
| "flag_column Floating = ''has_floating_flag''"
| "flag_column Gagged = ''has_gagged_flag''"
| "flag_column Going = ''has_going_flag''"
| "flag_column Halted = ''has_halted_flag''"
| "flag_column InCharacter = ''has_in_character_flag''"
| "flag_column Light = ''has_light_flag''"
| "flag_column Monitor = ''has_monitor_flag''"
| "flag_column NoCommand = ''has_no_command_flag''"
| "flag_column Safe = ''has_safe_flag''"
| "flag_column Suspect = ''has_suspect_flag''"
| "flag_column Transparent = ''has_transparent_flag''"
| "flag_column Wizard = ''has_wizard_flag''"
| "flag_column Zombie = ''has_zombie_flag''"

primrec world_name :: "flag \<Rightarrow> bytes" where
  "world_name Ansi = bstr ''ANSI''"
| "world_name Audible = bstr ''AUDIBLE''"
| "world_name Auditorium = bstr ''AUDITORIUM''"
| "world_name Blind = bstr ''BLIND''"
| "world_name Connected = bstr ''CONNECTED''"
| "world_name Dark = bstr ''DARK''"
| "world_name Floating = bstr ''FLOATING''"
| "world_name Gagged = bstr ''GAGGED''"
| "world_name Going = bstr ''GOING''"
| "world_name Halted = bstr ''HALTED''"
| "world_name InCharacter = bstr ''IN_CHARACTER''"
| "world_name Light = bstr ''LIGHT''"
| "world_name Monitor = bstr ''MONITOR''"
| "world_name NoCommand = bstr ''NO_COMMAND''"
| "world_name Safe = bstr ''SAFE''"
| "world_name Suspect = bstr ''SUSPECT''"
| "world_name Transparent = bstr ''TRANSPARENT''"
| "world_name Wizard = bstr ''WIZARD''"
| "world_name Zombie = bstr ''ZOMBIE''"

definition flag_policy :: "flag \<Rightarrow> mutation_policy" where
  "flag_policy f =
     (case f of
        Connected \<Rightarrow> PolicySession | Wizard \<Rightarrow> PolicyGod | Going \<Rightarrow> PolicyGoing | _ \<Rightarrow> PolicyWizard)"

datatype flag_error = UnknownFlag bytes

definition flag_parse :: "bytes \<Rightarrow> (flag_error, flag) result" where
  "flag_parse name =
     (case List.find (\<lambda>f. eq_ignore_ascii_case (world_name f) name) flag_ALL of
        Some f \<Rightarrow> Inr f | None \<Rightarrow> Inl (UnknownFlag name))"

text \<open>Aliases are a \<open>BTreeMap\<close>, searched in key order.\<close>

definition flag_resolve :: "bytes \<Rightarrow> (bytes \<times> bytes) list \<Rightarrow> (flag_error, flag) result" where
  "flag_resolve name aliases =
     flag_parse (case List.find (\<lambda>(k, _). eq_ignore_ascii_case k name) aliases of
                   Some (_, v) \<Rightarrow> v | None \<Rightarrow> name)"

primrec flag_letter :: "flag \<Rightarrow> char" where
  "flag_letter Ansi = CHR ''X''"
| "flag_letter Audible = CHR ''a''"
| "flag_letter Auditorium = CHR ''b''"
| "flag_letter Blind = CHR ''(''"
| "flag_letter Connected = CHR ''c''"
| "flag_letter Dark = CHR ''D''"
| "flag_letter Floating = CHR ''F''"
| "flag_letter Gagged = CHR ''j''"
| "flag_letter Going = CHR ''G''"
| "flag_letter Halted = CHR ''h''"
| "flag_letter InCharacter = CHR ''#''"
| "flag_letter Light = CHR ''l''"
| "flag_letter Monitor = CHR ''M''"
| "flag_letter NoCommand = CHR ''n''"
| "flag_letter Safe = CHR ''s''"
| "flag_letter Suspect = CHR ''u''"
| "flag_letter Transparent = CHR ''t''"
| "flag_letter Wizard = CHR ''W''"
| "flag_letter Zombie = CHR ''z''"

type_synonym flag_set = "flag set"

definition flag_names :: "flag_set \<Rightarrow> bytes list" where
  "flag_names s = map world_name (filter (\<lambda>f. f \<in> s) flag_ALL)"

text \<open>Deserialization collects parsed names and stops at the first unknown one.\<close>

fun flags_from_names :: "bytes list \<Rightarrow> (flag_error, flag_set) result" where
  "flags_from_names [] = Inr {}"
| "flags_from_names (n # ns) =
     bind_result (flag_parse n) (\<lambda>f. bind_result (flags_from_names ns) (\<lambda>s. Inr (insert f s)))"

section \<open>Lemmas\<close>

definition folded_name :: "flag \<Rightarrow> bytes" where
  "folded_name f = map ascii_lower (world_name f)"

lemma flag_ALL_complete: "f \<in> set flag_ALL"
  by (cases f) (simp_all add: flag_ALL_def)

interpretation fcat: catalogue flag_ALL folded_name
proof
  show "f \<in> set flag_ALL" for f by (rule flag_ALL_complete)
  show "distinct (map folded_name flag_ALL)"
    by (simp add: flag_ALL_def folded_name_def bstr_def ascii_lower_def)
qed

interpretation fcol: catalogue flag_ALL flag_column
  by unfold_locales (simp_all add: flag_ALL_complete, simp add: flag_ALL_def)

interpretation flet: catalogue flag_ALL flag_letter
  by unfold_locales (simp_all add: flag_ALL_complete, simp add: flag_ALL_def)

lemma flag_parse_iff: "flag_parse n = Inr f \<longleftrightarrow> eq_ignore_ascii_case (world_name f) n"
  using fcat.decode_Some_iff [of "map ascii_lower n" f]
  by (auto simp: flag_parse_def eq_ignore_ascii_case_def folded_name_def split: option.splits)

lemma flag_parse_world_name: "flag_parse (world_name f) = Inr f"
  by (simp add: flag_parse_iff eq_ignore_ascii_case_def)

lemma flags_from_names_map: "flags_from_names (map world_name fs) = Inr (set fs)"
  by (induction fs) (simp_all add: flag_parse_world_name)

section \<open>Properties\<close>

text \<open>
  The flag catalogue is sound: a name resolves to a flag exactly when it spells that flag's
  canonical name in any ASCII case, storage columns and display letters identify flags, and the
  JSON form of every flag set reads back as the same set.
\<close>

lemma flag_catalogue:
  "(flag_parse n = Inr f \<longleftrightarrow> eq_ignore_ascii_case (world_name f) n)
   \<and> (flag_column f = flag_column g \<longleftrightarrow> f = g) \<and> (flag_letter f = flag_letter g \<longleftrightarrow> f = g)
   \<and> flags_from_names (flag_names s) = Inr s"
proof -
  have "flags_from_names (flag_names s) = Inr s"
    using flags_from_names_map [of "filter (\<lambda>f. f \<in> s) flag_ALL"] flag_ALL_complete
    by (auto simp: flag_names_def)
  then show ?thesis by (simp add: flag_parse_iff fcol.name_inj flet.name_inj)
qed

end
