(* ===== verification/World_Objects.thy ===== *)
theory World_Objects
  imports World_Flags BTree_Map
begin

text \<open>
  \<open>src/world/model.rs\<close> and \<open>src/world/containment.rs\<close>: durable objects, the world that holds them,
  transactional attempts, and the containment checks before a move. Of \<open>World\<close> the projection kept
  here is the object table; of \<open>Object\<close> everything but the scripted state. Object ids (\<open>i64\<close>) and
  incarnations (\<open>u64\<close>) are never computed with here and are integers and natural numbers.
\<close>

section \<open>Objects\<close>

type_synonym object_id = int

datatype kind = Room | Thing | Exit | Player | Garbage

primrec kind_code :: "kind \<Rightarrow> int" where
  "kind_code Room = 0"
| "kind_code Thing = 1"
| "kind_code Exit = 2"
| "kind_code Player = 3"
| "kind_code Garbage = 5"

datatype world_error =
    InvalidKind int
  | ContainmentCycle object_id
  | MissingContainer object_id
  | CannotContain object_id
  | RoomLocation object_id
  | NoSuchObject
  | CannotTeleport
  | IntoItself
  | UnavailableZone object_id

definition kind_from_code :: "int \<Rightarrow> (world_error, kind) result" where
  "kind_from_code v =
     (if v = 0 then Inr Room else if v = 1 then Inr Thing else if v = 2 then Inr Exit
      else if v = 3 then Inr Player else if v = 5 then Inr Garbage else Inl (InvalidKind v))"

definition kind_parent :: "kind \<Rightarrow> string" where
  "kind_parent k =
     (case k of Room \<Rightarrow> ''room'' | Exit \<Rightarrow> ''exit'' | Player \<Rightarrow> ''player'' | _ \<Rightarrow> ''thing'')"

datatype power = Idle

record object =
  generation :: nat
  pending_destroyer :: "object_id option"
  obj_id :: object_id
  obj_name :: bytes
  obj_kind :: kind
  location :: "object_id option"
  zone :: "object_id option"
  home :: "object_id option"
  affiliation :: "object_id option"
  destination :: "object_id option"
  dropto :: "object_id option"
  description :: "bytes option"
  internal_description :: "bytes option"
  lua_parent :: bytes
  flags :: flag_set
  powers :: "power set"

record world =
  objects :: "(object_id, object) btree"

definition object_at :: "world \<Rightarrow> object_id \<Rightarrow> object option" where
  "object_at w i = bt_get (objects w) i"

text \<open>Writing through \<open>get_mut\<close>: the entry is present.\<close>

definition put_object :: "object_id \<Rightarrow> object \<Rightarrow> world \<Rightarrow> world" where
  "put_object i obj w = w\<lparr>objects := bt_insert i obj (objects w)\<rparr>"

text \<open>A change works in place and may fail halfway; \<open>attempt\<close> restores the world then.\<close>

type_synonym ('e, 'a) change_fn = "world \<Rightarrow> world \<times> ('e, 'a) result"

definition attempt :: "('e, 'a) change_fn \<Rightarrow> world \<Rightarrow> world \<times> ('e, 'a) result" where
  "attempt f w = (case f w of (w', Inl e) \<Rightarrow> (w, Inl e) | (w', Inr x) \<Rightarrow> (w', Inr x))"

definition has_flag :: "world \<Rightarrow> object_id \<Rightarrow> flag \<Rightarrow> bool" where
  "has_flag w i f \<longleftrightarrow> (case object_at w i of Some obj \<Rightarrow> f \<in> flags obj | None \<Rightarrow> False)"

definition visible :: "world \<Rightarrow> object \<Rightarrow> object_id \<Rightarrow> bool" where
  "visible w obj viewer \<longleftrightarrow> Dark \<notin> flags obj \<or> obj_id obj = viewer \<or> has_flag w viewer Wizard"

lemma object_at_key: "object_at w i = Some obj \<Longrightarrow> i \<in> fst ` set (objects w)"
  by (force simp: object_at_def bt_get_def dest: map_of_SomeD)

section \<open>Containment\<close>

text \<open>
  The loop of \<open>containment_chain\<close>, with the ids already seen. It ends because each turn adds an id of
  the object table to them.
\<close>

function chain_from :: "world \<Rightarrow> object_id list \<Rightarrow> object_id option \<Rightarrow> (world_error, object_id list) result" where
  "chain_from w seen None = Inr []"
| "chain_from w seen (Some i) =
     (if i \<in> set seen then Inl (ContainmentCycle i)
      else
        (case object_at w i of
           None \<Rightarrow> Inl (MissingContainer i)
         | Some obj \<Rightarrow>
             if obj_kind obj \<notin> {Room, Player, Thing} then Inl (CannotContain i)
             else if obj_kind obj = Room then
               (if location obj \<noteq> None then Inl (RoomLocation i) else Inr [i])
             else bind_result (chain_from w (i # seen) (location obj)) (\<lambda>ch. Inr (i # ch))))"
  by pat_completeness auto
termination
proof (relation "measure (\<lambda>(w, seen, cur). card (fst ` set (objects w) - set seen))", goal_cases)
  case (2 w seen i obj)
  have key: "i \<in> fst ` set (objects w)" using 2(2) by (rule object_at_key)
  have "i \<in> fst ` set (objects w) - set seen" using key 2(1) by simp
  then have "card (fst ` set (objects w) - set seen - {i}) < card (fst ` set (objects w) - set seen)"
    by (intro card_Diff1_less) simp_all
  moreover have "fst ` set (objects w) - set (i # seen) = fst ` set (objects w) - set seen - {i}" by auto
  ultimately show ?case by (simp del: list.set card_Diff_insert)
qed simp

definition containment_chain :: "world \<Rightarrow> object_id option \<Rightarrow> (world_error, object_id list) result" where
  "containment_chain w start = chain_from w [] start"

definition validate_move :: "world \<Rightarrow> object_id \<Rightarrow> object_id \<Rightarrow> (world_error, unit) result" where
  "validate_move w i dest =
     (case object_at w i of
        None \<Rightarrow> Inl NoSuchObject
      | Some obj \<Rightarrow>
          ensure_then (obj_kind obj \<in> {Player, Thing, Exit}) CannotTeleport
            (bind_result (containment_chain w (Some dest)) (\<lambda>chain.
              ensure_then (i \<notin> set chain) IntoItself
                (bind_result (containment_chain w (location obj)) (\<lambda>_. Inr ())))))"

definition validate_zone :: "world \<Rightarrow> object_id \<Rightarrow> (world_error, unit) result" where
  "validate_zone w z =
     ensure (case object_at w z of
               Some obj \<Rightarrow> obj_kind obj \<in> {Room, Thing} \<and> Going \<notin> flags obj | None \<Rightarrow> False)
       (UnavailableZone z)"

text \<open>The containment checks that \<open>World::validate\<close> makes of one object and of the whole table.\<close>

definition validate_location :: "world \<Rightarrow> object \<Rightarrow> (world_error, unit) result" where
  "validate_location w obj =
     bind_result (containment_chain w (location obj)) (\<lambda>chain.
       ensure_then (obj_id obj \<notin> set chain) (ContainmentCycle (obj_id obj))
         (ensure (obj_kind obj \<noteq> Room \<or> location obj = None) (RoomLocation (obj_id obj))))"

definition validate_containment :: "world \<Rightarrow> bool" where
  "validate_containment w \<longleftrightarrow>
     list_all (\<lambda>(i, obj). obj_kind obj = Garbage \<or> validate_location w obj = Inr ()) (objects w)"

text \<open>The location mutation a caller makes after \<open>validate_move\<close>.\<close>

definition relocate :: "object_id \<Rightarrow> object_id \<Rightarrow> world \<Rightarrow> world" where
  "relocate i dest w =
     (case object_at w i of Some obj \<Rightarrow> put_object i (obj\<lparr>location := Some dest\<rparr>) w | None \<Rightarrow> w)"

section \<open>Containment as a relation\<close>

text \<open>
  The chain a location denotes, without the bookkeeping of seen ids: up through players and things
  to a room, or to nowhere.
\<close>

inductive enclosed :: "world \<Rightarrow> object_id option \<Rightarrow> object_id list \<Rightarrow> bool" for w where
  enclosed_none: "enclosed w None []"
| enclosed_room: "object_at w i = Some obj \<Longrightarrow> obj_kind obj = Room \<Longrightarrow> location obj = None \<Longrightarrow>
    enclosed w (Some i) [i]"
| enclosed_in: "object_at w i = Some obj \<Longrightarrow> obj_kind obj = Player \<or> obj_kind obj = Thing \<Longrightarrow>
    enclosed w (location obj) ch \<Longrightarrow> enclosed w (Some i) (i # ch)"

inductive_cases enclosed_NoneE: "enclosed w None ch"
inductive_cases enclosed_SomeE: "enclosed w (Some i) ch"

lemma enclosed_deterministic: "enclosed w c xs \<Longrightarrow> enclosed w c ys \<Longrightarrow> xs = ys"
proof (induction arbitrary: ys rule: enclosed.induct)
  case enclosed_none
  then show ?case by (auto elim: enclosed_NoneE)
next
  case (enclosed_room i obj)
  from enclosed_room.prems show ?case
    using enclosed_room.hyps by (cases rule: enclosed.cases) auto
next
  case (enclosed_in i obj ch)
  note IH = enclosed_in.IH and at = enclosed_in.hyps(1,2)
  from enclosed_in.prems show ?case
  proof (cases rule: enclosed.cases)
    case (enclosed_room obj')
    then show ?thesis using at by simp
  next
    case (enclosed_in obj' ch')
    then have "obj' = obj" using at by simp
    then show ?thesis using enclosed_in IH by simp
  qed
qed

lemma enclosed_suffix:
  "enclosed w c (xs @ i # ys) \<Longrightarrow> enclosed w (Some i) (i # ys)"
proof (induction xs arbitrary: c)
  case Nil
  then show ?case by (cases rule: enclosed.cases) (auto intro: enclosed.intros)
next
  case (Cons x xs)
  from Cons.prems show ?case
    by (cases rule: enclosed.cases) (auto intro: Cons.IH)
qed

lemma enclosed_distinct: "enclosed w c ch \<Longrightarrow> distinct ch"
proof (rule ccontr)
  assume e: "enclosed w c ch" and "\<not> distinct ch"
  then obtain xs ys zs i where ch: "ch = xs @ [i] @ ys @ [i] @ zs" using not_distinct_decomp by blast
  have "enclosed w (Some i) (i # ys @ i # zs)" "enclosed w (Some i) (i # zs)"
    using enclosed_suffix [of w c xs i "ys @ i # zs"] enclosed_suffix [of w c "xs @ i # ys" i zs] e ch
    by simp_all
  then have "i # ys @ i # zs = i # zs" by (rule enclosed_deterministic)
  then have "length (i # ys @ i # zs) = length (i # zs)" by (rule arg_cong)
  then show False by simp
qed

lemma chain_from_enclosed: "chain_from w seen c = Inr ch \<Longrightarrow> enclosed w c ch"
proof (induction w seen c arbitrary: ch rule: chain_from.induct)
  case (1 w seen)
  then show ?case by (simp add: enclosed_none)
next
  case (2 w seen i)
  then show ?case
    by (auto simp: bind_result_Inr_iff split: if_splits option.splits intro: enclosed.intros)
qed

lemma enclosed_chain_from:
  "enclosed w c ch \<Longrightarrow> set ch \<inter> set seen = {} \<Longrightarrow> chain_from w seen c = Inr ch"
proof (induction arbitrary: seen rule: enclosed.induct)
  case (enclosed_in i obj ch)
  then have "distinct (i # ch)" by (intro enclosed_distinct [OF enclosed.enclosed_in])
  then have "chain_from w (i # seen) (location obj) = Inr ch"
    using enclosed_in.IH [of "i # seen"] enclosed_in.prems by auto
  then show ?case using enclosed_in.hyps enclosed_in.prems by auto
qed auto

lemma containment_chain_iff: "containment_chain w c = Inr ch \<longleftrightarrow> enclosed w c ch"
  unfolding containment_chain_def
  using chain_from_enclosed enclosed_chain_from [of w c ch "[]"] by auto

section \<open>Moves\<close>

text \<open>The object table is keyed by the objects' own ids.\<close>

definition world_ok :: "world \<Rightarrow> bool" where
  "world_ok w \<longleftrightarrow> bt_ok (objects w) \<and> list_all (\<lambda>(i, obj). obj_id obj = i) (objects w)"

lemma object_at_put [simp]:
  "world_ok w \<Longrightarrow> object_at (put_object i obj w) j = (if j = i then Some obj else object_at w j)"
  by (simp add: object_at_def put_object_def world_ok_def bt.get_insert)

lemma world_ok_put: "world_ok w \<Longrightarrow> obj_id obj = i \<Longrightarrow> world_ok (put_object i obj w)"
  using set_bt_insert_subset [of i obj "objects w"]
  by (fastforce simp: put_object_def world_ok_def bt.ok_insert list_all_iff)

lemma world_ok_id: "world_ok w \<Longrightarrow> object_at w i = Some obj \<Longrightarrow> obj_id obj = i"
  by (auto simp: world_ok_def object_at_def bt_get_in_set list_all_iff)

definition location_ok :: "world \<Rightarrow> object \<Rightarrow> bool" where
  "location_ok w obj \<longleftrightarrow>
     (\<exists>ch. enclosed w (location obj) ch \<and> obj_id obj \<notin> set ch)
     \<and> (obj_kind obj = Room \<longrightarrow> location obj = None)"

lemma validate_location_iff: "validate_location w obj = Inr () \<longleftrightarrow> location_ok w obj"
  by (auto simp: validate_location_def location_ok_def bind_result_Inr_iff containment_chain_iff)

lemma validate_containment_iff:
  assumes "world_ok w"
  shows "validate_containment w \<longleftrightarrow>
    (\<forall>i obj. object_at w i = Some obj \<longrightarrow> obj_kind obj = Garbage \<or> location_ok w obj)"
  using assms
  by (auto simp: validate_containment_def validate_location_iff list_all_iff world_ok_def
      object_at_def bt_get_in_set)

lemma validate_move_iff:
  "validate_move w i dest = Inr () \<longleftrightarrow>
     (\<exists>obj ch ch'. object_at w i = Some obj \<and> obj_kind obj \<in> {Player, Thing, Exit}
        \<and> enclosed w (Some dest) ch \<and> i \<notin> set ch \<and> enclosed w (location obj) ch')"
  by (auto simp: validate_move_def bind_result_Inr_iff containment_chain_iff split: option.splits)

text \<open>
  What a move of \<open>i\<close> into \<open>dest\<close> does to chains: one that avoids \<open>i\<close> stays, one through \<open>i\<close> goes on
  with the chain of \<open>dest\<close>.
\<close>

lemma enclosed_moved_avoids:
  assumes "world_ok w" and "enclosed w c ch" and "i \<notin> set ch"
  shows "enclosed (put_object i obj w) c ch"
  using assms(2,3,1)
proof (induction rule: enclosed.induct)
  case (enclosed_room j obj')
  then show ?case by (intro enclosed.enclosed_room [of _ _ obj']) auto
next
  case (enclosed_in j obj' ch)
  then show ?case by (intro enclosed.enclosed_in [of _ _ obj']) auto
qed (simp add: enclosed_none)

lemma enclosed_moved_through:
  assumes "world_ok w" and at: "object_at w i = Some obj" and "enclosed w c ch" and "i \<in> set ch"
    and kind: "obj_kind obj \<noteq> Room"
    and dest: "enclosed (put_object i (obj\<lparr>location := Some dest\<rparr>) w) (Some dest) chd"
  shows "\<exists>pre. set pre \<subseteq> set ch \<and>
           enclosed (put_object i (obj\<lparr>location := Some dest\<rparr>) w) c (pre @ i # chd)"
  using assms(3,4)
proof (induction rule: enclosed.induct)
  case enclosed_none
  then show ?case by simp
next
  case (enclosed_room j obj')
  then show ?case using at kind by simp
next
  case (enclosed_in j obj' ch)
  let ?w = "put_object i (obj\<lparr>location := Some dest\<rparr>) w"
  show ?case
  proof (cases "j = i")
    case True
    have "obj_kind obj = Player \<or> obj_kind obj = Thing" using enclosed_in True at by simp
    then have "enclosed ?w (Some i) (i # chd)"
      using enclosed.enclosed_in [of ?w i "obj\<lparr>location := Some dest\<rparr>" chd] dest assms(1) by simp
    then show ?thesis using True by (intro exI [of _ "[]"]) simp
  next
    case False
    then obtain pre where "set pre \<subseteq> set ch" "enclosed ?w (location obj') (pre @ i # chd)"
      using enclosed_in by auto
    moreover from this have "enclosed ?w (Some j) (j # pre @ i # chd)"
      using enclosed_in False assms(1) by (intro enclosed.enclosed_in [of _ _ obj']) auto
    ultimately show ?thesis by (intro exI [of _ "j # pre"]) auto
  qed
qed

lemma enclosed_parent:
  assumes "enclosed w c ch" and "j \<in> set ch" and "object_at w j = Some obj" and "enclosed w (location obj) chj"
  shows "set chj \<subseteq> set ch"
proof -
  obtain xs ys where ch: "ch = xs @ j # ys" using assms(2) by (meson split_list)
  then have "enclosed w (Some j) (j # ys)" using assms(1) enclosed_suffix by blast
  then show ?thesis
  proof (cases rule: enclosed.cases)
    case (enclosed_room obj')
    then show ?thesis using assms(3,4) by (auto elim: enclosed_NoneE)
  next
    case (enclosed_in obj')
    then have "ys = chj" using assms(3,4) enclosed_deterministic by auto
    then show ?thesis using ch by auto
  qed
qed

lemma location_ok_moved:
  assumes ok: "world_ok w" and at: "object_at w i = Some obj" and kind: "obj_kind obj \<noteq> Room"
    and dest: "enclosed w (Some dest) chd" "i \<notin> set chd"
    and x: "object_at w j = Some x" "j \<noteq> i" "location_ok w x"
  shows "location_ok (put_object i (obj\<lparr>location := Some dest\<rparr>) w) x"
proof -
  let ?w = "put_object i (obj\<lparr>location := Some dest\<rparr>) w"
  have id: "obj_id x = j" using ok x(1) by (rule world_ok_id)
  obtain ch where ch: "enclosed w (location x) ch" "j \<notin> set ch" using x(3) id by (auto simp: location_ok_def)
  have dest': "enclosed ?w (Some dest) chd" by (rule enclosed_moved_avoids [OF ok dest])
  have "\<exists>ch'. enclosed ?w (location x) ch' \<and> j \<notin> set ch'"
  proof (cases "i \<in> set ch")
    case False
    then show ?thesis using enclosed_moved_avoids [OF ok ch(1)] ch(2) by blast
  next
    case True
    then obtain pre where pre: "set pre \<subseteq> set ch" "enclosed ?w (location x) (pre @ i # chd)"
      using enclosed_moved_through [OF ok at ch(1) _ kind dest'] by blast
    have "j \<notin> set chd"
    proof
      assume "j \<in> set chd"
      then have "set ch \<subseteq> set chd" using enclosed_parent [OF dest(1) _ x(1) ch(1)] by blast
      then show False using True dest(2) by blast
    qed
    then show ?thesis using pre ch(2) x(2) by (intro exI [of _ "pre @ i # chd"]) auto
  qed
  then show ?thesis using x(3) id by (auto simp: location_ok_def)
qed

section \<open>Properties\<close>

text \<open>
  C17. A checked move keeps the world well contained: when the containment part of world validation
  passes and \<open>validate_move\<close> accepts, moving the object there leaves a world whose containment
  validates again, with no cycle, no room inside anything and every chain ending in a room or
  nowhere.
\<close>

theorem move_keeps_containment:
  assumes "world_ok w" and "validate_containment w" and "validate_move w i dest = Inr ()"
  shows "validate_containment (relocate i dest w) \<and> world_ok (relocate i dest w)"
proof -
  obtain obj chd where obj: "object_at w i = Some obj" "obj_kind obj \<in> {Player, Thing, Exit}"
    and dest: "enclosed w (Some dest) chd" "i \<notin> set chd"
    using assms(3) by (auto simp: validate_move_iff)
  let ?obj = "obj\<lparr>location := Some dest\<rparr>"
  let ?w = "put_object i ?obj w"
  have id: "obj_id obj = i" using assms(1) obj(1) by (rule world_ok_id)
  have kind: "obj_kind obj \<noteq> Room" using obj(2) by auto
  have moved: "relocate i dest w = ?w" by (simp add: relocate_def obj(1))
  have ok: "world_ok ?w" using assms(1) id by (simp add: world_ok_put)
  have here: "location_ok ?w ?obj"
    using enclosed_moved_avoids [OF assms(1) dest] dest(2) id kind by (auto simp: location_ok_def)
  have "obj_kind x = Garbage \<or> location_ok ?w x" if "object_at ?w j = Some x" for j x
  proof (cases "j = i")
    case True
    then show ?thesis using that here assms(1) by simp
  next
    case False
    then have x: "object_at w j = Some x" using that assms(1) by simp
    then have "obj_kind x = Garbage \<or> location_ok w x"
      using assms(1,2) validate_containment_iff by blast
    then show ?thesis using location_ok_moved [OF assms(1) obj(1) kind dest x False] by blast
  qed
  then show ?thesis using ok moved by (simp add: validate_containment_iff)
qed

text \<open>A room with a box and a player in it.\<close>

definition sample_object :: "object_id \<Rightarrow> kind \<Rightarrow> object_id option \<Rightarrow> object" where
  "sample_object i k l =
     \<lparr>generation = 1, pending_destroyer = None, obj_id = i, obj_name = [], obj_kind = k, location = l,
      zone = None, home = None, affiliation = None, destination = None, dropto = None,
      description = None, internal_description = None, lua_parent = [], flags = {}, powers = {}\<rparr>"

definition sample_world :: world where
  "sample_world =
     \<lparr>objects = [(1, sample_object 1 Player (Some 2)), (2, sample_object 2 Room None),
                 (3, sample_object 3 Thing (Some 2))]\<rparr>"

lemmas sample_simps = sample_world_def sample_object_def object_at_def bt_get_def
  containment_chain_def

theorem move_keeps_containment_witness:
  "validate_move sample_world 1 3 = Inr () \<and> validate_containment (relocate 1 3 sample_world)"
proof -
  have ok: "world_ok sample_world" by (simp add: world_ok_def bt_ok_def sample_simps)
  have valid: "validate_containment sample_world"
    by (simp add: validate_containment_def validate_location_def sample_simps)
  have move: "validate_move sample_world 1 3 = Inr ()" by (simp add: validate_move_def sample_simps)
  show ?thesis using move move_keeps_containment [OF ok valid move] by simp
qed

text \<open>
  C35. The containment walk always ends, and its answer is exact: it returns a chain exactly when the
  location leads up through players and things to a room without a location or to nowhere, that
  chain never repeats an object, and its length is bounded by the number of objects.
\<close>

theorem containment_chain_exact:
  "(containment_chain w c = Inr ch \<longleftrightarrow> enclosed w c ch)
   \<and> (containment_chain w c = Inr ch \<longrightarrow> distinct ch \<and> length ch \<le> length (objects w))"
proof -
  have "distinct ch \<and> length ch \<le> length (objects w)" if e: "enclosed w c ch"
  proof -
    have "set ch \<subseteq> fst ` set (objects w)"
      using e by (induction rule: enclosed.induct) (auto dest: object_at_key)
    then have "card (set ch) \<le> card (fst ` set (objects w))" by (simp add: card_mono)
    also have "\<dots> \<le> card (set (objects w))" by (rule card_image_le) simp
    also have "\<dots> \<le> length (objects w)" by (rule card_length)
    finally show ?thesis using enclosed_distinct [OF e] by (simp add: distinct_card)
  qed
  then show ?thesis by (simp add: containment_chain_iff)
qed

theorem containment_chain_exact_witness:
  "containment_chain sample_world (Some 3) = Inr [3, 2] \<and> distinct [3, 2 :: int]"
proof -
  have run: "containment_chain sample_world (Some 3) = Inr [3, 2]" by (simp add: sample_simps)
  show ?thesis using run containment_chain_exact [of sample_world "Some 3" "[3, 2]"] by simp
qed

end
