(* ===== verification/World_Authority.thy ===== *)
theory World_Authority
  imports World_Objects
begin

text \<open>
  Who may change what: \<open>src/authority.rs\<close>, \<open>src/powers.rs\<close>, the mutation policy \<open>change\<close> of
  \<open>src/flags.rs\<close> and the lock catalogue of \<open>src/locks.rs\<close>. A mutation returns the changed world and
  whether the set changed, or the error; no mutation touches the world before it fails.
\<close>

section \<open>Definitions\<close>

definition GOD :: object_id where "GOD = 1"

definition is_wizard :: "world \<Rightarrow> object_id \<Rightarrow> bool" where
  "is_wizard w actor \<longleftrightarrow> actor = GOD \<or> has_flag w actor Wizard"

definition controls :: "world \<Rightarrow> object_id \<Rightarrow> object_id \<Rightarrow> bool" where
  "controls w actor target \<longleftrightarrow>
     (case object_at w target of
        None \<Rightarrow> False
      | Some obj \<Rightarrow>
          obj_kind obj \<noteq> Garbage
          \<and> (actor = GOD
             \<or> has_flag w actor Wizard
                \<and> (actor = obj_id obj \<or> obj_id obj \<noteq> GOD \<and> Wizard \<notin> flags obj)))"

datatype authority_error =
    ManagedBySessions | ObjectDoesNotExist | PermissionDenied | CannotBecomeMortal
  | UnknownPower bytes

type_synonym mutation = "(authority_error, world \<times> bool) result"

definition write_flag :: "world \<Rightarrow> object_id \<Rightarrow> object \<Rightarrow> flag \<Rightarrow> bool \<Rightarrow> world \<times> bool" where
  "write_flag w target obj f v =
     (if v then (put_object target (obj\<lparr>flags := insert f (flags obj)\<rparr>) w, f \<notin> flags obj)
      else (put_object target (obj\<lparr>flags := flags obj - {f}\<rparr>) w, f \<in> flags obj))"

definition flag_change :: "world \<Rightarrow> object_id \<Rightarrow> object_id \<Rightarrow> flag \<Rightarrow> bool \<Rightarrow> mutation" where
  "flag_change w actor target f v =
     ensure_then (flag_policy f \<noteq> PolicySession) ManagedBySessions
       (case object_at w target of
          None \<Rightarrow> Inl ObjectDoesNotExist
        | Some obj \<Rightarrow>
            ensure_then (obj_kind obj \<noteq> Garbage) ObjectDoesNotExist
              (let god = (actor = GOD); wizard = has_flag w actor Wizard
               in if flag_policy f = PolicyGod then
                    ensure_then god PermissionDenied
                      (ensure_then (target \<noteq> GOD \<or> v) CannotBecomeMortal
                        (Inr (write_flag w target obj f v)))
                  else if flag_policy f = PolicyGoing then
                    ensure_then (god \<or> \<not> v \<and> obj_kind obj \<noteq> Player \<and> f \<in> flags obj) PermissionDenied
                      (Inr (write_flag w target obj f v))
                  else if \<not> god \<and> \<not> wizard then Inl PermissionDenied
                  else Inr (write_flag w target obj f v)))"

text \<open>Powers.\<close>

definition power_ALL :: "power list" where "power_ALL = [Idle]"

primrec power_name :: "power \<Rightarrow> bytes" where
  "power_name Idle = bstr ''IDLE''"

primrec power_display_name :: "power \<Rightarrow> bytes" where
  "power_display_name Idle = bstr ''idle''"

definition power_parse :: "bytes \<Rightarrow> (authority_error, power) result" where
  "power_parse n =
     (case List.find (\<lambda>p. eq_ignore_ascii_case (power_name p) n) power_ALL of
        Some p \<Rightarrow> Inr p | None \<Rightarrow> Inl (UnknownPower n))"

fun join_spaces :: "bytes list \<Rightarrow> bytes" where
  "join_spaces [] = []"
| "join_spaces [s] = s"
| "join_spaces (s # t # r) = s @ 32 # join_spaces (t # r)"

definition power_description :: "power set \<Rightarrow> bytes" where
  "power_description s = join_spaces (map power_display_name (filter (\<lambda>p. p \<in> s) power_ALL))"

definition power_change :: "world \<Rightarrow> object_id \<Rightarrow> object_id \<Rightarrow> power \<Rightarrow> bool \<Rightarrow> mutation" where
  "power_change w actor target p v =
     ensure_then (controls w actor target) PermissionDenied
       (case object_at w target of
          None \<Rightarrow> Inl ObjectDoesNotExist
        | Some obj \<Rightarrow>
            ensure_then (obj_kind obj \<noteq> Garbage) ObjectDoesNotExist
              (Inr (if v
                    then (put_object target (obj\<lparr>powers := insert p (powers obj)\<rparr>) w, p \<notin> powers obj)
                    else (put_object target (obj\<lparr>powers := powers obj - {p}\<rparr>) w, p \<in> powers obj))))"

text \<open>Locks.\<close>

datatype lock_type =
    LockMatch | LockTraverse | LockTake | LockUse | LockDrop | LockGive | LockReceive |
    LockEnter | LockLeave | LockTeleport | LockTeleportOut | LockLink | LockSetHome |
    LockSpeak | LockChannelJoin | LockChannelTransmit | LockChannelReceive |
    LockIdentifyBuilding

definition LOCKS :: "lock_type list" where
  "LOCKS =
     [LockMatch, LockTraverse, LockTake, LockUse, LockDrop, LockGive, LockReceive, LockEnter,
      LockLeave, LockTeleport, LockTeleportOut, LockLink, LockSetHome, LockSpeak,
      LockChannelJoin, LockChannelTransmit, LockChannelReceive, LockIdentifyBuilding]"

primrec lock_key :: "lock_type \<Rightarrow> bytes" where
  "lock_key LockMatch = bstr ''match''"
| "lock_key LockTraverse = bstr ''traverse''"
| "lock_key LockTake = bstr ''take''"
| "lock_key LockUse = bstr ''use''"
| "lock_key LockDrop = bstr ''drop''"
| "lock_key LockGive = bstr ''give''"
| "lock_key LockReceive = bstr ''receive''"
| "lock_key LockEnter = bstr ''enter''"
| "lock_key LockLeave = bstr ''leave''"
| "lock_key LockTeleport = bstr ''teleport''"
| "lock_key LockTeleportOut = bstr ''teleport_out''"
| "lock_key LockLink = bstr ''link''"
| "lock_key LockSetHome = bstr ''set_home''"
| "lock_key LockSpeak = bstr ''speak''"
| "lock_key LockChannelJoin = bstr ''channel_join''"
| "lock_key LockChannelTransmit = bstr ''channel_transmit''"
| "lock_key LockChannelReceive = bstr ''channel_receive''"
| "lock_key LockIdentifyBuilding = bstr ''identify_building''"

definition ascii_upper :: "u8 \<Rightarrow> u8" where
  "ascii_upper b = (if 97 \<le> b \<and> b \<le> 122 then b - 32 else b)"

definition lock_name :: "lock_type \<Rightarrow> bytes" where
  "lock_name k = map ascii_upper (lock_key k)"

definition lock_from_key :: "bytes \<Rightarrow> lock_type option" where
  "lock_from_key key = List.find (\<lambda>k. lock_key k = key) LOCKS"

section \<open>Sequences of administrative requests\<close>

datatype admin =
    SetFlag object_id object_id flag bool
  | SetPower object_id object_id power bool

fun admin_actor :: "admin \<Rightarrow> object_id" where
  "admin_actor (SetFlag a _ _ _) = a"
| "admin_actor (SetPower a _ _ _) = a"

fun admin_step :: "world \<Rightarrow> admin \<Rightarrow> world" where
  "admin_step w (SetFlag a t f v) = (case flag_change w a t f v of Inl _ \<Rightarrow> w | Inr (w', _) \<Rightarrow> w')"
| "admin_step w (SetPower a t p v) = (case power_change w a t p v of Inl _ \<Rightarrow> w | Inr (w', _) \<Rightarrow> w')"

definition admin_run :: "admin list \<Rightarrow> world \<Rightarrow> world" where
  "admin_run rs w = fold (\<lambda>r w. admin_step w r) rs w"

section \<open>Lemmas\<close>

interpretation lcat: catalogue LOCKS lock_key
proof
  show "k \<in> set LOCKS" for k by (cases k) (simp_all add: LOCKS_def)
  show "distinct (map lock_key LOCKS)" by (simp add: LOCKS_def bstr_def)
qed

lemma has_flag_put:
  "world_ok w \<Longrightarrow> has_flag (put_object t obj w) i f = (if i = t then f \<in> flags obj else has_flag w i f)"
  by (simp add: has_flag_def)

lemma flag_change_ok:
  assumes "world_ok w" and "flag_change w a t f v = Inr (w', b)"
  shows "world_ok w' \<and> f \<noteq> Connected
       \<and> (\<forall>i g. has_flag w' i g = (if i = t \<and> g = f then v else has_flag w i g))
       \<and> (f = Wizard \<longrightarrow> a = GOD \<and> (t = GOD \<longrightarrow> v))"
proof -
  obtain obj where obj: "object_at w t = Some obj"
    using assms(2) by (auto simp: flag_change_def split: option.splits)
  have wr: "(w', b) = write_flag w t obj f v"
    using assms(2) obj by (auto simp: flag_change_def Let_def split: if_splits)
  have id: "obj_id obj = t" using assms(1) obj by (rule world_ok_id)
  have policy: "f \<noteq> Connected \<and> (f = Wizard \<longrightarrow> a = GOD \<and> (t = GOD \<longrightarrow> v))"
    using assms(2) obj by (cases f) (simp_all add: flag_change_def flag_policy_def)
  have "has_flag w t g = (g \<in> flags obj)" for g by (simp add: has_flag_def obj)
  then show ?thesis
    using wr policy assms(1) id
    by (cases v) (auto simp: write_flag_def has_flag_put world_ok_put)
qed

lemma power_change_ok:
  assumes "world_ok w" and "power_change w a t p v = Inr (w', b)"
  shows "world_ok w' \<and> (\<forall>i g. has_flag w' i g = has_flag w i g)"
proof -
  obtain obj where obj: "object_at w t = Some obj"
    using assms(2) by (auto simp: power_change_def split: option.splits)
  have id: "obj_id obj = t" using assms(1) obj by (rule world_ok_id)
  have "has_flag w t g = (g \<in> flags obj)" for g by (simp add: has_flag_def obj)
  then show ?thesis
    using assms obj id
    by (cases v) (auto simp: power_change_def has_flag_put world_ok_put split: if_splits)
qed

lemma admin_step_ok:
  assumes "world_ok w"
  shows "world_ok (admin_step w r)
       \<and> (\<forall>i. has_flag (admin_step w r) i Connected = has_flag w i Connected)
       \<and> (has_flag w GOD Wizard \<longrightarrow> has_flag (admin_step w r) GOD Wizard)
       \<and> (admin_actor r \<noteq> GOD \<longrightarrow> (\<forall>i. has_flag (admin_step w r) i Wizard = has_flag w i Wizard))"
proof (cases r)
  case (SetFlag a t f v)
  show ?thesis
  proof (cases "flag_change w a t f v")
    case (Inr p)
    then show ?thesis
      using SetFlag flag_change_ok [OF assms, of a t f v "fst p" "snd p"] by (cases p) auto
  qed (simp add: SetFlag assms)
next
  case (SetPower a t p v)
  show ?thesis
  proof (cases "power_change w a t p v")
    case (Inr q)
    then show ?thesis
      using SetPower power_change_ok [OF assms, of a t p v "fst q" "snd q"] by (cases q) auto
  qed (simp add: SetPower assms)
qed

section \<open>Properties\<close>

text \<open>
  C15. Administrative requests cannot escalate privilege: after any sequence of flag and power
  requests, accepted or refused, GOD still has the Wizard flag if it had it and no object's
  session-owned CONNECTED flag has changed; and if none of the requests came from GOD, exactly the
  same objects are Wizards as before.
\<close>

theorem no_privilege_escalation:
  assumes "world_ok w"
  shows "(has_flag w GOD Wizard \<longrightarrow> has_flag (admin_run rs w) GOD Wizard)
       \<and> has_flag (admin_run rs w) i Connected = has_flag w i Connected
       \<and> (list_all (\<lambda>r. admin_actor r \<noteq> GOD) rs \<longrightarrow>
            has_flag (admin_run rs w) i Wizard = has_flag w i Wizard)"
  using assms
proof (induction rs arbitrary: w)
  case (Cons r rs)
  have run: "admin_run (r # rs) w = admin_run rs (admin_step w r)" by (simp add: admin_run_def)
  show ?case using Cons.IH [of "admin_step w r"] admin_step_ok [OF Cons.prems, of r] by (simp add: run)
qed (simp add: admin_run_def)

theorem no_privilege_escalation_witness:
  "has_flag (admin_run [SetFlag 3 3 Wizard True, SetPower 3 1 Idle True] sample_world) 3 Wizard
   = has_flag sample_world 3 Wizard"
proof -
  have "world_ok sample_world" by (simp add: world_ok_def bt_ok_def sample_simps)
  from no_privilege_escalation [OF this, of "[SetFlag 3 3 Wizard True, SetPower 3 1 Idle True]" 3]
  show ?thesis by (simp add: GOD_def)
qed

text \<open>
  An accepted flag change writes exactly the requested flag of the requested object and no
  other, reports whether it changed, and is refused unless the actor is GOD, or a Wizard changing a
  flag that is neither WIZARD, GOING nor CONNECTED, or the change clears GOING on a non-player that
  has it.
\<close>

lemma flag_change_exact:
  assumes "world_ok w" and "flag_change w a t f v = Inr (w', b)"
  shows "has_flag w' i g = (if i = t \<and> g = f then v else has_flag w i g)
       \<and> (b \<longleftrightarrow> has_flag w t f \<noteq> v)
       \<and> (a = GOD \<or> has_flag w a Wizard \<and> f \<notin> {Wizard, Going, Connected}
           \<or> f = Going \<and> \<not> v \<and> has_flag w t Going)"
proof -
  obtain obj where obj: "object_at w t = Some obj"
    using assms(2) by (auto simp: flag_change_def split: option.splits)
  have changed: "b \<longleftrightarrow> has_flag w t f \<noteq> v"
    using assms(2) obj
    by (cases v) (auto simp: flag_change_def write_flag_def has_flag_def Let_def split: if_splits)
  have "a = GOD \<or> has_flag w a Wizard \<and> f \<notin> {Wizard, Going, Connected}
      \<or> f = Going \<and> \<not> v \<and> has_flag w t Going"
    using assms(2) obj
    by (cases f) (auto simp: flag_change_def flag_policy_def has_flag_def Let_def split: if_splits)
  then show ?thesis using changed flag_change_ok [OF assms] by blast
qed

text \<open>
  Control is a strict hierarchy between different objects: two objects never control each other,
  nobody but GOD controls GOD, a Wizard never controls another Wizard, whoever controls anything is
  GOD or a Wizard, and nothing controls garbage.
\<close>

lemma controls_hierarchy:
  assumes "world_ok w" and "controls w a t"
  shows "(a \<noteq> t \<longrightarrow> \<not> controls w t a) \<and> (t = GOD \<longrightarrow> a = GOD)
       \<and> (has_flag w t Wizard \<longrightarrow> a = t \<or> a = GOD) \<and> is_wizard w a
       \<and> (\<exists>obj. object_at w t = Some obj \<and> obj_kind obj \<noteq> Garbage)"
proof -
  obtain obj where obj: "object_at w t = Some obj" "obj_kind obj \<noteq> Garbage" "obj_id obj = t"
    using assms world_ok_id [OF assms(1)] by (auto simp: controls_def split: option.splits)
  have rule: "a = GOD \<or> has_flag w a Wizard \<and> (a = t \<or> t \<noteq> GOD \<and> \<not> has_flag w t Wizard)"
    using assms(2) obj by (auto simp: controls_def has_flag_def)
  have "\<not> controls w t a" if "a \<noteq> t"
  proof
    assume "controls w t a"
    then have "t = GOD \<or> has_flag w t Wizard \<and> (t = a \<or> a \<noteq> GOD \<and> \<not> has_flag w a Wizard)"
      using world_ok_id [OF assms(1)] by (auto simp: controls_def has_flag_def split: option.splits)
    then show False using rule that by auto
  qed
  then show ?thesis using rule obj by (auto simp: is_wizard_def)
qed

end
