(* ===== verification/Command_Queue.thy ===== *)
theory Command_Queue
  imports World_Objects
begin

text \<open>
  \<open>src/commands/queue.rs\<close>: bounded command lists with deadlines and fair executor rotation.
  \<open>queue\<close> is the \<open>Queue\<close> struct, \<open>queue_apply\<close>, \<open>cancel\<close>, \<open>reconcile\<close>, \<open>queue_take\<close> its
  operations. Instants are nanoseconds of the monotonic clock; \<open>clock_max\<close> is the last instant the
  platform can represent. A \<open>None\<close> of \<open>queue_take\<close> stands for the panics of its indexing and
  \<open>unwrap\<close>. The text of a command is its UTF-8 bytes; the delimiters are ASCII, so scanning bytes
  and scanning characters find the same ones.
\<close>

section \<open>Splitting a list\<close>

text \<open>
  One turn of the scan: the open braces, the stack of closing delimiters and the escape after a
  character, or \<open>None\<close> at an unprotected semicolon.
\<close>

definition delimiter_step :: "nat \<times> u8 list \<times> bool \<Rightarrow> u8 \<Rightarrow> (nat \<times> u8 list \<times> bool) option" where
  "delimiter_step st c =
     (case st of (braces, stack, escaped) \<Rightarrow>
        if escaped then Some (braces, stack, False)
        else if c = 92 then Some (braces, stack, True)
        else if c = 123 then Some (braces + 1, stack, False)
        else if c = 125 \<and> 0 < braces then Some (braces - 1, stack, False)
        else if (c = 40 \<or> c = 91) \<and> braces = 0 \<and> length stack < 32 then
          Some (braces, (if c = 40 then 41 else 93) # stack, False)
        else if (c = 41 \<or> c = 93) \<and> braces = 0 \<and> stack \<noteq> [] \<and> hd stack = c then
          Some (braces, tl stack, False)
        else if c = 59 \<and> braces = 0 \<and> stack = [] then None
        else Some (braces, stack, False))"

fun command_end :: "nat \<times> u8 list \<times> bool \<Rightarrow> bytes \<Rightarrow> nat" where
  "command_end st [] = 0"
| "command_end st (c # s) =
     (case delimiter_step st c of None \<Rightarrow> 0 | Some st' \<Rightarrow> Suc (command_end st' s))"

text \<open>Runs of unescaped spaces become one; \<open>out\<close> is the output so far, reversed.\<close>

fun compress_spaces :: "bytes \<Rightarrow> bool \<Rightarrow> bytes \<Rightarrow> bytes" where
  "compress_spaces out escaped [] = rev out"
| "compress_spaces out escaped (c # s) =
     (if \<not> escaped \<and> c = 32 \<and> out \<noteq> [] \<and> hd out = 32 then compress_spaces out escaped s
      else compress_spaces (c # out) (\<not> escaped \<and> c = 92) s)"

definition split_command :: "bytes \<Rightarrow> bool \<Rightarrow> bytes \<times> bytes option" where
  "split_command source compress =
     (let e = command_end (0, [], False) source; input = take e source
      in (if compress then compress_spaces [] False (trim input) else input,
          if e < length source then Some (drop (e + 1) source) else None))"

section \<open>The queue\<close>

definition MAX_QUEUE_BYTES :: nat where "MAX_QUEUE_BYTES = 16 * 1024 * 1024"

datatype request =
    Add object_id object_id int bytes
  | Halt "object_id option"

record entry =
  executor :: object_id
  entry_generation :: nat
  cause :: object_id
  due :: nat
  entry_text :: bytes

datatype origin = Interactive | Queued

record execution_context =
  ctx_executor :: object_id
  ctx_cause :: object_id
  ctx_session :: "nat option"
  ctx_origin :: origin

record work =
  execution :: execution_context
  work_text :: bytes

record queue =
  entries :: "(nat, entry) btree"
  rotation :: "object_id list"
  queue_next :: nat
  queue_bytes :: nat

definition queue_default :: queue where
  "queue_default = \<lparr>entries = [], rotation = [], queue_next = 0, queue_bytes = 0\<rparr>"

datatype queue_error =
    ExceedsInputLimit | QueueNoSuchObject | BeingDestroyed | TextLimitExceeded | WaitOutOfRange
  | SequenceExhausted

datatype queue_reply = EntriesRemoved nat | RunAway

definition recount :: "queue \<Rightarrow> queue" where
  "recount q =
     q\<lparr>queue_bytes := sum_list (map (\<lambda>(_, e). length (entry_text e)) (entries q)),
       rotation := filter (\<lambda>p. list_ex (\<lambda>(_, e). executor e = p) (entries q)) (rotation q)\<rparr>"

definition retain_entries :: "(entry \<Rightarrow> bool) \<Rightarrow> queue \<Rightarrow> queue" where
  "retain_entries P q = recount (q\<lparr>entries := bt_retain (\<lambda>_ e. P e) (entries q)\<rparr>)"

definition cancel :: "object_id option \<Rightarrow> queue \<Rightarrow> queue \<times> nat" where
  "cancel target q =
     (let q' = retain_entries (\<lambda>e. case target of None \<Rightarrow> False | Some t \<Rightarrow> executor e \<noteq> t) q
      in (q', length (entries q) - length (entries q')))"

definition live :: "world \<Rightarrow> entry \<Rightarrow> bool" where
  "live w e \<longleftrightarrow>
     (case object_at w (executor e) of
        None \<Rightarrow> False
      | Some obj \<Rightarrow> generation obj = entry_generation e \<and> obj_kind obj \<noteq> Garbage)"

definition reconcile :: "world \<Rightarrow> queue \<Rightarrow> queue" where
  "reconcile w q = retain_entries (live w) q"

definition executor_count :: "object_id \<Rightarrow> queue \<Rightarrow> nat" where
  "executor_count p q = length (filter (\<lambda>(_, e). executor e = p) (entries q))"

definition admit :: "queue \<Rightarrow> entry \<Rightarrow> queue" where
  "admit q e =
     q\<lparr>queue_next := queue_next q + 1, queue_bytes := queue_bytes q + length (entry_text e),
       entries := bt_insert (queue_next q + 1) e (entries q)\<rparr>"

definition queue_apply ::
  "nat \<Rightarrow> queue \<Rightarrow> request \<Rightarrow> world \<Rightarrow> nat \<Rightarrow> nat \<Rightarrow> nat \<Rightarrow>
     (queue_error, queue \<times> world \<times> queue_reply option) result" where
  "queue_apply clock_max q req w limit line_limit now =
     (case req of
        Halt target \<Rightarrow> (let (q', n) = cancel target q in Inr (q', w, Some (EntriesRemoved n)))
      | Add p c seconds text \<Rightarrow>
          ensure_then (length text \<le> line_limit) ExceedsInputLimit
            (case object_at w p of
               None \<Rightarrow> Inl QueueNoSuchObject
             | Some obj \<Rightarrow>
                 ensure_then (obj_kind obj \<noteq> Garbage \<and> Going \<notin> flags obj) BeingDestroyed
                   (if Halted \<in> flags obj then Inr (q, w, None)
                    else if limit \<le> executor_count p q then
                      Inr (fst (cancel (Some p) q),
                           put_object p (obj\<lparr>flags := insert Halted (flags obj)\<rparr>) w, Some RunAway)
                    else
                      ensure_then (queue_bytes q + length text \<le> MAX_QUEUE_BYTES) TextLimitExceeded
                        (let d = now + nat (max seconds 0) * 10 ^ 9
                         in ensure_then (d \<le> clock_max) WaitOutOfRange
                              (ensure_then (queue_next q + 1 < 2 ^ 64) SequenceExhausted
                                (Inr (admit q \<lparr>executor = p, entry_generation = generation obj,
                                               cause = c, due = d, entry_text = text\<rparr>, w, None)))))))"

definition deadline :: "queue \<Rightarrow> nat option" where
  "deadline q = (if entries q = [] then None else Some (Min (set (map (\<lambda>(_, e). due e) (entries q)))))"

definition next_wakeup :: "queue \<Rightarrow> nat \<Rightarrow> nat option" where
  "next_wakeup q now =
     (let later = filter (\<lambda>d. now < d) (map (\<lambda>(_, e). due e) (entries q))
      in if later = [] then None else Some (Min (set later)))"

definition queue_ready :: "queue \<Rightarrow> nat \<Rightarrow> bool" where
  "queue_ready q now \<longleftrightarrow> (case deadline q of None \<Rightarrow> False | Some d \<Rightarrow> d \<le> now)"

type_synonym ready_list = "(nat \<times> nat \<times> object_id) list"

definition ready_entries :: "queue \<Rightarrow> nat \<Rightarrow> ready_list" where
  "ready_entries q now =
     sort (map (\<lambda>(i, e). (due e, i, executor e)) (filter (\<lambda>(_, e). due e \<le> now) (entries q)))"

definition push_missing :: "object_id \<Rightarrow> object_id list \<Rightarrow> object_id list" where
  "push_missing p r = (if p \<in> set r then r else r @ [p])"

definition refresh_rotation :: "ready_list \<Rightarrow> object_id list \<Rightarrow> object_id list" where
  "refresh_rotation ready r =
     filter (\<lambda>p. list_ex (\<lambda>(_, _, x). x = p) ready) (fold (\<lambda>(_, _, p). push_missing p) ready r)"

text \<open>The turn of executor \<open>p\<close>, whose next list is the entry \<open>i\<close>.\<close>

definition serve :: "queue \<Rightarrow> nat \<Rightarrow> world \<Rightarrow> bool \<Rightarrow> object_id \<Rightarrow> nat \<Rightarrow> (queue \<times> work option) option" where
  "serve q now w compress p i =
     (case object_at w p of
        None \<Rightarrow> None
      | Some obj \<Rightarrow>
          if Going \<in> flags obj \<or> Halted \<in> flags obj
          then Some (recount (q\<lparr>entries := bt_remove i (entries q)\<rparr>), None)
          else
            (case bt_get (entries q) i of
               None \<Rightarrow> None
             | Some e \<Rightarrow>
                 let (text, rest) = split_command (entry_text e) compress;
                     es = (case rest of
                             Some r \<Rightarrow> bt_insert i (e\<lparr>entry_text := r\<rparr>) (entries q)
                           | None \<Rightarrow> bt_remove i (entries q));
                     again = list_ex (\<lambda>(_, x). executor x = p \<and> due x \<le> now) es;
                     q' = q\<lparr>entries := es, rotation := (if again then rotation q @ [p] else rotation q)\<rparr>
                 in Some (recount q',
                          Some \<lparr>execution = \<lparr>ctx_executor = executor e, ctx_cause = cause e,
                                             ctx_session = None, ctx_origin = Queued\<rparr>,
                                work_text = text\<rparr>)))"

definition queue_take :: "queue \<Rightarrow> nat \<Rightarrow> world \<Rightarrow> bool \<Rightarrow> (queue \<times> work option) option" where
  "queue_take q0 now w compress =
     (let q = reconcile w q0;
          ready = ready_entries q now
      in case refresh_rotation ready (rotation q) of
           [] \<Rightarrow> Some (q\<lparr>rotation := []\<rparr>, None)
         | p # r \<Rightarrow>
             (case List.find (\<lambda>(_, _, x). x = p) ready of
                None \<Rightarrow> Some (q\<lparr>rotation := r\<rparr>, None)
              | Some (_, i, _) \<Rightarrow> serve (q\<lparr>rotation := r\<rparr>) now w compress p i))"

section \<open>Lists of commands\<close>

lemma delimiter_step_None: "delimiter_step st c = None \<Longrightarrow> c = 59"
  by (auto simp: delimiter_step_def split: prod.splits if_splits)

lemma command_end_le: "command_end st s \<le> length s"
  by (induction s arbitrary: st) (auto split: option.split)

lemma command_end_semicolon: "command_end st s < length s \<Longrightarrow> s ! command_end st s = 59"
  by (induction s arbitrary: st) (auto dest: delimiter_step_None split: option.splits)

lemma split_command_rest:
  "snd (split_command s c) = Some r \<Longrightarrow> length r < length s"
  by (auto simp: split_command_def Let_def split: if_splits)

lemma split_command_reassembles:
  "(case split_command s False of (t, Some r) \<Rightarrow> s = t @ 59 # r | (t, None) \<Rightarrow> s = t)"
proof -
  let ?e = "command_end (0, [], False) s"
  have "?e < length s \<Longrightarrow> s = take ?e s @ 59 # drop (?e + 1) s"
    using id_take_nth_drop [of ?e s] command_end_semicolon [of "(0, [], False)" s] by simp
  then show ?thesis using command_end_le [of "(0, [], False)" s] by (auto simp: split_command_def Let_def)
qed

section \<open>The invariant\<close>

definition text_total :: "(nat, entry) btree \<Rightarrow> nat" where
  "text_total es = sum_list (map (\<lambda>(_, e). length (entry_text e)) es)"

definition executors :: "(nat, entry) btree \<Rightarrow> object_id set" where
  "executors es = (\<lambda>(_, e). executor e) ` set es"

definition count_of :: "object_id \<Rightarrow> (nat, entry) btree \<Rightarrow> nat" where
  "count_of p es = length (filter (\<lambda>(_, e). executor e = p) es)"

text \<open>What holds even while the byte count and the rotation are being brought up to date.\<close>

definition queue_core :: "nat \<Rightarrow> queue \<Rightarrow> bool" where
  "queue_core limit q \<longleftrightarrow>
     bt_ok (entries q) \<and> (\<forall>k\<in>fst ` set (entries q). k \<le> queue_next q) \<and> queue_next q < 2 ^ 64
     \<and> text_total (entries q) \<le> MAX_QUEUE_BYTES \<and> distinct (rotation q)
     \<and> (\<forall>p. count_of p (entries q) \<le> limit)"

definition queue_ok :: "nat \<Rightarrow> queue \<Rightarrow> bool" where
  "queue_ok limit q \<longleftrightarrow>
     queue_core limit q \<and> queue_bytes q = text_total (entries q)
     \<and> set (rotation q) \<subseteq> executors (entries q)"

lemma executors_iff: "list_ex (\<lambda>(_, e). executor e = p) es \<longleftrightarrow> p \<in> executors es"
  by (force simp: executors_def list_ex_iff)

lemma recount_fields [simp]:
  "entries (recount q) = entries q" "queue_next (recount q) = queue_next q"
  "queue_bytes (recount q) = text_total (entries q)"
  "rotation (recount q) = filter (\<lambda>p. p \<in> executors (entries q)) (rotation q)"
  by (simp_all add: recount_def text_total_def executors_iff)

lemma recount_ok: "queue_core limit q \<Longrightarrow> queue_ok limit (recount q)"
  by (auto simp: queue_ok_def queue_core_def)

lemma text_total_filter: "text_total (filter P es) \<le> text_total es"
  unfolding text_total_def by (rule sum_list_filter_le)

lemma count_of_filter: "count_of p (filter P es) \<le> count_of p es"
  unfolding count_of_def by (rule count_filter_le)

lemma core_filter:
  assumes "queue_core limit q"
  shows "queue_core limit (q\<lparr>entries := filter P (entries q)\<rparr>)"
proof -
  have "text_total (filter P (entries q)) \<le> MAX_QUEUE_BYTES"
    using assms text_total_filter [of P "entries q"] by (simp add: queue_core_def)
  moreover have "count_of p (filter P (entries q)) \<le> limit" for p
    using assms count_of_filter [of p P "entries q"] le_trans unfolding queue_core_def by blast
  ultimately show ?thesis using assms by (auto simp: queue_core_def bt_ok_filter)
qed

lemma core_rotation: "queue_core limit q \<Longrightarrow> distinct r \<Longrightarrow> queue_core limit (q\<lparr>rotation := r\<rparr>)"
  by (simp add: queue_core_def)

lemma retain_entries_fields [simp]:
  "entries (retain_entries P q) = filter (\<lambda>(_, e). P e) (entries q)"
  by (simp add: retain_entries_def bt_retain_def)

lemma retain_entries_ok: "queue_core limit q \<Longrightarrow> queue_ok limit (retain_entries P q)"
  unfolding retain_entries_def bt_retain_def by (intro recount_ok core_filter)

lemma queue_ok_core: "queue_ok limit q \<Longrightarrow> queue_core limit q"
  by (simp add: queue_ok_def)

lemma cancel_ok: "queue_ok limit q \<Longrightarrow> queue_ok limit (fst (cancel t q))"
  by (simp add: cancel_def Let_def retain_entries_ok queue_ok_core)

lemma reconcile_ok: "queue_ok limit q \<Longrightarrow> queue_ok limit (reconcile w q)"
  by (simp add: reconcile_def retain_entries_ok queue_ok_core)

lemma count_bt_insert_new:
  "k \<notin> fst ` set es \<Longrightarrow> count_of p (bt_insert k e es) = (if executor e = p then 1 else 0) + count_of p es"
  by (induction k e es rule: bt_insert.induct) (auto simp: count_of_def)

lemma admit_ok:
  assumes "queue_ok limit q" and "queue_bytes q + length (entry_text e) \<le> MAX_QUEUE_BYTES"
    and "queue_next q + 1 < 2 ^ 64" and "executor_count (executor e) q < limit"
  shows "queue_ok limit (admit q e)"
proof -
  have keys: "\<forall>k\<in>fst ` set (entries q). k \<le> queue_next q" and bt: "bt_ok (entries q)"
    and rot: "set (rotation q) \<subseteq> executors (entries q)"
    using assms(1) by (auto simp: queue_ok_def queue_core_def)
  then have new: "queue_next q + 1 \<notin> fst ` set (entries q)" by force
  have total: "text_total (bt_insert (queue_next q + 1) e (entries q))
      = length (entry_text e) + text_total (entries q)"
    using sum_list_bt_insert_new [OF new, of "\<lambda>(_, e). length (entry_text e)" e]
    by (simp add: text_total_def)
  have "set (entries q) \<subseteq> set (bt_insert (queue_next q + 1) e (entries q))"
    using new bt by (auto simp: set_bt_insert image_iff)
  then have "set (rotation q) \<subseteq> executors (bt_insert (queue_next q + 1) e (entries q))"
    using rot unfolding executors_def by (meson image_mono order_trans)
  moreover have "count_of p (bt_insert (queue_next q + 1) e (entries q)) \<le> limit" for p
    using assms(1,4) count_bt_insert_new [OF new, of p e]
    by (auto simp: queue_ok_def queue_core_def executor_count_def count_of_def)
  moreover have "\<forall>k\<in>fst ` set (bt_insert (queue_next q + 1) e (entries q)). k \<le> queue_next q + 1"
    using keys by (auto simp: keys_bt_insert)
  ultimately show ?thesis
    using assms total by (simp add: admit_def queue_ok_def queue_core_def bt_ok_insert)
qed

lemma queue_apply_ok:
  assumes "queue_ok limit q" and "queue_apply cm q req w limit ll now = Inr (q', w', reply)"
  shows "queue_ok limit q'"
proof (cases req)
  case (Add p c s t)
  show ?thesis
    using assms Add cancel_ok [OF assms(1), of "Some p"]
    by (auto simp: queue_apply_def Let_def split: option.splits if_splits intro: admit_ok)
next
  case (Halt t)
  then show ?thesis
    using assms cancel_ok [OF assms(1), of t] by (auto simp: queue_apply_def split: prod.splits)
qed

section \<open>Taking work\<close>

lemma in_ready:
  "(d, i, p) \<in> set (ready_entries q now) \<longleftrightarrow>
     (\<exists>e. (i, e) \<in> set (entries q) \<and> due e = d \<and> executor e = p \<and> d \<le> now)"
  by (force simp: ready_entries_def)

lemma push_missing_set [simp]: "set (push_missing p r) = insert p (set r)"
  by (auto simp: push_missing_def)

lemma push_missing_prefix: "\<exists>s. push_missing p r = r @ s"
  by (simp add: push_missing_def)

lemma fold_push_prefix: "\<exists>s. fold (\<lambda>(_, _, p). push_missing p) ready r = r @ s"
proof (induction ready arbitrary: r)
  case (Cons x ready)
  obtain d i p where x: "x = (d, i, p)" by (cases x) auto
  obtain s where s: "push_missing p r = r @ s" using push_missing_prefix by blast
  obtain t where "fold (\<lambda>(_, _, p). push_missing p) ready (r @ s) = (r @ s) @ t" using Cons.IH by blast
  then show ?case using x s by simp
qed simp

lemma fold_push_set:
  "set (fold (\<lambda>(_, _, p). push_missing p) ready r) = set r \<union> (\<lambda>(_, _, p). p) ` set ready"
  by (induction ready arbitrary: r) (auto split: prod.splits)

lemma fold_push_distinct: "distinct r \<Longrightarrow> distinct (fold (\<lambda>(_, _, p). push_missing p) ready r)"
  by (induction ready arbitrary: r) (auto simp: push_missing_def split: prod.splits)

lemma refresh_set: "set (refresh_rotation ready r) = (\<lambda>(_, _, p). p) ` set ready"
  by (force simp: refresh_rotation_def fold_push_set list_ex_iff)

lemma refresh_distinct: "distinct r \<Longrightarrow> distinct (refresh_rotation ready r)"
  by (simp add: refresh_rotation_def fold_push_distinct)

lemma text_total_replace:
  assumes "bt_ok es" and "bt_get es i = Some e" and "length r \<le> length (entry_text e)"
  shows "text_total (bt_insert i (e\<lparr>entry_text := r\<rparr>) es) \<le> text_total es"
  using sum_list_bt_replace [OF assms(1,2), of "\<lambda>(_, e). length (entry_text e)" "e\<lparr>entry_text := r\<rparr>"]
    assms(3)
  by (simp add: text_total_def)

lemma count_of_sum:
  "count_of p es = sum_list (map (\<lambda>(_, e). if executor e = p then 1 else 0) es)"
  by (induction es) (auto simp: count_of_def)

lemma count_replace:
  assumes "bt_ok es" and "bt_get es i = Some e" and "executor e' = executor e"
  shows "count_of p (bt_insert i e' es) = count_of p es"
  using sum_list_bt_replace [OF assms(1,2), of "\<lambda>(_, e). if executor e = p then 1 else 0" e'] assms(3)
  by (simp add: count_of_sum)

lemma core_replace:
  assumes "queue_core limit q" and "bt_get (entries q) i = Some e" and "length r \<le> length (entry_text e)"
  shows "queue_core limit (q\<lparr>entries := bt_insert i (e\<lparr>entry_text := r\<rparr>) (entries q)\<rparr>)"
proof -
  have bt: "bt_ok (entries q)" using assms(1) by (simp add: queue_core_def)
  have "i \<in> fst ` set (entries q)" using assms(2) bt by (force simp: bt_get_in_set)
  then have "fst ` set (bt_insert i (e\<lparr>entry_text := r\<rparr>) (entries q)) = fst ` set (entries q)"
    by (auto simp: keys_bt_insert)
  moreover have "text_total (bt_insert i (e\<lparr>entry_text := r\<rparr>) (entries q)) \<le> MAX_QUEUE_BYTES"
    using text_total_replace [OF bt assms(2,3)] assms(1) by (simp add: queue_core_def)
  ultimately show ?thesis
    using assms(1) count_replace [OF bt assms(2), of "e\<lparr>entry_text := r\<rparr>"]
    by (simp add: queue_core_def bt_ok_insert)
qed

lemma serve_ok:
  assumes "queue_core limit q" and "serve q now w c p i = Some (q', r)" and "p \<notin> set (rotation q)"
  shows "queue_ok limit q'"
proof -
  obtain obj where obj: "object_at w p = Some obj"
    using assms(2) by (auto simp: serve_def split: option.splits)
  show ?thesis
  proof (cases "Going \<in> flags obj \<or> Halted \<in> flags obj")
    case True
    then show ?thesis
      using assms obj by (auto simp: serve_def bt_remove_def intro: recount_ok core_filter)
  next
    case False
    then obtain e where e: "bt_get (entries q) i = Some e"
      using assms(2) obj by (auto simp: serve_def split: option.splits)
    obtain t rest where sp: "split_command (entry_text e) c = (t, rest)" by fastforce
    let ?es = "case rest of Some r \<Rightarrow> bt_insert i (e\<lparr>entry_text := r\<rparr>) (entries q)
      | None \<Rightarrow> bt_remove i (entries q)"
    have "queue_core limit (q\<lparr>entries := ?es\<rparr>)"
    proof (cases rest)
      case None
      then show ?thesis using core_filter [OF assms(1)] by (simp add: bt_remove_def)
    next
      case (Some s)
      have "length s \<le> length (entry_text e)"
        using split_command_rest [of "entry_text e" c s] sp Some by simp
      then show ?thesis using core_replace [OF assms(1) e] Some by simp
    qed
    moreover have "distinct (rotation q @ [p])" using assms(1,3) by (simp add: queue_core_def)
    ultimately have "queue_core limit (q\<lparr>entries := ?es\<rparr>)"
        "queue_core limit (q\<lparr>entries := ?es, rotation := rotation q @ [p]\<rparr>)"
      by (simp_all add: queue_core_def)
    then show ?thesis
      using assms(2) obj False e sp
      by (auto simp: serve_def Let_def intro!: recount_ok split: if_splits)
  qed
qed

lemma find_sorted_least:
  "sorted xs \<Longrightarrow> List.find P xs = Some x \<Longrightarrow> y \<in> set xs \<Longrightarrow> P y \<Longrightarrow> x \<le> y"
  by (induction xs) (auto split: if_splits)

lemma core_get: "queue_core limit q \<Longrightarrow> (i, e) \<in> set (entries q) \<Longrightarrow> bt_get (entries q) i = Some e"
  by (simp add: queue_core_def bt_get_in_set)

definition turn_order :: "world \<Rightarrow> nat \<Rightarrow> queue \<Rightarrow> object_id list" where
  "turn_order w now q =
     refresh_rotation (ready_entries (reconcile w q) now) (rotation (reconcile w q))"

lemma entries_reconcile: "entries (reconcile w q) = filter (\<lambda>(_, e). live w e) (entries q)"
  by (simp add: reconcile_def)

lemma turn_order_set:
  "p \<in> set (turn_order w now q) \<longleftrightarrow>
     (\<exists>i e. (i, e) \<in> set (entries q) \<and> live w e \<and> due e \<le> now \<and> executor e = p)"
proof -
  have "p \<in> set (turn_order w now q) \<longleftrightarrow>
      (\<exists>d i. (d, i, p) \<in> set (ready_entries (reconcile w q) now))"
    unfolding turn_order_def refresh_set by force
  also have "\<dots> \<longleftrightarrow> (\<exists>i e. (i, e) \<in> set (entries q) \<and> live w e \<and> due e \<le> now \<and> executor e = p)"
    by (auto simp: in_ready entries_reconcile)
  finally show ?thesis .
qed

lemma turn_order_distinct: "queue_ok limit q \<Longrightarrow> distinct (turn_order w now q)"
  using reconcile_ok [of limit q w]
  by (simp add: turn_order_def refresh_distinct queue_ok_def queue_core_def)

text \<open>The list served in a turn: the earliest, then oldest, ready list of the first executor.\<close>

lemma take_turn:
  assumes "queue_ok limit q" and "turn_order w now q = p # r"
  obtains i e obj where
    "(i, e) \<in> set (entries q)" "live w e" "due e \<le> now" "executor e = p"
    "object_at w p = Some obj" "obj_kind obj \<noteq> Garbage" "generation obj = entry_generation e"
    "\<And>j x. (j, x) \<in> set (entries q) \<Longrightarrow> live w x \<Longrightarrow> due x \<le> now \<Longrightarrow> executor x = p \<Longrightarrow>
       (due e, i) \<le> (due x, j)"
    "bt_get (entries (reconcile w q)) i = Some e"
    "queue_take q now w c = serve ((reconcile w q)\<lparr>rotation := r\<rparr>) now w c p i"
proof -
  let ?q = "reconcile w q"
  let ?ready = "ready_entries ?q now"
  have "p \<in> set (turn_order w now q)" using assms(2) by simp
  then have "\<exists>x\<in>set ?ready. (\<lambda>(_, _, y). y = p) x" unfolding turn_order_def refresh_set by force
  then obtain t where find: "List.find (\<lambda>(_, _, y). y = p) ?ready = Some t"
    by (metis (no_types, lifting) find_None_iff not_Some_eq)
  obtain d i y where t: "t = (d, i, y)" by (cases t) auto
  have "t \<in> set ?ready" "y = p" using find_Some_iff_first [OF find] t by auto
  then obtain e where e: "(i, e) \<in> set (entries ?q)" "due e = d" "executor e = p" "d \<le> now"
    using t by (auto simp: in_ready)
  then have e': "(i, e) \<in> set (entries q)" "live w e" by (auto simp: entries_reconcile)
  then obtain obj where obj: "object_at w p = Some obj" "obj_kind obj \<noteq> Garbage"
      "generation obj = entry_generation e"
    using e(3) by (auto simp: live_def split: option.splits)
  have least: "(due e, i) \<le> (due x, j)"
    if x: "(j, x) \<in> set (entries q)" "live w x" "due x \<le> now" "executor x = p" for j x
  proof -
    have "(due x, j, p) \<in> set ?ready" using x by (auto simp: in_ready entries_reconcile)
    moreover have "sorted ?ready" by (simp add: ready_entries_def)
    ultimately have "(d, i, p) \<le> (due x, j, p)" using find_sorted_least [OF _ find] t \<open>y = p\<close> by blast
    then show ?thesis using e(2) by auto
  qed
  have get: "bt_get (entries ?q) i = Some e"
    using core_get [OF queue_ok_core [OF reconcile_ok [OF assms(1)]] e(1)] .
  have "queue_take q now w c = serve (?q\<lparr>rotation := r\<rparr>) now w c p i"
    using assms(2) find t by (simp add: queue_take_def turn_order_def Let_def)
  then show thesis using that e' e obj least get by blast
qed

lemma take_idle:
  "turn_order w now q = [] \<Longrightarrow> queue_take q now w c = Some ((reconcile w q)\<lparr>rotation := []\<rparr>, None)"
  by (simp add: queue_take_def turn_order_def Let_def)

lemma serve_total:
  assumes "object_at w p = Some obj" and "bt_get (entries q) i = Some e"
  shows "\<exists>q' r. serve q now w c p i = Some (q', r)"
  using assms by (auto simp: serve_def Let_def split: prod.splits)

lemma queue_take_ok:
  assumes "queue_ok limit q"
  shows "\<exists>q' r. queue_take q now w c = Some (q', r) \<and> queue_ok limit q'"
proof (cases "turn_order w now q")
  case Nil
  then show ?thesis
    using take_idle [OF Nil] reconcile_ok [OF assms, of w]
    by (auto simp: queue_ok_def queue_core_def)
next
  case (Cons p r)
  let ?q = "(reconcile w q)\<lparr>rotation := r\<rparr>"
  obtain i e obj where obj: "object_at w p = Some obj" and get: "bt_get (entries (reconcile w q)) i = Some e"
    and run: "queue_take q now w c = serve ?q now w c p i"
    using take_turn [OF assms Cons] by metis
  have dist: "distinct (p # r)" using turn_order_distinct [OF assms] Cons by metis
  then have core: "queue_core limit ?q"
    using core_rotation [OF queue_ok_core [OF reconcile_ok [OF assms]], of r] by simp
  obtain q' x where served: "serve ?q now w c p i = Some (q', x)"
    using serve_total [OF obj, where q = ?q and i = i and e = e and now = now and c = c] get by auto
  then show ?thesis using serve_ok [OF core served] dist run by auto
qed

section \<open>Fairness and progress\<close>

definition pos :: "'a \<Rightarrow> 'a list \<Rightarrow> nat" where
  "pos x xs = length (takeWhile (\<lambda>y. y \<noteq> x) xs)"

lemma pos_filter: "x \<in> set xs \<Longrightarrow> P x \<Longrightarrow> pos x (filter P xs) \<le> pos x xs"
  by (induction xs) (auto simp: pos_def)

lemma pos_append: "x \<in> set xs \<Longrightarrow> pos x (xs @ ys) = pos x xs"
  by (induction xs) (auto simp: pos_def)

lemma pos_Cons: "pos x (y # ys) = (if y = x then 0 else Suc (pos x ys))"
  by (auto simp: pos_def)

lemma serve_others:
  assumes "serve q now w c p i = Some (q', x)" and "queue_core limit q"
    and "bt_get (entries q) i = Some e" and "executor e = p"
    and "(j, y) \<in> set (entries q)" and "executor y \<noteq> p"
  shows "(j, y) \<in> set (entries q')"
proof -
  have bt: "bt_ok (entries q)" using assms(2) by (simp add: queue_core_def)
  have "j \<noteq> i" using assms(3-6) bt core_get [OF assms(2,5)] by auto
  then have "(j, y) \<in> set (bt_remove i (entries q))" "(j, y) \<in> set (bt_insert i v (entries q))" for v
    using assms(5) bt by (auto simp: bt_remove_def set_bt_insert)
  then show ?thesis
    using assms(1,3)
    by (auto simp: serve_def Let_def split: option.splits prod.splits if_splits)
qed

lemma serve_rotation:
  assumes "serve q now w c p i = Some (q', x)"
  shows "\<exists>ext. rotation q' = filter (\<lambda>s. s \<in> executors (entries q')) (rotation q @ ext)"
proof -
  have "\<exists>es ext. q' = recount (q\<lparr>entries := es, rotation := rotation q @ ext\<rparr>)"
  proof (cases "\<exists>es. q' = recount (q\<lparr>entries := es\<rparr>)")
    case True
    then obtain es where "q' = recount (q\<lparr>entries := es, rotation := rotation q @ []\<rparr>)" by auto
    then show ?thesis by blast
  next
    case False
    then show ?thesis
      using assms by (auto simp: serve_def Let_def split: option.splits prod.splits if_splits)
  qed
  then show ?thesis by auto
qed

text \<open>A waiting executor moves up at every turn it does not get.\<close>

lemma turn_moves_up:
  assumes ok: "queue_ok limit q" and order: "turn_order w now q = p # r" and s: "s \<in> set r"
    and run: "queue_take q now w c = Some (q', x)" and later: "now \<le> now'"
  shows "s \<in> set (turn_order w now' q') \<and> pos s (turn_order w now' q') \<le> pos s r"
proof -
  let ?q = "(reconcile w q)\<lparr>rotation := r\<rparr>"
  obtain i e where get: "bt_get (entries (reconcile w q)) i = Some e" and ep: "executor e = p"
    and serve: "serve ?q now w c p i = Some (q', x)"
    using take_turn [OF ok order, of c] run by metis
  have "distinct (p # r)" using turn_order_distinct [OF ok] order by metis
  then have ps: "p \<noteq> s" and dist: "distinct r" using s by auto
  have core: "queue_core limit ?q"
    using core_rotation [OF queue_ok_core [OF reconcile_ok [OF ok]] dist] .
  have "s \<in> set (turn_order w now q)" using order s by simp
  then obtain j y where y: "(j, y) \<in> set (entries q)" "live w y" "due y \<le> now" "executor y = s"
    by (auto simp: turn_order_set)
  have y': "(j, y) \<in> set (entries q')"
    using serve_others [OF serve core _ ep, of j y] get y ps by (auto simp: entries_reconcile)
  have member: "s \<in> set (turn_order w now' q')"
    using y y' later by (auto simp: turn_order_set intro: le_trans)
  obtain ext where rot: "rotation q' = filter (\<lambda>s. s \<in> executors (entries q')) (r @ ext)"
    using serve_rotation [OF serve] by auto
  have ex: "s \<in> executors (entries q')" "s \<in> executors (entries (reconcile w q'))"
    using y y' by (force simp: executors_def entries_reconcile)+
  have sq: "s \<in> set (rotation q')" using rot s ex by simp
  have p1: "pos s (rotation q') \<le> pos s r"
    unfolding rot using pos_filter [of s "r @ ext"] ex(1) s pos_append [of s r ext] by fastforce
  have rec: "rotation (reconcile w q') = filter (\<lambda>s. s \<in> executors (entries (reconcile w q'))) (rotation q')"
    by (simp add: reconcile_def retain_entries_def)
  then have sr: "s \<in> set (rotation (reconcile w q'))" and p2: "pos s (rotation (reconcile w q')) \<le> pos s (rotation q')"
    using sq ex(2) pos_filter [OF sq, of "\<lambda>s. s \<in> executors (entries (reconcile w q'))"] by simp_all
  obtain t where t: "fold (\<lambda>(_, _, p). push_missing p) (ready_entries (reconcile w q') now')
      (rotation (reconcile w q')) = rotation (reconcile w q') @ t" using fold_push_prefix by blast
  have "pos s (turn_order w now' q') \<le> pos s (rotation (reconcile w q') @ t)"
    using member sr unfolding turn_order_def refresh_rotation_def t
    by (intro pos_filter) auto
  then show ?thesis using member p1 p2 pos_append [OF sr, of t] by simp
qed

text \<open>The executors whose turns come at a sequence of instants, in an unchanged world.\<close>

fun turns :: "world \<Rightarrow> bool \<Rightarrow> queue \<Rightarrow> nat list \<Rightarrow> object_id list" where
  "turns w c q [] = []"
| "turns w c q (t # ts) =
     (case turn_order w t q of
        [] \<Rightarrow> []
      | p # _ \<Rightarrow> p # (case queue_take q t w c of None \<Rightarrow> [] | Some (q', _) \<Rightarrow> turns w c q' ts))"

lemma turns_fair:
  assumes "queue_ok limit q" and "sorted (t # ts)" and "s \<in> set (turn_order w t q)"
    and "pos s (turn_order w t q) \<le> n" and "n \<le> length ts"
  shows "s \<in> set (take (Suc n) (turns w c q (t # ts)))"
  using assms
proof (induction n arbitrary: q t ts)
  case 0
  then show ?case by (cases "turn_order w t q") (auto simp: pos_Cons split: if_splits)
next
  case (Suc n)
  obtain p r where order: "turn_order w t q = p # r" using Suc.prems(3) by (cases "turn_order w t q") auto
  obtain q' x where run: "queue_take q t w c = Some (q', x)" and ok: "queue_ok limit q'"
    using queue_take_ok [OF Suc.prems(1), of t w c] by blast
  obtain t' ts' where ts: "ts = t' # ts'" using Suc.prems(5) by (cases ts) auto
  show ?case
  proof (cases "p = s")
    case True
    then show ?thesis using order by simp
  next
    case False
    then have s: "s \<in> set r" "pos s r \<le> n" using Suc.prems(3,4) order by (auto simp: pos_Cons)
    have "s \<in> set (turn_order w t' q')" "pos s (turn_order w t' q') \<le> n"
      using turn_moves_up [OF Suc.prems(1) order s(1) run, of t'] Suc.prems(2) ts s(2) by auto
    then have "s \<in> set (take (Suc n) (turns w c q' ts))"
      using Suc.IH [OF ok, of t' ts'] Suc.prems(2,5) ts by simp
    then show ?thesis using order run by simp
  qed
qed

text \<open>What is left to run: every byte and every list counts.\<close>

definition work_left :: "queue \<Rightarrow> nat" where
  "work_left q = sum_list (map (\<lambda>(_, e). Suc (length (entry_text e))) (entries q))"

lemma serve_progress:
  assumes "serve q now w c p i = Some (q', x)" and "bt_ok (entries q)" and "bt_get (entries q) i = Some e"
  shows "work_left q' < work_left q"
proof -
  let ?f = "\<lambda>(_ :: nat, e). Suc (length (entry_text e))"
  have removed: "sum_list (map ?f (bt_remove i (entries q))) < work_left q"
    using sum_list_bt_remove [OF assms(2,3), of ?f] by (simp add: work_left_def)
  have replaced: "sum_list (map ?f (bt_insert i (e\<lparr>entry_text := r\<rparr>) (entries q))) < work_left q"
    if "length r < length (entry_text e)" for r
    using sum_list_bt_replace [OF assms(2,3), of ?f "e\<lparr>entry_text := r\<rparr>"] that by (simp add: work_left_def)
  have rest: "split_command (entry_text e) c = (t, Some r) \<Longrightarrow> length r < length (entry_text e)" for t r
    using split_command_rest [of "entry_text e" c r] by simp
  show ?thesis
    using assms(1,3) removed replaced rest
    by (auto simp: serve_def Let_def work_left_def split: option.splits prod.splits if_splits)
qed

lemma take_progress:
  assumes "queue_ok limit q" and "turn_order w now q \<noteq> []" and "queue_take q now w c = Some (q', x)"
  shows "work_left q' < work_left q"
proof -
  obtain p r where order: "turn_order w now q = p # r" using assms(2) by (cases "turn_order w now q") auto
  let ?q = "(reconcile w q)\<lparr>rotation := r\<rparr>"
  obtain i e where get: "bt_get (entries (reconcile w q)) i = Some e"
    and serve: "serve ?q now w c p i = Some (q', x)"
    using take_turn [OF assms(1) order, of c] assms(3) by metis
  have "bt_ok (entries ?q)"
    using reconcile_ok [OF assms(1), of w] by (simp add: queue_ok_def queue_core_def)
  then have "work_left q' < work_left ?q" using serve_progress [OF serve] get by simp
  also have "work_left ?q \<le> work_left q"
    unfolding work_left_def by (simp add: entries_reconcile sum_list_filter_le)
  finally show ?thesis .
qed

section \<open>Properties\<close>

text \<open>A player's list queued in the sample world.\<close>

definition sample_entry :: entry where
  "sample_entry = \<lparr>executor = 1, entry_generation = 1, cause = 1, due = 5, entry_text = [97, 59, 98]\<rparr>"

definition sample_queue :: queue where
  "sample_queue = \<lparr>entries = [(1, sample_entry)], rotation = [], queue_next = 1, queue_bytes = 3\<rparr>"

lemma sample_queue_ok: "queue_ok 1 sample_queue"
  by (simp add: queue_ok_def queue_core_def sample_queue_def sample_entry_def bt_ok_def text_total_def
      count_of_def MAX_QUEUE_BYTES_def)

lemma sample_turn: "turn_order sample_world 9 sample_queue = [1]"
  by (simp add: turn_order_def reconcile_def retain_entries_def bt_retain_def recount_def live_def
      sample_queue_def sample_entry_def sample_simps ready_entries_def refresh_rotation_def
      push_missing_def)

text \<open>
  C16. The queue keeps its accounts whatever is asked of it: requests accepted for a given limit,
  cancellations, reconciliation with the world and turns all preserve that the byte count is the
  exact total of the retained text and at most 16 MiB, that no executor has more lists than the
  limit, that sequence numbers are in order and below \<open>u64\<close>'s range, and that the rotation names
  each executor with work at most once. Taking work never panics.
\<close>

theorem queue_accounts:
  assumes "queue_ok limit q"
  shows "(queue_apply cm q req w limit ll now = Inr (q1, w1, reply) \<longrightarrow> queue_ok limit q1)
       \<and> queue_ok limit (fst (cancel target q)) \<and> queue_ok limit (reconcile w q)
       \<and> (\<exists>q2 r. queue_take q now w c = Some (q2, r) \<and> queue_ok limit q2)"
  using queue_apply_ok [OF assms] cancel_ok [OF assms] reconcile_ok [OF assms] queue_take_ok [OF assms]
  by blast

theorem queue_accounts_witness:
  "queue_ok 1 (fst (cancel (Some 1) sample_queue))
   \<and> (\<exists>q2 r. queue_take sample_queue 9 sample_world True = Some (q2, r) \<and> queue_ok 1 q2)"
  using queue_accounts [OF sample_queue_ok] by blast

text \<open>
  C25. Work that is handed out is entitled to run: it is the first command of a list that is due, the
  earliest and then oldest due list of its executor; the executor still exists in the incarnation
  that queued it and is neither garbage, GOING nor HALTED; and it runs under the executor's own
  identity with no session.
\<close>

theorem work_entitled:
  assumes "queue_ok limit q" and "queue_take q now w c = Some (q', Some wk)"
  shows "\<exists>i e obj. (i, e) \<in> set (entries q) \<and> due e \<le> now
       \<and> work_text wk = fst (split_command (entry_text e) c)
       \<and> execution wk = \<lparr>ctx_executor = executor e, ctx_cause = cause e, ctx_session = None,
                         ctx_origin = Queued\<rparr>
       \<and> object_at w (executor e) = Some obj \<and> generation obj = entry_generation e
       \<and> obj_kind obj \<noteq> Garbage \<and> Going \<notin> flags obj \<and> Halted \<notin> flags obj
       \<and> (\<forall>j x. (j, x) \<in> set (entries q) \<and> live w x \<and> due x \<le> now \<and> executor x = executor e
             \<longrightarrow> (due e, i) \<le> (due x, j))"
proof -
  have "turn_order w now q \<noteq> []" using assms(2) take_idle [of w now q c] by auto
  then obtain p r where order: "turn_order w now q = p # r" by (cases "turn_order w now q") auto
  obtain i e obj where e: "(i, e) \<in> set (entries q)" "due e \<le> now" "executor e = p"
      and obj: "object_at w p = Some obj" "obj_kind obj \<noteq> Garbage" "generation obj = entry_generation e"
      and least: "\<And>j x. (j, x) \<in> set (entries q) \<Longrightarrow> live w x \<Longrightarrow> due x \<le> now \<Longrightarrow> executor x = p \<Longrightarrow>
         (due e, i) \<le> (due x, j)"
      and get: "bt_get (entries (reconcile w q)) i = Some e"
      and run: "queue_take q now w c = serve ((reconcile w q)\<lparr>rotation := r\<rparr>) now w c p i"
    using take_turn [OF assms(1) order, of c] by metis
  have "Going \<notin> flags obj \<and> Halted \<notin> flags obj
      \<and> work_text wk = fst (split_command (entry_text e) c)
      \<and> execution wk = \<lparr>ctx_executor = executor e, ctx_cause = cause e, ctx_session = None,
                        ctx_origin = Queued\<rparr>"
    using assms(2) run obj get by (auto simp: serve_def Let_def split: prod.splits if_splits)
  then show ?thesis using e obj least by blast
qed

theorem work_entitled_witness:
  "\<exists>q' wk i e. queue_take sample_queue 9 sample_world False = Some (q', Some wk)
     \<and> (i, e) \<in> set (entries sample_queue) \<and> due e \<le> 9"
proof -
  have "\<exists>q' wk. queue_take sample_queue 9 sample_world False = Some (q', Some wk)"
    by (simp add: queue_take_def Let_def reconcile_def retain_entries_def bt_retain_def recount_def
        live_def sample_queue_def sample_entry_def sample_simps ready_entries_def refresh_rotation_def
        push_missing_def serve_def split_command_def delimiter_step_def)
  then obtain q' wk where run: "queue_take sample_queue 9 sample_world False = Some (q', Some wk)"
    by blast
  show ?thesis using run work_entitled [OF sample_queue_ok run] by blast
qed

text \<open>
  C24. Rotation is fair: in a world that does not change meanwhile, an executor with a due list gets
  its turn after at most as many turns as there are executors ahead of it, however many lists they
  hold.
\<close>

theorem rotation_fair:
  assumes "queue_ok limit q" and "sorted (t # ts)" and "s \<in> set (turn_order w t q)"
    and "pos s (turn_order w t q) \<le> length ts"
  shows "s \<in> set (take (Suc (pos s (turn_order w t q))) (turns w c q (t # ts)))"
  using turns_fair [OF assms(1-3) order_refl assms(4)] .

theorem rotation_fair_witness:
  "1 \<in> set (take (Suc (pos 1 (turn_order sample_world 9 sample_queue)))
     (turns sample_world True sample_queue [9]))"
  by (rule rotation_fair [OF sample_queue_ok]) (simp_all add: sample_turn pos_def)

text \<open>
  Every turn makes progress: when some live list is due, a turn strictly lowers the number of
  retained bytes plus retained lists, so a queue that receives nothing new is drained in finitely
  many turns.
\<close>

lemma turn_progress:
  assumes "queue_ok limit q" and "(i, e) \<in> set (entries q)" and "live w e" and "due e \<le> now"
  shows "\<exists>q' r. queue_take q now w c = Some (q', r) \<and> work_left q' < work_left q"
proof -
  have "executor e \<in> set (turn_order w now q)" using assms(2-4) by (auto simp: turn_order_set)
  then have "turn_order w now q \<noteq> []" by auto
  then show ?thesis using queue_take_ok [OF assms(1), of now w c] take_progress [OF assms(1)] by blast
qed

text \<open>
  Splitting a list loses nothing: the first command and the rest, joined by one semicolon, are
  the list; without a rest the command is the whole list; and the rest is strictly shorter whether
  or not spaces are compressed.
\<close>

lemma split_command_lossless:
  "(case split_command s False of (t, Some r) \<Rightarrow> s = t @ 59 # r | (t, None) \<Rightarrow> s = t)
   \<and> (snd (split_command s c) = Some r \<longrightarrow> length r < length s)"
  using split_command_reassembles [of s] split_command_rest [of s c r] by simp

end
