(* ===== verification/Seeded_Rng.thy ===== *)
theory Seeded_Rng
  imports Rust_Str
begin

text \<open>
  \<open>crates/seeded-rng/src/lib.rs\<close>: the pinned SplitMix64 generator of the seeded generators. 64-bit
  values are words, whose arithmetic wraps as \<open>wrapping_add\<close> and \<open>wrapping_mul\<close> do. \<open>i32\<close> values are
  32-bit words read as signed numbers; the addition in \<open>between\<close> is the two's complement addition
  of a release build.
\<close>

unbundle bit_operations_syntax

section \<open>Definitions\<close>

type_synonym i32 = "32 word"

definition mix :: "u64 \<Rightarrow> u64" where
  "mix v0 =
     (let v1 = v0 + 0x9e3779b97f4a7c15;
          v2 = (v1 XOR drop_bit 30 v1) * 0xbf58476d1ce4e5b9;
          v3 = (v2 XOR drop_bit 27 v2) * 0x94d049bb133111eb
      in v3 XOR drop_bit 31 v3)"

definition label_hash :: "bytes \<Rightarrow> u64" where
  "label_hash label =
     fold (\<lambda>b hash. (hash XOR ucast b) * 0x100000001b3) label 0xcbf29ce484222325"

record rng = rng_state :: u64

definition rng_stream :: "u64 \<Rightarrow> bytes \<Rightarrow> rng" where
  "rng_stream seed label = \<lparr>rng_state = mix (seed XOR label_hash label)\<rparr>"

definition next_u64 :: "rng \<Rightarrow> u64 \<times> rng" where
  "next_u64 r =
     (let s = rng_state r + 0x9e3779b97f4a7c15 in (mix s, r\<lparr>rng_state := s\<rparr>))"

definition between :: "rng \<Rightarrow> i32 \<Rightarrow> i32 \<Rightarrow> i32 \<times> rng" where
  "between r low high =
     (if high \<le>s low then (low, r)
      else
        (let span = word_of_int (sint high - sint low + 1) :: u64; (x, r') = next_u64 r
         in (low + ucast (x mod span), r')))"

text \<open>\<open>None\<close> is the panic of a remainder by zero.\<close>

definition rng_index :: "rng \<Rightarrow> nat \<Rightarrow> (nat \<times> rng) option" where
  "rng_index r len =
     (if len = 0 then None else (let (x, r') = next_u64 r in Some (unat x mod len, r')))"

definition pick :: "rng \<Rightarrow> 'a list \<Rightarrow> ('a \<times> rng) option" where
  "pick r items = map_option (\<lambda>(i, r'). (items ! i, r')) (rng_index r (length items))"

text \<open>The loop of \<open>pick_weighted\<close>; \<open>None\<close> is \<open>unreachable!\<close>.\<close>

fun pick_roll :: "('a \<Rightarrow> nat) \<Rightarrow> 'a list \<Rightarrow> nat \<Rightarrow> 'a option" where
  "pick_roll weight [] roll = None"
| "pick_roll weight (x # xs) roll =
     (if roll < weight x then Some x else pick_roll weight xs (roll - weight x))"

text \<open>\<open>None\<close> is the failed assertion on the total weight; the weights are \<open>u32\<close> values.\<close>

definition pick_weighted :: "rng \<Rightarrow> 'a list \<Rightarrow> ('a \<Rightarrow> nat) \<Rightarrow> ('a option \<times> rng) option" where
  "pick_weighted r items weight =
     (let total = sum_list (map weight items)
      in if total = 0 then None
         else (let (x, r') = next_u64 r in Some (pick_roll weight items (unat x mod total), r')))"

section \<open>The finalizer is a bijection\<close>

text \<open>
  Each of its steps has an inverse: an addition, a right shift folded in by exclusive or, and a
  multiplication by an odd constant, whose inverse modulo \<open>2 ^ 64\<close> is given.
\<close>

lemma shift_inverse:
  fixes x y :: u64
  assumes "64 \<le> 3 * k" and "x XOR drop_bit k x = y"
  shows "x = y XOR (drop_bit k y XOR drop_bit (2 * k) y)"
proof (rule bit_eqI)
  fix n
  have y: "bit y m \<longleftrightarrow> bit x m \<noteq> bit x (m + k)" for m
    using assms(2) by (auto simp: bit_xor_iff bit_drop_bit_eq add.commute)
  have "\<not> bit x (n + 2 * k + k)"
    using bit_imp_le_length [of x "n + 2 * k + k"] assms(1) by (auto simp: not_less)
  then show "bit x n \<longleftrightarrow> bit (y XOR (drop_bit k y XOR drop_bit (2 * k) y)) n"
    by (auto simp: bit_xor_iff bit_drop_bit_eq y ac_simps)
      (simp_all add: numeral_2_eq_2 ac_simps)
qed

lemma shift_inj:
  fixes x x' :: u64
  assumes "64 \<le> 3 * k" and "x XOR drop_bit k x = x' XOR drop_bit k x'"
  shows "x = x'"
  using shift_inverse [OF assms(1) refl, of x] shift_inverse [OF assms(1) refl, of x'] assms(2) by simp

lemma odd_mult_inj:
  fixes x y c d :: "'a::len word"
  assumes "c * d = 1" and "x * c = y * c"
  shows "x = y"
proof -
  have "x * c * d = y * c * d" using assms(2) by simp
  then show ?thesis by (simp add: mult.assoc assms(1))
qed

lemma mix_inj: "mix v = mix w \<Longrightarrow> v = w"
proof -
  assume eq: "mix v = mix w"
  define a where "a x = x + (0x9e3779b97f4a7c15 :: u64)" for x
  define b where "b x = (x XOR drop_bit 30 x) * (0xbf58476d1ce4e5b9 :: u64)" for x
  define c where "c x = (x XOR drop_bit 27 x) * (0x94d049bb133111eb :: u64)" for x
  have mix: "mix x = c (b (a x)) XOR drop_bit 31 (c (b (a x)))" for x
    unfolding mix_def a_def b_def c_def Let_def by (rule refl)
  from eq have "c (b (a v)) = c (b (a w))" unfolding mix by (rule shift_inj [rotated]) simp
  then have "b (a v) XOR drop_bit 27 (b (a v)) = b (a w) XOR drop_bit 27 (b (a w))"
    unfolding c_def by (rule odd_mult_inj [rotated, where d = "0x319642b2d24d8ec3"]) simp
  then have "b (a v) = b (a w)" by (rule shift_inj [rotated]) simp
  then have "a v XOR drop_bit 30 (a v) = a w XOR drop_bit 30 (a w)"
    unfolding b_def by (rule odd_mult_inj [rotated, where d = "0x96de1b173f119089"]) simp
  then have "a v = a w" by (rule shift_inj [rotated]) simp
  then show "v = w" by (simp add: a_def)
qed

section \<open>Streams\<close>

text \<open>The \<open>n\<close>-th draw and the generator after \<open>n\<close> draws.\<close>

fun rng_after :: "nat \<Rightarrow> rng \<Rightarrow> rng" where
  "rng_after 0 r = r"
| "rng_after (Suc n) r = rng_after n (snd (next_u64 r))"

definition draw :: "nat \<Rightarrow> rng \<Rightarrow> u64" where
  "draw n r = fst (next_u64 (rng_after n r))"

lemma rng_after_state: "rng_state (rng_after n r) = rng_state r + of_nat n * 0x9e3779b97f4a7c15"
  by (induction n arbitrary: r) (simp_all add: next_u64_def Let_def algebra_simps)

lemma draw_eq: "draw n r = mix (rng_state r + of_nat (Suc n) * 0x9e3779b97f4a7c15)"
  by (simp add: draw_def next_u64_def Let_def rng_after_state algebra_simps)

lemma of_nat_u64_inj: "m < 2 ^ 64 \<Longrightarrow> n < 2 ^ 64 \<Longrightarrow> (of_nat m :: u64) = of_nat n \<Longrightarrow> m = n"
proof -
  assume m: "m < 2 ^ 64" and n: "n < 2 ^ 64" and eq: "(of_nat m :: u64) = of_nat n"
  have "m = unat (of_nat m :: u64)" using m by (simp add: unat_of_nat)
  also have "\<dots> = unat (of_nat n :: u64)" using eq by simp
  also have "\<dots> = n" using n by (simp add: unat_of_nat)
  finally show "m = n" .
qed

lemma draw_inj:
  assumes "m < 2 ^ 64" and "n < 2 ^ 64" and "draw m r = draw n r"
  shows "m = n"
proof -
  have "(of_nat (Suc m) :: u64) * 0x9e3779b97f4a7c15 = of_nat (Suc n) * 0x9e3779b97f4a7c15"
    using mix_inj [of "rng_state r + of_nat (Suc m) * 0x9e3779b97f4a7c15"
        "rng_state r + of_nat (Suc n) * 0x9e3779b97f4a7c15"] assms(3) by (simp add: draw_eq)
  then have "(of_nat (Suc m) :: u64) = of_nat (Suc n)"
    by (rule odd_mult_inj [rotated, where d = "0xf1de83e19937733d"]) simp
  then have "(of_nat m :: u64) = of_nat n" by simp
  then show ?thesis using of_nat_u64_inj [OF assms(1,2)] by simp
qed

section \<open>Ranges and weights\<close>

lemma pick_roll_Some:
  "roll < sum_list (map weight xs) \<Longrightarrow> \<exists>x\<in>set xs. pick_roll weight xs roll = Some x \<and> 0 < weight x"
  by (induction weight xs roll rule: pick_roll.induct) auto

lemma pick_roll_nth:
  assumes "i < length xs" and "k < weight (xs ! i)"
  shows "pick_roll weight xs (sum_list (map weight (take i xs)) + k) = Some (xs ! i)"
  using assms
proof (induction xs arbitrary: i)
  case (Cons x xs)
  then show ?case by (cases i) auto
qed simp

text \<open>The numbers of rolls below the total that choose an item: one block per position.\<close>

lemma pick_roll_count:
  "card {roll. roll < sum_list (map weight xs) \<and> pick_roll weight xs roll = Some x}
   = sum_list (map weight (filter (\<lambda>y. y = x) xs))"
proof (induction xs)
  case (Cons y ys)
  let ?R = "\<lambda>zs. {roll. roll < sum_list (map weight zs) \<and> pick_roll weight zs roll = Some x}"
  have split: "?R (y # ys) = {roll. roll < weight y \<and> y = x} \<union> (+) (weight y) ` ?R ys"
  proof (intro set_eqI iffI)
    fix r assume r: "r \<in> ?R (y # ys)"
    show "r \<in> {roll. roll < weight y \<and> y = x} \<union> (+) (weight y) ` ?R ys"
    proof (cases "r < weight y")
      case False
      then have "r = weight y + (r - weight y)" "r - weight y \<in> ?R ys" using r by auto
      then show ?thesis by blast
    qed (use r in auto)
  qed auto
  have "finite (?R ys)" by simp
  then have "card (?R (y # ys)) = card {roll. roll < weight y \<and> y = x} + card ((+) (weight y) ` ?R ys)"
    unfolding split by (intro card_Un_disjoint) auto
  also have "card ((+) (weight y) ` ?R ys) = card (?R ys)" by (intro card_image) simp
  also have "card {roll. roll < weight y \<and> y = x} = (if y = x then weight y else 0)" by simp
  finally show ?case using Cons.IH by simp
qed simp

lemma sint_i32: "- (2 ^ 31) \<le> sint x \<and> sint x < 2 ^ 31" for x :: i32
  using sint_ge [of x] sint_lt [of x] by simp

lemma sint_word_of_int_i32: "- (2 ^ 31) \<le> z \<Longrightarrow> z < 2 ^ 31 \<Longrightarrow> sint (word_of_int z :: i32) = z"
  by (simp add: sint_sbintrunc' signed_take_bit_int_eq_self)

lemma uint_word_of_int_u64: "0 \<le> z \<Longrightarrow> z < 2 ^ 64 \<Longrightarrow> uint (word_of_int z :: u64) = z"
  by (simp add: uint_word_of_int_eq take_bit_int_eq_self)

lemma sint_add_in_range:
  fixes low :: i32 and w :: u64
  assumes "sint low + uint w < 2 ^ 31"
  shows "sint (low + ucast w) = sint low + uint w"
proof -
  have eq: "low + ucast w = word_of_int (sint low + uint w)"
    by (metis scast_eq scast_id ucast_eq wi_hom_add)
  have "- (2 ^ 31) \<le> sint low + uint w" using sint_i32 [of low] uint_ge_0 [of w] by linarith
  then show ?thesis unfolding eq using assms by (rule sint_word_of_int_i32)
qed

lemma between_exact:
  assumes "sint low < sint high"
  shows "\<exists>k. k \<le> sint high - sint low \<and> 0 \<le> k \<and> sint (fst (between r low high)) = sint low + k
     \<and> k = uint (fst (next_u64 r)) mod (sint high - sint low + 1)"
proof -
  let ?span = "sint high - sint low + 1"
  let ?x = "fst (next_u64 r)"
  have span: "0 < ?span" "?span < 2 ^ 64" using assms sint_i32 [of low] sint_i32 [of high] by auto
  have su: "uint (word_of_int ?span :: u64) = ?span"
    using span by (intro uint_word_of_int_u64) linarith+
  have k: "uint (?x mod word_of_int ?span) = uint ?x mod ?span"
    unfolding uint_mod su by (rule refl)
  have "uint ?x mod ?span < ?span" "0 \<le> uint ?x mod ?span"
    using span(1) by (rule pos_mod_bound, rule pos_mod_sign)
  moreover have "fst (between r low high) = low + ucast (?x mod word_of_int ?span)"
    using assms by (simp add: between_def word_sle_eq split_beta Let_def)
  moreover have "sint low + uint (?x mod word_of_int ?span) < 2 ^ 31"
    unfolding k using \<open>uint ?x mod ?span < ?span\<close> sint_i32 [of high] by linarith
  ultimately show ?thesis using sint_add_in_range [of low "?x mod word_of_int ?span"] k by auto
qed

section \<open>Properties\<close>

text \<open>
  The generator never repeats itself early: the finalizer loses no information, so the first
  \<open>2 ^ 64\<close> draws of any stream are pairwise different.
\<close>

lemma draws_distinct:
  assumes "m < 2 ^ 64" and "n < 2 ^ 64"
  shows "draw m (rng_stream seed label) = draw n (rng_stream seed label) \<longleftrightarrow> m = n"
  using draw_inj [OF assms] by blast

text \<open>
  Choices are what they promise: an integer between two bounds lies between them for every pair
  of \<open>i32\<close> bounds, also when their span exceeds \<open>i32\<close>'s range, an index is below the length, and
  of the rolls below the total weight exactly as many choose an item as its weight (summed over its
  occurrences), so an item of weight zero is never chosen and the loop never falls through.
\<close>

lemma choices_exact:
  "(sint low < sint high \<longrightarrow>
      sint low \<le> sint (fst (between r low high)) \<and> sint (fst (between r low high)) \<le> sint high)
   \<and> (0 < len \<longrightarrow> (\<exists>i r'. rng_index r len = Some (i, r') \<and> i < len))
   \<and> card {roll. roll < sum_list (map weight xs) \<and> pick_roll weight xs roll = Some x}
      = sum_list (map weight (filter (\<lambda>y. y = x) xs))
   \<and> (0 < sum_list (map weight xs) \<longrightarrow>
        (\<exists>y r'. pick_weighted r xs weight = Some (Some y, r') \<and> y \<in> set xs \<and> 0 < weight y))"
proof -
  have "sint low < sint high \<Longrightarrow>
      sint low \<le> sint (fst (between r low high)) \<and> sint (fst (between r low high)) \<le> sint high"
    using between_exact [of low high r] by auto
  moreover have "0 < len \<Longrightarrow> \<exists>i r'. rng_index r len = Some (i, r') \<and> i < len"
    by (simp add: rng_index_def split_beta)
  moreover have "\<exists>y r'. pick_weighted r xs weight = Some (Some y, r') \<and> y \<in> set xs \<and> 0 < weight y"
    if "0 < sum_list (map weight xs)"
  proof -
    let ?roll = "unat (fst (next_u64 r)) mod sum_list (map weight xs)"
    have "?roll < sum_list (map weight xs)" using that by simp
    from pick_roll_Some [OF this] obtain y where "y \<in> set xs" "pick_roll weight xs ?roll = Some y" "0 < weight y"
      by blast
    then show ?thesis using that by (auto simp: pick_weighted_def split_beta Let_def)
  qed
  ultimately show ?thesis using pick_roll_count [of weight xs x] by blast
qed

end
