(* ===== verification/Cron.thy ===== *)
theory Cron
  imports Rust_Str
begin

text \<open>
  \<open>src/lua/schedules/cron.rs\<close>: the five-field UTC cron grammar, compiled into 64-bit field masks.
  The calendar is the \<open>chrono\<close> crate's: a function from Unix timestamps to date fields is an
  argument of \<open>cron_matches\<close>.
\<close>

unbundle bit_operations_syntax

section \<open>Definitions\<close>

definition EXPRESSION_LIMIT :: nat where "EXPRESSION_LIMIT = 256"

datatype cron_error =
    ExpectedDecimal | NumberOverflow | StepNotPositive | RangeOutside nat nat
  | ExpressionTooLong | RequiresFiveFields | CronField nat cron_error

definition number :: "bytes \<Rightarrow> (cron_error, nat) result" where
  "number source =
     ensure_then (source \<noteq> [] \<and> list_all is_ascii_digit source) ExpectedDecimal
       (ensure_then (decimal source < 2 ^ 64) NumberOverflow
         (ensure_then (decimal source \<le> 2 ^ 63 - 1) NumberOverflow (Inr (decimal source))))"

record field =
  mask :: u64
  wildcard :: bool

text \<open>One element of a list: first and last value and step.\<close>

definition field_range :: "bytes \<Rightarrow> nat \<Rightarrow> nat \<Rightarrow> (cron_error, nat \<times> nat) result" where
  "field_range text minimum maximum =
     (if text = [42] then Inr (minimum, maximum)
      else
        (case split_once 45 text of
           Some (a, b) \<Rightarrow> bind_result (number a) (\<lambda>x. bind_result (number b) (\<lambda>y. Inr (x, y)))
         | None \<Rightarrow> bind_result (number text) (\<lambda>x. Inr (x, x))))"

definition field_part :: "bytes \<Rightarrow> nat \<Rightarrow> nat \<Rightarrow> (cron_error, nat \<times> nat \<times> nat) result" where
  "field_part part minimum maximum =
     bind_result
       (case split_once 47 part of
          Some (text, step) \<Rightarrow> bind_result (number step) (\<lambda>k. Inr (text, k))
        | None \<Rightarrow> Inr (part, 1))
       (\<lambda>(text, step).
          ensure_then (0 < step) StepNotPositive
            (bind_result (field_range text minimum maximum)
               (\<lambda>(a, b).
                  ensure_then (minimum \<le> a \<and> b \<le> maximum \<and> a \<le> b)
                    (RangeOutside minimum maximum) (Inr (a, b, step)))))"

definition add_range :: "nat \<times> nat \<times> nat \<Rightarrow> u64 \<Rightarrow> u64" where
  "add_range r m =
     (case r of (a, b, step) \<Rightarrow>
        fold (\<lambda>v m. if (v - a) mod step = 0 then m OR push_bit v 1 else m) [a..<Suc b] m)"

fun field_parts :: "bytes list \<Rightarrow> nat \<Rightarrow> nat \<Rightarrow> u64 \<Rightarrow> (cron_error, u64) result" where
  "field_parts [] minimum maximum m = Inr m"
| "field_parts (p # ps) minimum maximum m =
     bind_result (field_part p minimum maximum) (\<lambda>r. field_parts ps minimum maximum (add_range r m))"

definition field_parse :: "bytes \<Rightarrow> nat \<Rightarrow> nat \<Rightarrow> (cron_error, field) result" where
  "field_parse source minimum maximum =
     bind_result (field_parts (split_on 44 source) minimum maximum 0)
       (\<lambda>m. Inr \<lparr>mask = m, wildcard = (source = [42])\<rparr>)"

definition field_matches :: "field \<Rightarrow> nat \<Rightarrow> bool" where
  "field_matches f v \<longleftrightarrow> mask f AND push_bit v 1 \<noteq> 0"

record cron =
  cron_source :: bytes
  cron_fields :: "field list"

definition cron_ranges :: "(nat \<times> nat) list" where
  "cron_ranges = [(0, 59), (0, 23), (1, 31), (1, 12), (0, 6)]"

text \<open>Both separators split, as one pattern.\<close>

fun split_blank :: "bytes \<Rightarrow> bytes list" where
  "split_blank [] = [[]]"
| "split_blank (b # bs) =
     (if b = 32 \<or> b = 9 then [] # split_blank bs
      else (b # hd (split_blank bs)) # tl (split_blank bs))"

fun parse_fields :: "nat \<Rightarrow> (bytes \<times> nat \<times> nat) list \<Rightarrow> (cron_error, field list) result" where
  "parse_fields i [] = Inr []"
| "parse_fields i ((text, low, high) # r) =
     (case field_parse text low high of
        Inl e \<Rightarrow> Inl (CronField (i + 1) e)
      | Inr f \<Rightarrow> bind_result (parse_fields (i + 1) r) (\<lambda>fs. Inr (f # fs)))"

definition cron_parse :: "bytes \<Rightarrow> (cron_error, cron) result" where
  "cron_parse source =
     ensure_then (length source < EXPRESSION_LIMIT) ExpressionTooLong
       (let fields = filter (\<lambda>s. s \<noteq> []) (split_blank source)
        in ensure_then (length fields = 5) RequiresFiveFields
             (bind_result (parse_fields 0 (zip fields cron_ranges))
                (\<lambda>fs. Inr \<lparr>cron_source = source, cron_fields = fs\<rparr>)))"

record cron_date =
  date_minute :: nat
  date_hour :: nat
  date_day :: nat
  date_month :: nat
  date_weekday :: nat

definition cron_matches :: "(int \<Rightarrow> cron_date option) \<Rightarrow> cron \<Rightarrow> int \<Rightarrow> bool" where
  "cron_matches from_timestamp c timestamp \<longleftrightarrow>
     (case from_timestamp timestamp of
        None \<Rightarrow> False
      | Some date \<Rightarrow>
          let minute = cron_fields c ! 0; hour = cron_fields c ! 1; day = cron_fields c ! 2;
              month = cron_fields c ! 3; weekday = cron_fields c ! 4;
              by_day = field_matches day (date_day date);
              by_weekday = field_matches weekday (date_weekday date)
          in field_matches minute (date_minute date) \<and> field_matches hour (date_hour date)
             \<and> field_matches month (date_month date)
             \<and> (if \<not> wildcard day \<and> \<not> wildcard weekday then by_day \<or> by_weekday
                else by_day \<and> by_weekday))"

section \<open>Masks\<close>

lemma field_matches_bit: "v < 64 \<Longrightarrow> field_matches f v \<longleftrightarrow> bit (mask f) v"
proof -
  assume v: "v < 64"
  have "mask f AND push_bit v 1 = (if bit (mask f) v then push_bit v 1 else 0)"
    by (rule bit_eqI) (auto simp: bit_and_iff bit_exp_iff)
  moreover have "push_bit v (1 :: u64) \<noteq> 0" using v by (simp add: push_bit_eq_mult)
  ultimately show ?thesis by (simp add: field_matches_def)
qed

definition covers :: "nat \<times> nat \<times> nat \<Rightarrow> nat \<Rightarrow> bool" where
  "covers r v \<longleftrightarrow> (case r of (a, b, step) \<Rightarrow> a \<le> v \<and> v \<le> b \<and> (v - a) mod step = 0)"

lemma bit_or_single: "v < 64 \<Longrightarrow> bit (m OR push_bit u 1) v \<longleftrightarrow> bit m v \<or> u = v" for m :: u64
  by (auto simp: bit_or_iff bit_exp_iff)

lemma bit_fold_or:
  "v < 64 \<Longrightarrow> bit (fold (\<lambda>v m. if P v then m OR push_bit v 1 else m) vs m) v
     \<longleftrightarrow> bit m v \<or> (v \<in> set vs \<and> P v)" for m :: u64
proof (induction vs arbitrary: m)
  case (Cons u vs)
  then show ?case using bit_or_single [of v m u] by (cases "P u") auto
qed simp

lemma bit_add_range: "v < 64 \<Longrightarrow> bit (add_range r m) v \<longleftrightarrow> bit m v \<or> covers r v"
  by (auto simp: add_range_def covers_def bit_fold_or split: prod.splits)

lemma field_parts_exact:
  assumes "field_parts ps lo hi m = Inr m'" and "v < 64"
  shows "bit m' v \<longleftrightarrow> bit m v \<or> (\<exists>p\<in>set ps. \<exists>r. field_part p lo hi = Inr r \<and> covers r v)"
  using assms
proof (induction ps arbitrary: m)
  case (Cons p ps)
  obtain r where r: "field_part p lo hi = Inr r" "field_parts ps lo hi (add_range r m) = Inr m'"
    using Cons.prems(1) by (auto simp: bind_result_Inr_iff)
  show ?case
    using Cons.IH [OF r(2) Cons.prems(2)] r(1) bit_add_range [OF Cons.prems(2), of r m]
    by (cases r) auto
qed simp

lemma field_parts_ok:
  "(\<exists>m'. field_parts ps lo hi m = Inr m') \<longleftrightarrow> (\<forall>p\<in>set ps. \<exists>r. field_part p lo hi = Inr r)"
proof (induction ps arbitrary: m)
  case (Cons p ps)
  show ?case
  proof (cases "field_part p lo hi")
    case (Inr r)
    then show ?thesis using Cons.IH [of "add_range r m"] by (cases r) auto
  qed simp
qed simp

lemma field_part_range:
  "field_part p lo hi = Inr (a, b, k) \<Longrightarrow> lo \<le> a \<and> a \<le> b \<and> b \<le> hi \<and> 0 < k"
  by (auto simp: field_part_def bind_result_Inr_iff split: option.splits prod.splits)

section \<open>Properties\<close>

text \<open>
  A compiled field means what its text says: for a field range within the mask, parsing succeeds
  exactly when every list element is well formed, in range and has a positive step, and then the
  mask matches a value exactly when some element's range contains it at a multiple of the step from
  the range's start; it matches nothing outside the field's range, and a lone star matches all of
  it.
\<close>

lemma field_parse_exact:
  assumes "hi < 64" and "v < 64"
  shows "((\<exists>f. field_parse source lo hi = Inr f) \<longleftrightarrow>
            (\<forall>p\<in>set (split_on 44 source). \<exists>r. field_part p lo hi = Inr r))
       \<and> (field_parse source lo hi = Inr f \<longrightarrow>
            (field_matches f v \<longleftrightarrow>
               (\<exists>p\<in>set (split_on 44 source). \<exists>r. field_part p lo hi = Inr r \<and> covers r v))
            \<and> (field_matches f v \<longrightarrow> lo \<le> v \<and> v \<le> hi))
       \<and> (lo \<le> hi \<longrightarrow> (\<exists>g. field_parse [42] lo hi = Inr g \<and> wildcard g
            \<and> (field_matches g v \<longleftrightarrow> lo \<le> v \<and> v \<le> hi)))"
proof -
  have total: "(\<exists>f. field_parse source lo hi = Inr f) \<longleftrightarrow>
      (\<forall>p\<in>set (split_on 44 source). \<exists>r. field_part p lo hi = Inr r)"
    using field_parts_ok [of "split_on 44 source" lo hi 0]
    by (auto simp: field_parse_def bind_result_Inr_iff)
  have exact: "field_matches g v \<longleftrightarrow>
      (\<exists>p\<in>set (split_on 44 s). \<exists>r. field_part p lo hi = Inr r \<and> covers r v)"
    if "field_parse s lo hi = Inr g" for s g
    using that assms(2) field_parts_exact [of "split_on 44 s" lo hi 0 "mask g" v]
    by (auto simp: field_parse_def bind_result_Inr_iff field_matches_bit)
  have inside: "lo \<le> v \<and> v \<le> hi" if "field_part p lo hi = Inr r" "covers r v" for p r
    using that field_part_range [of p lo hi "fst r" "fst (snd r)" "snd (snd r)"]
    by (auto simp: covers_def)
  have star: "field_part [42] lo hi = Inr (lo, hi, 1)" if "lo \<le> hi"
    using that by (simp add: field_part_def field_range_def split_once_def)
  have "\<exists>g. field_parse [42] lo hi = Inr g \<and> wildcard g \<and> (field_matches g v \<longleftrightarrow> lo \<le> v \<and> v \<le> hi)"
    if "lo \<le> hi"
  proof -
    let ?g = "\<lparr>mask = add_range (lo, hi, 1) 0, wildcard = True\<rparr>"
    have "field_parse [42] lo hi = Inr ?g" using star [OF that] by (simp add: field_parse_def)
    moreover from exact [OF this] have "field_matches ?g v \<longleftrightarrow> lo \<le> v \<and> v \<le> hi"
      using star [OF that] by (auto simp: covers_def)
    ultimately show ?thesis by auto
  qed
  then show ?thesis using total exact inside by blast
qed

end
