(* ===== verification/Network_Topology.thy ===== *)
theory Network_Topology
  imports BTree_Map "HOL-Library.Multiset"
begin

text \<open>
  \<open>src/btech/network_topology.rs\<close>: automatic formation of C3 and C3i command networks. The state is
  what \<open>candidates\<close> gathers of the world for one family, one record per unit with the hardware;
  \<open>set_link\<close> is the update of a record's link. \<open>reconcile_links\<close> is \<open>reconcile_for\<close> up to its final
  consistency check of the world; the notices it sends are not modelled. Ids, maps and teams are
  integers, links natural numbers kept below \<open>2 ^ 64\<close> by the checked additions.
\<close>

section \<open>Definitions\<close>

datatype command_network = C3 | C3i

record network_automation =
  auto_c3 :: bool
  auto_c3i :: bool

definition automation_default :: network_automation where
  "automation_default = \<lparr>auto_c3 = True, auto_c3i = True\<rparr>"

definition automation_allows :: "network_automation \<Rightarrow> command_network \<Rightarrow> bool" where
  "automation_allows a kind = (case kind of C3 \<Rightarrow> auto_c3 a | C3i \<Rightarrow> auto_c3i a)"

record candidate =
  cand_id :: int
  cand_map :: int
  team :: int
  link :: "nat option"
  eligible :: bool
  joinable :: bool
  working_masters :: nat

record group =
  group_link :: nat
  members :: "int list"
  group_masters :: nat
  fresh :: bool

definition group_limit :: "command_network \<Rightarrow> nat \<Rightarrow> nat" where
  "group_limit kind masters = (case kind of C3 \<Rightarrow> min (1 + 3 * masters) 12 | C3i \<Rightarrow> 6)"

definition admits :: "command_network \<Rightarrow> group \<Rightarrow> candidate \<Rightarrow> bool" where
  "admits kind g c \<longleftrightarrow> length (members g) < group_limit kind (group_masters g + working_masters c)"

definition room :: "command_network \<Rightarrow> group \<Rightarrow> nat" where
  "room kind g = group_limit kind (group_masters g) - length (members g)"

definition seat_key :: "candidate \<Rightarrow> bool \<times> int" where
  "seat_key c = (working_masters c = 0, cand_id c)"

text \<open>The members of one network that lose their seats.\<close>

definition group_stale :: "command_network \<Rightarrow> candidate list \<Rightarrow> int list" where
  "group_stale kind g =
     (let masters = sum_list (map working_masters g);
          limit = group_limit kind masters;
          seated = sort_key seat_key g;
          kept = (if 2 \<le> limit then limit else 0)
      in map cand_id (drop kept seated)
         @ (if min (length seated) kept < 2 then map cand_id (take kept seated) else []))"

definition network_key :: "candidate \<Rightarrow> int \<times> int \<times> nat" where
  "network_key c = (cand_map c, team c, the (link c))"

definition stale_links :: "candidate list \<Rightarrow> command_network \<Rightarrow> int list" where
  "stale_links cs kind =
     (let dead = map cand_id (filter (\<lambda>c. link c \<noteq> None \<and> \<not> eligible c) cs);
          groups = bt_group network_key (filter (\<lambda>c. eligible c \<and> link c \<noteq> None) cs)
      in remdups_adj (sort (dead @ concat (map (\<lambda>(_, g). group_stale kind g) groups))))"

definition drop_stale :: "command_network \<Rightarrow> candidate list \<Rightarrow> candidate list" where
  "drop_stale kind cs =
     (let stale = stale_links cs kind
      in map (\<lambda>c. if cand_id c \<in> set stale then c\<lparr>link := None\<rparr> else c) cs)"

definition pools :: "candidate list \<Rightarrow> (int \<times> int, candidate list) btree" where
  "pools cs = bt_group (\<lambda>c. (cand_map c, team c)) (filter eligible cs)"

definition empty_group :: "nat \<Rightarrow> bool \<Rightarrow> group" where
  "empty_group l f = \<lparr>group_link = l, members = [], group_masters = 0, fresh = f\<rparr>"

definition seat :: "candidate \<Rightarrow> group \<Rightarrow> group" where
  "seat c g =
     g\<lparr>members := members g @ [cand_id c], group_masters := group_masters g + working_masters c\<rparr>"

definition existing_groups :: "candidate list \<Rightarrow> (nat, group) btree" where
  "existing_groups pool =
     fold (\<lambda>c gs.
             case link c of
               None \<Rightarrow> gs
             | Some l \<Rightarrow>
                 bt_insert l
                   (seat c (case bt_get gs l of Some g \<Rightarrow> g | None \<Rightarrow> empty_group l False)) gs)
       pool []"

text \<open>The roomiest network that admits a candidate; among equals the one with the least link.\<close>

definition roomier :: "command_network \<Rightarrow> group \<Rightarrow> group \<Rightarrow> group" where
  "roomier kind g best =
     (if room kind best < room kind g \<or> room kind g = room kind best \<and> group_link g < group_link best
      then g else best)"

definition target_group :: "command_network \<Rightarrow> (nat, group) btree \<Rightarrow> candidate \<Rightarrow> nat option" where
  "target_group kind gs c =
     (case filter (\<lambda>g. admits kind g c) (map snd gs) of
        [] \<Rightarrow> None
      | g # r \<Rightarrow> Some (group_link (fold (roomier kind) r g)))"

datatype network_error = IdentitiesExhausted

type_synonym join_state = "(nat, group) btree \<times> nat \<times> (candidate \<times> nat) list"

text \<open>Seating in a group that is not there is the panic of \<open>unwrap\<close>, shown unreachable below.\<close>

definition join_group :: "candidate \<Rightarrow> nat \<Rightarrow> (nat, group) btree \<Rightarrow> (nat, group) btree" where
  "join_group c l gs = (case bt_get gs l of None \<Rightarrow> gs | Some g \<Rightarrow> bt_insert l (seat c g) gs)"

definition join_one :: "command_network \<Rightarrow> candidate \<Rightarrow> join_state \<Rightarrow> (network_error, join_state) result" where
  "join_one kind c st =
     (case st of (gs, next_link, joined) \<Rightarrow>
        (case target_group kind gs c of
           Some l \<Rightarrow> Inr (join_group c l gs, next_link, joined @ [(c, l)])
         | None \<Rightarrow>
             if kind = C3 \<and> working_masters c = 0 then Inr st
             else
               ensure_then (fits_u64 (next_link + 1)) IdentitiesExhausted
                 (Inr (join_group c next_link (bt_insert next_link (empty_group next_link True) gs),
                       next_link + 1, joined @ [(c, next_link)]))))"

fun join_all :: "command_network \<Rightarrow> candidate list \<Rightarrow> join_state \<Rightarrow> (network_error, join_state) result" where
  "join_all kind [] st = Inr st"
| "join_all kind (c # cs) st = bind_result (join_one kind c st) (join_all kind cs)"

definition unlinked :: "candidate list \<Rightarrow> candidate list" where
  "unlinked pool = sort_key seat_key (filter (\<lambda>c. link c = None \<and> joinable c) pool)"

text \<open>The links a pass over one pool sets: newcomers of networks that hold two members.\<close>

definition group_sets :: "(candidate \<times> nat) list \<Rightarrow> group \<Rightarrow> (int \<times> nat) list" where
  "group_sets joined g =
     (let newcomers = map (\<lambda>p. cand_id (fst p)) (filter (\<lambda>p. snd p = group_link g) joined)
      in if length (members g) < 2 \<or> newcomers = [] then []
         else map (\<lambda>i. (i, group_link g)) newcomers)"

definition settle :: "join_state \<Rightarrow> (int \<times> nat) list" where
  "settle st = (case st of (gs, _, joined) \<Rightarrow> concat (map (\<lambda>p. group_sets joined (snd p)) gs))"

fun pool_passes ::
  "command_network \<Rightarrow> candidate list list \<Rightarrow> nat \<Rightarrow> (network_error, (int \<times> nat) list) result" where
  "pool_passes kind [] next_link = Inr []"
| "pool_passes kind (pool # r) next_link =
     bind_result (join_all kind (unlinked pool) (existing_groups pool, next_link, []))
       (\<lambda>st. bind_result (pool_passes kind r (fst (snd st))) (\<lambda>sets. Inr (settle st @ sets)))"

definition greatest_link :: "candidate list \<Rightarrow> nat" where
  "greatest_link cs = fold max (List.map_filter link cs) 0"

definition set_links :: "(int \<times> nat) list \<Rightarrow> candidate list \<Rightarrow> candidate list" where
  "set_links sets cs =
     map (\<lambda>c. case map_of sets (cand_id c) of Some l \<Rightarrow> c\<lparr>link := Some l\<rparr> | None \<Rightarrow> c) cs"

definition reconcile_links :: "command_network \<Rightarrow> candidate list \<Rightarrow> (network_error, candidate list) result" where
  "reconcile_links kind cs =
     (if cs = [] then Inr cs
      else
        (let cs1 = drop_stale kind cs
         in ensure_then (fits_u64 (greatest_link cs1 + 1)) IdentitiesExhausted
              (bind_result (pool_passes kind (map snd (pools cs1)) (greatest_link cs1 + 1))
                (\<lambda>sets. Inr (set_links sets cs1)))))"

section \<open>Networks and their capacity\<close>

definition network :: "candidate list \<Rightarrow> int \<times> int \<times> nat \<Rightarrow> candidate list" where
  "network cs k =
     filter (\<lambda>c. eligible c \<and> link c = Some (snd (snd k)) \<and> (cand_map c, team c) = (fst k, fst (snd k))) cs"

definition masters_of :: "candidate list \<Rightarrow> nat" where
  "masters_of cs = sum_list (map working_masters cs)"

definition seats_ok :: "command_network \<Rightarrow> candidate list \<Rightarrow> bool" where
  "seats_ok kind g \<longleftrightarrow> g = [] \<or> 2 \<le> length g \<and> length g \<le> group_limit kind (masters_of g)"

definition networks_ok :: "command_network \<Rightarrow> candidate list \<Rightarrow> bool" where
  "networks_ok kind cs \<longleftrightarrow>
     (\<forall>k. seats_ok kind (network cs k)) \<and> (\<forall>c\<in>set cs. \<not> eligible c \<longrightarrow> link c = None)"

lemma group_limit_mono: "m \<le> n \<Longrightarrow> group_limit kind m \<le> group_limit kind n"
  by (cases kind) (auto simp: group_limit_def)

lemma masters_append [simp]: "masters_of (xs @ ys) = masters_of xs + masters_of ys"
  by (simp add: masters_of_def)

lemma masters_simps [simp]: "masters_of [] = 0" "masters_of (c # cs) = working_masters c + masters_of cs"
  by (simp_all add: masters_of_def)

lemma masters_ge_length: "(\<forall>c\<in>set cs. working_masters c \<noteq> 0) \<Longrightarrow> length cs \<le> masters_of cs"
  by (induction cs) (auto simp: masters_of_def)

lemma masters_zero: "(\<forall>c\<in>set cs. working_masters c = 0) \<Longrightarrow> masters_of cs = 0"
  by (induction cs) (auto simp: masters_of_def)

lemma masters_sort: "masters_of (sort_key f cs) = masters_of cs"
  unfolding masters_of_def by (metis mset_map mset_sort sum_mset_sum_list)

text \<open>Masters keep their seats first, so the seats kept are within what the kept masters carry.\<close>

lemma kept_within_limit:
  fixes kind g
  defines "s \<equiv> sort_key seat_key g" and "n \<equiv> group_limit kind (masters_of g)"
  shows "length (take n s) \<le> group_limit kind (masters_of (take n s))"
proof (cases kind)
  case C3i
  then show ?thesis by (simp add: n_def group_limit_def)
next
  case C3
  show ?thesis
  proof (cases "\<forall>c\<in>set (take n s). working_masters c \<noteq> 0")
    case True
    have "length (take n s) \<le> masters_of (take n s)" using masters_ge_length [OF True] .
    moreover have "length (take n s) \<le> 12" by (simp add: n_def C3 group_limit_def)
    ultimately show ?thesis by (simp add: C3 group_limit_def)
  next
    case False
    then obtain x where x: "x \<in> set (take n s)" "working_masters x = 0" by auto
    have "sorted (map seat_key s)" by (simp add: s_def)
    then have "sorted (map seat_key (take n s) @ map seat_key (drop n s))"
      by (metis append_take_drop_id map_append)
    then have "\<forall>y\<in>set (drop n s). seat_key x \<le> seat_key y" using x(1) by (auto simp: sorted_append)
    then have "\<forall>y\<in>set (drop n s). working_masters y = 0" using x(2) by (auto simp: seat_key_def)
    then have "masters_of (drop n s) = 0" by (rule masters_zero)
    then have "masters_of (take n s) = masters_of g"
      using masters_append [of "take n s" "drop n s"] by (simp add: s_def masters_sort)
    then show ?thesis by (simp add: n_def)
  qed
qed

text \<open>Seats depend on the members only, not on their order.\<close>

lemma seats_ok_mset: "mset g = mset h \<Longrightarrow> seats_ok kind g = seats_ok kind h"
proof -
  assume eq: "mset g = mset h"
  then have "length g = length h" by (rule mset_eq_length)
  moreover have "masters_of g = masters_of h"
    unfolding masters_of_def using eq by (metis mset_map sum_mset_sum_list)
  moreover have "g = [] \<longleftrightarrow> h = []" using eq by auto
  ultimately show ?thesis by (simp add: seats_ok_def)
qed

lemma filter_prefix:
  "distinct (map f (xs @ ys)) \<Longrightarrow> filter (\<lambda>c. f c \<notin> f ` set ys) (xs @ ys) = xs"
  by (auto simp: filter_id_conv filter_empty_conv)

lemma group_stale_seats:
  assumes "distinct (map cand_id g)"
  shows "seats_ok kind (filter (\<lambda>c. cand_id c \<notin> set (group_stale kind g)) g)"
proof -
  define s where "s = sort_key seat_key g"
  define n where "n = group_limit kind (masters_of g)"
  let ?P = "\<lambda>c. cand_id c \<notin> set (group_stale kind g)"
  have sg: "mset s = mset g" by (simp add: s_def)
  have stale: "group_stale kind g =
      (if n < 2 then map cand_id s
       else map cand_id (drop n s) @ (if min (length s) n < 2 then map cand_id (take n s) else []))"
    unfolding group_stale_def Let_def s_def [symmetric] masters_of_def [symmetric] n_def [symmetric]
    by (cases "n < 2") (auto simp: min_def)
  show ?thesis
  proof (cases "n < 2 \<or> min (length s) n < 2")
    case True
    then have "set (group_stale kind g) = cand_id ` set s"
      by (auto simp: stale image_Un [symmetric] simp flip: set_append)
    then have "filter ?P g = []" using mset_eq_setD [OF sg] by (auto simp: filter_empty_conv)
    then show ?thesis by (simp add: seats_ok_def)
  next
    case False
    then have dropped: "group_stale kind g = map cand_id (drop n s)" by (simp add: stale)
    have "mset (map cand_id s) = mset (map cand_id g)" using sg by simp
    then have "distinct (map cand_id s)" using assms mset_eq_imp_distinct_iff by blast
    then have dist: "distinct (map cand_id (take n s @ drop n s))" by simp
    then have "filter ?P s = take n s"
      using filter_prefix [of cand_id "take n s" "drop n s"] by (simp add: dropped)
    then have "mset (filter ?P g) = mset (take n s)" using sg by (metis mset_filter)
    moreover have "seats_ok kind (take n s)"
      using kept_within_limit [of kind g] False
      by (auto simp: seats_ok_def s_def [symmetric] n_def [symmetric] min_def split: if_splits)
    ultimately show ?thesis using seats_ok_mset by blast
  qed
qed

lemma set_stale_links:
  "set (stale_links cs kind) =
     cand_id ` set (filter (\<lambda>c. link c \<noteq> None \<and> \<not> eligible c) cs)
     \<union> (\<Union>p\<in>set (bt_group network_key (filter (\<lambda>c. eligible c \<and> link c \<noteq> None) cs)).
          set (group_stale kind (snd p)))"
  by (simp add: stale_links_def Let_def split_beta)

lemma stale_iff:
  assumes "distinct (map cand_id cs)" and "c \<in> set (network cs k)"
  shows "cand_id c \<in> set (stale_links cs kind) \<longleftrightarrow> cand_id c \<in> set (group_stale kind (network cs k))"
proof -
  have inj: "x = y" if "x \<in> set cs" "y \<in> set cs" "cand_id x = cand_id y" for x y
    using assms(1) that by (auto simp: distinct_map inj_on_def)
  let ?live = "filter (\<lambda>c. eligible c \<and> link c \<noteq> None) cs"
  have same: "filter (\<lambda>x. network_key x = k') ?live = network cs k'" for k'
    by (auto simp: network_def network_key_def filter_filter intro!: filter_cong)
  have c: "c \<in> set cs" "eligible c" "link c \<noteq> None" "network_key c = k"
    using assms(2) by (auto simp: network_def network_key_def)
  have sub: "set (group_stale kind g) \<subseteq> cand_id ` set g" for g
    by (auto simp: group_stale_def Let_def dest!: in_set_dropD in_set_takeD split: if_splits)
  have dead: "cand_id c \<notin> cand_id ` set (filter (\<lambda>c. link c \<noteq> None \<and> \<not> eligible c) cs)"
    using inj [of _ c] c(1,2) by auto
  have groups: "p \<in> set (bt_group network_key ?live) \<longleftrightarrow> snd p = network cs (fst p) \<and> snd p \<noteq> []" for p
    using in_bt_group [of "fst p" "snd p" network_key ?live] by (simp only: same prod.collapse)
  have "cand_id c \<in> set (stale_links cs kind) \<longleftrightarrow>
      (\<exists>p\<in>set (bt_group network_key ?live). cand_id c \<in> set (group_stale kind (snd p)))"
    unfolding set_stale_links using dead by (simp only: Un_iff UN_iff simp_thms)
  also have "\<dots> \<longleftrightarrow> (\<exists>k'. network cs k' \<noteq> [] \<and> cand_id c \<in> set (group_stale kind (network cs k')))"
    (is "?L = ?R")
  proof
    assume ?L
    then obtain p where "p \<in> set (bt_group network_key ?live)" "cand_id c \<in> set (group_stale kind (snd p))"
      by blast
    then show ?R using groups [of p] by metis
  next
    assume ?R
    then obtain k' where "network cs k' \<noteq> []" "cand_id c \<in> set (group_stale kind (network cs k'))" by blast
    then show ?L using groups [of "(k', network cs k')"] by (intro bexI [of _ "(k', network cs k')"]) simp_all
  qed
  also have "\<dots> \<longleftrightarrow> cand_id c \<in> set (group_stale kind (network cs k))"
  proof
    assume "\<exists>k'. network cs k' \<noteq> [] \<and> cand_id c \<in> set (group_stale kind (network cs k'))"
    then obtain k' x where x: "x \<in> set (network cs k')" "cand_id x = cand_id c"
      and st: "cand_id c \<in> set (group_stale kind (network cs k'))"
      using sub by (metis (no_types, lifting) image_iff subsetD)
    then have "x = c" using inj c(1) by (auto simp: network_def)
    then have "k' = k" using x(1) c(4) by (auto simp: network_def network_key_def)
    then show "cand_id c \<in> set (group_stale kind (network cs k))" using st by simp
  next
    assume "cand_id c \<in> set (group_stale kind (network cs k))"
    then show "\<exists>k'. network cs k' \<noteq> [] \<and> cand_id c \<in> set (group_stale kind (network cs k'))"
      using assms(2) by (metis empty_iff list.set(1))
  qed
  finally show ?thesis .
qed

lemma network_unlink:
  "network (map (\<lambda>c. if cand_id c \<in> S then c\<lparr>link := None\<rparr> else c) cs) k =
     filter (\<lambda>c. cand_id c \<notin> S) (network cs k)"
  unfolding network_def by (induction cs) auto

lemma network_drop_stale:
  assumes "distinct (map cand_id cs)"
  shows "network (drop_stale kind cs) k =
     filter (\<lambda>c. cand_id c \<notin> set (group_stale kind (network cs k))) (network cs k)"
proof -
  let ?st = "set (stale_links cs kind)"
  have "network (drop_stale kind cs) k = filter (\<lambda>c. cand_id c \<notin> ?st) (network cs k)"
    unfolding drop_stale_def Let_def by (rule network_unlink)
  also have "\<dots> = filter (\<lambda>c. cand_id c \<notin> set (group_stale kind (network cs k))) (network cs k)"
    using stale_iff [OF assms] by (intro filter_cong) auto
  finally show ?thesis .
qed

lemma drop_stale_ids: "map cand_id (drop_stale kind cs) = map cand_id cs"
  by (simp add: drop_stale_def Let_def)

lemma drop_stale_ok:
  assumes "distinct (map cand_id cs)"
  shows "networks_ok kind (drop_stale kind cs)"
proof -
  have "distinct (map cand_id (network cs k))" for k
    using assms by (simp add: network_def distinct_map_filter)
  then have "seats_ok kind (network (drop_stale kind cs) k)" for k
    unfolding network_drop_stale [OF assms] by (rule group_stale_seats)
  moreover have "link c = None" if "c \<in> set (drop_stale kind cs)" "\<not> eligible c" for c
  proof (rule ccontr)
    assume l: "link c \<noteq> None"
    then have "c \<in> set cs" "cand_id c \<notin> set (stale_links cs kind)"
      using that(1) by (auto simp: drop_stale_def Let_def split: if_splits)
    then show False using l that(2) by (auto simp: set_stale_links)
  qed
  ultimately show ?thesis by (simp add: networks_ok_def)
qed

section \<open>Joining\<close>

definition old_members :: "candidate list \<Rightarrow> nat \<Rightarrow> candidate list" where
  "old_members pool l = filter (\<lambda>c. link c = Some l) pool"

definition new_members :: "(candidate \<times> nat) list \<Rightarrow> nat \<Rightarrow> candidate list" where
  "new_members joined l = map fst (filter (\<lambda>p. snd p = l) joined)"

text \<open>A group under construction holds its old members and the newcomers, within its limit.\<close>

definition group_ok :: "command_network \<Rightarrow> nat \<Rightarrow> candidate list \<Rightarrow> group \<Rightarrow> bool" where
  "group_ok kind l cs g \<longleftrightarrow>
     group_link g = l \<and> members g = map cand_id cs \<and> group_masters g = masters_of cs
     \<and> length cs \<le> group_limit kind (masters_of cs)"

definition join_inv :: "command_network \<Rightarrow> candidate list \<Rightarrow> join_state \<Rightarrow> bool" where
  "join_inv kind pool st \<longleftrightarrow>
     (case st of (gs, n, joined) \<Rightarrow>
        bt_ok gs
        \<and> (\<forall>l g. bt_get gs l = Some g \<longrightarrow>
              l < n \<and> group_ok kind l (old_members pool l @ new_members joined l) g)
        \<and> (\<forall>l. old_members pool l @ new_members joined l \<noteq> [] \<longrightarrow> bt_get gs l \<noteq> None))"

lemma new_members_snoc [simp]:
  "new_members (joined @ [(c, l)]) l' = new_members joined l' @ (if l' = l then [c] else [])"
  by (simp add: new_members_def)

lemma existing_groups_snoc:
  "existing_groups (pool @ [c]) =
     (case link c of
        None \<Rightarrow> existing_groups pool
      | Some l \<Rightarrow>
          bt_insert l
            (seat c (case bt_get (existing_groups pool) l of Some g \<Rightarrow> g | None \<Rightarrow> empty_group l False))
            (existing_groups pool))"
  unfolding existing_groups_def by simp

lemma existing_groups_exact:
  "bt_ok (existing_groups pool) \<and>
   bt_get (existing_groups pool) l =
     (if old_members pool l = [] then None
      else Some \<lparr>group_link = l, members = map cand_id (old_members pool l),
                 group_masters = masters_of (old_members pool l), fresh = False\<rparr>)"
proof (induction pool arbitrary: l rule: rev_induct)
  case Nil
  show ?case by (simp add: existing_groups_def old_members_def bt_get_def)
next
  case (snoc c pool)
  have ok: "bt_ok (existing_groups pool)" using snoc by blast
  have get: "bt_get (existing_groups pool) l =
     (if old_members pool l = [] then None
      else Some \<lparr>group_link = l, members = map cand_id (old_members pool l),
                 group_masters = masters_of (old_members pool l), fresh = False\<rparr>)" for l
    using snoc by blast
  have old: "old_members (pool @ [c]) l = old_members pool l @ (if link c = Some l then [c] else [])" for l
    by (simp add: old_members_def)
  show ?case
  proof (cases "link c")
    case None
    then show ?thesis using ok get [of l] by (simp add: existing_groups_snoc old)
  next
    case (Some l')
    show ?thesis
      using ok get [of l] get [of l'] Some
      by (auto simp: existing_groups_snoc old bt.get_insert bt.ok_insert seat_def empty_group_def
          masters_of_def)
  qed
qed

lemma existing_groups_inv:
  assumes "\<And>l. length (old_members pool l) \<le> group_limit kind (masters_of (old_members pool l))"
    and "\<And>l. old_members pool l \<noteq> [] \<Longrightarrow> l < n"
  shows "join_inv kind pool (existing_groups pool, n, [])"
proof -
  have ok: "bt_ok (existing_groups pool)" using existing_groups_exact by blast
  note get = existing_groups_exact [of pool, THEN conjunct2]
  show ?thesis
    using ok assms by (auto simp: join_inv_def group_ok_def new_members_def get split: if_splits)
qed

lemma fold_roomier_in: "fold (roomier kind) r g \<in> set (g # r)"
proof (induction r arbitrary: g)
  case (Cons x r)
  have "roomier kind x g = x \<or> roomier kind x g = g" by (simp add: roomier_def)
  then show ?case using Cons.IH [of "roomier kind x g"] by auto
qed simp

lemma target_group_admits:
  assumes "target_group kind gs c = Some l" and "join_inv kind pool (gs, n, joined)"
  obtains g where "bt_get gs l = Some g" "admits kind g c"
proof -
  obtain x r where f: "filter (\<lambda>g. admits kind g c) (map snd gs) = x # r"
    and l: "l = group_link (fold (roomier kind) r x)"
    using assms(1) by (auto simp: target_group_def split: list.splits)
  define g where "g = fold (roomier kind) r x"
  have "g \<in> set (filter (\<lambda>g. admits kind g c) (map snd gs))" unfolding f g_def by (rule fold_roomier_in)
  then obtain l' where g: "(l', g) \<in> set gs" "admits kind g c" by auto
  have "bt_ok gs" using assms(2) by (simp add: join_inv_def)
  then have get: "bt_get gs l' = Some g" using g(1) by (simp add: bt_get_in_set)
  then have "group_link g = l'" using assms(2) by (auto simp: join_inv_def group_ok_def)
  then show thesis using that get g(2) l by (simp add: g_def)
qed

lemma join_inv_seat:
  assumes inv: "join_inv kind pool (gs, n, joined)" and get: "bt_get gs l = Some g"
    and adm: "admits kind g c"
  shows "join_inv kind pool (join_group c l gs, n, joined @ [(c, l)])"
proof -
  have ok: "bt_ok gs" and g: "group_ok kind l (old_members pool l @ new_members joined l) g"
    using inv get by (auto simp: join_inv_def)
  have "length (members g) + 1 \<le> group_limit kind (group_masters g + working_masters c)"
    using adm by (simp add: admits_def)
  then have "group_ok kind l (old_members pool l @ new_members (joined @ [(c, l)]) l) (seat c g)"
    using g by (auto simp: group_ok_def seat_def add.assoc)
  then show ?thesis
    using inv get ok
    by (auto simp: join_inv_def join_group_def bt.get_insert bt.ok_insert split: if_splits)
qed

lemma join_inv_fresh:
  assumes inv: "join_inv kind pool (gs, n, joined)" and c: "\<not> (kind = C3 \<and> working_masters c = 0)"
  shows "join_inv kind pool
     (join_group c n (bt_insert n (empty_group n True) gs), n + 1, joined @ [(c, n)])"
proof -
  have ok: "bt_ok gs" using inv by (simp add: join_inv_def)
  have none: "bt_get gs n = None"
  proof (cases "bt_get gs n")
    case (Some g)
    then have "n < n" using inv unfolding join_inv_def by blast
    then show ?thesis by simp
  qed
  then have empty: "old_members pool n = []" "new_members joined n = []"
    using inv by (auto simp: join_inv_def)
  have "1 \<le> group_limit kind (working_masters c)" by (cases kind) (auto simp: group_limit_def)
  then have "group_ok kind n [c] (seat c (empty_group n True))"
    by (simp add: group_ok_def seat_def empty_group_def masters_of_def)
  then show ?thesis
    using inv ok empty
    by (auto simp: join_inv_def join_group_def bt.get_insert bt.ok_insert less_Suc_eq split: if_splits)
qed

lemma join_one_inv:
  assumes "join_inv kind pool (gs, n, joined)" and "join_one kind c (gs, n, joined) = Inr (gs', n', joined')"
  shows "join_inv kind pool (gs', n', joined')
       \<and> n \<le> n' \<and> (joined' = joined \<or> (\<exists>l. joined' = joined @ [(c, l)]))"
proof (cases "target_group kind gs c")
  case (Some l)
  obtain g where "bt_get gs l = Some g" "admits kind g c" using target_group_admits [OF Some assms(1)] .
  then show ?thesis using assms Some join_inv_seat [OF assms(1)] by (auto simp: join_one_def)
next
  case None
  then show ?thesis
    using assms join_inv_fresh [OF assms(1), of c]
    by (auto simp: join_one_def split: if_splits)
qed

lemma join_all_inv:
  assumes "join_inv kind pool (gs, n, joined)" and "join_all kind cs (gs, n, joined) = Inr (gs', n', joined')"
    and "distinct (map fst joined @ cs)"
  shows "join_inv kind pool (gs', n', joined') \<and> n \<le> n' \<and> distinct (map fst joined')
       \<and> set (map fst joined') \<subseteq> set (map fst joined) \<union> set cs"
  using assms
proof (induction cs arbitrary: gs n joined)
  case (Cons c cs)
  obtain gs1 n1 joined1 where one: "join_one kind c (gs, n, joined) = Inr (gs1, n1, joined1)"
    and rest: "join_all kind cs (gs1, n1, joined1) = Inr (gs', n', joined')"
    using Cons.prems(2) by (auto simp: bind_result_Inr_iff)
  have inv: "join_inv kind pool (gs1, n1, joined1)" "n \<le> n1"
    and j: "joined1 = joined \<or> (\<exists>l. joined1 = joined @ [(c, l)])"
    using join_one_inv [OF Cons.prems(1) one] by auto
  have "distinct (map fst joined1 @ cs)" using j
  proof (elim disjE exE)
    assume "joined1 = joined"
    then show ?thesis using Cons.prems(3) by auto
  next
    fix l assume "joined1 = joined @ [(c, l)]"
    then have "map fst joined1 @ cs = map fst joined @ c # cs" by simp
    then show ?thesis using Cons.prems(3) by simp
  qed
  note IH = Cons.IH [OF inv(1) rest this]
  have "set (map fst joined1) \<subseteq> set (map fst joined) \<union> {c}" using j by auto
  moreover have "set (map fst joined') \<subseteq> set (map fst joined1) \<union> set cs" using IH by blast
  ultimately have "set (map fst joined') \<subseteq> set (map fst joined) \<union> set (c # cs)"
    unfolding list.set(2) by blast
  then show ?case using IH inv(2) le_trans by blast
qed simp

text \<open>What one pool's pass sets.\<close>

lemma settle_iff:
  assumes "join_inv kind pool (gs, n, joined)"
  shows "(i, l) \<in> set (settle (gs, n, joined)) \<longleftrightarrow>
     2 \<le> length (old_members pool l @ new_members joined l) \<and> i \<in> cand_id ` set (new_members joined l)"
proof -
  have ok: "bt_ok gs" using assms by (simp add: join_inv_def)
  have link: "group_link g = l'" if "(l', g) \<in> set gs" for l' g
    using assms that by (auto simp: join_inv_def group_ok_def bt_get_in_set)
  have sets: "(i, l) \<in> set (group_sets joined g) \<longleftrightarrow>
      group_link g = l \<and> 2 \<le> length (members g) \<and> i \<in> cand_id ` set (new_members joined l)" for g
    by (auto simp: group_sets_def Let_def new_members_def image_image filter_empty_conv)
  have "(i, l) \<in> set (settle (gs, n, joined)) \<longleftrightarrow>
      (\<exists>g. (l, g) \<in> set gs \<and> 2 \<le> length (members g) \<and> i \<in> cand_id ` set (new_members joined l))"
  proof -
    have "(i, l) \<in> set (settle (gs, n, joined)) \<longleftrightarrow> (\<exists>p\<in>set gs. (i, l) \<in> set (group_sets joined (snd p)))"
      by (simp add: settle_def)
    then show ?thesis using link unfolding sets by (metis prod.collapse snd_conv)
  qed
  also have "\<dots> \<longleftrightarrow> 2 \<le> length (old_members pool l @ new_members joined l)
      \<and> i \<in> cand_id ` set (new_members joined l)"
  proof (cases "old_members pool l @ new_members joined l = []")
    case True
    then show ?thesis by simp
  next
    case False
    then obtain g where get: "bt_get gs l = Some g" using assms unfolding join_inv_def by blast
    then have "group_ok kind l (old_members pool l @ new_members joined l) g"
      using assms unfolding join_inv_def by blast
    then have "length (members g) = length (old_members pool l @ new_members joined l)"
      by (simp add: group_ok_def)
    moreover have "(l, g') \<in> set gs \<longleftrightarrow> g' = g" for g' using get ok by (metis bt_get_in_set option.inject)
    ultimately show ?thesis by auto
  qed
  finally show ?thesis .
qed

text \<open>The newcomers \<open>nw l\<close> that a pass over a pool seats in the networks \<open>l\<close>.\<close>

definition seated_ok :: "command_network \<Rightarrow> candidate list \<Rightarrow> (nat \<Rightarrow> candidate list) \<Rightarrow> bool" where
  "seated_ok kind pool nw \<longleftrightarrow>
     (\<forall>l. distinct (nw l) \<and> set (nw l) \<subseteq> set (unlinked pool)
        \<and> length (old_members pool l @ nw l) \<le> group_limit kind (masters_of (old_members pool l @ nw l)))
     \<and> (\<forall>l l'. l \<noteq> l' \<longrightarrow> set (nw l) \<inter> set (nw l') = {})"

definition pool_ok :: "command_network \<Rightarrow> nat \<Rightarrow> candidate list \<Rightarrow> bool" where
  "pool_ok kind n pool \<longleftrightarrow>
     distinct pool
     \<and> (\<forall>l. length (old_members pool l) \<le> group_limit kind (masters_of (old_members pool l))
          \<and> (old_members pool l \<noteq> [] \<longrightarrow> l < n))"

lemma join_inv_seated:
  assumes "join_inv kind pool (gs, n, joined)" and "distinct (map fst joined)"
    and "set (map fst joined) \<subseteq> set (unlinked pool)"
  shows "seated_ok kind pool (new_members joined)"
proof -
  have dist: "distinct (new_members joined l)" for l
    using assms(2) by (simp add: new_members_def distinct_map_filter)
  have sub: "set (new_members joined l) \<subseteq> set (unlinked pool)" for l
    using assms(3) by (auto simp: new_members_def)
  have size: "length (old_members pool l @ new_members joined l)
      \<le> group_limit kind (masters_of (old_members pool l @ new_members joined l))" for l
  proof (cases "old_members pool l @ new_members joined l = []")
    case False
    then obtain g where "bt_get gs l = Some g" using assms(1) unfolding join_inv_def by blast
    then have "group_ok kind l (old_members pool l @ new_members joined l) g"
      using assms(1) unfolding join_inv_def by blast
    then show ?thesis by (simp add: group_ok_def)
  qed simp
  have "l = l'" if "c \<in> set (new_members joined l)" "c \<in> set (new_members joined l')" for c l l'
  proof -
    have "(c, l) \<in> set joined" "(c, l') \<in> set joined" using that by (auto simp: new_members_def)
    then show ?thesis using assms(2) by (metis eq_key_imp_eq_value)
  qed
  then show ?thesis using dist sub size unfolding seated_ok_def by blast
qed

lemma pool_passes_seated:
  assumes "pool_passes kind pls n = Inr sets" and "distinct pls" and "\<forall>P\<in>set pls. pool_ok kind n P"
  shows "\<exists>nw. (\<forall>P\<in>set pls. seated_ok kind P (nw P)) \<and>
     (\<forall>i l. (i, l) \<in> set sets \<longleftrightarrow>
        (\<exists>P\<in>set pls. 2 \<le> length (old_members P l @ nw P l) \<and> i \<in> cand_id ` set (nw P l)))"
  using assms
proof (induction pls arbitrary: n sets)
  case (Cons P pls)
  obtain gs m joined sets' where
    run: "join_all kind (unlinked P) (existing_groups P, n, []) = Inr (gs, m, joined)"
    and rest: "pool_passes kind pls m = Inr sets'" and sets: "sets = settle (gs, m, joined) @ sets'"
    using Cons.prems(1) by (auto simp: bind_result_Inr_iff)
  have P: "pool_ok kind n P" using Cons.prems(3) by simp
  have "distinct (unlinked P)" using P by (simp add: unlinked_def pool_ok_def)
  then have J: "join_inv kind P (gs, m, joined)" "n \<le> m" "distinct (map fst joined)"
      "set (map fst joined) \<subseteq> set (unlinked P)"
    using join_all_inv [OF existing_groups_inv run] P by (auto simp: pool_ok_def)
  have "\<forall>Q\<in>set pls. pool_ok kind m Q"
    using Cons.prems(3) J(2) less_le_trans unfolding pool_ok_def by fastforce
  with Cons.IH [OF rest] Cons.prems(2) obtain nw where
    nw: "\<forall>Q\<in>set pls. seated_ok kind Q (nw Q)"
      "\<And>i l. (i, l) \<in> set sets' \<longleftrightarrow>
        (\<exists>Q\<in>set pls. 2 \<le> length (old_members Q l @ nw Q l) \<and> i \<in> cand_id ` set (nw Q l))"
    by auto
  let ?nw = "nw(P := new_members joined)"
  have new: "P \<notin> set pls" using Cons.prems(2) by simp
  have "\<forall>Q\<in>set (P # pls). seated_ok kind Q (?nw Q)"
    using nw(1) join_inv_seated [OF J(1,3,4)] by simp
  moreover have "(i, l) \<in> set sets \<longleftrightarrow>
      (\<exists>Q\<in>set (P # pls). 2 \<le> length (old_members Q l @ ?nw Q l) \<and> i \<in> cand_id ` set (?nw Q l))" for i l
  proof -
    have "(\<exists>Q\<in>set pls. 2 \<le> length (old_members Q l @ ?nw Q l) \<and> i \<in> cand_id ` set (?nw Q l)) \<longleftrightarrow>
        (i, l) \<in> set sets'"
      unfolding nw(2) using new by (intro bex_cong) auto
    then show ?thesis using settle_iff [OF J(1), of i l] by (simp add: sets)
  qed
  ultimately show ?case by blast
qed simp

section \<open>The whole pass\<close>

definition pool_of :: "candidate list \<Rightarrow> int \<times> int \<Rightarrow> candidate list" where
  "pool_of cs p = filter (\<lambda>c. (cand_map c, team c) = p) (filter eligible cs)"

lemma in_pools: "P \<in> snd ` set (pools cs) \<longleftrightarrow> (\<exists>p. P = pool_of cs p \<and> P \<noteq> [])"
proof -
  have "P \<in> snd ` set (pools cs) \<longleftrightarrow> (\<exists>p. (p, P) \<in> set (pools cs))" by force
  then show ?thesis unfolding pools_def pool_of_def in_bt_group .
qed

lemma in_pool_of: "c \<in> set (pool_of cs p) \<longleftrightarrow> c \<in> set cs \<and> eligible c \<and> (cand_map c, team c) = p"
  by (auto simp: pool_of_def)

lemma old_members_network: "old_members (pool_of cs (m, t)) l = network cs (m, t, l)"
  by (simp add: old_members_def pool_of_def network_def) (meson filter_cong)

lemma greatest_link_ge: "c \<in> set cs \<Longrightarrow> link c = Some l \<Longrightarrow> l \<le> greatest_link cs"
proof -
  assume "c \<in> set cs" "link c = Some l"
  then have "l \<in> set (List.map_filter link cs)" by (force simp: List.map_filter_def)
  moreover have "x \<in> set xs \<Longrightarrow> x \<le> fold max xs y" "y \<le> fold max xs y" for x y :: nat and xs
    by (induction xs arbitrary: y) (auto intro: order_trans [OF max.cobounded2] order_trans [OF max.cobounded1])
  ultimately show ?thesis by (simp add: greatest_link_def)
qed

lemma pools_ok:
  assumes "networks_ok kind cs" and "distinct cs" and "P \<in> snd ` set (pools cs)"
  shows "pool_ok kind (greatest_link cs + 1) P"
proof -
  obtain m t where P: "P = pool_of cs (m, t)" using assms(3) unfolding in_pools by auto
  have "length (old_members P l) \<le> group_limit kind (masters_of (old_members P l))" for l
    using assms(1) unfolding P old_members_network networks_ok_def seats_ok_def by force
  moreover have "l < greatest_link cs + 1" if ne: "old_members P l \<noteq> []" for l
  proof -
    obtain c where "c \<in> set (old_members P l)" using ne by (meson hd_in_set)
    then have "c \<in> set cs" "link c = Some l" by (auto simp: old_members_def P pool_of_def)
    then show ?thesis using greatest_link_ge by fastforce
  qed
  ultimately show ?thesis using assms(2) by (simp add: pool_ok_def P pool_of_def)
qed

text \<open>The link a unit ends up with.\<close>

definition new_link :: "(int \<times> nat) list \<Rightarrow> candidate \<Rightarrow> nat option" where
  "new_link sets c = (case map_of sets (cand_id c) of Some l \<Rightarrow> Some l | None \<Rightarrow> link c)"

lemma set_links_map: "set_links sets cs = map (\<lambda>c. c\<lparr>link := new_link sets c\<rparr>) cs"
  by (auto simp: set_links_def new_link_def split: option.splits)

lemma network_set_links:
  "network (set_links sets cs) (m, t, l) =
     map (\<lambda>c. c\<lparr>link := new_link sets c\<rparr>) (filter (\<lambda>c. new_link sets c = Some l) (pool_of cs (m, t)))"
  unfolding set_links_map network_def pool_of_def by (induction cs) auto

lemma seats_ok_relinked:
  "seats_ok kind (map (\<lambda>c. c\<lparr>link := f c\<rparr>) cs) \<longleftrightarrow> seats_ok kind cs"
proof -
  have "masters_of (map (\<lambda>c. c\<lparr>link := f c\<rparr>) cs) = masters_of cs" by (induction cs) simp_all
  then show ?thesis by (simp add: seats_ok_def)
qed

lemma sets_exact:
  assumes dist: "distinct (map cand_id cs)"
    and nw: "\<forall>P\<in>snd ` set (pools cs). seated_ok kind P (nw P)"
    and sets: "\<And>i l. (i, l) \<in> set sets \<longleftrightarrow> (\<exists>P\<in>snd ` set (pools cs).
        2 \<le> length (old_members P l @ nw P l) \<and> i \<in> cand_id ` set (nw P l))"
    and c: "c \<in> set cs"
  shows "map_of sets (cand_id c) = Some l \<longleftrightarrow>
     eligible c \<and> (let P = pool_of cs (cand_map c, team c)
                   in 2 \<le> length (old_members P l @ nw P l) \<and> c \<in> set (nw P l))"
proof -
  let ?P = "pool_of cs (cand_map c, team c)"
  have inj: "x = c" if "x \<in> set cs" "cand_id x = cand_id c" for x
    using dist that c by (auto simp: distinct_map inj_on_def)
  have inside: "set (nw P l) \<subseteq> set P" if "P \<in> snd ` set (pools cs)" for P l
    using nw that by (fastforce simp: seated_ok_def unlinked_def)
  have here: "P = ?P \<and> eligible c" if "P \<in> snd ` set (pools cs)" "c \<in> set P" for P
    using that by (auto simp: in_pools in_pool_of)
  have member: "(cand_id c, l) \<in> set sets \<longleftrightarrow>
      eligible c \<and> 2 \<le> length (old_members ?P l @ nw ?P l) \<and> c \<in> set (nw ?P l)" for l
  proof
    assume "(cand_id c, l) \<in> set sets"
    then obtain P x where P: "P \<in> snd ` set (pools cs)" "2 \<le> length (old_members P l @ nw P l)"
      and x: "x \<in> set (nw P l)" "cand_id x = cand_id c" unfolding sets by (metis imageE)
    then have "x \<in> set P" using inside by blast
    then have "x = c" using P(1) x(2) inj by (auto simp: in_pools in_pool_of)
    then show "eligible c \<and> 2 \<le> length (old_members ?P l @ nw ?P l) \<and> c \<in> set (nw ?P l)"
      using P x \<open>x \<in> set P\<close> here by metis
  next
    assume r: "eligible c \<and> 2 \<le> length (old_members ?P l @ nw ?P l) \<and> c \<in> set (nw ?P l)"
    then have "c \<in> set ?P" using c by (simp add: in_pool_of)
    then have "?P \<in> snd ` set (pools cs)" unfolding in_pools by (metis empty_iff list.set(1))
    then show "(cand_id c, l) \<in> set sets" unfolding sets using r by blast
  qed
  have unique: "l = l'" if "(cand_id c, l) \<in> set sets" "(cand_id c, l') \<in> set sets" for l l'
  proof -
    have "c \<in> set (nw ?P l)" "c \<in> set (nw ?P l')" "c \<in> set ?P"
      using that member c by (auto simp: in_pool_of)
    moreover from this have "seated_ok kind ?P (nw ?P)"
      using nw in_pools by (metis empty_iff list.set(1))
    ultimately show ?thesis unfolding seated_ok_def by blast
  qed
  have "map_of sets (cand_id c) = Some l \<longleftrightarrow> (cand_id c, l) \<in> set sets"
    using unique by (metis map_of_SomeD map_of_eq_None_iff not_None_eq fst_conv image_eqI)
  then show ?thesis unfolding member Let_def .
qed

lemma new_link_exact:
  assumes dist: "distinct (map cand_id cs)"
    and nw: "\<forall>P\<in>snd ` set (pools cs). seated_ok kind P (nw P)"
    and sets: "\<And>i l. (i, l) \<in> set sets \<longleftrightarrow> (\<exists>P\<in>snd ` set (pools cs).
        2 \<le> length (old_members P l @ nw P l) \<and> i \<in> cand_id ` set (nw P l))"
    and c: "c \<in> set cs"
  shows "new_link sets c = Some l \<longleftrightarrow>
     link c = Some l \<or>
     eligible c \<and> 2 \<le> length (old_members (pool_of cs (cand_map c, team c)) l @ nw (pool_of cs (cand_map c, team c)) l)
     \<and> c \<in> set (nw (pool_of cs (cand_map c, team c)) l)"
proof -
  let ?P = "pool_of cs (cand_map c, team c)"
  note set = sets_exact [OF dist nw sets c, unfolded Let_def]
  have "link c = None" if "map_of sets (cand_id c) = Some l'" for l'
  proof -
    have "c \<in> set ?P" "c \<in> set (nw ?P l')" using that c unfolding set by (auto simp: in_pool_of)
    moreover from this(1) have "seated_ok kind ?P (nw ?P)" using nw in_pools by (metis empty_iff list.set(1))
    ultimately have "c \<in> set (unlinked ?P)" unfolding seated_ok_def by blast
    then show ?thesis by (simp add: unlinked_def)
  qed
  then show ?thesis using set [of l] by (cases "map_of sets (cand_id c)") (auto simp: new_link_def)
qed

lemma pool_linked_seats:
  assumes ok: "networks_ok kind cs" and dist: "distinct (map cand_id cs)"
    and nw: "\<forall>P\<in>snd ` set (pools cs). seated_ok kind P (nw P)"
    and sets: "\<And>i l. (i, l) \<in> set sets \<longleftrightarrow> (\<exists>P\<in>snd ` set (pools cs).
        2 \<le> length (old_members P l @ nw P l) \<and> i \<in> cand_id ` set (nw P l))"
  shows "seats_ok kind (filter (\<lambda>c. new_link sets c = Some l) (pool_of cs (m, t)))"
proof (cases "pool_of cs (m, t) = []")
  case False
  define P where "P = pool_of cs (m, t)"
  let ?F = "filter (\<lambda>c. new_link sets c = Some l) P"
  have seated: "seated_ok kind P (nw P)" using nw in_pools False unfolding P_def by blast
  have "distinct P" using dist by (simp add: P_def pool_of_def distinct_map)
  then have dF: "distinct ?F" and dold: "distinct (old_members P l)" by (simp_all add: old_members_def)
  have sub: "set (nw P l) \<subseteq> set P" "\<forall>c\<in>set (nw P l). link c = None"
    using seated by (fastforce simp: seated_ok_def unlinked_def)+
  have inP: "c \<in> set cs \<and> eligible c \<and> pool_of cs (cand_map c, team c) = P" if "c \<in> set P" for c
    using that by (auto simp: P_def in_pool_of)
  have link: "new_link sets c = Some l \<longleftrightarrow>
      link c = Some l \<or> 2 \<le> length (old_members P l @ nw P l) \<and> c \<in> set (nw P l)" if "c \<in> set P" for c
    using new_link_exact [OF dist nw sets, of c l] inP [OF that] by auto
  have F: "set ?F = (if 2 \<le> length (old_members P l @ nw P l) then set (old_members P l @ nw P l)
      else set (old_members P l))"
    using link sub(1) by (auto simp: old_members_def)
  show ?thesis
  proof (cases "2 \<le> length (old_members P l @ nw P l)")
    case True
    have "distinct (old_members P l @ nw P l)"
      using dold seated sub(2) by (auto simp: seated_ok_def old_members_def)
    then have "mset ?F = mset (old_members P l @ nw P l)"
      using dF F True by (metis set_eq_iff_mset_eq_distinct)
    moreover have "seats_ok kind (old_members P l @ nw P l)"
      using seated True unfolding seated_ok_def seats_ok_def by blast
    ultimately show ?thesis using seats_ok_mset unfolding P_def by blast
  next
    case False
    then have "mset ?F = mset (old_members P l)" using dF dold F by (metis set_eq_iff_mset_eq_distinct)
    moreover have "seats_ok kind (old_members P l)"
      using ok unfolding P_def old_members_network networks_ok_def by blast
    ultimately show ?thesis using seats_ok_mset unfolding P_def by blast
  qed
qed (simp add: seats_ok_def)

lemma passes_seats:
  assumes ok: "networks_ok kind cs" and dist: "distinct (map cand_id cs)"
    and run: "pool_passes kind (map snd (pools cs)) (greatest_link cs + 1) = Inr sets"
  obtains nw where "\<forall>P\<in>snd ` set (pools cs). seated_ok kind P (nw P)"
    and "\<And>i l. (i, l) \<in> set sets \<longleftrightarrow> (\<exists>P\<in>snd ` set (pools cs).
        2 \<le> length (old_members P l @ nw P l) \<and> i \<in> cand_id ` set (nw P l))"
proof -
  have "distinct (map snd (pools cs))" unfolding pools_def by (rule distinct_groups)
  moreover have "\<forall>P\<in>set (map snd (pools cs)). pool_ok kind (greatest_link cs + 1) P"
    using pools_ok [OF ok] dist by (simp add: distinct_map)
  ultimately obtain nw where "\<forall>P\<in>snd ` set (pools cs). seated_ok kind P (nw P)"
    "\<And>i l. (i, l) \<in> set sets \<longleftrightarrow> (\<exists>P\<in>snd ` set (pools cs).
        2 \<le> length (old_members P l @ nw P l) \<and> i \<in> cand_id ` set (nw P l))"
    using pool_passes_seated [OF run] unfolding set_map by blast
  then show thesis by (rule that)
qed

lemma set_links_ok:
  assumes ok: "networks_ok kind cs" and dist: "distinct (map cand_id cs)"
    and run: "pool_passes kind (map snd (pools cs)) (greatest_link cs + 1) = Inr sets"
  shows "networks_ok kind (set_links sets cs)
       \<and> (\<forall>c\<in>set cs. link c \<noteq> None \<longrightarrow> c \<in> set (set_links sets cs))"
proof -
  obtain nw where nw: "\<forall>P\<in>snd ` set (pools cs). seated_ok kind P (nw P)"
    and sets: "\<And>i l. (i, l) \<in> set sets \<longleftrightarrow> (\<exists>P\<in>snd ` set (pools cs).
        2 \<le> length (old_members P l @ nw P l) \<and> i \<in> cand_id ` set (nw P l))"
    using passes_seats [OF assms] by metis
  have "seats_ok kind (network (set_links sets cs) (m, t, l))" for m t l
    unfolding network_set_links seats_ok_relinked by (rule pool_linked_seats [OF ok dist nw sets])
  moreover have "new_link sets c = None" if "c \<in> set cs" "\<not> eligible c" for c
    using new_link_exact [OF dist nw sets that(1)] that ok
    by (cases "new_link sets c") (auto simp: networks_ok_def)
  moreover have "new_link sets c = link c" if "c \<in> set cs" "link c \<noteq> None" for c
    using new_link_exact [OF dist nw sets that(1)] that(2) by auto
  then have "c \<in> set (set_links sets cs)" if "c \<in> set cs" "link c \<noteq> None" for c
    using that unfolding set_links_map set_map by (intro image_eqI [of _ _ c]) simp_all
  ultimately show ?thesis by (auto simp: networks_ok_def set_links_map)
qed

section \<open>The pass returns\<close>

lemma join_one_total:
  assumes "fits_u64 (n + 1)"
  shows "\<exists>gs' n' joined'. join_one kind c (gs, n, joined) = Inr (gs', n', joined') \<and> n' \<le> n + 1"
  using assms by (cases "target_group kind gs c") (simp_all add: join_one_def)

lemma join_all_total:
  assumes "fits_u64 (n + length cs)"
  shows "\<exists>gs' n' joined'. join_all kind cs (gs, n, joined) = Inr (gs', n', joined') \<and> n' \<le> n + length cs"
  using assms
proof (induction cs arbitrary: gs n joined)
  case (Cons c cs)
  have "fits_u64 (n + 1)" using Cons.prems by (rule fits_u64_mono) simp
  then obtain gs1 n1 j1 where one: "join_one kind c (gs, n, joined) = Inr (gs1, n1, j1)" "n1 \<le> n + 1"
    using join_one_total by blast
  have "fits_u64 (n1 + length cs)" using Cons.prems by (rule fits_u64_mono) (use one(2) in simp)
  from Cons.IH [OF this, of gs1 j1] obtain gs' n' j' where
    "join_all kind cs (gs1, n1, j1) = Inr (gs', n', j')" "n' \<le> n1 + length cs" by blast
  then show ?case using one by auto
qed simp

lemma pool_passes_total:
  assumes "fits_u64 (n + sum_list (map length pls))"
  shows "\<exists>sets. pool_passes kind pls n = Inr sets"
  using assms
proof (induction pls arbitrary: n)
  case (Cons P pls)
  have len: "length (unlinked P) \<le> length P" by (simp add: unlinked_def)
  have "fits_u64 (n + length (unlinked P))" using Cons.prems by (rule fits_u64_mono) (use len in simp)
  then obtain gs n' j where run: "join_all kind (unlinked P) (existing_groups P, n, []) = Inr (gs, n', j)"
    and n': "n' \<le> n + length (unlinked P)" using join_all_total by blast
  have "fits_u64 (n' + sum_list (map length pls))"
    using Cons.prems by (rule fits_u64_mono) (use len n' in simp)
  from Cons.IH [OF this] show ?case using run by auto
qed simp

lemma greatest_link_le:
  "(\<And>c l. c \<in> set cs \<Longrightarrow> link c = Some l \<Longrightarrow> l \<le> b) \<Longrightarrow> greatest_link cs \<le> b"
proof -
  assume le: "\<And>c l. c \<in> set cs \<Longrightarrow> link c = Some l \<Longrightarrow> l \<le> b"
  have "\<forall>x\<in>set (List.map_filter link cs). x \<le> b" using le by (auto simp: List.map_filter_def)
  moreover have "\<forall>x\<in>set xs. x \<le> b \<Longrightarrow> y \<le> b \<Longrightarrow> fold max xs y \<le> b" for xs y
    by (induction xs arbitrary: y) auto
  ultimately show ?thesis by (simp add: greatest_link_def)
qed

lemma greatest_link_drop_stale: "greatest_link (drop_stale kind cs) \<le> greatest_link cs"
  by (rule greatest_link_le)
    (auto simp: drop_stale_def Let_def intro: greatest_link_ge split: if_splits)

lemma pools_length: "sum_list (map length (map snd (pools cs))) \<le> length cs"
proof -
  have "sum_list (map length (map snd (pools cs))) = sum_list (map (\<lambda>p. length (snd p)) (pools cs))"
    by (simp add: comp_def)
  also have "\<dots> = length (filter eligible cs)" unfolding pools_def by (rule length_groups)
  also have "\<dots> \<le> length cs" by simp
  finally show ?thesis .
qed

section \<open>Seats in good order are kept\<close>

lemma group_stale_none: "seats_ok kind g \<Longrightarrow> g \<noteq> [] \<Longrightarrow> group_stale kind g = []"
  by (auto simp: group_stale_def Let_def seats_ok_def masters_of_def [symmetric])

lemma drop_stale_keeps:
  assumes "distinct (map cand_id cs)" and "seats_ok kind (network cs k)" and "c \<in> set (network cs k)"
  shows "c \<in> set (drop_stale kind cs)"
proof -
  have "group_stale kind (network cs k) = []"
    using assms(2) by (rule group_stale_none) (use assms(3) in auto)
  then have "cand_id c \<notin> set (stale_links cs kind)" using stale_iff [OF assms(1,3)] by simp
  moreover have "c \<in> set cs" using assms(3) by (simp add: network_def)
  ultimately show ?thesis by (force simp: drop_stale_def Let_def)
qed

section \<open>Claims\<close>

definition sample_unit :: "int \<Rightarrow> int \<Rightarrow> nat option \<Rightarrow> nat \<Rightarrow> candidate" where
  "sample_unit i t l w =
     \<lparr>cand_id = i, cand_map = 7, team = t, link = l, eligible = True, joinable = True, working_masters = w\<rparr>"

lemma reconcile_links_steps:
  assumes "reconcile_links kind cs = Inr cs'" and "cs \<noteq> []"
  obtains sets where
    "pool_passes kind (map snd (pools (drop_stale kind cs))) (greatest_link (drop_stale kind cs) + 1) = Inr sets"
    and "cs' = set_links sets (drop_stale kind cs)"
  using assms by (auto simp: reconcile_links_def Let_def bind_result_Inr_iff)

text \<open>
  C18. Capacity of automatic networks. Whatever links the units of a family had, when the
  reconciliation pass returns, every network on a map and team holds either nobody or at least two
  units and at most as many as its working masters carry (for C3, one plus three per master, twelve
  at the most; for C3i, six); units whose hardware is not eligible hold no link; and the pass returns
  the same units in the same order.
\<close>
theorem network_capacity:
  assumes "distinct (map cand_id cs)" and "reconcile_links kind cs = Inr cs'"
  shows "networks_ok kind cs' \<and> map (candidate.link_update (\<lambda>_. None)) cs' = map (candidate.link_update (\<lambda>_. None)) cs"
proof (cases "cs = []")
  case True
  then show ?thesis using assms(2) by (simp add: reconcile_links_def networks_ok_def network_def seats_ok_def)
next
  case False
  define cs1 where "cs1 = drop_stale kind cs"
  obtain sets where run: "pool_passes kind (map snd (pools cs1)) (greatest_link cs1 + 1) = Inr sets"
    and cs': "cs' = set_links sets cs1"
    using reconcile_links_steps [OF assms(2) False] unfolding cs1_def .
  have "networks_ok kind cs1" "distinct (map cand_id cs1)"
    using drop_stale_ok [OF assms(1)] assms(1) by (simp_all add: cs1_def drop_stale_ids)
  then have "networks_ok kind cs'" unfolding cs' using run set_links_ok by blast
  moreover have "map (candidate.link_update (\<lambda>_. None)) cs' = map (candidate.link_update (\<lambda>_. None)) cs"
    by (simp add: cs' set_links_map cs1_def drop_stale_def Let_def)
  ultimately show ?thesis by blast
qed

text \<open>
  Four units of one team and a loner: the master 1 and the slave 2 keep network 5, the unlinked 3
  joins them, and the loner 4 of the other team loses its link to a network of one.
\<close>
theorem network_capacity_witness:
  "networks_ok C3 [sample_unit 1 1 (Some 5) 1, sample_unit 2 1 (Some 5) 0, sample_unit 3 1 (Some 5) 0,
                   sample_unit 4 2 None 1]"
proof -
  have "reconcile_links C3 [sample_unit 1 1 (Some 5) 1, sample_unit 2 1 (Some 5) 0, sample_unit 3 1 None 0,
                            sample_unit 4 2 (Some 5) 1] =
        Inr [sample_unit 1 1 (Some 5) 1, sample_unit 2 1 (Some 5) 0, sample_unit 3 1 (Some 5) 0,
             sample_unit 4 2 None 1]"
    by code_simp
  from network_capacity [OF _ this] show ?thesis by (simp add: sample_unit_def)
qed

text \<open>
  The reconciliation pass returns. Unless the network identities are about to run out (the
  greatest link plus the number of units does not fit in 64 bits), no unit list makes the pass fail:
  the only error path is the checked addition on identities.
\<close>
lemma network_pass_returns:
  assumes "fits_u64 (greatest_link cs + length cs + 1)"
  shows "\<exists>cs'. reconcile_links kind cs = Inr cs'"
proof -
  define cs1 where "cs1 = drop_stale kind cs"
  have le: "greatest_link cs1 \<le> greatest_link cs" "length cs1 = length cs"
    unfolding cs1_def by (rule greatest_link_drop_stale, simp add: drop_stale_def Let_def)
  have "fits_u64 (greatest_link cs1 + 1 + sum_list (map length (map snd (pools cs1))))"
    using assms by (rule fits_u64_mono) (use le pools_length [of cs1] in simp)
  then obtain sets where "pool_passes kind (map snd (pools cs1)) (greatest_link cs1 + 1) = Inr sets"
    using pool_passes_total by blast
  moreover have "fits_u64 (greatest_link cs1 + 1)" using assms by (rule fits_u64_mono) (use le in simp)
  ultimately show ?thesis unfolding reconcile_links_def Let_def cs1_def [symmetric] by simp
qed

text \<open>
  Existing memberships are not rearranged. A unit whose network has between two members and the
  number its masters carry before the pass is, link included, the same after it.
\<close>
lemma memberships_kept:
  assumes "distinct (map cand_id cs)" and "reconcile_links kind cs = Inr cs'"
    and "c \<in> set (network cs k)" and "seats_ok kind (network cs k)"
  shows "c \<in> set cs'"
proof -
  have "cs \<noteq> []" using assms(3) by (auto simp: network_def)
  then obtain sets where run: "pool_passes kind (map snd (pools (drop_stale kind cs)))
        (greatest_link (drop_stale kind cs) + 1) = Inr sets"
    and cs': "cs' = set_links sets (drop_stale kind cs)" using reconcile_links_steps [OF assms(2)] by blast
  have "c \<in> set (drop_stale kind cs)" using assms(1,4,3) by (rule drop_stale_keeps)
  moreover have "link c \<noteq> None" using assms(3) by (auto simp: network_def)
  ultimately show ?thesis
    unfolding cs' using set_links_ok [OF drop_stale_ok [OF assms(1)] _ run] assms(1)
    by (simp add: drop_stale_ids)
qed

end
