(* ===== verification/Hex_Geometry.thy ===== *)
theory Hex_Geometry
  imports Prelude
begin

text \<open>
  \<open>crates/map/src/geometry.rs\<close>, the discrete part: offset coordinates of a column-staggered hex
  grid, their cube coordinates, adjacency and hex distance. Coordinates (\<open>i32\<close>, widened to \<open>i64\<close>
  before any arithmetic) are integers. The continuous geometry (\<open>Point\<close>, in \<open>f64\<close>) is not modelled.
\<close>

section \<open>Definitions\<close>

record hex_coordinate =
  hex_x :: int
  hex_y :: int

text \<open>The halved number is even, so Rust's truncating division and \<open>div\<close> agree on it.\<close>

definition cube :: "hex_coordinate \<Rightarrow> int \<times> int \<times> int" where
  "cube c = (let q = hex_x c; r = hex_y c - (q + q mod 2) div 2 in (q, r, - q - r))"

definition hex_distance :: "hex_coordinate \<Rightarrow> hex_coordinate \<Rightarrow> nat" where
  "hex_distance a b =
     (case (cube a, cube b) of ((qa, ra, sa), (qb, rb, sb)) \<Rightarrow>
        max (nat \<bar>qa - qb\<bar>) (max (nat \<bar>ra - rb\<bar>) (nat \<bar>sa - sb\<bar>)))"

definition directions :: "(int \<times> int) list" where
  "directions = [(0, -1), (1, -1), (1, 0), (0, 1), (-1, 1), (-1, 0)]"

definition from_cube :: "int \<Rightarrow> int \<Rightarrow> hex_coordinate" where
  "from_cube q r = \<lparr>hex_x = q, hex_y = r + (q + q mod 2) div 2\<rparr>"

definition adjacent :: "hex_coordinate \<Rightarrow> hex_coordinate list" where
  "adjacent c = (case cube c of (q, r, _) \<Rightarrow> map (\<lambda>(dq, dr). from_cube (q + dq) (r + dr)) directions)"

definition fits_i32 :: "int \<Rightarrow> bool" where
  "fits_i32 n \<longleftrightarrow> - (2 ^ 31) \<le> n \<and> n < 2 ^ 31"

definition neighbors :: "hex_coordinate \<Rightarrow> hex_coordinate list option" where
  "neighbors c =
     (if list_all (\<lambda>n. fits_i32 (hex_x n) \<and> fits_i32 (hex_y n)) (adjacent c)
      then Some (adjacent c) else None)"

definition on_map :: "nat \<Rightarrow> nat \<Rightarrow> hex_coordinate \<Rightarrow> bool" where
  "on_map width height c \<longleftrightarrow> 0 \<le> hex_x c \<and> hex_x c < int width \<and> 0 \<le> hex_y c \<and> hex_y c < int height"

definition neighbors_within :: "hex_coordinate \<Rightarrow> nat \<Rightarrow> nat \<Rightarrow> hex_coordinate option list" where
  "neighbors_within c width height =
     map (\<lambda>n. if on_map width height n then Some n else None) (adjacent c)"

section \<open>Distance\<close>

lemma cube_from_cube: "cube (from_cube q r) = (q, r, - q - r)"
  by (simp add: cube_def from_cube_def Let_def)

lemma from_cube_cube: "cube c = (q, r, s) \<Longrightarrow> from_cube q r = c"
  by (auto simp: cube_def from_cube_def Let_def)

lemma cube_zero_sum: "cube c = (q, r, s) \<Longrightarrow> s = - q - r"
  by (auto simp: cube_def Let_def)

text \<open>The distance from the difference of two pairs of axial coordinates.\<close>

definition axial_norm :: "int \<Rightarrow> int \<Rightarrow> int" where
  "axial_norm x y = max \<bar>x\<bar> (max \<bar>y\<bar> \<bar>x + y\<bar>)"

lemma axial_norm_le: "axial_norm x y \<le> k \<longleftrightarrow> \<bar>x\<bar> \<le> k \<and> \<bar>y\<bar> \<le> k \<and> \<bar>x + y\<bar> \<le> k"
  by (simp add: axial_norm_def)

lemma axial_norm_triangle: "axial_norm (x + x') (y + y') \<le> axial_norm x y + axial_norm x' y'"
proof -
  have "\<bar>x\<bar> \<le> axial_norm x y" "\<bar>y\<bar> \<le> axial_norm x y" "\<bar>x + y\<bar> \<le> axial_norm x y"
    "\<bar>x'\<bar> \<le> axial_norm x' y'" "\<bar>y'\<bar> \<le> axial_norm x' y'" "\<bar>x' + y'\<bar> \<le> axial_norm x' y'"
    by (simp_all add: axial_norm_def)
  then show ?thesis unfolding axial_norm_le by linarith
qed

lemma axial_norm_one: "axial_norm x y = 1 \<longleftrightarrow> (x, y) \<in> set directions"
proof
  assume n: "axial_norm x y = 1"
  then have "axial_norm x y \<le> 1" by simp
  then have "\<bar>x\<bar> \<le> 1" "\<bar>y\<bar> \<le> 1" "\<bar>x + y\<bar> \<le> 1" unfolding axial_norm_le by blast+
  then have "x = -1 \<or> x = 0 \<or> x = 1" "y = -1 \<or> y = 0 \<or> y = 1" by arith+
  then show "(x, y) \<in> set directions" using n by (elim disjE) (simp_all add: axial_norm_def directions_def)
qed (auto simp: axial_norm_def directions_def)

lemma axial_norm_closer:
  assumes "\<not> (x = 0 \<and> y = 0)"
  obtains dx dy where "(dx, dy) \<in> set directions" "axial_norm x y = 1 + axial_norm (x - dx) (y - dy)"
proof -
  consider "x \<ge> 1" "y \<ge> 0" | "x = 0" "y \<ge> 1" | "x = 0" "y \<le> -1" | "x \<le> -1" "y \<le> 0" | "x \<ge> 1" "y \<le> -1" | "x \<le> -1" "y \<ge> 1"
    using assms by linarith
  then show thesis
  proof cases
    case 1
    then have "axial_norm x y = x + y" "axial_norm (x - 1) (y - 0) = x + y - 1"
      by (simp_all add: axial_norm_def max_def)
    then show ?thesis by (intro that [of 1 0]) (simp_all add: directions_def)
  next
    case 2
    then show ?thesis by (intro that [of 0 1]) (simp_all add: directions_def axial_norm_def)
  next
    case 3
    then show ?thesis by (intro that [of 0 "-1"]) (simp_all add: directions_def axial_norm_def)
  next
    case 4
    then have "axial_norm x y = - x - y" "axial_norm (x - (-1)) (y - 0) = - x - y - 1"
      by (simp_all add: axial_norm_def max_def)
    then show ?thesis by (intro that [of "-1" 0]) (simp_all add: directions_def)
  next
    case 5
    then have "axial_norm x y = max x (- y)" "axial_norm (x - 1) (y - (-1)) = max (x - 1) (- y - 1)"
      by (simp_all add: axial_norm_def max_def abs_if)
    then show ?thesis by (intro that [of 1 "-1"]) (simp_all add: directions_def max_def)
  next
    case 6
    then have "axial_norm x y = max (- x) y" "axial_norm (x - (-1)) (y - 1) = max (- x - 1) (y - 1)"
      by (simp_all add: axial_norm_def max_def abs_if)
    then show ?thesis by (intro that [of "-1" 1]) (simp_all add: directions_def max_def)
  qed
qed

lemma hex_distance_cube:
  assumes "cube a = (qa, ra, sa)" and "cube b = (qb, rb, sb)"
  shows "int (hex_distance a b) = axial_norm (qb - qa) (rb - ra)"
proof -
  have "\<bar>sa - sb\<bar> = \<bar>(qb - qa) + (rb - ra)\<bar>"
    using cube_zero_sum [OF assms(1)] cube_zero_sum [OF assms(2)] by simp
  then show ?thesis using assms by (simp add: hex_distance_def axial_norm_def of_nat_max abs_minus_commute)
qed

lemma hex_distance_sym: "hex_distance a b = hex_distance b a"
  by (auto simp: hex_distance_def abs_minus_commute split: prod.splits)

lemma hex_distance_zero: "hex_distance a b = 0 \<longleftrightarrow> a = b"
proof
  assume d: "hex_distance a b = 0"
  obtain qa ra sa qb rb sb where c: "cube a = (qa, ra, sa)" "cube b = (qb, rb, sb)"
    by (metis prod_cases3)
  have "axial_norm (qb - qa) (rb - ra) \<le> 0" using d hex_distance_cube [OF c] by simp
  then have "qa = qb" "ra = rb" unfolding axial_norm_le by simp_all
  then show "a = b" using c from_cube_cube by metis
qed (simp add: hex_distance_def split: prod.splits)

lemma hex_distance_triangle: "hex_distance a c \<le> hex_distance a b + hex_distance b c"
proof -
  obtain qa ra sa qb rb sb qc rc sc
    where c: "cube a = (qa, ra, sa)" "cube b = (qb, rb, sb)" "cube c = (qc, rc, sc)"
    by (metis prod_cases3)
  have "int (hex_distance a c) \<le> int (hex_distance a b) + int (hex_distance b c)"
    unfolding hex_distance_cube [OF c(1,2)] hex_distance_cube [OF c(2,3)] hex_distance_cube [OF c(1,3)]
    using axial_norm_triangle [of "qb - qa" "qc - qb" "rb - ra" "rc - rb"] by simp
  then show ?thesis by linarith
qed

lemma in_adjacent:
  assumes "cube c = (q, r, s)"
  shows "n \<in> set (adjacent c) \<longleftrightarrow> (\<exists>(dq, dr)\<in>set directions. cube n = (q + dq, r + dr, - (q + dq) - (r + dr)))"
proof -
  have "n = from_cube x y \<longleftrightarrow> cube n = (x, y, - x - y)" for x y
    using cube_from_cube from_cube_cube by blast
  then show ?thesis using assms by (auto simp: adjacent_def directions_def)
qed

lemma adjacent_distance: "n \<in> set (adjacent c) \<longleftrightarrow> hex_distance c n = 1"
proof -
  obtain q r s q' r' s' where c: "cube c = (q, r, s)" "cube n = (q', r', s')"
    by (metis prod_cases3)
  have s': "s' = - q' - r'" using c(2) by (rule cube_zero_sum)
  have key: "(case d of (dq, dr) \<Rightarrow> (q', r', - q' - r') = (q + dq, r + dr, - (q + dq) - (r + dr)))
      \<longleftrightarrow> d = (q' - q, r' - r)" for d by (cases d) auto
  have "n \<in> set (adjacent c) \<longleftrightarrow> (q' - q, r' - r) \<in> set directions"
    unfolding in_adjacent [OF c(1)] c(2) s' key by blast
  moreover have "int (hex_distance c n) = 1 \<longleftrightarrow> (q' - q, r' - r) \<in> set directions"
    unfolding hex_distance_cube [OF c] by (rule axial_norm_one)
  ultimately show ?thesis by linarith
qed

text \<open>From any hex some neighbour is one step closer to any other hex.\<close>

lemma closer_neighbour:
  assumes "a \<noteq> b"
  shows "\<exists>n\<in>set (adjacent a). hex_distance a b = Suc (hex_distance n b)"
proof -
  obtain qa ra sa qb rb sb where c: "cube a = (qa, ra, sa)" "cube b = (qb, rb, sb)"
    by (metis prod_cases3)
  define x where "x = qb - qa"
  define y where "y = rb - ra"
  have ne: "\<not> (x = 0 \<and> y = 0)" using assms c from_cube_cube unfolding x_def y_def by (metis eq_iff_diff_eq_0)
  obtain dx dy where d: "(dx, dy) \<in> set directions" "axial_norm x y = 1 + axial_norm (x - dx) (y - dy)"
    using axial_norm_closer [OF ne] .
  define n where "n = from_cube (qa + dx) (ra + dy)"
  have n: "cube n = (qa + dx, ra + dy, - (qa + dx) - (ra + dy))" by (simp add: n_def cube_from_cube)
  have "n \<in> set (adjacent a)" unfolding in_adjacent [OF c(1)] n using d(1) by auto
  moreover have "int (hex_distance a b) = 1 + int (hex_distance n b)"
    using d(2) unfolding hex_distance_cube [OF c] hex_distance_cube [OF n c(2)]
    by (simp add: x_def y_def algebra_simps)
  ultimately show ?thesis by (intro bexI [of _ n]) linarith
qed

section \<open>Claims\<close>

text \<open>A walk from one hex to another through adjacent hexes, by its number of transitions.\<close>

inductive hex_walk :: "hex_coordinate \<Rightarrow> nat \<Rightarrow> hex_coordinate \<Rightarrow> bool" where
  hex_walk_here: "hex_walk a 0 a"
| hex_walk_step: "n \<in> set (adjacent a) \<Longrightarrow> hex_walk n k b \<Longrightarrow> hex_walk a (Suc k) b"

lemma hex_walk_ge: "hex_walk a k b \<Longrightarrow> hex_distance a b \<le> k"
proof (induction rule: hex_walk.induct)
  case (hex_walk_step n a k b)
  then show ?case using hex_distance_triangle [of a b n] by (simp add: adjacent_distance)
qed (simp add: hex_distance_zero)

lemma hex_walk_shortest: "hex_distance a b = k \<Longrightarrow> hex_walk a k b"
proof (induction k arbitrary: a)
  case 0
  then show ?case by (simp add: hex_distance_zero hex_walk_here)
next
  case (Suc k)
  then have "a \<noteq> b" using hex_distance_zero [of a b] by auto
  then obtain n where "n \<in> set (adjacent a)" "hex_distance a b = Suc (hex_distance n b)"
    using closer_neighbour by blast
  then show ?case using Suc by (intro hex_walk_step) auto
qed

text \<open>
  C21. Hex distance is what its documentation says: the least number of adjacent transitions between
  two hexes, on or off any map. The six cells \<open>adjacent\<close> lists are exactly those at distance one,
  and they are pairwise distinct.
\<close>
theorem distance_is_least_walk:
  "hex_walk a (hex_distance a b) b \<and> (\<forall>k. hex_walk a k b \<longrightarrow> hex_distance a b \<le> k)
   \<and> set (adjacent a) = {n. hex_distance a n = 1} \<and> distinct (adjacent a) \<and> length (adjacent a) = 6"
proof -
  obtain q r s where c: "cube a = (q, r, s)" by (metis prod_cases3)
  have "distinct (map cube (adjacent a))" "length (adjacent a) = 6"
    by (simp_all add: adjacent_def c directions_def cube_from_cube)
  then show ?thesis
    using hex_walk_shortest [of a b] hex_walk_ge [of a _ b] by (auto simp: adjacent_distance distinct_map)
qed

theorem distance_is_least_walk_witness:
  "hex_distance \<lparr>hex_x = 0, hex_y = 0\<rparr> \<lparr>hex_x = 3, hex_y = 2\<rparr> = 3
   \<and> hex_walk \<lparr>hex_x = 0, hex_y = 0\<rparr> 3 \<lparr>hex_x = 3, hex_y = 2\<rparr>"
proof -
  have d: "hex_distance \<lparr>hex_x = 0, hex_y = 0\<rparr> \<lparr>hex_x = 3, hex_y = 2\<rparr> = 3" by code_simp
  then show ?thesis
    using distance_is_least_walk [of "\<lparr>hex_x = 0, hex_y = 0\<rparr>" "\<lparr>hex_x = 3, hex_y = 2\<rparr>"] by simp
qed

end
