(* ===== verification/Heuristic_Graph.thy ===== *)
theory Heuristic_Graph
  imports Main
begin

text \<open>
  What a best-first search relies on: a graph whose edges have positive costs and a heuristic that
  falls along an edge by no more than its cost. The lemmas are the graph half of the correctness of
  A*: a search that has relaxed every edge out of its expanded nodes has, on any walk that leaves
  them, a frontier node whose estimate does not exceed the cost of the walk.
\<close>

fun walk_cost :: "('n \<Rightarrow> 'n \<Rightarrow> nat option) \<Rightarrow> 'n list \<Rightarrow> nat option" where
  "walk_cost edge [] = None"
| "walk_cost edge [u] = Some 0"
| "walk_cost edge (u # v # r) =
     (case edge u v of None \<Rightarrow> None | Some c \<Rightarrow> map_option ((+) c) (walk_cost edge (v # r)))"

lemma walk_cost_Cons:
  "walk_cost edge (u # v # r) = Some t \<longleftrightarrow>
     (\<exists>c t'. edge u v = Some c \<and> walk_cost edge (v # r) = Some t' \<and> t = c + t')"
  by (auto split: option.splits)

lemma walk_cost_snoc:
  "walk_cost edge (us @ [p]) = Some t \<Longrightarrow> edge p v = Some c \<Longrightarrow>
     walk_cost edge (us @ [p, v]) = Some (t + c)"
proof (induction us arbitrary: t)
  case (Cons u us)
  obtain w r where w: "us @ [p] = w # r" by (cases "us @ [p]") auto
  then have w': "us @ [p, v] = w # (r @ [v])" by (cases us) auto
  have "walk_cost edge (u # w # r) = Some t" using Cons.prems(1) w by simp
  then obtain c' t' where e: "edge u w = Some c'" "walk_cost edge (w # r) = Some t'" "t = c' + t'"
    unfolding walk_cost_Cons by blast
  have "walk_cost edge (us @ [p, v]) = Some (t' + c)" using Cons.IH [of t'] Cons.prems(2) e(2) w by simp
  then show ?case using e by (simp add: w')
qed simp

locale heuristic_graph =
  fixes edge :: "'n \<Rightarrow> 'n \<Rightarrow> nat option"
    and h :: "'n \<Rightarrow> nat"
  assumes edge_positive: "edge u v = Some c \<Longrightarrow> 0 < c"
    and h_consistent: "edge u v = Some c \<Longrightarrow> h u \<le> h v + c"
begin

lemma h_along_walk: "walk_cost edge us = Some t \<Longrightarrow> h (hd us) \<le> h (last us) + t"
proof (induction us arbitrary: t)
  case (Cons u us)
  show ?case
  proof (cases us)
    case (Cons v r)
    then obtain c t' where e: "edge u v = Some c" "walk_cost edge us = Some t'" "t = c + t'"
      using Cons.prems by (auto split: option.splits)
    then show ?thesis using Cons.IH [OF e(2)] h_consistent [OF e(1)] Cons by simp
  qed (use Cons.prems in simp)
qed simp

text \<open>
  \<open>g\<close> are the known costs, \<open>E\<close> the expanded nodes. Either the walk ends among them, within its cost,
  or some known node outside has an estimate within the cost of the walk and the heuristic of its
  end.
\<close>

lemma frontier:
  assumes closed: "\<And>u v c d. u \<in> E \<Longrightarrow> g u = Some d \<Longrightarrow> edge u v = Some c \<Longrightarrow> \<exists>d'. g v = Some d' \<and> d' \<le> d + c"
    and "walk_cost edge us = Some t" and "g (hd us) = Some d"
  shows "(last us \<in> E \<and> (\<exists>d'. g (last us) = Some d' \<and> d' \<le> d + t))
       \<or> (\<exists>x d'. x \<notin> E \<and> g x = Some d' \<and> d' + h x \<le> d + t + h (last us))"
  using assms(2,3)
proof (induction us arbitrary: t d)
  case (Cons u us)
  show ?case
  proof (cases "u \<in> E")
    case False
    then show ?thesis using Cons.prems h_along_walk [OF Cons.prems(1)] by fastforce
  next
    case True
    show ?thesis
    proof (cases us)
      case Nil
      then show ?thesis using True Cons.prems by auto
    next
      case (Cons v r)
      then obtain c t' where e: "edge u v = Some c" "walk_cost edge us = Some t'" "t = c + t'"
        using Cons.prems by (auto split: option.splits)
      obtain d' where d': "g v = Some d'" "d' \<le> d + c"
        using closed [OF True _ e(1)] Cons.prems(2) by auto
      show ?thesis using Cons.IH [OF e(2), of d'] d' e(3) Cons by fastforce
    qed
  qed
qed simp

end

end
