(* ===== verification/Navigation.thy ===== *)
theory Navigation
  imports BTree_Map Hex_Geometry Heuristic_Graph
begin

text \<open>
  \<open>src/btech/autopilot/navigation.rs\<close>: the resumable A* search of the autopilot over a bounded hex
  map. \<open>GridHex\<close>, \<open>Goal\<close>, \<open>HexGrid\<close> and \<open>AStarSearch\<close> are the source's types; the \<open>Traversal\<close> trait
  is a function argument, and so is the goal predicate of \<open>step_filtered\<close>, a closure with a state
  \<open>'a\<close> of its own. Coordinates, radii and costs are natural numbers; every checked addition on
  64-bit costs is written out, and the conversion of \<open>GridHex::distance\<close> to \<open>u32\<close> cannot fail on
  16-bit coordinates. The hash table of records, never iterated, is an ordered map; the binary heap
  is the list of its entries in the order they are popped, a total order.
\<close>

section \<open>Coordinates and goals\<close>

definition DEFAULT_MAX_RECORDS :: nat where "DEFAULT_MAX_RECORDS = 1000000"

datatype grid_hex = GridHex (grid_x: nat) (grid_y: nat)

instantiation grid_hex :: linorder
begin

definition less_eq_grid_hex :: "grid_hex \<Rightarrow> grid_hex \<Rightarrow> bool" where
  "less_eq_grid_hex a b \<longleftrightarrow> (grid_x a, grid_y a) \<le> (grid_x b, grid_y b)"

definition less_grid_hex :: "grid_hex \<Rightarrow> grid_hex \<Rightarrow> bool" where
  "less_grid_hex a b \<longleftrightarrow> (grid_x a, grid_y a) < (grid_x b, grid_y b)"

instance
  by standard (auto simp: less_eq_grid_hex_def less_grid_hex_def grid_hex.expand split: if_splits)

end

definition to_hex :: "grid_hex \<Rightarrow> hex_coordinate" where
  "to_hex g = \<lparr>hex_x = int (grid_x g), hex_y = int (grid_y g)\<rparr>"

definition grid_neighbors :: "grid_hex \<Rightarrow> nat \<Rightarrow> nat \<Rightarrow> grid_hex list" where
  "grid_neighbors g width height =
     List.map_filter (map_option (\<lambda>n. GridHex (nat (hex_x n)) (nat (hex_y n))))
       (neighbors_within (to_hex g) width height)"

definition grid_distance :: "grid_hex \<Rightarrow> grid_hex \<Rightarrow> nat" where
  "grid_distance a b = hex_distance (to_hex a) (to_hex b)"

record goal =
  center :: grid_hex
  radius :: nat
  minimum :: nat

definition goal_new :: "grid_hex \<Rightarrow> nat \<Rightarrow> goal" where
  "goal_new c r = \<lparr>center = c, radius = r, minimum = 0\<rparr>"

definition annulus :: "grid_hex \<Rightarrow> nat \<Rightarrow> nat \<Rightarrow> goal" where
  "annulus c lo hi = \<lparr>center = c, radius = hi, minimum = lo\<rparr>"

definition goal_contains :: "goal \<Rightarrow> grid_hex \<Rightarrow> bool" where
  "goal_contains g p \<longleftrightarrow>
     (let d = grid_distance p (center g) in minimum g \<le> d \<and> d \<le> radius g)"

definition heuristic :: "goal \<Rightarrow> grid_hex \<Rightarrow> nat" where
  "heuristic g p = (let d = grid_distance p (center g) in max (minimum g - d) (d - radius g))"

type_synonym traversal = "grid_hex \<Rightarrow> grid_hex \<Rightarrow> nat option"

section \<open>Dense cost grids\<close>

datatype navigation_error =
    EmptyMap | EmptyGoal | OutOfBounds grid_hex | ZeroRecordLimit
  | GridSizeMismatch nat nat | NonPositiveTraversalCost

record hex_grid =
  grid_width :: nat
  grid_height :: nat
  costs :: "nat option list"

definition from_costs :: "nat \<Rightarrow> nat \<Rightarrow> nat option list \<Rightarrow> (navigation_error, hex_grid) result" where
  "from_costs w h cs =
     (if w = 0 \<or> h = 0 then Inl EmptyMap
      else if length cs \<noteq> w * h then Inl (GridSizeMismatch (w * h) (length cs))
      else if list_ex (\<lambda>c. c = Some 0) cs then Inl NonPositiveTraversalCost
      else Inr \<lparr>grid_width = w, grid_height = h, costs = cs\<rparr>)"

definition uniform :: "nat \<Rightarrow> nat \<Rightarrow> nat \<Rightarrow> (navigation_error, hex_grid) result" where
  "uniform w h c =
     (if c = 0 then Inl NonPositiveTraversalCost else from_costs w h (replicate (w * h) (Some c)))"

definition grid_index :: "hex_grid \<Rightarrow> grid_hex \<Rightarrow> nat option" where
  "grid_index g p =
     (if grid_x p < grid_width g \<and> grid_y p < grid_height g
      then Some (grid_y p * grid_width g + grid_x p) else None)"

definition set_cost :: "hex_grid \<Rightarrow> grid_hex \<Rightarrow> nat option \<Rightarrow> (navigation_error, hex_grid) result" where
  "set_cost g p c =
     (if c = Some 0 then Inl NonPositiveTraversalCost
      else
        (case grid_index g p of
           None \<Rightarrow> Inl (OutOfBounds p)
         | Some i \<Rightarrow> Inr (g\<lparr>costs := (costs g)[i := c]\<rparr>)))"

definition grid_traversal :: "hex_grid \<Rightarrow> traversal" where
  "grid_traversal g src dst = Option.bind (grid_index g dst) (\<lambda>i. costs g ! i)"

section \<open>The search\<close>

record navigation_path =
  cells :: "grid_hex list"
  path_cost :: nat

datatype search_status =
    Pending nat nat nat
  | Found navigation_path
  | Unreachable
  | Invalidated
  | ResourceLimit nat nat

definition is_terminal :: "search_status \<Rightarrow> bool" where
  "is_terminal st \<longleftrightarrow> (case st of Pending _ _ _ \<Rightarrow> False | _ \<Rightarrow> True)"

record node_record =
  rec_cost :: nat
  parent :: "grid_hex option"

record open_entry =
  estimated_total :: nat
  entry_heuristic :: nat
  entry_cost :: nat
  entry_position :: grid_hex

text \<open>The order of \<open>OpenEntry\<close>, reversed: the least key is popped first.\<close>

definition entry_key :: "open_entry \<Rightarrow> nat \<times> nat \<times> nat \<times> grid_hex" where
  "entry_key e = (estimated_total e, entry_heuristic e, entry_cost e, entry_position e)"

definition heap_push :: "open_entry \<Rightarrow> open_entry list \<Rightarrow> open_entry list" where
  "heap_push e es = insort_key entry_key e es"

record astar_search =
  search_width :: nat
  search_height :: nat
  search_start :: grid_hex
  search_goal :: goal
  max_records :: nat
  records :: "(grid_hex, node_record) btree"
  open_list :: "open_entry list"
  total_expanded :: nat
  terminal :: "search_status option"

definition contains :: "nat \<Rightarrow> nat \<Rightarrow> grid_hex \<Rightarrow> bool" where
  "contains width height p \<longleftrightarrow> grid_x p < width \<and> grid_y p < height"

definition open_entry_for :: "goal \<Rightarrow> nat \<Rightarrow> grid_hex \<Rightarrow> open_entry" where
  "open_entry_for g c p =
     \<lparr>estimated_total = c + heuristic g p, entry_heuristic = heuristic g p, entry_cost = c,
      entry_position = p\<rparr>"

definition with_record_limit ::
  "nat \<Rightarrow> nat \<Rightarrow> grid_hex \<Rightarrow> goal \<Rightarrow> nat \<Rightarrow> (navigation_error, astar_search) result" where
  "with_record_limit width height start g limit =
     (if width = 0 \<or> height = 0 then Inl EmptyMap
      else if radius g < minimum g then Inl EmptyGoal
      else if limit = 0 then Inl ZeroRecordLimit
      else if \<not> contains width height start then Inl (OutOfBounds start)
      else if \<not> contains width height (center g) then Inl (OutOfBounds (center g))
      else Inr \<lparr>search_width = width, search_height = height, search_start = start, search_goal = g,
                max_records = limit,
                records = bt_insert start \<lparr>rec_cost = 0, parent = None\<rparr> [],
                open_list = heap_push (open_entry_for g 0 start) [],
                total_expanded = 0, terminal = None\<rparr>)"

definition search_new ::
  "nat \<Rightarrow> nat \<Rightarrow> grid_hex \<Rightarrow> goal \<Rightarrow> (navigation_error, astar_search) result" where
  "search_new width height start g = with_record_limit width height start g DEFAULT_MAX_RECORDS"

definition record_count :: "astar_search \<Rightarrow> nat" where
  "record_count s = length (records s)"

definition set_record_limit :: "nat \<Rightarrow> astar_search \<Rightarrow> bool \<times> astar_search" where
  "set_record_limit limit s =
     (if limit < length (records s) then (False, s) else (True, s\<lparr>max_records := limit\<rparr>))"

definition invalidate :: "astar_search \<Rightarrow> search_status \<times> astar_search" where
  "invalidate s = (Invalidated, s\<lparr>terminal := Some Invalidated\<rparr>)"

definition pending :: "nat \<Rightarrow> astar_search \<Rightarrow> search_status" where
  "pending expanded s = Pending expanded (total_expanded s) (length (records s))"

definition finish :: "search_status \<Rightarrow> astar_search \<Rightarrow> search_status \<times> astar_search" where
  "finish st s = (st, s\<lparr>terminal := Some st\<rparr>)"

definition resource_limit :: "astar_search \<Rightarrow> search_status \<times> astar_search" where
  "resource_limit s = finish (ResourceLimit (length (records s)) (max_records s)) s"

text \<open>
  \<open>path_to\<close> follows parents until a record without one; \<open>None\<close> is the panic on a missing record and
  the loop that does not end, both shown impossible for the searches below.
\<close>

partial_function (option) parents_to ::
  "(grid_hex, node_record) btree \<Rightarrow> grid_hex list \<Rightarrow> grid_hex \<Rightarrow> grid_hex list option" where
  "parents_to rs cs p =
     (case bt_get rs p of
        None \<Rightarrow> None
      | Some r \<Rightarrow>
          (case parent r of
             None \<Rightarrow> Some (p # cs)
           | Some q \<Rightarrow> parents_to rs (p # cs) q))"

declare parents_to.simps [code]

definition path_to :: "astar_search \<Rightarrow> grid_hex \<Rightarrow> navigation_path option" where
  "path_to s dest =
     (case bt_get (records s) dest of
        None \<Rightarrow> None
      | Some r \<Rightarrow> map_option (\<lambda>cs. \<lparr>cells = cs, path_cost = rec_cost r\<rparr>) (parents_to (records s) [] dest))"

text \<open>The loop over the neighbours of an expanded node; \<open>Inl\<close> is an early return.\<close>

definition relax ::
  "traversal \<Rightarrow> grid_hex \<Rightarrow> nat \<Rightarrow> grid_hex \<Rightarrow> astar_search \<Rightarrow>
     (search_status \<times> astar_search, astar_search) result" where
  "relax tr p cost n s =
     (case tr p n of
        None \<Rightarrow> Inr s
      | Some edge_cost \<Rightarrow>
          if edge_cost = 0 then Inr s
          else if \<not> fits_u64 (cost + edge_cost) then Inl (resource_limit s)
          else if (case bt_get (records s) n of None \<Rightarrow> False | Some known \<Rightarrow> rec_cost known \<le> cost + edge_cost)
          then Inr s
          else if bt_get (records s) n = None \<and> max_records s \<le> length (records s)
          then Inl (resource_limit s)
          else
            (let s' = s\<lparr>records := bt_insert n \<lparr>rec_cost = cost + edge_cost, parent = Some p\<rparr> (records s)\<rparr>
             in if \<not> fits_u64 (cost + edge_cost + heuristic (search_goal s) n) then Inl (resource_limit s')
                else
                  Inr (s'\<lparr>open_list :=
                            heap_push (open_entry_for (search_goal s) (cost + edge_cost) n) (open_list s)\<rparr>)))"

fun relax_all ::
  "traversal \<Rightarrow> grid_hex \<Rightarrow> nat \<Rightarrow> grid_hex list \<Rightarrow> astar_search \<Rightarrow>
     (search_status \<times> astar_search, astar_search) result" where
  "relax_all tr p cost [] s = Inr s"
| "relax_all tr p cost (n # ns) s = bind_result (relax tr p cost n s) (relax_all tr p cost ns)"

definition expand ::
  "traversal \<Rightarrow> open_entry \<Rightarrow> astar_search \<Rightarrow> (search_status \<times> astar_search, astar_search) result" where
  "expand tr e s =
     relax_all tr (entry_position e) (entry_cost e)
       (grid_neighbors (entry_position e) (search_width s) (search_height s))
       (s\<lparr>total_expanded := total_expanded s + 1\<rparr>)"

text \<open>
  One turn of the loop on a popped entry: a stale entry is skipped, a goal hex is put to the
  predicate, anything else is expanded. \<open>Return\<close> leaves the call, \<open>Continue\<close> goes on with the number
  of expansions so far. \<open>None\<close> is the panic of \<open>path_to\<close>.
\<close>

datatype 'a turn = Return search_status astar_search 'a | Continue nat astar_search 'a

definition turn_of ::
  "traversal \<Rightarrow> ('a \<Rightarrow> grid_hex \<Rightarrow> bool option \<times> 'a) \<Rightarrow> open_entry \<Rightarrow> nat \<Rightarrow> astar_search \<Rightarrow> 'a
     \<Rightarrow> 'a turn option" where
  "turn_of tr accept e expanded s a =
     (let expanding = (\<lambda>a'. case expand tr e s of
                              Inl (st, s') \<Rightarrow> Some (Return st s' a')
                            | Inr s' \<Rightarrow> Some (Continue (expanded + 1) s' a'))
      in case bt_get (records s) (entry_position e) of
           None \<Rightarrow> Some (Continue expanded s a)
         | Some r \<Rightarrow>
             if rec_cost r \<noteq> entry_cost e then Some (Continue expanded s a)
             else if \<not> goal_contains (search_goal s) (entry_position e) then expanding a
             else
               (case accept a (entry_position e) of
                  (None, a') \<Rightarrow>
                    Some (Return (pending expanded s) (s\<lparr>open_list := heap_push e (open_list s)\<rparr>) a')
                | (Some False, a') \<Rightarrow> expanding a'
                | (Some True, a') \<Rightarrow>
                    (case path_to s (entry_position e) of
                       None \<Rightarrow> None
                     | Some path \<Rightarrow> (case finish (Found path) s of (st, s') \<Rightarrow> Some (Return st s' a')))))"

lemma turn_Continue:
  assumes "turn_of tr accept e expanded s a = Some (Continue x s' a')"
  shows "(x = expanded \<and> s' = s) \<or> x = Suc expanded"
  using assms by (auto simp: turn_of_def Let_def finish_def split: option.splits sum.splits if_splits prod.splits bool.splits)

function search_loop ::
  "traversal \<Rightarrow> ('a \<Rightarrow> grid_hex \<Rightarrow> bool option \<times> 'a) \<Rightarrow> nat \<Rightarrow> nat \<Rightarrow> astar_search \<Rightarrow> 'a
     \<Rightarrow> ((search_status \<times> astar_search) \<times> 'a) option" where
  "search_loop tr accept budget expanded s a =
     (if expanded < budget then
        (case open_list s of
           [] \<Rightarrow> Some (finish Unreachable s, a)
         | e # es \<Rightarrow>
             (case turn_of tr accept e expanded (s\<lparr>open_list := es\<rparr>) a of
                None \<Rightarrow> None
              | Some (Return st s' a') \<Rightarrow> Some ((st, s'), a')
              | Some (Continue x s' a') \<Rightarrow> search_loop tr accept budget x s' a'))
      else if open_list s = [] then Some (finish Unreachable s, a)
      else Some ((pending expanded s, s), a))"
  by pat_completeness auto

termination
proof (relation "measures [\<lambda>(tr, accept, budget, expanded, s, a). budget - expanded,
    \<lambda>(tr, accept, budget, expanded, s, a). length (open_list s)]")
  fix tr :: traversal and accept :: "'a \<Rightarrow> grid_hex \<Rightarrow> bool option \<times> 'a"
    and budget expanded s a e es t x s' a'
  assume "expanded < budget" "open_list s = e # es"
    "turn_of tr accept e expanded (s\<lparr>open_list := es\<rparr>) a = Some t" "t = Continue x s' a'"
  then show "((tr, accept, budget, x, s', a'), (tr, accept, budget, expanded, s, a))
      \<in> measures [\<lambda>(tr, accept, budget, expanded, s, a). budget - expanded,
          \<lambda>(tr, accept, budget, expanded, s, a). length (open_list s)]"
    using turn_Continue [of tr accept e expanded "s\<lparr>open_list := es\<rparr>" a x s' a'] by auto
qed simp

declare search_loop.simps [simp del]

definition step_filtered ::
  "nat \<Rightarrow> traversal \<Rightarrow> ('a \<Rightarrow> grid_hex \<Rightarrow> bool option \<times> 'a) \<Rightarrow> astar_search \<Rightarrow> 'a
     \<Rightarrow> ((search_status \<times> astar_search) \<times> 'a) option" where
  "step_filtered budget tr accept s a =
     (case terminal s of
        Some st \<Rightarrow> Some ((st, s), a)
      | None \<Rightarrow>
          if budget = 0 then Some ((pending 0 s, s), a) else search_loop tr accept budget 0 s a)"

definition step :: "nat \<Rightarrow> traversal \<Rightarrow> astar_search \<Rightarrow> (search_status \<times> astar_search) option" where
  "step budget tr s = map_option fst (step_filtered budget tr (\<lambda>u _. (Some True, u)) s ())"

end
