(* ===== verification/Navigation_Search.thy ===== *)
theory Navigation_Search
  imports Navigation
begin

text \<open>
  Correctness of the A* search. The graph is the one the traversal function induces on the map; the
  heuristic of \<open>Goal\<close> is consistent on it, so the graph lemmas of \<open>heuristic_graph\<close> apply. The
  invariant \<open>search_inv\<close> speaks of the set \<open>E\<close> of expanded hexes: their costs are least, the edges out
  of them are relaxed (but for the pairs \<open>hot\<close> of an expansion under way), every other known hex has
  its current entry in the heap, and the parents of records form a tree of exact costs.
\<close>

section \<open>The graph of a search\<close>

definition hex_edge :: "traversal \<Rightarrow> nat \<Rightarrow> nat \<Rightarrow> grid_hex \<Rightarrow> grid_hex \<Rightarrow> nat option" where
  "hex_edge tr w h u v =
     (if v \<in> set (grid_neighbors u w h)
      then (case tr u v of None \<Rightarrow> None | Some c \<Rightarrow> if c = 0 then None else Some c) else None)"

lemma to_hex_inj: "to_hex a = to_hex b \<longleftrightarrow> a = b"
  by (cases a; cases b) (simp add: to_hex_def)

lemma in_grid_neighbors:
  "v \<in> set (grid_neighbors u w h) \<longleftrightarrow> contains w h v \<and> grid_distance u v = 1"
proof -
  have same: "to_hex (GridHex (nat (hex_x n)) (nat (hex_y n))) = n" if "on_map w h n" for n
    using that by (simp add: on_map_def to_hex_def)
  have inside: "on_map w h (to_hex v) \<longleftrightarrow> contains w h v" by (auto simp: on_map_def to_hex_def contains_def)
  have "v \<in> set (grid_neighbors u w h) \<longleftrightarrow>
      (\<exists>n\<in>set (adjacent (to_hex u)). on_map w h n \<and> v = GridHex (nat (hex_x n)) (nat (hex_y n)))"
    by (force simp: grid_neighbors_def neighbors_within_def List.map_filter_def)
  also have "\<dots> \<longleftrightarrow> on_map w h (to_hex v) \<and> to_hex v \<in> set (adjacent (to_hex u))"
    using same by (metis (no_types, opaque_lifting) to_hex_inj)
  finally show ?thesis by (auto simp: inside adjacent_distance grid_distance_def)
qed

lemma heuristic_step:
  assumes "grid_distance u v = 1"
  shows "heuristic g u \<le> heuristic g v + 1"
proof -
  have "grid_distance u (center g) \<le> grid_distance v (center g) + 1"
    "grid_distance v (center g) \<le> grid_distance u (center g) + 1"
    using assms hex_distance_triangle [of "to_hex u" "to_hex (center g)" "to_hex v"]
      hex_distance_triangle [of "to_hex v" "to_hex (center g)" "to_hex u"]
    by (auto simp: grid_distance_def hex_distance_sym)
  then show ?thesis by (auto simp: heuristic_def Let_def)
qed

lemma heuristic_goal: "goal_contains g p \<Longrightarrow> heuristic g p = 0"
  by (simp add: goal_contains_def heuristic_def Let_def)

lemma hex_edge_Some:
  "hex_edge tr w h u v = Some c \<longleftrightarrow> v \<in> set (grid_neighbors u w h) \<and> tr u v = Some c \<and> c \<noteq> 0"
  by (auto simp: hex_edge_def split: option.splits if_splits)

interpretation hex: heuristic_graph "hex_edge tr w h" "heuristic g" for tr w h g
proof
  fix u v c assume "hex_edge tr w h u v = Some c"
  then have "c \<noteq> 0" "grid_distance u v = 1" by (auto simp: hex_edge_Some in_grid_neighbors)
  then show "0 < c" "heuristic g u \<le> heuristic g v + c" using heuristic_step [of u v g] by auto
qed

section \<open>The heap\<close>

text \<open>What the search needs of the heap, as a contract over the elements in the order popped.\<close>

locale popped_in_order =
  fixes push :: "'e \<Rightarrow> 'e list \<Rightarrow> 'e list" and ok :: "'e list \<Rightarrow> bool" and key :: "'e \<Rightarrow> 'k::linorder"
  assumes ok_Nil: "ok []"
    and ok_push: "ok es \<Longrightarrow> ok (push e es)"
    and set_push: "set (push e es) = insert e (set es)"
    and distinct_push: "distinct (push e es) \<longleftrightarrow> distinct (e # es)"
    and ok_pop: "ok (e # es) \<Longrightarrow> ok es"
    and pop_least: "ok (e # es) \<Longrightarrow> x \<in> set es \<Longrightarrow> key e \<le> key x"
    and push_popped: "ok (e # es) \<Longrightarrow> push e es = e # es"

interpretation heap: popped_in_order heap_push "\<lambda>es. sorted (map entry_key es)" entry_key
  by unfold_locales
    (auto simp: heap_push_def sorted_insort_key set_insort_key distinct_insort insort_is_Cons)

section \<open>The invariant\<close>

definition search_edge :: "traversal \<Rightarrow> astar_search \<Rightarrow> grid_hex \<Rightarrow> grid_hex \<Rightarrow> nat option" where
  "search_edge tr s = hex_edge tr (search_width s) (search_height s)"

text \<open>Walks of the search from its start, with their costs.\<close>

definition walk_to :: "traversal \<Rightarrow> astar_search \<Rightarrow> grid_hex list \<Rightarrow> grid_hex \<Rightarrow> nat \<Rightarrow> bool" where
  "walk_to tr s us p t \<longleftrightarrow>
     walk_cost (search_edge tr s) us = Some t \<and> hd us = search_start s \<and> last us = p"

lemma walk_to_update [simp]:
  "walk_to tr (s\<lparr>open_list := es\<rparr>) us p t = walk_to tr s us p t"
  "walk_to tr (s\<lparr>total_expanded := n\<rparr>) us p t = walk_to tr s us p t"
  "walk_to tr (s\<lparr>terminal := st\<rparr>) us p t = walk_to tr s us p t"
  "walk_to tr (s\<lparr>max_records := n\<rparr>) us p t = walk_to tr s us p t"
  by (simp_all add: walk_to_def search_edge_def)

definition tree_ok :: "traversal \<Rightarrow> astar_search \<Rightarrow> grid_hex set \<Rightarrow> bool" where
  "tree_ok tr s E \<longleftrightarrow>
     bt_ok (records s)
     \<and> (\<forall>v\<in>fst ` set (records s). contains (search_width s) (search_height s) v)
     \<and> bt_get (records s) (search_start s) = Some \<lparr>rec_cost = 0, parent = None\<rparr>
     \<and> (\<forall>v r. bt_get (records s) v = Some r \<longrightarrow> v \<noteq> search_start s \<longrightarrow>
          (\<exists>q rq c. parent r = Some q \<and> q \<in> E \<and> bt_get (records s) q = Some rq
                  \<and> search_edge tr s q v = Some c \<and> rec_cost r = rec_cost rq + c))"

definition expanded_ok :: "traversal \<Rightarrow> (grid_hex \<Rightarrow> bool) \<Rightarrow> astar_search \<Rightarrow> grid_hex set \<Rightarrow> bool" where
  "expanded_ok tr P s E \<longleftrightarrow>
     card E = total_expanded s
     \<and> (\<forall>p\<in>E. (\<exists>r. bt_get (records s) p = Some r \<and> (\<forall>us t. walk_to tr s us p t \<longrightarrow> rec_cost r \<le> t))
            \<and> \<not> (goal_contains (search_goal s) p \<and> P p))"

definition relaxed :: "traversal \<Rightarrow> astar_search \<Rightarrow> grid_hex set \<Rightarrow> (grid_hex \<times> grid_hex) set \<Rightarrow> bool" where
  "relaxed tr s E hot \<longleftrightarrow>
     (\<forall>u\<in>E. \<forall>v c r. search_edge tr s u v = Some c \<longrightarrow> (u, v) \<notin> hot \<longrightarrow> bt_get (records s) u = Some r \<longrightarrow>
        (\<exists>r'. bt_get (records s) v = Some r' \<and> rec_cost r' \<le> rec_cost r + c))"

definition open_ok :: "astar_search \<Rightarrow> grid_hex set \<Rightarrow> bool" where
  "open_ok s E \<longleftrightarrow>
     sorted (map entry_key (open_list s)) \<and> distinct (open_list s)
     \<and> (\<forall>e\<in>set (open_list s).
          e = open_entry_for (search_goal s) (entry_cost e) (entry_position e)
          \<and> (\<exists>r. bt_get (records s) (entry_position e) = Some r \<and> rec_cost r \<le> entry_cost e))
     \<and> (\<forall>v r. bt_get (records s) v = Some r \<longrightarrow>
          (v \<in> E \<longleftrightarrow> open_entry_for (search_goal s) (rec_cost r) v \<notin> set (open_list s)))"

definition search_inv ::
  "traversal \<Rightarrow> (grid_hex \<Rightarrow> bool) \<Rightarrow> astar_search \<Rightarrow> grid_hex set \<Rightarrow> (grid_hex \<times> grid_hex) set \<Rightarrow> bool" where
  "search_inv tr P s E hot \<longleftrightarrow>
     tree_ok tr s E \<and> expanded_ok tr P s E \<and> relaxed tr s E hot \<and> open_ok s E
     \<and> length (records s) \<le> max_records s"

lemma search_invD:
  assumes "search_inv tr P s E hot"
  shows "tree_ok tr s E" "expanded_ok tr P s E" "relaxed tr s E hot" "open_ok s E"
    "length (records s) \<le> max_records s"
  using assms by (simp_all add: search_inv_def)

lemma open_entry_for_simps [simp]:
  "entry_position (open_entry_for g c p) = p" "entry_cost (open_entry_for g c p) = c"
  "estimated_total (open_entry_for g c p) = c + heuristic g p"
  "open_entry_for g c p = open_entry_for g c' p' \<longleftrightarrow> c = c' \<and> p = p'"
  by (auto simp: open_entry_for_def)

text \<open>The record of a hex is at the end of a walk of its cost, the one \<open>parents_to\<close> reads off.\<close>

lemma tree_walk:
  assumes "tree_ok tr s E" and "bt_get (records s) v = Some r"
  obtains us where "walk_to tr s us v (rec_cost r)" "\<And>cs. parents_to (records s) cs v = Some (us @ cs)"
    "distinct us" "\<forall>x\<in>set us. \<exists>rx. bt_get (records s) x = Some rx \<and> rec_cost rx \<le> rec_cost r"
proof -
  have "\<exists>us. walk_to tr s us v (rec_cost r) \<and> (\<forall>cs. parents_to (records s) cs v = Some (us @ cs))
      \<and> distinct us \<and> (\<forall>x\<in>set us. \<exists>rx. bt_get (records s) x = Some rx \<and> rec_cost rx \<le> rec_cost r)"
    using assms(2)
  proof (induction "rec_cost r" arbitrary: v r rule: less_induct)
    case less
    show ?case
    proof (cases "v = search_start s")
      case True
      then have "r = \<lparr>rec_cost = 0, parent = None\<rparr>" using less.prems assms(1) by (simp add: tree_ok_def)
      then show ?thesis
        using less.prems True by (intro exI [of _ "[v]"]) (simp add: walk_to_def parents_to.simps)
    next
      case False
      then obtain q rq c where q: "parent r = Some q" "bt_get (records s) q = Some rq"
          "search_edge tr s q v = Some c" "rec_cost r = rec_cost rq + c"
        using less.prems assms(1) by (force simp: tree_ok_def)
      have "0 < c" using q(3) hex.edge_positive by (simp add: search_edge_def)
      then have lt: "rec_cost rq < rec_cost r" using q(4) by simp
      then obtain us where us: "walk_to tr s us q (rec_cost rq)"
          "\<forall>cs. parents_to (records s) cs q = Some (us @ cs)" "distinct us"
          "\<forall>x\<in>set us. \<exists>rx. bt_get (records s) x = Some rx \<and> rec_cost rx \<le> rec_cost rq"
        using less.hyps [OF _ q(2)] by blast
      have ne: "us \<noteq> []" using us(1) by (auto simp: walk_to_def)
      then obtain ws where ws: "us = ws @ [q]" using us(1) by (metis walk_to_def append_butlast_last_id)
      have "walk_to tr s (us @ [v]) v (rec_cost r)"
        using us(1) walk_cost_snoc [of "search_edge tr s" ws q _ v c] q(3,4) ne
        by (cases ws) (auto simp: walk_to_def ws)
      moreover have "parents_to (records s) cs v = Some ((us @ [v]) @ cs)" for cs
        using less.prems q(1) us(2) by (simp add: parents_to.simps [of _ cs v])
      moreover have "v \<notin> set us" using us(4) less.prems lt by force
      moreover have "\<forall>x\<in>set (us @ [v]). \<exists>rx. bt_get (records s) x = Some rx \<and> rec_cost rx \<le> rec_cost r"
        using us(4) less.prems lt by (auto intro: order_trans less_imp_le)
      ultimately show ?thesis using us(3) by (intro exI [of _ "us @ [v]"]) simp
    qed
  qed
  then show thesis using that by blast
qed

text \<open>The graph lemma, for the records of a search.\<close>

lemma search_frontier:
  assumes inv: "search_inv tr P s E {}" and walk: "walk_to tr s us q t"
  shows "q \<in> E \<or> (\<exists>x r. x \<notin> E \<and> bt_get (records s) x = Some r
      \<and> rec_cost r + heuristic (search_goal s) x \<le> t + heuristic (search_goal s) q)"
proof -
  let ?g = "\<lambda>v. map_option rec_cost (bt_get (records s) v)"
  have closed: "\<exists>d'. ?g v = Some d' \<and> d' \<le> d + c"
    if "u \<in> E" "?g u = Some d" "hex_edge tr (search_width s) (search_height s) u v = Some c" for u v c d
    using search_invD(3) [OF inv] that unfolding relaxed_def search_edge_def by fastforce
  have start: "?g (hd us) = Some 0"
    using search_invD(1) [OF inv] walk by (simp add: tree_ok_def walk_to_def)
  have cost: "walk_cost (hex_edge tr (search_width s) (search_height s)) us = Some t" "last us = q"
    using walk by (auto simp: walk_to_def search_edge_def)
  have "(last us \<in> E \<and> (\<exists>d'. ?g (last us) = Some d' \<and> d' \<le> 0 + t))
      \<or> (\<exists>x d'. x \<notin> E \<and> ?g x = Some d'
           \<and> d' + heuristic (search_goal s) x \<le> 0 + t + heuristic (search_goal s) (last us))"
    by (rule hex.frontier [of E ?g, OF closed cost(1) start])
  then show ?thesis unfolding cost(2) by auto
qed

text \<open>A popped current entry carries the least estimate.\<close>

lemma popped_frontier:
  assumes inv: "search_inv tr P s E {}" and op: "open_list s = e # es"
    and walk: "walk_to tr s us q t" and q: "q \<notin> E"
  shows "estimated_total e \<le> t + heuristic (search_goal s) q"
proof -
  let ?h = "heuristic (search_goal s)"
  obtain x r where x: "x \<notin> E" "bt_get (records s) x = Some r" "rec_cost r + ?h x \<le> t + ?h q"
    using search_frontier [OF inv walk] q by blast
  have ok: "open_ok s E" using inv by (rule search_invD)
  then have "open_entry_for (search_goal s) (rec_cost r) x \<in> set (e # es)"
    using x(1,2) op by (auto simp: open_ok_def)
  then have "entry_key e \<le> entry_key (open_entry_for (search_goal s) (rec_cost r) x)"
    using ok op heap.pop_least [of e es] by (auto simp: open_ok_def)
  then have "estimated_total e \<le> rec_cost r + ?h x" by (auto simp: entry_key_def)
  then show ?thesis using x(3) by simp
qed

section \<open>Expanding a hex\<close>

definition same_search :: "astar_search \<Rightarrow> astar_search \<Rightarrow> bool" where
  "same_search s s' \<longleftrightarrow>
     search_width s' = search_width s \<and> search_height s' = search_height s
     \<and> search_start s' = search_start s \<and> search_goal s' = search_goal s
     \<and> max_records s' = max_records s"

lemma same_search_refl [simp]: "same_search s s"
  by (simp add: same_search_def)

lemma same_search_trans: "same_search s s' \<Longrightarrow> same_search s' s'' \<Longrightarrow> same_search s s''"
  by (simp add: same_search_def)

lemma same_search_walk: "same_search s s' \<Longrightarrow> walk_to tr s' us p t = walk_to tr s us p t"
  by (simp add: same_search_def walk_to_def search_edge_def)

text \<open>The state after a record of \<open>n\<close> has been entered or improved.\<close>

definition improved :: "grid_hex \<Rightarrow> nat \<Rightarrow> grid_hex \<Rightarrow> astar_search \<Rightarrow> astar_search" where
  "improved p c n s =
     s\<lparr>records := bt_insert n \<lparr>rec_cost = c, parent = Some p\<rparr> (records s),
       open_list := heap_push (open_entry_for (search_goal s) c n) (open_list s)\<rparr>"

lemma relax_Inr:
  assumes "relax tr p cost n s = Inr s'" and "n \<in> set (grid_neighbors p (search_width s) (search_height s))"
  shows "(s' = s \<and> (\<forall>c. search_edge tr s p n = Some c \<longrightarrow>
            (\<exists>r. bt_get (records s) n = Some r \<and> rec_cost r \<le> cost + c)))
       \<or> (\<exists>c. search_edge tr s p n = Some c \<and> s' = improved p (cost + c) n s
            \<and> (\<forall>r. bt_get (records s) n = Some r \<longrightarrow> cost + c < rec_cost r)
            \<and> (bt_get (records s) n = None \<longrightarrow> length (records s) < max_records s))"
proof (cases "search_edge tr s p n")
  case None
  then have "tr p n = None \<or> tr p n = Some 0"
    using assms(2) by (auto simp: search_edge_def hex_edge_def split: option.splits if_splits)
  then show ?thesis using assms(1) None by (auto simp: relax_def)
next
  case (Some c)
  then have c: "tr p n = Some c" "c \<noteq> 0" by (auto simp: search_edge_def hex_edge_Some)
  show ?thesis
  proof (cases "\<exists>r. bt_get (records s) n = Some r \<and> rec_cost r \<le> cost + c")
    case True
    then show ?thesis using assms(1) c Some by (auto simp: relax_def split: if_splits)
  next
    case False
    then have "s' = improved p (cost + c) n s
        \<and> (bt_get (records s) n = None \<longrightarrow> length (records s) < max_records s)"
      using assms(1) c
      by (cases "bt_get (records s) n")
        (auto simp: relax_def improved_def Let_def split: if_splits)
    then show ?thesis using False Some by (auto simp: not_le)
  qed
qed

lemma improved_fresh:
  assumes inv: "search_inv tr P s E hot" and p: "p \<in> E" "bt_get (records s) p = Some rp"
    and edge: "search_edge tr s p n = Some c"
    and less: "\<forall>r. bt_get (records s) n = Some r \<longrightarrow> rec_cost rp + c < rec_cost r"
  shows "n \<notin> E" "n \<noteq> search_start s"
proof -
  have tree: "tree_ok tr s E" using inv by (rule search_invD)
  obtain us where us: "walk_to tr s us p (rec_cost rp)" using tree_walk [OF tree p(2)] .
  then obtain ws where ws: "us = ws @ [p]" by (metis walk_to_def append_butlast_last_id walk_cost.simps(1) option.distinct(1))
  have "walk_to tr s (us @ [n]) n (rec_cost rp + c)"
    using us walk_cost_snoc [of "search_edge tr s" ws p _ n c] edge by (cases ws) (auto simp: walk_to_def ws)
  then show "n \<notin> E" using search_invD(2) [OF inv] less by (force simp: expanded_ok_def)
  show "n \<noteq> search_start s" using tree less by (force simp: tree_ok_def)
qed

lemma improved_tree:
  assumes tree: "tree_ok tr s E" and p: "p \<in> E" "bt_get (records s) p = Some rp"
    and edge: "search_edge tr s p n = Some c" and n: "n \<notin> E" "n \<noteq> search_start s"
  shows "tree_ok tr (improved p (rec_cost rp + c) n s) E"
proof -
  let ?s = "improved p (rec_cost rp + c) n s"
  have ok: "bt_ok (records s)" using tree by (simp add: tree_ok_def)
  have get: "bt_get (records ?s) v =
      (if v = n then Some \<lparr>rec_cost = rec_cost rp + c, parent = Some p\<rparr> else bt_get (records s) v)" for v
    using ok by (simp add: improved_def bt.get_insert)
  have edges: "search_edge tr ?s = search_edge tr s" by (simp add: search_edge_def improved_def)
  have "contains (search_width s) (search_height s) n"
    using edge by (simp add: search_edge_def hex_edge_Some in_grid_neighbors)
  then have "\<forall>v\<in>fst ` set (records ?s). contains (search_width ?s) (search_height ?s) v"
    using tree ok by (auto simp: tree_ok_def improved_def set_bt_insert)
  moreover have "\<exists>q rq c'. parent r = Some q \<and> q \<in> E \<and> bt_get (records ?s) q = Some rq
      \<and> search_edge tr ?s q v = Some c' \<and> rec_cost r = rec_cost rq + c'"
    if v: "bt_get (records ?s) v = Some r" "v \<noteq> search_start s" for v r
  proof (cases "v = n")
    case True
    then show ?thesis using v(1) p edge n(1) by (auto simp: get edges)
  next
    case False
    then obtain q rq c' where "parent r = Some q" "q \<in> E" "bt_get (records s) q = Some rq"
        "search_edge tr s q v = Some c'" "rec_cost r = rec_cost rq + c'"
      using v tree by (force simp: tree_ok_def get)
    then show ?thesis using n(1) by (auto simp: get edges)
  qed
  moreover have "bt_get (records ?s) (search_start ?s) = Some \<lparr>rec_cost = 0, parent = None\<rparr>"
    using tree n(2) by (simp add: tree_ok_def get) (simp add: improved_def)
  moreover have "bt_ok (records ?s)" "search_start ?s = search_start s"
    using ok by (simp_all add: improved_def bt.ok_insert)
  ultimately show ?thesis unfolding tree_ok_def by (simp only: simp_thms) blast
qed

lemma improved_open:
  assumes op: "open_ok s E" and ok: "bt_ok (records s)" and n: "n \<notin> E"
    and less: "\<forall>r. bt_get (records s) n = Some r \<longrightarrow> c < rec_cost r"
  shows "open_ok (improved p c n s) E"
proof -
  let ?s = "improved p c n s" and ?e = "open_entry_for (search_goal s) c n"
  have get: "bt_get (records ?s) v =
      (if v = n then Some \<lparr>rec_cost = c, parent = Some p\<rparr> else bt_get (records s) v)" for v
    using ok by (simp add: improved_def bt.get_insert)
  have sel: "open_list ?s = heap_push ?e (open_list s)" "search_goal ?s = search_goal s"
    by (simp_all add: improved_def)
  have entries: "e = open_entry_for (search_goal s) (entry_cost e) (entry_position e)
      \<and> (\<exists>r. bt_get (records s) (entry_position e) = Some r \<and> rec_cost r \<le> entry_cost e)"
    if "e \<in> set (open_list s)" for e using op that by (simp add: open_ok_def)
  have old: "c < entry_cost e" if "e \<in> set (open_list s)" "entry_position e = n" for e
    using entries [OF that(1)] that(2) less by fastforce
  then have new: "?e \<notin> set (open_list s)" by force
  have "sorted (map entry_key (open_list ?s))" "distinct (open_list ?s)"
    using op new heap.ok_push heap.distinct_push unfolding sel open_ok_def by auto
  moreover have "e = open_entry_for (search_goal ?s) (entry_cost e) (entry_position e)
      \<and> (\<exists>r. bt_get (records ?s) (entry_position e) = Some r \<and> rec_cost r \<le> entry_cost e)"
    if "e \<in> set (open_list ?s)" for e
  proof (cases "e = ?e")
    case False
    then have e: "e \<in> set (open_list s)" using that by (simp add: sel heap.set_push)
    then show ?thesis using entries [OF e] old [OF e] by (auto simp: sel get)
  qed (simp add: sel get)
  moreover have "v \<in> E \<longleftrightarrow> open_entry_for (search_goal ?s) (rec_cost r) v \<notin> set (open_list ?s)"
    if "bt_get (records ?s) v = Some r" for v r
    using that n op by (auto simp: sel get heap.set_push open_ok_def split: if_splits)
  ultimately show ?thesis unfolding open_ok_def by blast
qed

lemma relax_inv:
  assumes inv: "search_inv tr P s E hot" and p: "p \<in> E" "bt_get (records s) p = Some rp"
    and n: "n \<in> set (grid_neighbors p (search_width s) (search_height s))"
    and run: "relax tr p (rec_cost rp) n s = Inr s'"
  shows "search_inv tr P s' E (hot - {(p, n)}) \<and> bt_get (records s') p = Some rp
       \<and> same_search s s' \<and> terminal s' = terminal s \<and> total_expanded s' = total_expanded s"
  using relax_Inr [OF run n]
proof (elim disjE conjE exE)
  assume s': "s' = s" and n': "\<forall>c. search_edge tr s p n = Some c \<longrightarrow>
      (\<exists>r. bt_get (records s) n = Some r \<and> rec_cost r \<le> rec_cost rp + c)"
  have "relaxed tr s E (hot - {(p, n)})"
    using search_invD(3) [OF inv] n' p(2) by (auto simp: relaxed_def)
  then show ?thesis using inv p(2) s' by (simp add: search_inv_def)
next
  fix c assume edge: "search_edge tr s p n = Some c" and s': "s' = improved p (rec_cost rp + c) n s"
    and less: "\<forall>r. bt_get (records s) n = Some r \<longrightarrow> rec_cost rp + c < rec_cost r"
    and room: "bt_get (records s) n = None \<longrightarrow> length (records s) < max_records s"
  have new: "n \<notin> E" "n \<noteq> search_start s" using improved_fresh [OF inv p edge less] .
  have ok: "bt_ok (records s)" using search_invD(1) [OF inv] by (simp add: tree_ok_def)
  have get: "bt_get (records s') v =
      (if v = n then Some \<lparr>rec_cost = rec_cost rp + c, parent = Some p\<rparr> else bt_get (records s) v)" for v
    using ok by (simp add: s' improved_def bt.get_insert)
  have same: "same_search s s'" "total_expanded s' = total_expanded s" "terminal s' = terminal s"
    by (simp_all add: s' improved_def same_search_def)
  have edges: "search_edge tr s' = search_edge tr s" by (simp add: search_edge_def s' improved_def)
  have "tree_ok tr s' E" unfolding s' using search_invD(1) [OF inv] p edge new by (rule improved_tree)
  moreover have "expanded_ok tr P s' E"
    using search_invD(2) [OF inv] new(1) same(1,2) same_search_walk [OF same(1)]
    by (auto simp: expanded_ok_def get same_search_def)
  moreover have "relaxed tr s' E (hot - {(p, n)})"
    unfolding relaxed_def
  proof (intro ballI allI impI)
    fix u v c' r assume u: "u \<in> E" "search_edge tr s' u v = Some c'" "(u, v) \<notin> hot - {(p, n)}"
      "bt_get (records s') u = Some r"
    show "\<exists>r'. bt_get (records s') v = Some r' \<and> rec_cost r' \<le> rec_cost r + c'"
    proof (cases "u = p \<and> v = n")
      case True
      then show ?thesis using u p(2) edge new(1) by (auto simp: get edges split: if_splits)
    next
      case False
      moreover have "bt_get (records s) u = Some r" using u(1,4) new(1) by (auto simp: get split: if_splits)
      ultimately obtain r' where "bt_get (records s) v = Some r'" "rec_cost r' \<le> rec_cost r + c'"
        using search_invD(3) [OF inv] u by (force simp: relaxed_def edges)
      then show ?thesis using less by (force simp: get)
    qed
  qed
  moreover have "open_ok s' E" unfolding s' using search_invD(4) [OF inv] ok new(1) less by (rule improved_open)
  moreover have "length (records s') \<le> max_records s'"
    using search_invD(5) [OF inv] room ok
    by (auto simp: s' improved_def length_bt_insert bt_get_def map_of_eq_None_iff)
  ultimately show ?thesis using same p new(1) by (auto simp: search_inv_def get)
qed

text \<open>An early return of the expansion: a resource limit, with the records within their bound.\<close>

definition out_of_resources :: "astar_search \<Rightarrow> search_status \<Rightarrow> astar_search \<Rightarrow> bool" where
  "out_of_resources s st s' \<longleftrightarrow>
     (\<exists>n m. st = ResourceLimit n m) \<and> terminal s' = Some st \<and> same_search s s'
     \<and> length (records s') \<le> max_records s'"

lemma relax_Inl:
  assumes inv: "search_inv tr P s E hot" and run: "relax tr p cost n s = Inl (st, s')"
  shows "out_of_resources s st s'"
proof -
  have ok: "bt_ok (records s)" and le: "length (records s) \<le> max_records s"
    using inv by (auto simp: search_inv_def tree_ok_def)
  have key: "bt_get (records s) n = None \<longleftrightarrow> n \<notin> fst ` set (records s)"
    by (simp add: bt_get_def map_of_eq_None_iff)
  show ?thesis
  proof (cases "bt_get (records s) n = None \<and> max_records s \<le> length (records s)")
    case True
    then show ?thesis
      using run le by (auto simp: relax_def out_of_resources_def resource_limit_def finish_def
          same_search_def split: option.splits if_splits)
  next
    case False
    then have "length (bt_insert n x (records s)) \<le> max_records s" for x
      using le ok key by (auto simp: length_bt_insert)
    then show ?thesis
      using run le False by (auto simp: relax_def out_of_resources_def resource_limit_def finish_def
          same_search_def Let_def split: option.splits if_splits)
  qed
qed

lemma relax_all_inv:
  assumes "search_inv tr P s E hot" and "p \<in> E" "bt_get (records s) p = Some rp"
    and "set ns \<subseteq> set (grid_neighbors p (search_width s) (search_height s))"
  shows "(\<exists>s'. relax_all tr p (rec_cost rp) ns s = Inr s'
             \<and> search_inv tr P s' E (hot - {p} \<times> set ns) \<and> same_search s s' \<and> terminal s' = terminal s
             \<and> total_expanded s' = total_expanded s)
       \<or> (\<exists>st s'. relax_all tr p (rec_cost rp) ns s = Inl (st, s') \<and> out_of_resources s st s')"
  using assms
proof (induction ns arbitrary: s hot)
  case (Cons n ns)
  show ?case
  proof (cases "relax tr p (rec_cost rp) n s")
    case (Inl x)
    then show ?thesis using relax_Inl [OF Cons.prems(1), of p "rec_cost rp" n] by (cases x) auto
  next
    case (Inr s1)
    have step: "search_inv tr P s1 E (hot - {(p, n)})" "bt_get (records s1) p = Some rp" "same_search s s1"
        "terminal s1 = terminal s" "total_expanded s1 = total_expanded s"
      using relax_inv [OF Cons.prems(1-3) _ Inr] Cons.prems(4) by auto
    have "set ns \<subseteq> set (grid_neighbors p (search_width s1) (search_height s1))"
      using Cons.prems(4) step(3) by (simp add: same_search_def)
    moreover have "hot - {(p, n)} - {p} \<times> set ns = hot - {p} \<times> set (n # ns)" by auto
    ultimately show ?thesis
      using Cons.IH [OF step(1) Cons.prems(2) step(2)] Inr step(3,4,5)
      by (fastforce simp: out_of_resources_def dest: same_search_trans)
  qed
qed simp

lemma finite_expanded: "search_inv tr P s E hot \<Longrightarrow> finite E \<and> E \<subseteq> fst ` set (records s)"
proof -
  assume inv: "search_inv tr P s E hot"
  have "E \<subseteq> fst ` set (records s)"
  proof
    fix p assume "p \<in> E"
    then obtain r where "bt_get (records s) p = Some r"
      using search_invD(2) [OF inv] by (auto simp: expanded_ok_def)
    then show "p \<in> fst ` set (records s)" by (force simp: bt_get_def dest: map_of_SomeD)
  qed
  then show ?thesis using finite_subset by auto
qed

text \<open>Taking the entry at the head of the heap, which is current, and counting its hex as expanded.\<close>

lemma popped_inv:
  assumes inv: "search_inv tr P s E {}" and op: "open_list s = e # es"
    and r: "bt_get (records s) (entry_position e) = Some r" "rec_cost r = entry_cost e"
    and goal: "\<not> (goal_contains (search_goal s) (entry_position e) \<and> P (entry_position e))"
  shows "search_inv tr P (s\<lparr>open_list := es, total_expanded := total_expanded s + 1\<rparr>)
     (insert (entry_position e) E)
     ({entry_position e} \<times> set (grid_neighbors (entry_position e) (search_width s) (search_height s)))"
    and "entry_position e \<notin> E"
proof -
  let ?p = "entry_position e" and ?s = "s\<lparr>open_list := es, total_expanded := total_expanded s + 1\<rparr>"
  have ok: "open_ok s E" and tree: "tree_ok tr s E" using search_invD [OF inv] by blast+
  have e: "e = open_entry_for (search_goal s) (rec_cost r) ?p"
    using ok op r(2) by (auto simp: open_ok_def)
  show p: "?p \<notin> E" using ok op r(1) e by (auto simp: open_ok_def)
  have least: "rec_cost r \<le> t" if "walk_to tr s us ?p t" for us t
    using popped_frontier [OF inv op that p] e by (metis open_entry_for_simps(3) add_le_cancel_right)
  have edges: "search_edge tr ?s = search_edge tr s" by (simp add: search_edge_def)
  have "tree_ok tr ?s (insert ?p E)" using tree unfolding tree_ok_def edges by force
  moreover have "expanded_ok tr P ?s (insert ?p E)"
    using search_invD(2) [OF inv] finite_expanded [OF inv] p r(1) goal least
    by (auto simp: expanded_ok_def)
  moreover have "relaxed tr ?s (insert ?p E)
      ({?p} \<times> set (grid_neighbors ?p (search_width s) (search_height s)))"
    using search_invD(3) [OF inv] unfolding relaxed_def edges
    by (auto simp: search_edge_def hex_edge_Some)
  moreover have "open_ok ?s (insert ?p E)"
  proof -
    have "v \<in> insert ?p E \<longleftrightarrow> open_entry_for (search_goal s) (rec_cost rv) v \<notin> set es"
      if "bt_get (records s) v = Some rv" for v rv
    proof (cases "v = ?p")
      case True
      then show ?thesis using ok op that r(1) e by (auto simp: open_ok_def)
    next
      case False
      then have "open_entry_for (search_goal s) (rec_cost rv) v \<noteq> e" using e by (metis open_entry_for_simps(1))
      then show ?thesis using ok op that False by (auto simp: open_ok_def)
    qed
    then show ?thesis using ok op by (auto simp: open_ok_def)
  qed
  ultimately show "search_inv tr P ?s (insert ?p E)
      ({?p} \<times> set (grid_neighbors ?p (search_width s) (search_height s)))"
    using search_invD(5) [OF inv] by (simp add: search_inv_def)
qed

lemma expand_inv:
  assumes inv: "search_inv tr P s E {}" and op: "open_list s = e # es"
    and r: "bt_get (records s) (entry_position e) = Some r" "rec_cost r = entry_cost e"
    and goal: "\<not> (goal_contains (search_goal s) (entry_position e) \<and> P (entry_position e))"
  shows "(\<exists>s'. expand tr e (s\<lparr>open_list := es\<rparr>) = Inr s'
             \<and> search_inv tr P s' (insert (entry_position e) E) {} \<and> same_search s s' \<and> terminal s' = terminal s
             \<and> total_expanded s' = Suc (total_expanded s))
       \<or> (\<exists>st s'. expand tr e (s\<lparr>open_list := es\<rparr>) = Inl (st, s') \<and> out_of_resources s st s')"
proof -
  let ?p = "entry_position e" and ?s = "s\<lparr>open_list := es, total_expanded := total_expanded s + 1\<rparr>"
  have same: "same_search s ?s" by (simp add: same_search_def)
  have "?p \<in> insert ?p E" "bt_get (records ?s) ?p = Some r"
      "set (grid_neighbors ?p (search_width s) (search_height s))
        \<subseteq> set (grid_neighbors ?p (search_width ?s) (search_height ?s))" using r(1) by simp_all
  from relax_all_inv [OF popped_inv(1) [OF assms] this] show ?thesis
    using same_search_trans [OF same] r(2) by (auto simp: expand_def out_of_resources_def)
qed

section \<open>The loop\<close>

text \<open>What an answer of the search promises; \<open>P\<close> are the goal hexes the predicate accepts.\<close>

definition answer_ok :: "traversal \<Rightarrow> (grid_hex \<Rightarrow> bool) \<Rightarrow> astar_search \<Rightarrow> search_status \<Rightarrow> bool" where
  "answer_ok tr P s st \<longleftrightarrow>
     (case st of
        Found path \<Rightarrow>
          walk_to tr s (cells path) (last (cells path)) (path_cost path)
          \<and> goal_contains (search_goal s) (last (cells path)) \<and> P (last (cells path))
          \<and> (\<forall>us q t. walk_to tr s us q t \<longrightarrow> goal_contains (search_goal s) q \<longrightarrow> P q \<longrightarrow> path_cost path \<le> t)
      | Unreachable \<Rightarrow> (\<forall>us q t. walk_to tr s us q t \<longrightarrow> \<not> (goal_contains (search_goal s) q \<and> P q))
      | _ \<Rightarrow> True)"

definition answers :: "(grid_hex \<Rightarrow> bool) \<Rightarrow> ('a \<Rightarrow> grid_hex \<Rightarrow> bool option \<times> 'a) \<Rightarrow> bool" where
  "answers P accept \<longleftrightarrow> (\<forall>a q. fst (accept a q) = None \<or> fst (accept a q) = Some (P q))"

lemma answer_ok_same: "same_search s s' \<Longrightarrow> answer_ok tr P s' st = answer_ok tr P s st"
  using same_search_walk [of s s' tr] by (auto simp: answer_ok_def same_search_def split: search_status.splits)

text \<open>What one call promises: an answer, kept in \<open>terminal\<close>, or the invariant for the next call.\<close>

definition call_ok ::
  "traversal \<Rightarrow> (grid_hex \<Rightarrow> bool) \<Rightarrow> astar_search \<Rightarrow> search_status \<Rightarrow> astar_search \<Rightarrow> bool" where
  "call_ok tr P s st s' \<longleftrightarrow>
     answer_ok tr P s st \<and> same_search s s' \<and> length (records s') \<le> max_records s'
     \<and> (if is_terminal st then terminal s' = Some st
        else terminal s' = None \<and> (\<exists>E. search_inv tr P s' E {}))"

lemma out_of_resources_call: "out_of_resources s st s' \<Longrightarrow> call_ok tr P s st s'"
  by (auto simp: out_of_resources_def call_ok_def answer_ok_def is_terminal_def)

lemma pending_call:
  assumes "search_inv tr P s E {}" and "terminal s = None"
  shows "call_ok tr P s (pending x s) s" and "\<not> is_terminal (pending x s)"
  using assms search_invD(5) [OF assms(1)]
  by (auto simp: call_ok_def pending_def is_terminal_def answer_ok_def)

lemma unreachable_call:
  assumes inv: "search_inv tr P s E {}" and op: "open_list s = []"
  shows "call_ok tr P s Unreachable (s\<lparr>terminal := Some Unreachable\<rparr>)"
proof -
  have all: "v \<in> E" if "bt_get (records s) v = Some r" for v r
    using search_invD(4) [OF inv] op that by (auto simp: open_ok_def)
  have "q \<in> E" if "walk_to tr s us q t" for us q t
    using search_frontier [OF inv that] all by blast
  then have "answer_ok tr P s Unreachable"
    using search_invD(2) [OF inv] by (auto simp: answer_ok_def expanded_ok_def)
  then show ?thesis
    using search_invD(5) [OF inv] by (simp add: call_ok_def is_terminal_def same_search_def)
qed

lemma found_call:
  assumes inv: "search_inv tr P s E {}" and op: "open_list s = e # es"
    and r: "bt_get (records s) (entry_position e) = Some r" "rec_cost r = entry_cost e"
    and goal: "goal_contains (search_goal s) (entry_position e)" "P (entry_position e)"
  shows "\<exists>path. path_to (s\<lparr>open_list := es\<rparr>) (entry_position e) = Some path
     \<and> call_ok tr P s (Found path) (s\<lparr>open_list := es, terminal := Some (Found path)\<rparr>)"
proof -
  let ?p = "entry_position e"
  have ok: "open_ok s E" and tree: "tree_ok tr s E" using search_invD [OF inv] by blast+
  obtain us where us: "walk_to tr s us ?p (rec_cost r)" "\<And>cs. parents_to (records s) cs ?p = Some (us @ cs)"
    using tree_walk [OF tree r(1)] by metis
  define path where "path = \<lparr>cells = us, path_cost = rec_cost r\<rparr>"
  have e: "e = open_entry_for (search_goal s) (rec_cost r) ?p"
    using ok op r(2) by (auto simp: open_ok_def)
  have "rec_cost r \<le> t" if w: "walk_to tr s vs q t" "goal_contains (search_goal s) q" "P q" for vs q t
  proof -
    have "q \<notin> E" using search_invD(2) [OF inv] w(2,3) by (auto simp: expanded_ok_def)
    from popped_frontier [OF inv op w(1) this] have "estimated_total e \<le> t"
      using heuristic_goal [OF w(2)] by simp
    then show ?thesis using e heuristic_goal [OF goal(1)] by (metis open_entry_for_simps(3) add_0_right)
  qed
  moreover have "last us = ?p" using us(1) by (simp add: walk_to_def)
  ultimately have "answer_ok tr P s (Found path)"
    using us(1) goal by (auto simp: answer_ok_def path_def)
  then show ?thesis
    using us(2) r(1) search_invD(5) [OF inv]
    by (intro exI [of _ path]) (simp add: path_to_def path_def call_ok_def is_terminal_def same_search_def)
qed

lemma turn_ok:
  assumes inv: "search_inv tr P s E {}" and op: "open_list s = e # es" and fresh: "terminal s = None"
    and acc: "answers P accept"
  shows "(\<exists>x' s' a' E'. turn_of tr accept e x (s\<lparr>open_list := es\<rparr>) a = Some (Continue x' s' a')
            \<and> search_inv tr P s' E' {} \<and> same_search s s' \<and> terminal s' = None
            \<and> total_expanded s' + x = total_expanded s + x' \<and> x' \<le> Suc x)
       \<or> (\<exists>st s' a'. turn_of tr accept e x (s\<lparr>open_list := es\<rparr>) a = Some (Return st s' a')
            \<and> call_ok tr P s st s' \<and> (is_terminal st \<or> (\<exists>a q. fst (accept a q) = None)))"
proof -
  let ?p = "entry_position e" and ?s = "s\<lparr>open_list := es\<rparr>"
  have ok: "open_ok s E" using inv by (rule search_invD)
  obtain r where r: "bt_get (records s) ?p = Some r" using ok op by (auto simp: open_ok_def)
  show ?thesis
  proof (cases "rec_cost r = entry_cost e")
    case False
    have "open_entry_for (search_goal s) (rec_cost rv) v \<noteq> e" if "bt_get (records s) v = Some rv" for v rv
      using that r False by auto
    then have "open_ok ?s E" using ok op by (auto simp: open_ok_def)
    moreover have "tree_ok tr ?s E" "expanded_ok tr P ?s E" "relaxed tr ?s E {}"
      using search_invD(1-3) [OF inv]
      by (simp_all add: tree_ok_def expanded_ok_def relaxed_def search_edge_def)
    ultimately have "search_inv tr P ?s E {}" using search_invD(5) [OF inv] by (simp add: search_inv_def)
    then show ?thesis using r False fresh by (auto simp: turn_of_def same_search_def)
  next
    case cost: True
    have expanding: ?thesis
      if "\<not> (goal_contains (search_goal s) ?p \<and> P ?p)"
        "turn_of tr accept e x ?s a =
          (case expand tr e ?s of
             Inl (st, s') \<Rightarrow> Some (Return st s' a') | Inr s' \<Rightarrow> Some (Continue (x + 1) s' a'))" for a'
      using expand_inv [OF inv op r cost that(1)] that(2) fresh
      by (auto simp: is_terminal_def out_of_resources_def
          intro!: out_of_resources_call [unfolded out_of_resources_def])
    show ?thesis
    proof (cases "goal_contains (search_goal s) ?p")
      case False
      then show ?thesis using r cost by (intro expanding [of a]) (simp_all add: turn_of_def Let_def)
    next
      case goal: True
      obtain ans a' where ans: "accept a ?p = (ans, a')" by (cases "accept a ?p")
      consider "ans = None" | "ans = Some False" "\<not> P ?p" | "ans = Some True" "P ?p"
        using acc ans unfolding answers_def by (metis fst_conv)
      then show ?thesis
      proof cases
        case 1
        have "heap_push e es = e # es" using ok op by (intro heap.push_popped) (simp add: open_ok_def)
        then have "turn_of tr accept e x ?s a = Some (Return (pending x s) s a')"
          using r cost goal ans 1 op by (simp add: turn_of_def Let_def pending_def)
        then show ?thesis using 1 ans pending_call(1) [OF inv fresh] by (metis fst_conv)
      next
        case 2
        then show ?thesis using r cost goal ans by (intro expanding [of a']) (simp_all add: turn_of_def Let_def)
      next
        case 3
        then show ?thesis
          using found_call [OF inv op r cost goal] r cost goal ans
          by (auto simp: turn_of_def Let_def finish_def is_terminal_def)
      qed
    qed
  qed
qed

lemma call_ok_trans: "same_search s s1 \<Longrightarrow> call_ok tr P s1 st s' \<Longrightarrow> call_ok tr P s st s'"
  using same_search_trans answer_ok_same unfolding call_ok_def by blast

lemma search_loop_ok:
  assumes "search_inv tr P s E {}" and "terminal s = None" and "answers P accept" and "expanded \<le> budget"
  shows "\<exists>st s' a'. search_loop tr accept budget expanded s a = Some ((st, s'), a') \<and> call_ok tr P s st s'
     \<and> (is_terminal st \<or> total_expanded s' = total_expanded s + (budget - expanded)
        \<or> (\<exists>a q. fst (accept a q) = None))"
  using assms
proof (induction tr accept budget expanded s a arbitrary: E rule: search_loop.induct)
  case (1 tr accept budget expanded s a)
  note loop = search_loop.simps [of tr accept budget expanded s a]
  show ?case
  proof (cases "open_list s")
    case Nil
    then show ?thesis
      using unreachable_call [OF "1.prems"(1) Nil] by (simp add: loop finish_def is_terminal_def)
  next
    case (Cons e es)
    show ?thesis
    proof (cases "expanded < budget")
      case False
      then have "search_loop tr accept budget expanded s a = Some ((pending expanded s, s), a)"
        using Cons by (simp add: loop)
      then show ?thesis using "1.prems"(4) False pending_call [OF "1.prems"(1,2)] by auto
    next
      case less: True
      consider (again) x' s1 a1 E1
        where "turn_of tr accept e expanded (s\<lparr>open_list := es\<rparr>) a = Some (Continue x' s1 a1)"
          "search_inv tr P s1 E1 {}" "same_search s s1" "terminal s1 = None"
          "total_expanded s1 + expanded = total_expanded s + x'" "x' \<le> Suc expanded"
      | (stop) st s1 a1
        where "turn_of tr accept e expanded (s\<lparr>open_list := es\<rparr>) a = Some (Return st s1 a1)"
          "call_ok tr P s st s1" "is_terminal st \<or> (\<exists>a q. fst (accept a q) = None)"
        using turn_ok [OF "1.prems"(1) Cons "1.prems"(2,3), of expanded a] by blast
      then show ?thesis
      proof cases
        case again
        note turn = again(1) and s1 = again(2-4) and x' = again(5,6)
        have le: "expanded \<le> x'" "x' \<le> budget" using turn_Continue [OF turn] x'(2) less by auto
        from "1.IH" [OF less Cons turn refl s1(1,3) "1.prems"(3) le(2)] obtain st s' a' where
          run: "search_loop tr accept budget x' s1 a1 = Some ((st, s'), a')" "call_ok tr P s1 st s'"
            "is_terminal st \<or> total_expanded s' = total_expanded s1 + (budget - x')
              \<or> (\<exists>a q. fst (accept a q) = None)" by blast
        have "total_expanded s1 + (budget - x') = total_expanded s + (budget - expanded)"
          using x'(1) le less by linarith
        moreover have "search_loop tr accept budget expanded s a = Some ((st, s'), a')"
          using less Cons turn run(1) by (simp add: loop)
        ultimately show ?thesis using run(2,3) call_ok_trans [OF s1(2)] by metis
      next
        case stop
        then show ?thesis using less Cons by (auto simp: loop)
      qed
    qed
  qed
qed

section \<open>Searches\<close>

definition search_ok :: "traversal \<Rightarrow> (grid_hex \<Rightarrow> bool) \<Rightarrow> astar_search \<Rightarrow> bool" where
  "search_ok tr P s \<longleftrightarrow>
     length (records s) \<le> max_records s
     \<and> (case terminal s of None \<Rightarrow> \<exists>E. search_inv tr P s E {} | Some st \<Rightarrow> is_terminal st \<and> answer_ok tr P s st)"

lemma step_filtered_ok:
  assumes "search_ok tr P s" and "answers P accept"
  shows "\<exists>st s' a'. step_filtered budget tr accept s a = Some ((st, s'), a')
     \<and> search_ok tr P s' \<and> answer_ok tr P s st \<and> same_search s s'
     \<and> (is_terminal st \<or> terminal s' = None \<and>
          (total_expanded s' = total_expanded s + budget \<or> (\<exists>a q. fst (accept a q) = None)))"
proof (cases "terminal s")
  case (Some st)
  then show ?thesis using assms(1) by (auto simp: step_filtered_def search_ok_def)
next
  case None
  then obtain E where inv: "search_inv tr P s E {}" using assms(1) by (auto simp: search_ok_def)
  show ?thesis
  proof (cases "budget = 0")
    case True
    then show ?thesis
      using None assms(1) by (simp add: step_filtered_def pending_def answer_ok_def)
  next
    case False
    obtain st s' a' where
      run: "search_loop tr accept budget 0 s a = Some ((st, s'), a')" and call: "call_ok tr P s st s'"
      and exp: "is_terminal st \<or> total_expanded s' = total_expanded s + budget
        \<or> (\<exists>a q. fst (accept a q) = None)"
      using search_loop_ok [OF inv None assms(2) le0, of budget a] unfolding diff_zero by blast
    have same: "same_search s s'" using call by (simp add: call_ok_def)
    have "search_ok tr P s'"
      using call answer_ok_same [OF same] by (auto simp: call_ok_def search_ok_def split: if_splits)
    then show ?thesis using run call exp None False by (auto simp: step_filtered_def call_ok_def)
  qed
qed

lemma with_record_limit_ok:
  assumes "with_record_limit w h start g limit = Inr s"
  shows "search_ok tr P s \<and> terminal s = None \<and> total_expanded s = 0"
proof -
  have s: "s = \<lparr>search_width = w, search_height = h, search_start = start, search_goal = g,
      max_records = limit, records = [(start, \<lparr>rec_cost = 0, parent = None\<rparr>)],
      open_list = [open_entry_for g 0 start], total_expanded = 0, terminal = None\<rparr>"
    and "contains w h start" "limit \<noteq> 0"
    using assms by (auto simp: with_record_limit_def heap_push_def split: if_splits)
  then have "search_inv tr P s {} {}"
    by (auto simp: search_inv_def tree_ok_def expanded_ok_def relaxed_def open_ok_def bt_get_def bt_ok_def
        split: if_splits)
  then show ?thesis using search_invD(5) by (fastforce simp: search_ok_def s)
qed

text \<open>The searches a caller can hold: one traversal function and one goal predicate, any calls.\<close>

inductive searching ::
  "traversal \<Rightarrow> ('a \<Rightarrow> grid_hex \<Rightarrow> bool option \<times> 'a) \<Rightarrow> astar_search \<Rightarrow> bool"
  for tr :: traversal and accept :: "'a \<Rightarrow> grid_hex \<Rightarrow> bool option \<times> 'a" where
  searching_new: "with_record_limit w h start g limit = Inr s \<Longrightarrow> searching tr accept s"
| searching_step:
    "searching tr accept s \<Longrightarrow> step_filtered budget tr accept s a = Some ((st, s'), a')
     \<Longrightarrow> searching tr accept s'"
| searching_limit: "searching tr accept s \<Longrightarrow> searching tr accept (snd (set_record_limit limit s))"
| searching_invalidate: "searching tr accept s \<Longrightarrow> searching tr accept (snd (invalidate s))"

lemma search_ok_limit: "search_ok tr P s \<Longrightarrow> search_ok tr P (snd (set_record_limit limit s))"
proof (cases "limit < length (records s)")
  case False
  assume ok: "search_ok tr P s"
  have "search_inv tr P (s\<lparr>max_records := limit\<rparr>) E {}" if "search_inv tr P s E {}" for E
    using that False
    by (simp add: search_inv_def tree_ok_def expanded_ok_def relaxed_def open_ok_def search_edge_def)
  moreover have "answer_ok tr P (s\<lparr>max_records := limit\<rparr>) st = answer_ok tr P s st" for st
    by (simp add: answer_ok_def split: search_status.splits)
  ultimately show ?thesis
    using ok False by (auto simp: set_record_limit_def search_ok_def split: option.splits)
qed (simp add: set_record_limit_def)

lemma searching_ok:
  assumes "searching tr accept s" and "answers P accept"
  shows "search_ok tr P s"
  using assms(1)
proof (induction rule: searching.induct)
  case (searching_new w h start g limit s)
  then show ?case using with_record_limit_ok by blast
next
  case (searching_step s budget a st s' a')
  then show ?case using step_filtered_ok [OF searching_step.IH assms(2), of budget a] by auto
next
  case (searching_limit s limit)
  show ?case by (rule search_ok_limit [OF searching_limit.IH])
next
  case (searching_invalidate s)
  then show ?case by (simp add: invalidate_def search_ok_def is_terminal_def answer_ok_def)
qed

text \<open>No more hexes are expanded than the map has.\<close>

lemma card_on_map: "finite {v. contains w h v} \<and> card {v. contains w h v} \<le> w * h"
proof -
  have M: "{v. contains w h v} \<subseteq> (\<lambda>(x, y). GridHex x y) ` ({..<w} \<times> {..<h})"
  proof
    fix v assume "v \<in> {v. contains w h v}"
    then show "v \<in> (\<lambda>(x, y). GridHex x y) ` ({..<w} \<times> {..<h})"
      by (intro image_eqI [of _ _ "(grid_x v, grid_y v)"]) (auto simp: contains_def)
  qed
  have "card {v. contains w h v} \<le> card ({..<w} \<times> {..<h})" using M by (rule surj_card_le [rotated]) simp
  moreover have "finite {v. contains w h v}" using M by (rule finite_subset) simp
  ultimately show ?thesis by simp
qed

lemma records_on_map:
  assumes "search_inv tr P s E hot"
  shows "fst ` set (records s) \<subseteq> {v. contains (search_width s) (search_height s) v}"
    and "card (fst ` set (records s)) = length (records s)"
  using search_invD(1) [OF assms] bt_ok_distinct [of "records s"] distinct_card
  unfolding tree_ok_def by (blast, force)

lemma expanded_le_map:
  assumes "search_inv tr P s E hot"
  shows "total_expanded s \<le> search_width s * search_height s"
    and "length (records s) \<le> search_width s * search_height s"
proof -
  let ?M = "{v. contains (search_width s) (search_height s) v}"
  have M: "finite ?M" "card ?M \<le> search_width s * search_height s" using card_on_map by blast+
  note keys = records_on_map [OF assms]
  have "card E \<le> card ?M" using finite_expanded [OF assms] keys(1) M(1) by (intro card_mono) blast+
  then show "total_expanded s \<le> search_width s * search_height s"
    using search_invD(2) [OF assms] M(2) by (simp add: expanded_ok_def)
  show "length (records s) \<le> search_width s * search_height s"
    using card_mono [OF M(1) keys(1)] keys(2) M(2) by simp
qed

end
