(* ===== verification/Navigation_Complete.thy ===== *)
theory Navigation_Complete
  imports Navigation_Search
begin

text \<open>
  The claims about the A* search: its answers are right whenever it gives one, it gives one within
  as many expansions as the map has hexes, on maps and costs of the source's integer widths it never
  runs out of resources when it may hold a record per hex, and a search may be cut into calls at will.
\<close>

section \<open>Resources\<close>

definition roomy :: "traversal \<Rightarrow> nat \<Rightarrow> astar_search \<Rightarrow> bool" where
  "roomy tr C s \<longleftrightarrow>
     search_width s * search_height s \<le> max_records s
     \<and> (\<forall>u v c. tr u v = Some c \<longrightarrow> c \<le> C)
     \<and> (\<forall>n. contains (search_width s) (search_height s) n \<longrightarrow>
          fits_u64 (C * (search_width s * search_height s) + heuristic (search_goal s) n))"

lemma walk_cost_le:
  assumes "walk_cost edge us = Some t" and "\<And>u v c. edge u v = Some c \<Longrightarrow> c \<le> C"
  shows "t + C \<le> C * length us"
  using assms(1)
proof (induction us arbitrary: t)
  case (Cons u us)
  show ?case
  proof (cases us)
    case (Cons v r)
    then obtain c t' where e: "edge u v = Some c" "walk_cost edge us = Some t'" "t = c + t'"
      using Cons.prems by (auto split: option.splits)
    then show ?thesis using Cons.IH [OF e(2)] assms(2) [OF e(1)] by simp
  qed (use Cons.prems in simp)
qed simp

lemma rec_cost_le:
  assumes inv: "search_inv tr P s E hot" and room: "roomy tr C s" and r: "bt_get (records s) v = Some r"
  shows "rec_cost r + C \<le> C * (search_width s * search_height s)"
proof -
  obtain us where us: "walk_to tr s us v (rec_cost r)" "distinct us"
      "\<forall>x\<in>set us. \<exists>rx. bt_get (records s) x = Some rx \<and> rec_cost rx \<le> rec_cost r"
    using tree_walk [OF search_invD(1) [OF inv] r] by metis
  have "set us \<subseteq> fst ` set (records s)"
    using us(3) by (force simp: bt_get_def dest: map_of_SomeD)
  then have "card (set us) \<le> card (fst ` set (records s))" by (intro card_mono) auto
  also have "\<dots> \<le> length (records s)" using card_image_le [of "set (records s)" fst] card_length le_trans by blast
  finally have "length us \<le> search_width s * search_height s"
    using us(2) expanded_le_map(2) [OF inv] by (simp add: distinct_card)
  moreover have "rec_cost r + C \<le> C * length us"
    using us(1) room by (intro walk_cost_le [of "search_edge tr s"])
      (auto simp: walk_to_def search_edge_def hex_edge_Some roomy_def)
  ultimately show ?thesis using mult_le_mono2 order_trans by blast
qed

lemma relax_roomy:
  assumes inv: "search_inv tr P s E hot" and room: "roomy tr C s"
    and p: "bt_get (records s) p = Some rp"
    and n: "n \<in> set (grid_neighbors p (search_width s) (search_height s))"
  shows "relax tr p (rec_cost rp) n s \<noteq> Inl x"
proof (cases "tr p n")
  case (Some c)
  have cn: "contains (search_width s) (search_height s) n" using n by (simp add: in_grid_neighbors)
  have "rec_cost rp + c \<le> C * (search_width s * search_height s)"
    using rec_cost_le [OF inv room p] room Some by (force simp: roomy_def)
  then have "rec_cost rp + c + heuristic (search_goal s) n
      \<le> C * (search_width s * search_height s) + heuristic (search_goal s) n" by simp
  moreover have "fits_u64 (C * (search_width s * search_height s) + heuristic (search_goal s) n)"
    using room cn by (auto simp: roomy_def)
  ultimately have fits: "fits_u64 (rec_cost rp + c + heuristic (search_goal s) n)"
    using fits_u64_mono by blast
  then have fits': "fits_u64 (rec_cost rp + c)" using fits_u64_mono le_add1 by blast
  have "\<not> (bt_get (records s) n = None \<and> max_records s \<le> length (records s))"
  proof
    assume full: "bt_get (records s) n = None \<and> max_records s \<le> length (records s)"
    let ?M = "{v. contains (search_width s) (search_height s) v}"
    note keys = records_on_map [OF inv]
    have "insert n (fst ` set (records s)) \<subseteq> ?M" using keys(1) cn by blast
    then have "card (insert n (fst ` set (records s))) \<le> card ?M" using card_on_map by (intro card_mono) auto
    also have "\<dots> \<le> search_width s * search_height s" using card_on_map by blast
    finally have "card (insert n (fst ` set (records s))) \<le> search_width s * search_height s" .
    moreover have "n \<notin> fst ` set (records s)" using full by (simp add: bt_get_def map_of_eq_None_iff)
    moreover note keys(2)
    ultimately show False using full room by (simp add: roomy_def)
  qed
  then show ?thesis using Some fits fits' by (auto simp: relax_def Let_def split: option.splits)
qed (simp add: relax_def)

lemma roomy_same: "same_search s s' \<Longrightarrow> roomy tr C s' = roomy tr C s"
  by (simp add: roomy_def same_search_def)

lemma relax_all_roomy:
  assumes "search_inv tr P s E hot" and "roomy tr C s" and "p \<in> E" "bt_get (records s) p = Some rp"
    and "set ns \<subseteq> set (grid_neighbors p (search_width s) (search_height s))"
  shows "relax_all tr p (rec_cost rp) ns s \<noteq> Inl x"
  using assms
proof (induction ns arbitrary: s hot)
  case (Cons n ns)
  have n: "n \<in> set (grid_neighbors p (search_width s) (search_height s))" using Cons.prems(5) by simp
  obtain s1 where s1: "relax tr p (rec_cost rp) n s = Inr s1"
    using relax_roomy [OF Cons.prems(1,2,4) n] by (cases "relax tr p (rec_cost rp) n s") auto
  note step = relax_inv [OF Cons.prems(1,3,4) n s1]
  have "roomy tr C s1" using step roomy_same Cons.prems(2) by blast
  moreover have "set ns \<subseteq> set (grid_neighbors p (search_width s1) (search_height s1))"
    using Cons.prems(5) step by (simp add: same_search_def)
  ultimately show ?case using Cons.IH [of s1 "hot - {(p, n)}"] step Cons.prems(3) s1 by auto
qed simp

lemma expand_roomy:
  assumes inv: "search_inv tr P s E {}" and room: "roomy tr C s" and op: "open_list s = e # es"
    and r: "bt_get (records s) (entry_position e) = Some r" "rec_cost r = entry_cost e"
    and goal: "\<not> (goal_contains (search_goal s) (entry_position e) \<and> P (entry_position e))"
  shows "expand tr e (s\<lparr>open_list := es\<rparr>) \<noteq> Inl x"
proof -
  let ?s = "s\<lparr>open_list := es, total_expanded := total_expanded s + 1\<rparr>"
  have "roomy tr C ?s" using room by (simp add: roomy_def)
  from relax_all_roomy [OF popped_inv(1) [OF inv op r goal] this _ _ subset_refl, of "entry_position e" r x]
  show ?thesis using r by (simp add: expand_def)
qed

lemma turn_roomy:
  assumes inv: "search_inv tr P s E {}" and room: "roomy tr C s" and op: "open_list s = e # es"
    and acc: "answers P accept"
    and turn: "turn_of tr accept e x (s\<lparr>open_list := es\<rparr>) a = Some (Return st s' a')"
  shows "st \<noteq> ResourceLimit i j"
proof -
  let ?p = "entry_position e" and ?s = "s\<lparr>open_list := es\<rparr>"
  obtain r where r: "bt_get (records s) ?p = Some r" "rec_cost r = entry_cost e"
    using turn by (auto simp: turn_of_def split: option.splits if_splits)
  have expanding: "expand tr e ?s \<noteq> Inl y" if "\<not> (goal_contains (search_goal s) ?p \<and> P ?p)" for y
    using expand_roomy [OF inv room op r that] .
  show ?thesis
  proof (cases "goal_contains (search_goal s) ?p")
    case False
    then show ?thesis using turn r expanding by (auto simp: turn_of_def split: sum.splits)
  next
    case True
    obtain ans b where ans: "accept a ?p = (ans, b)" by (cases "accept a ?p")
    consider "ans = None" | "ans = Some False" "\<not> P ?p" | "ans = Some True"
      using acc ans unfolding answers_def by (metis fst_conv)
    then show ?thesis
    proof cases
      case 2
      then show ?thesis using turn r True ans expanding by (auto simp: turn_of_def split: sum.splits)
    qed (use turn r True ans in \<open>auto simp: turn_of_def pending_def finish_def split: option.splits\<close>)
  qed
qed

lemma search_loop_roomy:
  assumes "search_inv tr P s E {}" and "roomy tr C s" and "terminal s = None" and "answers P accept"
    and "search_loop tr accept budget expanded s a = Some ((st, s'), a')"
  shows "st \<noteq> ResourceLimit i j"
  using assms
proof (induction tr accept budget expanded s a arbitrary: E rule: search_loop.induct)
  case (1 tr accept budget expanded s a)
  note run = "1.prems"(5) [unfolded search_loop.simps [of tr accept budget expanded s a]]
  show ?case
  proof (cases "expanded < budget \<and> open_list s \<noteq> []")
    case False
    then show ?thesis using run by (auto simp: finish_def pending_def split: if_splits list.splits)
  next
    case True
    then obtain e es where op: "open_list s = e # es" and less: "expanded < budget"
      by (cases "open_list s") auto
    from turn_ok [OF "1.prems"(1) op "1.prems"(3,4), of expanded a]
    obtain t where turn: "turn_of tr accept e expanded (s\<lparr>open_list := es\<rparr>) a = Some t" by auto
    show ?thesis
    proof (cases t)
      case (Return st1 s1 a1)
      then show ?thesis
        using turn_roomy [OF "1.prems"(1,2) op "1.prems"(4), of expanded a st1 s1 a1] turn run op less by simp
    next
      case (Continue x s1 a1)
      then obtain E1 where "search_inv tr P s1 E1 {}" "same_search s s1" "terminal s1 = None"
        using turn_ok [OF "1.prems"(1) op "1.prems"(3,4), of expanded a] turn by auto
      then show ?thesis
        using "1.IH" [OF less op turn Continue, of E1] roomy_same "1.prems"(2,4) run turn Continue op less
        by simp
    qed
  qed
qed

section \<open>Cutting a search into calls\<close>

definition shift :: "nat \<Rightarrow> search_status \<Rightarrow> search_status" where
  "shift d st = (case st of Pending e t r \<Rightarrow> Pending (e + d) t r | _ \<Rightarrow> st)"

lemma shift_simps [simp]:
  "shift d (pending e s) = pending (e + d) s" "is_terminal (shift d st) = is_terminal st"
  "shift d (Found path) = Found path" "shift d Unreachable = Unreachable"
  "is_terminal st \<Longrightarrow> shift d st = st"
  by (auto simp: shift_def pending_def is_terminal_def split: search_status.splits)

lemma relax_Inl_terminal: "relax tr p c n s = Inl (st, s') \<Longrightarrow> is_terminal st"
  by (auto simp: relax_def resource_limit_def finish_def is_terminal_def Let_def
      split: option.splits if_splits)

lemma relax_all_Inl_terminal: "relax_all tr p c ns s = Inl (st, s') \<Longrightarrow> is_terminal st"
proof (induction ns arbitrary: s)
  case (Cons n ns)
  then show ?case using relax_Inl_terminal by (cases "relax tr p c n s") auto
qed simp

lemma expand_Inl_terminal: "expand tr e s = Inl (st, s') \<Longrightarrow> is_terminal st"
  unfolding expand_def by (rule relax_all_Inl_terminal)

lemma turn_Return_terminal:
  assumes "turn_of tr accept e x s a = Some (Return st s' a')" and "\<And>a q. fst (accept a q) \<noteq> None"
  shows "is_terminal st"
proof -
  have "accept a q \<noteq> (None, b)" for a q b using assms(2) [of a q] by auto
  then show ?thesis
    using assms(1) expand_Inl_terminal
    by (auto simp: turn_of_def Let_def finish_def is_terminal_def [of "Found _"]
        split: option.splits if_splits sum.splits prod.splits bool.splits)
qed

definition shift_turn :: "nat \<Rightarrow> 'a turn \<Rightarrow> 'a turn" where
  "shift_turn d t =
     (case t of Return st s a \<Rightarrow> Return (shift d st) s a | Continue x s a \<Rightarrow> Continue (x + d) s a)"

lemma turn_shift: "turn_of tr accept e (x + d) s a = map_option (shift_turn d) (turn_of tr accept e x s a)"
  using expand_Inl_terminal [of tr e s]
  by (auto simp: turn_of_def shift_turn_def Let_def finish_def split: option.splits sum.splits prod.splits bool.splits)

lemma search_loop_shift:
  "search_loop tr accept (budget + d) (x + d) s a =
     map_option (\<lambda>((st, s'), a'). ((shift d st, s'), a')) (search_loop tr accept budget x s a)"
proof (induction tr accept budget x s a rule: search_loop.induct)
  case (1 tr accept budget x s a)
  note loop = search_loop.simps [of tr accept budget x s a]
    search_loop.simps [of tr accept "budget + d" "x + d" s a]
  show ?case
  proof (cases "x < budget \<and> open_list s \<noteq> []")
    case False
    then show ?thesis by (auto simp: loop finish_def split: list.splits)
  next
    case True
    then obtain e es where op: "open_list s = e # es" and less: "x < budget" by (cases "open_list s") auto
    show ?thesis
    proof (cases "turn_of tr accept e x (s\<lparr>open_list := es\<rparr>) a")
      case None
      then show ?thesis using op less by (simp add: loop turn_shift)
    next
      case (Some t)
      show ?thesis
      proof (cases t)
        case (Return st s1 a1)
        then show ?thesis using op less Some by (simp add: loop turn_shift shift_turn_def)
      next
        case (Continue x1 s1 a1)
        then show ?thesis
          using op less Some "1.IH" [OF less op Some Continue] by (simp add: loop turn_shift shift_turn_def)
      qed
    qed
  qed
qed

text \<open>A loop with a larger budget goes on where the smaller one stopped.\<close>

lemma search_loop_more:
  assumes "\<And>a q. fst (accept a q) \<noteq> None" and "x \<le> m"
  shows "search_loop tr accept (m + k) x s a =
     (case search_loop tr accept m x s a of
        None \<Rightarrow> None
      | Some ((st, s'), a') \<Rightarrow>
          if is_terminal st then Some ((st, s'), a') else search_loop tr accept (m + k) m s' a')"
  using assms
proof (induction tr accept m x s a rule: search_loop.induct)
  case (1 tr accept m x s a)
  note loop = search_loop.simps [of tr accept m x s a] search_loop.simps [of tr accept "m + k" x s a]
  show ?case
  proof (cases "open_list s")
    case Nil
    then show ?thesis by (simp add: loop finish_def is_terminal_def)
  next
    case (Cons e es)
    show ?thesis
    proof (cases "x < m")
      case False
      then have x: "x = m" using "1.prems"(2) by simp
      then have "search_loop tr accept m x s a = Some ((pending m s, s), a)"
        unfolding loop(1) using Cons by simp
      then show ?thesis by (simp add: x pending_def is_terminal_def)
    next
      case less: True
      show ?thesis
      proof (cases "turn_of tr accept e x (s\<lparr>open_list := es\<rparr>) a")
        case None
        then show ?thesis using Cons less by (simp add: loop)
      next
        case (Some t)
        show ?thesis
        proof (cases t)
          case (Return st s1 a1)
          then have "is_terminal st" using turn_Return_terminal [OF Some [unfolded Return] "1.prems"(1)] by simp
          then show ?thesis using Cons less Some Return by (simp add: loop)
        next
          case (Continue x1 s1 a1)
          then have "x1 \<le> m" using turn_Continue [of tr accept e x] Some less by fastforce
          then show ?thesis
            using Cons less Some Continue "1.IH" [OF less Cons Some Continue "1.prems"(1)] by (simp add: loop)
        qed
      qed
    qed
  qed
qed

text \<open>How a loop ends, read off its result.\<close>

lemma turn_Return_kept:
  assumes "turn_of tr accept e x s a = Some (Return st s' a')"
  shows "st \<noteq> Invalidated \<and> (is_terminal st \<longrightarrow> terminal s' = Some st)"
proof -
  have "relax_all tr p c ns t = Inl (st', t') \<Longrightarrow> st' \<noteq> Invalidated \<and> terminal t' = Some st'" for p c ns t st' t'
  proof (induction ns arbitrary: t)
    case (Cons n ns)
    then show ?case
      by (cases "relax tr p c n t")
        (auto simp: relax_def resource_limit_def finish_def Let_def split: option.splits if_splits)
  qed simp
  then show ?thesis
    using assms
    by (auto simp: turn_of_def expand_def Let_def finish_def pending_def is_terminal_def [of "Pending _ _ _"]
        split: option.splits if_splits sum.splits prod.splits bool.splits)
qed

lemma search_loop_kept:
  assumes "search_loop tr accept budget x s a = Some ((st, s'), a')"
  shows "st \<noteq> Invalidated \<and> (is_terminal st \<longrightarrow> terminal s' = Some st)"
  using assms
proof (induction tr accept budget x s a rule: search_loop.induct)
  case (1 tr accept budget x s a)
  note run = "1.prems" [unfolded search_loop.simps [of tr accept budget x s a]]
  show ?case
  proof (cases "x < budget \<and> open_list s \<noteq> []")
    case False
    then show ?thesis
      using run by (auto simp: finish_def pending_def is_terminal_def split: if_splits list.splits)
  next
    case True
    then obtain e es where op: "open_list s = e # es" and less: "x < budget" by (cases "open_list s") auto
    obtain t where turn: "turn_of tr accept e x (s\<lparr>open_list := es\<rparr>) a = Some t"
      using run op less by (cases "turn_of tr accept e x (s\<lparr>open_list := es\<rparr>) a") auto
    show ?thesis
    proof (cases t)
      case (Return st1 s1 a1)
      then show ?thesis using run op less turn turn_Return_kept by simp
    next
      case (Continue x1 s1 a1)
      then show ?thesis using run op less turn "1.IH" [OF less op turn Continue] by simp
    qed
  qed
qed

section \<open>Sizes on 16-bit maps\<close>

lemma grid_distance_le:
  assumes "contains w h a" and "contains w h b"
  shows "grid_distance a b \<le> w + h"
proof -
  have half: "0 \<le> (x + x mod 2) div 2 \<and> (x + x mod 2) div 2 \<le> x" if "0 \<le> x" for x :: int
    using that by presburger
  define xa ya xb yb where "xa = int (grid_x a)" "ya = int (grid_y a)" "xb = int (grid_x b)" "yb = int (grid_y b)"
  have c: "cube (to_hex a) = (xa, ya - (xa + xa mod 2) div 2, - xa - (ya - (xa + xa mod 2) div 2))"
    "cube (to_hex b) = (xb, yb - (xb + xb mod 2) div 2, - xb - (yb - (xb + xb mod 2) div 2))"
    by (simp_all add: cube_def to_hex_def Let_def xa_ya_xb_yb_def)
  have "0 \<le> xa" "xa < int w" "0 \<le> ya" "ya < int h" "0 \<le> xb" "xb < int w" "0 \<le> yb" "yb < int h"
    using assms by (simp_all add: contains_def xa_ya_xb_yb_def)
  then have "int (hex_distance (to_hex a) (to_hex b)) \<le> int (w + h)"
    unfolding hex_distance_cube [OF c] axial_norm_le abs_le_iff of_nat_add
    using conjunct1 [OF half, of xa] conjunct2 [OF half, of xa] conjunct1 [OF half, of xb]
      conjunct2 [OF half, of xb] by linarith
  then show ?thesis by (simp add: grid_distance_def)
qed

lemma heuristic_le:
  assumes "contains w h n" and "contains w h (center g)"
  shows "heuristic g n \<le> minimum g + (w + h)"
  using grid_distance_le [OF assms] by (auto simp: heuristic_def Let_def)

lemma with_record_limit_roomy:
  assumes "with_record_limit w h start g limit = Inr s" and "w < 65536" "h < 65536" "minimum g < 2 ^ 32"
    and "\<forall>u v c. tr u v = Some c \<longrightarrow> c < 2 ^ 32" and "w * h \<le> limit"
  shows "roomy tr (2 ^ 32 - 1) s"
proof -
  have s: "search_width s = w" "search_height s = h" "search_goal s = g" "max_records s = limit"
    "contains w h (center g)"
    using assms(1) by (auto simp: with_record_limit_def split: if_splits)
  have "fits_u64 ((2 ^ 32 - 1) * (w * h) + heuristic g n)" if "contains w h n" for n
  proof -
    have "w * h \<le> 65535 * 65535" using assms(2,3) by (intro mult_le_mono) auto
    moreover have "heuristic g n \<le> 2 ^ 32 + 131072"
      using heuristic_le [OF that s(5)] assms(2-4) by simp
    ultimately have "(2 ^ 32 - 1) * (w * h) + heuristic g n \<le> (2 ^ 32 - 1) * (65535 * 65535) + (2 ^ 32 + 131072)"
      by (intro add_mono mult_le_mono2)
    moreover have "fits_u64 ((2 ^ 32 - 1) * (65535 * 65535) + (2 ^ 32 + 131072))"
      by (simp add: fits_u64_def)
    ultimately show ?thesis using fits_u64_mono by blast
  qed
  moreover have "c \<le> 2 ^ 32 - 1" if "tr u v = Some c" for u v c using assms(5) that by fastforce
  ultimately show ?thesis using assms(6) by (auto simp: roomy_def s)
qed

section \<open>Claims\<close>

lemma always_answers: "answers (\<lambda>_. True) (\<lambda>u _. (Some True, u))"
  by (simp add: answers_def)

lemma step_ok:
  assumes "search_ok tr (\<lambda>_. True) s"
  obtains st s' where "step budget tr s = Some (st, s')" "step_filtered budget tr (\<lambda>u _. (Some True, u)) s () = Some ((st, s'), ())"
    "search_ok tr (\<lambda>_. True) s'" "answer_ok tr (\<lambda>_. True) s st"
    "is_terminal st \<or> terminal s' = None \<and> total_expanded s' = total_expanded s + budget" "same_search s s'"
proof -
  from step_filtered_ok [OF assms always_answers, of budget "()"] obtain st s' a' where
    "step_filtered budget tr (\<lambda>u _. (Some True, u)) s () = Some ((st, s'), a')"
    "search_ok tr (\<lambda>_. True) s'" "answer_ok tr (\<lambda>_. True) s st"
    "is_terminal st \<or> terminal s' = None \<and> total_expanded s' = total_expanded s + budget" "same_search s s'"
    by auto
  then show thesis using that by (simp add: step_def)
qed

text \<open>
  A three by two map of open ground around a blocked hex: the search for the far corner takes the way
  round, in one call or in two.
\<close>
definition sample_traversal :: traversal where
  "sample_traversal u v = (if v = GridHex 1 0 then None else Some 1)"

definition sample_search :: astar_search where
  "sample_search =
     (case with_record_limit 3 2 (GridHex 0 0) (goal_new (GridHex 2 0) 0) 6 of
        Inr s \<Rightarrow> s | Inl _ \<Rightarrow> undefined)"

lemma sample_search_new:
  "with_record_limit 3 2 (GridHex 0 0) (goal_new (GridHex 2 0) 0) 6 = Inr sample_search"
  by (simp add: with_record_limit_def sample_search_def contains_def goal_new_def)

text \<open>
  C1. Answers of the search are right. However a search was driven (any number of calls with any
  budgets, record limits changed in between), a call returns; when it reports a route, the route is
  a walk over adjacent hexes of the map that the traversal allows, from the start to an accepted hex
  of the goal region, its cost is the sum of the costs along it, and no walk to an accepted goal hex
  costs less; when it reports that the goal cannot be reached, there is no such walk. Accepted hexes
  are those the caller's predicate confirms; it may put off its answer at any time. Records never
  exceed the limit.
\<close>
theorem astar_answers_right:
  assumes "searching tr accept s" and "answers P accept"
  shows "\<exists>st s' a'. step_filtered budget tr accept s a = Some ((st, s'), a')
     \<and> (\<forall>path. st = Found path \<longrightarrow>
          walk_to tr s (cells path) (last (cells path)) (path_cost path)
          \<and> goal_contains (search_goal s) (last (cells path)) \<and> P (last (cells path))
          \<and> (\<forall>us q t. walk_to tr s us q t \<longrightarrow> goal_contains (search_goal s) q \<longrightarrow> P q \<longrightarrow> path_cost path \<le> t))
     \<and> (st = Unreachable \<longrightarrow> (\<forall>us q t. walk_to tr s us q t \<longrightarrow> \<not> (goal_contains (search_goal s) q \<and> P q)))
     \<and> record_count s' \<le> max_records s'"
proof -
  have ok: "search_ok tr P s" using assms by (rule searching_ok)
  obtain st s' a' where run: "step_filtered budget tr accept s a = Some ((st, s'), a')" "search_ok tr P s'"
    and ans: "answer_ok tr P s st"
    using step_filtered_ok [OF ok assms(2), of budget a] by blast
  have "record_count s' \<le> max_records s'" using run(2) by (simp add: search_ok_def record_count_def)
  then show ?thesis using run(1) ans unfolding answer_ok_def by (cases st) simp_all
qed

theorem astar_answers_right_witness:
  "\<exists>s'. step_filtered 100 sample_traversal (\<lambda>(u::unit) _. (Some True, u)) sample_search () =
      Some ((Found \<lparr>cells = [GridHex 0 0, GridHex 1 1, GridHex 2 0], path_cost = 2\<rparr>, s'), ())
     \<and> (\<forall>us q t. walk_to sample_traversal sample_search us q t
            \<longrightarrow> goal_contains (search_goal sample_search) q \<longrightarrow> 2 \<le> t)"
proof -
  let ?acc = "\<lambda>(u::unit) (_::grid_hex). (Some True, u)"
  let ?path = "\<lparr>cells = [GridHex 0 0, GridHex 1 1, GridHex 2 0], path_cost = 2\<rparr>"
  have run: "map_option (\<lambda>r. fst (fst r)) (step_filtered 100 sample_traversal ?acc sample_search ()) =
      Some (Found ?path)" by code_simp
  have "searching sample_traversal ?acc sample_search" using sample_search_new by (rule searching_new)
  from astar_answers_right [OF this always_answers, of 100 "()"] obtain st s' a' where
    res: "step_filtered 100 sample_traversal ?acc sample_search () = Some ((st, s'), a')"
    and min: "\<forall>path. st = Found path \<longrightarrow> (\<forall>us q t. walk_to sample_traversal sample_search us q t
        \<longrightarrow> goal_contains (search_goal sample_search) q \<longrightarrow> path_cost path \<le> t)" by blast
  have "st = Found ?path" using run res by simp
  then show ?thesis using res min by (metis (full_types) navigation_path.select_convs(2) old.unit.exhaust)
qed

text \<open>
  C20. The search decides reachability. On a map with 16-bit dimensions and 32-bit costs, a new search
  that may hold one record per hex, given a budget beyond the number of hexes, does not stop early:
  its first call reports a cheapest route when the goal region can be reached, and otherwise that it
  cannot. Costs do not overflow on the way.
\<close>
theorem astar_decides:
  assumes "with_record_limit w h start g limit = Inr s" and "w < 65536" "h < 65536" "minimum g < 2 ^ 32"
    and "\<forall>u v c. tr u v = Some c \<longrightarrow> c < 2 ^ 32" and "w * h \<le> limit" and "w * h < budget"
  shows "\<exists>st s'. step budget tr s = Some (st, s')
     \<and> (if \<exists>us q t. walk_to tr s us q t \<and> goal_contains g q
        then \<exists>path. st = Found path \<and> walk_to tr s (cells path) (last (cells path)) (path_cost path)
               \<and> goal_contains g (last (cells path))
               \<and> (\<forall>us q t. walk_to tr s us q t \<longrightarrow> goal_contains g q \<longrightarrow> path_cost path \<le> t)
        else st = Unreachable)"
proof -
  have s: "search_goal s = g" "search_width s = w" "search_height s = h"
    using assms(1) by (auto simp: with_record_limit_def split: if_splits)
  have ok: "search_ok tr (\<lambda>_. True) s" and fresh: "terminal s = None" "total_expanded s = 0"
    using with_record_limit_ok [OF assms(1)] by blast+
  obtain st s' where run: "step budget tr s = Some (st, s')"
    "step_filtered budget tr (\<lambda>u _. (Some True, u)) s () = Some ((st, s'), ())"
    and next_ok: "search_ok tr (\<lambda>_. True) s'" and ans: "answer_ok tr (\<lambda>_. True) s st"
    and exp: "is_terminal st \<or> terminal s' = None \<and> total_expanded s' = total_expanded s + budget"
    and same: "same_search s s'"
    using step_ok [OF ok] .
  have "is_terminal st"
  proof (rule ccontr)
    assume "\<not> is_terminal st"
    then have "terminal s' = None" "total_expanded s' = budget" using exp fresh(2) by auto
    then show False
      using next_ok expanded_le_map(1) [of tr "\<lambda>_. True" s'] same assms(7)
      by (force simp: search_ok_def same_search_def s)
  qed
  moreover have loop: "search_loop tr (\<lambda>u _. (Some True, u)) budget 0 s () = Some ((st, s'), ())"
    using run(2) fresh(1) assms(7) by (auto simp: step_filtered_def)
  have "st \<noteq> ResourceLimit i j" for i j
    using ok fresh(1) search_loop_roomy [OF _ with_record_limit_roomy [OF assms(1-6)] fresh(1) always_answers loop]
    by (auto simp: search_ok_def)
  moreover have "st \<noteq> Invalidated"
    using search_loop_kept [OF loop] by blast
  ultimately have "(\<exists>path. st = Found path) \<or> st = Unreachable"
    by (cases st) (auto simp: is_terminal_def)
  then show ?thesis
  proof
    assume "\<exists>path. st = Found path"
    then obtain path where st: "st = Found path" by blast
    then have "walk_to tr s (cells path) (last (cells path)) (path_cost path)"
      "goal_contains g (last (cells path))"
      "\<forall>us q t. walk_to tr s us q t \<longrightarrow> goal_contains g q \<longrightarrow> path_cost path \<le> t"
      using ans by (simp_all add: answer_ok_def s)
    then show ?thesis using run(1) st by metis
  next
    assume st: "st = Unreachable"
    then have "\<not> (\<exists>us q t. walk_to tr s us q t \<and> goal_contains g q)" using ans by (auto simp: answer_ok_def s)
    then show ?thesis using run(1) st by metis
  qed
qed

theorem astar_decides_witness:
  "\<exists>st s'. step 7 sample_traversal sample_search = Some (st, s') \<and> (\<exists>path. st = Found path \<and> path_cost path = 2)"
proof -
  have run: "map_option fst (step 7 sample_traversal sample_search) =
      Some (Found \<lparr>cells = [GridHex 0 0, GridHex 1 1, GridHex 2 0], path_cost = 2\<rparr>)" by code_simp
  have ground: "\<forall>u v c. sample_traversal u v = Some c \<longrightarrow> c < 2 ^ 32" by (simp add: sample_traversal_def)
  obtain st s' where "step 7 sample_traversal sample_search = Some (st, s')"
    using astar_decides [OF sample_search_new _ _ _ ground, of 7] by (auto simp: goal_new_def)
  then show ?thesis using run by auto
qed

text \<open>
  A search can be cut into calls. A call with budget \<open>m\<close> followed by one with budget \<open>k\<close> leaves the
  search as one call with budget \<open>m + k\<close> does, with the same final answer.
\<close>
lemma step_resumable:
  assumes "searching tr (\<lambda>(u::unit) _. (Some True, u)) s"
    and "step m tr s = Some (st1, s1)" and "step k tr s1 = Some (st2, s2)"
  shows "\<exists>st. step (m + k) tr s = Some (st, s2) \<and> (is_terminal st2 \<longrightarrow> st = st2)"
proof -
  let ?acc = "\<lambda>(u::unit) (_::grid_hex). (Some True, u)"
  have ok: "search_ok tr (\<lambda>_. True) s" using assms(1) always_answers by (rule searching_ok)
  have first: "step_filtered m tr ?acc s () = Some ((st1, s1), ())"
    and pend: "is_terminal st1 \<or> terminal s1 = None" and ok1: "search_ok tr (\<lambda>_. True) s1"
    using step_ok [OF ok, of m] assms(2) by (metis Pair_inject option.inject)+
  have second: "step_filtered k tr ?acc s1 () = Some ((st2, s2), ())"
    using step_ok [OF ok1, of k] assms(3) by (metis Pair_inject option.inject)
  have goal: ?thesis if "step_filtered (m + k) tr ?acc s () = Some ((st, s2), ())" "is_terminal st2 \<longrightarrow> st = st2" for st
    using that by (simp add: step_def)
  show ?thesis
  proof (cases "m = 0 \<or> terminal s \<noteq> None")
    case True
    then show ?thesis using first second by (intro goal [of st2]) (auto simp: step_filtered_def split: option.splits)
  next
    case False
    then have loop: "search_loop tr ?acc m 0 s () = Some ((st1, s1), ())"
      using first by (auto simp: step_filtered_def)
    have more: "step_filtered (m + k) tr ?acc s () =
        (if is_terminal st1 then Some ((st1, s1), ()) else search_loop tr ?acc (m + k) m s1 ())"
      using search_loop_more [of ?acc 0 m tr k s "()"] loop False by (simp add: step_filtered_def)
    show ?thesis
    proof (cases "is_terminal st1")
      case True
      then have "terminal s1 = Some st1" using search_loop_kept [OF loop] by simp
      then show ?thesis using more True second by (intro goal [of st1]) (auto simp: step_filtered_def)
    next
      case False
      have rest: "step_filtered (m + k) tr ?acc s () =
          map_option (\<lambda>((st, s'), a'). ((shift m st, s'), a')) (search_loop tr ?acc k 0 s1 ())"
        using more False search_loop_shift [of tr ?acc k m 0 s1 "()"] by (simp add: add.commute)
      show ?thesis
      proof (cases "k = 0")
        case True
        then show ?thesis
          using first second pend False
          by (intro goal [of st1]) (auto simp: step_filtered_def pending_def is_terminal_def)
      next
        case k: False
        have "search_loop tr ?acc k 0 s1 () = Some ((st2, s2), ())"
          using second pend False k by (simp add: step_filtered_def)
        then show ?thesis using rest by (intro goal [of "shift m st2"]) simp_all
      qed
    qed
  qed
qed

end
