(* ===== verification/Rust_Num.thy ===== *)
theory Rust_Num
  imports Rust_Str
begin

text \<open>
  Decimal numbers in text: \<open>Display\<close> of integers, \<open>str::parse\<close> for signed and unsigned types, \<open>str::split\<close>
  on a class of ASCII characters and \<open>join\<close>, with the round trips between them.
\<close>

section \<open>Definitions\<close>

fun show_nat :: "nat \<Rightarrow> bytes" where
  "show_nat n = (if n < 10 then [48 + of_nat n] else show_nat (n div 10) @ [48 + of_nat (n mod 10)])"

declare show_nat.simps [simp del]

definition show_int :: "int \<Rightarrow> bytes" where
  "show_int i = (if i < 0 then 45 # show_nat (nat (- i)) else show_nat (nat i))"

text \<open>\<open>parse\<close> for a signed type that holds the numbers from \<open>lo\<close> up to, not including, \<open>hi\<close>.\<close>

definition parse_int :: "int \<Rightarrow> int \<Rightarrow> bytes \<Rightarrow> int option" where
  "parse_int lo hi s =
     (let (neg, ds) = (case strip_prefix [45] s of
                         Some r \<Rightarrow> (True, r)
                       | None \<Rightarrow> (False, case strip_prefix [43] s of Some r \<Rightarrow> r | None \<Rightarrow> s));
          n = (if neg then - int (decimal ds) else int (decimal ds))
      in if ds \<noteq> [] \<and> list_all is_ascii_digit ds \<and> lo \<le> n \<and> n < hi then Some n else None)"

definition parse_u8 :: "bytes \<Rightarrow> nat option" where
  "parse_u8 s = (case parse_usize s of Some n \<Rightarrow> if n < 256 then Some n else None | None \<Rightarrow> None)"

definition parse_i32 :: "bytes \<Rightarrow> int option" where
  "parse_i32 = parse_int (- (2 ^ 31)) (2 ^ 31)"

definition parse_i64 :: "bytes \<Rightarrow> int option" where
  "parse_i64 = parse_int (- (2 ^ 63)) (2 ^ 63)"

fun split_by :: "(u8 \<Rightarrow> bool) \<Rightarrow> bytes \<Rightarrow> bytes list" where
  "split_by P [] = [[]]"
| "split_by P (b # bs) =
     (if P b then [] # split_by P bs else (b # hd (split_by P bs)) # tl (split_by P bs))"

fun join_with :: "bytes \<Rightarrow> bytes list \<Rightarrow> bytes" where
  "join_with sep [] = []"
| "join_with sep [x] = x"
| "join_with sep (x # y # xs) = x @ sep @ join_with sep (y # xs)"

section \<open>Round trips\<close>

lemma digit_value:
  assumes "n < 10"
  shows "unat (48 + of_nat n - 48 :: u8) = n" and "is_ascii_digit (48 + of_nat n)"
proof -
  have "n = 0 \<or> n = 1 \<or> n = 2 \<or> n = 3 \<or> n = 4 \<or> n = 5 \<or> n = 6 \<or> n = 7 \<or> n = 8 \<or> n = 9" using assms by auto
  then show "unat (48 + of_nat n - 48 :: u8) = n" "is_ascii_digit (48 + of_nat n)" by (auto simp: is_ascii_digit_def)
qed

lemma decimal_snoc: "decimal (s @ [b]) = 10 * decimal s + unat (b - 48)"
  by (simp add: decimal_def)

lemma show_nat_decimal: "decimal (show_nat n) = n"
proof (induction n rule: show_nat.induct)
  case (1 n)
  show ?case
  proof (cases "n < 10")
    case True
    then show ?thesis using digit_value(1) [of n] by (simp add: show_nat.simps [of n] decimal_def)
  next
    case False
    then show ?thesis
      using 1 digit_value(1) [of "n mod 10"] by (simp add: show_nat.simps [of n] decimal_snoc)
  qed
qed

lemma show_nat_digits: "show_nat n \<noteq> []" "list_all is_ascii_digit (show_nat n)"
proof -
  show "show_nat n \<noteq> []" by (simp add: show_nat.simps [of n])
  show "list_all is_ascii_digit (show_nat n)"
  proof (induction n rule: show_nat.induct)
    case (1 n)
    then show ?case
      using digit_value(2) [of n] digit_value(2) [of "n mod 10"] by (simp add: show_nat.simps [of n])
  qed
qed

lemma show_nat_no_sign: "strip_prefix [43] (show_nat n) = None" "strip_prefix [45] (show_nat n) = None"
proof -
  obtain d ds where d: "show_nat n = d # ds" using show_nat_digits(1) by (cases "show_nat n") auto
  then have "is_ascii_digit d" using show_nat_digits(2) [of n] by simp
  then have "d \<noteq> 43" "d \<noteq> 45" by (auto simp: is_ascii_digit_def)
  then show "strip_prefix [43] (show_nat n) = None" "strip_prefix [45] (show_nat n) = None"
    by (simp_all add: strip_prefix_def d)
qed

lemma parse_usize_show: "n < 2 ^ 64 \<Longrightarrow> parse_usize (show_nat n) = Some n"
  using show_nat_digits [of n] by (simp add: parse_usize_def show_nat_no_sign show_nat_decimal fits_u64_def)

lemma parse_u8_show: "n < 256 \<Longrightarrow> parse_u8 (show_nat n) = Some n"
  by (simp add: parse_u8_def parse_usize_show)

lemma parse_int_show: "lo \<le> i \<Longrightarrow> i < hi \<Longrightarrow> parse_int lo hi (show_int i) = Some i"
proof (cases "i < 0")
  case True
  assume "lo \<le> i" "i < hi"
  then show ?thesis
    using True show_nat_digits [of "nat (- i)"]
    by (simp add: show_int_def parse_int_def strip_prefix_def show_nat_decimal)
next
  case False
  assume "lo \<le> i" "i < hi"
  then show ?thesis
    using False show_nat_digits [of "nat i"]
    by (simp add: show_int_def parse_int_def show_nat_no_sign show_nat_decimal)
qed

lemma show_int_bytes: "b \<in> set (show_int i) \<Longrightarrow> b = 45 \<or> is_ascii_digit b"
  using show_nat_digits(2) by (auto simp: show_int_def list_all_iff split: if_splits)

lemma show_nat_bytes: "b \<in> set (show_nat n) \<Longrightarrow> is_ascii_digit b"
  using show_nat_digits(2) by (auto simp: list_all_iff)

lemma split_by_append:
  assumes "list_all (\<lambda>b. \<not> P b) x"
  shows "split_by P (x @ s) = (x @ hd (split_by P s)) # tl (split_by P s)"
proof -
  have "split_by P s \<noteq> []" by (cases s) auto
  then show ?thesis using assms by (induction x) auto
qed

lemma split_by_join:
  assumes "P sep" and "xs \<noteq> []" and "\<forall>x\<in>set xs. list_all (\<lambda>b. \<not> P b) x"
  shows "split_by P (join_with [sep] xs) = xs"
  using assms(2,3)
proof (induction "[sep]" xs rule: join_with.induct)
  case (2 x)
  then show ?case using split_by_append [of P x "[]"] by simp
next
  case (3 x y xs)
  then show ?case using split_by_append [of P x "sep # join_with [sep] (y # xs)"] assms(1) by simp
qed simp

lemma split_once_append: "sep \<notin> set x \<Longrightarrow> split_once sep (x @ sep # y) = Some (x, y)"
  by (induction x) (auto simp: split_once_def)

end
