(* ===== verification/Macros.thy ===== *)
theory Macros
  imports World_Authority Rust_Num
begin

text \<open>
  \<open>src/macros\<close>: player-owned macro sets (\<open>mod.rs\<close>), the trusted operations of scripts (\<open>service.rs\<close>)
  and the dot commands of players (\<open>commands.rs\<close>). The state is the object table, the macro state
  \<open>PlayerMacros\<close> and the next runtime identity of a set. A \<open>RowOrigin\<close> cell is its value. Replies
  and errors are constructors with the data of the message; the text of listings is not modelled
  beyond the bound that \<open>lines\<close> puts on it. An index out of range is the error \<open>MacroPanic\<close>.
\<close>

unbundle bit_operations_syntax

section \<open>Macro sets\<close>

definition TEXT_LIMIT :: nat where "TEXT_LIMIT = 8191"
definition SLOT_COUNT :: nat where "SLOT_COUNT = 5"

type_synonym macro_modes = "64 word"

definition LOCKED :: macro_modes where "LOCKED = 1"
definition READ :: macro_modes where "READ = 2"
definition WRITE :: macro_modes where "WRITE = 4"

definition modes_has :: "macro_modes \<Rightarrow> macro_modes \<Rightarrow> bool" where
  "modes_has m bits \<longleftrightarrow> m AND bits \<noteq> 0"

definition modes_letters :: "macro_modes \<Rightarrow> string" where
  "modes_letters m =
     map (\<lambda>(bits, letter). if modes_has m bits then letter else CHR ''-'')
       [(LOCKED, CHR ''L''), (READ, CHR ''R''), (WRITE, CHR ''W'')]"

record macro_entry =
  entry_origin :: int
  entry_alias :: bytes
  expansion :: bytes

record macro_set =
  set_id :: nat
  set_origin :: int
  set_owner_of :: object_id
  modes :: macro_modes
  set_description :: bytes
  set_entries :: "macro_entry list"

definition readable :: "macro_set \<Rightarrow> object_id \<Rightarrow> bool \<Rightarrow> bool" where
  "readable s player wizard \<longleftrightarrow> wizard \<or> set_owner_of s = player \<or> modes_has (modes s) READ"

definition writable :: "macro_set \<Rightarrow> object_id \<Rightarrow> bool" where
  "writable s player \<longleftrightarrow>
     \<not> modes_has (modes s) LOCKED \<and> (set_owner_of s = player \<or> modes_has (modes s) WRITE)"

record macro_slots =
  current_slot :: "nat option"
  slots :: "nat option list"

definition slots_default :: macro_slots where
  "slots_default = \<lparr>current_slot = None, slots = replicate SLOT_COUNT None\<rparr>"

record player_macros =
  sets :: "macro_set list"
  players :: "(object_id, macro_slots) btree"

datatype macro_error =
    MacroPanic
  | BadAlias | BadText | ExpansionTooLong | InvalidAttachment
  | InvalidOwner nat object_id | InDescription nat | InEntry nat nat macro_error | DuplicateAlias nat nat
  | MissingSlotOwner object_id | InvalidSlotSet object_id nat | InvalidCurrent object_id
  | NoCurrentSlot | NeedSlotNumber | IllegalSlot | NeedSetNumber | NoSuchMacroSet | FiveSets
  | TakesNoArguments | MacroDenied | UnknownMode | SetIsLocked | ClearOwnOnly
  | NeedEquals | AliasWhitespace | EmptyExpansion | AliasInUse | NotInSet | IllegalExamine
  | TargetInvalid | TargetMissing | TargetAmbiguous
  | SetGone | ObjectInvalid bool | MacroNotFound | MacroExists | SlotsFull | SlotRange

definition alias_check :: "bytes \<Rightarrow> (macro_error, unit) result" where
  "alias_check v =
     ensure (1 \<le> length v \<and> length v \<le> 4 \<and> list_all (\<lambda>b. 32 \<le> b \<and> b \<le> 126) v) BadAlias"

definition text_check :: "bytes \<Rightarrow> (macro_error, unit) result" where
  "text_check v = ensure (length v \<le> TEXT_LIMIT \<and> 0 \<notin> set v) BadText"

section \<open>The catalogue of sets\<close>

definition detach_set :: "nat \<Rightarrow> macro_slots \<Rightarrow> macro_slots" where
  "detach_set i ms =
     \<lparr>current_slot =
        (case current_slot ms of
           None \<Rightarrow> None
         | Some c \<Rightarrow> if c < length (slots ms) \<and> slots ms ! c = Some i then None else Some c),
      slots =
        map (\<lambda>a. case a of
                   None \<Rightarrow> None
                 | Some v \<Rightarrow> if v = i then None else if i < v then Some (v - 1) else Some v) (slots ms)\<rparr>"

definition macros_remove :: "nat \<Rightarrow> player_macros \<Rightarrow> player_macros" where
  "macros_remove i m =
     \<lparr>sets = take i (sets m) @ drop (Suc i) (sets m),
      players = map (\<lambda>(p, ms). (p, detach_set i ms)) (players m)\<rparr>"

definition purge :: "object_id set \<Rightarrow> player_macros \<Rightarrow> player_macros" where
  "purge purged m =
     (let m' = fold (\<lambda>i m. if set_owner_of (sets m ! i) \<in> purged then macros_remove i m else m)
                 (rev [0..<length (sets m)]) m
      in m'\<lparr>players := bt_retain (\<lambda>who _. who \<notin> purged) (players m')\<rparr>)"

definition committed :: "player_macros \<Rightarrow> player_macros" where
  "committed m =
     m\<lparr>sets := map (\<lambda>(i, s). s\<lparr>set_origin := int i,
                                set_entries := map (\<lambda>(j, e). e\<lparr>entry_origin := int j\<rparr>)
                                                 (enumerate 0 (set_entries s))\<rparr>)
                 (enumerate 0 (sets m))\<rparr>"

fun check_entries :: "nat \<Rightarrow> nat \<Rightarrow> bytes list \<Rightarrow> macro_entry list \<Rightarrow> (macro_error, unit) result" where
  "check_entries i pos seen [] = Inr ()"
| "check_entries i pos seen (e # es) =
     (case alias_check (entry_alias e) of
        Inl er \<Rightarrow> Inl (InEntry i pos er)
      | Inr _ \<Rightarrow>
          (case text_check (expansion e) of
             Inl er \<Rightarrow> Inl (InEntry i pos er)
           | Inr _ \<Rightarrow>
               ensure_then (to_ascii_lowercase (entry_alias e) \<notin> set seen) (DuplicateAlias i pos)
                 (check_entries i (Suc pos) (to_ascii_lowercase (entry_alias e) # seen) es)))"

definition check_set :: "world \<Rightarrow> nat \<times> macro_set \<Rightarrow> (macro_error, unit) result" where
  "check_set w p =
     (case p of (i, s) \<Rightarrow>
        ensure_then (object_at w (set_owner_of s) \<noteq> None) (InvalidOwner i (set_owner_of s))
          (case text_check (set_description s) of
             Inl _ \<Rightarrow> Inl (InDescription i)
           | Inr _ \<Rightarrow> check_entries i 0 [] (set_entries s)))"

definition check_slots :: "world \<Rightarrow> nat \<Rightarrow> object_id \<times> macro_slots \<Rightarrow> (macro_error, unit) result" where
  "check_slots w n p =
     (case p of (who, ms) \<Rightarrow>
        ensure_then (object_at w who \<noteq> None) (MissingSlotOwner who)
          (bind_result
            (check_all
              (\<lambda>(slot, a). ensure (case a of None \<Rightarrow> True | Some i \<Rightarrow> i < n) (InvalidSlotSet who slot))
              (enumerate 0 (slots ms)))
            (\<lambda>_. ensure
                   (case current_slot ms of
                      None \<Rightarrow> True | Some c \<Rightarrow> c < SLOT_COUNT \<and> slots ms ! c \<noteq> None)
                   (InvalidCurrent who))))"

definition macros_validate :: "world \<Rightarrow> player_macros \<Rightarrow> (macro_error, unit) result" where
  "macros_validate w m =
     bind_result (check_all (check_set w) (enumerate 0 (sets m)))
       (\<lambda>_. check_all (check_slots w (length (sets m))) (players m))"

section \<open>Expansion\<close>

text \<open>The value one turn of the loop of \<open>substitute\<close> appends, and the characters left.\<close>

definition next_value :: "bytes \<Rightarrow> bytes \<Rightarrow> bytes list \<Rightarrow> bytes \<times> bytes list" where
  "next_value args c cs =
     (if c = [37] \<and> take 1 cs = [[42]] then ([42], tl cs)
      else if c = [42] then (args, cs) else (c, cs))"

function substitute_chars :: "bytes \<Rightarrow> nat \<Rightarrow> bytes \<Rightarrow> bytes list \<Rightarrow> (macro_error, bytes) result" where
  "substitute_chars args limit out [] = Inr out"
| "substitute_chars args limit out (c # cs) =
     ensure_then (length out + length (fst (next_value args c cs)) \<le> limit) ExpansionTooLong
       (substitute_chars args limit (out @ fst (next_value args c cs)) (snd (next_value args c cs)))"
  by pat_completeness auto
termination
  by (relation "measure (\<lambda>(args, limit, out, cs). length cs)") (auto simp: next_value_def)

definition substitute :: "bytes \<Rightarrow> bytes \<Rightarrow> nat \<Rightarrow> (macro_error, bytes) result" where
  "substitute template args limit = substitute_chars args limit [] (utf8_chars template)"

fun expand_slots :: "player_macros \<Rightarrow> bytes \<Rightarrow> bytes \<Rightarrow> nat \<Rightarrow> nat list \<Rightarrow> (macro_error, bytes option) result" where
  "expand_slots m name args limit [] = Inr None"
| "expand_slots m name args limit (i # is) =
     (if length (sets m) \<le> i then Inl InvalidAttachment
      else
        (case List.find (\<lambda>e. eq_ignore_ascii_case (entry_alias e) name) (set_entries (sets m ! i)) of
           Some e \<Rightarrow>
             bind_result (substitute (expansion e) args (min limit TEXT_LIMIT)) (\<lambda>t. Inr (Some t))
         | None \<Rightarrow> expand_slots m name args limit is))"

definition macros_expand :: "player_macros \<Rightarrow> object_id \<Rightarrow> bytes \<Rightarrow> nat \<Rightarrow> (macro_error, bytes option) result" where
  "macros_expand m who line limit =
     (case strip_prefix [46] line of
        None \<Rightarrow> Inr None
      | Some l \<Rightarrow>
          (case (case split_once 32 l of Some p \<Rightarrow> p | None \<Rightarrow> (l, [])) of (name, args) \<Rightarrow>
             (case bt_get (players m) who of
                None \<Rightarrow> Inr None
              | Some ms \<Rightarrow> expand_slots m name args limit (List.map_filter id (slots ms)))))"

section \<open>Trusted operations\<close>

record macro_world =
  mw_objects :: world
  mw_macros :: player_macros
  next_set_id :: nat

definition set_index :: "player_macros \<Rightarrow> nat \<Rightarrow> (macro_error, nat) result" where
  "set_index m k =
     (case position (\<lambda>s. set_id s = k) (sets m) of Some i \<Rightarrow> Inr i | None \<Rightarrow> Inl SetGone)"

definition live_object :: "world \<Rightarrow> object_id \<Rightarrow> bool \<Rightarrow> (macro_error, unit) result" where
  "live_object w i player =
     ensure
       (case object_at w i of
          Some obj \<Rightarrow> obj_kind obj \<noteq> Garbage \<and> (\<not> player \<or> obj_kind obj = Player)
        | None \<Rightarrow> False)
       (ObjectInvalid player)"

definition edit_macros :: "(player_macros \<Rightarrow> player_macros) \<Rightarrow> macro_world \<Rightarrow> macro_world" where
  "edit_macros f mw = mw\<lparr>mw_macros := f (mw_macros mw)\<rparr>"

definition edit_set :: "nat \<Rightarrow> (macro_set \<Rightarrow> macro_set) \<Rightarrow> player_macros \<Rightarrow> player_macros" where
  "edit_set i f m = m\<lparr>sets := (sets m)[i := f (sets m ! i)]\<rparr>"

definition edit_slots :: "object_id \<Rightarrow> (macro_slots \<Rightarrow> macro_slots) \<Rightarrow> player_macros \<Rightarrow> player_macros" where
  "edit_slots p f m =
     m\<lparr>players := bt_insert p (f (case bt_get (players m) p of Some ms \<Rightarrow> ms | None \<Rightarrow> slots_default)) (players m)\<rparr>"

definition new_set :: "nat \<Rightarrow> object_id \<Rightarrow> bytes \<Rightarrow> macro_set" where
  "new_set k who d =
     \<lparr>set_id = k, set_origin = -1, set_owner_of = who, modes = 0, set_description = d, set_entries = []\<rparr>"

definition push_set :: "object_id \<Rightarrow> bytes \<Rightarrow> macro_world \<Rightarrow> macro_world" where
  "push_set who d mw =
     (edit_macros (\<lambda>m. m\<lparr>sets := sets m @ [new_set (next_set_id mw) who d]\<rparr>) mw)
       \<lparr>next_set_id := next_set_id mw + 1\<rparr>"

definition svc_create :: "object_id \<Rightarrow> bytes \<Rightarrow> macro_world \<Rightarrow> (macro_error, nat \<times> macro_world) result" where
  "svc_create who d mw =
     bind_result (live_object (mw_objects mw) who False) (\<lambda>_.
     bind_result (text_check d) (\<lambda>_.
     Inr (next_set_id mw, push_set who d mw)))"

definition svc_set_owner :: "nat \<Rightarrow> object_id \<Rightarrow> macro_world \<Rightarrow> (macro_error, macro_world) result" where
  "svc_set_owner k who mw =
     bind_result (live_object (mw_objects mw) who False) (\<lambda>_.
     bind_result (set_index (mw_macros mw) k) (\<lambda>i.
     Inr (edit_macros (edit_set i (\<lambda>s. s\<lparr>set_owner_of := who\<rparr>)) mw)))"

definition add_entry :: "bytes \<Rightarrow> bytes \<Rightarrow> macro_set \<Rightarrow> macro_set" where
  "add_entry name expn s =
     s\<lparr>set_entries :=
         sort_key (\<lambda>e. to_ascii_lowercase (entry_alias e))
           (set_entries s @ [\<lparr>entry_origin = -1, entry_alias = name, expansion = expn\<rparr>])\<rparr>"

definition alias_position :: "bytes \<Rightarrow> macro_set \<Rightarrow> nat option" where
  "alias_position name s = position (\<lambda>e. eq_ignore_ascii_case (entry_alias e) name) (set_entries s)"

definition remove_entry :: "nat \<Rightarrow> macro_set \<Rightarrow> macro_set" where
  "remove_entry j s = s\<lparr>set_entries := take j (set_entries s) @ drop (Suc j) (set_entries s)\<rparr>"

definition svc_define :: "nat \<Rightarrow> bytes \<Rightarrow> bytes \<Rightarrow> bool \<Rightarrow> macro_world \<Rightarrow> (macro_error, macro_world) result" where
  "svc_define k name expn update mw =
     bind_result (set_index (mw_macros mw) k) (\<lambda>i.
     bind_result (alias_check name) (\<lambda>_.
     bind_result (ensure (\<not> list_ex is_ascii_whitespace name) AliasWhitespace) (\<lambda>_.
     bind_result (text_check expn) (\<lambda>_.
     bind_result (ensure (expn \<noteq> []) EmptyExpansion) (\<lambda>_.
     (case alias_position name (sets (mw_macros mw) ! i) of
        Some j \<Rightarrow>
          if update
          then Inr (edit_macros (edit_set i (\<lambda>s. s\<lparr>set_entries :=
                 (set_entries s)[j := (set_entries s ! j)\<lparr>expansion := expn\<rparr>]\<rparr>)) mw)
          else Inl MacroExists
      | None \<Rightarrow> if update then Inl MacroNotFound else Inr (edit_macros (edit_set i (add_entry name expn)) mw)))))))"

definition svc_delete :: "nat \<Rightarrow> bytes \<Rightarrow> macro_world \<Rightarrow> (macro_error, macro_world) result" where
  "svc_delete k name mw =
     bind_result (set_index (mw_macros mw) k) (\<lambda>i.
     (case alias_position name (sets (mw_macros mw) ! i) of
        Some j \<Rightarrow> Inr (edit_macros (edit_set i (remove_entry j)) mw)
      | None \<Rightarrow> Inl MacroNotFound))"

definition free_slot :: "player_macros \<Rightarrow> object_id \<Rightarrow> nat option" where
  "free_slot m p =
     (case bt_get (players m) p of None \<Rightarrow> Some 0 | Some ms \<Rightarrow> position (\<lambda>a. a = None) (slots ms))"

definition attach_at :: "object_id \<Rightarrow> nat \<Rightarrow> nat \<Rightarrow> player_macros \<Rightarrow> player_macros" where
  "attach_at p j i = edit_slots p (\<lambda>ms. ms\<lparr>slots := (slots ms)[j := Some i]\<rparr>)"

definition svc_attach :: "object_id \<Rightarrow> nat \<Rightarrow> macro_world \<Rightarrow> (macro_error, nat \<times> macro_world) result" where
  "svc_attach p k mw =
     bind_result (live_object (mw_objects mw) p True) (\<lambda>_.
     bind_result (set_index (mw_macros mw) k) (\<lambda>i.
     (case free_slot (mw_macros mw) p of
        None \<Rightarrow> Inl SlotsFull
      | Some j \<Rightarrow> Inr (j, edit_macros (attach_at p j i) mw))))"

definition clear_slot :: "nat \<Rightarrow> macro_slots \<Rightarrow> macro_slots" where
  "clear_slot j ms =
     \<lparr>current_slot = (if current_slot ms = Some j then None else current_slot ms),
      slots = (slots ms)[j := None]\<rparr>"

definition svc_detach :: "object_id \<Rightarrow> nat \<Rightarrow> macro_world \<Rightarrow> (macro_error, bool \<times> macro_world) result" where
  "svc_detach p j mw =
     bind_result (live_object (mw_objects mw) p True) (\<lambda>_.
     bind_result (ensure (j < SLOT_COUNT) SlotRange) (\<lambda>_.
     (case bt_get (players (mw_macros mw)) p of
        None \<Rightarrow> Inr (False, mw)
      | Some ms \<Rightarrow> Inr (slots ms ! j \<noteq> None, edit_macros (edit_slots p (clear_slot j)) mw))))"

section \<open>Dot commands\<close>

datatype macro_reply =
    SetCreated nat nat | SetAdded nat nat | SlotCleared nat bool | CurrentSlotSet nat
  | DescriptionSet bytes | ModesNow string | Chowned nat object_id | ClearingSet nat bytes
  | MacroDefined bytes bytes | MacroDeleted
  | SetListing "(nat \<times> macro_set) list"
  | SlotListing "(nat \<times> (nat \<times> macro_set) option) list" "nat option"
  | SetExamined nat macro_set

type_synonym macro_command_result = "(macro_error, macro_reply \<times> macro_world) result"

definition current_set :: "player_macros \<Rightarrow> object_id \<Rightarrow> (macro_error, nat) result" where
  "current_set m who =
     (case bt_get (players m) who of
        None \<Rightarrow> Inl NoCurrentSlot
      | Some ms \<Rightarrow>
          (case current_slot ms of
             None \<Rightarrow> Inl NoCurrentSlot
           | Some c \<Rightarrow>
               (if c < length (slots ms)
                then (case slots ms ! c of Some i \<Rightarrow> Inr i | None \<Rightarrow> Inl NoCurrentSlot)
                else Inl NoCurrentSlot)))"

definition slot_arg :: "bytes \<Rightarrow> (macro_error, nat) result" where
  "slot_arg args =
     (case parse_usize (trim args) of
        None \<Rightarrow> Inl NeedSlotNumber
      | Some j \<Rightarrow> ensure_then (j < SLOT_COUNT) IllegalSlot (Inr j))"

definition set_number :: "player_macros \<Rightarrow> bytes \<Rightarrow> (macro_error, nat) result" where
  "set_number m args =
     (case parse_usize (trim args) of
        None \<Rightarrow> Inl NeedSetNumber
      | Some i \<Rightarrow> ensure_then (i < length (sets m)) NoSuchMacroSet (Inr i))"

definition empty_slot :: "player_macros \<Rightarrow> object_id \<Rightarrow> (macro_error, nat) result" where
  "empty_slot m who =
     (case position (\<lambda>a. a = None)
             (slots (case bt_get (players m) who of Some ms \<Rightarrow> ms | None \<Rightarrow> slots_default)) of
        None \<Rightarrow> Inl FiveSets | Some j \<Rightarrow> Inr j)"

definition no_args :: "bytes \<Rightarrow> (macro_error, unit) result" where
  "no_args args = ensure (args = []) TakesNoArguments"

text \<open>Indexing the vector of sets.\<close>

definition get_set :: "player_macros \<Rightarrow> nat \<Rightarrow> (macro_error, macro_set) result" where
  "get_set m i = (if i < length (sets m) then Inr (sets m ! i) else Inl MacroPanic)"

definition cmd_create :: "object_id \<Rightarrow> bytes \<Rightarrow> macro_world \<Rightarrow> macro_command_result" where
  "cmd_create who args mw =
     bind_result (text_check args) (\<lambda>_.
     bind_result (empty_slot (mw_macros mw) who) (\<lambda>j.
     let i = length (sets (mw_macros mw))
     in Inr (SetCreated i j,
          edit_macros (edit_slots who (\<lambda>ms. \<lparr>current_slot = Some j, slots = (slots ms)[j := Some i]\<rparr>))
            (push_set who args mw))))"

definition cmd_add :: "object_id \<Rightarrow> bytes \<Rightarrow> macro_world \<Rightarrow> macro_command_result" where
  "cmd_add who args mw =
     bind_result (set_number (mw_macros mw) args) (\<lambda>i.
     bind_result (ensure (readable (sets (mw_macros mw) ! i) who (is_wizard (mw_objects mw) who)) MacroDenied) (\<lambda>_.
     bind_result (empty_slot (mw_macros mw) who) (\<lambda>j.
     Inr (SetAdded i j, edit_macros (attach_at who j i) mw))))"

definition cmd_detach :: "object_id \<Rightarrow> bytes \<Rightarrow> macro_world \<Rightarrow> macro_command_result" where
  "cmd_detach who args mw =
     bind_result (slot_arg args) (\<lambda>j.
     let ms = (case bt_get (players (mw_macros mw)) who of Some ms \<Rightarrow> ms | None \<Rightarrow> slots_default)
     in Inr (SlotCleared j (current_slot ms = Some j), edit_macros (edit_slots who (clear_slot j)) mw))"

definition cmd_select :: "object_id \<Rightarrow> bytes \<Rightarrow> macro_world \<Rightarrow> macro_command_result" where
  "cmd_select who args mw =
     bind_result (slot_arg args) (\<lambda>j.
     (case bt_get (players (mw_macros mw)) who of
        None \<Rightarrow> Inl IllegalSlot
      | Some ms \<Rightarrow>
          ensure_then (slots ms ! j \<noteq> None) IllegalSlot
            (Inr (CurrentSlotSet j,
                  edit_macros (edit_slots who (\<lambda>ms. ms\<lparr>current_slot := Some j\<rparr>)) mw))))"

definition cmd_name :: "object_id \<Rightarrow> bytes \<Rightarrow> macro_world \<Rightarrow> macro_command_result" where
  "cmd_name who args mw =
     bind_result (current_set (mw_macros mw) who) (\<lambda>i.
     bind_result (text_check args) (\<lambda>_.
     bind_result (get_set (mw_macros mw) i) (\<lambda>s.
     bind_result (ensure (writable s who) MacroDenied) (\<lambda>_.
     Inr (DescriptionSet args, edit_macros (edit_set i (\<lambda>s. s\<lparr>set_description := args\<rparr>)) mw)))))"

definition mode_bit :: "bytes \<Rightarrow> macro_modes option" where
  "mode_bit v =
     (if map ascii_upper v = bstr ''L'' then Some LOCKED
      else if map ascii_upper v = bstr ''R'' then Some READ
      else if map ascii_upper v = bstr ''W'' then Some WRITE else None)"

definition change_mode :: "bool \<Rightarrow> macro_modes \<Rightarrow> macro_modes \<Rightarrow> macro_modes" where
  "change_mode enabled bits m = (if enabled then m OR bits else m AND NOT bits)"

definition cmd_chmod :: "object_id \<Rightarrow> bytes \<Rightarrow> macro_world \<Rightarrow> macro_command_result" where
  "cmd_chmod who args mw =
     bind_result (current_set (mw_macros mw) who) (\<lambda>i.
     bind_result (get_set (mw_macros mw) i) (\<lambda>s.
     bind_result (ensure (is_wizard (mw_objects mw) who \<or> set_owner_of s = who) MacroDenied) (\<lambda>_.
     case (case strip_prefix [33] args of Some v \<Rightarrow> (False, v) | None \<Rightarrow> (True, args)) of (enabled, v) \<Rightarrow>
       (case mode_bit v of
          None \<Rightarrow> Inl UnknownMode
        | Some bits \<Rightarrow>
            Inr (ModesNow (modes_letters (change_mode enabled bits (modes s))),
                 edit_macros (edit_set i (\<lambda>s. s\<lparr>modes := change_mode enabled bits (modes s)\<rparr>)) mw)))))"

text \<open>
  \<open>admin_target\<close> of \<open>commands/target.rs\<close>. \<open>plain\<close> strips the markup of a name (the styled text crate);
  object numbers are parsed as \<open>i64\<close>.
\<close>

definition explicit_target :: "world \<Rightarrow> object_id \<Rightarrow> bytes \<Rightarrow> (macro_error, object_id option) result" where
  "explicit_target w who name =
     (if eq_ignore_ascii_case name (bstr ''me'') then Inr (Some who)
      else if eq_ignore_ascii_case name (bstr ''here'') then Inr (Option.bind (object_at w who) location)
      else
        (case strip_prefix [35] name of
           None \<Rightarrow> Inr None
         | Some n \<Rightarrow> (case parse_i64 n of None \<Rightarrow> Inl TargetInvalid | Some i \<Rightarrow> Inr (Some i))))"

definition named_target :: "(bytes \<Rightarrow> bytes) \<Rightarrow> world \<Rightarrow> object_id \<Rightarrow> bytes \<Rightarrow> object \<Rightarrow> bool" where
  "named_target plain w who name obj \<longleftrightarrow>
     (let room = Option.bind (object_at w who) location
      in obj_kind obj \<noteq> Garbage \<and> visible w obj who
         \<and> (obj_id obj = who \<or> Some (obj_id obj) = room \<or> location obj = room \<or> location obj = Some who)
         \<and> (if obj_kind obj = Exit
            then list_ex (\<lambda>n. eq_ignore_ascii_case n name) (split_on 59 (plain (obj_name obj)))
            else eq_ignore_ascii_case (plain (obj_name obj)) name))"

definition admin_target :: "(bytes \<Rightarrow> bytes) \<Rightarrow> world \<Rightarrow> object_id \<Rightarrow> bytes \<Rightarrow> (macro_error, object_id) result" where
  "admin_target plain w who arg =
     (let name = trim arg
      in bind_result (explicit_target w who name) (\<lambda>explicit.
           case explicit of
             Some i \<Rightarrow>
               ensure_then
                 (case object_at w i of Some obj \<Rightarrow> obj_kind obj \<noteq> Garbage \<and> visible w obj who | None \<Rightarrow> False)
                 TargetMissing (Inr i)
           | None \<Rightarrow>
               (case filter (named_target plain w who name) (map snd (objects w)) of
                  [obj] \<Rightarrow> Inr (obj_id obj)
                | [] \<Rightarrow> Inl TargetMissing
                | _ \<Rightarrow> Inl TargetAmbiguous)))"

definition cmd_chown :: "(bytes \<Rightarrow> bytes) \<Rightarrow> object_id \<Rightarrow> bytes \<Rightarrow> macro_world \<Rightarrow> macro_command_result" where
  "cmd_chown plain who args mw =
     bind_result (ensure (is_wizard (mw_objects mw) who) MacroDenied) (\<lambda>_.
     bind_result (current_set (mw_macros mw) who) (\<lambda>i.
     bind_result (admin_target plain (mw_objects mw) who args) (\<lambda>t.
     bind_result (get_set (mw_macros mw) i) (\<lambda>_.
     Inr (Chowned i t, edit_macros (edit_set i (\<lambda>s. s\<lparr>set_owner_of := t\<rparr>)) mw)))))"

definition cmd_clear :: "object_id \<Rightarrow> bytes \<Rightarrow> macro_world \<Rightarrow> macro_command_result" where
  "cmd_clear who args mw =
     bind_result (no_args args) (\<lambda>_.
     bind_result (current_set (mw_macros mw) who) (\<lambda>i.
     bind_result (get_set (mw_macros mw) i) (\<lambda>s.
     bind_result
       (if set_owner_of s = who then ensure (\<not> modes_has (modes s) LOCKED) SetIsLocked
        else ensure (is_wizard (mw_objects mw) who) ClearOwnOnly) (\<lambda>_.
     Inr (ClearingSet i (set_description s), edit_macros (macros_remove i) mw)))))"

definition cmd_define :: "object_id \<Rightarrow> bytes \<Rightarrow> macro_world \<Rightarrow> macro_command_result" where
  "cmd_define who args mw =
     bind_result (current_set (mw_macros mw) who) (\<lambda>i.
     bind_result (get_set (mw_macros mw) i) (\<lambda>s.
     bind_result (ensure (writable s who) MacroDenied) (\<lambda>_.
     case split_once 61 args of
       None \<Rightarrow> Inl NeedEquals
     | Some (left, right) \<Rightarrow>
         let name = trim left; expn = trim_start right
         in bind_result (alias_check name) (\<lambda>_.
            bind_result (ensure (\<not> list_ex is_ascii_whitespace name) AliasWhitespace) (\<lambda>_.
            bind_result (text_check expn) (\<lambda>_.
            bind_result (ensure (expn \<noteq> []) EmptyExpansion) (\<lambda>_.
            bind_result (ensure (alias_position name s = None) AliasInUse) (\<lambda>_.
            Inr (MacroDefined name expn, edit_macros (edit_set i (add_entry name expn)) mw)))))))))"

definition cmd_undefine :: "object_id \<Rightarrow> bytes \<Rightarrow> macro_world \<Rightarrow> macro_command_result" where
  "cmd_undefine who args mw =
     bind_result (current_set (mw_macros mw) who) (\<lambda>i.
     bind_result (get_set (mw_macros mw) i) (\<lambda>s.
     bind_result (ensure (writable s who) MacroDenied) (\<lambda>_.
     (case alias_position args s of
        None \<Rightarrow> Inl NotInSet
      | Some j \<Rightarrow> Inr (MacroDeleted, edit_macros (edit_set i (remove_entry j)) mw)))))"

definition cmd_glist :: "object_id \<Rightarrow> bytes \<Rightarrow> macro_world \<Rightarrow> macro_command_result" where
  "cmd_glist who args mw =
     bind_result (no_args args) (\<lambda>_.
     Inr (SetListing (filter (\<lambda>(_, s). readable s who (is_wizard (mw_objects mw) who))
                       (enumerate 0 (sets (mw_macros mw)))), mw))"

definition cmd_list :: "object_id \<Rightarrow> bytes \<Rightarrow> macro_world \<Rightarrow> macro_command_result" where
  "cmd_list who args mw =
     bind_result (no_args args) (\<lambda>_.
     let m = mw_macros mw;
         ms = (case bt_get (players m) who of Some ms \<Rightarrow> ms | None \<Rightarrow> slots_default)
     in if list_all (\<lambda>a. case a of Some i \<Rightarrow> i < length (sets m) | None \<Rightarrow> True) (slots ms)
        then Inr (SlotListing
                    (map (\<lambda>(j, a). (j, map_option (\<lambda>i. (i, sets m ! i)) a)) (enumerate 0 (slots ms)))
                    (current_slot ms), mw)
        else Inl MacroPanic)"

definition cmd_examine :: "object_id \<Rightarrow> bytes \<Rightarrow> macro_world \<Rightarrow> macro_command_result" where
  "cmd_examine who args mw =
     bind_result
       (if args = [] then current_set (mw_macros mw) who
        else bind_result (slot_arg args) (\<lambda>j.
               case bt_get (players (mw_macros mw)) who of
                 None \<Rightarrow> Inl IllegalExamine
               | Some ms \<Rightarrow> (case slots ms ! j of None \<Rightarrow> Inl IllegalExamine | Some i \<Rightarrow> Inr i))) (\<lambda>i.
     bind_result (get_set (mw_macros mw) i) (\<lambda>s. Inr (SetExamined i s, mw)))"

definition cmd_gexamine :: "object_id \<Rightarrow> bytes \<Rightarrow> macro_world \<Rightarrow> macro_command_result" where
  "cmd_gexamine who args mw =
     bind_result (set_number (mw_macros mw) args) (\<lambda>i.
     bind_result (ensure (readable (sets (mw_macros mw) ! i) who (is_wizard (mw_objects mw) who)) MacroDenied) (\<lambda>_.
     Inr (SetExamined i (sets (mw_macros mw) ! i), mw)))"

datatype macro_command =
    AddCmd | ClearCmd | ChmodCmd | ChownCmd | CreateCmd | DefCmd | DelCmd | NameCmd | ChslotCmd
  | ExCmd | GexCmd | GlistCmd | ListCmd | UndefCmd

definition handler ::
  "(bytes \<Rightarrow> bytes) \<Rightarrow> macro_command \<Rightarrow> object_id \<Rightarrow> bytes \<Rightarrow> macro_world \<Rightarrow> macro_command_result" where
  "handler plain c =
     (case c of
        AddCmd \<Rightarrow> cmd_add | ClearCmd \<Rightarrow> cmd_clear | ChmodCmd \<Rightarrow> cmd_chmod | ChownCmd \<Rightarrow> cmd_chown plain
      | CreateCmd \<Rightarrow> cmd_create | DefCmd \<Rightarrow> cmd_define | DelCmd \<Rightarrow> cmd_detach | NameCmd \<Rightarrow> cmd_name
      | ChslotCmd \<Rightarrow> cmd_select | ExCmd \<Rightarrow> cmd_examine | GexCmd \<Rightarrow> cmd_gexamine | GlistCmd \<Rightarrow> cmd_glist
      | ListCmd \<Rightarrow> cmd_list | UndefCmd \<Rightarrow> cmd_undefine)"

datatype macro_action = OnlyPlayers | CommitReply macro_reply | Reply macro_reply | Refused macro_error

definition is_mutation :: "macro_command \<Rightarrow> bool" where
  "is_mutation c \<longleftrightarrow> c \<notin> {ExCmd, GexCmd, GlistCmd, ListCmd}"

text \<open>
  \<open>execute\<close>: only players; an operation that fails leaves the macros as they were. \<open>None\<close> is a panic.
\<close>

definition execute ::
  "(bytes \<Rightarrow> bytes) \<Rightarrow> macro_command \<Rightarrow> object_id \<Rightarrow> bytes \<Rightarrow> macro_world \<Rightarrow> (macro_action \<times> macro_world) option" where
  "execute plain c who args mw =
     (if (case object_at (mw_objects mw) who of Some obj \<Rightarrow> obj_kind obj \<noteq> Player | None \<Rightarrow> True)
      then Some (OnlyPlayers, mw)
      else
        (case handler plain c who args mw of
           Inr (r, mw') \<Rightarrow> Some (if is_mutation c then CommitReply r else Reply r, mw')
         | Inl e \<Rightarrow> if e = MacroPanic then None else Some (Refused e, mw)))"

text \<open>The bound on listings.\<close>

fun boundary_within :: "bytes \<Rightarrow> nat \<Rightarrow> nat" where
  "boundary_within row 0 = 0"
| "boundary_within row (Suc n) =
     (if is_char_boundary row (min (Suc n) (length row)) then Suc n else boundary_within row n)"

fun bounded_lines :: "nat \<Rightarrow> bytes \<Rightarrow> bytes list \<Rightarrow> bytes" where
  "bounded_lines budget out [] = out"
| "bounded_lines budget out (row # rows) =
     (if budget < length out + length row + 2
      then out @ take (boundary_within row (budget - length out)) row @ [13, 10] @ bstr ''[truncated]''
      else bounded_lines budget (out @ row @ [13, 10]) rows)"

definition lines :: "bytes list \<Rightarrow> nat \<Rightarrow> bytes" where
  "lines rows limit = bounded_lines (limit - 32) [] rows"

end
