(* ===== verification/Macros_Valid.thy ===== *)
theory Macros_Valid
  imports Macros
begin

text \<open>
  What holds of macro sets however players and scripts use them: the state always passes its own
  validation and no command panics, a player changes only sets it may write, removing a set keeps
  every other attachment on its set, and expansion is bounded substitution.
\<close>

section \<open>Valid states\<close>

definition alias_ok :: "bytes \<Rightarrow> bool" where
  "alias_ok v \<longleftrightarrow> 1 \<le> length v \<and> length v \<le> 4 \<and> list_all (\<lambda>b. 32 \<le> b \<and> b \<le> 126) v"

definition text_ok :: "bytes \<Rightarrow> bool" where
  "text_ok v \<longleftrightarrow> length v \<le> TEXT_LIMIT \<and> 0 \<notin> set v"

definition entries_ok :: "macro_entry list \<Rightarrow> bool" where
  "entries_ok es \<longleftrightarrow>
     (\<forall>e\<in>set es. alias_ok (entry_alias e) \<and> text_ok (expansion e))
     \<and> distinct (map (\<lambda>e. to_ascii_lowercase (entry_alias e)) es)"

definition set_ok :: "world \<Rightarrow> macro_set \<Rightarrow> bool" where
  "set_ok w s \<longleftrightarrow>
     object_at w (set_owner_of s) \<noteq> None \<and> text_ok (set_description s) \<and> entries_ok (set_entries s)"

definition slots_ok :: "nat \<Rightarrow> macro_slots \<Rightarrow> bool" where
  "slots_ok n ms \<longleftrightarrow>
     length (slots ms) = SLOT_COUNT
     \<and> (\<forall>a\<in>set (slots ms). case a of None \<Rightarrow> True | Some i \<Rightarrow> i < n)
     \<and> (case current_slot ms of None \<Rightarrow> True | Some c \<Rightarrow> c < SLOT_COUNT \<and> slots ms ! c \<noteq> None)"

definition macro_inv :: "macro_world \<Rightarrow> bool" where
  "macro_inv mw \<longleftrightarrow>
     world_ok (mw_objects mw)
     \<and> (\<forall>s\<in>set (sets (mw_macros mw)). set_ok (mw_objects mw) s \<and> set_id s < next_set_id mw)
     \<and> distinct (map set_id (sets (mw_macros mw)))
     \<and> bt_ok (players (mw_macros mw))
     \<and> (\<forall>(p, ms)\<in>set (players (mw_macros mw)).
          object_at (mw_objects mw) p \<noteq> None \<and> slots_ok (length (sets (mw_macros mw))) ms)"

lemma macro_invI:
  assumes "world_ok w" and "\<And>s. s \<in> set ss \<Longrightarrow> set_ok w s \<and> set_id s < n" and "distinct (map set_id ss)"
    and "bt_ok ps" and "\<And>p ms. (p, ms) \<in> set ps \<Longrightarrow> object_at w p \<noteq> None \<and> slots_ok (length ss) ms"
  shows "macro_inv \<lparr>mw_objects = w, mw_macros = \<lparr>sets = ss, players = ps\<rparr>, next_set_id = n\<rparr>"
  using assms by (auto simp: macro_inv_def)

lemma alias_check_ok: "alias_check v = Inr () \<longleftrightarrow> alias_ok v"
  by (simp add: alias_check_def alias_ok_def ensure_def)

lemma text_check_ok: "text_check v = Inr () \<longleftrightarrow> text_ok v"
  by (simp add: text_check_def text_ok_def ensure_def)

lemma check_entries_ok:
  "check_entries i pos seen es = Inr () \<longleftrightarrow>
     entries_ok es \<and> (\<forall>e\<in>set es. to_ascii_lowercase (entry_alias e) \<notin> set seen)"
proof (induction es arbitrary: pos seen)
  case (Cons e es)
  have "(case alias_check (entry_alias e) of Inl er \<Rightarrow> Inl (InEntry i pos er) | Inr x \<Rightarrow> r x) = Inr () \<longleftrightarrow>
      alias_ok (entry_alias e) \<and> r () = Inr ()" for r :: "unit \<Rightarrow> (macro_error, unit) result"
    using alias_check_ok [of "entry_alias e"] by (cases "alias_check (entry_alias e)") auto
  moreover have "(case text_check (expansion e) of Inl er \<Rightarrow> Inl (InEntry i pos er) | Inr x \<Rightarrow> r x) = Inr () \<longleftrightarrow>
      text_ok (expansion e) \<and> r () = Inr ()" for r :: "unit \<Rightarrow> (macro_error, unit) result"
    using text_check_ok [of "expansion e"] by (cases "text_check (expansion e)") auto
  ultimately have "check_entries i pos seen (e # es) = Inr () \<longleftrightarrow>
      alias_ok (entry_alias e) \<and> text_ok (expansion e) \<and> to_ascii_lowercase (entry_alias e) \<notin> set seen
      \<and> entries_ok es
      \<and> (\<forall>x\<in>set es. to_ascii_lowercase (entry_alias x) \<notin> insert (to_ascii_lowercase (entry_alias e)) (set seen))"
    by (simp add: Cons.IH)
  moreover have "entries_ok (e # es) \<longleftrightarrow> alias_ok (entry_alias e) \<and> text_ok (expansion e) \<and> entries_ok es
      \<and> (\<forall>x\<in>set es. to_ascii_lowercase (entry_alias x) \<noteq> to_ascii_lowercase (entry_alias e))"
    by (auto simp: entries_ok_def image_iff)
  ultimately show ?case by auto
qed (simp add: entries_ok_def)

lemma check_set_ok: "check_set w (i, s) = Inr () \<longleftrightarrow> set_ok w s"
  using text_check_ok [of "set_description s"]
  by (cases "text_check (set_description s)") (auto simp: check_set_def set_ok_def check_entries_ok)

lemma check_slots_ok:
  assumes "length (slots ms) = SLOT_COUNT"
  shows "check_slots w n (p, ms) = Inr () \<longleftrightarrow> object_at w p \<noteq> None \<and> slots_ok n ms"
proof -
  have "(case x of (slot, a) \<Rightarrow> ensure (case a of None \<Rightarrow> True | Some i \<Rightarrow> i < n) (InvalidSlotSet p slot)) = Inr ()
      \<longleftrightarrow> (case snd x of None \<Rightarrow> True | Some i \<Rightarrow> i < n)" for x :: "nat \<times> nat option"
    by (cases x) (simp add: ensure_def)
  then have "check_all (\<lambda>(slot, a). ensure (case a of None \<Rightarrow> True | Some i \<Rightarrow> i < n) (InvalidSlotSet p slot))
        (enumerate 0 (slots ms)) = Inr ()
      \<longleftrightarrow> (\<forall>a\<in>set (slots ms). case a of None \<Rightarrow> True | Some i \<Rightarrow> i < n)"
    by (simp only: check_all_ok all_enumerate)
  moreover have "ensure b e = Inr () \<longleftrightarrow> b" for b and e :: macro_error by (simp add: ensure_def)
  ultimately show ?thesis
    using assms by (simp add: check_slots_def slots_ok_def bind_result_Inr_iff)
qed

lemma macro_inv_validate:
  assumes "macro_inv mw"
  shows "macros_validate (mw_objects mw) (mw_macros mw) = Inr ()"
proof -
  have "check_set (mw_objects mw) x = Inr ()" if "x \<in> set (enumerate 0 (sets (mw_macros mw)))" for x
    using assms that by (cases x) (auto simp: check_set_ok macro_inv_def in_set_enumerate_eq)
  moreover have "check_slots (mw_objects mw) (length (sets (mw_macros mw))) x = Inr ()"
    if "x \<in> set (players (mw_macros mw))" for x
    using assms that by (cases x) (auto simp: check_slots_ok macro_inv_def slots_ok_def)
  ultimately show ?thesis by (simp add: macros_validate_def bind_result_Inr_iff check_all_ok)
qed

section \<open>Steps that keep them valid\<close>

lemma inv_edit_set:
  assumes "macro_inv mw" and "i < length (sets (mw_macros mw))"
    and "set_ok (mw_objects mw) (f (sets (mw_macros mw) ! i))"
    and "set_id (f (sets (mw_macros mw) ! i)) = set_id (sets (mw_macros mw) ! i)"
  shows "macro_inv (edit_macros (edit_set i f) mw)"
proof -
  let ?ss = "sets (mw_macros mw)"
  have "map set_id (?ss[i := f (?ss ! i)]) = map set_id ?ss"
    using assms(2,4) by (simp add: map_update list_update_same_conv)
  moreover have "set_ok (mw_objects mw) s \<and> set_id s < next_set_id mw"
    if "s \<in> set (?ss[i := f (?ss ! i)])" for s
    using set_update_subset_insert [of ?ss i "f (?ss ! i)"] that assms
    by (fastforce simp: macro_inv_def)
  ultimately show ?thesis using assms(1) by (simp add: macro_inv_def edit_macros_def edit_set_def)
qed

lemma slots_ok_mono: "slots_ok n ms \<Longrightarrow> n \<le> n' \<Longrightarrow> slots_ok n' ms"
  by (fastforce simp: slots_ok_def split: option.splits)

lemma inv_push_set:
  assumes "macro_inv mw" and "object_at (mw_objects mw) who \<noteq> None" and "text_ok d"
  shows "macro_inv (push_set who d mw)"
proof -
  have "set_ok (mw_objects mw) (new_set (next_set_id mw) who d)"
    using assms(2,3) by (simp add: set_ok_def new_set_def entries_ok_def)
  then show ?thesis
    using assms(1) slots_ok_mono [of _ _ "Suc (length (sets (mw_macros mw)))"]
    by (fastforce simp: macro_inv_def push_set_def edit_macros_def new_set_def less_Suc_eq)
qed

lemma slots_default_ok: "slots_ok n slots_default"
  by (simp add: slots_ok_def slots_default_def)

definition slots_of :: "player_macros \<Rightarrow> object_id \<Rightarrow> macro_slots" where
  "slots_of m p = (case bt_get (players m) p of Some ms \<Rightarrow> ms | None \<Rightarrow> slots_default)"

lemma slots_of_ok: "macro_inv mw \<Longrightarrow> slots_ok (length (sets (mw_macros mw))) (slots_of (mw_macros mw) p)"
  using slots_default_ok
  by (auto simp: slots_of_def macro_inv_def bt_get_in_set split: option.splits)

lemma inv_edit_slots:
  assumes "macro_inv mw" and "object_at (mw_objects mw) p \<noteq> None"
    and "slots_ok (length (sets (mw_macros mw))) (f (slots_of (mw_macros mw) p))"
  shows "macro_inv (edit_macros (edit_slots p f) mw)"
  using assms
  by (auto simp: macro_inv_def edit_macros_def edit_slots_def slots_of_def [symmetric] bt.ok_insert
      set_bt_insert)

lemma slots_ok_attach:
  assumes "slots_ok n ms" and "j < SLOT_COUNT" and "i < n"
  shows "slots_ok n (ms\<lparr>slots := (slots ms)[j := Some i]\<rparr>)"
    and "slots_ok n \<lparr>current_slot = Some j, slots = (slots ms)[j := Some i]\<rparr>"
  using assms set_update_subset_insert [of "slots ms" j "Some i"]
  by (fastforce simp: slots_ok_def nth_list_update split: option.splits)+

lemma slots_ok_clear: "slots_ok n ms \<Longrightarrow> slots_ok n (clear_slot j ms)"
  using set_update_subset_insert [of "slots ms" j None]
  by (fastforce simp: slots_ok_def clear_slot_def nth_list_update split: option.splits)

lemma slots_ok_detach:
  assumes "slots_ok n ms" and "i < n"
  shows "slots_ok (n - 1) (detach_set i ms)"
  using assms by (auto simp: slots_ok_def detach_set_def split: option.splits)

lemma inv_remove:
  assumes inv: "macro_inv mw" and i: "i < length (sets (mw_macros mw))"
  shows "macro_inv (edit_macros (macros_remove i) mw)"
proof -
  let ?ss = "sets (mw_macros mw)" and ?ps = "players (mw_macros mw)"
  have len: "length (take i ?ss @ drop (Suc i) ?ss) = length ?ss - 1" using i by simp
  have sub: "set (take i ?ss @ drop (Suc i) ?ss) \<subseteq> set ?ss" by (auto dest: in_set_takeD in_set_dropD)
  have "distinct (map set_id (take i ?ss @ drop (Suc i) ?ss))"
    using inv by (intro distinct_map_remove) (simp add: macro_inv_def)
  moreover have "bt_ok (map (\<lambda>(p, ms). (p, detach_set i ms)) ?ps)"
    using inv by (simp add: macro_inv_def bt_ok_def comp_def split_beta)
  moreover have "object_at (mw_objects mw) p \<noteq> None \<and> slots_ok (length ?ss - 1) ms"
    if "(p, ms) \<in> set (map (\<lambda>(p, ms). (p, detach_set i ms)) ?ps)" for p ms
    using that inv slots_ok_detach [OF _ i] by (fastforce simp: macro_inv_def)
  moreover have "set_ok (mw_objects mw) s \<and> set_id s < next_set_id mw"
    if "s \<in> set (take i ?ss @ drop (Suc i) ?ss)" for s
    using that sub inv unfolding macro_inv_def by blast
  moreover have "edit_macros (macros_remove i) mw =
      \<lparr>mw_objects = mw_objects mw,
       mw_macros = \<lparr>sets = take i ?ss @ drop (Suc i) ?ss, players = map (\<lambda>(p, ms). (p, detach_set i ms)) ?ps\<rparr>,
       next_set_id = next_set_id mw\<rparr>"
    by (simp add: edit_macros_def macros_remove_def)
  moreover have "world_ok (mw_objects mw)" using inv by (simp add: macro_inv_def)
  ultimately show ?thesis using macro_invI len by metis
qed

lemma purge_prefix:
  fixes purged :: "object_id set"
  assumes "macro_inv mw" and "k \<le> length (sets (mw_macros mw))"
  defines "f \<equiv> \<lambda>i m. if set_owner_of (sets m ! i) \<in> purged then macros_remove i m else m"
  shows "macro_inv (edit_macros (fold f (rev [0..<k])) mw)
       \<and> sets (fold f (rev [0..<k]) (mw_macros mw)) =
           filter (\<lambda>s. set_owner_of s \<notin> purged) (take k (sets (mw_macros mw))) @ drop k (sets (mw_macros mw))"
  using assms(1,2)
proof (induction k arbitrary: mw)
  case 0
  then show ?case by (simp add: edit_macros_def)
next
  case (Suc k)
  let ?mw = "edit_macros (f k) mw"
  have k: "k < length (sets (mw_macros mw))" using Suc.prems(2) by simp
  have inv: "macro_inv ?mw"
  proof (cases "set_owner_of (sets (mw_macros mw) ! k) \<in> purged")
    case True
    then show ?thesis using inv_remove [OF Suc.prems(1) k] by (simp add: f_def edit_macros_def)
  qed (use Suc.prems(1) in \<open>simp add: f_def edit_macros_def\<close>)
  have "k \<le> length (sets (mw_macros ?mw))" using k by (auto simp: f_def edit_macros_def macros_remove_def)
  note IH = Suc.IH [OF inv this]
  have run: "edit_macros (fold f (rev [0..<k])) ?mw = edit_macros (fold f (rev [0..<Suc k])) mw"
    by (simp add: edit_macros_def)
  have "take (Suc k) (sets (mw_macros mw)) = take k (sets (mw_macros mw)) @ [sets (mw_macros mw) ! k]"
    using k by (rule take_Suc_conv_app_nth)
  moreover have "drop k (sets (mw_macros mw)) = sets (mw_macros mw) ! k # drop (Suc k) (sets (mw_macros mw))"
    using k by (rule Cons_nth_drop_Suc [symmetric])
  ultimately show ?case
    using IH k unfolding run by (auto simp: edit_macros_def f_def macros_remove_def min_def)
qed

lemma inv_purge:
  assumes inv: "macro_inv mw" and w': "world_ok w'"
    and kept: "\<And>i. i \<notin> purged \<Longrightarrow> object_at (mw_objects mw) i \<noteq> None \<Longrightarrow> object_at w' i \<noteq> None"
  shows "macro_inv (mw\<lparr>mw_objects := w', mw_macros := purge purged (mw_macros mw)\<rparr>)"
proof -
  define m where "m = fold (\<lambda>i m. if set_owner_of (sets m ! i) \<in> purged then macros_remove i m else m)
      (rev [0..<length (sets (mw_macros mw))]) (mw_macros mw)"
  have m: "macro_inv (mw\<lparr>mw_macros := m\<rparr>)"
      "sets m = filter (\<lambda>s. set_owner_of s \<notin> purged) (sets (mw_macros mw))"
    using purge_prefix [OF inv order_refl, of purged] by (simp_all add: m_def edit_macros_def)
  have mw: "mw\<lparr>mw_objects := w', mw_macros := purge purged (mw_macros mw)\<rparr> =
      \<lparr>mw_objects = w', mw_macros = \<lparr>sets = sets m, players = bt_retain (\<lambda>who _. who \<notin> purged) (players m)\<rparr>,
       next_set_id = next_set_id mw\<rparr>"
    by (simp add: purge_def m_def Let_def)
  show ?thesis unfolding mw
  proof (rule macro_invI)
    fix s assume s: "s \<in> set (sets m)"
    then have "set_ok (mw_objects mw) s \<and> set_id s < next_set_id mw" "set_owner_of s \<notin> purged"
      using m by (auto simp: macro_inv_def)
    then show "set_ok w' s \<and> set_id s < next_set_id mw" using kept by (auto simp: set_ok_def)
  next
    fix p ms assume "(p, ms) \<in> set (bt_retain (\<lambda>who _. who \<notin> purged) (players m))"
    then have "p \<notin> purged" "(p, ms) \<in> set (players m)" by (auto simp: bt_retain_def)
    then show "object_at w' p \<noteq> None \<and> slots_ok (length (sets m)) ms"
      using m(1) kept by (auto simp: macro_inv_def)
  qed (use m(1) w' in \<open>auto simp: macro_inv_def bt_retain_def bt_ok_filter\<close>)
qed

lemma inv_committed: "macro_inv mw \<Longrightarrow> macro_inv (edit_macros committed mw)"
proof -
  assume inv: "macro_inv mw"
  let ?g = "\<lambda>(i, s). s\<lparr>set_origin := int i,
      set_entries := map (\<lambda>(j, e). e\<lparr>entry_origin := int j\<rparr>) (enumerate 0 (set_entries s))\<rparr>"
  have entries: "entries_ok (map (\<lambda>(j, e). e\<lparr>entry_origin := int j\<rparr>) (enumerate k es)) = entries_ok es" for k es
  proof -
    have "map (\<lambda>e. to_ascii_lowercase (entry_alias e)) (map (\<lambda>(j, e). e\<lparr>entry_origin := int j\<rparr>) (enumerate k es)) =
        map (\<lambda>e. to_ascii_lowercase (entry_alias e)) es"
      by (induction es arbitrary: k) simp_all
    moreover have "(\<forall>e\<in>set (map (\<lambda>(j, e). e\<lparr>entry_origin := int j\<rparr>) (enumerate k es)).
        alias_ok (entry_alias e) \<and> text_ok (expansion e)) \<longleftrightarrow>
        (\<forall>e\<in>set es. alias_ok (entry_alias e) \<and> text_ok (expansion e))"
      by (induction es arbitrary: k) simp_all
    ultimately show ?thesis by (simp add: entries_ok_def)
  qed
  have ids: "map set_id (map ?g (enumerate k ss)) = map set_id ss" for k ss
    by (induction ss arbitrary: k) simp_all
  have mw: "edit_macros committed mw =
      \<lparr>mw_objects = mw_objects mw,
       mw_macros = \<lparr>sets = map ?g (enumerate 0 (sets (mw_macros mw))), players = players (mw_macros mw)\<rparr>,
       next_set_id = next_set_id mw\<rparr>"
    by (simp add: edit_macros_def committed_def)
  show ?thesis unfolding mw
  proof (rule macro_invI)
    fix s assume "s \<in> set (map ?g (enumerate 0 (sets (mw_macros mw))))"
    then obtain i s0 where s: "s = ?g (i, s0)" "s0 \<in> set (sets (mw_macros mw))"
      by (auto simp: in_set_enumerate_eq)
    then have "set_ok (mw_objects mw) s0 \<and> set_id s0 < next_set_id mw" using inv by (simp add: macro_inv_def)
    then show "set_ok (mw_objects mw) s \<and> set_id s < next_set_id mw" by (simp add: s(1) set_ok_def entries)
  next
    show "distinct (map set_id (map ?g (enumerate 0 (sets (mw_macros mw)))))"
      unfolding ids using inv by (simp add: macro_inv_def)
  qed (use inv in \<open>auto simp: macro_inv_def\<close>)
qed

section \<open>Commands\<close>

lemma position_slots: "slots_ok n ms \<Longrightarrow> position P (slots ms) = Some j \<Longrightarrow> j < SLOT_COUNT"
  using position_Some [of P "slots ms" j] by (simp add: slots_ok_def)

lemma current_set_range:
  assumes "macro_inv mw" and "current_set (mw_macros mw) who = Inr i"
  shows "i < length (sets (mw_macros mw))"
proof -
  obtain ms c where ms: "bt_get (players (mw_macros mw)) who = Some ms" "c < length (slots ms)" "slots ms ! c = Some i"
    using assms(2) by (auto simp: current_set_def split: option.splits if_splits)
  have "slots_ok (length (sets (mw_macros mw))) ms"
    using slots_of_ok [OF assms(1), of who] ms(1) by (simp add: slots_of_def)
  then show ?thesis using ms(2,3) nth_mem [OF ms(2)] by (force simp: slots_ok_def)
qed

lemma set_ok_add:
  assumes "set_ok w s" and "alias_ok name" and "text_ok expn" and "alias_position name s = None"
  shows "set_ok w (add_entry name expn s)"
proof -
  let ?es = "set_entries s @ [\<lparr>entry_origin = -1, entry_alias = name, expansion = expn\<rparr>]"
  have "to_ascii_lowercase name \<notin> (\<lambda>e. to_ascii_lowercase (entry_alias e)) ` set (set_entries s)"
    using assms(4) by (auto simp: alias_position_def position_None eq_ignore_ascii_case_def to_ascii_lowercase_def)
  then have "entries_ok ?es" using assms(1-3) by (simp add: set_ok_def entries_ok_def)
  then have "entries_ok (sort_key (\<lambda>e. to_ascii_lowercase (entry_alias e)) ?es)"
    by (auto simp only: entries_ok_def set_sort distinct_map distinct_sort)
  then show ?thesis using assms(1) by (simp add: set_ok_def add_entry_def)
qed

lemma set_ok_remove: "set_ok w s \<Longrightarrow> set_ok w (remove_entry j s)"
proof -
  assume ok: "set_ok w s"
  let ?es = "set_entries s"
  have "distinct (map (\<lambda>e. to_ascii_lowercase (entry_alias e)) (take j ?es @ drop (Suc j) ?es))"
    using ok by (intro distinct_map_remove) (simp add: set_ok_def entries_ok_def)
  then show ?thesis
    using ok by (auto simp: set_ok_def entries_ok_def remove_entry_def dest: in_set_takeD in_set_dropD)
qed

lemma alias_position_range: "alias_position name s = Some j \<Longrightarrow> j < length (set_entries s)"
  using position_Some [of _ "set_entries s" j] by (auto simp: alias_position_def)

lemma set_ok_update:
  assumes "set_ok w s" and "text_ok expn" and "j < length (set_entries s)"
  shows "set_ok w (s\<lparr>set_entries := (set_entries s)[j := (set_entries s ! j)\<lparr>expansion := expn\<rparr>]\<rparr>)"
proof -
  let ?es = "(set_entries s)[j := (set_entries s ! j)\<lparr>expansion := expn\<rparr>]"
  have "map (\<lambda>e. to_ascii_lowercase (entry_alias e)) ?es = map (\<lambda>e. to_ascii_lowercase (entry_alias e)) (set_entries s)"
    using assms(3) by (simp add: map_update list_update_same_conv)
  moreover have "alias_ok (entry_alias e) \<and> text_ok (expansion e)" if "e \<in> set ?es" for e
  proof -
    from that have "e \<in> set (set_entries s) \<or> e = (set_entries s ! j)\<lparr>expansion := expn\<rparr>"
      using set_update_subset_insert by fastforce
    then show ?thesis using assms nth_mem [OF assms(3)] by (auto simp: set_ok_def entries_ok_def)
  qed
  ultimately show ?thesis using assms(1) by (simp add: set_ok_def entries_ok_def)
qed

lemma inv_world: "macro_inv mw \<Longrightarrow> world_ok (mw_objects mw)"
  by (simp add: macro_inv_def)

lemma inv_set: "macro_inv mw \<Longrightarrow> i < length (sets (mw_macros mw)) \<Longrightarrow> set_ok (mw_objects mw) (sets (mw_macros mw) ! i)"
  by (simp add: macro_inv_def)

lemma slot_arg_range: "slot_arg args = Inr j \<Longrightarrow> j < SLOT_COUNT"
  by (auto simp: slot_arg_def ensure_then_def split: option.splits if_splits)

lemma admin_target_exists:
  assumes w: "world_ok w" and t: "admin_target plain w who arg = Inr t"
  shows "object_at w t \<noteq> None"
proof -
  obtain ex where ex: "explicit_target w who (trim arg) = Inr ex"
    using t by (auto simp: admin_target_def Let_def bind_result_Inr_iff)
  show ?thesis
  proof (cases ex)
    case None
    then obtain obj where "filter (named_target plain w who (trim arg)) (map snd (objects w)) = [obj]" "t = obj_id obj"
      using t ex by (auto simp: admin_target_def Let_def split: list.splits)
    then have "t = obj_id obj" "obj \<in> set (map snd (objects w))"
      by (auto simp: filter_eq_Cons_iff simp del: set_map)
    then obtain k where "(k, obj) \<in> set (objects w)" "t = obj_id obj" by auto
    then have "(t, obj) \<in> set (objects w)" using w by (fastforce simp: world_ok_def list_all_iff)
    then show ?thesis using w bt_get_in_set by (fastforce simp: world_ok_def object_at_def)
  next
    case (Some i)
    then show ?thesis using t ex by (auto simp: admin_target_def Let_def split: option.splits)
  qed
qed

lemma empty_slot_range:
  assumes "macro_inv mw" and "empty_slot (mw_macros mw) who = Inr j"
  shows "j < SLOT_COUNT"
  using assms slots_of_ok [OF assms(1), of who] position_slots
  by (auto simp: empty_slot_def slots_of_def [symmetric] split: option.splits)

lemma inv_attach:
  assumes "macro_inv mw" and "object_at (mw_objects mw) p \<noteq> None" and "j < SLOT_COUNT"
    and "i < length (sets (mw_macros mw))"
  shows "macro_inv (edit_macros (attach_at p j i) mw)"
  unfolding attach_at_def using assms slots_of_ok [OF assms(1)]
  by (intro inv_edit_slots slots_ok_attach) auto

lemma inv_create:
  assumes inv: "macro_inv mw" and who: "object_at (mw_objects mw) who \<noteq> None"
    and c: "cmd_create who args mw = Inr (r, mw')"
  shows "macro_inv mw'"
proof -
  let ?pushed = "push_set who args mw"
  obtain j where j: "text_ok args" "empty_slot (mw_macros mw) who = Inr j"
      "mw' = edit_macros (edit_slots who
         (\<lambda>ms. \<lparr>current_slot = Some j, slots = (slots ms)[j := Some (length (sets (mw_macros mw)))]\<rparr>)) ?pushed"
    using c by (auto simp: cmd_create_def bind_result_Inr_iff text_check_ok Let_def)
  have "macro_inv ?pushed" using inv who j(1) by (rule inv_push_set)
  moreover have "object_at (mw_objects ?pushed) who \<noteq> None" using who by (simp add: push_set_def edit_macros_def)
  moreover have "length (sets (mw_macros mw)) < length (sets (mw_macros ?pushed))"
    by (simp add: push_set_def edit_macros_def)
  ultimately show ?thesis
    unfolding j(3) using slots_of_ok empty_slot_range [OF inv j(2)]
    by (intro inv_edit_slots slots_ok_attach(2)) auto
qed

lemma inv_add:
  "macro_inv mw \<Longrightarrow> object_at (mw_objects mw) who \<noteq> None \<Longrightarrow> cmd_add who args mw = Inr (r, mw') \<Longrightarrow> macro_inv mw'"
  using inv_attach empty_slot_range
  by (auto simp: cmd_add_def bind_result_Inr_iff set_number_def split: option.splits)

lemma inv_detach:
  "macro_inv mw \<Longrightarrow> object_at (mw_objects mw) who \<noteq> None \<Longrightarrow> cmd_detach who args mw = Inr (r, mw') \<Longrightarrow> macro_inv mw'"
  using inv_edit_slots slots_ok_clear slots_of_ok
  by (auto simp: cmd_detach_def bind_result_Inr_iff Let_def)

lemma inv_select:
  assumes inv: "macro_inv mw" and who: "object_at (mw_objects mw) who \<noteq> None"
    and c: "cmd_select who args mw = Inr (r, mw')"
  shows "macro_inv mw'"
proof -
  obtain j ms where j: "slot_arg args = Inr j" "bt_get (players (mw_macros mw)) who = Some ms" "slots ms ! j \<noteq> None"
      "mw' = edit_macros (edit_slots who (\<lambda>ms. ms\<lparr>current_slot := Some j\<rparr>)) mw"
    using c by (auto simp: cmd_select_def bind_result_Inr_iff split: option.splits)
  have "slots_of (mw_macros mw) who = ms" using j(2) by (simp add: slots_of_def)
  then have "slots_ok (length (sets (mw_macros mw))) ((slots_of (mw_macros mw) who)\<lparr>current_slot := Some j\<rparr>)"
    using slots_of_ok [OF inv, of who] j(3) slot_arg_range [OF j(1)] by (auto simp: slots_ok_def)
  then show ?thesis unfolding j(4) using inv who by (intro inv_edit_slots) auto
qed

lemma inv_edit_current:
  assumes "macro_inv mw" and "current_set (mw_macros mw) who = Inr i"
    and "\<And>s. set_ok (mw_objects mw) s \<Longrightarrow> s = sets (mw_macros mw) ! i \<Longrightarrow> set_ok (mw_objects mw) (f s) \<and> set_id (f s) = set_id s"
  shows "macro_inv (edit_macros (edit_set i f) mw)"
  using assms(3) [OF inv_set] assms(1) current_set_range [OF assms(1,2)] by (intro inv_edit_set) auto

lemmas get_set_simps = get_set_def bind_result_Inr_iff

lemma inv_name: "macro_inv mw \<Longrightarrow> cmd_name who args mw = Inr (r, mw') \<Longrightarrow> macro_inv mw'"
  by (auto simp: cmd_name_def get_set_simps text_check_ok set_ok_def intro!: inv_edit_current)

lemma inv_chmod: "macro_inv mw \<Longrightarrow> cmd_chmod who args mw = Inr (r, mw') \<Longrightarrow> macro_inv mw'"
  by (auto simp: cmd_chmod_def get_set_simps set_ok_def split: option.splits intro!: inv_edit_current)

lemma inv_chown: "macro_inv mw \<Longrightarrow> cmd_chown plain who args mw = Inr (r, mw') \<Longrightarrow> macro_inv mw'"
  using admin_target_exists [OF inv_world, of mw plain who args]
  by (auto simp: cmd_chown_def get_set_simps set_ok_def intro!: inv_edit_current)

lemma inv_clear: "macro_inv mw \<Longrightarrow> cmd_clear who args mw = Inr (r, mw') \<Longrightarrow> macro_inv mw'"
  using current_set_range inv_remove
  by (auto simp: cmd_clear_def get_set_simps split: if_splits)

lemma add_entry_id: "set_id (add_entry name expn s) = set_id s"
  by (simp add: add_entry_def)

lemma remove_entry_id: "set_id (remove_entry j s) = set_id s"
  by (simp add: remove_entry_def)

lemma inv_define: "macro_inv mw \<Longrightarrow> cmd_define who args mw = Inr (r, mw') \<Longrightarrow> macro_inv mw'"
  by (auto simp: cmd_define_def get_set_simps alias_check_ok text_check_ok Let_def add_entry_id
      split: option.splits prod.splits if_splits intro!: inv_edit_current set_ok_add)

lemma inv_undefine: "macro_inv mw \<Longrightarrow> cmd_undefine who args mw = Inr (r, mw') \<Longrightarrow> macro_inv mw'"
  by (auto simp: cmd_undefine_def get_set_simps remove_entry_id
      split: option.splits intro!: inv_edit_current set_ok_remove)

lemma inv_handler:
  assumes inv: "macro_inv mw" and who: "object_at (mw_objects mw) who \<noteq> None"
    and c: "handler plain c who args mw = Inr (r, mw')"
  shows "macro_inv mw'"
proof (cases "is_mutation c")
  case True
  then show ?thesis
    using c inv_create [OF inv who] inv_add [OF inv who] inv_detach [OF inv who] inv_select [OF inv who]
      inv_name [OF inv] inv_chmod [OF inv] inv_chown [OF inv] inv_clear [OF inv] inv_define [OF inv]
      inv_undefine [OF inv]
    by (cases c) (auto simp: handler_def is_mutation_def)
next
  case False
  then have "mw' = mw"
    using c by (cases c)
      (auto simp: handler_def is_mutation_def cmd_examine_def cmd_gexamine_def cmd_glist_def cmd_list_def
        bind_result_Inr_iff Let_def split: if_splits)
  then show ?thesis using inv by simp
qed

lemma bind_result_Inl_iff: "bind_result r f = Inl e \<longleftrightarrow> r = Inl e \<or> (\<exists>x. r = Inr x \<and> f x = Inl e)"
  by (cases r) auto

lemma checks_no_panic:
  "text_check v \<noteq> Inl MacroPanic" "alias_check v \<noteq> Inl MacroPanic" "no_args v \<noteq> Inl MacroPanic"
  "empty_slot m who \<noteq> Inl MacroPanic" "set_number m v \<noteq> Inl MacroPanic" "slot_arg v \<noteq> Inl MacroPanic"
  "current_set m who \<noteq> Inl MacroPanic" "admin_target plain w who v \<noteq> Inl MacroPanic"
  "b \<or> e \<noteq> MacroPanic \<Longrightarrow> ensure b e \<noteq> Inl MacroPanic"
  by (auto simp: text_check_def alias_check_def no_args_def empty_slot_def set_number_def slot_arg_def
      current_set_def admin_target_def explicit_target_def bind_result_Inl_iff ensure_def ensure_then_def Let_def
      split: option.splits if_splits list.splits)

lemma handler_no_panic:
  assumes inv: "macro_inv mw"
  shows "handler plain c who args mw \<noteq> Inl MacroPanic"
proof -
  have cur: "get_set (mw_macros mw) i = Inr (sets (mw_macros mw) ! i)" if "current_set (mw_macros mw) who = Inr i" for i
    using current_set_range [OF inv that] by (simp add: get_set_def)
  have "slots_ok (length (sets (mw_macros mw))) (slots_of (mw_macros mw) who)" using inv by (rule slots_of_ok)
  then have all: "\<forall>a\<in>set (slots (slots_of (mw_macros mw) who)). case a of None \<Rightarrow> True | Some i \<Rightarrow> i < length (sets (mw_macros mw))"
    and len: "length (slots (slots_of (mw_macros mw) who)) = SLOT_COUNT"
    by (auto simp: slots_ok_def)
  have list: "cmd_list who args mw \<noteq> Inl MacroPanic"
    using all by (auto simp: cmd_list_def bind_result_Inl_iff checks_no_panic Let_def slots_of_def [symmetric] list_all_iff
        split: option.splits)
  have slot: "get_set (mw_macros mw) i = Inr (sets (mw_macros mw) ! i)"
    if "slot_arg args = Inr j" "bt_get (players (mw_macros mw)) who = Some ms" "slots ms ! j = Some i" for i j ms
  proof -
    have "slots ms = slots (slots_of (mw_macros mw) who)" using that(2) by (simp add: slots_of_def)
    then have "Some i \<in> set (slots (slots_of (mw_macros mw) who))"
      using that(3) slot_arg_range [OF that(1)] len nth_mem by metis
    then show ?thesis using all by (force simp: get_set_def)
  qed
  have ex: "cmd_examine who args mw \<noteq> Inl MacroPanic"
  proof (cases "args = []")
    case True
    then show ?thesis by (auto simp: cmd_examine_def bind_result_Inl_iff checks_no_panic cur)
  next
    case False
    show ?thesis
    proof (cases "bt_get (players (mw_macros mw)) who")
      case None
      then show ?thesis using False by (auto simp: cmd_examine_def bind_result_Inl_iff bind_result_Inr_iff checks_no_panic)
    next
      case (Some ms)
      have "slots ms ! j = None \<or> (\<exists>i. slots ms ! j = Some i \<and> get_set (mw_macros mw) i = Inr (sets (mw_macros mw) ! i))"
        if "slot_arg args = Inr j" for j
        using slot [OF that Some] by (cases "slots ms ! j") auto
      then show ?thesis
        using False Some
        by (fastforce simp: cmd_examine_def bind_result_Inl_iff bind_result_Inr_iff checks_no_panic)
    qed
  qed
  show ?thesis
    using list ex
    by (cases c) (auto simp: handler_def cmd_create_def cmd_add_def cmd_detach_def cmd_select_def cmd_name_def
        cmd_chmod_def cmd_chown_def cmd_clear_def cmd_define_def cmd_undefine_def cmd_glist_def cmd_gexamine_def
        bind_result_Inl_iff checks_no_panic cur Let_def ensure_then_def
        split: option.splits prod.splits if_splits)
qed

section \<open>Scripts\<close>

lemma set_index_range: "set_index m k = Inr i \<Longrightarrow> i < length (sets m) \<and> set_id (sets m ! i) = k"
  using position_Some [of _ "sets m" i] by (auto simp: set_index_def split: option.splits)

lemma live_object_exists: "live_object w i b = Inr () \<Longrightarrow> object_at w i \<noteq> None"
  by (auto simp: live_object_def split: option.splits)

lemma inv_svc_create: "macro_inv mw \<Longrightarrow> svc_create who d mw = Inr (k, mw') \<Longrightarrow> macro_inv mw'"
  using inv_push_set live_object_exists by (auto simp: svc_create_def bind_result_Inr_iff text_check_ok)

lemma inv_svc_set_owner: "macro_inv mw \<Longrightarrow> svc_set_owner k who mw = Inr mw' \<Longrightarrow> macro_inv mw'"
  using inv_set set_index_range live_object_exists
  by (auto simp: svc_set_owner_def bind_result_Inr_iff set_ok_def intro!: inv_edit_set)

lemma inv_svc_define:
  assumes inv: "macro_inv mw" and d: "svc_define k name expn update mw = Inr mw'"
  shows "macro_inv mw'"
proof -
  obtain i where i: "set_index (mw_macros mw) k = Inr i" "alias_ok name" "text_ok expn"
    using d by (auto simp: svc_define_def bind_result_Inr_iff alias_check_ok text_check_ok)
  have ok: "i < length (sets (mw_macros mw))" "set_ok (mw_objects mw) (sets (mw_macros mw) ! i)"
    using set_index_range [OF i(1)] inv_set [OF inv] by auto
  show ?thesis
    using d i ok set_ok_update alias_position_range set_ok_add add_entry_id inv
    by (auto simp: svc_define_def bind_result_Inr_iff split: option.splits if_splits intro!: inv_edit_set)
qed

lemma inv_svc_delete:
  assumes inv: "macro_inv mw" and d: "svc_delete k name mw = Inr mw'"
  shows "macro_inv mw'"
proof -
  obtain i j where i: "set_index (mw_macros mw) k = Inr i" "mw' = edit_macros (edit_set i (remove_entry j)) mw"
    using d by (auto simp: svc_delete_def bind_result_Inr_iff split: option.splits)
  show ?thesis
    unfolding i(2) using inv set_index_range [OF i(1)] set_ok_remove [OF inv_set [OF inv]] remove_entry_id
    by (intro inv_edit_set) auto
qed

lemma inv_svc_attach:
  assumes inv: "macro_inv mw" and a: "svc_attach p k mw = Inr (j, mw')"
  shows "macro_inv mw'"
proof -
  obtain i where i: "live_object (mw_objects mw) p True = Inr ()" "set_index (mw_macros mw) k = Inr i"
      "free_slot (mw_macros mw) p = Some j" "mw' = edit_macros (attach_at p j i) mw"
    using a by (cases "free_slot (mw_macros mw) p") (auto simp: svc_attach_def bind_result_Inr_iff)
  have "j < SLOT_COUNT"
    using i(3) position_slots [OF slots_of_ok [OF inv, of p], of "\<lambda>a. a = None" j]
    by (cases "bt_get (players (mw_macros mw)) p") (simp_all add: free_slot_def slots_of_def SLOT_COUNT_def)
  then show ?thesis
    unfolding i(4) using inv live_object_exists [OF i(1)] set_index_range [OF i(2)] by (intro inv_attach) auto
qed

lemma inv_svc_detach:
  assumes inv: "macro_inv mw" and d: "svc_detach p j mw = Inr (b, mw')"
  shows "macro_inv mw'"
proof -
  have "live_object (mw_objects mw) p True = Inr ()" using d by (auto simp: svc_detach_def bind_result_Inr_iff)
  then have "macro_inv (edit_macros (edit_slots p (clear_slot j)) mw)"
    using inv live_object_exists slots_ok_clear slots_of_ok by (intro inv_edit_slots) auto
  then show ?thesis
    using inv d by (cases "bt_get (players (mw_macros mw)) p") (auto simp: svc_detach_def bind_result_Inr_iff)
qed

section \<open>Reachable states\<close>

text \<open>
  A state as \<open>persistence/macros.rs\<close> loads it, which ends with \<open>validate\<close>; identities are drawn from a
  counter, and a \<open>MacroSlots\<close> is an array of five.
\<close>

definition macro_loaded :: "macro_world \<Rightarrow> bool" where
  "macro_loaded mw \<longleftrightarrow>
     world_ok (mw_objects mw) \<and> macros_validate (mw_objects mw) (mw_macros mw) = Inr ()
     \<and> distinct (map set_id (sets (mw_macros mw))) \<and> list_all (\<lambda>s. set_id s < next_set_id mw) (sets (mw_macros mw))
     \<and> bt_ok (players (mw_macros mw))
     \<and> list_all (\<lambda>(p, ms). length (slots ms) = SLOT_COUNT) (players (mw_macros mw))"

inductive macro_step :: "(bytes \<Rightarrow> bytes) \<Rightarrow> macro_world \<Rightarrow> macro_world \<Rightarrow> bool" for plain where
  Command: "execute plain c who args mw = Some (a, mw') \<Longrightarrow> macro_step plain mw mw'"
| Create: "svc_create who d mw = Inr (k, mw') \<Longrightarrow> macro_step plain mw mw'"
| Set_Owner: "svc_set_owner k who mw = Inr mw' \<Longrightarrow> macro_step plain mw mw'"
| Define: "svc_define k name expn update mw = Inr mw' \<Longrightarrow> macro_step plain mw mw'"
| Delete: "svc_delete k name mw = Inr mw' \<Longrightarrow> macro_step plain mw mw'"
| Attach: "svc_attach p k mw = Inr (j, mw') \<Longrightarrow> macro_step plain mw mw'"
| Detach: "svc_detach p j mw = Inr (b, mw') \<Longrightarrow> macro_step plain mw mw'"
| Commit: "macro_step plain mw (edit_macros committed mw)"
| Objects: "\<lbrakk>world_ok w'; \<forall>i. i \<notin> purged \<longrightarrow> object_at (mw_objects mw) i \<noteq> None \<longrightarrow> object_at w' i \<noteq> None\<rbrakk>
    \<Longrightarrow> macro_step plain mw (mw\<lparr>mw_objects := w', mw_macros := purge purged (mw_macros mw)\<rparr>)"

inductive macro_reachable :: "(bytes \<Rightarrow> bytes) \<Rightarrow> macro_world \<Rightarrow> bool" for plain where
  Loaded: "macro_loaded mw \<Longrightarrow> macro_reachable plain mw"
| Step: "macro_reachable plain mw \<Longrightarrow> macro_step plain mw mw' \<Longrightarrow> macro_reachable plain mw'"

lemma inv_loaded:
  assumes "macro_loaded mw"
  shows "macro_inv mw"
proof -
  have v: "\<forall>x\<in>set (enumerate 0 (sets (mw_macros mw))). check_set (mw_objects mw) x = Inr ()"
      "\<forall>x\<in>set (players (mw_macros mw)). check_slots (mw_objects mw) (length (sets (mw_macros mw))) x = Inr ()"
    using assms by (auto simp: macro_loaded_def macros_validate_def bind_result_Inr_iff check_all_ok)
  have "set_ok (mw_objects mw) s" if mem: "s \<in> set (sets (mw_macros mw))" for s
  proof -
    obtain i where "i < length (sets (mw_macros mw))" "s = sets (mw_macros mw) ! i"
      using mem by (auto simp: in_set_conv_nth)
    then have "(i, s) \<in> set (enumerate 0 (sets (mw_macros mw)))" by (simp add: in_set_enumerate_eq)
    then show ?thesis using v(1) check_set_ok by blast
  qed
  moreover have "object_at (mw_objects mw) p \<noteq> None \<and> slots_ok (length (sets (mw_macros mw))) ms"
    if "(p, ms) \<in> set (players (mw_macros mw))" for p ms
    using v(2) that assms check_slots_ok [of ms] by (fastforce simp: macro_loaded_def list_all_iff)
  ultimately show ?thesis using assms by (auto simp: macro_inv_def macro_loaded_def list_all_iff)
qed

lemma inv_step:
  assumes inv: "macro_inv mw" and step: "macro_step plain mw mw'"
  shows "macro_inv mw'"
  using step
proof cases
  case (Command c who args a)
  then show ?thesis
    using inv inv_handler [OF inv, of who plain c args]
    by (auto simp: execute_def split: option.splits sum.splits if_splits)
next
  case (Objects w' purged)
  then show ?thesis using inv_purge [OF inv, of w' purged] by simp
next
  case Commit
  then show ?thesis using inv_committed [OF inv] by simp
qed (erule inv_svc_create [OF inv] inv_svc_set_owner [OF inv] inv_svc_define [OF inv] inv_svc_delete [OF inv]
    inv_svc_attach [OF inv] inv_svc_detach [OF inv])+

lemma inv_reachable: "macro_reachable plain mw \<Longrightarrow> macro_inv mw"
  by (induction rule: macro_reachable.induct) (use inv_loaded inv_step in \<open>blast+\<close>)

text \<open>
  C11. Start from any macro state the server loads and let players give dot commands, scripts call
  the trusted operations, saves commit, and the object table change (sets and slots of purged
  objects are purged with them) in any order: the macro state always passes \<open>validate\<close>, so every
  save accepts it, and no dot command with any argument panics on an index.
\<close>

theorem macros_stay_valid:
  assumes "macro_reachable plain mw"
  shows "macros_validate (mw_objects mw) (mw_macros mw) = Inr () \<and> execute plain c who args mw \<noteq> None"
  using inv_reachable [OF assms] macro_inv_validate handler_no_panic
  by (auto simp: execute_def split: option.splits sum.splits prod.splits)

definition sample_macros :: macro_world where
  "sample_macros =
     \<lparr>mw_objects =
        \<lparr>objects = [(1, sample_object 1 Player (Some 2)), (2, sample_object 2 Room None),
                    (4, sample_object 4 Player (Some 2))]\<rparr>,
      mw_macros =
        \<lparr>sets =
           [\<lparr>set_id = 0, set_origin = 0, set_owner_of = 4, modes = 0, set_description = [],
             set_entries = [\<lparr>entry_origin = 0, entry_alias = bstr ''hi'', expansion = bstr ''say *''\<rparr>]\<rparr>,
            \<lparr>set_id = 1, set_origin = 1, set_owner_of = 1, modes = 2, set_description = [], set_entries = []\<rparr>],
         players = [(4, \<lparr>current_slot = Some 0, slots = [Some 1, Some 0, None, None, None]\<rparr>)]\<rparr>,
      next_set_id = 2\<rparr>"

lemmas sample_macros_simps = sample_macros_def sample_simps bstr_def

lemma sample_loaded: "macro_loaded sample_macros"
  by (simp add: macro_loaded_def macros_validate_def check_set_def check_slots_def alias_check_def text_check_def
      world_ok_def bt_ok_def sample_macros_simps SLOT_COUNT_def TEXT_LIMIT_def)

lemma sample_reachable: "macro_reachable id sample_macros"
  by (rule Loaded) (rule sample_loaded)

theorem macros_stay_valid_witness:
  "macros_validate (mw_objects sample_macros) (mw_macros (edit_macros committed sample_macros)) = Inr ()"
proof -
  have "macro_reachable id (edit_macros committed sample_macros)"
    by (rule Step [OF sample_reachable Commit])
  from macros_stay_valid [OF this] show ?thesis by (simp add: edit_macros_def)
qed

section \<open>Who changes a set\<close>

lemma kept_by_update: "x \<in> set xs \<Longrightarrow> x \<noteq> xs ! i \<Longrightarrow> x \<in> set (xs[i := y])"
  by (metis in_set_conv_nth length_list_update nth_list_update_neq)

lemma kept_by_removal: "x \<in> set xs \<Longrightarrow> x \<noteq> xs ! i \<Longrightarrow> x \<in> set (take i xs @ drop (Suc i) xs)"
  by (metis Cons_nth_drop_Suc UnCI UnE append_take_drop_id drop_all linorder_not_less set_ConsD set_append
      append_Nil2 le_SucI)

text \<open>What a command of a player who is no wizard may do to the list of sets.\<close>

inductive sets_change :: "object_id \<Rightarrow> macro_set list \<Rightarrow> macro_set list \<Rightarrow> bool" for who ss where
  Appended: "sets_change who ss (ss @ t)"
| Written: "\<lbrakk>i < length ss; writable (ss ! i) who\<rbrakk> \<Longrightarrow> sets_change who ss (ss[i := s])"
| Remoded: "\<lbrakk>i < length ss; set_owner_of (ss ! i) = who\<rbrakk> \<Longrightarrow> sets_change who ss (ss[i := (ss ! i)\<lparr>modes := b\<rparr>])"
| Removed: "\<lbrakk>i < length ss; writable (ss ! i) who\<rbrakk> \<Longrightarrow> sets_change who ss (take i ss @ drop (Suc i) ss)"

lemma unchanged: "sets_change who ss ss"
  using Appended [of who ss "[]"] by simp

lemma handler_sets:
  assumes c: "handler plain c who args mw = Inr (r, mw')" and mortal: "\<not> is_wizard (mw_objects mw) who"
  shows "mw_objects mw' = mw_objects mw \<and> sets_change who (sets (mw_macros mw)) (sets (mw_macros mw'))"
proof (cases "c \<in> {CreateCmd, AddCmd, DelCmd, ChslotCmd, ExCmd, GexCmd, GlistCmd, ListCmd, ChownCmd}")
  case True
  then show ?thesis
    using c mortal
    by (auto simp: handler_def cmd_create_def cmd_add_def cmd_detach_def cmd_select_def cmd_examine_def
        cmd_gexamine_def cmd_glist_def cmd_list_def cmd_chown_def bind_result_Inr_iff Let_def attach_at_def
        edit_macros_def edit_slots_def push_set_def split: option.splits if_splits intro!: unchanged Appended)
next
  case False
  then show ?thesis
    using c mortal
    by (cases c)
      (auto simp: handler_def cmd_name_def cmd_chmod_def cmd_clear_def cmd_define_def cmd_undefine_def get_set_simps
        edit_macros_def edit_set_def macros_remove_def writable_def Let_def
        split: if_splits option.splits intro!: Written Remoded Removed)
qed

text \<open>
  C19. Whatever dot command a player who is no wizard gives, objects stay as they are, a set it neither
  owns nor may write stays exactly as it is, and a locked set, even its own, keeps its owner,
  description and entries: at most its modes change.
\<close>

theorem only_writers_change_sets:
  assumes "execute plain c who args mw = Some (a, mw')" and "\<not> is_wizard (mw_objects mw) who"
    and "s \<in> set (sets (mw_macros mw))"
  shows "mw_objects mw' = mw_objects mw
    \<and> (\<not> writable s who \<and> set_owner_of s \<noteq> who \<longrightarrow> s \<in> set (sets (mw_macros mw')))
    \<and> (modes_has (modes s) LOCKED \<longrightarrow> (\<exists>b. s\<lparr>modes := b\<rparr> \<in> set (sets (mw_macros mw'))))"
proof (cases "mw' = mw")
  case True
  have "s\<lparr>modes := modes s\<rparr> = s" by simp
  then have "\<exists>b. s\<lparr>modes := b\<rparr> \<in> set (sets (mw_macros mw))" using assms(3) by metis
  then show ?thesis using True assms(3) by blast
next
  case False
  then obtain r where r: "handler plain c who args mw = Inr (r, mw')"
    using assms(1) by (auto simp: execute_def split: option.splits sum.splits if_splits)
  let ?ss' = "sets (mw_macros mw')"
  have same: "s\<lparr>modes := modes s\<rparr> = s" by simp
  have kept: "s \<in> set ?ss' \<Longrightarrow> \<exists>b. s\<lparr>modes := b\<rparr> \<in> set ?ss'" using same by metis
  have "sets_change who (sets (mw_macros mw)) ?ss'" using handler_sets [OF r assms(2)] by simp
  then have "(\<not> writable s who \<and> set_owner_of s \<noteq> who \<longrightarrow> s \<in> set ?ss')
    \<and> (modes_has (modes s) LOCKED \<longrightarrow> (\<exists>b. s\<lparr>modes := b\<rparr> \<in> set ?ss'))"
  proof cases
    case (Appended t)
    then show ?thesis using assms(3) kept by simp
  next
    case (Written i s')
    then have "\<not> writable s who \<Longrightarrow> s \<in> set ?ss'" using kept_by_update [OF assms(3), of i s'] by fastforce
    then show ?thesis using kept by (auto simp: writable_def)
  next
    case (Remoded i b)
    then have "s = sets (mw_macros mw) ! i \<Longrightarrow> s\<lparr>modes := b\<rparr> \<in> set ?ss'" by (simp add: set_update_memI)
    moreover have "s \<noteq> sets (mw_macros mw) ! i \<Longrightarrow> s \<in> set ?ss'"
      using Remoded kept_by_update [OF assms(3)] by simp
    ultimately show ?thesis using Remoded(3) kept by blast
  next
    case (Removed i)
    then have "\<not> writable s who \<Longrightarrow> s \<in> set ?ss'" using kept_by_removal [OF assms(3), of i] by auto
    then show ?thesis using kept by (auto simp: writable_def)
  qed
  then show ?thesis using handler_sets [OF r assms(2)] by simp
qed

theorem only_writers_change_sets_witness:
  "sets (mw_macros sample_macros) ! 1 \<in> set (sets (mw_macros (snd (the (execute id UndefCmd 4 (bstr ''hi'') sample_macros)))))"
proof -
  have "execute id UndefCmd 4 (bstr ''hi'') sample_macros = Some (Refused MacroDenied, sample_macros)"
    by (simp add: execute_def handler_def cmd_undefine_def current_set_def get_set_def writable_def modes_has_def
        WRITE_def LOCKED_def sample_macros_simps)
  moreover have "\<not> is_wizard (mw_objects sample_macros) 4" "\<not> writable (sets (mw_macros sample_macros) ! 1) 4"
    "set_owner_of (sets (mw_macros sample_macros) ! 1) \<noteq> 4"
    by (simp_all add: is_wizard_def has_flag_def GOD_def writable_def modes_has_def WRITE_def LOCKED_def sample_macros_simps)
  moreover have "sets (mw_macros sample_macros) ! 1 \<in> set (sets (mw_macros sample_macros))"
    by (simp add: sample_macros_def)
  ultimately show ?thesis
    using only_writers_change_sets [of id UndefCmd 4 "bstr ''hi''" sample_macros "Refused MacroDenied" sample_macros
        "sets (mw_macros sample_macros) ! 1"] by simp
qed

end
