(* ===== verification/Macros_Expand.thy ===== *)
theory Macros_Expand
  imports Macros_Valid
begin

text \<open>
  Removal and expansion of macro sets. Slots hold positions of sets, so that removing a set shifts
  them; read as identities, removing and purging only detach the sets that are gone. Expansion is
  one substitution, found by searching the attached sets in the order of the slots.
\<close>

section \<open>Attachments by identity\<close>

definition attached :: "player_macros \<Rightarrow> object_id \<Rightarrow> nat option list option" where
  "attached m p = map_option (\<lambda>ms. map (map_option (\<lambda>i. set_id (sets m ! i))) (slots ms)) (bt_get (players m) p)"

definition detach_ids :: "nat set \<Rightarrow> nat option list \<Rightarrow> nat option list" where
  "detach_ids K = map (\<lambda>a. if a \<in> Some ` K then None else a)"

lemma detach_ids_empty: "detach_ids {} xs = xs"
  by (simp add: detach_ids_def)

lemma detach_ids_twice: "detach_ids K (detach_ids L xs) = detach_ids (K \<union> L) xs"
  by (auto simp: detach_ids_def)

lemma nth_removed:
  "i < length xs \<Longrightarrow> v < length xs \<Longrightarrow> v \<noteq> i \<Longrightarrow>
   (take i xs @ drop (Suc i) xs) ! (if i < v then v - 1 else v) = xs ! v"
  by (auto simp: nth_append)

lemma attached_remove:
  assumes inv: "macro_inv mw" and i: "i < length (sets (mw_macros mw))"
  defines "m \<equiv> mw_macros mw"
  shows "attached (macros_remove i m) p = map_option (detach_ids {set_id (sets m ! i)}) (attached m p)"
proof (cases "bt_get (players m) p")
  case None
  then show ?thesis by (simp add: attached_def macros_remove_def bt_get_def map_of_map)
next
  case (Some ms)
  have ok: "slots_ok (length (sets m)) ms"
    using slots_of_ok [OF inv, of p] Some by (simp add: slots_of_def m_def)
  have "map_option (\<lambda>v. set_id ((take i (sets m) @ drop (Suc i) (sets m)) ! v))
          (case a of None \<Rightarrow> None | Some v \<Rightarrow> if v = i then None else if i < v then Some (v - 1) else Some v) =
        (if map_option (\<lambda>v. set_id (sets m ! v)) a = Some (set_id (sets m ! i)) then None
         else map_option (\<lambda>v. set_id (sets m ! v)) a)"
    if a: "a \<in> set (slots ms)" for a
  proof (cases a)
    case (Some v)
    then have v: "v < length (sets m)" using ok a by (auto simp: slots_ok_def split: option.splits)
    have "set_id (sets m ! v) = set_id (sets m ! i) \<longleftrightarrow> v = i"
      using inv v i nth_eq_iff_index_eq [of "map set_id (sets m)" v i] by (simp add: macro_inv_def m_def)
    then show ?thesis using Some v i nth_removed [of i "sets m" v] by (auto simp: m_def)
  qed simp
  then show ?thesis
    using Some
    by (simp add: attached_def macros_remove_def detach_set_def detach_ids_def bt_get_def map_of_map comp_def)
qed

lemma attached_purge_prefix:
  fixes purged :: "object_id set"
  assumes "macro_inv mw" and "k \<le> length (sets (mw_macros mw))"
  defines "f \<equiv> \<lambda>i m. if set_owner_of (sets m ! i) \<in> purged then macros_remove i m else m"
  shows "attached (fold f (rev [0..<k]) (mw_macros mw)) p =
    map_option (detach_ids (set_id ` {s \<in> set (take k (sets (mw_macros mw))). set_owner_of s \<in> purged}))
      (attached (mw_macros mw) p)"
  using assms(1,2)
proof (induction k arbitrary: mw)
  case 0
  then show ?case by (simp add: detach_ids_empty option.map_ident)
next
  case (Suc k)
  let ?m = "mw_macros mw"
  let ?mw = "edit_macros (f k) mw"
  have k: "k < length (sets ?m)" using Suc.prems(2) by simp
  have take: "take (Suc k) (sets ?m) = take k (sets ?m) @ [sets ?m ! k]" using k by (rule take_Suc_conv_app_nth)
  have run: "fold f (rev [0..<Suc k]) ?m = fold f (rev [0..<k]) (mw_macros ?mw)"
    by (simp add: edit_macros_def)
  show ?case
  proof (cases "set_owner_of (sets ?m ! k) \<in> purged")
    case True
    then have m: "mw_macros ?mw = macros_remove k ?m" "?mw = edit_macros (macros_remove k) mw"
      by (simp_all add: edit_macros_def f_def)
    have "k \<le> length (sets (mw_macros ?mw))" using k unfolding m(1) by (simp add: macros_remove_def min_def)
    from Suc.IH [OF _ this] inv_remove [OF Suc.prems(1) k] m
    have "attached (fold f (rev [0..<k]) (mw_macros ?mw)) p =
        map_option (detach_ids (set_id ` {s \<in> set (take k (sets (mw_macros ?mw))). set_owner_of s \<in> purged}))
          (attached (macros_remove k ?m) p)" by simp
    moreover have "take k (sets (mw_macros ?mw)) = take k (sets ?m)" using k unfolding m(1) by (simp add: macros_remove_def)
    ultimately show ?thesis
      unfolding run using True
      by (simp add: attached_remove [OF Suc.prems(1) k] option.map_comp comp_def detach_ids_twice take
          Collect_disj_eq conj_disj_distribR Un_commute cong: conj_cong)
  next
    case False
    then have "?mw = mw" by (simp add: edit_macros_def f_def)
    moreover have "{s \<in> set (take (Suc k) (sets ?m)). set_owner_of s \<in> purged} =
        {s \<in> set (take k (sets ?m)). set_owner_of s \<in> purged}" using False by (auto simp: take)
    ultimately show ?thesis unfolding run using Suc.IH [OF Suc.prems(1)] k by simp
  qed
qed

text \<open>
  C14. Slots hold positions in the list of sets, yet removing a set or purging objects acts on
  identities: in every reachable state, removing a set detaches it from everyone's slots and leaves
  every other slot attached to the set it was attached to; purging removes exactly the sets of
  purged owners, in order, forgets exactly the slots of purged players, and detaches from the others
  exactly the sets that are gone.
\<close>

theorem removal_by_identity:
  assumes "macro_reachable plain mw" and "i < length (sets (mw_macros mw))"
  shows "attached (macros_remove i (mw_macros mw)) p =
           map_option (detach_ids {set_id (sets (mw_macros mw) ! i)}) (attached (mw_macros mw) p)
    \<and> sets (purge purged (mw_macros mw)) = filter (\<lambda>s. set_owner_of s \<notin> purged) (sets (mw_macros mw))
    \<and> attached (purge purged (mw_macros mw)) p =
        (if p \<in> purged then None
         else map_option (detach_ids (set_id ` {s \<in> set (sets (mw_macros mw)). set_owner_of s \<in> purged}))
                (attached (mw_macros mw) p))"
proof -
  let ?f = "\<lambda>i m. if set_owner_of (sets m ! i) \<in> purged then macros_remove i m else m"
  let ?m = "fold ?f (rev [0..<length (sets (mw_macros mw))]) (mw_macros mw)"
  have inv: "macro_inv mw" using assms(1) by (rule inv_reachable)
  have sets: "sets ?m = filter (\<lambda>s. set_owner_of s \<notin> purged) (sets (mw_macros mw))"
    and "macro_inv (edit_macros (fold ?f (rev [0..<length (sets (mw_macros mw))])) mw)"
    using purge_prefix [OF inv order_refl, of purged] by simp_all
  then have "bt_ok (players ?m)" by (simp add: macro_inv_def edit_macros_def)
  then have "bt_get (bt_retain (\<lambda>who _. who \<notin> purged) (players ?m)) p =
      (if p \<in> purged then None else bt_get (players ?m) p)"
    by (auto simp: bt_get_def bt_retain_def bt_ok_distinct map_of_filter_distinct split: option.splits)
  then have "attached (purge purged (mw_macros mw)) p = (if p \<in> purged then None else attached ?m p)"
    by (simp add: attached_def purge_def Let_def)
  moreover have "attached ?m p =
      map_option (detach_ids (set_id ` {s \<in> set (sets (mw_macros mw)). set_owner_of s \<in> purged})) (attached (mw_macros mw) p)"
    using attached_purge_prefix [OF inv order_refl, of purged] by simp
  moreover have "sets (purge purged (mw_macros mw)) = sets ?m" by (simp add: purge_def Let_def)
  ultimately show ?thesis using attached_remove [OF inv assms(2)] sets by simp
qed

theorem removal_by_identity_witness:
  "attached (macros_remove 0 (mw_macros sample_macros)) 4 = Some [Some 1, None, None, None, None]"
proof -
  have "0 < length (sets (mw_macros sample_macros))" by (simp add: sample_macros_def)
  from removal_by_identity [OF sample_reachable this] show ?thesis
    by (simp add: attached_def detach_ids_def sample_macros_def bt_get_def)
qed

section \<open>Expansion\<close>








end
