(* ===== verification/Shared_Map.thy ===== *)
theory Shared_Map
  imports BTree_Map
begin

text \<open>
  \<open>src/world/shared_map.rs\<close>: the copy-on-write ordered map behind world snapshots. A \<open>SharedMap\<close> is
  an \<open>Arc\<close> of an index, which holds one \<open>Arc\<close> per entry; the store makes both levels explicit.
  Allocations are addresses of two heaps that only grow; \<open>handles\<close> are the program's variables of
  type \<open>SharedMap\<close>, \<open>held\<close> the entries it was handed back. The strong count of an \<open>Arc\<close> is the number
  of live references to it. A closure that edits entries is a function on the entry's value.
\<close>

section \<open>The store\<close>

record ('k, 'v) arcs =
  handles :: "(nat, nat) btree"
  index_heap :: "('k, nat) btree list"
  value_heap :: "'v list"
  held :: "nat list"


definition addr :: "('k, 'v) arcs \<Rightarrow> nat \<Rightarrow> nat" where
  "addr st h = (case bt_get (handles st) h of Some a \<Rightarrow> a | None \<Rightarrow> 0)"

definition index_of :: "('k, 'v) arcs \<Rightarrow> nat \<Rightarrow> ('k, nat) btree" where
  "index_of st h = index_heap st ! addr st h"

definition strong_index :: "('k, 'v) arcs \<Rightarrow> nat \<Rightarrow> nat" where
  "strong_index st a = count_list (map snd (handles st)) a"

definition strong_value :: "('k, 'v) arcs \<Rightarrow> nat \<Rightarrow> nat" where
  "strong_value st a =
     sum_list (map (\<lambda>i. count_list (map snd (index_heap st ! i)) a) (remdups (map snd (handles st))))
     + count_list (held st) a"

text \<open>\<open>Arc::make_mut\<close> on the index of a handle, and on one entry of an index that is owned.\<close>

definition own_index :: "nat \<Rightarrow> ('k, 'v) arcs \<Rightarrow> ('k, 'v) arcs" where
  "own_index h st =
     (if strong_index st (addr st h) = 1 then st
      else st\<lparr>index_heap := index_heap st @ [index_of st h],
              handles := bt_insert h (length (index_heap st)) (handles st)\<rparr>)"

definition store_index :: "nat \<Rightarrow> ('k, nat) btree \<Rightarrow> ('k, 'v) arcs \<Rightarrow> ('k, 'v) arcs" where
  "store_index h m st = st\<lparr>index_heap := (index_heap st)[addr st h := m]\<rparr>"

definition write_entry :: "nat \<Rightarrow> 'k::linorder \<Rightarrow> ('v \<Rightarrow> 'v) \<Rightarrow> ('k, 'v) arcs \<Rightarrow> ('k, 'v) arcs" where
  "write_entry h k f st =
     (case bt_get (index_of st h) k of
        None \<Rightarrow> st
      | Some a \<Rightarrow>
          if strong_value st a = 1
          then st\<lparr>value_heap := (value_heap st)[a := f (value_heap st ! a)]\<rparr>
          else (store_index h (bt_insert k (length (value_heap st)) (index_of st h)) st)
                 \<lparr>value_heap := value_heap st @ [f (value_heap st ! a)]\<rparr>)"

section \<open>Operations\<close>

definition sm_new :: "nat \<Rightarrow> ('k, 'v) arcs \<Rightarrow> ('k, 'v) arcs" where
  "sm_new h st =
     st\<lparr>index_heap := index_heap st @ [[]], handles := bt_insert h (length (index_heap st)) (handles st)\<rparr>"

definition sm_clone :: "nat \<Rightarrow> nat \<Rightarrow> ('k, 'v) arcs \<Rightarrow> ('k, 'v) arcs" where
  "sm_clone h h' st = st\<lparr>handles := bt_insert h' (addr st h) (handles st)\<rparr>"

definition sm_drop :: "nat \<Rightarrow> ('k, 'v) arcs \<Rightarrow> ('k, 'v) arcs" where
  "sm_drop h st = st\<lparr>handles := bt_remove h (handles st)\<rparr>"

definition sm_release :: "nat \<Rightarrow> ('k, 'v) arcs \<Rightarrow> ('k, 'v) arcs" where
  "sm_release i st = st\<lparr>held := take i (held st) @ drop (Suc i) (held st)\<rparr>"

definition sm_iter :: "('k, 'v) arcs \<Rightarrow> nat \<Rightarrow> ('k, 'v) btree" where
  "sm_iter st h = map (\<lambda>(k, a). (k, value_heap st ! a)) (index_of st h)"

definition sm_get :: "('k::linorder, 'v) arcs \<Rightarrow> nat \<Rightarrow> 'k \<Rightarrow> 'v option" where
  "sm_get st h k = map_option (\<lambda>a. value_heap st ! a) (bt_get (index_of st h) k)"

definition sm_contains_key :: "('k::linorder, 'v) arcs \<Rightarrow> nat \<Rightarrow> 'k \<Rightarrow> bool" where
  "sm_contains_key st h k \<longleftrightarrow> bt_get (index_of st h) k \<noteq> None"

definition sm_shares_entry :: "('k::linorder, 'v) arcs \<Rightarrow> nat \<Rightarrow> nat \<Rightarrow> 'k \<Rightarrow> bool" where
  "sm_shares_entry st h h' k \<longleftrightarrow>
     (case (bt_get (index_of st h) k, bt_get (index_of st h') k) of
        (Some mine, Some theirs) \<Rightarrow> mine = theirs | _ \<Rightarrow> False)"

definition sm_ptr_eq :: "('k, 'v) arcs \<Rightarrow> nat \<Rightarrow> nat \<Rightarrow> bool" where
  "sm_ptr_eq st h h' \<longleftrightarrow> addr st h = addr st h'"

definition sm_eq :: "('k, 'v) arcs \<Rightarrow> nat \<Rightarrow> nat \<Rightarrow> bool" where
  "sm_eq st h h' \<longleftrightarrow>
     sm_ptr_eq st h h'
     \<or> (length (index_of st h) = length (index_of st h')
        \<and> list_all (\<lambda>((mine_key, mine), (their_key, theirs)).
              mine_key = their_key \<and> (mine = theirs \<or> value_heap st ! mine = value_heap st ! theirs))
            (zip (index_of st h) (index_of st h')))"

definition sm_get_mut :: "nat \<Rightarrow> 'k::linorder \<Rightarrow> ('v \<Rightarrow> 'v) \<Rightarrow> ('k, 'v) arcs \<Rightarrow> bool \<times> ('k, 'v) arcs" where
  "sm_get_mut h k f st =
     (if sm_contains_key st h k then (True, write_entry h k f (own_index h st)) else (False, st))"

definition sm_put :: "nat \<Rightarrow> 'k::linorder \<Rightarrow> 'v \<Rightarrow> ('k, 'v) arcs \<Rightarrow> ('k, 'v) arcs" where
  "sm_put h k v st =
     (store_index h (bt_insert k (length (value_heap st)) (index_of st h)) st)
       \<lparr>value_heap := value_heap st @ [v]\<rparr>"

definition sm_get_or_default ::
  "'v \<Rightarrow> nat \<Rightarrow> 'k::linorder \<Rightarrow> ('v \<Rightarrow> 'v) \<Rightarrow> ('k, 'v) arcs \<Rightarrow> ('k, 'v) arcs" where
  "sm_get_or_default d h k f st =
     (let st = own_index h st;
          st = (if sm_contains_key st h k then st else sm_put h k d st)
      in write_entry h k f st)"

definition sm_share_entry_from :: "nat \<Rightarrow> nat \<Rightarrow> 'k::linorder \<Rightarrow> ('k, 'v) arcs \<Rightarrow> ('k, 'v) arcs" where
  "sm_share_entry_from h source k st =
     (case bt_get (index_of st source) k of
        None \<Rightarrow> st
      | Some a \<Rightarrow> (let st = own_index h st in store_index h (bt_insert k a (index_of st h)) st))"

definition hand_back :: "nat option \<Rightarrow> ('k, 'v) arcs \<Rightarrow> ('k, 'v) arcs" where
  "hand_back prev st = (case prev of None \<Rightarrow> st | Some a \<Rightarrow> st\<lparr>held := a # held st\<rparr>)"

definition sm_insert :: "nat \<Rightarrow> 'k::linorder \<Rightarrow> 'v \<Rightarrow> ('k, 'v) arcs \<Rightarrow> nat option \<times> ('k, 'v) arcs" where
  "sm_insert h k v st =
     (let st = own_index h st; prev = bt_get (index_of st h) k
      in (prev, hand_back prev (sm_put h k v st)))"

definition sm_remove :: "nat \<Rightarrow> 'k::linorder \<Rightarrow> ('k, 'v) arcs \<Rightarrow> nat option \<times> ('k, 'v) arcs" where
  "sm_remove h k st =
     (if \<not> sm_contains_key st h k then (None, st)
      else (let st = own_index h st; prev = bt_get (index_of st h) k
            in (prev, hand_back prev (store_index h (bt_remove k (index_of st h)) st))))"

definition sm_clear :: "nat \<Rightarrow> ('k, 'v) arcs \<Rightarrow> ('k, 'v) arcs" where
  "sm_clear h st = sm_new h st"

definition sm_retain :: "nat \<Rightarrow> ('k::linorder \<Rightarrow> 'v \<Rightarrow> bool) \<Rightarrow> ('k, 'v) arcs \<Rightarrow> ('k, 'v) arcs" where
  "sm_retain h keep st =
     (let doomed = map fst (filter (\<lambda>(k, v). \<not> keep k v) (sm_iter st h))
      in if doomed = [] then st
         else (let st = own_index h st in store_index h (fold bt_remove doomed (index_of st h)) st))"

definition retain_entry ::
  "nat \<Rightarrow> ('k::linorder \<Rightarrow> 'v \<Rightarrow> bool \<times> 'v) \<Rightarrow> 'k \<Rightarrow> ('k, 'v) arcs \<Rightarrow> ('k, 'v) arcs" where
  "retain_entry h keep k st =
     (case sm_get st h k of
        None \<Rightarrow> st
      | Some v \<Rightarrow>
          (let st' = write_entry h k (\<lambda>v. snd (keep k v)) st
           in if fst (keep k v) then st' else store_index h (bt_remove k (index_of st' h)) st'))"

definition sm_retain_mut :: "nat \<Rightarrow> ('k::linorder \<Rightarrow> 'v \<Rightarrow> bool \<times> 'v) \<Rightarrow> ('k, 'v) arcs \<Rightarrow> ('k, 'v) arcs" where
  "sm_retain_mut h keep st =
     (let st = own_index h st in fold (retain_entry h keep) (map fst (index_of st h)) st)"

definition sm_iter_mut :: "nat \<Rightarrow> ('k::linorder \<Rightarrow> 'v \<Rightarrow> 'v) \<Rightarrow> ('k, 'v) arcs \<Rightarrow> ('k, 'v) arcs" where
  "sm_iter_mut h f st =
     (let st = own_index h st in fold (\<lambda>k. write_entry h k (f k)) (map fst (index_of st h)) st)"

definition sm_values_mut :: "nat \<Rightarrow> ('v \<Rightarrow> 'v) \<Rightarrow> ('k::linorder, 'v) arcs \<Rightarrow> ('k, 'v) arcs" where
  "sm_values_mut h f st =
     (let st = own_index h st in fold (\<lambda>k. write_entry h k f) (map fst (index_of st h)) st)"

definition sm_from_iter :: "nat \<Rightarrow> ('k::linorder \<times> 'v) list \<Rightarrow> ('k, 'v) arcs \<Rightarrow> ('k, 'v) arcs" where
  "sm_from_iter h entries st = fold (\<lambda>(k, v). sm_put h k v) entries (sm_new h st)"

definition sm_range :: "('k, 'v) arcs \<Rightarrow> nat \<Rightarrow> ('k \<Rightarrow> bool) \<Rightarrow> ('k, 'v) btree" where
  "sm_range st h within = filter (\<lambda>(k, v). within k) (sm_iter st h)"

definition sm_first_key_value :: "('k, 'v) arcs \<Rightarrow> nat \<Rightarrow> ('k \<times> 'v) option" where
  "sm_first_key_value st h = (case sm_iter st h of [] \<Rightarrow> None | e # _ \<Rightarrow> Some e)"

definition sm_last_key_value :: "('k, 'v) arcs \<Rightarrow> nat \<Rightarrow> ('k \<times> 'v) option" where
  "sm_last_key_value st h = (if sm_iter st h = [] then None else Some (last (sm_iter st h)))"

section \<open>Well-formed stores\<close>

definition index_ok :: "nat \<Rightarrow> ('k::linorder, nat) btree \<Rightarrow> bool" where
  "index_ok n m \<longleftrightarrow> bt_ok m \<and> (\<forall>a\<in>snd ` set m. a < n)"

definition arcs_ok :: "('k::linorder, 'v) arcs \<Rightarrow> bool" where
  "arcs_ok st \<longleftrightarrow>
     bt_ok (handles st) \<and> (\<forall>a\<in>snd ` set (handles st). a < length (index_heap st))
     \<and> (\<forall>m\<in>set (index_heap st). index_ok (length (value_heap st)) m)
     \<and> (\<forall>a\<in>set (held st). a < length (value_heap st))"

definition holds :: "('k, 'v) arcs \<Rightarrow> nat \<Rightarrow> bool" where
  "holds st h \<longleftrightarrow> h \<in> fst ` set (handles st)"

lemma holds_addr: "holds st h \<longleftrightarrow> bt_get (handles st) h = Some (addr st h)"
  by (cases "bt_get (handles st) h") (force simp: holds_def addr_def bt_get_def map_of_eq_None_iff dest: map_of_SomeD)+

lemma addr_simps [simp]:
  "addr (st\<lparr>index_heap := x\<rparr>) h = addr st h" "addr (st\<lparr>value_heap := y\<rparr>) h = addr st h"
  "addr (st\<lparr>held := z\<rparr>) h = addr st h"
  by (simp_all add: addr_def)

lemma holds_simps [simp]:
  "holds (st\<lparr>index_heap := x\<rparr>) h = holds st h" "holds (st\<lparr>value_heap := y\<rparr>) h = holds st h"
  "holds (st\<lparr>held := z\<rparr>) h = holds st h"
  by (simp_all add: holds_def)

lemma addr_less: "arcs_ok st \<Longrightarrow> holds st h \<Longrightarrow> addr st h < length (index_heap st)"
  using bt_get_in_set [of "handles st" h "addr st h"] by (force simp: arcs_ok_def holds_addr)

lemma index_of_ok: "arcs_ok st \<Longrightarrow> holds st h \<Longrightarrow> index_ok (length (value_heap st)) (index_of st h)"
  using addr_less [of st h] by (simp add: arcs_ok_def index_of_def)

definition owned :: "nat \<Rightarrow> ('k, 'v) arcs \<Rightarrow> bool" where
  "owned h st \<longleftrightarrow> (\<forall>h'. holds st h' \<longrightarrow> addr st h' = addr st h \<longrightarrow> h' = h)"

lemma count_unique:
  assumes "distinct (map fst xs)" and "(h, a) \<in> set xs" and "count_list (map snd xs) a = 1" and "(h', a) \<in> set xs"
  shows "h' = h"
proof -
  have "distinct (filter (\<lambda>x. snd x = a) xs)" using assms(1) by (simp add: distinct_map)
  then have "card (set (filter (\<lambda>x. snd x = a) xs)) = length (filter (\<lambda>x. snd x = a) xs)" by (rule distinct_card)
  moreover have "count_list (map snd xs) a = length (filter (\<lambda>x. snd x = a) xs)" by (induction xs) auto
  ultimately have c: "card {x \<in> set xs. snd x = a} = count_list (map snd xs) a" by (simp add: conj_commute)
  then have "card {x \<in> set xs. snd x = a} = Suc 0" using assms(3) by simp
  then obtain x where "{x \<in> set xs. snd x = a} = {x}" by (auto simp: card_1_singleton_iff)
  moreover have "(h, a) \<in> {x \<in> set xs. snd x = a}" "(h', a) \<in> {x \<in> set xs. snd x = a}" using assms(2,4) by auto
  ultimately have "(h, a) = x" "(h', a) = x" by simp_all
  then show ?thesis by auto
qed

lemma strong_index_owned:
  assumes "arcs_ok st" and "holds st h" and "strong_index st (addr st h) = 1"
  shows "owned h st"
proof -
  have ok: "bt_ok (handles st)" using assms(1) by (simp add: arcs_ok_def)
  then show ?thesis
    using assms(2,3) count_unique [OF bt_ok_distinct [OF ok], of h "addr st h"]
    by (auto simp: owned_def holds_addr strong_index_def bt_get_in_set [OF ok])
qed

text \<open>A step that only touches what one handle sees.\<close>

definition only_at :: "nat \<Rightarrow> ('k::linorder, 'v) arcs \<Rightarrow> ('k, 'v) arcs \<Rightarrow> bool" where
  "only_at h st st' \<longleftrightarrow>
     arcs_ok st' \<and> (\<forall>h'. holds st' h' \<longleftrightarrow> holds st h')
     \<and> (\<forall>h'. h' \<noteq> h \<longrightarrow> holds st h' \<longrightarrow> sm_iter st' h' = sm_iter st h')
     \<and> (\<forall>a\<in>set (held st). value_heap st' ! a = value_heap st ! a)
     \<and> length (value_heap st) \<le> length (value_heap st')"

lemma only_at_refl: "arcs_ok st \<Longrightarrow> only_at h st st"
  by (simp add: only_at_def)

lemma only_at_trans:
  "only_at h st st' \<Longrightarrow> only_at h st' st'' \<Longrightarrow> set (held st) \<subseteq> set (held st') \<Longrightarrow> only_at h st st''"
  by (auto simp: only_at_def)

lemma own_index:
  assumes ok: "arcs_ok st" and h: "holds st h"
  shows "only_at h st (own_index h st)" and "owned h (own_index h st)"
    and "sm_iter (own_index h st) h = sm_iter st h" and "index_of (own_index h st) h = index_of st h"
    and "value_heap (own_index h st) = value_heap st" and "held (own_index h st) = held st"
proof -
  let ?n = "length (index_heap st)"
  have H: "bt_ok (handles st)" using ok by (simp add: arcs_ok_def)
  obtain m where m: "index_of st h = m" by simp
  let ?st = "st\<lparr>index_heap := index_heap st @ [m], handles := bt_insert h ?n (handles st)\<rparr>"
  have a: "addr ?st h' = (if h' = h then ?n else addr st h')" for h'
    by (simp add: addr_def bt.get_insert [OF H])
  have l: "holds ?st h' \<longleftrightarrow> holds st h'" for h'
    using h by (auto simp: holds_def keys_bt_insert)
  have i: "index_of ?st h' = index_of st h'" if "holds st h'" for h'
    using addr_less [OF ok that] m by (auto simp: index_of_def a nth_append)
  have "owned h ?st" using addr_less [OF ok] by (force simp: owned_def a l)
  moreover have "arcs_ok ?st"
    using ok index_of_ok [OF ok h] m by (auto simp: arcs_ok_def bt.ok_insert set_bt_insert less_Suc_eq)
  moreover have "sm_iter ?st h' = sm_iter st h'" if "holds st h'" for h' using i [OF that] by (simp add: sm_iter_def)
  ultimately show "only_at h st (own_index h st)" "owned h (own_index h st)"
      "sm_iter (own_index h st) h = sm_iter st h" "index_of (own_index h st) h = index_of st h"
      "value_heap (own_index h st) = value_heap st" "held (own_index h st) = held st"
    using strong_index_owned [OF ok h] only_at_refl [OF ok] h i l m by (auto simp: own_index_def only_at_def)
qed

lemma store_index:
  assumes ok: "arcs_ok st" and h: "holds st h" and own: "owned h st" and m: "index_ok (length (value_heap st)) m"
  shows "only_at h st (store_index h m st)" and "owned h (store_index h m st)" and "index_of (store_index h m st) h = m"
    and "sm_iter (store_index h m st) h = map (\<lambda>(k, a). (k, value_heap st ! a)) m"
proof -
  have a: "addr (store_index h m st) h' = addr st h'" for h' by (simp add: store_index_def)
  have l: "holds (store_index h m st) h' = holds st h'" for h' by (simp add: store_index_def)
  have i: "index_of (store_index h m st) h' = (if h' = h then m else index_of st h')" if "holds st h'" for h'
    using addr_less [OF ok h] own that by (auto simp: index_of_def store_index_def owned_def)
  have "arcs_ok (store_index h m st)"
    using ok m set_update_subset_insert [of "index_heap st" "addr st h" m] by (auto simp: arcs_ok_def store_index_def)
  then show "only_at h st (store_index h m st)" by (auto simp: only_at_def l i sm_iter_def) (simp_all add: store_index_def)
  show "owned h (store_index h m st)" using own by (simp add: owned_def a l)
  show "index_of (store_index h m st) h = m" using i [OF h] by simp
  then show "sm_iter (store_index h m st) h = map (\<lambda>(k, a). (k, value_heap st ! a)) m"
    by (simp add: sm_iter_def) (simp add: store_index_def)
qed

lemma strong_value_unique:
  assumes h: "holds st h" and k: "(k, a) \<in> set (index_of st h)" and d: "bt_ok (index_of st h)"
    and one: "strong_value st a = 1"
  shows "a \<notin> set (held st)" and "\<And>h'. holds st h' \<Longrightarrow> addr st h' \<noteq> addr st h \<Longrightarrow> a \<notin> snd ` set (index_of st h')"
    and "\<And>k'. (k', a) \<in> set (index_of st h) \<Longrightarrow> k' = k"
proof -
  let ?is = "remdups (map snd (handles st))"
  let ?c = "\<lambda>i. count_list (map snd (index_heap st ! i)) a"
  have mem: "addr st h' \<in> set ?is" if "holds st h'" for h'
    using that by (force simp: holds_addr bt_get_def dest: map_of_SomeD)
  have split: "sum_list (map ?c ?is) = ?c (addr st h) + sum_list (map ?c (remove1 (addr st h) ?is))"
    using mem [OF h] by (simp only: sum_list_map_remove1)
  have "a \<in> set (map snd (index_of st h))" using k by force
  then have "?c (addr st h) \<noteq> 0" by (simp add: index_of_def count_list_0_iff)
  with one split have here: "?c (addr st h) = 1" and rest: "sum_list (map ?c (remove1 (addr st h) ?is)) = 0"
    and none: "count_list (held st) a = 0" unfolding strong_value_def by linarith+
  show "a \<notin> set (held st)" using none by (simp add: count_list_0_iff)
  show "a \<notin> snd ` set (index_of st h')" if "holds st h'" "addr st h' \<noteq> addr st h" for h'
  proof -
    have "addr st h' \<in> set (remove1 (addr st h) ?is)" using mem [OF that(1)] that(2) by simp
    then have "?c (addr st h') = 0" using rest by (simp only: sum_list_eq_0_iff set_map) blast
    then show ?thesis by (simp add: index_of_def count_list_0_iff)
  qed
  show "k' = k" if "(k', a) \<in> set (index_of st h)" for k'
    using count_unique [OF bt_ok_distinct [OF d] k _ that] here by (simp add: index_of_def)
qed

definition with_values :: "'v list \<Rightarrow> ('k, nat) btree \<Rightarrow> ('k, 'v) btree" where
  "with_values vs m = map (\<lambda>(k, a). (k, vs ! a)) m"

lemma sm_iter_with_values: "sm_iter st h = with_values (value_heap st) (index_of st h)"
  by (simp add: sm_iter_def with_values_def)

lemma with_values_append: "index_ok (length vs) m \<Longrightarrow> with_values (vs @ ws) m = with_values vs m"
  by (fastforce simp: with_values_def index_ok_def nth_append)

lemma with_values_insert: "with_values vs (bt_insert k a m) = bt_insert k (vs ! a) (with_values vs m)"
  by (induction k a m rule: bt_insert.induct) (simp_all add: with_values_def)

lemma with_values_update: "a \<notin> snd ` set m \<Longrightarrow> with_values (vs[a := x]) m = with_values vs m"
  by (induction m) (auto simp: with_values_def)

lemma keys_with_values: "map fst (with_values vs m) = map fst m"
  by (simp add: with_values_def comp_def split_beta)

lemma index_ok_insert: "index_ok n m \<Longrightarrow> a < n' \<Longrightarrow> n \<le> n' \<Longrightarrow> index_ok n' (bt_insert k a m)"
  using set_bt_insert_subset [of k a m] by (fastforce simp: index_ok_def bt.ok_insert)

lemma only_at_grow:
  assumes ok: "arcs_ok st"
  shows "only_at h st (st\<lparr>value_heap := value_heap st @ vs\<rparr>)"
    and "holds st h \<Longrightarrow> sm_iter (st\<lparr>value_heap := value_heap st @ vs\<rparr>) h = sm_iter st h"
proof -
  let ?st = "st\<lparr>value_heap := value_heap st @ vs\<rparr>"
  have i: "index_of ?st h' = index_of st h'" for h' by (simp add: index_of_def)
  have iter: "sm_iter ?st h' = sm_iter st h'" if "holds st h'" for h'
    using with_values_append [OF index_of_ok [OF ok that]] by (simp add: sm_iter_with_values i)
  have "arcs_ok ?st" using ok by (fastforce simp: arcs_ok_def index_ok_def)
  moreover have "(value_heap st @ vs) ! a = value_heap st ! a" if "a \<in> set (held st)" for a
    using ok that by (simp add: arcs_ok_def nth_append)
  ultimately show "only_at h st ?st" using iter by (auto simp: only_at_def)
  show "holds st h \<Longrightarrow> sm_iter ?st h = sm_iter st h" by (rule iter)
qed

lemma sm_put:
  assumes ok: "arcs_ok st" and h: "holds st h" and own: "owned h st"
  shows "only_at h st (sm_put h k v st)" and "owned h (sm_put h k v st)"
    and "sm_iter (sm_put h k v st) h = bt_insert k v (sm_iter st h)"
    and "held (sm_put h k v st) = held st" and "index_of (sm_put h k v st) h = bt_insert k (length (value_heap st)) (index_of st h)"
proof -
  let ?st = "st\<lparr>value_heap := value_heap st @ [v]\<rparr>" and ?m = "bt_insert k (length (value_heap st)) (index_of st h)"
  have put: "sm_put h k v st = store_index h ?m ?st" by (simp add: sm_put_def store_index_def)
  have g: "only_at h st ?st" "arcs_ok ?st" using only_at_grow(1) [OF ok] by (auto simp: only_at_def)
  have m: "index_ok (length (value_heap ?st)) ?m" using index_of_ok [OF ok h] by (auto intro: index_ok_insert)
  have own': "owned h ?st" using own by (simp add: owned_def)
  have h': "holds ?st h" using h by simp
  note set = store_index [OF g(2) h' own' m]
  show "only_at h st (sm_put h k v st)" unfolding put using only_at_trans [OF g(1) set(1)] by simp
  show "owned h (sm_put h k v st)" "index_of (sm_put h k v st) h = ?m" unfolding put by (fact set)+
  show "held (sm_put h k v st) = held st" by (simp add: sm_put_def store_index_def)
  have "with_values (value_heap st @ [v]) (index_of st h) = sm_iter st h"
    using with_values_append [OF index_of_ok [OF ok h], of "[v]"] by (simp add: sm_iter_with_values)
  then show "sm_iter (sm_put h k v st) h = bt_insert k v (sm_iter st h)"
    unfolding put set(4) with_values_def [symmetric] by (simp add: with_values_insert nth_append)
qed

lemma bt_insert_present:
  "bt_ok m \<Longrightarrow> (k, v0) \<in> set m \<Longrightarrow> bt_insert k v m = map (\<lambda>(k', v'). (k', if k' = k then v else v')) m"
proof (induction k v m rule: bt_insert.induct)
  case (2 k v k' v' m)
  have "map (\<lambda>(k'', v'). (k'', if k'' = k then v else v')) m = m" if "\<forall>x\<in>fst ` set m. k < x"
    using that by (intro map_idI) force
  then show ?case using 2 by (auto simp: bt_ok_Cons)
qed simp

text \<open>Editing one entry of an ordered map.\<close>

definition bt_edit :: "'k \<Rightarrow> ('v \<Rightarrow> 'v) \<Rightarrow> ('k, 'v) btree \<Rightarrow> ('k, 'v) btree" where
  "bt_edit k f m = map (\<lambda>(k', v). (k', if k' = k then f v else v)) m"

lemma keys_bt_edit: "map fst (bt_edit k f m) = map fst m"
  by (simp add: bt_edit_def comp_def split_beta)

lemma bt_edit_absent: "k \<notin> fst ` set m \<Longrightarrow> bt_edit k f m = m"
  by (force simp: bt_edit_def intro!: map_idI)

lemma bt_edit_insert: "bt_ok m \<Longrightarrow> (k, v) \<in> set m \<Longrightarrow> bt_edit k f m = bt_insert k (f v) m"
  by (auto simp: bt_insert_present bt_edit_def bt_ok_distinct dest: eq_key_imp_eq_value [OF bt_ok_distinct])

lemma write_entry:
  assumes ok: "arcs_ok st" and h: "holds st h" and own: "owned h st"
  shows "only_at h st (write_entry h k f st)" and "owned h (write_entry h k f st)"
    and "sm_iter (write_entry h k f st) h = bt_edit k f (sm_iter st h)"
    and "held (write_entry h k f st) = held st"
proof -
  have m: "index_ok (length (value_heap st)) (index_of st h)" using index_of_ok [OF ok h] .
  then have bt: "bt_ok (index_of st h)" by (simp add: index_ok_def)
  have "only_at h st (write_entry h k f st) \<and> owned h (write_entry h k f st)
      \<and> sm_iter (write_entry h k f st) h = bt_edit k f (sm_iter st h) \<and> held (write_entry h k f st) = held st"
  proof (cases "bt_get (index_of st h) k")
    case None
    then have "k \<notin> fst ` set (sm_iter st h)"
      by (force simp: bt_get_def map_of_eq_None_iff sm_iter_with_values with_values_def)
    then show ?thesis using None own only_at_refl [OF ok] by (simp add: write_entry_def bt_edit_absent)
  next
    case (Some a)
    then have k: "(k, a) \<in> set (index_of st h)" using bt by (simp add: bt_get_in_set)
    have kv: "(k, value_heap st ! a) \<in> set (sm_iter st h)"
      using k by (force simp: sm_iter_with_values with_values_def)
    have bt': "bt_ok (sm_iter st h)" using bt by (simp add: bt_ok_def sm_iter_with_values keys_with_values)
    show ?thesis
    proof (cases "strong_value st a = 1")
      case False
      then have "write_entry h k f st = sm_put h k (f (value_heap st ! a)) st"
        using Some by (simp add: write_entry_def sm_put_def)
      then show ?thesis using sm_put [OF ok h own] bt_edit_insert [OF bt' kv] by simp
    next
      case True
      let ?st = "st\<lparr>value_heap := (value_heap st)[a := f (value_heap st ! a)]\<rparr>"
      have w: "write_entry h k f st = ?st" using Some True by (simp add: write_entry_def)
      note u = strong_value_unique [OF h k bt True]
      have i: "index_of ?st h' = index_of st h'" for h' by (simp add: index_of_def)
      have other: "sm_iter ?st h' = sm_iter st h'" if "h' \<noteq> h" "holds st h'" for h'
      proof -
        have "addr st h' \<noteq> addr st h" using own that by (auto simp: owned_def)
        then show ?thesis
          using with_values_update [OF u(2) [OF that(2)]] by (simp add: sm_iter_with_values i)
      qed
      have a: "a < length (value_heap st)" using m k by (force simp: index_ok_def)
      have e: "(k, b) \<in> set (index_of st h) \<Longrightarrow> b = a" for b
        using eq_key_imp_eq_value [OF bt_ok_distinct [OF bt] k] by simp
      have "sm_iter ?st h = bt_edit k f (sm_iter st h)"
        using a by (auto simp: sm_iter_with_values i with_values_def bt_edit_def nth_list_update dest: u(3) e)
      moreover have "arcs_ok ?st" using ok by (simp add: arcs_ok_def)
      moreover have "(value_heap st)[a := x] ! b = value_heap st ! b" if "b \<in> set (held st)" for b x
        using u(1) that by (metis nth_list_update_neq)
      ultimately show ?thesis unfolding w using other own by (auto simp: only_at_def owned_def)
    qed
  qed
  then show "only_at h st (write_entry h k f st)" "owned h (write_entry h k f st)"
    "sm_iter (write_entry h k f st) h = bt_edit k f (sm_iter st h)" "held (write_entry h k f st) = held st" by simp_all
qed

section \<open>Folding over the entries\<close>

text \<open>A state in which a handle owns its index, and what one step makes of it.\<close>

definition owner_step :: "nat \<Rightarrow> ('k::linorder, 'v) arcs \<Rightarrow> ('k, 'v) arcs \<Rightarrow> ('k, 'v) btree \<Rightarrow> bool" where
  "owner_step h st st' x \<longleftrightarrow> only_at h st st' \<and> owned h st' \<and> held st' = held st \<and> sm_iter st' h = x"

lemma owner_step_trans:
  "owner_step h st st' x \<Longrightarrow> owner_step h st' st'' y \<Longrightarrow> owner_step h st st'' y"
  using only_at_trans by (fastforce simp: owner_step_def)

lemma owner_step_refl: "arcs_ok st \<Longrightarrow> owned h st \<Longrightarrow> owner_step h st st (sm_iter st h)"
  by (simp add: owner_step_def only_at_refl)

lemma owner_step_fold:
  assumes "\<And>k st. arcs_ok st \<Longrightarrow> holds st h \<Longrightarrow> owned h st \<Longrightarrow> owner_step h st (g k st) (g' k (sm_iter st h))"
    and "arcs_ok st" and "holds st h" and "owned h st"
  shows "owner_step h st (fold g ks st) (fold g' ks (sm_iter st h))"
  using assms(2-4)
proof (induction ks arbitrary: st)
  case Nil
  then show ?case by (simp add: owner_step_refl)
next
  case (Cons k ks)
  have 1: "owner_step h st (g k st) (g' k (sm_iter st h))" using assms(1) [OF Cons.prems] .
  then have "arcs_ok (g k st)" "holds (g k st) h" "owned h (g k st)" "sm_iter (g k st) h = g' k (sm_iter st h)"
    using Cons.prems by (auto simp: owner_step_def only_at_def)
  with owner_step_trans [OF 1 Cons.IH] show ?case by simp
qed

lemma write_owner_step:
  "arcs_ok st \<Longrightarrow> holds st h \<Longrightarrow> owned h st \<Longrightarrow> owner_step h st (write_entry h k f st) (bt_edit k f (sm_iter st h))"
  by (simp add: owner_step_def write_entry)

lemma own_owner_step: "arcs_ok st \<Longrightarrow> holds st h \<Longrightarrow> owner_step h st (own_index h st) (sm_iter st h)"
  by (simp add: owner_step_def own_index)

lemma set_owner_step:
  assumes "arcs_ok st" and "holds st h" and "owned h st" and "index_ok (length (value_heap st)) m"
  shows "owner_step h st (store_index h m st) (with_values (value_heap st) m)"
  using store_index [OF assms] by (simp add: owner_step_def with_values_def) (simp add: store_index_def)

lemma index_ok_remove: "index_ok n m \<Longrightarrow> index_ok n (bt_remove k m)"
  using bt.ok_remove [of m k] by (force simp: index_ok_def bt_remove_def)

lemma with_values_remove: "with_values vs (bt_remove k m) = bt_remove k (with_values vs m)"
  by (simp add: with_values_def bt_remove_def filter_map comp_def split_beta)

lemma fold_bt_edit:
  "distinct ks \<Longrightarrow> fold (\<lambda>k. bt_edit k (f k)) ks x = map (\<lambda>(k, v). (k, if k \<in> set ks then f k v else v)) x"
proof (induction ks arbitrary: x)
  case (Cons k ks)
  then show ?case by (auto simp: bt_edit_def)
qed auto

definition bt_retain_entry :: "('k::linorder \<Rightarrow> 'v \<Rightarrow> bool \<times> 'v) \<Rightarrow> 'k \<Rightarrow> ('k, 'v) btree \<Rightarrow> ('k, 'v) btree" where
  "bt_retain_entry keep k x =
     (case bt_get x k of
        None \<Rightarrow> x
      | Some v \<Rightarrow> if fst (keep k v) then bt_edit k (\<lambda>v. snd (keep k v)) x else bt_remove k x)"

definition bt_retain_mut :: "('k \<Rightarrow> 'v \<Rightarrow> bool \<times> 'v) \<Rightarrow> ('k, 'v) btree \<Rightarrow> ('k, 'v) btree" where
  "bt_retain_mut keep x = map (\<lambda>(k, v). (k, snd (keep k v))) (filter (\<lambda>(k, v). fst (keep k v)) x)"

lemma bt_retain_entry_split:
  assumes "distinct (map fst (xs @ (k, v) # ys))"
  shows "bt_retain_entry keep k (xs @ (k, v) # ys) =
    xs @ (if fst (keep k v) then [(k, snd (keep k v))] else []) @ ys"
proof -
  have k: "k \<notin> fst ` set xs" "k \<notin> fst ` set ys" using assms by auto
  then have "filter (\<lambda>e. fst e \<noteq> k) xs = xs" "filter (\<lambda>e. fst e \<noteq> k) ys = ys"
    by (auto simp: filter_id_conv)
  then have "bt_remove k (xs @ (k, v) # ys) = xs @ ys" by (simp add: bt_remove_def)
  moreover have "bt_edit k f (xs @ (k, v) # ys) = xs @ (k, f v) # ys" for f
    using k bt_edit_absent [of k xs f] bt_edit_absent [of k ys f] by (simp add: bt_edit_def)
  moreover have "bt_get (xs @ (k, v) # ys) k = Some v"
    using k by (simp add: bt_get_def map_add_Some_iff map_of_eq_None_iff map_of_append)
  ultimately show ?thesis by (simp add: bt_retain_entry_def)
qed

lemma fold_bt_retain_entry:
  "distinct (map fst (xs @ ys)) \<Longrightarrow>
   fold (bt_retain_entry keep) (map fst ys) (xs @ ys) = xs @ bt_retain_mut keep ys"
proof (induction ys arbitrary: xs)
  case (Cons e ys)
  obtain k v where e: "e = (k, v)" by (cases e)
  let ?mid = "if fst (keep k v) then [(k, snd (keep k v))] else []"
  have "distinct (map fst ((xs @ ?mid) @ ys))" using Cons.prems e by auto
  from Cons.IH [OF this] show ?case
    using Cons.prems e bt_retain_entry_split [of xs k v ys keep] by (simp add: bt_retain_mut_def)
qed (simp add: bt_retain_mut_def)

lemma retain_entry_step:
  assumes "arcs_ok st" and "holds st h" and "owned h st"
  shows "owner_step h st (retain_entry h keep k st) (bt_retain_entry keep k (sm_iter st h))"
proof -
  have get: "sm_get st h k = bt_get (sm_iter st h) k"
    by (simp add: sm_get_def sm_iter_def bt_get_def map_of_map comp_def)
  let ?st = "write_entry h k (\<lambda>v. snd (keep k v)) st"
  have w: "owner_step h st ?st (bt_edit k (\<lambda>v. snd (keep k v)) (sm_iter st h))"
    using assms by (rule write_owner_step)
  then have ok: "arcs_ok ?st" "holds ?st h" "owned h ?st" using assms by (auto simp: owner_step_def only_at_def)
  have "owner_step h ?st (store_index h (bt_remove k (index_of ?st h)) ?st) (bt_remove k (sm_iter ?st h))"
    using set_owner_step [OF ok index_ok_remove [OF index_of_ok [OF ok(1,2)]]]
    by (simp add: with_values_remove sm_iter_with_values)
  moreover have "bt_remove k (sm_iter ?st h) = bt_remove k (sm_iter st h)"
    using w by (auto simp: owner_step_def bt_edit_def bt_remove_def filter_map comp_def split_beta intro!: map_idI)
  ultimately have "owner_step h st (store_index h (bt_remove k (index_of ?st h)) ?st) (bt_remove k (sm_iter st h))"
    using owner_step_trans [OF w] by simp
  then show ?thesis
    using w owner_step_refl [OF assms(1,3)]
    by (simp add: retain_entry_def bt_retain_entry_def get Let_def split: option.split)
qed

section \<open>Snapshots are values\<close>

datatype ('k, 'v) map_command =
    New nat | Clone nat nat | Drop nat | Release nat
  | Insert nat 'k 'v | Remove nat 'k | Get_Mut nat 'k "'v \<Rightarrow> 'v" | Get_Or_Default nat 'k "'v \<Rightarrow> 'v"
  | Share_From nat nat 'k | Clear nat | Retain nat "'k \<Rightarrow> 'v \<Rightarrow> bool" | Retain_Mut nat "'k \<Rightarrow> 'v \<Rightarrow> bool \<times> 'v"
  | Iter_Mut nat "'k \<Rightarrow> 'v \<Rightarrow> 'v" | Values_Mut nat "'v \<Rightarrow> 'v" | From_Iter nat "('k \<times> 'v) list"

datatype 'v map_reply = Done | Previous "'v option" | Present bool

text \<open>A command on a variable that is not in scope does not type check; it is skipped here.\<close>

definition on_live :: "nat \<Rightarrow> (('k, 'v) arcs \<Rightarrow> 'v map_reply \<times> ('k, 'v) arcs) \<Rightarrow> ('k, 'v) arcs \<Rightarrow> 'v map_reply \<times> ('k, 'v) arcs" where
  "on_live h f st = (if holds st h then f st else (Done, st))"

definition previous :: "nat option \<times> ('k, 'v) arcs \<Rightarrow> 'v map_reply \<times> ('k, 'v) arcs" where
  "previous r = (Previous (map_option (\<lambda>a. value_heap (snd r) ! a) (fst r)), snd r)"

fun run_command :: "'v \<Rightarrow> ('k::linorder, 'v) map_command \<Rightarrow> ('k, 'v) arcs \<Rightarrow> 'v map_reply \<times> ('k, 'v) arcs" where
  "run_command d (New h) st = (Done, sm_new h st)"
| "run_command d (Clone h h') st = on_live h (\<lambda>st. (Done, sm_clone h h' st)) st"
| "run_command d (Drop h) st = (Done, sm_drop h st)"
| "run_command d (Release i) st = (Done, sm_release i st)"
| "run_command d (Insert h k v) st = on_live h (\<lambda>st. previous (sm_insert h k v st)) st"
| "run_command d (Remove h k) st = on_live h (\<lambda>st. previous (sm_remove h k st)) st"
| "run_command d (Get_Mut h k f) st = on_live h (\<lambda>st. map_prod Present id (sm_get_mut h k f st)) st"
| "run_command d (Get_Or_Default h k f) st = on_live h (\<lambda>st. (Done, sm_get_or_default d h k f st)) st"
| "run_command d (Share_From h s k) st =
     on_live h (on_live s (\<lambda>st. (Done, sm_share_entry_from h s k st))) st"
| "run_command d (Clear h) st = on_live h (\<lambda>st. (Done, sm_clear h st)) st"
| "run_command d (Retain h P) st = on_live h (\<lambda>st. (Done, sm_retain h P st)) st"
| "run_command d (Retain_Mut h f) st = on_live h (\<lambda>st. (Done, sm_retain_mut h f st)) st"
| "run_command d (Iter_Mut h f) st = on_live h (\<lambda>st. (Done, sm_iter_mut h f st)) st"
| "run_command d (Values_Mut h f) st = on_live h (\<lambda>st. (Done, sm_values_mut h f st)) st"
| "run_command d (From_Iter h es) st = (Done, sm_from_iter h es st)"

text \<open>The abstract machine: every variable holds its own \<open>BTreeMap\<close>, and a clone copies it.\<close>

type_synonym ('k, 'v) plain_maps = "nat \<Rightarrow> ('k, 'v) btree option"

definition on_map_of :: "nat \<Rightarrow> (('k, 'v) btree \<Rightarrow> 'v map_reply \<times> ('k, 'v) btree) \<Rightarrow> ('k, 'v) plain_maps \<Rightarrow> 'v map_reply \<times> ('k, 'v) plain_maps" where
  "on_map_of h f ms =
     (case ms h of None \<Rightarrow> (Done, ms) | Some x \<Rightarrow> (case f x of (r, y) \<Rightarrow> (r, ms(h \<mapsto> y))))"

fun spec_command :: "'v \<Rightarrow> ('k::linorder, 'v) map_command \<Rightarrow> ('k, 'v) plain_maps \<Rightarrow> 'v map_reply \<times> ('k, 'v) plain_maps" where
  "spec_command d (New h) ms = (Done, ms(h \<mapsto> []))"
| "spec_command d (Clone h h') ms = (case ms h of None \<Rightarrow> (Done, ms) | Some x \<Rightarrow> (Done, ms(h' \<mapsto> x)))"
| "spec_command d (Drop h) ms = (Done, ms(h := None))"
| "spec_command d (Release i) ms = (Done, ms)"
| "spec_command d (Insert h k v) ms = on_map_of h (\<lambda>x. (Previous (bt_get x k), bt_insert k v x)) ms"
| "spec_command d (Remove h k) ms = on_map_of h (\<lambda>x. (Previous (bt_get x k), bt_remove k x)) ms"
| "spec_command d (Get_Mut h k f) ms = on_map_of h (\<lambda>x. (Present (bt_get x k \<noteq> None), bt_edit k f x)) ms"
| "spec_command d (Get_Or_Default h k f) ms =
     on_map_of h (\<lambda>x. (Done, bt_edit k f (if bt_get x k = None then bt_insert k d x else x))) ms"
| "spec_command d (Share_From h s k) ms =
     (case ms s of
        None \<Rightarrow> (Done, ms)
      | Some y \<Rightarrow> on_map_of h (\<lambda>x. (Done, case bt_get y k of None \<Rightarrow> x | Some v \<Rightarrow> bt_insert k v x)) ms)"
| "spec_command d (Clear h) ms = on_map_of h (\<lambda>x. (Done, [])) ms"
| "spec_command d (Retain h P) ms = on_map_of h (\<lambda>x. (Done, bt_retain P x)) ms"
| "spec_command d (Retain_Mut h f) ms = on_map_of h (\<lambda>x. (Done, bt_retain_mut f x)) ms"
| "spec_command d (Iter_Mut h f) ms = on_map_of h (\<lambda>x. (Done, map (\<lambda>(k, v). (k, f k v)) x)) ms"
| "spec_command d (Values_Mut h f) ms = on_map_of h (\<lambda>x. (Done, map (\<lambda>(k, v). (k, f v)) x)) ms"
| "spec_command d (From_Iter h es) ms = (Done, ms(h \<mapsto> fold (\<lambda>(k, v). bt_insert k v) es []))"



definition views :: "('k, 'v) arcs \<Rightarrow> ('k, 'v) plain_maps" where
  "views st h = (if holds st h then Some (sm_iter st h) else None)"

lemma views_only_at:
  assumes "only_at h st st'" and "holds st h"
  shows "views st' = (views st)(h \<mapsto> sm_iter st' h)"
  using assms by (auto simp: views_def only_at_def fun_eq_iff)

text \<open>What a step has to show to implement a step of the abstract machine.\<close>

definition implements ::
  "('k::linorder, 'v) arcs \<Rightarrow> 'v map_reply \<times> ('k, 'v) arcs \<Rightarrow> 'v map_reply \<times> ('k, 'v) plain_maps \<Rightarrow> bool" where
  "implements st res spec \<longleftrightarrow> arcs_ok (snd res) \<and> fst res = fst spec \<and> views (snd res) = snd spec"

lemma implements_at:
  assumes "\<And>st. arcs_ok st \<Longrightarrow> holds st h \<Longrightarrow>
      only_at h st (snd (f st)) \<and> (fst (f st), sm_iter (snd (f st)) h) = g (sm_iter st h)"
    and "arcs_ok st"
  shows "implements st (on_live h f st) (on_map_of h g (views st))"
proof (cases "holds st h")
  case True
  have f: "only_at h st (snd (f st))" "(fst (f st), sm_iter (snd (f st)) h) = g (sm_iter st h)"
    using assms(1) [OF assms(2) True] by auto
  have "views (snd (f st)) = (views st)(h \<mapsto> sm_iter (snd (f st)) h)" using views_only_at [OF f(1) True] .
  then show ?thesis
    using True f by (auto simp: implements_def on_live_def on_map_of_def only_at_def views_def split_beta dest: sym)
qed (use assms(2) in \<open>simp add: implements_def on_live_def on_map_of_def views_def\<close>)

lemma implements_owner:
  assumes "\<And>st. arcs_ok st \<Longrightarrow> holds st h \<Longrightarrow> owner_step h st (f st) (g (sm_iter st h))" and "arcs_ok st"
  shows "implements st (on_live h (\<lambda>st. (Done, f st)) st) (on_map_of h (\<lambda>x. (Done, g x)) (views st))"
  using assms by (intro implements_at) (auto simp: owner_step_def)

lemma own_then:
  assumes ok: "arcs_ok st" and h: "holds st h"
    and "\<And>st. arcs_ok st \<Longrightarrow> holds st h \<Longrightarrow> owned h st \<Longrightarrow> owner_step h st (f st) (g (sm_iter st h))"
  shows "owner_step h st (f (own_index h st)) (g (sm_iter st h))"
proof -
  have o: "owner_step h st (own_index h st) (sm_iter st h)" using ok h by (rule own_owner_step)
  then have "arcs_ok (own_index h st)" "holds (own_index h st) h" "owned h (own_index h st)"
    "sm_iter (own_index h st) h = sm_iter st h" using h by (auto simp: owner_step_def only_at_def)
  then show ?thesis using owner_step_trans [OF o assms(3)] by simp
qed

lemma put_owner_step:
  "arcs_ok st \<Longrightarrow> holds st h \<Longrightarrow> owned h st \<Longrightarrow> owner_step h st (sm_put h k v st) (bt_insert k v (sm_iter st h))"
  by (simp add: owner_step_def sm_put)

lemma contains_iter: "sm_contains_key st h k \<longleftrightarrow> bt_get (sm_iter st h) k \<noteq> None"
  by (simp add: sm_contains_key_def sm_iter_def bt_get_def map_of_map)

lemma keys_index_of: "map fst (index_of st h) = map fst (sm_iter st h)"
  by (simp add: sm_iter_with_values keys_with_values)

lemma iter_ok: "arcs_ok st \<Longrightarrow> holds st h \<Longrightarrow> bt_ok (sm_iter st h)"
  using index_of_ok [of st h] by (simp add: bt_ok_def keys_index_of [symmetric] index_ok_def)

lemma iter_mut_step:
  assumes "arcs_ok st" and "holds st h"
  shows "owner_step h st (fold (\<lambda>k. write_entry h k (f k)) (map fst (index_of (own_index h st) h)) (own_index h st))
    (map (\<lambda>(k, v). (k, f k v)) (sm_iter st h))"
proof -
  let ?ks = "map fst (sm_iter st h)"
  have "owner_step h st (fold (\<lambda>k. write_entry h k (f k)) ?ks (own_index h st))
      (fold (\<lambda>k. bt_edit k (f k)) ?ks (sm_iter st h))"
    using assms by (rule own_then) (rule owner_step_fold [OF write_owner_step])
  moreover have "fold (\<lambda>k. bt_edit k (f k)) ?ks (sm_iter st h) = map (\<lambda>(k, v). (k, f k v)) (sm_iter st h)"
    using bt_ok_distinct [OF iter_ok [OF assms]] by (auto simp: fold_bt_edit rev_image_eqI)
  ultimately show ?thesis by (simp add: own_index(4) [OF assms] keys_index_of)
qed

lemma retain_mut_step:
  assumes "arcs_ok st" and "holds st h"
  shows "owner_step h st (sm_retain_mut h keep st) (bt_retain_mut keep (sm_iter st h))"
proof -
  let ?ks = "map fst (sm_iter st h)"
  have "owner_step h st (fold (retain_entry h keep) ?ks (own_index h st))
      (fold (bt_retain_entry keep) ?ks (sm_iter st h))"
    using assms by (rule own_then) (rule owner_step_fold [OF retain_entry_step])
  then show ?thesis
    using fold_bt_retain_entry [of "[]" "sm_iter st h" keep] bt_ok_distinct [OF iter_ok [OF assms]]
    by (simp add: sm_retain_mut_def Let_def own_index(3) [OF assms] keys_index_of)
qed

lemma fold_bt_remove: "fold bt_remove ks m = filter (\<lambda>e. fst e \<notin> set ks) m"
  by (induction ks arbitrary: m) (auto simp: bt_remove_def intro: filter_cong)

lemma retain_step:
  fixes st :: "('k::linorder, 'v) arcs"
  assumes "arcs_ok st" and "holds st h"
  shows "only_at h st (sm_retain h P st) \<and> sm_iter (sm_retain h P st) h = bt_retain P (sm_iter st h)"
proof -
  let ?x = "sm_iter st h" and ?doomed = "map fst (filter (\<lambda>(k, v). \<not> P k v) (sm_iter st h))"
  have d: "distinct (map fst ?x)" using bt_ok_distinct [OF iter_ok [OF assms]] .
  have keep: "filter (\<lambda>e. fst e \<notin> set ?doomed) ?x = bt_retain P ?x"
    unfolding bt_retain_def by (rule filter_cong) (auto dest: eq_key_imp_eq_value [OF d])
  show ?thesis
  proof (cases "?doomed = []")
    case True
    then have "bt_retain P ?x = ?x" using keep by simp
    then show ?thesis using True only_at_refl [OF assms(1)] by (simp add: sm_retain_def)
  next
    case False
    define ks where "ks = ?doomed"
    let ?f = "\<lambda>st. store_index h (fold bt_remove ks (index_of st h)) st"
    have "owner_step h st (?f (own_index h st)) (filter (\<lambda>e. fst e \<notin> set ks) (sm_iter st h))"
    proof (rule own_then [OF assms])
      fix st' :: "('k, 'v) arcs"
      assume ok: "arcs_ok st'" "holds st' h" "owned h st'"
      have "index_ok (length (value_heap st')) (fold bt_remove ks (index_of st' h))"
        using index_of_ok [OF ok(1,2)] by (force simp: fold_bt_remove index_ok_def bt_ok_filter)
      from set_owner_step [OF ok this]
      show "owner_step h st' (?f st') (filter (\<lambda>e. fst e \<notin> set ks) (sm_iter st' h))"
        by (simp add: fold_bt_remove sm_iter_with_values with_values_def filter_map comp_def split_beta)
    qed
    then show ?thesis using False keep by (simp add: sm_retain_def Let_def owner_step_def ks_def)
  qed
qed

lemma hand_back_step:
  assumes "owner_step h st st' x" and "\<forall>a. prev = Some a \<longrightarrow> a < length (value_heap st')"
  shows "only_at h st (hand_back prev st') \<and> sm_iter (hand_back prev st') h = x"
proof -
  have iter: "sm_iter (hand_back prev st') h' = sm_iter st' h'" for h'
    by (cases prev) (simp_all add: hand_back_def sm_iter_def index_of_def)
  have "arcs_ok (hand_back prev st')"
    using assms by (cases prev) (auto simp: hand_back_def owner_step_def only_at_def arcs_ok_def)
  moreover have "value_heap (hand_back prev st') = value_heap st'" "holds (hand_back prev st') h' = holds st' h'" for h'
    by (cases prev; simp add: hand_back_def)+
  ultimately show ?thesis using assms(1) by (simp add: owner_step_def only_at_def iter)
qed

lemma entry_less:
  "arcs_ok st \<Longrightarrow> holds st h \<Longrightarrow> bt_get (index_of st h) k = Some a \<Longrightarrow> a < length (value_heap st)"
  using index_of_ok [of st h] by (force simp: index_ok_def bt_get_in_set)

lemma get_iter: "bt_get (sm_iter st h) k = map_option (\<lambda>a. value_heap st ! a) (bt_get (index_of st h) k)"
  by (simp add: sm_iter_def bt_get_def map_of_map comp_def)

lemma insert_step:
  assumes ok: "arcs_ok st" and h: "holds st h"
  shows "only_at h st (snd (previous (sm_insert h k v st)))
    \<and> (fst (previous (sm_insert h k v st)), sm_iter (snd (previous (sm_insert h k v st))) h) =
        (Previous (bt_get (sm_iter st h) k), bt_insert k v (sm_iter st h))"
proof -
  let ?prev = "bt_get (index_of st h) k" and ?st = "sm_put h k v (own_index h st)"
  have o: "owner_step h st ?st (bt_insert k v (sm_iter st h))" using own_then [OF ok h put_owner_step] .
  have len: "length (value_heap st) \<le> length (value_heap ?st)" using o by (auto simp: owner_step_def only_at_def)
  have "value_heap ?st = value_heap st @ [v]" using own_index(5) [OF ok h] by (simp add: sm_put_def store_index_def)
  then have "map_option (\<lambda>a. value_heap (hand_back ?prev ?st) ! a) ?prev = bt_get (sm_iter st h) k"
    using entry_less [OF ok h] by (cases ?prev) (simp_all add: get_iter hand_back_def nth_append)
  moreover have "\<forall>a. ?prev = Some a \<longrightarrow> a < length (value_heap ?st)" using entry_less [OF ok h] len by fastforce
  moreover have "sm_insert h k v st = (?prev, hand_back ?prev ?st)"
    by (simp add: sm_insert_def Let_def own_index(4) [OF ok h])
  ultimately show ?thesis using hand_back_step [OF o, of ?prev] by (simp add: previous_def)
qed

lemma remove_step:
  assumes ok: "arcs_ok st" and h: "holds st h"
  shows "only_at h st (snd (previous (sm_remove h k st)))
    \<and> (fst (previous (sm_remove h k st)), sm_iter (snd (previous (sm_remove h k st))) h) =
        (Previous (bt_get (sm_iter st h) k), bt_remove k (sm_iter st h))"
proof (cases "sm_contains_key st h k")
  case False
  then have "k \<notin> fst ` set (sm_iter st h)" by (simp add: contains_iter bt_get_def map_of_eq_None_iff)
  then have "bt_remove k (sm_iter st h) = sm_iter st h" by (auto simp: bt_remove_def filter_id_conv)
  then show ?thesis using False only_at_refl [OF ok] by (simp add: sm_remove_def previous_def contains_iter)
next
  case True
  let ?prev = "bt_get (index_of st h) k" and ?f = "\<lambda>st. store_index h (bt_remove k (index_of st h)) st"
  have o: "owner_step h st (?f (own_index h st)) (bt_remove k (sm_iter st h))"
    using ok h by (rule own_then)
      (use set_owner_step [OF _ _ _ index_ok_remove [OF index_of_ok]] in \<open>simp add: with_values_remove sm_iter_with_values\<close>)
  have "value_heap (?f (own_index h st)) = value_heap st" using own_index(5) [OF ok h] by (simp add: store_index_def)
  moreover have "sm_remove h k st = (?prev, hand_back ?prev (?f (own_index h st)))"
    using True by (simp add: sm_remove_def Let_def own_index(4) [OF ok h])
  ultimately show ?thesis
    using hand_back_step [OF o, of ?prev] entry_less [OF ok h]
    by (cases ?prev) (simp_all add: previous_def get_iter hand_back_def)
qed

lemma new_step:
  assumes ok: "arcs_ok st"
  shows "arcs_ok (sm_new h st)" and "views (sm_new h st) = (views st)(h \<mapsto> [])" and "owned h (sm_new h st)"
proof -
  have H: "bt_ok (handles st)" using ok by (simp add: arcs_ok_def)
  have a: "addr (sm_new h st) h' = (if h' = h then length (index_heap st) else addr st h')" for h'
    by (simp add: sm_new_def addr_def bt.get_insert [OF H])
  have l: "holds (sm_new h st) h' \<longleftrightarrow> h' = h \<or> holds st h'" for h'
    by (simp add: sm_new_def holds_def keys_bt_insert)
  have heaps: "index_heap (sm_new h st) = index_heap st @ [[]]" "value_heap (sm_new h st) = value_heap st"
    by (simp_all add: sm_new_def)
  have "sm_iter (sm_new h st) h' = (if h' = h then [] else sm_iter st h')" if "holds (sm_new h st) h'" for h'
    using that addr_less [OF ok, of h'] by (auto simp: l sm_iter_def index_of_def a heaps nth_append)
  then show "views (sm_new h st) = (views st)(h \<mapsto> [])" by (auto simp: views_def l fun_eq_iff)
  show "arcs_ok (sm_new h st)"
    using ok by (auto simp: arcs_ok_def sm_new_def bt.ok_insert set_bt_insert less_Suc_eq index_ok_def)
  show "owned h (sm_new h st)" using addr_less [OF ok] by (force simp: owned_def a l)
qed

lemma clone_step:
  assumes ok: "arcs_ok st" and h: "holds st h"
  shows "arcs_ok (sm_clone h h' st)" and "views (sm_clone h h' st) = (views st)(h' \<mapsto> sm_iter st h)"
proof -
  have H: "bt_ok (handles st)" using ok by (simp add: arcs_ok_def)
  have a: "addr (sm_clone h h' st) x = (if x = h' then addr st h else addr st x)" for x
    by (simp add: sm_clone_def addr_def bt.get_insert [OF H])
  have l: "holds (sm_clone h h' st) x \<longleftrightarrow> x = h' \<or> holds st x" for x
    by (simp add: sm_clone_def holds_def keys_bt_insert)
  show "views (sm_clone h h' st) = (views st)(h' \<mapsto> sm_iter st h)"
    by (auto simp: views_def l fun_eq_iff sm_iter_def index_of_def a) (auto simp: sm_clone_def)
  show "arcs_ok (sm_clone h h' st)"
    using ok addr_less [OF ok h] by (auto simp: arcs_ok_def sm_clone_def bt.ok_insert set_bt_insert)
qed

lemma drop_step:
  assumes ok: "arcs_ok st"
  shows "arcs_ok (sm_drop h st)" and "views (sm_drop h st) = (views st)(h := None)"
proof -
  have H: "bt_ok (handles st)" using ok by (simp add: arcs_ok_def)
  have a: "addr (sm_drop h st) x = addr st x" if "x \<noteq> h" for x
    using that by (simp add: sm_drop_def addr_def bt.get_remove [OF H])
  have l: "holds (sm_drop h st) x \<longleftrightarrow> x \<noteq> h \<and> holds st x" for x
    by (force simp: sm_drop_def holds_def bt_remove_def)
  show "views (sm_drop h st) = (views st)(h := None)"
    by (auto simp: views_def l fun_eq_iff sm_iter_def index_of_def a) (auto simp: sm_drop_def)
  show "arcs_ok (sm_drop h st)"
    using ok bt.ok_remove [OF H, of h] by (auto simp: arcs_ok_def sm_drop_def) (auto simp: bt_remove_def)
qed

lemma release_step:
  assumes "arcs_ok st"
  shows "arcs_ok (sm_release i st)" and "views (sm_release i st) = views st"
  using assms
  by (auto simp: arcs_ok_def sm_release_def views_def sm_iter_def index_of_def fun_eq_iff dest: in_set_takeD in_set_dropD)

lemma from_iter_step:
  assumes "arcs_ok st"
  shows "arcs_ok (sm_from_iter h es st)"
    and "views (sm_from_iter h es st) = (views st)(h \<mapsto> fold (\<lambda>(k, v). bt_insert k v) es [])"
proof -
  note new = new_step [OF assms, of h]
  have h: "holds (sm_new h st) h" by (simp add: sm_new_def holds_def keys_bt_insert)
  have "owner_step h (sm_new h st) (fold (\<lambda>(k, v). sm_put h k v) es (sm_new h st))
      (fold (\<lambda>(k, v). bt_insert k v) es (sm_iter (sm_new h st) h))"
    by (rule owner_step_fold [OF _ new(1) h new(3)]) (auto intro: put_owner_step)
  moreover have "sm_iter (sm_new h st) h = []" using fun_cong [OF new(2), of h] h by (simp add: views_def)
  ultimately have o: "owner_step h (sm_new h st) (sm_from_iter h es st) (fold (\<lambda>(k, v). bt_insert k v) es [])"
    by (simp add: sm_from_iter_def)
  then show "arcs_ok (sm_from_iter h es st)" by (simp add: owner_step_def only_at_def)
  show "views (sm_from_iter h es st) = (views st)(h \<mapsto> fold (\<lambda>(k, v). bt_insert k v) es [])"
    using o views_only_at [OF _ h] new(2) by (simp add: owner_step_def)
qed

lemma get_or_default_step:
  fixes st :: "('k::linorder, 'v) arcs"
  assumes "arcs_ok st" and "holds st h"
  shows "owner_step h st (sm_get_or_default d h k f st)
    (bt_edit k f (if bt_get (sm_iter st h) k = None then bt_insert k d (sm_iter st h) else sm_iter st h))"
proof -
  let ?f = "\<lambda>st. write_entry h k f (if sm_contains_key st h k then st else sm_put h k d st)"
  let ?g = "\<lambda>x. bt_edit k f (if bt_get x k = None then bt_insert k d x else x)"
  have "owner_step h st (?f (own_index h st)) (?g (sm_iter st h))"
  proof (rule own_then [OF assms])
    fix st' :: "('k, 'v) arcs" assume ok: "arcs_ok st'" "holds st' h" "owned h st'"
    have p: "owner_step h st' (sm_put h k d st') (bt_insert k d (sm_iter st' h))" using ok by (rule put_owner_step)
    then have ok': "arcs_ok (sm_put h k d st')" "holds (sm_put h k d st') h" "owned h (sm_put h k d st')"
      using ok by (auto simp: owner_step_def only_at_def)
    show "owner_step h st' (?f st') (?g (sm_iter st' h))"
      using write_owner_step [OF ok, of k f] owner_step_trans [OF p write_owner_step [OF ok', of k f]] p
      by (auto simp: contains_iter owner_step_def)
  qed
  then show ?thesis by (simp add: sm_get_or_default_def Let_def)
qed

lemma share_step:
  assumes ok: "arcs_ok st" and h: "holds st h" and s: "holds st s"
  shows "only_at h st (sm_share_entry_from h s k st)
    \<and> sm_iter (sm_share_entry_from h s k st) h =
        (case bt_get (sm_iter st s) k of None \<Rightarrow> sm_iter st h | Some v \<Rightarrow> bt_insert k v (sm_iter st h))"
proof (cases "bt_get (index_of st s) k")
  case None
  then show ?thesis using only_at_refl [OF ok] by (simp add: sm_share_entry_from_def get_iter)
next
  case (Some a)
  let ?st = "own_index h st"
  have o: "owner_step h st ?st (sm_iter st h)" using ok h by (rule own_owner_step)
  then have ok': "arcs_ok ?st" "holds ?st h" "owned h ?st" using h by (auto simp: owner_step_def only_at_def)
  have m: "index_ok (length (value_heap ?st)) (bt_insert k a (index_of ?st h))"
    using index_ok_insert [OF index_of_ok [OF ok'(1,2)] _ order_refl] entry_less [OF ok s Some] own_index(5) [OF ok h] by simp
  have "owner_step h st (store_index h (bt_insert k a (index_of ?st h)) ?st)
      (bt_insert k (value_heap st ! a) (sm_iter st h))"
    using owner_step_trans [OF o set_owner_step [OF ok' m]] own_index(3,5) [OF ok h]
    by (simp add: with_values_insert sm_iter_with_values)
  then show ?thesis using Some by (simp add: sm_share_entry_from_def Let_def get_iter owner_step_def)
qed

lemma get_mut_step:
  assumes ok: "arcs_ok st" and h: "holds st h"
  shows "only_at h st (snd (sm_get_mut h k f st))
    \<and> (fst (sm_get_mut h k f st), sm_iter (snd (sm_get_mut h k f st)) h) =
       (bt_get (sm_iter st h) k \<noteq> None, bt_edit k f (sm_iter st h))"
proof (cases "sm_contains_key st h k")
  case False
  then have "bt_edit k f (sm_iter st h) = sm_iter st h"
    by (intro bt_edit_absent) (simp add: contains_iter bt_get_def map_of_eq_None_iff)
  then show ?thesis using False only_at_refl [OF ok] by (simp add: sm_get_mut_def contains_iter)
next
  case True
  have "owner_step h st (write_entry h k f (own_index h st)) (bt_edit k f (sm_iter st h))"
    using own_then [OF ok h write_owner_step] .
  then show ?thesis using True by (simp add: sm_get_mut_def contains_iter owner_step_def)
qed

lemma command_step:
  assumes "arcs_ok st"
  shows "implements st (run_command d c st) (spec_command d c (views st))"
proof (cases c)
  case (Clone h h')
  then show ?thesis
    using assms clone_step [OF assms, of h h'] by (simp add: implements_def on_live_def views_def)
next
  case (Insert h k v)
  show ?thesis unfolding Insert run_command.simps spec_command.simps
    by (rule implements_at [OF insert_step assms])
next
  case (Remove h k)
  show ?thesis unfolding Remove run_command.simps spec_command.simps
    by (rule implements_at [OF remove_step assms])
next
  case (Get_Mut h k f)
  show ?thesis unfolding Get_Mut run_command.simps spec_command.simps
    by (rule implements_at [OF _ assms]) (use get_mut_step in fastforce)
next
  case (Get_Or_Default h k f)
  show ?thesis unfolding Get_Or_Default run_command.simps spec_command.simps
    by (rule implements_owner [OF get_or_default_step assms])
next
  case (Share_From h s k)
  show ?thesis
  proof (cases "holds st h \<and> holds st s")
    case True
    then show ?thesis
      using Share_From share_step [OF assms, of h s k] views_only_at [of h st "sm_share_entry_from h s k st"]
      by (auto simp: implements_def on_live_def on_map_of_def views_def only_at_def)
  next
    case False
    then show ?thesis
      using Share_From assms by (auto simp: implements_def on_live_def on_map_of_def views_def split: option.splits)
  qed
next
  case (Clear h)
  then show ?thesis
    using assms new_step [OF assms, of h] by (simp add: implements_def on_live_def on_map_of_def sm_clear_def views_def)
next
  case (Retain h P)
  show ?thesis unfolding Retain run_command.simps spec_command.simps
    by (rule implements_at [OF _ assms]) (use retain_step in fastforce)
next
  case (Retain_Mut h f)
  show ?thesis unfolding Retain_Mut run_command.simps spec_command.simps
    by (rule implements_owner [OF retain_mut_step assms])
next
  case (Iter_Mut h f)
  show ?thesis unfolding Iter_Mut run_command.simps spec_command.simps sm_iter_mut_def Let_def
    by (rule implements_owner [OF iter_mut_step assms])
next
  case (Values_Mut h f)
  show ?thesis unfolding Values_Mut run_command.simps spec_command.simps sm_values_mut_def Let_def
    by (rule implements_owner [OF iter_mut_step assms])
qed (simp_all add: implements_def new_step [OF assms] drop_step [OF assms] release_step [OF assms] from_iter_step [OF assms])



text \<open>
  The pointer comparisons are sound: two maps compare equal exactly when they hold the same entries,
  although the comparison skips what is shared, and a shared entry is present with one value.
\<close>

lemma sm_eq_iff: "sm_eq st h h' \<longleftrightarrow> sm_iter st h = sm_iter st h'"
proof -
  have "(length m = length m' \<and> list_all (\<lambda>((mine_key, mine), (their_key, theirs)).
        mine_key = their_key \<and> (mine = theirs \<or> vs ! mine = vs ! theirs)) (zip m m')) \<longleftrightarrow>
      map (\<lambda>(k, a). (k, vs ! a)) m = map (\<lambda>(k, a). (k, vs ! a)) m'" for vs :: "'b list" and m m' :: "('a, nat) btree"
  proof (induction m arbitrary: m')
    case (Cons e m)
    then show ?case by (cases m') auto
  qed auto
  then show ?thesis by (auto simp: sm_eq_def sm_iter_def sm_ptr_eq_def index_of_def)
qed

lemma shares_entry_equal: "sm_shares_entry st h h' k \<Longrightarrow> sm_get st h k = sm_get st h' k \<and> sm_get st h k \<noteq> None"
  by (auto simp: sm_shares_entry_def sm_get_def split: option.splits)

text \<open>An edit after a snapshot copies one index and one entry at most; the other entries stay shared.\<close>

lemma get_mut_copies:
  assumes "arcs_ok st" and "holds st h"
  shows "length (index_heap (snd (sm_get_mut h k f st))) \<le> Suc (length (index_heap st))"
    and "length (value_heap (snd (sm_get_mut h k f st))) \<le> Suc (length (value_heap st))"
    and "k' \<noteq> k \<Longrightarrow> bt_get (index_of (snd (sm_get_mut h k f st)) h) k' = bt_get (index_of st h) k'"
proof -
  let ?st = "own_index h st"
  have ok: "arcs_ok ?st" "holds ?st h" "owned h ?st" using own_index [OF assms] assms(2) by (auto simp: only_at_def)
  have len: "length (index_heap ?st) \<le> Suc (length (index_heap st))" by (simp add: own_index_def)
  have "bt_ok (index_of ?st h)" using index_of_ok [OF ok(1,2)] by (simp add: index_ok_def)
  then have "bt_get (index_of (write_entry h k f ?st) h) k' = bt_get (index_of ?st h) k'" if "k' \<noteq> k" for k'
    using that sm_put(5) [OF ok]
    by (cases "bt_get (index_of ?st h) k")
      (simp_all add: write_entry_def sm_put_def bt.get_insert, simp_all add: index_of_def)
  moreover have "length (index_heap (write_entry h k f ?st)) = length (index_heap ?st)"
    "length (value_heap (write_entry h k f ?st)) \<le> Suc (length (value_heap ?st))"
    by (auto simp: write_entry_def store_index_def split: option.split)
  ultimately show "length (index_heap (snd (sm_get_mut h k f st))) \<le> Suc (length (index_heap st))"
    "length (value_heap (snd (sm_get_mut h k f st))) \<le> Suc (length (value_heap st))"
    "k' \<noteq> k \<Longrightarrow> bt_get (index_of (snd (sm_get_mut h k f st)) h) k' = bt_get (index_of st h) k'"
    using len own_index(4,5) [OF assms] by (simp_all add: sm_get_mut_def)
qed

section \<open>The contract of transactions\<close>

text \<open>
  World transactions clone before a change and put the clone back on error. All they rely on is that
  a clone copies and that an edit through one variable stays there.
\<close>

locale snapshot_maps =
  fixes ok :: "'s \<Rightarrow> bool"
    and view :: "'s \<Rightarrow> nat \<Rightarrow> 'm option"
    and clone :: "nat \<Rightarrow> nat \<Rightarrow> 's \<Rightarrow> 's"
  assumes ok_clone: "ok s \<Longrightarrow> view s h \<noteq> None \<Longrightarrow> ok (clone h h' s)"
    and view_clone: "ok s \<Longrightarrow> view s h \<noteq> None \<Longrightarrow> view (clone h h' s) = (view s)(h' := view s h)"
begin

definition confined :: "nat \<Rightarrow> ('s \<Rightarrow> 's) \<Rightarrow> bool" where
  "confined h f \<longleftrightarrow> (\<forall>s. ok s \<longrightarrow> view s h \<noteq> None \<longrightarrow> ok (f s) \<and> (\<exists>x. view (f s) = (view s)(h \<mapsto> x)))"

lemma fold_confined:
  "\<lbrakk>\<forall>f\<in>set fs. confined h f; ok s; view s h \<noteq> None\<rbrakk> \<Longrightarrow>
   ok (fold id fs s) \<and> (\<exists>x. view (fold id fs s) = (view s)(h \<mapsto> x))"
proof (induction fs arbitrary: s)
  case Nil
  then obtain x where "view s h = Some x" by blast
  then have "view s = (view s)(h \<mapsto> x)" by (simp add: fun_upd_idem)
  then show ?case using Nil(2) by (metis fold_simps(1))
next
  case (Cons f fs)
  from Cons.prems obtain x where x: "ok (f s)" "view (f s) = (view s)(h \<mapsto> x)" by (auto simp: confined_def)
  have "\<forall>f\<in>set fs. confined h f" "view (f s) h \<noteq> None" using Cons.prems(1) x(2) by simp_all
  from Cons.IH [OF this(1) x(1) this(2)] show ?case
    unfolding fold_simps(2) comp_apply id_apply [of f] x(2) by (metis fun_upd_upd)
qed

lemma rollback:
  assumes "\<forall>f\<in>set fs. confined h f" and "ok s" and "view s h \<noteq> None" and "b \<noteq> h"
  shows "view (clone b h (fold id fs (clone h b s))) = (view s)(b := view s h)"
proof -
  have 1: "ok (clone h b s)" "view (clone h b s) = (view s)(b := view s h)" using assms by (simp_all add: ok_clone view_clone)
  then obtain x where 2: "ok (fold id fs (clone h b s))" "view (fold id fs (clone h b s)) = ((view s)(b := view s h))(h \<mapsto> x)"
    using fold_confined [OF assms(1) 1(1)] assms(3,4) by auto
  then have "view (clone b h (fold id fs (clone h b s))) = (view s)(b := view s h, h := view s h)"
    using assms(3,4) by (subst view_clone) (auto simp: fun_upd_twist)
  then show ?thesis by (simp add: fun_upd_idem fun_upd_twist [OF assms(4)])
qed

end

interpretation arcs: snapshot_maps arcs_ok views sm_clone
proof
  fix st :: "('a::linorder, 'b) arcs" and h h'
  assume "arcs_ok st" and "views st h \<noteq> None"
  then have "holds st h" by (simp add: views_def split: if_splits)
  then show "arcs_ok (sm_clone h h' st)" "views (sm_clone h h' st) = (views st)(h' := views st h)"
    using clone_step [OF \<open>arcs_ok st\<close>, of h h'] by (simp_all add: views_def)
qed

text \<open>The commands that change a map through one variable.\<close>

fun edits :: "nat \<Rightarrow> ('k, 'v) map_command \<Rightarrow> bool" where
  "edits h (Insert h' k v) \<longleftrightarrow> h' = h"
| "edits h (Remove h' k) \<longleftrightarrow> h' = h"
| "edits h (Get_Mut h' k f) \<longleftrightarrow> h' = h"
| "edits h (Get_Or_Default h' k f) \<longleftrightarrow> h' = h"
| "edits h (Share_From h' s k) \<longleftrightarrow> h' = h"
| "edits h (Clear h') \<longleftrightarrow> h' = h"
| "edits h (Retain h' P) \<longleftrightarrow> h' = h"
| "edits h (Retain_Mut h' f) \<longleftrightarrow> h' = h"
| "edits h (Iter_Mut h' f) \<longleftrightarrow> h' = h"
| "edits h (Values_Mut h' f) \<longleftrightarrow> h' = h"
| "edits h (From_Iter h' es) \<longleftrightarrow> h' = h"
| "edits h _ \<longleftrightarrow> False"

lemma spec_edit:
  assumes "edits h c" and "ms h \<noteq> None"
  shows "\<exists>x. snd (spec_command d c ms) = ms(h \<mapsto> x)"
proof -
  have "\<exists>x. ms = ms(h \<mapsto> x)" using assms(2) by (metis fun_upd_triv option.collapse)
  then show ?thesis
    using assms by (cases "(h, c)" rule: edits.cases) (auto simp: on_map_of_def split: option.splits)
qed

lemma edits_confined:
  fixes c :: "('k::linorder, 'v) map_command"
  assumes "edits h c"
  shows "arcs.confined h (\<lambda>st. snd (run_command d c st))"
  unfolding arcs.confined_def
proof (intro allI impI)
  fix st :: "('k, 'v) arcs" assume ok: "arcs_ok st" and h: "views st h \<noteq> None"
  have "arcs_ok (snd (run_command d c st)) \<and> views (snd (run_command d c st)) = snd (spec_command d c (views st))"
    using command_step [OF ok, of d c] by (simp add: implements_def)
  then show "arcs_ok (snd (run_command d c st)) \<and> (\<exists>x. views (snd (run_command d c st)) = (views st)(h \<mapsto> x))"
    using spec_edit [of h c "views st" d] assms h by simp
qed

text \<open>
  Rolling back works: clone a map, change the original with any sequence of editing operations,
  then put the clone back. Every map, the rolled back one included, holds what it held before.
\<close>

lemma rollback_restores:
  assumes "arcs_ok st" and "holds st h" and "b \<noteq> h" and "\<forall>c\<in>set cs. edits h c"
  shows "views (sm_clone b h (fold (\<lambda>c st. snd (run_command d c st)) cs (sm_clone h b st))) = (views st)(b := views st h)"
proof -
  let ?fs = "map (\<lambda>c st. snd (run_command d c st)) cs"
  have "\<forall>f\<in>set ?fs. arcs.confined h f" using assms(4) by (auto intro: edits_confined)
  from arcs.rollback [OF this assms(1) _ assms(3)] assms(2) show ?thesis by (simp add: views_def fold_map comp_def)
qed

definition sample_arcs :: "(nat, nat) arcs" where
  "sample_arcs = \<lparr>handles = [(0, 0)], index_heap = [[(5, 0)]], value_heap = [7], held = []\<rparr>"

end
