(* ===== verification/Damage_Records.thy ===== *)
theory Damage_Records
  imports Rust_Num
begin

text \<open>
  \<open>src/btech/damage_records.rs\<close>: the records of the compact damage field, their text and its parser.
  A section or slot is a number below 256, a value an \<open>i32\<close>.
\<close>

datatype damage_record =
    ArmorLoss nat bool int
  | InternalLoss nat int
  | CriticalLost nat nat
  | AmmunitionSpent nat nat int
  | TemporaryFailure nat nat int

datatype damage_error =
    NeedsColon | NeedsSlash | InvalidIndex | IndexRange | InvalidLoss | NeedsParenthesis | NeedsClosing
  | InvalidRecordValue | UnknownRecordType | InRecord nat damage_error
  | SectionMissing | NoStructure | SlotMissing | StructuralFiller | NotABin | FailureOnAmmunition
  | LossExceeds | RetainsArmor | UnknownFailure | IncompleteGroup | InconsistentGroup | IndexPanic

fun record_text :: "damage_record \<Rightarrow> bytes" where
  "record_text (ArmorLoss s rear l) =
     (if rear then bstr ''A(R)'' else bstr ''A'') @ [58] @ show_nat s @ [47] @ show_int l"
| "record_text (InternalLoss s l) = bstr ''I:'' @ show_nat s @ [47] @ show_int l"
| "record_text (CriticalLost s c) = bstr ''C:'' @ show_nat s @ [47] @ show_nat c"
| "record_text (AmmunitionSpent s c v) = bstr ''R:'' @ show_nat s @ [47] @ show_nat c @ [40] @ show_int v @ [41]"
| "record_text (TemporaryFailure s c v) = bstr ''G:'' @ show_nat s @ [47] @ show_nat c @ [40] @ show_int v @ [41]"

definition record_index :: "bytes \<Rightarrow> nat \<Rightarrow> (damage_error, nat) result" where
  "record_index v limit =
     (case parse_u8 v of
        None \<Rightarrow> Inl InvalidIndex
      | Some n \<Rightarrow> ensure_then (n < limit) IndexRange (Inr n))"

definition parsed_i32 :: "damage_error \<Rightarrow> bytes \<Rightarrow> (damage_error, int) result" where
  "parsed_i32 e v = (case parse_i32 v of None \<Rightarrow> Inl e | Some i \<Rightarrow> Inr i)"

definition record_value :: "bool \<Rightarrow> nat \<Rightarrow> bytes \<Rightarrow> (damage_error, damage_record) result" where
  "record_value spent s v =
     (case split_once 40 v of
        None \<Rightarrow> Inl NeedsParenthesis
      | Some (slot, amount) \<Rightarrow>
          (case strip_suffix [41] amount of
             None \<Rightarrow> Inl NeedsClosing
           | Some amount \<Rightarrow>
               bind_result (record_index slot 12) (\<lambda>c.
               bind_result (parsed_i32 InvalidRecordValue amount) (\<lambda>i.
               Inr (if spent then AmmunitionSpent s c i else TemporaryFailure s c i)))))"

definition record_parse :: "bytes \<Rightarrow> (damage_error, damage_record) result" where
  "record_parse v =
     (case split_once 58 v of
        None \<Rightarrow> Inl NeedsColon
      | Some (kind, values) \<Rightarrow>
          (case split_once 47 values of
             None \<Rightarrow> Inl NeedsSlash
           | Some (section, values) \<Rightarrow>
               bind_result (record_index section 8) (\<lambda>s.
               if kind = bstr ''A'' \<or> kind = bstr ''A(R)''
               then bind_result (parsed_i32 InvalidLoss values) (\<lambda>l. Inr (ArmorLoss s (kind = bstr ''A(R)'') l))
               else if kind = bstr ''I''
               then bind_result (parsed_i32 InvalidLoss values) (\<lambda>l. Inr (InternalLoss s l))
               else if kind = bstr ''C''
               then bind_result (record_index values 12) (\<lambda>c. Inr (CriticalLost s c))
               else if kind = bstr ''R'' \<or> kind = bstr ''G''
               then record_value (kind = bstr ''R'') s values
               else Inl UnknownRecordType)))"

fun records_parse :: "nat \<Rightarrow> bytes list \<Rightarrow> (damage_error, damage_record list) result" where
  "records_parse i [] = Inr []"
| "records_parse i (r # rs) =
     (case record_parse r of
        Inl e \<Rightarrow> Inl (InRecord (Suc i) e)
      | Inr x \<Rightarrow> bind_result (records_parse (Suc i) rs) (\<lambda>xs. Inr (x # xs)))"

definition record_separator :: "u8 \<Rightarrow> bool" where
  "record_separator b \<longleftrightarrow> b = 44 \<or> is_ascii_whitespace b"

definition parse_damage_field :: "bytes \<Rightarrow> (damage_error, damage_record list) result" where
  "parse_damage_field v = records_parse 0 (filter (\<lambda>r. r \<noteq> []) (split_by record_separator v))"

section \<open>Round trip\<close>

definition i32_ok :: "int \<Rightarrow> bool" where
  "i32_ok i \<longleftrightarrow> - (2 ^ 31) \<le> i \<and> i < 2 ^ 31"

fun record_ok :: "damage_record \<Rightarrow> bool" where
  "record_ok (ArmorLoss s rear l) \<longleftrightarrow> s < 8 \<and> i32_ok l"
| "record_ok (InternalLoss s l) \<longleftrightarrow> s < 8 \<and> i32_ok l"
| "record_ok (CriticalLost s c) \<longleftrightarrow> s < 8 \<and> c < 12"
| "record_ok (AmmunitionSpent s c v) \<longleftrightarrow> s < 8 \<and> c < 12 \<and> i32_ok v"
| "record_ok (TemporaryFailure s c v) \<longleftrightarrow> s < 8 \<and> c < 12 \<and> i32_ok v"

lemma record_index_show: "n < limit \<Longrightarrow> limit \<le> 256 \<Longrightarrow> record_index (show_nat n) limit = Inr n"
  by (simp add: record_index_def parse_u8_show)

lemma parsed_i32_show: "i32_ok i \<Longrightarrow> parsed_i32 e (show_int i) = Inr i"
  by (simp add: parsed_i32_def parse_i32_def parse_int_show i32_ok_def)

lemma digits_exclude:
  "b \<in> set (show_nat n) \<Longrightarrow> 48 \<le> b \<and> b \<le> 57" "b \<in> set (show_int i) \<Longrightarrow> b = 45 \<or> 48 \<le> b \<and> b \<le> 57"
  using show_nat_bytes show_int_bytes by (force simp: is_ascii_digit_def)+

lemma not_in_show: "\<not> (48 \<le> b \<and> b \<le> 57) \<Longrightarrow> b \<notin> set (show_nat n)"
  "b \<noteq> 45 \<Longrightarrow> \<not> (48 \<le> b \<and> b \<le> 57) \<Longrightarrow> b \<notin> set (show_int i)"
  using digits_exclude by blast+

lemma split_slash: "split_once 47 (show_nat s @ 47 # v) = Some (show_nat s, v)"
  by (rule split_once_append, rule not_in_show) simp

lemma split_paren: "split_once 40 (show_nat c @ 40 # v) = Some (show_nat c, v)"
  by (rule split_once_append, rule not_in_show) simp

lemma split_colon:
  "split_once 58 (65 # 58 # v) = Some ([65], v)" "split_once 58 (65 # 40 # 82 # 41 # 58 # v) = Some ([65, 40, 82, 41], v)"
  "split_once 58 (73 # 58 # v) = Some ([73], v)" "split_once 58 (67 # 58 # v) = Some ([67], v)"
  "split_once 58 (82 # 58 # v) = Some ([82], v)" "split_once 58 (71 # 58 # v) = Some ([71], v)"
  by (simp_all add: split_once_def)

lemma record_round_trip: "record_ok r \<Longrightarrow> record_parse (record_text r) = Inr r"
  by (cases r)
    (simp_all add: record_parse_def bstr_def split_colon split_slash split_paren record_index_show parsed_i32_show
      record_value_def strip_suffix_def)

lemma record_text_separators: "record_text r \<noteq> []" "list_all (\<lambda>b. \<not> record_separator b) (record_text r)"
proof -
  show "record_text r \<noteq> []" by (cases r) (simp_all add: bstr_def)
  have "\<not> record_separator b" if "b = 45 \<or> 48 \<le> b \<and> b \<le> 57" for b
    using that by (auto simp: record_separator_def is_ascii_whitespace_def)
  then have n: "\<forall>b\<in>set (show_nat k). \<not> record_separator b" "\<forall>b\<in>set (show_int i). \<not> record_separator b" for k i
    using digits_exclude by blast+
  show "list_all (\<lambda>b. \<not> record_separator b) (record_text r)"
    using n by (cases r) (auto simp: list_all_iff bstr_def record_separator_def is_ascii_whitespace_def)
qed

lemma records_round_trip: "\<forall>r\<in>set rs. record_ok r \<Longrightarrow> records_parse i (map record_text rs) = Inr rs"
  by (induction rs arbitrary: i) (simp_all add: record_round_trip)

lemma parse_joined:
  "parse_damage_field (join_with [44] (map record_text rs)) = records_parse 0 (map record_text rs)"
proof (cases rs)
  case Nil
  then show ?thesis by (simp add: parse_damage_field_def)
next
  case (Cons r rs')
  have "split_by record_separator (join_with [44] (map record_text rs)) = map record_text rs"
    by (rule split_by_join) (use Cons record_text_separators(2) in \<open>auto simp: record_separator_def\<close>)
  moreover have "filter (\<lambda>r. r \<noteq> []) (map record_text rs) = map record_text rs"
    using record_text_separators(1) by (simp add: filter_map comp_def)
  ultimately show ?thesis by (simp add: parse_damage_field_def)
qed

lemma field_round_trip:
  "\<forall>r\<in>set rs. record_ok r \<Longrightarrow> parse_damage_field (join_with [44] (map record_text rs)) = Inr rs"
  by (simp add: parse_joined records_round_trip)

lemma records_parse_each: "records_parse i xs = Inr ys \<Longrightarrow> x \<in> set xs \<Longrightarrow> \<exists>y. record_parse x = Inr y"
  by (induction xs arbitrary: i ys) (auto simp: bind_result_Inr_iff split: sum.splits)

lemma late_slot: "n < 8 \<Longrightarrow> 12 \<le> c \<Longrightarrow> c < 256 \<Longrightarrow> record_parse (record_text (CriticalLost n c)) = Inl IndexRange"
  by (simp add: record_parse_def bstr_def split_colon split_slash record_index_show) (simp add: record_index_def parse_u8_show)

end
