(* ===== verification/Unit_Systems.thy ===== *)
theory Unit_Systems
  imports Rust_Str
begin

text \<open>
  The systems of a unit's critical slots: \<open>System\<close> of \<open>crates/unit-construction/src/equipment.rs\<close> with
  its slot names, and the technology bases of \<open>tech_base.rs\<close>.
\<close>

section \<open>Systems and their slot names\<close>

datatype (plugins only: code size) unit_system =
    ShoulderOrHip | UpperActuator | LowerActuator | HandOrFootActuator | Engine | Gyro | Cockpit
    | LifeSupport | Sensors | HeatSink | FuelTank | JumpJet | FerroFibrous | EndoSteel
    | TripleStrengthMyomer | Masc | Supercharger | C3Master | C3Slave | C3i | HeavyFerroFibrous
    | LightFerroFibrous | Case | CaseIi | TargetingComputer | ArtemisIv | ArtemisV | ApolloFcs
    | Ecm | AngelEcm | StealthArmor | LaserReflective | NullSignature | BeagleProbe | Tag
    | LightTag | LightProbe | BloodhoundProbe | Axe | Sword | Mace | DualSaw | Claw
    | RetractableBlade | Lance | Flail | WreckingBall | ChainWhip | SmallVibroblade
    | MediumVibroblade | LargeVibroblade | Talons | MachineGunArray | Spikes | Cargo
    | CommunicationsEquipment | LiftHoist | Backhoe

definition system_names :: "(bytes \<times> unit_system) list" where
  "system_names =
     [(bstr ''ShoulderOrHip'', unit_system.ShoulderOrHip),
      (bstr ''UpperActuator'', unit_system.UpperActuator),
      (bstr ''LowerActuator'', unit_system.LowerActuator),
      (bstr ''HandOrFootActuator'', unit_system.HandOrFootActuator),
      (bstr ''Engine'', unit_system.Engine), (bstr ''Gyro'', unit_system.Gyro),
      (bstr ''Cockpit'', unit_system.Cockpit), (bstr ''LifeSupport'', unit_system.LifeSupport),
      (bstr ''Sensors'', unit_system.Sensors), (bstr ''HeatSink'', unit_system.HeatSink),
      (bstr ''Fuel_Tank'', unit_system.FuelTank), (bstr ''JumpJet'', unit_system.JumpJet),
      (bstr ''TargetingComputer'', unit_system.TargetingComputer),
      (bstr ''ArtemisIV'', unit_system.ArtemisIv), (bstr ''ArtemisV'', unit_system.ArtemisV),
      (bstr ''ApolloFCS'', unit_system.ApolloFcs), (bstr ''Ecm'', unit_system.Ecm),
      (bstr ''AngelEcm'', unit_system.AngelEcm),
      (bstr ''StealthArmor'', unit_system.StealthArmor),
      (bstr ''LaserReflective'', unit_system.LaserReflective),
      (bstr ''NullSig_Device'', unit_system.NullSignature), (bstr ''TAG'', unit_system.Tag),
      (bstr ''LightTAG'', unit_system.LightTag),
      (bstr ''BeagleProbe'', unit_system.BeagleProbe),
      (bstr ''Light_BAP'', unit_system.LightProbe),
      (bstr ''BloodhoundProbe'', unit_system.BloodhoundProbe), (bstr ''Axe'', unit_system.Axe),
      (bstr ''Sword'', unit_system.Sword), (bstr ''Mace'', unit_system.Mace),
      (bstr ''Dual_Saw'', unit_system.DualSaw), (bstr ''Claw'', unit_system.Claw),
      (bstr ''Retractable_Blade'', unit_system.RetractableBlade),
      (bstr ''Lance'', unit_system.Lance), (bstr ''Flail'', unit_system.Flail),
      (bstr ''Wrecking_Ball'', unit_system.WreckingBall),
      (bstr ''Chain_Whip'', unit_system.ChainWhip),
      (bstr ''Small_Vibroblade'', unit_system.SmallVibroblade),
      (bstr ''Medium_Vibroblade'', unit_system.MediumVibroblade),
      (bstr ''Large_Vibroblade'', unit_system.LargeVibroblade),
      (bstr ''Talons'', unit_system.Talons), (bstr ''Spikes'', unit_system.Spikes),
      (bstr ''Cargo'', unit_system.Cargo),
      (bstr ''Communications_Equipment'', unit_system.CommunicationsEquipment),
      (bstr ''Lift_Hoist'', unit_system.LiftHoist), (bstr ''Backhoe'', unit_system.Backhoe),
      (bstr ''MGA'', unit_system.MachineGunArray),
      (bstr ''FerroFibrous'', unit_system.FerroFibrous),
      (bstr ''EndoSteel'', unit_system.EndoSteel),
      (bstr ''TripleStrengthMyomer'', unit_system.TripleStrengthMyomer),
      (bstr ''Masc'', unit_system.Masc), (bstr ''SuperCharger'', unit_system.Supercharger),
      (bstr ''C3Master'', unit_system.C3Master), (bstr ''C3Slave'', unit_system.C3Slave),
      (bstr ''C3i'', unit_system.C3i),
      (bstr ''HvyFerroFibrous'', unit_system.HeavyFerroFibrous),
      (bstr ''LtFerroFibrous'', unit_system.LightFerroFibrous),
      (bstr ''CASE'', unit_system.Case), (bstr ''CASE-II'', unit_system.CaseIi)]"

definition unprefixed :: "bytes \<Rightarrow> unit_system option" where
  "unprefixed name = map_option snd (List.find (\<lambda>(n, _). eq_ignore_ascii_case name n) system_names)"

definition is_noncritical :: "unit_system \<Rightarrow> bool" where
  "is_noncritical s \<longleftrightarrow>
     s \<in> {unit_system.FerroFibrous, unit_system.StealthArmor, unit_system.LaserReflective,
        unit_system.EndoSteel, unit_system.TripleStrengthMyomer, unit_system.HeavyFerroFibrous,
        unit_system.LightFerroFibrous, unit_system.Case, unit_system.CaseIi}"

section \<open>Technology bases\<close>

datatype tech_base = InnerSphere | Clan

definition tech_base_of :: "bool \<Rightarrow> tech_base" where
  "tech_base_of clan = (if clan then Clan else InnerSphere)"

fun base_prefix :: "tech_base \<Rightarrow> bytes" where
  "base_prefix InnerSphere = bstr ''IS''"
| "base_prefix Clan = bstr ''CL''"

text \<open>\<open>name.get(..3)\<close> is absent when three bytes do not end a character.\<close>

definition starts_with_base :: "bytes \<Rightarrow> tech_base \<Rightarrow> bool" where
  "starts_with_base name base \<longleftrightarrow>
     3 \<le> length name \<and> is_char_boundary name 3 \<and> eq_ignore_ascii_case (take 3 name) (base_prefix base @ [46])"

definition split_prefix :: "bytes \<Rightarrow> (tech_base \<times> bytes) option" where
  "split_prefix name =
     map_option (\<lambda>base. (base, drop 3 name)) (List.find (starts_with_base name) [InnerSphere, Clan])"

definition technology_base :: "unit_system \<Rightarrow> tech_base option" where
  "technology_base s =
     (if s \<in> {unit_system.BloodhoundProbe, unit_system.C3Master, unit_system.C3Slave, unit_system.C3i,
        unit_system.NullSignature, unit_system.TripleStrengthMyomer, unit_system.StealthArmor,
        unit_system.LightFerroFibrous, unit_system.HeavyFerroFibrous, unit_system.ApolloFcs,
        unit_system.Axe, unit_system.Sword, unit_system.Claw, unit_system.Flail,
        unit_system.Lance, unit_system.Mace, unit_system.ChainWhip, unit_system.SmallVibroblade,
        unit_system.MediumVibroblade, unit_system.LargeVibroblade, unit_system.Spikes}
      then Some InnerSphere
      else if s \<in> {unit_system.LightProbe, unit_system.LightTag, unit_system.ArtemisV, unit_system.Talons}
      then Some Clan else None)"

definition built_by_either_base :: "unit_system \<Rightarrow> bool" where
  "built_by_either_base s \<longleftrightarrow>
     s \<in> {unit_system.CaseIi, unit_system.Ecm, unit_system.Masc, unit_system.TargetingComputer,
        unit_system.ArtemisIv, unit_system.JumpJet, unit_system.BeagleProbe,
        unit_system.MachineGunArray}"

definition installation :: "bytes \<Rightarrow> (unit_system \<times> tech_base option) option" where
  "installation name =
     (case split_prefix name of
        None \<Rightarrow> map_option (\<lambda>s. (s, None)) (unprefixed name)
      | Some (base, rest) \<Rightarrow>
          (case unprefixed rest of
             Some s \<Rightarrow> if built_by_either_base s then Some (s, Some base) else None
           | None \<Rightarrow> None))"

definition system_named :: "bytes \<Rightarrow> unit_system option" where
  "system_named name = map_option fst (installation name)"

definition stock_name :: "bytes \<Rightarrow> bytes" where
  "stock_name name =
     (case split_prefix name of
        Some (_, rest) \<Rightarrow> if installation name \<noteq> None then rest else name
      | None \<Rightarrow> name)"

section \<open>Names identify systems\<close>

lemma system_names_distinct: "distinct (map (\<lambda>(n, _). to_ascii_lowercase n) system_names)"
  by (simp add: system_names_def bstr_def to_ascii_lowercase_def ascii_lower_def of_char_def)

lemma system_names_complete: "\<exists>n. (n, s) \<in> set system_names"
  by (cases s) (simp_all add: system_names_def)

lemma unprefixed_map_of:
  "unprefixed name = map_of (map (\<lambda>(n, s). (to_ascii_lowercase n, s)) system_names) (to_ascii_lowercase name)"
proof -
  have "map_option snd (List.find (\<lambda>(n, _). eq_ignore_ascii_case name n) xs)
      = map_of (map (\<lambda>(n, s). (to_ascii_lowercase n, s)) xs) (to_ascii_lowercase name)" for xs :: "(bytes \<times> unit_system) list"
    by (induction xs) (auto simp: eq_ignore_ascii_case_def to_ascii_lowercase_def)
  then show ?thesis by (simp add: unprefixed_def)
qed

lemma unprefixed_name:
  assumes "(n, s) \<in> set system_names" "eq_ignore_ascii_case name n"
  shows "unprefixed name = Some s"
proof -
  have "distinct (map fst (map (\<lambda>(n, s). (to_ascii_lowercase n, s)) system_names))"
    using system_names_distinct by (simp add: comp_def case_prod_beta')
  moreover have "(to_ascii_lowercase name, s) \<in> set (map (\<lambda>(n, s). (to_ascii_lowercase n, s)) system_names)"
    using assms by (force simp: eq_ignore_ascii_case_def to_ascii_lowercase_def)
  ultimately show ?thesis by (simp add: unprefixed_map_of)
qed

lemma built_by_one_or_either: "built_by_either_base s \<Longrightarrow> technology_base s = None"
  by (auto simp: built_by_either_base_def technology_base_def)

end
