(* ===== verification/Damage_Field.thy ===== *)
theory Damage_Field
  imports Damage_Records Unit_Systems BTree_Map
begin

text \<open>
  The compact damage field of a unit: \<open>damage_field.rs\<close> reads it off the unit, \<open>damage_replacement.rs\<close>
  resolves a written one against the construction, \<open>damage_material.rs\<close>, \<open>component_failure.rs\<close> and
  \<open>damage_weapons.rs\<close> (all under \<open>src/btech/\<close>) turn it back into the unit's material and failures.
  One model serves Mechs and vehicles, as the code's generic functions do: the sections are a type
  parameter and \<open>number\<close> is their number in the text. Unsigned quantities are \<open>nat\<close>; an indexing that
  would panic is the error \<open>IndexPanic\<close>.
\<close>

section \<open>Construction and live state\<close>

record critical_definition =
  equipment :: bytes
  crit_data :: bytes
  crit_modes :: "bytes list"

record section_definition =
  sec_armor :: nat
  sec_internal :: nat
  sec_rear :: nat
  sec_criticals :: "(nat, critical_definition) btree"
  sec_configuration :: "bytes option"

record section_state =
  cur_armor :: nat
  cur_internal :: nat
  cur_rear :: nat

datatype mech_section =
  LeftArm | RightArm | LeftTorso | RightTorso | CenterTorso | LeftLeg | RightLeg | Head

datatype vehicle_section = Left | Right | Front | Rear | Turret | Rotor

text \<open>The derived orders of the two section types are the orders of their declarations.\<close>

fun mech_ordinal :: "mech_section \<Rightarrow> nat" where
  "mech_ordinal LeftArm = 0" | "mech_ordinal RightArm = 1" | "mech_ordinal LeftTorso = 2"
| "mech_ordinal RightTorso = 3" | "mech_ordinal CenterTorso = 4" | "mech_ordinal LeftLeg = 5"
| "mech_ordinal RightLeg = 6" | "mech_ordinal Head = 7"

lemma mech_ordinal_inj: "mech_ordinal a = mech_ordinal b \<longleftrightarrow> a = b"
  by (cases a; cases b) simp_all

instantiation mech_section :: linorder
begin

definition less_eq_mech_section :: "mech_section \<Rightarrow> mech_section \<Rightarrow> bool" where
  "a \<le> b \<longleftrightarrow> mech_ordinal a \<le> mech_ordinal b"

definition less_mech_section :: "mech_section \<Rightarrow> mech_section \<Rightarrow> bool" where
  "a < b \<longleftrightarrow> mech_ordinal a < mech_ordinal b"

instance
  by standard (auto simp: less_eq_mech_section_def less_mech_section_def mech_ordinal_inj)

end

fun vehicle_ordinal :: "vehicle_section \<Rightarrow> nat" where
  "vehicle_ordinal vehicle_section.Left = 0" | "vehicle_ordinal vehicle_section.Right = 1"
| "vehicle_ordinal Front = 2" | "vehicle_ordinal Rear = 3" | "vehicle_ordinal Turret = 4" | "vehicle_ordinal Rotor = 5"

lemma vehicle_ordinal_inj: "vehicle_ordinal a = vehicle_ordinal b \<longleftrightarrow> a = b"
  by (cases a; cases b) simp_all

instantiation vehicle_section :: linorder
begin

definition less_eq_vehicle_section :: "vehicle_section \<Rightarrow> vehicle_section \<Rightarrow> bool" where
  "a \<le> b \<longleftrightarrow> vehicle_ordinal a \<le> vehicle_ordinal b"

definition less_vehicle_section :: "vehicle_section \<Rightarrow> vehicle_section \<Rightarrow> bool" where
  "a < b \<longleftrightarrow> vehicle_ordinal a < vehicle_ordinal b"

instance
  by standard (auto simp: less_eq_vehicle_section_def less_vehicle_section_def vehicle_ordinal_inj)

end

type_synonym 's critical_location = "'s \<times> nat"

text \<open>Of a resolved mount, bin or system slot, the fields the damage field depends on.\<close>

record 's weapon_mount =
  mount_criticals :: "'s critical_location list"

record 's ammunition_bin =
  bin_location :: "'s critical_location"
  bin_capacity :: nat

record 's system_critical =
  sys_location :: "'s critical_location"
  sys_kind :: unit_system

datatype equipment_failure =
  Jammed | Shorted | Dud | Empty | Disabled | AmmunitionJam | CriticalAmmunitionJam

record 's component_failure =
  failed_at :: "'s critical_location"
  failed_as :: equipment_failure

record 's damage_unit =
  definitions :: "('s, section_definition) btree"
  specials :: "bytes option"
  mounts :: "'s weapon_mount list"
  ammo_bins :: "'s ammunition_bin list"
  systems :: "'s system_critical list"
  live_sections :: "('s, section_state) btree"
  rounds :: "nat list"
  lost_criticals :: "'s critical_location set"
  component_failures :: "'s component_failure list"
  weapon_failures :: "(nat, equipment_failure) btree"
  jammed_weapons :: "nat set"
  powered_down_weapons :: "nat set"

section \<open>Failure codes\<close>

fun failure_code :: "equipment_failure \<Rightarrow> nat" where
  "failure_code Jammed = 1"
| "failure_code Shorted = 2"
| "failure_code Dud = 3"
| "failure_code Empty = 4"
| "failure_code Disabled = 5"
| "failure_code AmmunitionJam = 6"
| "failure_code CriticalAmmunitionJam = 7"

definition failure_from_code :: "nat \<Rightarrow> (damage_error, equipment_failure option) result" where
  "failure_from_code code =
     (if code = 0 then Inr None
      else if code = 1 then Inr (Some Jammed)
      else if code = 2 then Inr (Some Shorted)
      else if code = 3 then Inr (Some Dud)
      else if code = 4 then Inr (Some Empty)
      else if code = 5 then Inr (Some Disabled)
      else if code = 6 then Inr (Some AmmunitionJam)
      else if code = 7 then Inr (Some CriticalAmmunitionJam)
      else Inl UnknownFailure)"

definition component_at :: "'s component_failure list \<Rightarrow> 's critical_location \<Rightarrow> equipment_failure option" where
  "component_at failures l = map_option failed_as (List.find (\<lambda>f. failed_at f = l) failures)"

section \<open>Reading the field\<close>

definition placeholder :: "bytes \<Rightarrow> bool" where
  "placeholder name \<longleftrightarrow>
     eq_ignore_ascii_case name (bstr ''SplitCrit_Left'') \<or> eq_ignore_ascii_case name (bstr ''SplitCrit_Right'')
     \<or> (case system_named name of
          Some s \<Rightarrow>
            s \<in> {unit_system.EndoSteel, unit_system.FerroFibrous, unit_system.HeavyFerroFibrous,
              unit_system.LightFerroFibrous, unit_system.TripleStrengthMyomer, unit_system.StealthArmor,
              unit_system.LaserReflective}
        | None \<Rightarrow> False)"

fun mech_number :: "mech_section \<Rightarrow> nat" where
  "mech_number LeftArm = 0"
| "mech_number RightArm = 1"
| "mech_number LeftTorso = 2"
| "mech_number RightTorso = 3"
| "mech_number CenterTorso = 4"
| "mech_number LeftLeg = 5"
| "mech_number RightLeg = 6"
| "mech_number Head = 7"

fun vehicle_number :: "vehicle_section \<Rightarrow> nat" where
  "vehicle_number vehicle_section.Left = 0"
| "vehicle_number vehicle_section.Right = 1"
| "vehicle_number Front = 2"
| "vehicle_number Rear = 3"
| "vehicle_number Turret = 4"
| "vehicle_number Rotor = 5"

definition failure_state :: "bool \<Rightarrow> nat \<Rightarrow> bool \<Rightarrow> nat" where
  "failure_state powered_down critical feed_jammed =
     (if powered_down then 5 else if critical \<noteq> 0 then critical else if feed_jammed then 6 else 0)"

definition weapon_state :: "'s damage_unit \<Rightarrow> nat \<Rightarrow> nat" where
  "weapon_state u i =
     failure_state (i \<in> powered_down_weapons u)
       (case bt_get (weapon_failures u) i of Some f \<Rightarrow> failure_code f | None \<Rightarrow> 0)
       (i \<in> jammed_weapons u)"

definition critical_destroyed :: "'s::linorder damage_unit \<Rightarrow> 's critical_location \<Rightarrow> bool" where
  "critical_destroyed u l \<longleftrightarrow>
     l \<in> lost_criticals u
     \<or> (case bt_get (live_sections u) (fst l) of None \<Rightarrow> True | Some st \<Rightarrow> cur_internal st = 0)"

definition index_map :: "('k::linorder, 'v) btree \<Rightarrow> 'k \<Rightarrow> (damage_error, 'v) result" where
  "index_map m k = (case bt_get m k of Some v \<Rightarrow> Inr v | None \<Rightarrow> Inl IndexPanic)"

definition index_list :: "'a list \<Rightarrow> nat \<Rightarrow> (damage_error, 'a) result" where
  "index_list xs i = ensure_then (i < length xs) IndexPanic (Inr (xs ! i))"

definition armor_records ::
  "('s \<Rightarrow> nat) \<Rightarrow> 's::linorder damage_unit \<Rightarrow> 's \<times> section_definition \<Rightarrow> (damage_error, damage_record list) result" where
  "armor_records number u =
     (\<lambda>(s, original).
        if sec_internal original = 0 then Inr []
        else bind_result (index_map (live_sections u) s) (\<lambda>current.
          Inr (map (\<lambda>(rear, before, after). ArmorLoss (number s) rear (int before - int after))
            (filter (\<lambda>(rear, before, after). before \<noteq> after)
              [(False, sec_armor original, cur_armor current), (True, sec_rear original, cur_rear current)]))))"

definition internal_records ::
  "('s \<Rightarrow> nat) \<Rightarrow> 's::linorder damage_unit \<Rightarrow> 's \<times> section_definition \<Rightarrow> (damage_error, damage_record list) result" where
  "internal_records number u =
     (\<lambda>(s, original).
        bind_result (index_map (live_sections u) s) (\<lambda>current.
          Inr (if sec_internal original \<noteq> 0 \<and> sec_internal original \<noteq> cur_internal current
               then [InternalLoss (number s) (int (sec_internal original) - int (cur_internal current))] else [])))"

definition first_critical :: "'s weapon_mount \<Rightarrow> 's critical_location option" where
  "first_critical w = (case mount_criticals w of [] \<Rightarrow> None | l # _ \<Rightarrow> Some l)"

definition slot_records ::
  "('s \<Rightarrow> nat) \<Rightarrow> 's::linorder damage_unit \<Rightarrow> 's \<Rightarrow> nat \<times> critical_definition \<Rightarrow> (damage_error, damage_record list) result" where
  "slot_records number u s =
     (\<lambda>(slot, part).
        if placeholder (equipment part) then Inr []
        else if critical_destroyed u (s, slot) then Inr [CriticalLost (number s) slot]
        else (case position (\<lambda>b. bin_location b = (s, slot)) (ammo_bins u) of
            Some i \<Rightarrow>
              bind_result (index_list (rounds u) i) (\<lambda>r.
                let spent = int (bin_capacity (ammo_bins u ! i)) - int r
                in Inr (if spent \<noteq> 0 then [AmmunitionSpent (number s) slot spent] else []))
          | None \<Rightarrow>
              (case position (\<lambda>w. first_critical w = Some (s, slot)) (mounts u) of
                 Some i \<Rightarrow>
                   Inr (if weapon_state u i \<noteq> 0 then [TemporaryFailure (number s) slot (int (weapon_state u i))] else [])
               | None \<Rightarrow>
                   (case component_at (component_failures u) (s, slot) of
                      Some f \<Rightarrow> Inr [TemporaryFailure (number s) slot (int (failure_code f))]
                    | None \<Rightarrow> Inr []))))"

definition damage_list :: "('s \<Rightarrow> nat) \<Rightarrow> 's::linorder damage_unit \<Rightarrow> (damage_error, damage_record list) result" where
  "damage_list number u =
     bind_result (collect_result (armor_records number u) (definitions u)) (\<lambda>armor.
     bind_result (collect_result (internal_records number u) (definitions u)) (\<lambda>internal.
     bind_result (collect_result (\<lambda>(s, original). collect_result (slot_records number u s) (sec_criticals original))
         (definitions u)) (\<lambda>slots.
     Inr (concat armor @ concat internal @ concat (concat slots)))))"

definition unit_damage_field :: "('s \<Rightarrow> nat) \<Rightarrow> 's::linorder damage_unit \<Rightarrow> (damage_error, bytes) result" where
  "unit_damage_field number u =
     bind_result (damage_list number u) (\<lambda>rs. Inr (join_with [44] (map record_text rs)))"

end
