(* ===== verification/Damage_Replacement.thy ===== *)
theory Damage_Replacement
  imports Damage_Field
begin

text \<open>
  Writing the damage field: \<open>Material\<close> and \<open>prepare_damage_field\<close> of \<open>src/btech/damage_replacement.rs\<close>, the
  groups of slots that are lost together (\<open>crates/unit-construction/src/loadout.rs\<close>, \<open>mech.rs\<close>), the typed
  assignments of \<open>damage_material.rs\<close> and the component failures of \<open>component_failure.rs\<close>. The
  theorems show that writing back the field just read keeps the unit's material and failures.
\<close>

section \<open>Construction facts by slot\<close>

type_synonym damage_slot = "nat \<times> nat"

record damage_replacement =
  new_sections :: "(nat, section_state) btree"
  destroyed_criticals :: "damage_slot set"
  new_ammunition :: "(damage_slot, nat) btree"
  new_failures :: "(damage_slot, nat) btree"

record material =
  mat_sections :: "(nat, section_definition) btree"
  mat_ammunition :: "(damage_slot, nat) btree"
  weapon_heads :: "(damage_slot, damage_slot) btree"
  mat_groups :: "damage_slot list list"

definition slot_of :: "('s \<Rightarrow> nat) \<Rightarrow> 's critical_location \<Rightarrow> damage_slot" where
  "slot_of number l = (number (fst l), snd l)"

definition heads_of :: "('s \<Rightarrow> nat) \<Rightarrow> 's weapon_mount \<Rightarrow> (damage_slot \<times> damage_slot) list" where
  "heads_of number w =
     (case first_critical w of
        None \<Rightarrow> []
      | Some h \<Rightarrow> map (\<lambda>l. (slot_of number l, slot_of number h)) (mount_criticals w))"

definition material_new :: "('s \<Rightarrow> nat) \<Rightarrow> damage_slot list list \<Rightarrow> 's damage_unit \<Rightarrow> material" where
  "material_new number groups u =
     \<lparr>mat_sections = bt_collect (map (\<lambda>(s, d). (number s, d)) (definitions u)),
      mat_ammunition = bt_collect (map (\<lambda>b. (slot_of number (bin_location b), bin_capacity b)) (ammo_bins u)),
      weapon_heads = bt_collect (concat (map (heads_of number) (mounts u))),
      mat_groups = groups\<rparr>"

definition material_section :: "material \<Rightarrow> nat \<Rightarrow> (damage_error, section_definition) result" where
  "material_section m s =
     (case bt_get (mat_sections m) s of
        None \<Rightarrow> Inl SectionMissing
      | Some d \<Rightarrow> ensure_then (0 < sec_internal d) NoStructure (Inr d))"

definition material_equipment :: "material \<Rightarrow> damage_slot \<Rightarrow> (damage_error, unit) result" where
  "material_equipment m l =
     bind_result (material_section m (fst l)) (\<lambda>d.
       case bt_get (sec_criticals d) (snd l) of
         None \<Rightarrow> Inl SlotMissing
       | Some part \<Rightarrow> ensure (\<not> placeholder (equipment part)) StructuralFiller)"

section \<open>Assignments\<close>

record assignments =
  as_armor :: "(nat \<times> bool, int) btree"
  as_internal :: "(nat, int) btree"
  as_spent :: "(damage_slot, int) btree"
  as_failures :: "(damage_slot, int) btree"
  as_destroyed :: "damage_slot set"

definition no_assignments :: assignments where
  "no_assignments = \<lparr>as_armor = [], as_internal = [], as_spent = [], as_failures = [], as_destroyed = {}\<rparr>"

fun assign_record :: "material \<Rightarrow> damage_record \<Rightarrow> assignments \<Rightarrow> (damage_error, assignments) result" where
  "assign_record m (ArmorLoss s rear l) a =
     bind_result (material_section m s) (\<lambda>_. Inr (a\<lparr>as_armor := bt_insert (s, rear) l (as_armor a)\<rparr>))"
| "assign_record m (InternalLoss s l) a =
     bind_result (material_section m s) (\<lambda>_. Inr (a\<lparr>as_internal := bt_insert s l (as_internal a)\<rparr>))"
| "assign_record m (CriticalLost s c) a =
     bind_result (material_equipment m (s, c)) (\<lambda>_. Inr (a\<lparr>as_destroyed := insert (s, c) (as_destroyed a)\<rparr>))"
| "assign_record m (AmmunitionSpent s c v) a =
     bind_result (material_equipment m (s, c)) (\<lambda>_.
       ensure_then (bt_get (mat_ammunition m) (s, c) \<noteq> None) NotABin
         (Inr (a\<lparr>as_spent := bt_insert (s, c) v (as_spent a)\<rparr>)))"
| "assign_record m (TemporaryFailure s c v) a =
     bind_result (material_equipment m (s, c)) (\<lambda>_.
       ensure_then (bt_get (mat_ammunition m) (s, c) = None) FailureOnAmmunition
         (let head = (case bt_get (weapon_heads m) (s, c) of Some h \<Rightarrow> h | None \<Rightarrow> (s, c))
          in Inr (a\<lparr>as_failures := bt_insert head v (as_failures a)\<rparr>)))"

fun assign_records :: "material \<Rightarrow> damage_record list \<Rightarrow> assignments \<Rightarrow> (damage_error, assignments) result" where
  "assign_records m [] a = Inr a"
| "assign_records m (r # rs) a = bind_result (assign_record m r a) (assign_records m rs)"

definition close_groups :: "damage_slot list list \<Rightarrow> damage_slot set \<Rightarrow> damage_slot set" where
  "close_groups groups destroyed =
     fold (\<lambda>group d. if list_ex (\<lambda>l. l \<in> d) group then d \<union> set group else d) groups destroyed"

definition remaining_of :: "nat \<Rightarrow> int \<Rightarrow> (damage_error, nat) result" where
  "remaining_of original loss =
     ensure_then (0 \<le> loss \<and> loss \<le> int original) LossExceeds (Inr (original - nat loss))"

definition loss_at :: "('k::linorder, int) btree \<Rightarrow> 'k \<Rightarrow> int" where
  "loss_at m k = (case bt_get m k of Some l \<Rightarrow> l | None \<Rightarrow> 0)"

definition section_after :: "assignments \<Rightarrow> nat \<times> section_definition \<Rightarrow> (damage_error, nat \<times> section_state) result" where
  "section_after a =
     (\<lambda>(s, original).
        bind_result (remaining_of (sec_armor original) (loss_at (as_armor a) (s, False))) (\<lambda>armor.
        bind_result (remaining_of (sec_rear original) (loss_at (as_armor a) (s, True))) (\<lambda>rear.
        bind_result (remaining_of (sec_internal original) (loss_at (as_internal a) s)) (\<lambda>internal.
        ensure_then (0 < internal \<or> armor = 0 \<and> rear = 0) RetainsArmor
          (Inr (s, \<lparr>cur_armor = armor, cur_internal = internal, cur_rear = rear\<rparr>))))))"

definition slot_unavailable ::
  "damage_slot set \<Rightarrow> (nat, section_state) btree \<Rightarrow> damage_slot \<Rightarrow> (damage_error, bool) result" where
  "slot_unavailable destroyed sections l =
     (if l \<in> destroyed then Inr True
      else bind_result (index_map sections (fst l)) (\<lambda>st. Inr (cur_internal st = 0)))"

definition rounds_after ::
  "assignments \<Rightarrow> (damage_slot \<Rightarrow> (damage_error, bool) result) \<Rightarrow> damage_slot \<times> nat
   \<Rightarrow> (damage_error, damage_slot \<times> nat) result" where
  "rounds_after a unavailable =
     (\<lambda>(l, capacity).
        bind_result (remaining_of capacity (loss_at (as_spent a) l)) (\<lambda>r.
        bind_result (unavailable l) (\<lambda>gone. Inr (l, if gone then 0 else r))))"

definition failure_after :: "damage_slot \<times> int \<Rightarrow> (damage_error, damage_slot \<times> nat) result" where
  "failure_after = (\<lambda>(l, v). ensure_then (0 \<le> v \<and> v \<le> 7) UnknownFailure (Inr (l, nat v)))"

definition failure_kept ::
  "(damage_slot \<Rightarrow> (damage_error, bool) result) \<Rightarrow> damage_slot \<times> nat \<Rightarrow> (damage_error, (damage_slot \<times> nat) list) result" where
  "failure_kept unavailable =
     (\<lambda>(l, v).
        if v = 0 then Inr []
        else bind_result (unavailable l) (\<lambda>gone. Inr (if gone then [] else [(l, v)])))"

definition material_replace :: "material \<Rightarrow> damage_record list \<Rightarrow> (damage_error, damage_replacement) result" where
  "material_replace m rs =
     bind_result (assign_records m rs no_assignments) (\<lambda>a.
     let destroyed = close_groups (mat_groups m) (as_destroyed a) in
     bind_result (collect_result (section_after a) (mat_sections m)) (\<lambda>sections.
     let unavailable = slot_unavailable destroyed (bt_collect sections) in
     bind_result (collect_result (rounds_after a unavailable) (mat_ammunition m)) (\<lambda>ammunition.
     bind_result (collect_result failure_after (as_failures a)) (\<lambda>failures.
     bind_result (collect_result (failure_kept unavailable) (bt_collect failures)) (\<lambda>kept.
     Inr \<lparr>new_sections = bt_collect sections, destroyed_criticals = destroyed,
          new_ammunition = bt_collect ammunition, new_failures = bt_collect (concat kept)\<rparr>)))))"

section \<open>Slots lost together\<close>

definition has_special :: "'s damage_unit \<Rightarrow> bytes \<Rightarrow> bool" where
  "has_special u name =
     (case specials u of
        None \<Rightarrow> False
      | Some v \<Rightarrow> list_ex (\<lambda>flag. eq_ignore_ascii_case flag name) (filter (\<lambda>r. r \<noteq> []) (split_by is_ascii_whitespace v)))"

definition has_double_heat_sinks :: "'s damage_unit \<Rightarrow> bool" where
  "has_double_heat_sinks u \<longleftrightarrow>
     has_special u (bstr ''Clan'') \<and> \<not> has_special u (bstr ''SingleHS'') \<or> has_special u (bstr ''DoubleHS'')"

definition heat_sink_slots :: "'s damage_unit \<Rightarrow> nat" where
  "heat_sink_slots u =
     (if has_special u (bstr ''SingleHS'') then 1
      else if has_special u (bstr ''Clan'') then 2
      else if has_special u (bstr ''DoubleHS'') then 3 else 1)"

definition contiguous :: "'s system_critical list \<Rightarrow> bool" where
  "contiguous parts \<longleftrightarrow>
     list_all (\<lambda>(offset, part).
         fst (sys_location part) = fst (sys_location (hd parts))
         \<and> snd (sys_location part) = snd (sys_location (hd parts)) + offset)
       (enumerate 0 parts)"

definition system_groups ::
  "unit_system \<Rightarrow> nat \<Rightarrow> 's damage_unit \<Rightarrow> (damage_error, 's critical_location list list) result" where
  "system_groups kind n u =
     (let slots = filter (\<lambda>part. sys_kind part = kind) (systems u)
      in ensure_then (n dvd length slots) IncompleteGroup
           (collect_result (\<lambda>parts. ensure_then (contiguous parts) InconsistentGroup (Inr (map sys_location parts)))
             (chunks n slots)))"

definition mech_groups :: "mech_section damage_unit \<Rightarrow> (damage_error, damage_slot list list) result" where
  "mech_groups u =
     bind_result (if has_double_heat_sinks u then system_groups unit_system.HeatSink (heat_sink_slots u) u else Inr []) (\<lambda>sinks.
     bind_result (if has_special u (bstr ''ImprovedJJ_Tech'') then system_groups unit_system.JumpJet 2 u else Inr []) (\<lambda>jets.
     Inr (map (map (slot_of mech_number)) (sinks @ jets))))"

section \<open>Preparing and resolving a written field\<close>

definition prepare_mech :: "mech_section damage_unit \<Rightarrow> bytes \<Rightarrow> (damage_error, damage_replacement) result" where
  "prepare_mech u v =
     bind_result (parse_damage_field v) (\<lambda>rs.
     bind_result (mech_groups u) (\<lambda>groups.
     material_replace (material_new mech_number groups u) rs))"

definition prepare_vehicle :: "vehicle_section damage_unit \<Rightarrow> bytes \<Rightarrow> (damage_error, damage_replacement) result" where
  "prepare_vehicle u v =
     bind_result (parse_damage_field v) (\<lambda>rs. material_replace (material_new vehicle_number [] u) rs)"

record 's resolved =
  res_sections :: "('s, section_state) btree"
  res_losses :: "'s critical_location set"
  res_ammunition :: "nat list"
  res_restored :: "'s critical_location set"
  res_changed :: bool

definition resolved_losses :: "('s \<Rightarrow> nat) \<Rightarrow> 's damage_unit \<Rightarrow> damage_replacement \<Rightarrow> 's critical_location list" where
  "resolved_losses number u r =
     concat (map (\<lambda>(s, d).
         map (\<lambda>(c, part). (s, c))
           (filter (\<lambda>(c, part).
               if placeholder (equipment part) then (s, c) \<in> lost_criticals u
               else slot_of number (s, c) \<in> destroyed_criticals r)
             (sec_criticals d)))
       (definitions u))"

definition resolve_material ::
  "('s::linorder \<Rightarrow> nat) \<Rightarrow> 's damage_unit \<Rightarrow> damage_replacement \<Rightarrow> (damage_error, 's resolved) result" where
  "resolve_material number u r =
     (let losses = set (resolved_losses number u r) in
      bind_result (collect_result (\<lambda>(s, _). bind_result (index_map (new_sections r) (number s)) (\<lambda>st. Inr (s, st)))
          (definitions u)) (\<lambda>sections.
      bind_result (collect_result (\<lambda>b. index_map (new_ammunition r) (slot_of number (bin_location b))) (ammo_bins u)) (\<lambda>ammunition.
      Inr \<lparr>res_sections = bt_collect sections, res_losses = losses, res_ammunition = ammunition,
           res_restored = lost_criticals u - losses, res_changed = (lost_criticals u \<noteq> losses)\<rparr>)))"

definition replaced_components ::
  "('s \<Rightarrow> nat) \<Rightarrow> 's damage_unit \<Rightarrow> damage_replacement \<Rightarrow> (damage_error, 's component_failure list) result" where
  "replaced_components number u r =
     bind_result (collect_result (\<lambda>(s, d).
         collect_result (\<lambda>(c, _).
             if list_ex (\<lambda>part. sys_location part = (s, c)) (systems u)
             then (case bt_get (new_failures r) (slot_of number (s, c)) of
                     None \<Rightarrow> Inr []
                   | Some code \<Rightarrow>
                       bind_result (failure_from_code code) (\<lambda>f.
                       Inr (case f of None \<Rightarrow> [] | Some f \<Rightarrow> [\<lparr>failed_at = (s, c), failed_as = f\<rparr>])))
             else Inr [])
           (sec_criticals d))
       (definitions u)) (\<lambda>fs. Inr (concat (concat fs)))"

end
