(* ===== verification/Damage_Roundtrip.thy ===== *)
theory Damage_Roundtrip
  imports Damage_Replacement
begin

text \<open>
  Writing back the damage field just read. The hypotheses are the checks of \<open>Mech::validate\<close>
  (\<open>src/btech/unit.rs\<close>) and \<open>Vehicle::validate\<close> (\<open>vehicle.rs\<close>) on a unit outside contract loadouts, and
  what a resolved construction guarantees of its slots.
\<close>

section \<open>Well-formed units\<close>

definition installed :: "'s::linorder damage_unit \<Rightarrow> 's critical_location \<Rightarrow> critical_definition option" where
  "installed u l =
     (case bt_get (definitions u) (fst l) of None \<Rightarrow> None | Some d \<Rightarrow> bt_get (sec_criticals d) (snd l))"

definition listed :: "'s::linorder damage_unit \<Rightarrow> 's critical_location \<Rightarrow> bool" where
  "listed u l \<longleftrightarrow> (case installed u l of None \<Rightarrow> False | Some part \<Rightarrow> \<not> placeholder (equipment part))"

definition section_layout :: "section_definition \<Rightarrow> bool" where
  "section_layout d \<longleftrightarrow>
     sec_armor d < 65536 \<and> sec_internal d < 65536 \<and> sec_rear d < 65536
     \<and> bt_ok (sec_criticals d) \<and> list_all (\<lambda>(c, _). c < 12) (sec_criticals d)
     \<and> (sec_internal d = 0 \<longrightarrow> sec_armor d = 0 \<and> sec_rear d = 0 \<and> sec_criticals d = [])"

definition mount_slots :: "'s damage_unit \<Rightarrow> 's critical_location list" where
  "mount_slots u = concat (map mount_criticals (mounts u))"

definition layout_ok :: "'s::linorder damage_unit \<Rightarrow> bool" where
  "layout_ok u \<longleftrightarrow>
     bt_ok (definitions u) \<and> list_all (\<lambda>(s, d). section_layout d) (definitions u)
     \<and> distinct (map bin_location (ammo_bins u))
     \<and> list_all (\<lambda>b. listed u (bin_location b) \<and> bin_capacity b < 65536) (ammo_bins u)
     \<and> distinct (mount_slots u)
     \<and> list_all (\<lambda>w. mount_criticals w \<noteq> [] \<and> listed u (hd (mount_criticals w))) (mounts u)
     \<and> set (mount_slots u) \<inter> set (map bin_location (ammo_bins u)) = {}
     \<and> set (map sys_location (systems u)) \<inter> (set (mount_slots u) \<union> set (map bin_location (ammo_bins u))) = {}"

definition within :: "section_definition \<Rightarrow> section_state \<Rightarrow> bool" where
  "within d st \<longleftrightarrow>
     cur_armor st \<le> sec_armor d \<and> cur_internal st \<le> sec_internal d \<and> cur_rear st \<le> sec_rear d
     \<and> (cur_internal st \<noteq> 0 \<or> cur_armor st = 0 \<and> cur_rear st = 0)"

definition unit_valid :: "'s::linorder damage_unit \<Rightarrow> bool" where
  "unit_valid u \<longleftrightarrow>
     map fst (live_sections u) = map fst (definitions u)
     \<and> list_all (\<lambda>((s, d), (_, st)). within d st) (zip (definitions u) (live_sections u))
     \<and> length (rounds u) = length (ammo_bins u)
     \<and> list_all (\<lambda>(b, r). r \<le> bin_capacity b \<and> (critical_destroyed u (bin_location b) \<longrightarrow> r = 0)) (zip (ammo_bins u) (rounds u))
     \<and> (\<forall>l\<in>lost_criticals u. installed u l \<noteq> None)
     \<and> distinct (map failed_at (component_failures u))
     \<and> list_all (\<lambda>f. failed_at f \<in> set (map sys_location (systems u)) \<and> listed u (failed_at f)) (component_failures u)"

section \<open>Reading\<close>

lemma collect_result_total:
  assumes "\<And>x. x \<in> set xs \<Longrightarrow> \<exists>y. f x = Inr y"
  obtains ys where "collect_result f xs = Inr ys" "\<And>y. y \<in> set ys \<longleftrightarrow> (\<exists>x\<in>set xs. f x = Inr y)"
proof -
  obtain g where g: "f x = Inr (g x)" if "x \<in> set xs" for x using assms by metis
  have "collect_result f xs = Inr (map g xs)" by (rule collect_result_Inr) (rule g)
  then show thesis by (rule that) (use g in \<open>force simp: image_iff\<close>)
qed

text \<open>The facts of a well-formed unit, section by section and bin by bin.\<close>

definition cur :: "'s::linorder damage_unit \<Rightarrow> 's \<Rightarrow> section_state" where
  "cur u s = (case bt_get (live_sections u) s of Some st \<Rightarrow> st | None \<Rightarrow> \<lparr>cur_armor = 0, cur_internal = 0, cur_rear = 0\<rparr>)"

lemma zip_keys:
  assumes "map fst xs = map fst ys" and "distinct (map fst xs)" and "(k, x) \<in> set xs" and "list_all P (zip xs ys)"
  obtains y where "(k, y) \<in> set ys" "P ((k, x), (k, y))"
proof -
  obtain i where i: "i < length xs" "xs ! i = (k, x)" using assms(3) by (auto simp: in_set_conv_nth)
  have len: "length xs = length ys" using assms(1) by (metis length_map)
  have "fst (ys ! i) = k" using assms(1) i len by (metis fst_conv length_map nth_map)
  then have y: "ys ! i = (k, snd (ys ! i))" by (metis prod.collapse)
  have "P (zip xs ys ! i)" using assms(4) i(1) len by (simp add: list_all_length)
  then show thesis using that [of "snd (ys ! i)"] i len y by (metis nth_mem nth_zip)
qed

lemma definition_facts:
  assumes "layout_ok u" and "unit_valid u" and "(s, d) \<in> set (definitions u)"
  shows "bt_get (live_sections u) s = Some (cur u s)" and "within d (cur u s)" and "section_layout d"
    and "bt_get (definitions u) s = Some d"
proof -
  have ok: "bt_ok (definitions u)" using assms(1) by (simp add: layout_ok_def)
  then have live: "bt_ok (live_sections u)" using assms(2) by (simp add: unit_valid_def bt_ok_def)
  have keys: "map fst (definitions u) = map fst (live_sections u)"
    and w: "list_all (\<lambda>((s, d), (_, st)). within d st) (zip (definitions u) (live_sections u))"
    using assms(2) by (simp_all add: unit_valid_def)
  obtain st where st: "(s, st) \<in> set (live_sections u)" "within d st"
    by (rule zip_keys [OF keys bt_ok_distinct [OF ok] assms(3) w]) auto
  have g: "bt_get (live_sections u) s = Some st" using st(1) by (simp add: bt_get_in_set [OF live])
  show "bt_get (live_sections u) s = Some (cur u s)" "within d (cur u s)" using g st(2) by (simp_all add: cur_def)
  show "bt_get (definitions u) s = Some d" using assms(3) by (simp add: bt_get_in_set [OF ok])
  show "section_layout d" using assms(1,3) by (auto simp: layout_ok_def list_all_iff)
qed

lemma installed_iff:
  assumes "layout_ok u"
  shows "installed u (s, c) = Some part \<longleftrightarrow> (\<exists>d. (s, d) \<in> set (definitions u) \<and> (c, part) \<in> set (sec_criticals d))"
proof -
  have ok: "bt_ok (definitions u)" and sub: "(s, d) \<in> set (definitions u) \<Longrightarrow> bt_ok (sec_criticals d)" for d
    using assms by (auto simp: layout_ok_def list_all_iff section_layout_def)
  show ?thesis
    by (auto simp: installed_def bt_get_in_set [OF ok] bt_get_in_set [OF sub] split: option.splits)
      (metis bt_get_in_set ok option.distinct(1), metis bt_get_in_set [OF ok] bt_get_in_set sub option.inject)
qed

lemma listed_facts:
  assumes "layout_ok u" and "listed u (s, c)"
  obtains d part where "(s, d) \<in> set (definitions u)" "(c, part) \<in> set (sec_criticals d)" "\<not> placeholder (equipment part)"
    "c < 12" "0 < sec_internal d"
proof -
  obtain part where p: "installed u (s, c) = Some part" "\<not> placeholder (equipment part)"
    using assms(2) by (auto simp: listed_def split: option.splits)
  then obtain d where d: "(s, d) \<in> set (definitions u)" "(c, part) \<in> set (sec_criticals d)"
    by (auto simp: installed_iff [OF assms(1)])
  then have "section_layout d" using assms(1) by (auto simp: layout_ok_def list_all_iff)
  then have "c < 12" "0 < sec_internal d" using d(2) by (auto simp: section_layout_def list_all_iff)
  then show thesis using that d p(2) by blast
qed

lemma listedI:
  assumes "layout_ok u" and "(s, d) \<in> set (definitions u)" and "(c, part) \<in> set (sec_criticals d)" and "\<not> placeholder (equipment part)"
  shows "listed u (s, c)"
proof -
  have "installed u (s, c) = Some part" using assms(2,3) installed_iff [OF assms(1)] by blast
  then show ?thesis using assms(4) by (simp add: listed_def)
qed

lemma bin_facts:
  assumes "layout_ok u" and "unit_valid u" and "i < length (ammo_bins u)"
  shows "i < length (rounds u)" and "rounds u ! i \<le> bin_capacity (ammo_bins u ! i)"
    and "critical_destroyed u (bin_location (ammo_bins u ! i)) \<Longrightarrow> rounds u ! i = 0"
    and "bin_capacity (ammo_bins u ! i) < 65536" and "listed u (bin_location (ammo_bins u ! i))"
  using assms by (auto simp: unit_valid_def layout_ok_def list_all_length)

text \<open>The condition shown at a slot that is neither lost nor a bin.\<close>

definition shown_condition :: "'s damage_unit \<Rightarrow> 's critical_location \<Rightarrow> nat" where
  "shown_condition u l =
     (case position (\<lambda>w. first_critical w = Some l) (mounts u) of
        Some i \<Rightarrow> weapon_state u i
      | None \<Rightarrow> (case component_at (component_failures u) l of Some f \<Rightarrow> failure_code f | None \<Rightarrow> 0))"

definition failing :: "'s::linorder damage_unit \<Rightarrow> 's critical_location \<Rightarrow> bool" where
  "failing u l \<longleftrightarrow>
     listed u l \<and> \<not> critical_destroyed u l \<and> l \<notin> set (map bin_location (ammo_bins u)) \<and> shown_condition u l \<noteq> 0"

inductive reported :: "('s \<Rightarrow> nat) \<Rightarrow> 's::linorder damage_unit \<Rightarrow> damage_record \<Rightarrow> bool" for number u where
  armor: "(s, d) \<in> set (definitions u) \<Longrightarrow> 0 < sec_internal d \<Longrightarrow> sec_armor d \<noteq> cur_armor (cur u s)
    \<Longrightarrow> reported number u (ArmorLoss (number s) False (int (sec_armor d) - int (cur_armor (cur u s))))"
| rear: "(s, d) \<in> set (definitions u) \<Longrightarrow> 0 < sec_internal d \<Longrightarrow> sec_rear d \<noteq> cur_rear (cur u s)
    \<Longrightarrow> reported number u (ArmorLoss (number s) True (int (sec_rear d) - int (cur_rear (cur u s))))"
| internal: "(s, d) \<in> set (definitions u) \<Longrightarrow> 0 < sec_internal d \<Longrightarrow> sec_internal d \<noteq> cur_internal (cur u s)
    \<Longrightarrow> reported number u (InternalLoss (number s) (int (sec_internal d) - int (cur_internal (cur u s))))"
| lost: "listed u (s, c) \<Longrightarrow> critical_destroyed u (s, c) \<Longrightarrow> reported number u (CriticalLost (number s) c)"
| spent: "listed u (s, c) \<Longrightarrow> \<not> critical_destroyed u (s, c) \<Longrightarrow> i < length (ammo_bins u)
    \<Longrightarrow> bin_location (ammo_bins u ! i) = (s, c) \<Longrightarrow> bin_capacity (ammo_bins u ! i) \<noteq> rounds u ! i
    \<Longrightarrow> reported number u (AmmunitionSpent (number s) c (int (bin_capacity (ammo_bins u ! i)) - int (rounds u ! i)))"
| failure: "failing u (s, c) \<Longrightarrow> reported number u (TemporaryFailure (number s) c (int (shown_condition u (s, c))))"

inductive_simps reported_simps:
  "reported number u (ArmorLoss n b l)" "reported number u (InternalLoss n l)" "reported number u (CriticalLost n c)"
  "reported number u (AmmunitionSpent n c v)" "reported number u (TemporaryFailure n c v)"

lemma failure_code_bounds: "0 < failure_code f" "failure_code f \<le> 7"
  by (cases f; simp)+

lemma bin_position:
  assumes "layout_ok u"
  shows "position (\<lambda>b. bin_location b = l) (ammo_bins u) = Some i \<longleftrightarrow> i < length (ammo_bins u) \<and> bin_location (ammo_bins u ! i) = l"
    and "position (\<lambda>b. bin_location b = l) (ammo_bins u) = None \<longleftrightarrow> l \<notin> set (map bin_location (ammo_bins u))"
proof -
  have d: "distinct (map bin_location (ammo_bins u))" using assms by (simp add: layout_ok_def)
  show N: "position (\<lambda>b. bin_location b = l) (ammo_bins u) = None \<longleftrightarrow> l \<notin> set (map bin_location (ammo_bins u))"
    by (auto simp: position_None)
  have "j = i" if "j < length (ammo_bins u)" "bin_location (ammo_bins u ! j) = l" "i < length (ammo_bins u)"
    "bin_location (ammo_bins u ! i) = l" for j
    using that nth_eq_iff_index_eq [OF d, of j i] by simp
  moreover have "position (\<lambda>b. bin_location b = l) (ammo_bins u) \<noteq> None"
    if "i < length (ammo_bins u)" "bin_location (ammo_bins u ! i) = l"
    using that unfolding N by force
  ultimately show "position (\<lambda>b. bin_location b = l) (ammo_bins u) = Some i
      \<longleftrightarrow> i < length (ammo_bins u) \<and> bin_location (ammo_bins u ! i) = l"
    using position_Some [of "\<lambda>b. bin_location b = l" "ammo_bins u"] by blast
qed

definition armor_report :: "('s \<Rightarrow> nat) \<Rightarrow> 's::linorder damage_unit \<Rightarrow> 's \<times> section_definition \<Rightarrow> damage_record list" where
  "armor_report number u = (\<lambda>(s, d).
     if sec_internal d = 0 then []
     else (if sec_armor d \<noteq> cur_armor (cur u s) then [ArmorLoss (number s) False (int (sec_armor d) - int (cur_armor (cur u s)))] else [])
       @ (if sec_rear d \<noteq> cur_rear (cur u s) then [ArmorLoss (number s) True (int (sec_rear d) - int (cur_rear (cur u s)))] else []))"

definition internal_report :: "('s \<Rightarrow> nat) \<Rightarrow> 's::linorder damage_unit \<Rightarrow> 's \<times> section_definition \<Rightarrow> damage_record list" where
  "internal_report number u = (\<lambda>(s, d).
     if sec_internal d \<noteq> 0 \<and> sec_internal d \<noteq> cur_internal (cur u s)
     then [InternalLoss (number s) (int (sec_internal d) - int (cur_internal (cur u s)))] else [])"

definition slot_report :: "('s \<Rightarrow> nat) \<Rightarrow> 's::linorder damage_unit \<Rightarrow> 's \<Rightarrow> nat \<times> critical_definition \<Rightarrow> damage_record list" where
  "slot_report number u s = (\<lambda>(c, part).
     if placeholder (equipment part) then []
     else if critical_destroyed u (s, c) then [CriticalLost (number s) c]
     else case position (\<lambda>b. bin_location b = (s, c)) (ammo_bins u) of
         Some i \<Rightarrow>
           if bin_capacity (ammo_bins u ! i) \<noteq> rounds u ! i
           then [AmmunitionSpent (number s) c (int (bin_capacity (ammo_bins u ! i)) - int (rounds u ! i))] else []
       | None \<Rightarrow>
           if shown_condition u (s, c) \<noteq> 0 then [TemporaryFailure (number s) c (int (shown_condition u (s, c)))] else [])"

lemma section_reports:
  assumes "layout_ok u" and "unit_valid u" and "e \<in> set (definitions u)"
  shows "armor_records number u e = Inr (armor_report number u e)"
    and "internal_records number u e = Inr (internal_report number u e)"
proof -
  obtain s d where e: "e = (s, d)" by (cases e)
  have "index_map (live_sections u) s = Inr (cur u s)"
    using definition_facts(1) [OF assms(1,2), of s d] assms(3) e by (simp add: index_map_def)
  then show "armor_records number u e = Inr (armor_report number u e)"
    "internal_records number u e = Inr (internal_report number u e)"
    by (auto simp: armor_records_def armor_report_def internal_records_def internal_report_def e)
qed

lemma slot_reports:
  assumes "layout_ok u" and "unit_valid u"
  shows "slot_records number u s e = Inr (slot_report number u s e)"
proof -
  obtain c part where e: "e = (c, part)" by (cases e)
  have r: "index_list (rounds u) i = Inr (rounds u ! i)"
    if "position (\<lambda>b. bin_location b = (s, c)) (ammo_bins u) = Some i" for i
    using that bin_facts(1) [OF assms, of i] by (simp add: bin_position(1) [OF assms(1)] index_list_def)
  have nz: "failure_code f \<noteq> 0" for f by (cases f) simp_all
  show ?thesis
    by (auto simp: nz slot_records_def slot_report_def e r shown_condition_def Let_def split: option.split)
qed

lemma in_slot_report:
  assumes "layout_ok u"
  shows "r \<in> set (slot_report number u s (c, part)) \<longleftrightarrow>
    \<not> placeholder (equipment part)
    \<and> (if critical_destroyed u (s, c) then r = CriticalLost (number s) c
       else (\<exists>i<length (ammo_bins u). bin_location (ammo_bins u ! i) = (s, c) \<and> bin_capacity (ammo_bins u ! i) \<noteq> rounds u ! i
               \<and> r = AmmunitionSpent (number s) c (int (bin_capacity (ammo_bins u ! i)) - int (rounds u ! i)))
         \<or> (s, c) \<notin> set (map bin_location (ammo_bins u)) \<and> shown_condition u (s, c) \<noteq> 0
            \<and> r = TemporaryFailure (number s) c (int (shown_condition u (s, c))))"
proof (cases "position (\<lambda>b. bin_location b = (s, c)) (ammo_bins u)")
  case None
  then have "(s, c) \<notin> set (map bin_location (ammo_bins u))" using bin_position(2) [OF assms, of "(s, c)"] by simp
  moreover from this have ex: "(\<exists>j<length (ammo_bins u). bin_location (ammo_bins u ! j) = (s, c) \<and> P j) \<longleftrightarrow> False" for P
    by (metis length_map nth_map nth_mem)
  ultimately show ?thesis unfolding ex by (simp add: slot_report_def None) blast
next
  case (Some i)
  then have one: "j < length (ammo_bins u) \<and> bin_location (ammo_bins u ! j) = (s, c) \<longleftrightarrow> j = i" for j
    using bin_position(1) [OF assms, of "(s, c)" j] by auto
  have ex: "(\<exists>j<length (ammo_bins u). bin_location (ammo_bins u ! j) = (s, c) \<and> P j) \<longleftrightarrow> P i" for P
    by (simp only: conj_assoc [symmetric] one) simp
  have "(s, c) \<in> set (map bin_location (ammo_bins u))" using Some bin_position(2) [OF assms, of "(s, c)"] by simp
  then show ?thesis unfolding ex by (simp add: slot_report_def Some) blast
qed

definition full_report :: "('s \<Rightarrow> nat) \<Rightarrow> 's::linorder damage_unit \<Rightarrow> damage_record list" where
  "full_report number u =
     concat (map (armor_report number u) (definitions u)) @ concat (map (internal_report number u) (definitions u))
     @ concat (concat (map (\<lambda>(s, d). map (slot_report number u s) (sec_criticals d)) (definitions u)))"

lemma in_full_report:
  "r \<in> set (full_report number u) \<longleftrightarrow>
    (\<exists>(s, d)\<in>set (definitions u). r \<in> set (armor_report number u (s, d)) \<or> r \<in> set (internal_report number u (s, d))
      \<or> (\<exists>(c, part)\<in>set (sec_criticals d). r \<in> set (slot_report number u s (c, part))))"
  by (force simp: full_report_def)

lemma slot_reportI:
  assumes "layout_ok u" and "listed u (s, c)"
    and "\<And>part. \<not> placeholder (equipment part) \<Longrightarrow> r \<in> set (slot_report number u s (c, part))"
  shows "r \<in> set (full_report number u)"
proof -
  obtain d part where "(s, d) \<in> set (definitions u)" "(c, part) \<in> set (sec_criticals d)" "\<not> placeholder (equipment part)"
    using listed_facts [OF assms(1,2)] .
  then show ?thesis using assms(3) [of part] unfolding in_full_report by blast
qed

lemma report_sound:
  assumes "layout_ok u" and "r \<in> set (full_report number u)"
  shows "reported number u r"
proof -
  consider (armor) s d where "(s, d) \<in> set (definitions u)" "r \<in> set (armor_report number u (s, d))"
    | (internal) s d where "(s, d) \<in> set (definitions u)" "r \<in> set (internal_report number u (s, d))"
    | (slot) s d c part where "(s, d) \<in> set (definitions u)" "(c, part) \<in> set (sec_criticals d)" "r \<in> set (slot_report number u s (c, part))"
    using assms(2) unfolding in_full_report by auto
  then show ?thesis
  proof cases
    case armor
    then show ?thesis by (auto simp: armor_report_def intro: reported.intros split: if_splits)
  next
    case internal
    then show ?thesis by (auto simp: internal_report_def intro: reported.intros split: if_splits)
  next
    case slot
    then have "listed u (s, c)" using listedI [OF assms(1)] by (auto simp: in_slot_report [OF assms(1)])
    then show ?thesis using slot(3)
      by (auto simp: in_slot_report [OF assms(1)] failing_def intro!: reported.intros split: if_splits)
  qed
qed

lemma report_complete:
  assumes "layout_ok u" and "reported number u r"
  shows "r \<in> set (full_report number u)"
  using assms(2)
proof cases
  case (lost s c)
  then show ?thesis by (intro slot_reportI [OF assms(1)]) (auto simp: in_slot_report [OF assms(1)])
next
  case (spent s c i)
  then have "r \<in> set (slot_report number u s (c, part))" if "\<not> placeholder (equipment part)" for part
    using that unfolding in_slot_report [OF assms(1)] by auto
  then show ?thesis by (rule slot_reportI [OF assms(1) spent(2)])
next
  case (failure s c)
  then show ?thesis
    by (intro slot_reportI [OF assms(1), of s c]) (auto simp: in_slot_report [OF assms(1)] failing_def)
qed (force simp: in_full_report armor_report_def internal_report_def)+

lemma damage_list_reported:
  assumes "layout_ok u" and "unit_valid u"
  obtains rs where "damage_list number u = Inr rs" "\<And>r. r \<in> set rs \<longleftrightarrow> reported number u r"
proof -
  let ?slots = "\<lambda>(s, d). map (slot_report number u s) (sec_criticals d)"
  have "collect_result (\<lambda>(s, d). collect_result (slot_records number u s) (sec_criticals d)) (definitions u)
      = Inr (map ?slots (definitions u))"
    by (rule collect_result_Inr)
      (auto intro!: collect_result_Inr simp: slot_reports [OF assms])
  then have "damage_list number u = Inr (full_report number u)"
    by (simp add: damage_list_def full_report_def collect_result_Inr [OF section_reports(1) [OF assms]] collect_result_Inr [OF section_reports(2) [OF assms]])
  then show thesis by (rule that) (use report_sound [OF assms(1)] report_complete [OF assms(1)] in blast)
qed

section \<open>Assigning\<close>

definition armor_pairs :: "damage_record list \<Rightarrow> ((nat \<times> bool) \<times> int) list" where
  "armor_pairs rs = concat (map (\<lambda>r. case r of ArmorLoss s b l \<Rightarrow> [((s, b), l)] | _ \<Rightarrow> []) rs)"

definition internal_pairs :: "damage_record list \<Rightarrow> (nat \<times> int) list" where
  "internal_pairs rs = concat (map (\<lambda>r. case r of InternalLoss s l \<Rightarrow> [(s, l)] | _ \<Rightarrow> []) rs)"

definition spent_pairs :: "damage_record list \<Rightarrow> (damage_slot \<times> int) list" where
  "spent_pairs rs = concat (map (\<lambda>r. case r of AmmunitionSpent s c v \<Rightarrow> [((s, c), v)] | _ \<Rightarrow> []) rs)"

definition head_of :: "material \<Rightarrow> damage_slot \<Rightarrow> damage_slot" where
  "head_of m l = (case bt_get (weapon_heads m) l of Some h \<Rightarrow> h | None \<Rightarrow> l)"

definition failure_pairs :: "material \<Rightarrow> damage_record list \<Rightarrow> (damage_slot \<times> int) list" where
  "failure_pairs m rs = concat (map (\<lambda>r. case r of TemporaryFailure s c v \<Rightarrow> [(head_of m (s, c), v)] | _ \<Rightarrow> []) rs)"

definition lost_slots :: "damage_record list \<Rightarrow> damage_slot set" where
  "lost_slots rs = {(s, c). CriticalLost s c \<in> set rs}"

lemma in_pairs:
  "((s, b), l) \<in> set (armor_pairs rs) \<longleftrightarrow> ArmorLoss s b l \<in> set rs"
  "(s, l) \<in> set (internal_pairs rs) \<longleftrightarrow> InternalLoss s l \<in> set rs"
  "((s, c), v) \<in> set (spent_pairs rs) \<longleftrightarrow> AmmunitionSpent s c v \<in> set rs"
  "(k, v) \<in> set (failure_pairs m rs) \<longleftrightarrow> (\<exists>s c. k = head_of m (s, c) \<and> TemporaryFailure s c v \<in> set rs)"
  by (induction rs) (auto simp: armor_pairs_def internal_pairs_def spent_pairs_def failure_pairs_def split: damage_record.splits)

fun accepted :: "material \<Rightarrow> damage_record \<Rightarrow> bool" where
  "accepted m (ArmorLoss s b l) \<longleftrightarrow> (\<exists>d. material_section m s = Inr d)"
| "accepted m (InternalLoss s l) \<longleftrightarrow> (\<exists>d. material_section m s = Inr d)"
| "accepted m (CriticalLost s c) \<longleftrightarrow> material_equipment m (s, c) = Inr ()"
| "accepted m (AmmunitionSpent s c v) \<longleftrightarrow> material_equipment m (s, c) = Inr () \<and> bt_get (mat_ammunition m) (s, c) \<noteq> None"
| "accepted m (TemporaryFailure s c v) \<longleftrightarrow> material_equipment m (s, c) = Inr () \<and> bt_get (mat_ammunition m) (s, c) = None"

lemma assign_records_accepted:
  assumes "\<forall>r\<in>set rs. accepted m r"
  shows "assign_records m rs a = Inr
    \<lparr>as_armor = fold (\<lambda>(k, v). bt_insert k v) (armor_pairs rs) (as_armor a),
     as_internal = fold (\<lambda>(k, v). bt_insert k v) (internal_pairs rs) (as_internal a),
     as_spent = fold (\<lambda>(k, v). bt_insert k v) (spent_pairs rs) (as_spent a),
     as_failures = fold (\<lambda>(k, v). bt_insert k v) (failure_pairs m rs) (as_failures a),
     as_destroyed = lost_slots rs \<union> as_destroyed a\<rparr>"
  using assms
proof (induction rs arbitrary: a)
  case (Cons r rs)
  note pairs = armor_pairs_def internal_pairs_def spent_pairs_def failure_pairs_def lost_slots_def head_of_def
  have rs: "\<forall>r\<in>set rs. accepted m r" using Cons.prems by simp
  have r: "accepted m r" using Cons.prems by simp
  show ?case
    by (use r in \<open>cases r; clarsimp simp: Cons.IH [OF rs] Let_def simp del: accepted.simps\<close>;
      use r in \<open>auto simp: Cons.IH [OF rs] pairs Let_def\<close>)
qed (simp_all add: armor_pairs_def internal_pairs_def spent_pairs_def failure_pairs_def lost_slots_def)

lemma close_groups_closed:
  assumes "\<And>g. g \<in> set groups \<Longrightarrow> set g \<inter> D \<noteq> {} \<Longrightarrow> set g \<subseteq> D"
  shows "close_groups groups D = D"
proof -
  have "fold (\<lambda>group d. if list_ex (\<lambda>l. l \<in> d) group then d \<union> set group else d) groups D = D"
    using assms
  proof (induction groups)
    case (Cons g groups)
    have "(if list_ex (\<lambda>l. l \<in> D) g then D \<union> set g else D) = D"
      using Cons.prems [of g] by (auto simp: list_ex_iff)
    then show ?case using Cons by simp
  qed simp
  then show ?thesis by (simp add: close_groups_def)
qed

lemma remaining_of_loss: "y \<le> x \<Longrightarrow> remaining_of x (int x - int y) = Inr y"
  by (simp add: remaining_of_def)

section \<open>Sections with numbers\<close>

locale damage_anatomy =
  fixes number :: "'s::linorder \<Rightarrow> nat"
  assumes number_mono: "a < b \<Longrightarrow> number a < number b"
    and number_small: "number a < 8"
begin

lemma number_inj: "number a = number b \<longleftrightarrow> a = b"
  using number_mono [of a b] number_mono [of b a] by (cases a b rule: linorder_cases) auto

lemma slot_inj: "slot_of number l = slot_of number l' \<longleftrightarrow> l = l'"
  by (cases l; cases l') (simp add: slot_of_def number_inj)

lemma numbered_ok: "bt_ok xs \<Longrightarrow> bt_ok (map (\<lambda>(s, d). (number s, d)) xs)"
  by (induction xs) (fastforce simp: bt_ok_Cons intro: number_mono)+

lemma mat_sections_new: "layout_ok u \<Longrightarrow> mat_sections (material_new number G u) = map (\<lambda>(s, d). (number s, d)) (definitions u)"
  by (simp add: material_new_def bt_collect_id numbered_ok layout_ok_def)

lemma section_accepted:
  assumes "layout_ok u" and "(s, d) \<in> set (definitions u)" and "0 < sec_internal d"
  shows "material_section (material_new number G u) (number s) = Inr d"
proof -
  have "bt_ok (map (\<lambda>(s, d). (number s, d)) (definitions u))" using assms(1) by (simp add: layout_ok_def numbered_ok)
  then have "bt_get (map (\<lambda>(s, d). (number s, d)) (definitions u)) (number s) = Some d"
    using assms(2) by (force simp: bt_get_in_set)
  then show ?thesis using assms(3) by (simp add: material_section_def mat_sections_new [OF assms(1)])
qed

lemma equipment_accepted:
  assumes "layout_ok u" and "listed u (s, c)"
  shows "material_equipment (material_new number G u) (number s, c) = Inr ()"
proof -
  obtain d part where d: "(s, d) \<in> set (definitions u)" "(c, part) \<in> set (sec_criticals d)" "\<not> placeholder (equipment part)"
    "0 < sec_internal d" using listed_facts [OF assms] by metis
  have "bt_ok (sec_criticals d)" using assms(1) d(1) by (auto simp: layout_ok_def list_all_iff section_layout_def)
  then have "bt_get (sec_criticals d) c = Some part" using d(2) by (simp add: bt_get_in_set)
  then show ?thesis using d(3) by (simp add: material_equipment_def section_accepted [OF assms(1) d(1,4)])
qed

lemma ammunition_at:
  assumes "layout_ok u" and "i < length (ammo_bins u)"
  shows "bt_get (mat_ammunition (material_new number G u)) (slot_of number (bin_location (ammo_bins u ! i)))
    = Some (bin_capacity (ammo_bins u ! i))"
proof -
  have d: "distinct (map bin_location (ammo_bins u))" using assms(1) by (simp add: layout_ok_def)
  have "b = ammo_bins u ! i" if "b \<in> set (ammo_bins u)" "bin_location b = bin_location (ammo_bins u ! i)" for b
    using that assms(2) d by (auto simp: distinct_map inj_on_def)
  then show ?thesis unfolding material_new_def material.simps
    using nth_mem [OF assms(2)] by (intro bt_get_collect) (auto simp: slot_inj)
qed

lemma no_ammunition_at:
  "l \<notin> set (map bin_location (ammo_bins u)) \<Longrightarrow> bt_get (mat_ammunition (material_new number G u)) (slot_of number l) = None"
  by (auto simp: material_new_def slot_inj intro!: bt_get_collect_None)

lemma in_heads:
  "(k, h) \<in> set (concat (map (heads_of number) (mounts u))) \<longleftrightarrow>
    (\<exists>w\<in>set (mounts u). \<exists>l\<in>set (mount_criticals w). k = slot_of number l \<and> h = slot_of number (hd (mount_criticals w)))"
proof -
  have "(k, h) \<in> set (heads_of number w) \<longleftrightarrow> (\<exists>l\<in>set (mount_criticals w). k = slot_of number l \<and> h = slot_of number (hd (mount_criticals w)))" for w
    by (cases "mount_criticals w") (auto simp: heads_of_def first_critical_def)
  then show ?thesis by auto
qed

lemma head_of_first:
  assumes "layout_ok u" and "w \<in> set (mounts u)" and "first_critical w = Some l"
  shows "head_of (material_new number G u) (slot_of number l) = slot_of number l"
proof -
  have l: "l \<in> set (mount_criticals w)" "hd (mount_criticals w) = l"
    using assms(3) by (auto simp: first_critical_def split: list.splits)
  have "distinct (concat (map mount_criticals (mounts u)))" using assms(1) by (simp add: layout_ok_def mount_slots_def)
  then have disj: "ys = zs \<or> set ys \<inter> set zs = {}" if "ys \<in> mount_criticals ` set (mounts u)" "zs \<in> mount_criticals ` set (mounts u)" for ys zs
    using that by (auto simp: distinct_concat_iff)
  have "mount_criticals w' = mount_criticals w" if "w' \<in> set (mounts u)" "l \<in> set (mount_criticals w')" for w'
    using disj [of "mount_criticals w'" "mount_criticals w"] assms(2) that l(1) by blast
  then have "h = slot_of number l" if "(slot_of number l, h) \<in> set (concat (map (heads_of number) (mounts u)))" for h
    using that l(2) unfolding in_heads slot_inj by metis
  moreover have "(slot_of number l, slot_of number l) \<in> set (concat (map (heads_of number) (mounts u)))"
    using assms(2) l unfolding in_heads slot_inj by metis
  ultimately have "bt_get (bt_collect (concat (map (heads_of number) (mounts u)))) (slot_of number l) = Some (slot_of number l)"
    by (intro bt_get_collect)
  then show ?thesis by (simp add: head_of_def material_new_def)
qed

lemma head_of_other:
  assumes "l \<notin> set (mount_slots u)"
  shows "head_of (material_new number G u) (slot_of number l) = slot_of number l"
proof -
  have "(slot_of number l, h) \<notin> set (concat (map (heads_of number) (mounts u)))" for h
    using assms unfolding in_heads by (auto simp: slot_inj mount_slots_def)
  then have "slot_of number l \<notin> fst ` set (concat (map (heads_of number) (mounts u)))" by auto
  then have "bt_get (bt_collect (concat (map (heads_of number) (mounts u)))) (slot_of number l) = None"
    by (rule bt_get_collect_None)
  then show ?thesis by (simp add: head_of_def material_new_def)
qed

lemma component_at_in: "component_at fs l = Some f \<Longrightarrow> \<exists>x\<in>set fs. failed_at x = l \<and> failed_as x = f"
  by (auto simp: component_at_def find_Some_iff)

lemma failing_head:
  assumes "layout_ok u" and "unit_valid u" and "failing u l"
  shows "head_of (material_new number G u) (slot_of number l) = slot_of number l"
proof (cases "position (\<lambda>w. first_critical w = Some l) (mounts u)")
  case None
  then obtain f where "component_at (component_failures u) l = Some f"
    using assms(3) by (auto simp: failing_def shown_condition_def split: option.splits)
  then have "l \<in> set (map sys_location (systems u))"
    using component_at_in [of "component_failures u" l f] assms(2) by (auto simp: unit_valid_def list_all_iff)
  then have "l \<notin> set (mount_slots u)" using assms(1) by (auto simp: layout_ok_def)
  then show ?thesis by (rule head_of_other)
next
  case (Some i)
  show ?thesis
    by (rule head_of_first [OF assms(1), of "mounts u ! i"]) (use position_Some [OF Some] in auto)
qed

lemma shown_condition_small: "shown_condition u l \<le> 7"
proof -
  have "weapon_state u i \<le> 7" for i
    by (auto simp: weapon_state_def failure_state_def failure_code_bounds(2) split: option.split)
  then show ?thesis by (auto simp: shown_condition_def failure_code_bounds(2) split: option.split)
qed

lemma reported_ok:
  assumes "layout_ok u" and "unit_valid u" and "reported number u r"
  shows "record_ok r"
  using assms(3)
proof cases
  case (armor s d)
  then show ?thesis using definition_facts [OF assms(1,2), of s d] number_small
    by (simp add: i32_ok_def within_def section_layout_def)
next
  case (rear s d)
  then show ?thesis using definition_facts [OF assms(1,2), of s d] number_small
    by (simp add: i32_ok_def within_def section_layout_def)
next
  case (internal s d)
  then show ?thesis using definition_facts [OF assms(1,2), of s d] number_small
    by (simp add: i32_ok_def within_def section_layout_def)
next
  case (lost s c)
  then show ?thesis using listed_facts [OF assms(1)] number_small by auto
next
  case (spent s c i)
  then show ?thesis using listed_facts [OF assms(1), of s c] number_small bin_facts [OF assms(1,2), of i]
    by (auto simp: i32_ok_def)
next
  case (failure s c)
  then show ?thesis using listed_facts [OF assms(1), of s c] number_small shown_condition_small [of u "(s, c)"]
    by (auto simp: i32_ok_def failing_def)
qed

lemma reported_accepted:
  assumes "layout_ok u" and "unit_valid u" and "reported number u r"
  shows "accepted (material_new number G u) r"
  using assms(3)
proof cases
  case (spent s c i)
  then show ?thesis using equipment_accepted [OF assms(1)] ammunition_at [OF assms(1), of i G] by (simp add: slot_of_def)
next
  case (failure s c)
  then show ?thesis using equipment_accepted [OF assms(1)] no_ammunition_at [of "(s, c)" u G]
    by (simp add: slot_of_def failing_def)
qed (use section_accepted [OF assms(1)] equipment_accepted [OF assms(1)] in auto)

end

section \<open>Replacing what was read\<close>

lemma loss_at_collect:
  assumes "\<And>v. (k, v) \<in> set xs \<longleftrightarrow> P \<and> v = x" and "\<not> P \<Longrightarrow> x = 0"
  shows "loss_at (bt_collect xs) k = x"
proof (cases P)
  case True
  then have "bt_get (bt_collect xs) k = Some x" using assms(1) by (intro bt_get_collect) auto
  then show ?thesis by (simp add: loss_at_def)
next
  case False
  then have "k \<notin> fst ` set xs" using assms(1) by auto
  then show ?thesis using assms(2) False by (simp add: loss_at_def bt_get_collect_None)
qed

definition assigned :: "material \<Rightarrow> damage_record list \<Rightarrow> assignments" where
  "assigned m rs =
     \<lparr>as_armor = bt_collect (armor_pairs rs), as_internal = bt_collect (internal_pairs rs),
      as_spent = bt_collect (spent_pairs rs), as_failures = bt_collect (failure_pairs m rs), as_destroyed = lost_slots rs\<rparr>"

context damage_anatomy
begin

lemma section_losses:
  assumes "layout_ok u" and "unit_valid u" and rs: "\<And>r. r \<in> set rs \<longleftrightarrow> reported number u r" and d: "(s, d) \<in> set (definitions u)"
  shows "loss_at (bt_collect (armor_pairs rs)) (number s, False) = int (sec_armor d) - int (cur_armor (cur u s))"
    and "loss_at (bt_collect (armor_pairs rs)) (number s, True) = int (sec_rear d) - int (cur_rear (cur u s))"
    and "loss_at (bt_collect (internal_pairs rs)) (number s) = int (sec_internal d) - int (cur_internal (cur u s))"
proof -
  note f = definition_facts [OF assms(1,2) d]
  have zero: "sec_armor d = cur_armor (cur u s) \<and> sec_rear d = cur_rear (cur u s) \<and> sec_internal d = cur_internal (cur u s)"
    if "\<not> 0 < sec_internal d"
    using that f(2,3) by (auto simp: within_def section_layout_def)
  have one: "(s, d') \<in> set (definitions u) \<longleftrightarrow> d' = d" for d'
    using definition_facts(4) [OF assms(1,2), of s d'] f(4) d by auto
  show "loss_at (bt_collect (armor_pairs rs)) (number s, False) = int (sec_armor d) - int (cur_armor (cur u s))"
    by (rule loss_at_collect [where P = "0 < sec_internal d \<and> sec_armor d \<noteq> cur_armor (cur u s)"])
      (use zero in \<open>auto simp: in_pairs rs reported_simps number_inj one\<close>)
  show "loss_at (bt_collect (armor_pairs rs)) (number s, True) = int (sec_rear d) - int (cur_rear (cur u s))"
    by (rule loss_at_collect [where P = "0 < sec_internal d \<and> sec_rear d \<noteq> cur_rear (cur u s)"])
      (use zero in \<open>auto simp: in_pairs rs reported_simps number_inj one\<close>)
  show "loss_at (bt_collect (internal_pairs rs)) (number s) = int (sec_internal d) - int (cur_internal (cur u s))"
    by (rule loss_at_collect [where P = "0 < sec_internal d \<and> sec_internal d \<noteq> cur_internal (cur u s)"])
      (use zero in \<open>auto simp: in_pairs rs reported_simps number_inj one\<close>)
qed

lemma section_after_reported:
  assumes "layout_ok u" and "unit_valid u" and "\<And>r. r \<in> set rs \<longleftrightarrow> reported number u r" and d: "(s, d) \<in> set (definitions u)"
  shows "section_after (assigned m rs) (number s, d) = Inr (number s, cur u s)"
proof -
  have w: "cur_armor (cur u s) \<le> sec_armor d" "cur_rear (cur u s) \<le> sec_rear d" "cur_internal (cur u s) \<le> sec_internal d"
    "0 < cur_internal (cur u s) \<or> cur_armor (cur u s) = 0 \<and> cur_rear (cur u s) = 0"
    using definition_facts(2) [OF assms(1,2) d] by (auto simp: within_def)
  show ?thesis
    using w(4) by (simp add: section_after_def assigned_def section_losses [OF assms] remaining_of_loss [OF w(1)]
      remaining_of_loss [OF w(2)] remaining_of_loss [OF w(3)])
qed

lemma rounds_loss:
  assumes "layout_ok u" and "unit_valid u" and rs: "\<And>r. r \<in> set rs \<longleftrightarrow> reported number u r" and i: "i < length (ammo_bins u)"
  shows "loss_at (bt_collect (spent_pairs rs)) (slot_of number (bin_location (ammo_bins u ! i)))
    = (if critical_destroyed u (bin_location (ammo_bins u ! i)) then 0
       else int (bin_capacity (ammo_bins u ! i)) - int (rounds u ! i))"
proof -
  obtain s c where l: "bin_location (ammo_bins u ! i) = (s, c)" by force
  have one: "bin_location (ammo_bins u ! j) = (s, c) \<longleftrightarrow> j = i" if "j < length (ammo_bins u)" for j
    using that i l bin_position(1) [OF assms(1), of "(s, c)"] by (metis option.inject)
  have listed: "listed u (s, c)" using bin_facts(5) [OF assms(1,2) i] l by simp
  let ?v = "int (bin_capacity (ammo_bins u ! i)) - int (rounds u ! i)"
  have "((number s, c), v) \<in> set (spent_pairs rs) \<longleftrightarrow>
      (\<not> critical_destroyed u (s, c) \<and> bin_capacity (ammo_bins u ! i) \<noteq> rounds u ! i) \<and> v = ?v" for v
    using i by (auto simp: in_pairs rs reported_simps number_inj one listed l cong: conj_cong)
  then show ?thesis unfolding l slot_of_def fst_conv snd_conv
    by (intro loss_at_collect [where P = "\<not> critical_destroyed u (s, c) \<and> bin_capacity (ammo_bins u ! i) \<noteq> rounds u ! i"]) auto
qed

lemma lost_slots_reported:
  assumes "\<And>r. r \<in> set rs \<longleftrightarrow> reported number u r"
  shows "lost_slots rs = slot_of number ` {l. listed u l \<and> critical_destroyed u l}"
  by (force simp: lost_slots_def assms reported_simps slot_of_def)

lemma failure_pairs_reported:
  assumes "layout_ok u" and "unit_valid u" and "\<And>r. r \<in> set rs \<longleftrightarrow> reported number u r"
  shows "(k, v) \<in> set (failure_pairs (material_new number G u) rs)
    \<longleftrightarrow> (\<exists>l. failing u l \<and> k = slot_of number l \<and> v = int (shown_condition u l))"
  using failing_head [OF assms(1,2), of _ G] by (force simp: in_pairs assms(3) reported_simps slot_of_def)

lemma slot_unavailable_listed:
  assumes "layout_ok u" and "unit_valid u" and "listed u l"
  shows "slot_unavailable (slot_of number ` {l. listed u l \<and> critical_destroyed u l})
    (map (\<lambda>(s, d). (number s, cur u s)) (definitions u)) (slot_of number l) = Inr (critical_destroyed u l)"
proof -
  obtain s c where l: "l = (s, c)" by force
  obtain d where d: "(s, d) \<in> set (definitions u)" using listed_facts [OF assms(1)] assms(3) l by metis
  have "bt_ok (map (\<lambda>(s, d). (number s, d)) (definitions u))" using assms(1) by (simp add: layout_ok_def numbered_ok)
  then have "bt_ok (map (\<lambda>(s, d). (number s, cur u s)) (definitions u))" by (simp add: bt_ok_def comp_def split_beta)
  then have "bt_get (map (\<lambda>(s, d). (number s, cur u s)) (definitions u)) (number s) = Some (cur u s)"
    using d by (force simp: bt_get_in_set)
  moreover have "bt_get (live_sections u) s = Some (cur u s)" by (rule definition_facts(1) [OF assms(1,2) d])
  ultimately show ?thesis
    using assms(3) by (auto simp: slot_unavailable_def slot_inj index_map_def image_iff l critical_destroyed_def slot_of_def number_inj)
qed

text \<open>The slots whose loss the field shows.\<close>

definition shown_losses :: "'s damage_unit \<Rightarrow> damage_slot set" where
  "shown_losses u = slot_of number ` {l. listed u l \<and> critical_destroyed u l}"

definition closed_groups :: "damage_slot list list \<Rightarrow> 's damage_unit \<Rightarrow> bool" where
  "closed_groups G u \<longleftrightarrow> (\<forall>g\<in>set G. set g \<inter> shown_losses u \<noteq> {} \<longrightarrow> set g \<subseteq> shown_losses u)"

lemma rounds_after_reported:
  assumes "layout_ok u" and "unit_valid u" and "\<And>r. r \<in> set rs \<longleftrightarrow> reported number u r" and i: "i < length (ammo_bins u)"
  shows "rounds_after (assigned m rs) (slot_unavailable (shown_losses u) (map (\<lambda>(s, d). (number s, cur u s)) (definitions u)))
      (slot_of number (bin_location (ammo_bins u ! i)), bin_capacity (ammo_bins u ! i))
    = Inr (slot_of number (bin_location (ammo_bins u ! i)), rounds u ! i)"
proof -
  have "rounds u ! i \<le> bin_capacity (ammo_bins u ! i)" and z: "critical_destroyed u (bin_location (ammo_bins u ! i)) \<Longrightarrow> rounds u ! i = 0"
    and l: "listed u (bin_location (ammo_bins u ! i))" using bin_facts [OF assms(1,2) i] by auto
  from remaining_of_loss [OF this(1)] remaining_of_loss [of "bin_capacity (ammo_bins u ! i)" "bin_capacity (ammo_bins u ! i)"]
  show ?thesis
    using z by (auto simp: rounds_after_def assigned_def rounds_loss [OF assms] shown_losses_def
      slot_unavailable_listed [OF assms(1,2) l])
qed

lemma ammunition_replaced:
  assumes "layout_ok u" and "unit_valid u" and "\<And>r. r \<in> set rs \<longleftrightarrow> reported number u r"
  obtains ys where
    "collect_result (rounds_after (assigned m rs) (slot_unavailable (shown_losses u) (map (\<lambda>(s, d). (number s, cur u s)) (definitions u))))
       (mat_ammunition (material_new number G u)) = Inr ys"
    "\<And>i. i < length (ammo_bins u) \<Longrightarrow> bt_get (bt_collect ys) (slot_of number (bin_location (ammo_bins u ! i))) = Some (rounds u ! i)"
proof -
  let ?M = "mat_ammunition (material_new number G u)"
  let ?f = "rounds_after (assigned m rs) (slot_unavailable (shown_losses u) (map (\<lambda>(s, d). (number s, cur u s)) (definitions u)))"
  let ?e = "\<lambda>i. (slot_of number (bin_location (ammo_bins u ! i)), bin_capacity (ammo_bins u ! i))"
  have ok: "bt_ok ?M" by (simp add: material_new_def bt_ok_collect)
  have sub: "\<exists>i<length (ammo_bins u). e = ?e i" if "e \<in> set ?M" for e
  proof -
    have "e \<in> set (map (\<lambda>b. (slot_of number (bin_location b), bin_capacity b)) (ammo_bins u))"
      using that set_bt_collect by (fastforce simp: material_new_def)
    then show ?thesis by (auto simp: in_set_conv_nth)
  qed
  have total: "\<exists>y. ?f e = Inr y" if "e \<in> set ?M" for e
    using sub [OF that] rounds_after_reported [OF assms, of _ m] by auto
  obtain ys where ys: "collect_result ?f ?M = Inr ys" "\<And>y. y \<in> set ys \<longleftrightarrow> (\<exists>e\<in>set ?M. ?f e = Inr y)"
    using collect_result_total [of ?M ?f, OF total] by blast
  have "bt_get (bt_collect ys) (slot_of number (bin_location (ammo_bins u ! i))) = Some (rounds u ! i)"
    if i: "i < length (ammo_bins u)" for i
  proof (rule bt_get_collect)
    have "?e i \<in> set ?M" using ammunition_at [OF assms(1) i, of G] by (simp add: bt_get_in_set [OF ok])
    then show "(slot_of number (bin_location (ammo_bins u ! i)), rounds u ! i) \<in> set ys"
      using rounds_after_reported [OF assms i, of m] by (auto simp: ys(2))
    fix v
    assume "(slot_of number (bin_location (ammo_bins u ! i)), v) \<in> set ys"
    then obtain e where e: "e \<in> set ?M" "?f e = Inr (slot_of number (bin_location (ammo_bins u ! i)), v)" by (auto simp: ys(2))
    obtain j where j: "j < length (ammo_bins u)" "e = ?e j" using sub [OF e(1)] by blast
    then have "slot_of number (bin_location (ammo_bins u ! j)) = slot_of number (bin_location (ammo_bins u ! i))" "v = rounds u ! j"
      using e(2) rounds_after_reported [OF assms j(1), of m] by auto
    then show "v = rounds u ! i"
      using bin_position(1) [OF assms(1), of "bin_location (ammo_bins u ! i)"] i j(1) slot_inj by (metis option.inject)
  qed
  then show thesis using that ys(1) by blast
qed

lemma failures_replaced:
  assumes "layout_ok u" and "unit_valid u" and "\<And>r. r \<in> set rs \<longleftrightarrow> reported number u r"
  obtains fs where
    "collect_result failure_after (bt_collect (failure_pairs (material_new number G u) rs)) = Inr fs"
    "collect_result (failure_kept (slot_unavailable (shown_losses u) (map (\<lambda>(s, d). (number s, cur u s)) (definitions u)))) (bt_collect fs)
       = Inr (map (\<lambda>e. [e]) fs)"
    "bt_collect fs = fs" "\<And>l. bt_get fs (slot_of number l) = (if failing u l then Some (shown_condition u l) else None)"
proof -
  let ?F = "bt_collect (failure_pairs (material_new number G u) rs)"
  let ?fs = "map (\<lambda>(k, v). (k, nat v)) ?F"
  have F: "\<exists>l. failing u l \<and> e = (slot_of number l, int (shown_condition u l))" if "e \<in> set ?F" for e
  proof -
    have "(fst e, snd e) \<in> set (failure_pairs (material_new number G u) rs)"
      using that set_bt_collect [of "failure_pairs (material_new number G u) rs"] by auto
    then show ?thesis unfolding failure_pairs_reported [OF assms] by (metis prod.collapse)
  qed
  have ok: "bt_ok ?fs" using bt_ok_collect [of "failure_pairs (material_new number G u) rs"] by (simp add: bt_ok_def comp_def split_beta)
  have id: "bt_collect ?fs = ?fs" by (rule bt_collect_id [OF ok])
  have "failure_after e = Inr (case e of (k, v) \<Rightarrow> (k, nat v))" if "e \<in> set ?F" for e
    using F [OF that] shown_condition_small by (auto simp: failure_after_def)
  then have 1: "collect_result failure_after ?F = Inr ?fs" by (rule collect_result_Inr)
  have "failure_kept (slot_unavailable (shown_losses u) (map (\<lambda>(s, d). (number s, cur u s)) (definitions u))) e = Inr [e]"
    if e: "e \<in> set ?fs" for e
  proof -
    obtain k v where "(k, v) \<in> set ?F" "e = (k, nat v)" using e by auto
    then obtain l where "failing u l" "e = (slot_of number l, shown_condition u l)" using F [of "(k, v)"] by auto
    then show ?thesis
      by (auto simp: failure_kept_def failing_def shown_losses_def slot_unavailable_listed [OF assms(1,2)])
  qed
  then have 2: "collect_result (failure_kept (slot_unavailable (shown_losses u) (map (\<lambda>(s, d). (number s, cur u s)) (definitions u)))) (bt_collect ?fs)
      = Inr (map (\<lambda>e. [e]) ?fs)" unfolding id by (rule collect_result_Inr)
  have "bt_get ?fs (slot_of number l) = (if failing u l then Some (shown_condition u l) else None)" for l
  proof (cases "failing u l")
    case True
    then have "bt_get ?F (slot_of number l) = Some (int (shown_condition u l))"
      by (intro bt_get_collect) (auto simp: failure_pairs_reported [OF assms] slot_inj simp del: split_paired_Ex)
    then have "(slot_of number l, int (shown_condition u l)) \<in> set ?F" by (simp add: bt_get_in_set [OF bt_ok_collect])
    then show ?thesis using True by (force simp: bt_get_in_set [OF ok])
  next
    case False
    have "slot_of number l \<noteq> k" if kv: "(k, v) \<in> set ?F" for k v using F [OF kv] False by (auto simp: slot_inj)
    then have "slot_of number l \<notin> fst ` set ?fs" by force
    then show ?thesis using False by (simp add: bt_get_def map_of_eq_None_iff del: set_map)
  qed
  then show thesis using that 1 2 id by blast
qed

lemma replaced:
  assumes "layout_ok u" and "unit_valid u" and "closed_groups G u" and rs: "\<And>r. r \<in> set rs \<longleftrightarrow> reported number u r"
  obtains r where "material_replace (material_new number G u) rs = Inr r"
    "new_sections r = map (\<lambda>(s, d). (number s, cur u s)) (definitions u)" "destroyed_criticals r = shown_losses u"
    "\<And>i. i < length (ammo_bins u) \<Longrightarrow> bt_get (new_ammunition r) (slot_of number (bin_location (ammo_bins u ! i))) = Some (rounds u ! i)"
    "\<And>l. bt_get (new_failures r) (slot_of number l) = (if failing u l then Some (shown_condition u l) else None)"
proof -
  let ?m = "material_new number G u" and ?secs = "map (\<lambda>(s, d). (number s, cur u s)) (definitions u)"
  have acc: "\<forall>r\<in>set rs. accepted ?m r" using reported_accepted [OF assms(1,2)] rs by blast
  have a: "assign_records ?m rs no_assignments = Inr (assigned ?m rs)"
    by (simp add: assign_records_accepted [OF acc] no_assignments_def assigned_def bt_collect_def)
  have groups: "close_groups (mat_groups ?m) (as_destroyed (assigned ?m rs)) = shown_losses u"
    using assms(3) by (simp add: material_new_def assigned_def lost_slots_reported [OF rs] shown_losses_def [symmetric] closed_groups_def close_groups_closed)
  have "collect_result (section_after (assigned ?m rs)) (mat_sections ?m)
      = Inr (map (\<lambda>(n, d). (n, snd (projr (section_after (assigned ?m rs) (n, d))))) (mat_sections ?m))"
    by (rule collect_result_Inr)
      (use section_after_reported [OF assms(1,2) rs] in \<open>auto simp: mat_sections_new [OF assms(1)]\<close>)
  moreover have "map (\<lambda>(n, d). (n, snd (projr (section_after (assigned ?m rs) (n, d))))) (mat_sections ?m) = ?secs"
    using section_after_reported [OF assms(1,2) rs] by (auto simp: mat_sections_new [OF assms(1)])
  ultimately have secs: "collect_result (section_after (assigned ?m rs)) (mat_sections ?m) = Inr ?secs" by simp
  have ok: "bt_ok ?secs" using numbered_ok [of "definitions u"] assms(1) by (simp add: layout_ok_def bt_ok_def comp_def split_beta)
  obtain ys where ys: "collect_result (rounds_after (assigned ?m rs) (slot_unavailable (shown_losses u) ?secs)) (mat_ammunition ?m) = Inr ys"
    "\<And>i. i < length (ammo_bins u) \<Longrightarrow> bt_get (bt_collect ys) (slot_of number (bin_location (ammo_bins u ! i))) = Some (rounds u ! i)"
    using ammunition_replaced [OF assms(1,2) rs, of ?m G] by blast
  obtain fs where fs: "collect_result failure_after (bt_collect (failure_pairs ?m rs)) = Inr fs"
    "collect_result (failure_kept (slot_unavailable (shown_losses u) ?secs)) (bt_collect fs) = Inr (map (\<lambda>e. [e]) fs)"
    "bt_collect fs = fs" "\<And>l. bt_get fs (slot_of number l) = (if failing u l then Some (shown_condition u l) else None)"
    using failures_replaced [OF assms(1,2) rs, of G] by blast
  have "material_replace ?m rs = Inr \<lparr>new_sections = ?secs, destroyed_criticals = shown_losses u, new_ammunition = bt_collect ys, new_failures = fs\<rparr>"
  proof -
    have f: "as_failures (assigned ?m rs) = bt_collect (failure_pairs ?m rs)" by (simp add: assigned_def)
    have "bt_collect (concat (map (\<lambda>e. [e]) fs)) = fs" by (simp add: fs(3))
    then show ?thesis
      unfolding material_replace_def a bind_result_simps groups Let_def secs bt_collect_id [OF ok] ys(1) f fs(1,2) by simp
  qed
  then show thesis by (rule that) (simp_all add: ys(2) fs(4))
qed

end

section \<open>Resolving what was replaced\<close>

text \<open>What a unit has lost once the losses its destroyed sections imply are written down.\<close>

definition standing_losses :: "'s::linorder damage_unit \<Rightarrow> 's critical_location set" where
  "standing_losses u =
     {l. case installed u l of
           None \<Rightarrow> False
         | Some part \<Rightarrow> if placeholder (equipment part) then l \<in> lost_criticals u else critical_destroyed u l}"

text \<open>The material and the conditions that come back.\<close>

definition comes_back :: "('s::linorder \<Rightarrow> nat) \<Rightarrow> 's damage_unit \<Rightarrow> damage_replacement \<Rightarrow> bool" where
  "comes_back number u r \<longleftrightarrow>
     resolve_material number u r = Inr
       \<lparr>res_sections = live_sections u, res_losses = standing_losses u, res_ammunition = rounds u,
        res_restored = {}, res_changed = (lost_criticals u \<noteq> standing_losses u)\<rparr>
     \<and> (\<exists>fs. replaced_components number u r = Inr fs
          \<and> set fs = {f \<in> set (component_failures u). \<not> critical_destroyed u (failed_at f)})
     \<and> (\<forall>i<length (mounts u). \<forall>l. first_critical (mounts u ! i) = Some l \<longrightarrow>
          bt_get (new_failures r) (slot_of number l)
          = (if critical_destroyed u l \<or> weapon_state u i = 0 then None else Some (weapon_state u i)))"

lemma live_sections_cur:
  assumes "layout_ok u" and "unit_valid u"
  shows "map (\<lambda>(s, d). (s, cur u s)) (definitions u) = live_sections u"
proof -
  have ok: "bt_ok (live_sections u)" and keys: "map fst (definitions u) = map fst (live_sections u)"
    using assms by (simp_all add: unit_valid_def layout_ok_def bt_ok_def)
  have "map (\<lambda>(s, d). (s, cur u s)) (definitions u) = map (\<lambda>s. (s, cur u s)) (map fst (definitions u))" by auto
  also have "\<dots> = map (\<lambda>(s, st). (s, cur u s)) (live_sections u)" unfolding keys by auto
  also have "\<dots> = live_sections u" by (rule map_idI) (auto simp: cur_def bt_get_in_set [OF ok, THEN iffD2])
  finally show ?thesis .
qed

lemma failure_from_code_code: "failure_from_code (failure_code f) = Inr (Some f)"
  by (cases f) (simp_all add: failure_from_code_def)

lemma distinct_concat_index:
  "distinct (concat ls) \<Longrightarrow> i < length ls \<Longrightarrow> j < length ls \<Longrightarrow> x \<in> set (ls ! i) \<Longrightarrow> x \<in> set (ls ! j) \<Longrightarrow> i = j"
proof (induction ls arbitrary: i j)
  case (Cons l ls)
  have out: "x \<in> set (concat ls)" if "k < length ls" "x \<in> set (ls ! k)" for k using that by auto
  show ?case using Cons.IH Cons.prems out by (cases i; cases j) auto
qed simp

lemma weapon_condition:
  assumes "layout_ok u" and i: "i < length (mounts u)" and l: "first_critical (mounts u ! i) = Some l"
  shows "shown_condition u l = weapon_state u i" and "listed u l" and "l \<notin> set (map bin_location (ammo_bins u))"
proof -
  have mem: "l \<in> set (mount_criticals (mounts u ! j))" if "first_critical (mounts u ! j) = Some l" for j
    using that by (auto simp: first_critical_def split: list.splits)
  have d: "distinct (concat (map mount_criticals (mounts u)))" using assms(1) by (simp add: layout_ok_def mount_slots_def)
  obtain j where j: "position (\<lambda>w. first_critical w = Some l) (mounts u) = Some j"
    using i l position_None [of "\<lambda>w. first_critical w = Some l" "mounts u"] nth_mem by blast
  have "j = i" using distinct_concat_index [OF d, of j i l] position_Some [OF j] i l mem by simp
  then show "shown_condition u l = weapon_state u i" using j by (simp add: shown_condition_def)
  have "l = hd (mount_criticals (mounts u ! i))" using l by (auto simp: first_critical_def split: list.splits)
  then show "listed u l" using assms(1) i by (auto simp: layout_ok_def list_all_length)
  have "l \<in> set (mount_slots u)" using mem [OF l] i by (auto simp: mount_slots_def)
  then show "l \<notin> set (map bin_location (ammo_bins u))" using assms(1) by (auto simp: layout_ok_def)
qed

lemma system_condition:
  assumes "layout_ok u" and "unit_valid u" and l: "l \<in> set (map sys_location (systems u))"
  shows "failing u l \<longleftrightarrow> \<not> critical_destroyed u l \<and> component_at (component_failures u) l \<noteq> None"
    and "component_at (component_failures u) l = Some f \<Longrightarrow> shown_condition u l = failure_code f"
proof -
  have "l \<notin> set (mount_slots u)" and bins: "l \<notin> set (map bin_location (ammo_bins u))"
    using assms(1) l by (auto simp: layout_ok_def)
  then have "first_critical w \<noteq> Some l" if "w \<in> set (mounts u)" for w
    using that by (auto simp: first_critical_def mount_slots_def split: list.splits)
  then have "position (\<lambda>w. first_critical w = Some l) (mounts u) = None" by (simp add: position_None)
  then have c: "shown_condition u l = (case component_at (component_failures u) l of Some f \<Rightarrow> failure_code f | None \<Rightarrow> 0)"
    by (simp add: shown_condition_def)
  then show "component_at (component_failures u) l = Some f \<Longrightarrow> shown_condition u l = failure_code f" by simp
  have "listed u l" if "component_at (component_failures u) l = Some f" for f
    using that assms(2) by (auto simp: component_at_def find_Some_iff unit_valid_def list_all_length)
  moreover have "failure_code f \<noteq> 0" for f by (cases f) simp_all
  ultimately show "failing u l \<longleftrightarrow> \<not> critical_destroyed u l \<and> component_at (component_failures u) l \<noteq> None"
    using bins c by (auto simp: failing_def split: option.splits)
qed

lemma component_at_iff:
  assumes "distinct (map failed_at fs)"
  shows "component_at fs l = Some f \<longleftrightarrow> \<lparr>failed_at = l, failed_as = f\<rparr> \<in> set fs"
  using assms
proof (induction fs)
  case (Cons x fs)
  obtain l' f' where x: "x = \<lparr>failed_at = l', failed_as = f'\<rparr>" by (cases x)
  show ?case
  proof (cases "l' = l")
    case True
    then have "\<lparr>failed_at = l, failed_as = f\<rparr> \<notin> set fs" using Cons.prems x by force
    then show ?thesis using True x by (auto simp: component_at_def)
  next
    case False
    then have "component_at (x # fs) l = component_at fs l" by (simp add: component_at_def x)
    then show ?thesis using Cons False x by simp
  qed
qed (simp add: component_at_def)

context damage_anatomy
begin

lemma components_replaced:
  assumes "layout_ok u" and "unit_valid u"
    and r: "\<And>l. bt_get (new_failures r) (slot_of number l) = (if failing u l then Some (shown_condition u l) else None)"
  shows "\<exists>fs. replaced_components number u r = Inr fs
    \<and> set fs = {f \<in> set (component_failures u). \<not> critical_destroyed u (failed_at f)}"
proof -
  let ?sys = "\<lambda>l. list_ex (\<lambda>part. sys_location part = l) (systems u)"
  define S where "S l \<longleftrightarrow> ?sys l" for l
  define g where "g s c = (if S (s, c) \<and> \<not> critical_destroyed u (s, c)
    then (case component_at (component_failures u) (s, c) of None \<Rightarrow> [] | Some f \<Rightarrow> [\<lparr>failed_at = (s, c), failed_as = f\<rparr>]) else [])" for s c
  let ?fs = "concat (concat (map (\<lambda>(s, d). map (\<lambda>(c, _). g s c) (sec_criticals d)) (definitions u)))"
  have sys: "S l \<longleftrightarrow> l \<in> set (map sys_location (systems u))" for l by (auto simp: S_def list_ex_iff)
  have one: "(if S (s, c)
      then (case bt_get (new_failures r) (slot_of number (s, c)) of
              None \<Rightarrow> Inr []
            | Some code \<Rightarrow> bind_result (failure_from_code code) (\<lambda>f. Inr (case f of None \<Rightarrow> [] | Some f \<Rightarrow> [\<lparr>failed_at = (s, c), failed_as = f\<rparr>])))
      else Inr []) = Inr (g s c)" for s c
    using system_condition [OF assms(1,2), of "(s, c)"]
    by (auto simp: g_def r sys failure_from_code_code simp del: set_map split: option.splits)
  have "replaced_components number u r = Inr ?fs"
    unfolding replaced_components_def S_def [symmetric] one
    by (subst collect_result_Inr [where g = "\<lambda>(s, d). map (\<lambda>(c, _). g s c) (sec_criticals d)"])
      (auto intro!: collect_result_Inr)
  moreover have "set ?fs = {f \<in> set (component_failures u). \<not> critical_destroyed u (failed_at f)}"
  proof -
    have d: "distinct (map failed_at (component_failures u))" using assms(2) by (simp add: unit_valid_def)
    have comp: "S (failed_at f)" "listed u (failed_at f)" if "f \<in> set (component_failures u)" for f
      unfolding sys using assms(2) that by (simp_all add: unit_valid_def list_all_iff)
    have "f \<in> set ?fs \<longleftrightarrow> f \<in> set (component_failures u) \<and> \<not> critical_destroyed u (failed_at f)" for f :: "'s component_failure"
    proof
      assume "f \<in> set ?fs"
      then obtain s c where fg: "f \<in> set (g s c)" by auto
      have "S (s, c) \<and> \<not> critical_destroyed u (s, c)" 
      proof (rule ccontr)
        assume "\<not> (S (s, c) \<and> \<not> critical_destroyed u (s, c))"
        then have "g s c = []" by (simp only: g_def if_False)
        with fg show False by simp
      qed
      with fg have fc: "f \<in> set (case component_at (component_failures u) (s, c) of None \<Rightarrow> [] | Some f \<Rightarrow> [\<lparr>failed_at = (s, c), failed_as = f\<rparr>])"
        and nd: "\<not> critical_destroyed u (s, c)" by (simp_all add: g_def)
      obtain f' where "component_at (component_failures u) (s, c) = Some f'" "f = \<lparr>failed_at = (s, c), failed_as = f'\<rparr>"
        using fc by (cases "component_at (component_failures u) (s, c)") simp_all
      with nd show "f \<in> set (component_failures u) \<and> \<not> critical_destroyed u (failed_at f)" by (simp add: component_at_iff [OF d])
    next
      assume f: "f \<in> set (component_failures u) \<and> \<not> critical_destroyed u (failed_at f)"
      obtain s c f' where e: "f = \<lparr>failed_at = (s, c), failed_as = f'\<rparr>" by (cases f) auto
      obtain d' part where p: "(s, d') \<in> set (definitions u)" "(c, part) \<in> set (sec_criticals d')"
        using listed_facts [OF assms(1), of s c] comp(2) [of f] f e by (metis component_failure.select_convs(1))
      have "component_at (component_failures u) (s, c) = Some f'" using f e by (simp add: component_at_iff [OF d])
      then have "f \<in> set (g s c)" using comp(1) [of f] f e by (simp add: g_def)
      then show "f \<in> set ?fs" using p by force
    qed
    then show ?thesis by blast
  qed
  ultimately show ?thesis by blast
qed

lemma losses_resolved:
  assumes "layout_ok u" and "destroyed_criticals r = shown_losses u"
  shows "set (resolved_losses number u r) = standing_losses u"
proof -
  have "(s, c) \<in> set (resolved_losses number u r) \<longleftrightarrow> (s, c) \<in> standing_losses u" for s c
  proof -
    have lost: "slot_of number (s, c) \<in> destroyed_criticals r \<longleftrightarrow> listed u (s, c) \<and> critical_destroyed u (s, c)"
      by (auto simp: assms(2) shown_losses_def slot_inj)
    have "(s, c) \<in> set (resolved_losses number u r) \<longleftrightarrow>
        (\<exists>d part. (s, d) \<in> set (definitions u) \<and> (c, part) \<in> set (sec_criticals d)
          \<and> (if placeholder (equipment part) then (s, c) \<in> lost_criticals u else slot_of number (s, c) \<in> destroyed_criticals r))"
      by (force simp: resolved_losses_def)
    also have "\<dots> \<longleftrightarrow> (\<exists>part. installed u (s, c) = Some part
          \<and> (if placeholder (equipment part) then (s, c) \<in> lost_criticals u else critical_destroyed u (s, c)))"
      unfolding installed_iff [OF assms(1)] lost using listedI [OF assms(1)] by (metis (full_types))
    finally show ?thesis by (auto simp: standing_losses_def split: option.splits)
  qed
  then show ?thesis by auto
qed

lemma material_resolved:
  assumes "layout_ok u" and "unit_valid u" and r: "new_sections r = map (\<lambda>(s, d). (number s, cur u s)) (definitions u)"
    "destroyed_criticals r = shown_losses u"
    "\<And>i. i < length (ammo_bins u) \<Longrightarrow> bt_get (new_ammunition r) (slot_of number (bin_location (ammo_bins u ! i))) = Some (rounds u ! i)"
  shows "resolve_material number u r = Inr
    \<lparr>res_sections = live_sections u, res_losses = standing_losses u, res_ammunition = rounds u,
     res_restored = {}, res_changed = (lost_criticals u \<noteq> standing_losses u)\<rparr>"
proof -
  have ok: "bt_ok (new_sections r)" using numbered_ok [of "definitions u"] assms(1) by (simp add: r(1) layout_ok_def bt_ok_def comp_def split_beta)
  have "bt_get (new_sections r) (number s) = Some (cur u s)" if "(s, d) \<in> set (definitions u)" for s d
    using that ok by (force simp: bt_get_in_set r(1))
  then have secs: "collect_result (\<lambda>(s, _). bind_result (index_map (new_sections r) (number s)) (\<lambda>st. Inr (s, st))) (definitions u)
      = Inr (map (\<lambda>(s, d). (s, cur u s)) (definitions u))"
    by (intro collect_result_Inr) (auto simp: index_map_def)
  have len: "length (rounds u) = length (ammo_bins u)" using assms(2) by (simp add: unit_valid_def)
  have "collect_result (\<lambda>b. index_map (new_ammunition r) (slot_of number (bin_location b))) (ammo_bins u)
      = Inr (map (\<lambda>b. projr (index_map (new_ammunition r) (slot_of number (bin_location b)))) (ammo_bins u))"
    by (rule collect_result_Inr) (auto simp: index_map_def r(3) in_set_conv_nth)
  also have "map (\<lambda>b. projr (index_map (new_ammunition r) (slot_of number (bin_location b)))) (ammo_bins u) = rounds u"
    by (rule nth_equalityI) (simp_all add: len index_map_def r(3))
  finally have ammo: "collect_result (\<lambda>b. index_map (new_ammunition r) (slot_of number (bin_location b))) (ammo_bins u) = Inr (rounds u)" .
  have "lost_criticals u - standing_losses u = {}"
  proof -
    have "l \<in> standing_losses u" if l: "l \<in> lost_criticals u" for l
    proof -
      obtain part where "installed u l = Some part" using assms(2) l unfolding unit_valid_def by fastforce
      then show ?thesis using l by (simp add: standing_losses_def critical_destroyed_def)
    qed
    then show ?thesis by blast
  qed
  moreover have "bt_collect (live_sections u) = live_sections u"
    using assms(1,2) by (intro bt_collect_id) (simp add: unit_valid_def layout_ok_def bt_ok_def)
  ultimately show ?thesis
    by (simp add: resolve_material_def Let_def secs ammo losses_resolved [OF assms(1) r(2)] live_sections_cur [OF assms(1,2)])
qed

lemma write_back:
  assumes "layout_ok u" and "unit_valid u" and "closed_groups G u"
  obtains v rs r where "unit_damage_field number u = Inr v" "parse_damage_field v = Inr rs"
    "material_replace (material_new number G u) rs = Inr r" "comes_back number u r"
proof -
  obtain rs where rs: "damage_list number u = Inr rs" "\<And>r. r \<in> set rs \<longleftrightarrow> reported number u r"
    using damage_list_reported [OF assms(1,2)] by blast
  have "parse_damage_field (join_with [44] (map record_text rs)) = Inr rs"
    using reported_ok [OF assms(1,2)] rs(2) by (intro field_round_trip) blast
  moreover have "unit_damage_field number u = Inr (join_with [44] (map record_text rs))" by (simp add: unit_damage_field_def rs(1))
  moreover obtain r where r: "material_replace (material_new number G u) rs = Inr r"
    "new_sections r = map (\<lambda>(s, d). (number s, cur u s)) (definitions u)" "destroyed_criticals r = shown_losses u"
    "\<And>i. i < length (ammo_bins u) \<Longrightarrow> bt_get (new_ammunition r) (slot_of number (bin_location (ammo_bins u ! i))) = Some (rounds u ! i)"
    "\<And>l. bt_get (new_failures r) (slot_of number l) = (if failing u l then Some (shown_condition u l) else None)"
    using replaced [OF assms rs(2)] by blast
  moreover have "comes_back number u r"
    unfolding comes_back_def
    using material_resolved [OF assms(1,2) r(2-4)] components_replaced [OF assms(1,2) r(5)] weapon_condition [OF assms(1)]
    by (auto simp: r(5) failing_def)
  ultimately show thesis using that by blast
qed

end


interpretation vehicle: damage_anatomy vehicle_number
proof
  show "vehicle_number a < vehicle_number b" if "a < b" for a b
    using that by (cases a; cases b) (simp_all add: less_vehicle_section_def)
  show "vehicle_number a < 8" for a by (cases a) simp_all
qed

section \<open>Groups of a Mech\<close>






lemma collect_result_member: "collect_result f xs = Inr ys \<Longrightarrow> x \<in> set xs \<Longrightarrow> \<exists>y\<in>set ys. f x = Inr y"
  by (induction xs arbitrary: ys) (auto simp: bind_result_Inr_iff)





section \<open>The field as it was read\<close>

definition sample_section :: "bytes list \<Rightarrow> section_definition" where
  "sample_section parts =
     \<lparr>sec_armor = 8, sec_internal = 6, sec_rear = 3,
      sec_criticals = map (\<lambda>(c, e). (c, \<lparr>equipment = e, crit_data = bstr ''-'', crit_modes = []\<rparr>)) (enumerate 0 parts),
      sec_configuration = None\<rparr>"

definition sample_mech :: "mech_section damage_unit" where
  "sample_mech =
     \<lparr>definitions =
        [(RightArm, sample_section [bstr ''IS.AC/10'', bstr ''IS.AC/10'']),
         (LeftTorso, sample_section
            [bstr ''HeatSink'', bstr ''HeatSink'', bstr ''IS.AC/10'', bstr ''EndoSteel'', bstr ''IS.AC/10'', bstr ''HeatSink'', bstr ''HeatSink''])],
      specials = Some (bstr ''Clan ImprovedJJ_Tech''),
      mounts = [\<lparr>mount_criticals = [(RightArm, 0), (RightArm, 1)]\<rparr>, \<lparr>mount_criticals = [(LeftTorso, 2)]\<rparr>],
      ammo_bins = [\<lparr>bin_location = (LeftTorso, 4), bin_capacity = 10\<rparr>],
      systems = [\<lparr>sys_location = (LeftTorso, 0), sys_kind = unit_system.HeatSink\<rparr>,
        \<lparr>sys_location = (LeftTorso, 1), sys_kind = unit_system.HeatSink\<rparr>,
        \<lparr>sys_location = (LeftTorso, 3), sys_kind = unit_system.EndoSteel\<rparr>,
        \<lparr>sys_location = (LeftTorso, 5), sys_kind = unit_system.HeatSink\<rparr>,
        \<lparr>sys_location = (LeftTorso, 6), sys_kind = unit_system.HeatSink\<rparr>],
      live_sections =
        [(RightArm, \<lparr>cur_armor = 0, cur_internal = 0, cur_rear = 0\<rparr>),
         (LeftTorso, \<lparr>cur_armor = 0, cur_internal = 4, cur_rear = 3\<rparr>)],
      rounds = [7],
      lost_criticals = {(LeftTorso, 0), (LeftTorso, 1), (LeftTorso, 3)},
      component_failures = [\<lparr>failed_at = (LeftTorso, 5), failed_as = Shorted\<rparr>],
      weapon_failures = [(1, Jammed)], jammed_weapons = {}, powered_down_weapons = {}\<rparr>"


lemma sample_systems:
  "system_named (bstr ''HeatSink'') = Some unit_system.HeatSink" "system_named (bstr ''EndoSteel'') = Some unit_system.EndoSteel"
  "system_named (bstr ''IS.AC/10'') = None"
  by (simp_all add: system_named_def installation_def split_prefix_def starts_with_base_def unprefixed_def system_names_def
      bstr_def eq_ignore_ascii_case_def ascii_lower_def is_char_boundary_def)

lemma sample_placeholders:
  "\<not> placeholder (bstr ''HeatSink'')" "placeholder (bstr ''EndoSteel'')" "\<not> placeholder (bstr ''IS.AC/10'')"
  by (simp_all add: placeholder_def sample_systems) (simp_all add: bstr_def eq_ignore_ascii_case_def ascii_lower_def)

lemmas sample_eval = sample_mech_def sample_section_def sample_systems sample_placeholders listed_def installed_def bt_get_def
  bt_ok_def less_mech_section_def section_layout_def mount_slots_def critical_destroyed_def within_def



definition sample_vehicle :: "nat \<Rightarrow> vehicle_section damage_unit" where
  "sample_vehicle slots =
     \<lparr>definitions = [(Front, sample_section (take slots
         (let h = bstr ''HeatSink'' in [h, h, h, h, h, h, h, h, h, h, h, h, h])))], specials = None, mounts = [], ammo_bins = [], systems = [],
      live_sections = [(Front, \<lparr>cur_armor = 5, cur_internal = 6, cur_rear = 3\<rparr>)], rounds = [],
      lost_criticals = {(Front, slots - 1)}, component_failures = [], weapon_failures = [], jammed_weapons = {},
      powered_down_weapons = {}\<rparr>"

text \<open>
  The same holds of a vehicle whose sections use no slot past the twelfth.\<close>
lemma vehicle_field_comes_back:
  assumes "layout_ok u" and "unit_valid u"
  shows "\<exists>v r. unit_damage_field vehicle_number u = Inr v \<and> prepare_vehicle u v = Inr r \<and> comes_back vehicle_number u r"
proof -
  have "vehicle.closed_groups [] u" by (simp add: vehicle.closed_groups_def)
  then obtain v rs r where "unit_damage_field vehicle_number u = Inr v" "parse_damage_field v = Inr rs"
    "material_replace (material_new vehicle_number [] u) rs = Inr r" "comes_back vehicle_number u r"
    by (rule vehicle.write_back [OF assms])
  then show ?thesis by (auto simp: prepare_vehicle_def)
qed

lemma sample_vehicle_ok: "layout_ok (sample_vehicle 12)" "unit_valid (sample_vehicle 12)"
  by (simp_all add: layout_ok_def unit_valid_def sample_vehicle_def sample_eval Let_def)

text \<open>
  C28. The field of a vehicle that has lost equipment past the twelfth slot of a section is text that the
  same server refuses: reading it gives a record that cannot be written back.\<close>
theorem late_slots_refused:
  assumes "unit_damage_field vehicle_number u = Inr v" and "(s, d) \<in> set (definitions u)" and "(c, part) \<in> set (sec_criticals d)"
    and "\<not> placeholder (equipment part)" and "critical_destroyed u (s, c)" and "12 \<le> c" and "c < 256"
  shows "\<exists>e. prepare_vehicle u v = Inl e"
proof -
  obtain rs where rs: "damage_list vehicle_number u = Inr rs" "v = join_with [44] (map record_text rs)"
    using assms(1) by (auto simp: unit_damage_field_def bind_result_Inr_iff)
  obtain slots where slots: "collect_result (\<lambda>(s, d). collect_result (slot_records vehicle_number u s) (sec_criticals d)) (definitions u) = Inr slots"
    and sub: "set (concat (concat slots)) \<subseteq> set rs"
    using rs(1) unfolding damage_list_def bind_result_Inr_iff by force
  obtain row where "row \<in> set slots" "collect_result (slot_records vehicle_number u s) (sec_criticals d) = Inr row"
    using collect_result_member [OF slots assms(2)] by auto
  moreover from this(2) obtain cell where "cell \<in> set row" "slot_records vehicle_number u s (c, part) = Inr cell"
    using collect_result_member [OF _ assms(3)] by metis
  ultimately have "CriticalLost (vehicle_number s) c \<in> set rs"
    using assms(4,5) sub by (force simp: slot_records_def)
  then have mem: "record_text (CriticalLost (vehicle_number s) c) \<in> set (map record_text rs)" by (simp only: set_map imageI)
  have "\<exists>e. parse_damage_field v = Inl e"
  proof (cases "parse_damage_field v")
    case (Inr qs)
    then have "records_parse 0 (map record_text rs) = Inr qs" by (simp only: rs(2) parse_joined)
    from records_parse_each [OF this mem] show ?thesis by (simp only: late_slot [OF vehicle.number_small assms(6,7)]) simp
  qed blast
  then show ?thesis by (auto simp: prepare_vehicle_def)
qed

theorem late_slots_refused_witness:
  "\<exists>v e. unit_damage_field vehicle_number (sample_vehicle 13) = Inr v \<and> prepare_vehicle (sample_vehicle 13) v = Inl e"
proof -
  have "damage_list vehicle_number (sample_vehicle 13) = Inr [ArmorLoss 2 False 3, CriticalLost 2 12]"
    by (simp add: damage_list_def armor_records_def internal_records_def slot_records_def index_map_def component_at_def
        sample_vehicle_def sample_eval Let_def)
  then obtain v where v: "unit_damage_field vehicle_number (sample_vehicle 13) = Inr v" by (simp add: unit_damage_field_def)
  moreover have "\<exists>e. prepare_vehicle (sample_vehicle 13) v = Inl e"
    by (rule late_slots_refused [OF v, where s = Front and c = 12
        and d = "snd (hd (definitions (sample_vehicle 13)))"
        and part = "\<lparr>equipment = bstr ''HeatSink'', crit_data = bstr ''-'', crit_modes = []\<rparr>"])
      (simp_all add: sample_vehicle_def sample_eval Let_def)
  ultimately show ?thesis by blast
qed

end
