(* ===== verification/Notification.thy ===== *)
theory Notification
  imports World_Authority
begin

text \<open>
  \<open>src/notification.rs\<close>: the bounded traversal that carries a message through inventories, audible
  exits and enclosing objects, and the documents of \<open>crates/styled-text/src/lib.rs\<close> it forwards.
  Output is a list of recipients and documents; a call returns the grown list or an error, so that a
  failure leaves no partial output. Lengths and budgets are natural numbers, with the saturating
  additions of the code written out; the recursion limit is the signed configuration value.
\<close>

section \<open>Documents\<close>

datatype document =
    Styled bytes
  | NativeStyled bytes
  | Markdown bytes
  | LiteralText bytes
  | Prefixed bytes bytes document

fun doc_source :: "document \<Rightarrow> bytes" where
  "doc_source (Styled s) = s"
| "doc_source (NativeStyled s) = s"
| "doc_source (Markdown s) = s"
| "doc_source (LiteralText s) = s"
| "doc_source (Prefixed s _ _) = s"

definition doc_len :: "document \<Rightarrow> nat" where
  "doc_len d = length (doc_source d)"

definition doc_is_empty :: "document \<Rightarrow> bool" where
  "doc_is_empty d \<longleftrightarrow> doc_source d = []"

definition prefixed :: "document \<Rightarrow> bytes \<Rightarrow> document" where
  "prefixed d pre =
     (case d of
        Prefixed _ old inner \<Rightarrow> Prefixed ((pre @ old) @ doc_source inner) (pre @ old) inner
      | _ \<Rightarrow> Prefixed (pre @ doc_source d) pre d)"

section \<open>Requests\<close>

type_synonym policy = u16

definition ME :: policy where "ME = 1"
definition INV :: policy where "INV = 2"
definition EXITS :: policy where "EXITS = 4"
definition NBR_A :: policy where "NBR_A = 8"
definition LOC_A :: policy where "LOC_A = 16"
definition NEIGHBOR_EXITS_A :: policy where "NEIGHBOR_EXITS_A = 32"
definition INSIDE :: policy where "INSIDE = 64"

unbundle bit_operations_syntax

definition DIRECT :: policy where "DIRECT = ME OR EXITS"
definition AUDIBLE_EXITS :: policy where "AUDIBLE_EXITS = EXITS"
definition ROOM :: policy where "ROOM = ME OR EXITS OR INV OR NBR_A OR LOC_A OR NEIGHBOR_EXITS_A OR INSIDE"
definition ROOM_EXCLUDED :: policy where
  "ROOM_EXCLUDED = ME OR EXITS OR NBR_A OR LOC_A OR NEIGHBOR_EXITS_A OR INSIDE"

definition asks :: "policy \<Rightarrow> policy \<Rightarrow> bool" where
  "asks key what \<longleftrightarrow> key AND what \<noteq> 0"

record output_limits =
  output_message_limit :: nat
  output_entry_limit :: nat
  output_byte_limit :: nat
  notify_recursion_limit :: int

record notify_request =
  req_target :: object_id
  req_sender :: object_id
  req_document :: document
  req_policy :: policy
  exclusions :: "object_id list option"

record visit =
  visit_target :: object_id
  visit_document :: document
  visit_policy :: policy
  visit_depth :: nat

type_synonym outbox = "(object_id \<times> document) list"

datatype notify_error = EmbeddedNul | TraversalLimit | OutputLimit

definition outbox_bytes :: "outbox \<Rightarrow> nat" where
  "outbox_bytes out = sum_list (map (\<lambda>(_, d). doc_len d) out)"

definition stack_bytes :: "visit list \<Rightarrow> nat" where
  "stack_bytes vs = sum_list (map (\<lambda>v. doc_len (visit_document v)) vs)"

definition sat_add :: "nat \<Rightarrow> nat \<Rightarrow> nat" where
  "sat_add a b = min (a + b) (2 ^ 64 - 1)"

section \<open>One visit\<close>

definition carries :: "object \<Rightarrow> bool" where
  "carries obj \<longleftrightarrow> obj_kind obj \<noteq> Garbage \<and> obj_kind obj \<noteq> Exit"

definition visited :: "output_limits \<Rightarrow> world \<Rightarrow> visit \<Rightarrow> object option" where
  "visited lim w v =
     (if doc_is_empty (visit_document v) \<or> notify_recursion_limit lim \<le> int (visit_depth v) then None
      else (case object_at w (visit_target v) of
              None \<Rightarrow> None
            | Some obj \<Rightarrow> if carries obj then Some obj else None))"

definition own_copy :: "visit \<Rightarrow> object \<Rightarrow> outbox" where
  "own_copy v obj =
     (if asks (visit_policy v) ME \<and> obj_kind obj = Player then [(obj_id obj, visit_document v)] else [])"

text \<open>The audible exits of a place, and where they lead.\<close>

definition audible_exits :: "world \<Rightarrow> object_id \<Rightarrow> object_id set \<Rightarrow> object_id list" where
  "audible_exits w place banned =
     concat (map (\<lambda>(_, e).
         if obj_kind e = Exit \<and> location e = Some place \<and> Audible \<in> flags e
         then (case destination e of Some to \<Rightarrow> if to \<in> banned then [] else [to] | None \<Rightarrow> [])
         else [])
       (objects w))"

definition occupants :: "world \<Rightarrow> object_id \<Rightarrow> object_id set \<Rightarrow> object_id list" where
  "occupants w place banned =
     map (\<lambda>(_, c). obj_id c)
       (filter (\<lambda>(_, c). location c = Some place \<and> obj_id c \<notin> banned \<and> carries c) (objects w))"

definition DISTANCE :: bytes where "DISTANCE = bstr ''From a distance, ''"

definition onward :: "world \<Rightarrow> visit \<Rightarrow> object \<Rightarrow> visit list" where
  "onward w v obj =
     (let key = visit_policy v; doc = visit_document v; audible = Audible \<in> flags obj;
          far = ME OR NBR_A OR LOC_A OR INV OR INSIDE;
          forwarded = (if asks key INSIDE then prefixed doc (bstr ''From '' @ obj_name obj @ bstr '', '') else doc);
          to = (\<lambda>d p i. \<lparr>visit_target = i, visit_document = d, visit_policy = p, visit_depth = visit_depth v + 1\<rparr>)
      in (if asks key EXITS
          then map (to (prefixed doc DISTANCE) far) (audible_exits w (obj_id obj) {obj_id obj}) else [])
         @ (case location obj of
              Some loc \<Rightarrow>
                if asks key NEIGHBOR_EXITS_A \<and> audible
                then map (to (prefixed forwarded DISTANCE) far) (audible_exits w loc {loc, obj_id obj}) else []
            | None \<Rightarrow> [])
         @ (if asks key INV then map (to doc ME) (occupants w (obj_id obj) {obj_id obj}) else [])
         @ (case location obj of
              Some loc \<Rightarrow>
                (if asks key NBR_A \<and> audible then map (to forwarded ME) (occupants w loc {obj_id obj, loc}) else [])
                @ (if asks key LOC_A \<and> audible then [to forwarded (ME OR NBR_A OR LOC_A OR INSIDE) loc] else [])
            | None \<Rightarrow> []))"

section \<open>The traversal\<close>

text \<open>\<open>add\<close>: the next visits are queued one by one, each within the budgets.\<close>

fun add_visits ::
  "output_limits \<Rightarrow> nat \<Rightarrow> nat \<Rightarrow> nat \<Rightarrow> visit list \<Rightarrow> (notify_error, unit) result" where
  "add_visits lim stacked added queued [] = Inr ()"
| "add_visits lim stacked added queued (v # vs) =
     (let queued = sat_add queued (doc_len (visit_document v))
      in ensure_then (added + stacked < output_entry_limit lim \<and> queued \<le> output_byte_limit lim) TraversalLimit
           (add_visits lim stacked (added + 1) queued vs))"

text \<open>The stack has its top at the head. Every turn that pushes counts a visit, and visits are bounded.\<close>

function notify_loop ::
  "output_limits \<Rightarrow> world \<Rightarrow> nat \<Rightarrow> nat \<Rightarrow> nat \<Rightarrow> outbox \<Rightarrow> visit list \<Rightarrow> (notify_error, outbox) result" where
  "notify_loop lim w existing used visits staged [] = Inr staged"
| "notify_loop lim w existing used visits staged (v # stack) =
     (case visited lim w v of
        None \<Rightarrow> notify_loop lim w existing used visits staged stack
      | Some obj \<Rightarrow>
          ensure_then (visits + 1 \<le> output_entry_limit lim) TraversalLimit
          (ensure_then (doc_len (visit_document v) \<le> output_message_limit lim) OutputLimit
          (let mine = own_copy v obj;
               used' = (if mine = [] then used else sat_add used (doc_len (visit_document v)))
           in ensure_then
                (mine = [] \<or> length staged + existing < output_entry_limit lim \<and> used' \<le> output_byte_limit lim) OutputLimit
              (bind_result (add_visits lim (length stack) 0 (stack_bytes stack) (onward w v obj)) (\<lambda>_.
               ensure_then (length (onward w v obj) + length stack \<le> output_entry_limit lim) TraversalLimit
                 (notify_loop lim w existing used' (visits + 1) (staged @ mine) (onward w v obj @ stack)))))))"
  by pat_completeness auto
termination
proof (relation "measures [\<lambda>(lim, w, existing, used, visits, staged, stack). output_entry_limit lim - visits,
    \<lambda>(lim, w, existing, used, visits, staged, stack). length stack]", goal_cases)
  case 1
  show ?case by simp
next
  case 2
  then show ?case by simp
next
  case 3
  show ?case using 3(2) by (simp add: diff_less_mono2)
qed

text \<open>With exclusions the contents of the target are visited directly, the target first.\<close>

fun initial_contents ::
  "output_limits \<Rightarrow> document \<Rightarrow> object_id list \<Rightarrow> visit list \<Rightarrow> (notify_error, visit list) result" where
  "initial_contents lim doc [] stack = Inr stack"
| "initial_contents lim doc (i # is) stack =
     ensure_then (length stack < output_entry_limit lim
         \<and> sat_add (stack_bytes stack) (doc_len doc) \<le> output_byte_limit lim) TraversalLimit
       (initial_contents lim doc is
         (stack @ [\<lparr>visit_target = i, visit_document = doc, visit_policy = ME, visit_depth = 1\<rparr>]))"

definition initial_stack :: "output_limits \<Rightarrow> world \<Rightarrow> notify_request \<Rightarrow> (notify_error, visit list) result" where
  "initial_stack lim w r =
     (case exclusions r of
        None \<Rightarrow>
          Inr [\<lparr>visit_target = req_target r, visit_document = req_document r, visit_policy = req_policy r, visit_depth = 1\<rparr>]
      | Some ex \<Rightarrow>
          bind_result (initial_contents lim (req_document r) (occupants w (req_target r) (set ex)) []) (\<lambda>contents.
          Inr ((if req_target r \<in> set ex then []
                else [\<lparr>visit_target = req_target r, visit_document = req_document r,
                       visit_policy = ROOM_EXCLUDED, visit_depth = 1\<rparr>]) @ contents)))"

definition notification_send :: "output_limits \<Rightarrow> world \<Rightarrow> outbox \<Rightarrow> notify_request \<Rightarrow> (notify_error, outbox) result" where
  "notification_send lim w out r =
     ensure_then (0 \<notin> set (doc_source (req_document r))) EmbeddedNul
       (bind_result (initial_stack lim w r) (\<lambda>stack.
        bind_result (notify_loop lim w (length out) (outbox_bytes out) 0 [] stack) (\<lambda>staged.
        Inr (out @ staged))))"

definition notification_direct :: "output_limits \<Rightarrow> outbox \<Rightarrow> object_id \<Rightarrow> document \<Rightarrow> (notify_error, outbox) result" where
  "notification_direct lim out i d =
     ensure_then (doc_len d \<le> output_message_limit lim \<and> length out < output_entry_limit lim
         \<and> sat_add (outbox_bytes out) (doc_len d) \<le> output_byte_limit lim) OutputLimit
       (Inr (out @ [(i, d)]))"

section \<open>What is heard\<close>

text \<open>The reference: a visit delivers its own copy and then, in order, what each onward visit delivers.\<close>

function heard :: "output_limits \<Rightarrow> world \<Rightarrow> visit \<Rightarrow> outbox" where
  "heard lim w v =
     (case visited lim w v of
        None \<Rightarrow> []
      | Some obj \<Rightarrow> own_copy v obj @ concat (map (heard lim w) (onward w v obj)))"
  by pat_completeness auto

lemma onward_depth: "v' \<in> set (onward w v obj) \<Longrightarrow> visit_depth v' = visit_depth v + 1"
  by (auto simp: onward_def Let_def split: option.splits if_splits)

lemma visited_depth: "visited lim w v = Some obj \<Longrightarrow> int (visit_depth v) < notify_recursion_limit lim"
  by (auto simp: visited_def split: if_splits)

termination heard
proof (relation "measure (\<lambda>(lim, w, v). nat (notify_recursion_limit lim - int (visit_depth v)))", goal_cases)
  case (2 lim w v obj v')
  then show ?case using onward_depth [OF 2(2)] visited_depth [OF 2(1)] by simp
qed simp

declare heard.simps [simp del] notify_loop.simps(2) [simp del]

definition used_after :: "nat \<Rightarrow> visit \<Rightarrow> object \<Rightarrow> nat" where
  "used_after used v obj = (if own_copy v obj = [] then used else sat_add used (doc_len (visit_document v)))"

lemma notify_loop_skip:
  "visited lim w v = None \<Longrightarrow> notify_loop lim w existing used visits staged (v # stack) = notify_loop lim w existing used visits staged stack"
  by (simp add: notify_loop.simps(2))

lemma notify_loop_step:
  assumes "visited lim w v = Some obj"
  shows "notify_loop lim w existing used visits staged (v # stack) = Inr out \<longleftrightarrow>
    visits < output_entry_limit lim \<and> doc_len (visit_document v) \<le> output_message_limit lim
    \<and> (own_copy v obj = [] \<or> length staged + existing < output_entry_limit lim \<and> used_after used v obj \<le> output_byte_limit lim)
    \<and> add_visits lim (length stack) 0 (stack_bytes stack) (onward w v obj) = Inr ()
    \<and> length (onward w v obj) + length stack \<le> output_entry_limit lim
    \<and> notify_loop lim w existing (used_after used v obj) (Suc visits) (staged @ own_copy v obj) (onward w v obj @ stack) = Inr out"
  by (auto simp: assms notify_loop.simps(2) used_after_def ensure_then_def Let_def bind_result_Inr_iff Suc_le_eq)

lemma notify_loop_success [consumes 1, case_names finish skip step]:
  assumes "notify_loop lim w existing used visits staged stack = Inr out"
    and "\<And>used visits. P used visits out []"
    and "\<And>used visits staged v stack. visited lim w v = None \<Longrightarrow> P used visits staged stack \<Longrightarrow> P used visits staged (v # stack)"
    and "\<And>used visits staged v stack obj. visited lim w v = Some obj \<Longrightarrow> visits < output_entry_limit lim
      \<Longrightarrow> doc_len (visit_document v) \<le> output_message_limit lim
      \<Longrightarrow> own_copy v obj = [] \<or> length staged + existing < output_entry_limit lim \<and> used_after used v obj \<le> output_byte_limit lim
      \<Longrightarrow> P (used_after used v obj) (Suc visits) (staged @ own_copy v obj) (onward w v obj @ stack)
      \<Longrightarrow> P used visits staged (v # stack)"
  shows "P used visits staged stack"
  using assms
proof (induction lim w existing used visits staged stack rule: notify_loop.induct)
  case (2 lim w existing used visits staged v stack)
  show ?case
  proof (cases "visited lim w v")
    case None
    then show ?thesis using 2 by (simp add: notify_loop_skip)
  next
    case (Some obj)
    note step = "2.prems"(1) [unfolded notify_loop_step [OF Some]]
    have "P (used_after used v obj) (Suc visits) (staged @ own_copy v obj) (onward w v obj @ stack)"
      using "2.IH"(2) [OF Some] step "2.prems"(2-4) by (simp add: used_after_def)
    then show ?thesis using "2.prems"(4) [OF Some] step by blast
  qed
qed simp

lemma notify_loop_heard:
  assumes "notify_loop lim w existing used visits staged stack = Inr out"
  shows "out = staged @ concat (map (heard lim w) stack)"
  using assms
proof (induction rule: notify_loop_success)
  case (skip used visits staged v stack)
  then show ?case by (simp add: heard.simps [of lim w v])
next
  case (step used visits staged v stack obj)
  then show ?case by (simp add: heard.simps [of lim w v])
qed simp

section \<open>The visits of a request\<close>

text \<open>All visits below a visit, the ones that stop at once included, in the order they are made.\<close>

function walk :: "output_limits \<Rightarrow> world \<Rightarrow> visit \<Rightarrow> visit list" where
  "walk lim w v = v # (case visited lim w v of None \<Rightarrow> [] | Some obj \<Rightarrow> concat (map (walk lim w) (onward w v obj)))"
  by pat_completeness auto
termination walk
proof (relation "measure (\<lambda>(lim, w, v). nat (notify_recursion_limit lim - int (visit_depth v)))", goal_cases)
  case (2 lim w v obj v')
  then show ?case using onward_depth [OF 2(2)] visited_depth [OF 2(1)] by simp
qed simp

declare walk.simps [simp del]

definition walks :: "output_limits \<Rightarrow> world \<Rightarrow> visit list \<Rightarrow> visit list" where
  "walks lim w vs = concat (map (walk lim w) vs)"

lemma walks_simps [simp]: "walks lim w [] = []" "walks lim w (vs @ vs') = walks lim w vs @ walks lim w vs'"
  by (simp_all add: walks_def)

lemma walks_Cons: "walks lim w (v # vs) = v # (case visited lim w v of None \<Rightarrow> [] | Some obj \<Rightarrow> walks lim w (onward w v obj)) @ walks lim w vs"
  by (simp add: walks_def walk.simps [of lim w v] split: option.splits)

lemma length_walks: "length vs \<le> length (walks lim w vs)"
  by (induction vs) (simp_all add: walks_Cons split: option.splits)

lemma stack_bytes_simps [simp]:
  "stack_bytes [] = 0" "stack_bytes (v # vs) = doc_len (visit_document v) + stack_bytes vs"
  "stack_bytes (vs @ vs') = stack_bytes vs + stack_bytes vs'"
  by (simp_all add: stack_bytes_def)

lemma stack_bytes_walks: "stack_bytes vs \<le> stack_bytes (walks lim w vs)"
  by (induction vs) (simp_all add: walks_Cons split: option.splits)

lemma outbox_bytes_simps [simp]:
  "outbox_bytes [] = 0" "outbox_bytes ((i, d) # out) = doc_len d + outbox_bytes out"
  "outbox_bytes (out @ out') = outbox_bytes out + outbox_bytes out'"
  by (simp_all add: outbox_bytes_def)

lemma sat_add_exact: "a + b < 2 ^ 64 \<Longrightarrow> sat_add a b = a + b"
  by (simp add: sat_add_def)

lemma sat_add_le: "sat_add a b \<le> n \<Longrightarrow> n < 2 ^ 64 - 1 \<Longrightarrow> a + b \<le> n"
  by (simp add: sat_add_def)

lemma add_visits_within:
  "added + stacked + length vs \<le> output_entry_limit lim \<Longrightarrow> queued + stack_bytes vs \<le> output_byte_limit lim
    \<Longrightarrow> output_byte_limit lim < 2 ^ 64 \<Longrightarrow> add_visits lim stacked added queued vs = Inr ()"
  by (induction lim stacked added queued vs rule: add_visits.induct) (auto simp: sat_add_exact Let_def)

lemma notify_loop_within:
  assumes "output_byte_limit lim < 2 ^ 64" "visits + length (walks lim w stack) \<le> output_entry_limit lim"
    "length staged + existing + length (walks lim w stack) \<le> output_entry_limit lim"
    "used + stack_bytes (walks lim w stack) \<le> output_byte_limit lim"
    "\<forall>v\<in>set (walks lim w stack). doc_len (visit_document v) \<le> output_message_limit lim"
  shows "\<exists>out. notify_loop lim w existing used visits staged stack = Inr out"
  using assms
proof (induction lim w existing used visits staged stack rule: notify_loop.induct)
  case (2 lim w existing used visits staged v stack)
  show ?case
  proof (cases "visited lim w v")
    case None
    then show ?thesis using 2 by (auto simp: notify_loop_skip walks_Cons)
  next
    case (Some obj)
    let ?on = "onward w v obj"
    have w: "walks lim w (v # stack) = v # walks lim w (?on @ stack)" by (simp add: walks_Cons Some)
    note prems = "2.prems" [unfolded w]
    have len: "length (?on @ stack) \<le> length (walks lim w (?on @ stack))" by (rule length_walks)
    have bytes: "stack_bytes (?on @ stack) \<le> stack_bytes (walks lim w (?on @ stack))" by (rule stack_bytes_walks)
    have add: "add_visits lim (length stack) 0 (stack_bytes stack) ?on = Inr ()"
      using prems len bytes by (intro add_visits_within) simp_all
    have own: "length (own_copy v obj) \<le> 1" by (simp add: own_copy_def)
    have used: "used_after used v obj \<le> used + doc_len (visit_document v)" by (simp add: used_after_def sat_add_def)
    have "\<exists>out. notify_loop lim w existing (used_after used v obj) (Suc visits) (staged @ own_copy v obj) (?on @ stack) = Inr out"
      using "2.IH"(2) [OF Some] prems own used len add by (simp add: used_after_def)
    then show ?thesis using prems len add used by (simp add: notify_loop_step [OF Some])
  qed
qed simp

definition request_visits :: "world \<Rightarrow> notify_request \<Rightarrow> visit list" where
  "request_visits w r =
     (case exclusions r of
        None \<Rightarrow> [\<lparr>visit_target = req_target r, visit_document = req_document r, visit_policy = req_policy r, visit_depth = 1\<rparr>]
      | Some ex \<Rightarrow>
          (if req_target r \<in> set ex then []
           else [\<lparr>visit_target = req_target r, visit_document = req_document r, visit_policy = ROOM_EXCLUDED, visit_depth = 1\<rparr>])
          @ map (\<lambda>i. \<lparr>visit_target = i, visit_document = req_document r, visit_policy = ME, visit_depth = 1\<rparr>)
              (occupants w (req_target r) (set ex)))"

lemma initial_contents_Inr:
  "initial_contents lim doc is stack = Inr vs
    \<Longrightarrow> vs = stack @ map (\<lambda>i. \<lparr>visit_target = i, visit_document = doc, visit_policy = ME, visit_depth = 1\<rparr>) is"
  by (induction lim doc "is" stack rule: initial_contents.induct) (auto simp: ensure_then_def split: if_splits)

lemma initial_contents_within:
  "length stack + length is \<le> output_entry_limit lim
    \<Longrightarrow> stack_bytes stack + stack_bytes (map (\<lambda>i. \<lparr>visit_target = i, visit_document = doc, visit_policy = ME, visit_depth = 1\<rparr>) is)
      \<le> output_byte_limit lim
    \<Longrightarrow> output_byte_limit lim < 2 ^ 64 \<Longrightarrow> \<exists>vs. initial_contents lim doc is stack = Inr vs"
proof (induction lim doc "is" stack rule: initial_contents.induct)
  case (2 lim doc i "is" stack)
  then have "sat_add (stack_bytes stack) (doc_len doc) = stack_bytes stack + doc_len doc" by (intro sat_add_exact) simp
  then show ?case using 2 by simp
qed simp

lemma initial_stack_Inr: "initial_stack lim w r = Inr vs \<Longrightarrow> vs = request_visits w r"
  by (auto simp: initial_stack_def request_visits_def bind_result_Inr_iff split: option.splits dest!: initial_contents_Inr)

lemma initial_stack_within:
  assumes "length (request_visits w r) \<le> output_entry_limit lim" "stack_bytes (request_visits w r) \<le> output_byte_limit lim"
    "output_byte_limit lim < 2 ^ 64"
  shows "initial_stack lim w r = Inr (request_visits w r)"
proof -
  have "\<exists>vs. initial_stack lim w r = Inr vs"
  proof (cases "exclusions r")
    case (Some ex)
    have "\<exists>vs. initial_contents lim (req_document r) (occupants w (req_target r) (set ex)) [] = Inr vs"
      using assms by (intro initial_contents_within) (auto simp: request_visits_def Some split: if_splits)
    then show ?thesis by (auto simp: initial_stack_def Some)
  qed (simp add: initial_stack_def)
  then show ?thesis using initial_stack_Inr by auto
qed

lemma notification_send_heard:
  assumes "notification_send lim w out r = Inr out'"
  shows "out' = out @ concat (map (heard lim w) (request_visits w r))"
  using assms by (auto simp: notification_send_def ensure_then_def bind_result_Inr_iff split: if_splits
      dest!: notify_loop_heard initial_stack_Inr)




lemma notification_total:
  assumes "0 \<notin> set (doc_source (req_document r))" and "output_byte_limit lim < 2 ^ 64"
    and "length out + length (walks lim w (request_visits w r)) \<le> output_entry_limit lim"
    and "outbox_bytes out + stack_bytes (walks lim w (request_visits w r)) \<le> output_byte_limit lim"
    and "\<forall>v\<in>set (walks lim w (request_visits w r)). doc_len (visit_document v) \<le> output_message_limit lim"
  shows "\<exists>out'. notification_send lim w out r = Inr out'"
proof -
  have "initial_stack lim w r = Inr (request_visits w r)"
    using assms(2-4) length_walks [of "request_visits w r" lim w] stack_bytes_walks [of "request_visits w r" lim w]
    by (intro initial_stack_within) linarith+
  moreover obtain staged where "notify_loop lim w (length out) (outbox_bytes out) 0 [] (request_visits w r) = Inr staged"
    using notify_loop_within [of lim 0 w "request_visits w r" "[]" "length out" "outbox_bytes out"] assms by auto
  ultimately show ?thesis using assms(1) by (simp add: notification_send_def)
qed

section \<open>Deliveries\<close>

text \<open>
  C29. Whenever the visits of a message fit the budgets, \<open>send\<close> delivers it, and to exactly those who
  hear it by the recursive reading: a carrier hears its own copy and then, in order, everything its
  audible exits, contents, neighbours and surroundings hear, down to the recursion limit.\<close>
theorem notification_delivers:
  assumes "0 \<notin> set (doc_source (req_document r))" and "output_byte_limit lim < 2 ^ 64"
    and "length out + length (walks lim w (request_visits w r)) \<le> output_entry_limit lim"
    and "outbox_bytes out + stack_bytes (walks lim w (request_visits w r)) \<le> output_byte_limit lim"
    and "\<forall>v\<in>set (walks lim w (request_visits w r)). doc_len (visit_document v) \<le> output_message_limit lim"
  shows "notification_send lim w out r = Inr (out @ concat (map (heard lim w) (request_visits w r)))"
  using notification_total [OF assms] notification_send_heard by blast

definition talking_world :: world where
  "talking_world =
     \<lparr>objects = [(1, (sample_object 1 Player (Some 3))), (2, sample_object 2 Room None),
        (3, (sample_object 3 Thing (Some 2))\<lparr>flags := {Audible}\<rparr>), (4, sample_object 4 Player (Some 2))]\<rparr>"

definition sample_limits :: output_limits where
  "sample_limits = \<lparr>output_message_limit = 100, output_entry_limit = 10, output_byte_limit = 1000, notify_recursion_limit = 5\<rparr>"

definition sample_request :: notify_request where
  "sample_request =
     \<lparr>req_target = 3, req_sender = 1, req_document = Styled [104, 105], req_policy = ROOM, exclusions = Some [1]\<rparr>"

lemma sample_request_fits:
  "0 \<notin> set (doc_source (req_document sample_request))" "output_byte_limit sample_limits < 2 ^ 64"
  "length [] + length (walks sample_limits talking_world (request_visits talking_world sample_request)) \<le> output_entry_limit sample_limits"
  "outbox_bytes [] + stack_bytes (walks sample_limits talking_world (request_visits talking_world sample_request)) \<le> output_byte_limit sample_limits"
  "\<forall>v\<in>set (walks sample_limits talking_world (request_visits talking_world sample_request)).
    doc_len (visit_document v) \<le> output_message_limit sample_limits"
proof -
  show "0 \<notin> set (doc_source (req_document sample_request))" "output_byte_limit sample_limits < 2 ^ 64"
    by (simp_all add: sample_request_def sample_limits_def)
qed code_simp+

theorem notification_delivers_witness:
  "notification_send sample_limits talking_world [] sample_request
   = Inr ([] @ concat (map (heard sample_limits talking_world) (request_visits talking_world sample_request)))"
  by (rule notification_delivers [OF sample_request_fits])



end
