(* ===== verification/Effects.thy ===== *)
theory Effects
  imports Prelude
begin

text \<open>
  Fallible operations on a shared state, as the services of the server write them: an operation
  returns the state it leaves, also when it fails, and a value or an error. \<open>atomic\<close> of
  \<open>src/runtime/transaction.rs\<close> undoes a failed operation up to what a rollback cannot undo. The
  locale \<open>evolution\<close> carries a reflexive and transitive relation on states through operations.
\<close>

section \<open>Operations\<close>

type_synonym ('s, 'e, 'a) effect = "'s \<Rightarrow> 's \<times> ('e, 'a) result"

definition eff_return :: "'a \<Rightarrow> ('s, 'e, 'a) effect" where
  "eff_return x s = (s, Inr x)"

definition eff_fail :: "'e \<Rightarrow> ('s, 'e, 'a) effect" where
  "eff_fail e s = (s, Inl e)"

definition eff_bind :: "('s, 'e, 'a) effect \<Rightarrow> ('a \<Rightarrow> ('s, 'e, 'b) effect) \<Rightarrow> ('s, 'e, 'b) effect" where
  "eff_bind m f s = (case m s of (s', Inl e) \<Rightarrow> (s', Inl e) | (s', Inr x) \<Rightarrow> f x s')"

definition eff_get :: "('s \<Rightarrow> 'a) \<Rightarrow> ('s, 'e, 'a) effect" where
  "eff_get g s = (s, Inr (g s))"

definition eff_modify :: "('s \<Rightarrow> 's) \<Rightarrow> ('s, 'e, unit) effect" where
  "eff_modify g s = (g s, Inr ())"

definition eff_ensure :: "bool \<Rightarrow> 'e \<Rightarrow> ('s, 'e, unit) effect" where
  "eff_ensure b e = (if b then eff_return () else eff_fail e)"

definition eff_some :: "'e \<Rightarrow> 'a option \<Rightarrow> ('s, 'e, 'a) effect" where
  "eff_some e x = (case x of Some y \<Rightarrow> eff_return y | None \<Rightarrow> eff_fail e)"

primrec eff_each :: "('a \<Rightarrow> ('s, 'e, unit) effect) \<Rightarrow> 'a list \<Rightarrow> ('s, 'e, unit) effect" where
  "eff_each f [] = eff_return ()"
| "eff_each f (x # xs) = eff_bind (f x) (\<lambda>_. eff_each f xs)"

text \<open>\<open>keep s s'\<close> is the earlier state \<open>s\<close> with what a rollback from \<open>s'\<close> cannot undo.\<close>

definition atomic :: "('s \<Rightarrow> 's \<Rightarrow> 's) \<Rightarrow> ('s, 'e, 'a) effect \<Rightarrow> ('s, 'e, 'a) effect" where
  "atomic keep m s = (case m s of (s', Inl e) \<Rightarrow> (keep s s', Inl e) | (s', Inr x) \<Rightarrow> (s', Inr x))"

section \<open>Running operations\<close>

lemma effect_simps [simp]:
  "eff_return x s = (s, Inr x)" "eff_fail e s = (s, Inl e)" "eff_get g s = (s, Inr (g s))"
  "eff_modify h s = (h s, Inr ())"
  by (simp_all add: eff_return_def eff_fail_def eff_get_def eff_modify_def)

lemma eff_bind_simps [simp]:
  "eff_bind (eff_return x) f s = f x s" "eff_bind (eff_fail e) f s = (s, Inl e)"
  "eff_bind (eff_get g) f s = f (g s) s" "eff_bind (eff_modify g') h s = h () (g' s)"
  "eff_bind (eff_ensure b e) h s = (if b then h () s else (s, Inl e))"
  by (simp_all add: eff_bind_def eff_ensure_def)

lemma eff_bind_some [simp]:
  "eff_bind (eff_some e x) f s = (case x of Some y \<Rightarrow> f y s | None \<Rightarrow> (s, Inl e))"
  by (simp add: eff_bind_def eff_some_def split: option.split)

lemma eff_bind_Inr:
  "eff_bind m f s = (s', Inr y) \<longleftrightarrow> (\<exists>t x. m s = (t, Inr x) \<and> f x t = (s', Inr y))"
  by (auto simp: eff_bind_def split: prod.splits sum.splits)

lemma eff_ensure_apply: "eff_ensure b e s = (s, if b then Inr () else Inl e)"
  by (simp add: eff_ensure_def)

lemma eff_some_apply: "eff_some e x s = (s, case x of Some y \<Rightarrow> Inr y | None \<Rightarrow> Inl e)"
  by (simp add: eff_some_def split: option.split)

lemma eff_each_append:
  "eff_each f (xs @ ys) s = eff_bind (eff_each f xs) (\<lambda>_. eff_each f ys) s"
proof (induction xs arbitrary: s)
  case (Cons x xs)
  then show ?case by (auto simp: eff_bind_def split: prod.split sum.split)
qed simp

section \<open>Evolution\<close>

named_theorems evolving \<open>operations evolve when their parts do\<close>

text \<open>An operation evolves when every state it leaves is related to the one it found.\<close>

definition evolves :: "('s \<Rightarrow> 's \<Rightarrow> bool) \<Rightarrow> ('s, 'e, 'a) effect \<Rightarrow> bool" where
  "evolves R m \<longleftrightarrow> (\<forall>s. R s (fst (m s)))"

locale evolution =
  fixes R :: "'s \<Rightarrow> 's \<Rightarrow> bool"
  assumes stays: "R s s"
    and goes_on: "R s t \<Longrightarrow> R t u \<Longrightarrow> R s u"
begin

lemma at: "evolves R m \<Longrightarrow> R s (fst (m s))"
  by (simp add: evolves_def)

lemma at_bind:
  assumes "R s (fst (m s))" and "\<And>x t. m s = (t, Inr x) \<Longrightarrow> R t (fst (f x t))"
  shows "R s (fst (eff_bind m f s))"
proof (cases "m s")
  case (Pair t r)
  then show ?thesis using assms by (cases r) (auto simp: eff_bind_def intro: goes_on)
qed

lemma still: "evolves R (eff_return x)" "evolves R (eff_fail e)" "evolves R (eff_get g)"
  "evolves R (eff_ensure b e)" "evolves R (eff_some e' y)"
  by (simp_all add: evolves_def stays eff_ensure_apply eff_some_apply)

lemma bind:
  assumes "evolves R m" and "\<And>x. evolves R (f x)"
  shows "evolves R (eff_bind m f)"
  using assms at_bind unfolding evolves_def by metis

lemma modify: "(\<And>s. R s (g s)) \<Longrightarrow> evolves R (eff_modify g)"
  by (simp add: evolves_def)

lemma each: "(\<And>x. x \<in> set xs \<Longrightarrow> evolves R (f x)) \<Longrightarrow> evolves R (eff_each f xs)"
  by (induction xs) (simp_all add: still bind)

lemma branch: "(b \<Longrightarrow> evolves R m) \<Longrightarrow> (\<not> b \<Longrightarrow> evolves R m') \<Longrightarrow> evolves R (if b then m else m')"
  by simp

lemma option: "(x = None \<Longrightarrow> evolves R m) \<Longrightarrow> (\<And>y. x = Some y \<Longrightarrow> evolves R (f y)) \<Longrightarrow>
    evolves R (case x of None \<Rightarrow> m | Some y \<Rightarrow> f y)"
  by (cases x) simp_all

lemma pair: "(\<And>x y. p = (x, y) \<Longrightarrow> evolves R (f x y)) \<Longrightarrow> evolves R (case p of (x, y) \<Rightarrow> f x y)"
  by (cases p) simp

lemma undone:
  assumes "evolves R m" and "\<And>s t. R s t \<Longrightarrow> R s (keep s t)"
  shows "evolves R (atomic keep m)"
  unfolding evolves_def
proof
  fix s
  obtain t r where t: "m s = (t, r)" by fastforce
  with assms(1) have "R s t" by (auto simp: evolves_def dest: spec [of _ s])
  then show "R s (fst (atomic keep m s))" using assms(2) by (cases r) (simp_all add: atomic_def t)
qed

end

lemma atomic_failed: "atomic keep m s = (t, Inl e) \<Longrightarrow> \<exists>t'. m s = (t', Inl e) \<and> t = keep s t'"
  by (auto simp: atomic_def split: prod.splits sum.splits)

end
