(* ===== verification/Channels.thy ===== *)
theory Channels
  imports Notification Macros Effects
begin

text \<open>
  \<open>src/communication\<close>: channels with their members, aliases and history (\<open>model.rs\<close>), the shared
  operations (\<open>service.rs\<close>), membership (\<open>membership.rs\<close>), delivery and speech (\<open>delivery.rs\<close>) and
  the in-character policy (\<open>policy.rs\<close>). Every operation is an effect on the state: the objects, the
  channels, the aliases, the last pages, the staged output and the process-wide identity counter. The
  callbacks into game code, the clock, the renderers and the Unicode column tables are fields of the
  environment. A panic (indexing a map at a missing key) is an error of its own.
\<close>

section \<open>Data\<close>

definition HISTORY_LIMIT :: nat where "HISTORY_LIMIT = 20"
definition CHANNEL_NAME_LIMIT :: nat where "CHANNEL_NAME_LIMIT = 49"
definition ALIAS_LIMIT :: nat where "ALIAS_LIMIT = 5"

type_synonym channel_flags = u64

datatype channel_flag = PublicFlag | LoudFlag | TransparentFlag

primrec channel_flag_name :: "channel_flag \<Rightarrow> bytes" where
  "channel_flag_name PublicFlag = bstr ''PUBLIC''"
| "channel_flag_name LoudFlag = bstr ''LOUD''"
| "channel_flag_name TransparentFlag = bstr ''TRANSPARENT''"

primrec channel_flag_bit :: "channel_flag \<Rightarrow> channel_flags" where
  "channel_flag_bit PublicFlag = 512"
| "channel_flag_bit LoudFlag = 256"
| "channel_flag_bit TransparentFlag = 1024"

unbundle bit_operations_syntax

definition channel_flag_parse :: "bytes \<Rightarrow> channel_flag option" where
  "channel_flag_parse v =
     (let l = to_ascii_lowercase v
      in if l = bstr ''public'' then Some PublicFlag
         else if l = bstr ''loud'' then Some LoudFlag
         else if l = bstr ''transparent'' then Some TransparentFlag else None)"

definition flags_has :: "channel_flags \<Rightarrow> channel_flag \<Rightarrow> bool" where
  "flags_has f x \<longleftrightarrow> f AND channel_flag_bit x \<noteq> 0"

definition flags_set :: "channel_flags \<Rightarrow> channel_flag \<Rightarrow> bool \<Rightarrow> channel_flags \<times> bool" where
  "flags_set f x enabled =
     (let f' = (if enabled then f OR channel_flag_bit x else f AND NOT (channel_flag_bit x)) in (f', f \<noteq> f'))"

datatype access = JoinAccess | TransmitAccess | ReceiveAccess

primrec access_bit :: "access \<Rightarrow> channel_flags" where
  "access_bit JoinAccess = 1"
| "access_bit TransmitAccess = 2"
| "access_bit ReceiveAccess = 4"

primrec access_lock :: "access \<Rightarrow> lock_type" where
  "access_lock JoinAccess = LockChannelJoin"
| "access_lock TransmitAccess = LockChannelTransmit"
| "access_lock ReceiveAccess = LockChannelReceive"

record membership =
  mem_who :: object_id
  mem_listening :: bool

record channel_alias =
  alias_text :: bytes
  alias_channel :: bytes

record channel_message =
  msg_at :: int
  msg_text :: bytes

record channel =
  ch_name :: bytes
  ch_object :: "object_id option"
  ch_flags :: channel_flags
  ch_messages :: int
  ch_users :: "membership list"
  ch_history :: "channel_message list"
  ch_id :: nat
  ch_max_users :: nat
  ch_online :: "object_id list"
  ch_initialized :: bool

text \<open>Equality of channels compares the durable fields only.\<close>

definition channel_eq :: "channel \<Rightarrow> channel \<Rightarrow> bool" where
  "channel_eq c d \<longleftrightarrow>
     ch_name c = ch_name d \<and> ch_object c = ch_object d \<and> ch_flags c = ch_flags d
     \<and> ch_messages c = ch_messages d \<and> ch_users c = ch_users d \<and> ch_history c = ch_history d"

definition channel_new :: "nat \<Rightarrow> bytes \<Rightarrow> channel" where
  "channel_new i name =
     \<lparr>ch_name = name, ch_object = None, ch_flags = 127, ch_messages = 0, ch_users = [], ch_history = [],
      ch_id = i, ch_max_users = 0, ch_online = [], ch_initialized = False\<rparr>"

record comms =
  com_world :: world
  com_accounts :: "(object_id, bytes option) btree"
  channels :: "(bytes, channel) btree"
  channel_aliases :: "(object_id, channel_alias list) btree"
  last_pages :: "(object_id, object_id list) btree"
  com_outbox :: outbox
  next_channel :: nat

datatype comm_error = Said bytes | Routing notify_error | Panicked

datatype lock_outcome = Decision bool | CallbackFailed

type_synonym 'a comm = "(comms, comm_error, 'a) effect"

text \<open>
  The environment of an operation: the configuration it reads, the host callbacks, the clock, and the
  text functions of other crates.
\<close>

record comm_env =
  env_limits :: output_limits
  ooc_comsys :: int
  allow_chanlurking :: int
  lock_passes :: "object_id \<Rightarrow> object_id \<Rightarrow> lock_type \<Rightarrow> lock_outcome comm"
  channel_leave :: "object_id \<Rightarrow> object_id \<Rightarrow> unit comm"
  terminal_width :: "nat option \<Rightarrow> nat option"
  idle_time :: "object_id \<Rightarrow> nat"
  wall_time :: int
  plain_text :: "bytes \<Rightarrow> bytes"
  column_text :: "bytes \<Rightarrow> nat \<Rightarrow> bytes"
  truncate_text :: "bytes \<Rightarrow> nat \<Rightarrow> bytes"
  timestamp_text :: "int \<Rightarrow> bytes"

primrec notify_error_text :: "notify_error \<Rightarrow> bytes" where
  "notify_error_text EmbeddedNul = bstr ''message contains an embedded NUL byte''"
| "notify_error_text TraversalLimit = bstr ''Notification traversal limit exceeded''"
| "notify_error_text OutputLimit = bstr ''Lua output limit exceeded''"

primrec comm_error_text :: "comm_error \<Rightarrow> bytes" where
  "comm_error_text (Said t) = t"
| "comm_error_text (Routing e) = notify_error_text e"
| "comm_error_text Panicked = []"

text \<open>A rollback restores everything but the identity counter, which is a static of the process.\<close>

definition rolled_back :: "comms \<Rightarrow> comms \<Rightarrow> comms" where
  "rolled_back before after = before\<lparr>next_channel := next_channel after\<rparr>"

text \<open>\<open>get_mut(&name)\<close>; its callers have looked the name up.\<close>

definition edit_channel :: "bytes \<Rightarrow> (channel \<Rightarrow> channel) \<Rightarrow> comms \<Rightarrow> comms" where
  "edit_channel name f s =
     (case bt_get (channels s) name of
        None \<Rightarrow> s
      | Some c \<Rightarrow> s\<lparr>channels := bt_insert name (f c) (channels s)\<rparr>)"

text \<open>\<open>w.channels[&name]\<close> and \<open>w.objects[&id]\<close>, which panic at a missing key.\<close>

definition channel_at :: "bytes \<Rightarrow> channel comm" where
  "channel_at name s = eff_some Panicked (bt_get (channels s) name) s"

definition object_of :: "object_id \<Rightarrow> object comm" where
  "object_of i s = eff_some Panicked (object_at (com_world s) i) s"

definition aliases_of :: "object_id \<Rightarrow> comms \<Rightarrow> channel_alias list" where
  "aliases_of who s = (case bt_get (channel_aliases s) who of Some a \<Rightarrow> a | None \<Rightarrow> [])"

definition escape :: "bytes \<Rightarrow> bytes" where
  "escape s = concat (map (\<lambda>b. if b = 91 then [91, 91] else [b]) s)"

section \<open>In-character policy\<close>

definition marked_in_character :: "world \<Rightarrow> object_id option \<Rightarrow> bool" where
  "marked_in_character w loc =
     (case Option.bind loc (object_at w) of Some obj \<Rightarrow> InCharacter \<in> flags obj | None \<Rightarrow> False)"

fun in_character_from :: "nat \<Rightarrow> world \<Rightarrow> object_id option \<Rightarrow> bool" where
  "in_character_from 0 w loc = marked_in_character w loc"
| "in_character_from (Suc n) w loc =
     (case Option.bind loc (object_at w) of
        None \<Rightarrow> False
      | Some obj \<Rightarrow>
          if obj_kind obj \<noteq> Player then InCharacter \<in> flags obj
          else if loc = location obj then marked_in_character w loc
          else in_character_from n w (location obj))"

definition in_character :: "comm_env \<Rightarrow> world \<Rightarrow> object_id \<Rightarrow> bool" where
  "in_character env w i =
     (case object_at w i of
        None \<Rightarrow> True
      | Some obj \<Rightarrow>
          if Gagged \<in> flags obj then True
          else if ooc_comsys env \<noteq> 0 then False
          else in_character_from 100 w (location obj))"

section \<open>Shared operations\<close>

definition find_name :: "comms \<Rightarrow> bytes \<Rightarrow> bytes option" where
  "find_name s name = List.find (\<lambda>k. eq_ignore_ascii_case k name) (map fst (channels s))"

definition comm_name :: "bytes \<Rightarrow> bytes comm" where
  "comm_name name s = eff_some (Said (bstr ''Unknown channel '' @ name @ bstr ''.'')) (find_name s name) s"

definition by_id :: "nat \<Rightarrow> bytes comm" where
  "by_id i s =
     eff_some (Said (bstr ''channel handle is stale''))
       (map_option ch_name (List.find (\<lambda>c. ch_id c = i) (map snd (channels s)))) s"

definition printable :: "bytes \<Rightarrow> bool" where
  "printable v \<longleftrightarrow> list_all (\<lambda>b. 33 \<le> b \<and> b \<le> 126) v"

definition comm_create :: "bytes \<Rightarrow> nat comm" where
  "comm_create name =
     eff_bind (eff_ensure (name \<noteq> []) (Said (bstr ''You must specify a channel to create.''))) (\<lambda>_.
     eff_bind (eff_ensure (length name \<le> CHANNEL_NAME_LIMIT \<and> printable name)
         (Said (bstr ''Channel names must be printable ASCII without spaces.''))) (\<lambda>_.
     eff_bind (eff_get (\<lambda>s. find_name s name)) (\<lambda>found.
     eff_bind (eff_ensure (found = None) (Said (bstr ''Channel already exists.''))) (\<lambda>_.
     eff_bind (eff_get next_channel) (\<lambda>i.
     eff_bind (eff_modify (\<lambda>s. s\<lparr>channels := bt_insert name (channel_new i name) (channels s), next_channel := i + 1\<rparr>)) (\<lambda>_.
     eff_return i))))))"

definition comm_destroy :: "bytes \<Rightarrow> unit comm" where
  "comm_destroy name =
     eff_bind (comm_name name) (\<lambda>name.
     eff_modify (\<lambda>s. s\<lparr>channels := bt_remove name (channels s)\<rparr>))"

definition comm_notify :: "comm_env \<Rightarrow> object_id \<Rightarrow> bytes \<Rightarrow> unit comm" where
  "comm_notify env player message =
     (if message = [] then eff_return ()
      else
        eff_bind (eff_get com_outbox) (\<lambda>out.
        eff_bind (eff_ensure
            (length message \<le> output_message_limit (env_limits env) \<and> length out < output_entry_limit (env_limits env)
             \<and> outbox_bytes out + length message \<le> output_byte_limit (env_limits env))
            (Said (bstr ''Communication output limit exceeded''))) (\<lambda>_.
        eff_modify (\<lambda>s. s\<lparr>com_outbox := out @ [(player, Styled message)]\<rparr>))))"

definition access_granted :: "channel_flags \<Rightarrow> access \<Rightarrow> object \<Rightarrow> bool" where
  "access_granted bits a obj \<longleftrightarrow> bits AND (access_bit a * (if obj_kind obj = Player then 1 else 16)) \<noteq> 0"

definition allowed :: "comm_env \<Rightarrow> object_id \<Rightarrow> bytes \<Rightarrow> access \<Rightarrow> bool comm" where
  "allowed env who channel a s =
     (if is_wizard (com_world s) who then (s, Inr True)
      else
        case object_at (com_world s) who of
          None \<Rightarrow> (s, Inl (Said (bstr ''object does not exist'')))
        | Some obj \<Rightarrow>
            (case bt_get (channels s) channel of
               None \<Rightarrow> (s, Inl (Said (bstr ''channel removed by callback'')))
             | Some c \<Rightarrow>
                 (case ch_object c of
                    None \<Rightarrow> (s, Inr (access_granted (ch_flags c) a obj))
                  | Some lock \<Rightarrow>
                      if lock = 0 then (s, Inr (access_granted (ch_flags c) a obj))
                      else
                        (case lock_passes env lock who (access_lock a) s of
                           (s', Inl e) \<Rightarrow> (s', Inl e)
                         | (s', Inr (Decision True)) \<Rightarrow> (s', Inr True)
                         | (s', Inr (Decision False)) \<Rightarrow> (s', Inr (access_granted (ch_flags c) a obj))
                         | (s', Inr CallbackFailed) \<Rightarrow>
                             (rolled_back s s', Inr (access_granted (ch_flags c) a obj))))))"

text \<open>\<open>notification::send\<close> on the staged output.\<close>

definition comm_route :: "comm_env \<Rightarrow> notify_request \<Rightarrow> unit comm" where
  "comm_route env r s =
     (case notification_send (env_limits env) (com_world s) (com_outbox s) r of
        Inl e \<Rightarrow> (s, Inl (Routing e))
      | Inr out \<Rightarrow> (s\<lparr>com_outbox := out\<rparr>, Inr ()))"

definition direct_request :: "object_id \<Rightarrow> bytes \<Rightarrow> notify_request" where
  "direct_request i message =
     \<lparr>req_target = i, req_sender = i, req_document = Styled message, req_policy = DIRECT, exclusions = None\<rparr>"

section \<open>Members\<close>

definition live_member :: "world \<Rightarrow> bool \<Rightarrow> object_id \<Rightarrow> bool" where
  "live_member w all i =
     (case object_at w i of
        None \<Rightarrow> False
      | Some obj \<Rightarrow> obj_kind obj \<noteq> Garbage \<and> (all \<or> obj_kind obj \<noteq> Player \<or> Connected \<in> flags obj))"

definition find_member :: "object_id \<Rightarrow> membership list \<Rightarrow> membership option" where
  "find_member who us = List.find (\<lambda>u. mem_who u = who) us"

definition reconciled :: "world \<Rightarrow> channel \<Rightarrow> channel" where
  "reconciled w c =
     (let eligible = map mem_who (filter (\<lambda>u. live_member w False (mem_who u)) (ch_users c))
      in if ch_initialized c then c\<lparr>ch_online := filter (\<lambda>i. i \<in> set eligible) (ch_online c)\<rparr>
         else c\<lparr>ch_online := rev eligible, ch_initialized := True\<rparr>)"

definition online_memberships :: "channel \<Rightarrow> membership list" where
  "online_memberships c = List.map_filter (\<lambda>i. find_member i (ch_users c)) (ch_online c)"

definition online_members :: "bytes \<Rightarrow> membership list comm" where
  "online_members channel =
     eff_bind (comm_name channel) (\<lambda>name.
     eff_bind (eff_modify (\<lambda>s. edit_channel name (reconciled (com_world s)) s)) (\<lambda>_.
     eff_bind (channel_at name) (\<lambda>c.
     eff_return (online_memberships c))))"

definition comm_members :: "bytes \<Rightarrow> bool \<Rightarrow> membership list comm" where
  "comm_members channel all =
     eff_bind (comm_name channel) (\<lambda>name.
     eff_bind (channel_at name) (\<lambda>c.
     eff_get (\<lambda>s. filter (\<lambda>u. live_member (com_world s) all (mem_who u)) (ch_users c))))"

section \<open>Delivery\<close>

definition deliver :: "comm_env \<Rightarrow> object_id \<Rightarrow> bytes \<Rightarrow> unit comm" where
  "deliver env target message =
     eff_bind (eff_get (\<lambda>s. case object_at (com_world s) target of Some obj \<Rightarrow> obj_kind obj = Player | None \<Rightarrow> False))
       (\<lambda>player. if player then comm_notify env target message else comm_route env (direct_request target message))"

definition headed :: "bytes \<Rightarrow> bytes \<Rightarrow> bool \<Rightarrow> bytes" where
  "headed channel message no_header =
     (if no_header then message else escape (bstr ''['' @ channel @ bstr '']'') @ [32] @ message)"

definition chan_replaced :: comm_error where "chan_replaced = Said (bstr ''channel replaced by callback'')"
definition chan_removed :: comm_error where "chan_removed = Said (bstr ''channel removed by callback'')"

definition same_channel :: "bytes \<Rightarrow> nat \<Rightarrow> comms \<Rightarrow> bool" where
  "same_channel name i s = (case bt_get (channels s) name of Some c \<Rightarrow> ch_id c = i | None \<Rightarrow> False)"

definition out_of_character :: "comm_env \<Rightarrow> object_id \<Rightarrow> comms \<Rightarrow> bool" where
  "out_of_character env who s \<longleftrightarrow> is_wizard (com_world s) who \<or> \<not> in_character env (com_world s) who"

definition emit_one :: "comm_env \<Rightarrow> bytes \<Rightarrow> nat \<Rightarrow> bytes \<Rightarrow> object_id option \<Rightarrow> membership \<Rightarrow> unit comm" where
  "emit_one env name i message excluded u =
     (if excluded = Some (mem_who u) then eff_return ()
      else
        eff_bind (eff_get (\<lambda>s. live_member (com_world s) False (mem_who u))) (\<lambda>eligible.
        eff_bind (eff_get (same_channel name i)) (\<lambda>same.
        eff_bind (eff_ensure same chan_replaced) (\<lambda>_.
        if mem_listening u \<and> eligible
        then eff_bind (allowed env (mem_who u) name ReceiveAccess) (\<lambda>ok.
             eff_bind (eff_get (out_of_character env (mem_who u))) (\<lambda>ooc.
             if ok \<and> ooc then deliver env (mem_who u) message else eff_return ()))
        else eff_return ()))))"

definition remembered :: "channel_message \<Rightarrow> channel \<Rightarrow> channel" where
  "remembered m c =
     c\<lparr>ch_history := drop (length (ch_history c @ [m]) - HISTORY_LIMIT) (ch_history c @ [m])\<rparr>"

definition emit_excluding :: "comm_env \<Rightarrow> bytes \<Rightarrow> bytes \<Rightarrow> bool \<Rightarrow> object_id option \<Rightarrow> unit comm" where
  "emit_excluding env channel message no_header excluded =
     eff_bind (eff_ensure (0 \<notin> set message) (Said (bstr ''message contains an embedded NUL byte''))) (\<lambda>_.
     eff_bind (comm_name channel) (\<lambda>name.
     let message = headed channel message no_header in
     eff_bind (channel_at name) (\<lambda>c.
     eff_bind (eff_ensure (ch_messages c + 1 < 2 ^ 63) (Said (bstr ''channel message counter overflow''))) (\<lambda>_.
     eff_bind (eff_modify (edit_channel name (\<lambda>c. c\<lparr>ch_messages := ch_messages c + 1\<rparr>))) (\<lambda>_.
     eff_bind (online_members name) (\<lambda>users.
     eff_bind (eff_each (emit_one env name (ch_id c) message excluded) users) (\<lambda>_.
     eff_bind (eff_get (\<lambda>s. bt_get (channels s) name)) (\<lambda>found.
     eff_bind (eff_some chan_removed found) (\<lambda>ch.
     eff_bind (eff_ensure (ch_id ch = ch_id c) chan_replaced) (\<lambda>_.
     eff_modify (edit_channel name (remembered \<lparr>msg_at = wall_time env, msg_text = message\<rparr>))))))))))))"

definition comm_emit :: "comm_env \<Rightarrow> bytes \<Rightarrow> bytes \<Rightarrow> bool \<Rightarrow> unit comm" where
  "comm_emit env channel message no_header = emit_excluding env channel message no_header None"

section \<open>Joining and leaving\<close>

fun set_listening :: "object_id \<Rightarrow> bool \<Rightarrow> membership list \<Rightarrow> membership list" where
  "set_listening who on [] = []"
| "set_listening who on (u # us) =
     (if mem_who u = who then u\<lparr>mem_listening := on\<rparr> # us else u # set_listening who on us)"

definition with_member :: "object_id \<Rightarrow> bool \<Rightarrow> channel \<Rightarrow> channel" where
  "with_member who online c =
     (if find_member who (ch_users c) \<noteq> None
      then c\<lparr>ch_users := set_listening who True (ch_users c)\<rparr>
      else
        c\<lparr>ch_users := sort_key mem_who (ch_users c @ [\<lparr>mem_who = who, mem_listening = True\<rparr>]),
          ch_online := (if online then who # ch_online c else ch_online c),
          ch_max_users := (if ch_max_users c \<le> length (ch_users c) + 1 then ch_max_users c + 10 else ch_max_users c)\<rparr>)"

definition listens :: "object_id \<Rightarrow> channel \<Rightarrow> bool" where
  "listens who c \<longleftrightarrow> list_ex (\<lambda>u. mem_who u = who \<and> mem_listening u) (ch_users c)"

definition comm_join :: "comm_env \<Rightarrow> object_id \<Rightarrow> bytes \<Rightarrow> bool \<Rightarrow> unit comm" where
  "comm_join env who channel quiet =
     eff_bind (comm_name channel) (\<lambda>name.
     eff_bind (channel_at name) (\<lambda>c.
     if listens who c then comm_notify env who (bstr ''You are already on channel '' @ name @ bstr ''.'')
     else
       eff_bind (online_members name) (\<lambda>_.
       eff_bind (eff_get (\<lambda>s. object_at (com_world s) who)) (\<lambda>found.
       eff_bind (eff_some (Said (bstr ''object does not exist'')) found) (\<lambda>obj.
       eff_bind (eff_modify (edit_channel name
           (with_member who (obj_kind obj \<noteq> Player \<or> Connected \<in> flags obj)))) (\<lambda>_.
       eff_bind (comm_notify env who (bstr ''You have joined channel '' @ name @ bstr ''.'')) (\<lambda>_.
       if \<not> quiet \<and> Dark \<notin> flags obj
       then comm_emit env name (obj_name obj @ bstr '' has joined this channel.'') False
       else eff_return ())))))))"

text \<open>The things on a channel, the first member apart and the last first, hear a departure.\<close>

definition leave_one :: "comm_env \<Rightarrow> object_id \<Rightarrow> bytes \<Rightarrow> object_id \<Rightarrow> unit comm" where
  "leave_one env who channel thing s =
     (case channel_leave env thing who s of
        (s', Inl Panicked) \<Rightarrow> (s', Inl Panicked)
      | (s', Inl e) \<Rightarrow> (s', Inl (Said (bstr ''channel '' @ channel @ bstr '' leave callback: '' @ comm_error_text e)))
      | (s', Inr _) \<Rightarrow> (s', Inr ()))"

definition leave_listeners :: "world \<Rightarrow> channel \<Rightarrow> object_id list" where
  "leave_listeners w c =
     map obj_id (filter (\<lambda>obj. obj_kind obj = Thing \<and> Halted \<notin> flags obj)
       (List.map_filter (\<lambda>u. object_at w (mem_who u)) (rev (drop 1 (ch_users c)))))"

definition leave_callbacks :: "comm_env \<Rightarrow> object_id \<Rightarrow> bytes \<Rightarrow> unit comm" where
  "leave_callbacks env who channel =
     eff_bind (channel_at channel) (\<lambda>c.
     eff_bind (eff_get (\<lambda>s. leave_listeners (com_world s) c)) (\<lambda>things.
     eff_each (leave_one env who channel) things))"

definition still_named :: "nat \<Rightarrow> bytes \<Rightarrow> unit comm" where
  "still_named i name = eff_bind (by_id i) (\<lambda>n. eff_ensure (n = name) chan_replaced)"

definition silenced :: "object_id \<Rightarrow> channel \<Rightarrow> channel" where
  "silenced who c = c\<lparr>ch_users := set_listening who False (ch_users c)\<rparr>"

definition comm_leave :: "comm_env \<Rightarrow> object_id \<Rightarrow> bytes \<Rightarrow> unit comm" where
  "comm_leave env who channel =
     eff_bind (comm_name channel) (\<lambda>name.
     eff_bind (object_of who) (\<lambda>obj.
     eff_bind (channel_at name) (\<lambda>c.
     eff_bind (leave_callbacks env who name) (\<lambda>_.
     eff_bind (still_named (ch_id c) name) (\<lambda>_.
     eff_bind (comm_notify env who (bstr ''You have left channel '' @ name @ bstr ''.'')) (\<lambda>_.
     eff_bind (if listens who c \<and> Dark \<notin> flags obj
               then comm_emit env name (obj_name obj @ bstr '' has left this channel.'') False
               else eff_return ()) (\<lambda>_.
     eff_bind (eff_get (\<lambda>s. bt_get (channels s) name)) (\<lambda>found.
     eff_bind (eff_some chan_removed found) (\<lambda>ch.
     eff_bind (eff_ensure (find_member who (ch_users ch) \<noteq> None) (Said (bstr ''membership removed by callback''))) (\<lambda>_.
     eff_modify (edit_channel name (silenced who))))))))))))"

definition without_online :: "object_id \<Rightarrow> channel \<Rightarrow> channel" where
  "without_online who c = c\<lparr>ch_online := filter (\<lambda>i. i \<noteq> who) (ch_online c)\<rparr>"

definition without_member :: "object_id \<Rightarrow> channel \<Rightarrow> channel" where
  "without_member who c =
     c\<lparr>ch_users := filter (\<lambda>u. mem_who u \<noteq> who) (ch_users c), ch_online := filter (\<lambda>i. i \<noteq> who) (ch_online c)\<rparr>"

definition remove_present :: "comm_env \<Rightarrow> object_id \<Rightarrow> bytes \<Rightarrow> bytes \<Rightarrow> nat \<Rightarrow> membership \<Rightarrow> unit comm" where
  "remove_present env who channel name i u =
     eff_bind (eff_get (\<lambda>s. object_at (com_world s) who)) (\<lambda>found.
     eff_bind (eff_some (Said (bstr ''member removed by callback'')) found) (\<lambda>obj.
     eff_bind (online_members name) (\<lambda>_.
     eff_bind (eff_modify (edit_channel name (without_online who))) (\<lambda>_.
     eff_bind (if mem_listening u \<and> Dark \<notin> flags obj \<and> obj_name obj \<noteq> []
               then emit_excluding env name (obj_name obj @ bstr '' has left this channel.'') False (Some who)
               else eff_return ()) (\<lambda>_.
     eff_bind (comm_notify env who (bstr ''You have left channel '' @ channel @ bstr ''.'')) (\<lambda>_.
     eff_bind (eff_get (\<lambda>s. bt_get (channels s) name)) (\<lambda>found.
     eff_bind (eff_some chan_removed found) (\<lambda>ch.
     eff_bind (eff_ensure (ch_id ch = i) chan_replaced) (\<lambda>_.
     eff_modify (edit_channel name (without_member who)))))))))))"

definition remove_member :: "comm_env \<Rightarrow> object_id \<Rightarrow> bytes \<Rightarrow> unit comm" where
  "remove_member env who channel =
     eff_bind (eff_get (\<lambda>s. find_name s channel)) (\<lambda>found.
     case found of
       None \<Rightarrow> comm_notify env who (bstr ''Unknown channel '' @ channel @ bstr ''.'')
     | Some name \<Rightarrow>
         eff_bind (channel_at name) (\<lambda>c.
         eff_bind (leave_callbacks env who name) (\<lambda>_.
         eff_bind (still_named (ch_id c) name) (\<lambda>_.
         eff_bind (channel_at name) (\<lambda>now.
         case find_member who (ch_users now) of
           None \<Rightarrow> eff_return ()
         | Some u \<Rightarrow> remove_present env who channel name (ch_id c) u)))))"

definition alias_target :: "object_id \<Rightarrow> bytes \<Rightarrow> comms \<Rightarrow> bytes option" where
  "alias_target who a s =
     map_option alias_channel (List.find (\<lambda>e. eq_ignore_ascii_case (alias_text e) a) (aliases_of who s))"

definition delete_alias_entry :: "object_id \<Rightarrow> bytes \<Rightarrow> comms \<Rightarrow> comms" where
  "delete_alias_entry who a s =
     (case bt_get (channel_aliases s) who of
        None \<Rightarrow> s
      | Some es \<Rightarrow>
          s\<lparr>channel_aliases := bt_insert who (filter (\<lambda>e. \<not> eq_ignore_ascii_case (alias_text e) a) es) (channel_aliases s)\<rparr>)"

definition remove_alias :: "comm_env \<Rightarrow> object_id \<Rightarrow> bytes \<Rightarrow> unit comm" where
  "remove_alias env who a =
     eff_bind (eff_get (alias_target who a)) (\<lambda>found.
     eff_bind (eff_some (Said (bstr ''Unable to find that alias.'')) found) (\<lambda>name.
     eff_bind (remove_member env who name) (\<lambda>_.
     eff_bind (comm_notify env who (bstr ''Channel '' @ name @ bstr '' deleted.'')) (\<lambda>_.
     eff_modify (delete_alias_entry who a)))))"

definition identified :: "object_id \<Rightarrow> bytes comm" where
  "identified i = eff_bind (object_of i) (\<lambda>obj. eff_return (obj_name obj @ bstr ''(#'' @ show_int i @ bstr '')''))"

definition boot :: "comm_env \<Rightarrow> object_id \<Rightarrow> object_id \<Rightarrow> bytes \<Rightarrow> unit comm" where
  "boot env actor who channel =
     eff_bind (comm_name channel) (\<lambda>name.
     eff_bind (channel_at name) (\<lambda>c.
     eff_bind (eff_ensure (find_member who (ch_users c) \<noteq> None)
         (Said (bstr ''object is not a member of this channel''))) (\<lambda>_.
     eff_bind (identified actor) (\<lambda>a.
     eff_bind (identified who) (\<lambda>b.
     eff_bind (comm_emit env name (a @ bstr '' boots '' @ b @ bstr '' off the channel.'') False) (\<lambda>_.
     remove_member env who name))))))"

definition add_alias :: "object_id \<Rightarrow> bytes \<Rightarrow> bytes \<Rightarrow> comms \<Rightarrow> comms" where
  "add_alias who a name s =
     s\<lparr>channel_aliases :=
         bt_insert who
           (sort_key (\<lambda>e. to_ascii_lowercase (alias_text e)) (aliases_of who s @ [\<lparr>alias_text = a, alias_channel = name\<rparr>]))
           (channel_aliases s)\<rparr>"

definition WARNING :: bytes where "WARNING = bstr ''Warning: you are already listed on that channel.''"

definition alias_and_join :: "comm_env \<Rightarrow> object_id \<Rightarrow> bytes \<Rightarrow> bytes \<Rightarrow> bool \<Rightarrow> bool \<Rightarrow> unit comm" where
  "alias_and_join env who name a quiet trusted =
     eff_bind (eff_get (alias_target who a)) (\<lambda>existing.
     eff_bind (if trusted then eff_return False
               else eff_bind (channel_at name) (\<lambda>now. eff_return (find_member who (ch_users now) \<noteq> None))) (\<lambda>listed.
     case existing of
       Some other \<Rightarrow>
         eff_fail (Said ((if listed then WARNING @ [10] else [])
           @ bstr ''That alias is already in use for channel '' @ other @ bstr ''.''))
     | None \<Rightarrow>
         eff_bind (if listed then comm_notify env who WARNING else eff_return ()) (\<lambda>_.
         eff_bind (eff_modify (add_alias who a name)) (\<lambda>_.
         eff_bind (comm_join env who name quiet) (\<lambda>_.
         comm_notify env who (bstr ''Channel '' @ name @ bstr '' added with alias '' @ a @ bstr ''.''))))))"

definition comm_add :: "comm_env \<Rightarrow> object_id \<Rightarrow> bytes \<Rightarrow> bytes \<Rightarrow> bool \<Rightarrow> bool \<Rightarrow> unit comm" where
  "comm_add env who channel a quiet trusted =
     eff_bind (eff_ensure (a \<noteq> []) (Said (bstr ''You need to specify an alias.''))) (\<lambda>_.
     eff_bind (eff_ensure (length a \<le> ALIAS_LIMIT \<and> printable a)
         (Said (bstr ''Channel aliases must be 1-5 printable ASCII characters without spaces.''))) (\<lambda>_.
     eff_bind (eff_ensure (channel \<noteq> []) (Said (bstr ''You need to specify a channel.''))) (\<lambda>_.
     eff_bind (eff_ensure (length channel < 200) (Said (bstr ''Channel name too long.''))) (\<lambda>_.
     eff_bind (eff_ensure (32 \<notin> set channel) (Said (bstr ''Channel name cannot contain spaces.''))) (\<lambda>_.
     eff_bind (eff_get (\<lambda>s. find_name s channel)) (\<lambda>found.
     eff_bind (eff_some (Said (bstr ''Channel '' @ channel @ bstr '' does not exist yet.'')) found) (\<lambda>name.
     eff_bind (channel_at name) (\<lambda>c.
     eff_bind (if trusted then eff_return True else allowed env who name JoinAccess) (\<lambda>ok.
     eff_bind (eff_ensure ok (Said (bstr ''Sorry, this channel type does not allow you to join.''))) (\<lambda>_.
     eff_bind (still_named (ch_id c) name) (\<lambda>_.
     alias_and_join env who name a quiet trusted)))))))))))"

end
