(* ===== verification/Channel_Commands.thy ===== *)
theory Channel_Commands
  imports Channels
begin

text \<open>
  Channel speech and presence (\<open>communication/delivery.rs\<close>), listings of members
  (\<open>membership.rs\<close>), pages (\<open>page.rs\<close>) and the registered commands with the player-local aliases
  (\<open>commands.rs\<close>), with the target resolution they share (\<open>commands/target.rs\<close>, \<open>find.rs\<close>).
\<close>

section \<open>Text\<close>

text \<open>The padding of \<open>format!\<close>: strings to the left, numbers to the right.\<close>

definition pad_right :: "nat \<Rightarrow> bytes \<Rightarrow> bytes" where
  "pad_right n s = s @ replicate (n - length (utf8_chars s)) 32"

definition pad_left :: "nat \<Rightarrow> bytes \<Rightarrow> bytes" where
  "pad_left n s = replicate (n - length (utf8_chars s)) 32 @ s"

definition split_once_white :: "bytes \<Rightarrow> bytes \<times> bytes" where
  "split_once_white s =
     (let i = find_white s
      in if length s \<le> i then (s, []) else (take i s, drop (i + head_white (drop i s)) s))"

definition split_equals :: "bytes \<Rightarrow> bytes \<times> bytes" where
  "split_equals s = (case split_once 61 s of Some p \<Rightarrow> p | None \<Rightarrow> (s, []))"

definition duration_units :: "(nat \<times> bytes) list" where
  "duration_units =
     [(31104000, bstr ''year''), (2592000, bstr ''month''), (86400, bstr ''day''), (3600, bstr ''hour''),
      (60, bstr ''minute''), (1, bstr ''second'')]"

fun duration_parts :: "nat \<Rightarrow> (nat \<times> bytes) list \<Rightarrow> bytes list" where
  "duration_parts n [] = []"
| "duration_parts n ((k, name) # us) =
     (let count = n div k; rest = duration_parts (n mod k) us
      in if 0 < count
         then (show_nat count @ [32] @ name @ (if count = 1 then [] else bstr ''s'')) # rest
         else rest)"

definition duration :: "nat \<Rightarrow> bytes" where
  "duration n =
     (let parts = duration_parts n duration_units
      in if 1 < length parts
         then join_with (bstr '', '') (butlast parts) @ bstr '' and '' @ last parts
         else concat parts)"

definition kind_letter :: "kind \<Rightarrow> bytes" where
  "kind_letter k =
     (case k of Room \<Rightarrow> bstr ''R'' | Player \<Rightarrow> bstr ''P'' | Exit \<Rightarrow> bstr ''E'' | Garbage \<Rightarrow> bstr ''-'' | Thing \<Rightarrow> [])"

definition suffix :: "object \<Rightarrow> bytes" where
  "suffix obj =
     (let letters = kind_letter (obj_kind obj) @ bstr (map flag_letter (filter (\<lambda>f. f \<in> flags obj) flag_ALL))
      in bstr ''(#'' @ show_int (obj_id obj) @ (if letters = [] then [] else [58]) @ letters @ [41])"

section \<open>Targets\<close>

definition word_matches :: "bytes \<Rightarrow> bytes \<Rightarrow> bool" where
  "word_matches name query \<longleftrightarrow>
     list_ex (\<lambda>i.
        (i = 0 \<or> i < length name \<and> is_ascii_alphanumeric (name ! i) \<and> \<not> is_ascii_alphanumeric (name ! (i - 1)))
        \<and> length query \<le> length (drop i name) \<and> eq_ignore_ascii_case (take (length query) (drop i name)) query)
       [0..<length name + 1]"

definition find_player :: "(bytes \<Rightarrow> bytes) \<Rightarrow> world \<Rightarrow> (object_id, bytes option) btree \<Rightarrow> bytes \<Rightarrow> object_id option" where
  "find_player plain w accounts name =
     (case strip_prefix [35] name of
        Some number \<Rightarrow>
          if \<not> list_all is_ascii_digit number then None
          else
            (case parse_i64 number of
               None \<Rightarrow> None
             | Some i \<Rightarrow>
                 (case object_at w i of
                    Some obj \<Rightarrow> if obj_kind obj = Player \<and> bt_get accounts i \<noteq> None then Some i else None
                  | None \<Rightarrow> None))
      | None \<Rightarrow>
          map_option fst (List.find (\<lambda>(i, al).
             case object_at w i of
               None \<Rightarrow> False
             | Some obj \<Rightarrow>
                 eq_ignore_ascii_case (plain (obj_name obj)) name
                 \<or> (case al of Some a \<Rightarrow> eq_ignore_ascii_case a name | None \<Rightarrow> False)) accounts))"

datatype target_error = NoObject | NoPlayer | WhichObject | BadDbref

definition from_macro_error :: "macro_error \<Rightarrow> target_error" where
  "from_macro_error e = (if e = TargetMissing then NoObject else if e = TargetAmbiguous then WhichObject else BadDbref)"

primrec target_error_text :: "target_error \<Rightarrow> bytes" where
  "target_error_text NoObject = bstr ''No such object.''"
| "target_error_text NoPlayer = bstr ''No such player.''"
| "target_error_text WhichObject = bstr ''I don'' @ [39] @ bstr ''t know which object you mean.''"
| "target_error_text BadDbref = bstr ''Invalid dbref.''"

definition builder_target ::
  "(bytes \<Rightarrow> bytes) \<Rightarrow> world \<Rightarrow> (object_id, bytes option) btree \<Rightarrow> object_id \<Rightarrow> bytes \<Rightarrow> (target_error, object_id) result" where
  "builder_target plain w accounts player arg =
     (let name = trim arg in
      case strip_prefix [42] name of
        Some n \<Rightarrow> (case find_player plain w accounts (trim n) of Some i \<Rightarrow> Inr i | None \<Rightarrow> Inl NoPlayer)
      | None \<Rightarrow>
          (case admin_target plain w player name of
             Inr i \<Rightarrow> Inr i
           | Inl e \<Rightarrow>
               if e \<noteq> TargetMissing \<or> strip_prefix [35] name \<noteq> None then Inl (from_macro_error e)
               else
                 (let loc = Option.bind (object_at w player) location in
                  case filter (\<lambda>obj.
                      obj_kind obj \<noteq> Garbage \<and> visible w obj player
                      \<and> (location obj = Some player \<or> loc \<noteq> None \<and> location obj = loc)
                      \<and> obj_kind obj \<noteq> Exit \<and> word_matches (plain (obj_name obj)) name) (map snd (objects w)) of
                    [obj] \<Rightarrow> Inr (obj_id obj)
                  | [] \<Rightarrow> Inl NoObject
                  | _ \<Rightarrow> Inl WhichObject)))"

section \<open>Listing members\<close>

definition who_line :: "comm_env \<Rightarrow> world \<Rightarrow> object_id \<Rightarrow> bool \<Rightarrow> bool option \<Rightarrow> membership \<Rightarrow> object \<Rightarrow> bytes option" where
  "who_line env w viewer admin grp u obj =
     (let player = (obj_kind obj = Player);
          display = (if is_wizard w viewer then obj_name obj @ suffix obj else obj_name obj)
      in if (case grp of Some g \<Rightarrow> g \<noteq> player | None \<Rightarrow> False) \<or> \<not> admin \<and> \<not> mem_listening u then None
         else if (player \<or> admin) \<and> Dark \<in> flags obj \<and> \<not> is_wizard w viewer then None
         else if \<not> admin \<and> player \<and> in_character env w (mem_who u) \<and> \<not> is_wizard w (mem_who u) then None
         else if \<not> admin \<and> \<not> player \<and> Going \<in> flags obj then None
         else if admin
         then Some (column_text env (plain_text env display) 29 @ [32]
                @ pad_right 6 (if mem_listening u then bstr ''on'' else bstr ''off'') @ [32]
                @ pad_right 6 (if player then bstr ''yes'' else bstr ''no''))
         else
           (let idle = (if player then idle_time env (mem_who u) else 0)
            in Some (if 30 < idle then display @ bstr '' [[idle '' @ duration idle @ bstr '']'' else display)))"

definition who_entry :: "comm_env \<Rightarrow> object_id \<Rightarrow> bool \<Rightarrow> bool option \<Rightarrow> membership \<Rightarrow> unit comm" where
  "who_entry env viewer admin grp u =
     eff_bind (object_of (mem_who u)) (\<lambda>obj.
     eff_bind (eff_get com_world) (\<lambda>w.
     case who_line env w viewer admin grp u obj of
       None \<Rightarrow> eff_return ()
     | Some line \<Rightarrow> comm_notify env viewer line))"

definition who_group :: "comm_env \<Rightarrow> object_id \<Rightarrow> bool \<Rightarrow> membership list \<Rightarrow> bool option \<Rightarrow> unit comm" where
  "who_group env viewer admin us grp =
     eff_bind (if grp = Some False then comm_notify env viewer (bstr ''-- Objects --'') else eff_return ()) (\<lambda>_.
     eff_each (who_entry env viewer admin grp) us)"

definition comm_who :: "comm_env \<Rightarrow> object_id \<Rightarrow> bytes \<Rightarrow> bool \<Rightarrow> bool \<Rightarrow> unit comm" where
  "comm_who env viewer channel all admin =
     eff_bind (comm_name channel) (\<lambda>name.
     eff_bind (if admin then comm_members name all else online_members name) (\<lambda>us.
     eff_bind (if admin then comm_notify env viewer (bstr ''-- '' @ name @ bstr '' --'') else eff_return ()) (\<lambda>_.
     eff_bind (comm_notify env viewer
         (if admin then bstr ''Name                          Status Player'' else bstr ''-- Players --'')) (\<lambda>_.
     eff_bind (eff_each (who_group env viewer admin us) (if admin then [None] else [Some True, Some False])) (\<lambda>_.
     comm_notify env viewer (bstr ''-- '' @ name @ bstr '' --''))))))"

section \<open>Speech and presence\<close>

definition posed :: "bytes \<Rightarrow> bytes \<times> bytes" where
  "posed message =
     (case strip_prefix [58] message of
        Some b \<Rightarrow> ([32], b)
      | None \<Rightarrow> (case strip_prefix [59] message of Some b \<Rightarrow> ([], b) | None \<Rightarrow> (bstr '': '', message)))"

definition last_messages :: "comm_env \<Rightarrow> object_id \<Rightarrow> bytes \<Rightarrow> unit comm" where
  "last_messages env who name =
     eff_bind (channel_at name) (\<lambda>c.
     if ch_history c = []
     then comm_notify env who (bstr ''There haven'' @ [39] @ bstr ''t been any messages on '' @ name @ bstr ''.'')
     else eff_each (\<lambda>m. comm_route env (direct_request who (timestamp_text env (msg_at m) @ [32] @ msg_text m))) (rev (ch_history c)))"

definition must_be_on :: "bytes \<Rightarrow> comm_error" where
  "must_be_on name = Said (bstr ''You must be on '' @ name @ bstr '' to do that.'')"

definition transmit :: "comm_env \<Rightarrow> object_id \<Rightarrow> bytes \<Rightarrow> bytes \<Rightarrow> unit comm" where
  "transmit env who name message =
     eff_bind (channel_at name) (\<lambda>c.
     eff_bind (allowed env who name TransmitAccess) (\<lambda>ok.
     eff_bind (eff_ensure ok (Said (bstr ''That channel type cannot be transmitted on.''))) (\<lambda>_.
     eff_bind (still_named (ch_id c) name) (\<lambda>_.
     eff_bind (object_of who) (\<lambda>obj.
     case posed message of
       (separator, body) \<Rightarrow>
         comm_emit env name (obj_name obj @ separator @ escape (plain_text env body)) False)))))"

definition comm_say :: "comm_env \<Rightarrow> object_id \<Rightarrow> bytes \<Rightarrow> bytes \<Rightarrow> unit comm" where
  "comm_say env who channel message =
     eff_bind (eff_ensure (message \<noteq> []) (Said (bstr ''No message.''))) (\<lambda>_.
     eff_bind (eff_get (out_of_character env who)) (\<lambda>ooc.
     eff_bind (eff_ensure ooc (Said (bstr ''Permission denied.''))) (\<lambda>_.
     eff_bind (comm_name channel) (\<lambda>name.
     eff_bind (channel_at name) (\<lambda>c.
     eff_bind (eff_some (Said (bstr ''You are not listed as on that channel.  Delete this alias and re-add.''))
         (find_member who (ch_users c))) (\<lambda>u.
     if to_ascii_lowercase message = bstr ''on'' then comm_join env who name False
     else if to_ascii_lowercase message = bstr ''off'' then comm_leave env who name
     else
       eff_bind (eff_get (\<lambda>s. is_wizard (com_world s) who \<or> allow_chanlurking env \<noteq> 0)) (\<lambda>lurk.
       eff_bind (eff_ensure (mem_listening u \<or> lurk) (must_be_on name)) (\<lambda>_.
       if eq_ignore_ascii_case message (bstr ''who'') then comm_who env who name False False
       else if eq_ignore_ascii_case message (bstr ''last'') then last_messages env who name
       else
         eff_bind (eff_ensure (mem_listening u) (must_be_on name)) (\<lambda>_.
         transmit env who name message)))))))))"

definition member_slot :: "object_id \<Rightarrow> bytes \<Rightarrow> comms \<Rightarrow> (bytes \<times> bool) option" where
  "member_slot who channel s =
     (case find_name s channel of
        None \<Rightarrow> None
      | Some name \<Rightarrow>
          (case bt_get (channels s) name of
             None \<Rightarrow> None
           | Some c \<Rightarrow> map_option (\<lambda>u. (name, mem_listening u \<and> flags_has (ch_flags c) LoudFlag)) (find_member who (ch_users c))))"

definition seen_online :: "object_id \<Rightarrow> bool \<Rightarrow> channel \<Rightarrow> channel" where
  "seen_online who connected c =
     c\<lparr>ch_online := (if connected then [who] else []) @ filter (\<lambda>i. i \<noteq> who) (ch_online c)\<rparr>"

definition bad_alias :: "channel_alias \<Rightarrow> bytes" where
  "bad_alias e = bstr ''Bad Comsys Alias: '' @ alias_text e @ bstr '' for Channel: '' @ alias_channel e"

definition presence_at :: "comm_env \<Rightarrow> object_id \<Rightarrow> bool \<Rightarrow> object \<Rightarrow> channel_alias \<Rightarrow> unit comm" where
  "presence_at env who connected obj e =
     eff_bind (eff_get (member_slot who (alias_channel e))) (\<lambda>slot.
     case slot of
       None \<Rightarrow> if connected then comm_notify env who (bad_alias e) else eff_return ()
     | Some (channel, loud) \<Rightarrow>
         eff_bind (online_members channel) (\<lambda>_.
         eff_bind (eff_modify (edit_channel channel (seen_online who connected))) (\<lambda>_.
         if loud \<and> Dark \<notin> flags obj
         then comm_emit env channel
                (obj_name obj @ bstr '' has '' @ (if connected then bstr ''connected'' else bstr ''disconnected'') @ bstr ''.'') False
         else eff_return ())))"

definition presence :: "comm_env \<Rightarrow> object_id \<Rightarrow> bool \<Rightarrow> bytes option \<Rightarrow> unit comm" where
  "presence env who connected host =
     eff_bind (object_of who) (\<lambda>obj.
     eff_bind (eff_get (aliases_of who)) (\<lambda>es.
     eff_bind (eff_each (presence_at env who connected obj) es) (\<lambda>_.
     eff_bind (eff_get (\<lambda>s. find_name s (bstr ''MUXConnections''))) (\<lambda>found.
     if found \<noteq> None
     then comm_emit env (bstr ''MUXConnections'')
            (if connected
             then bstr ''* '' @ obj_name obj @ bstr '' has connected from ''
                  @ (case host of Some h \<Rightarrow> h | None \<Rightarrow> bstr ''somewhere'') @ bstr '' *''
             else bstr ''* '' @ obj_name obj @ bstr '' has disconnected *'') False
     else eff_return ()))))"

section \<open>Pages\<close>

fun find_players :: "comm_env \<Rightarrow> object_id \<Rightarrow> bytes list \<Rightarrow> object_id list comm" where
  "find_players env sender [] = eff_return []"
| "find_players env sender (n # ns) =
     eff_bind (eff_get (\<lambda>s. find_player (plain_text env) (com_world s) (com_accounts s) n)) (\<lambda>found.
     case found of
       Some i \<Rightarrow> eff_bind (find_players env sender ns) (\<lambda>is. eff_return (i # is))
     | None \<Rightarrow>
         eff_bind (comm_notify env sender (bstr ''I don'' @ [39] @ bstr ''t recognize '' @ [34] @ escape n @ [34, 46])) (\<lambda>_.
         find_players env sender ns))"

definition page_recipients :: "comm_env \<Rightarrow> object_id \<Rightarrow> bytes \<Rightarrow> bool \<Rightarrow> (object_id list \<times> bool) comm" where
  "page_recipients env sender targets saved =
     (if saved
      then eff_get (\<lambda>s. case bt_get (last_pages s) sender of Some is \<Rightarrow> (is, 1 < length is) | None \<Rightarrow> ([], False))
      else
        eff_bind (eff_get (\<lambda>s. find_player (plain_text env) (com_world s) (com_accounts s) (trim targets))) (\<lambda>found.
        case found of
          Some i \<Rightarrow> eff_return ([i], False)
        | None \<Rightarrow>
            let names = split_whitespace targets
            in eff_bind (find_players env sender names) (\<lambda>is. eff_return (is, 1 < length names))))"

definition last_paged :: "comm_env \<Rightarrow> object_id \<Rightarrow> object_id \<Rightarrow> unit comm" where
  "last_paged env sender i =
     eff_bind (eff_get (\<lambda>s. object_at (com_world s) i)) (\<lambda>found.
     case found of
       Some obj \<Rightarrow> comm_notify env sender (bstr ''You last paged '' @ obj_name obj @ bstr ''.'')
     | None \<Rightarrow> eff_return ())"

definition page_refusal :: "comm_env \<Rightarrow> world \<Rightarrow> object_id \<Rightarrow> object_id \<Rightarrow> object \<Rightarrow> bytes option" where
  "page_refusal env w sender target obj =
     (if in_character env w sender \<and> \<not> is_wizard w sender \<and> \<not> is_wizard w target then Some (bstr ''Permission denied.'')
      else if Connected \<notin> flags obj then Some (bstr ''Sorry, '' @ obj_name obj @ bstr '' is not connected.'')
      else if \<not> is_wizard w sender \<and> \<not> is_wizard w target \<and> in_character env w target
      then Some (bstr ''Sorry, '' @ obj_name obj @ bstr '' is not accepting pages.'')
      else None)"

definition audible_way_out :: "world \<Rightarrow> object_id \<Rightarrow> bool" where
  "audible_way_out w i =
     list_ex (\<lambda>(_, e). obj_kind e = Exit \<and> location e = Some i \<and> Audible \<in> flags e
       \<and> (case destination e of Some to \<Rightarrow> to \<noteq> i | None \<Rightarrow> False)) (objects w)"

definition page_one :: "comm_env \<Rightarrow> object_id \<Rightarrow> bytes \<Rightarrow> object_id \<Rightarrow> bool comm" where
  "page_one env sender output target =
     eff_bind (eff_get com_world) (\<lambda>w.
     case object_at w target of
       None \<Rightarrow> eff_return False
     | Some obj \<Rightarrow>
         if obj_kind obj \<noteq> Player then eff_return False
         else
           (case page_refusal env w sender target obj of
              Some e \<Rightarrow> eff_bind (comm_notify env sender e) (\<lambda>_. eff_return False)
            | None \<Rightarrow>
                eff_bind (comm_notify env target output) (\<lambda>_.
                eff_bind (if audible_way_out w target
                          then comm_route env \<lparr>req_target = target, req_sender = sender, req_document = Styled output,
                                          req_policy = AUDIBLE_EXITS, exclusions = None\<rparr>
                          else eff_return ()) (\<lambda>_.
                eff_return True))))"

fun page_all :: "comm_env \<Rightarrow> object_id \<Rightarrow> bytes \<Rightarrow> object_id list \<Rightarrow> object_id list comm" where
  "page_all env sender output [] = eff_return []"
| "page_all env sender output (t # ts) =
     eff_bind (page_one env sender output t) (\<lambda>ok.
     eff_bind (page_all env sender output ts) (\<lambda>ds.
     eff_return (if ok then t # ds else ds)))"

definition page_pose :: "bytes \<Rightarrow> (bytes \<times> bytes) option" where
  "page_pose message =
     (case strip_prefix [58] message of
        Some m \<Rightarrow> Some ([32], m)
      | None \<Rightarrow> map_option (\<lambda>m. ([], m)) (strip_prefix [59] message))"

definition page_text :: "bytes \<Rightarrow> bytes \<Rightarrow> bytes \<Rightarrow> bool \<Rightarrow> bytes \<Rightarrow> bytes" where
  "page_text name al names grp message =
     (case page_pose message of
        Some (separator, body) \<Rightarrow>
          (if grp then bstr ''From afar, to ('' @ names @ bstr ''):'' @ al @ [32] @ name @ separator @ body
           else bstr ''From afar,'' @ al @ [32] @ name @ separator @ body)
      | None \<Rightarrow>
          (let body = (case strip_prefix [34] message of Some b \<Rightarrow> b | None \<Rightarrow> message)
           in if grp then bstr ''To ('' @ names @ bstr ''), '' @ name @ al @ bstr '' pages you: '' @ body
              else name @ al @ bstr '' pages: '' @ body))"

definition page_confirmation :: "bytes \<Rightarrow> bytes \<Rightarrow> bytes \<Rightarrow> bytes" where
  "page_confirmation display name message =
     (case page_pose message of
        Some (separator, body) \<Rightarrow> bstr ''Long distance to '' @ display @ bstr '': '' @ name @ separator @ body
      | None \<Rightarrow> bstr ''You paged '' @ display @ bstr '' with '' @ [39] @ message @ [39, 46])"

definition account_alias :: "comms \<Rightarrow> object_id \<Rightarrow> bytes" where
  "account_alias s i =
     (case bt_get (com_accounts s) i of
        Some (Some a) \<Rightarrow> if a = [] then [] else bstr '' ('' @ escape a @ bstr '')''
      | _ \<Rightarrow> [])"

definition page_send :: "comm_env \<Rightarrow> object_id \<Rightarrow> object_id list \<Rightarrow> bool \<Rightarrow> bytes \<Rightarrow> unit comm" where
  "page_send env sender recipients grp raw =
     eff_bind (object_of sender) (\<lambda>obj.
     eff_bind (eff_get (\<lambda>s. account_alias s sender)) (\<lambda>al.
     eff_bind (eff_get (\<lambda>s. join_with (bstr '', '') (map obj_name (List.map_filter (object_at (com_world s)) recipients)))) (\<lambda>names.
     let message = escape (plain_text env raw) in
     eff_bind (page_all env sender (page_text (obj_name obj) al names grp message) recipients) (\<lambda>delivered.
     if delivered = [] then eff_return ()
     else
       eff_bind (eff_modify (\<lambda>s. s\<lparr>last_pages := bt_insert sender delivered (last_pages s)\<rparr>)) (\<lambda>_.
       comm_notify env sender
         (page_confirmation (if 1 < length recipients then bstr ''('' @ names @ bstr '')'' else names) (obj_name obj) message))))))"

definition comm_page :: "comm_env \<Rightarrow> object_id \<Rightarrow> bytes \<Rightarrow> unit comm" where
  "comm_page env sender args =
     (case split_equals args of (targets, message) \<Rightarrow>
        let saved = (message = []) in
        if \<not> saved \<and> trim targets = []
        then comm_notify env sender (bstr ''I don'' @ [39] @ bstr ''t recognize '' @ [34, 34, 46])
        else
          eff_bind (page_recipients env sender targets saved) (\<lambda>(recipients, grp).
          if saved \<and> targets = []
          then eff_bind (if recipients = [] then comm_notify env sender (bstr ''You have not paged anyone.'') else eff_return ()) (\<lambda>_.
               eff_each (last_paged env sender) recipients)
          else if saved \<and> recipients = [] then comm_notify env sender (bstr ''You have not paged anyone.'')
          else page_send env sender recipients grp (if saved then targets else message)))"

end
