(* ===== verification/Channel_Admin.thy ===== *)
theory Channel_Admin
  imports Channel_Commands
begin

text \<open>
  The registered communication commands (\<open>communication/commands.rs\<close>): \<open>addcom\<close>, \<open>delcom\<close>,
  \<open>clearcom\<close>, \<open>comlist\<close>, \<open>allcom\<close>, \<open>page\<close> and \<open>@chan\<close> with its switches, the player aliases that
  precede them, and the transaction that undoes a refused command.
\<close>

definition COMLIST_MIN_WIDTH :: nat where "COMLIST_MIN_WIDTH = 79"
definition COMLIST_MAX_WIDTH :: nat where "COMLIST_MAX_WIDTH = 8192"

datatype com_operation = AddCom | DeleteCom | ClearCom | ListCom | AllCom | PageCom | AdminCom

section \<open>Aliases\<close>

definition clear_one :: "comm_env \<Rightarrow> object_id \<Rightarrow> channel_alias \<Rightarrow> unit comm" where
  "clear_one env who e =
     eff_bind (remove_member env who (alias_channel e)) (\<lambda>_.
     eff_modify (delete_alias_entry who (alias_text e)))"

definition clear_aliases :: "comm_env \<Rightarrow> object_id \<Rightarrow> unit comm" where
  "clear_aliases env who =
     eff_bind (eff_get (aliases_of who)) (\<lambda>es. eff_each (clear_one env who) (rev es))"

definition described :: "comms \<Rightarrow> channel \<Rightarrow> bytes" where
  "described s c =
     (case Option.bind (Option.bind (ch_object c) (object_at (com_world s))) description of
        Some d \<Rightarrow> if d = [] then bstr ''No description.'' else d
      | None \<Rightarrow> bstr ''No description.'')"

definition one_line :: "bytes \<Rightarrow> bytes" where
  "one_line d = map (\<lambda>b. if b = 13 \<or> b = 10 then 32 else b) d"

definition alias_entry :: "comm_env \<Rightarrow> object_id \<Rightarrow> nat \<Rightarrow> channel_alias \<Rightarrow> comms \<Rightarrow> (bool \<times> bytes) option" where
  "alias_entry env who width e s =
     (case find_name s (alias_channel e) of
        None \<Rightarrow> None
      | Some name \<Rightarrow>
          (case bt_get (channels s) name of
             None \<Rightarrow> None
           | Some c \<Rightarrow>
               map_option (\<lambda>u. (mem_listening u, truncate_text env (one_line (described s c)) width)) (find_member who (ch_users c))))"

definition list_alias :: "comm_env \<Rightarrow> object_id \<Rightarrow> nat \<Rightarrow> channel_alias \<Rightarrow> unit comm" where
  "list_alias env who width e =
     eff_bind (eff_get (alias_entry env who width e)) (\<lambda>found.
     comm_notify env who
       (case found of
          Some (on, d) \<Rightarrow>
            column_text env (alias_text e) 9 @ [32] @ column_text env (alias_channel e) 19 @ [32]
            @ pad_right 6 (if on then bstr ''on'' else bstr ''off'') @ [32] @ d
        | None \<Rightarrow> bad_alias e))"

definition list_width :: "comm_env \<Rightarrow> nat option \<Rightarrow> nat" where
  "list_width env session =
     min COMLIST_MAX_WIDTH (max COMLIST_MIN_WIDTH
       (case terminal_width env session of Some n \<Rightarrow> n | None \<Rightarrow> COMLIST_MIN_WIDTH)) - 37"

definition list_aliases :: "comm_env \<Rightarrow> object_id \<Rightarrow> nat option \<Rightarrow> unit comm" where
  "list_aliases env who session =
     eff_bind (comm_notify env who (bstr ''Alias     Channel             Status Description'')) (\<lambda>_.
     eff_bind (eff_get (aliases_of who)) (\<lambda>es.
     eff_bind (eff_each (list_alias env who (list_width env session)) es) (\<lambda>_.
     comm_notify env who (bstr ''-- End of comlist --''))))"

text \<open>A refused \<open>say\<close> is undone and reported, and the next alias is tried.\<close>

definition all_one :: "comm_env \<Rightarrow> object_id \<Rightarrow> bytes \<Rightarrow> bytes \<Rightarrow> unit comm" where
  "all_one env who args channel s =
     (case atomic rolled_back (comm_say env who channel args) s of
        (s', Inr _) \<Rightarrow> (s', Inr ())
      | (s', Inl Panicked) \<Rightarrow> (s', Inl Panicked)
      | (s', Inl e) \<Rightarrow> comm_notify env who (comm_error_text e) s')"

definition all_aliases :: "comm_env \<Rightarrow> object_id \<Rightarrow> bytes \<Rightarrow> unit comm" where
  "all_aliases env who args =
     eff_bind (eff_ensure (list_ex (eq_ignore_ascii_case args) [bstr ''on'', bstr ''off'', bstr ''who''])
         (Said (bstr ''Only options available are: on, off and who.''))) (\<lambda>_.
     eff_bind (eff_get (aliases_of who)) (\<lambda>es.
     eff_each (\<lambda>e.
        eff_bind (all_one env who args (alias_channel e)) (\<lambda>_.
        if eq_ignore_ascii_case args (bstr ''who'') then comm_notify env who [] else eff_return ())) es))"

section \<open>Administration\<close>

definition admin_name :: "bytes \<Rightarrow> bytes \<Rightarrow> bytes comm" where
  "admin_name name operation =
     eff_bind (eff_get (\<lambda>s. find_name s name)) (\<lambda>found.
     eff_some (Said (bstr ''@chan/'' @ operation @ bstr '': Unknown channel.'')) found)"

definition list_header :: "comm_env \<Rightarrow> object_id \<Rightarrow> bool \<Rightarrow> unit comm" where
  "list_header env who full =
     comm_notify env who
       (if full then bstr ''** Channel             --Flags--  Obj  Users   Messages'' else bstr ''** Channel       Description'')"

definition mark :: "bool \<Rightarrow> u8 \<Rightarrow> bytes" where
  "mark b c = [if b then c else 45]"

definition list_line :: "comm_env \<Rightarrow> bool \<Rightarrow> comms \<Rightarrow> bytes \<Rightarrow> channel \<Rightarrow> bytes" where
  "list_line env full s name c =
     (let has = (\<lambda>b. ch_flags c AND b \<noteq> 0);
          front = mark (flags_has (ch_flags c) PublicFlag) 80 @ mark (flags_has (ch_flags c) LoudFlag) 76 @ [32]
      in if full
         then front @ pad_right 20 (column_text env name 20) @ [32]
              @ mark (has 1) 74 @ mark (has 2) 88 @ mark (has 4) 82 @ [47]
              @ mark (has 16) 106 @ mark (has 32) 120 @ mark (has 64) 114 @ [32]
              @ pad_left 5 (show_int (case ch_object c of Some i \<Rightarrow> i | None \<Rightarrow> - 1)) @ [32]
              @ pad_left 6 (show_nat (length (ch_users c))) @ [32] @ pad_left 10 (show_int (ch_messages c))
         else front @ column_text env name 13 @ [32]
              @ column_text env (trim_end (column_text env (described s c) 54)) 60)"

definition list_one :: "comm_env \<Rightarrow> object_id \<Rightarrow> bool \<Rightarrow> bytes \<Rightarrow> unit comm" where
  "list_one env who full name =
     eff_bind (channel_at name) (\<lambda>c.
     eff_bind (eff_get (\<lambda>s. list_line env full s name c)) (\<lambda>line.
     comm_notify env who line))"

definition comm_list :: "comm_env \<Rightarrow> object_id \<Rightarrow> bytes list \<Rightarrow> bool \<Rightarrow> unit comm" where
  "comm_list env who names full =
     eff_bind (list_header env who full) (\<lambda>_.
     eff_bind (eff_each (list_one env who full) names) (\<lambda>_.
     comm_notify env who (bstr ''-- End of list of Channels --'')))"

definition chan_create :: "comm_env \<Rightarrow> object_id \<Rightarrow> bytes \<Rightarrow> unit comm" where
  "chan_create env who first =
     eff_bind (eff_get (\<lambda>s. find_name s first)) (\<lambda>found.
     eff_bind (eff_ensure (found = None) (Said (bstr ''Channel '' @ first @ bstr '' already exists.''))) (\<lambda>_.
     eff_bind (comm_create first) (\<lambda>_.
     comm_notify env who (bstr ''Channel '' @ first @ bstr '' created.''))))"

definition chan_destroy :: "comm_env \<Rightarrow> object_id \<Rightarrow> bytes \<Rightarrow> unit comm" where
  "chan_destroy env who first =
     eff_bind (admin_name first (bstr ''destroy'')) (\<lambda>name.
     eff_bind (comm_destroy name) (\<lambda>_.
     comm_notify env who (bstr ''Channel '' @ first @ bstr '' destroyed.'')))"

definition chan_status :: "comm_env \<Rightarrow> object_id \<Rightarrow> bytes \<Rightarrow> bool \<Rightarrow> unit comm" where
  "chan_status env who first full =
     eff_bind (eff_get (\<lambda>s. find_name s first)) (\<lambda>found.
     case found of
       Some name \<Rightarrow> comm_list env who [name] full
     | None \<Rightarrow>
         eff_bind (list_header env who full) (\<lambda>_.
         comm_notify env who (bstr ''@chan/status: Unknown channel.'')))"

definition chan_list :: "comm_env \<Rightarrow> object_id \<Rightarrow> bool \<Rightarrow> unit comm" where
  "chan_list env who full =
     eff_bind (eff_get (\<lambda>s. sort_key to_ascii_lowercase (map fst (channels s)))) (\<lambda>names.
     comm_list env who names full)"

definition chan_emit :: "comm_env \<Rightarrow> bytes \<Rightarrow> bytes \<Rightarrow> bool \<Rightarrow> unit comm" where
  "chan_emit env first second no_header =
     eff_bind (admin_name first (bstr ''emit'')) (\<lambda>_. comm_emit env first second no_header)"

definition chan_who :: "comm_env \<Rightarrow> object_id \<Rightarrow> bytes \<Rightarrow> unit comm" where
  "chan_who env who first =
     (case (case split_once 47 first of Some (c, s) \<Rightarrow> (c, take 1 s = [97]) | None \<Rightarrow> (first, False)) of
        (channel, all) \<Rightarrow>
          eff_bind (admin_name channel (bstr ''who'')) (\<lambda>name. comm_who env who name all True))"

definition object_target :: "comm_env \<Rightarrow> object_id \<Rightarrow> bytes \<Rightarrow> object_id option comm" where
  "object_target env who second =
     (if second = [] \<or> second = bstr ''#-1'' then eff_return None
      else
        eff_bind (eff_get (\<lambda>s. builder_target (plain_text env) (com_world s) (com_accounts s) who second)) (\<lambda>r.
        case r of
          Inr i \<Rightarrow> eff_return (Some i)
        | Inl e \<Rightarrow> if e = NoObject \<or> e = NoPlayer then eff_return None else eff_fail (Said (target_error_text e))))"

definition chan_object :: "comm_env \<Rightarrow> object_id \<Rightarrow> bytes \<Rightarrow> bytes \<Rightarrow> unit comm" where
  "chan_object env who first second =
     eff_bind (admin_name first (bstr ''object'')) (\<lambda>name.
     eff_bind (object_target env who second) (\<lambda>found.
     eff_bind (eff_modify (edit_channel name (\<lambda>c. c\<lparr>ch_object := found\<rparr>))) (\<lambda>_.
     case found of
       Some i \<Rightarrow>
         eff_bind (object_of i) (\<lambda>obj.
         comm_notify env who (bstr ''Channel '' @ name @ bstr '' is now using '' @ obj_name obj @ suffix obj
           @ bstr '' as channel object.''))
     | None \<Rightarrow> comm_notify env who (bstr ''@chan/object: Set.''))))"

definition chan_boot :: "comm_env \<Rightarrow> object_id \<Rightarrow> bytes \<Rightarrow> bytes \<Rightarrow> unit comm" where
  "chan_boot env who first second =
     eff_bind (admin_name first (bstr ''boot'')) (\<lambda>name.
     eff_bind (channel_at name) (\<lambda>c.
     eff_bind (eff_ensure (find_member who (ch_users c) \<noteq> None) (Said (bstr ''@chan/boot: You are not on that channel.''))) (\<lambda>_.
     eff_bind (eff_get (\<lambda>s. builder_target (plain_text env) (com_world s) (com_accounts s) who second)) (\<lambda>r.
     case r of
       Inl e \<Rightarrow>
         eff_fail (Said (if e = NoObject \<or> e = NoPlayer then bstr ''I don'' @ [39] @ bstr ''t see that here.'' else target_error_text e))
     | Inr target \<Rightarrow>
         eff_bind (if find_member target (ch_users c) \<noteq> None then eff_return ()
                   else eff_bind (object_of target) (\<lambda>obj.
                        eff_fail (Said (bstr ''@chan/boot: '' @ obj_name obj @ bstr '' is not on the channel.'')))) (\<lambda>_.
         boot env who target name)))))"

definition access_parse :: "bytes \<Rightarrow> access option" where
  "access_parse v =
     (let l = to_ascii_lowercase v
      in if l = bstr ''join'' then Some JoinAccess
         else if l = bstr ''transmit'' then Some TransmitAccess
         else if l = bstr ''receive'' then Some ReceiveAccess else None)"

definition flag_mask :: "bytes \<Rightarrow> bytes \<Rightarrow> channel_flags option" where
  "flag_mask operation flag =
     (if operation = bstr ''flags'' then map_option channel_flag_bit (channel_flag_parse flag)
      else map_option (\<lambda>a. access_bit a * (if operation = bstr ''oflags'' then 16 else 1)) (access_parse flag))"

definition chan_flags :: "comm_env \<Rightarrow> object_id \<Rightarrow> bytes \<Rightarrow> bytes \<Rightarrow> bytes \<Rightarrow> unit comm" where
  "chan_flags env who operation first second =
     eff_bind (admin_name first operation) (\<lambda>name.
     case (case strip_prefix [33] second of Some f \<Rightarrow> (False, f) | None \<Rightarrow> (True, second)) of
       (enabled, flag) \<Rightarrow>
         eff_bind (eff_some (Said (bstr ''@chan/'' @ operation @ bstr '': Unknown flag.'')) (flag_mask operation flag)) (\<lambda>bits.
         eff_bind (eff_modify (edit_channel name
             (\<lambda>c. c\<lparr>ch_flags := (if enabled then ch_flags c OR bits else ch_flags c AND NOT bits)\<rparr>))) (\<lambda>_.
         comm_notify env who (bstr ''@chan/'' @ operation @ bstr '': '' @ (if enabled then bstr ''Set'' else bstr ''Cleared'') @ bstr ''.''))))"

definition ADMIN_HELP :: bytes where
  "ADMIN_HELP =
     bstr ''@chan command switches:'' @ [10] @ bstr ''  /boot     Remove a member from a channel.'' @ [10]
     @ bstr ''  /create   Create a channel.'' @ [10] @ bstr ''  /destroy  Destroy a channel.'' @ [10]
     @ bstr ''  /emit     Send an administrative message.'' @ [10] @ bstr ''  /list     List channels.'' @ [10]
     @ bstr ''  /object   Attach a channel object.'' @ [10] @ bstr ''  /oflags   Set channel permissions for objects.'' @ [10]
     @ bstr ''  /pflags   Set channel permissions for players.'' @ [10] @ bstr ''  /flags    Set or clear channel flags.'' @ [10]
     @ bstr ''  /status   Show a channel'' @ [39] @ bstr ''s status.'' @ [10]
     @ bstr ''  /who      List a channel'' @ [39] @ bstr ''s members.''"

definition ILLEGAL :: comm_error where "ILLEGAL = Said (bstr ''Illegal combination of @chan switches.'')"

definition switch_ok :: "bytes list \<Rightarrow> bool" where
  "switch_ok parts \<longleftrightarrow>
     length parts \<le> 2
     \<and> (length parts = 1
        \<or> parts ! 0 = bstr ''emit'' \<and> parts ! 1 = bstr ''noheader''
        \<or> (parts ! 0 = bstr ''list'' \<or> parts ! 0 = bstr ''status'') \<and> parts ! 1 = bstr ''full'')"

definition comm_admin :: "comm_env \<Rightarrow> object_id \<Rightarrow> bytes \<Rightarrow> bytes option \<Rightarrow> unit comm" where
  "comm_admin env who args switch =
     (case switch of
        None \<Rightarrow> comm_notify env who ADMIN_HELP
      | Some sw \<Rightarrow>
          let parts = split_on 47 sw; operation = hd parts; modified = (length parts = 2);
              first = trim (fst (split_equals args)); second = trim (snd (split_equals args))
          in eff_bind (eff_ensure (switch_ok parts) ILLEGAL) (\<lambda>_.
             if operation = bstr ''create'' then chan_create env who first
             else if operation = bstr ''destroy'' then chan_destroy env who first
             else if operation = bstr ''status'' then chan_status env who first modified
             else if operation = bstr ''list'' then chan_list env who modified
             else if operation = bstr ''emit'' then chan_emit env first second modified
             else if operation = bstr ''who'' then chan_who env who first
             else if operation = bstr ''object'' then chan_object env who first second
             else if operation = bstr ''boot'' then chan_boot env who first second
             else if operation = bstr ''flags'' \<or> operation = bstr ''pflags'' \<or> operation = bstr ''oflags''
             then chan_flags env who operation first second
             else eff_fail ILLEGAL))"

section \<open>Commands\<close>

definition comm_command ::
  "comm_env \<Rightarrow> object_id \<Rightarrow> com_operation \<Rightarrow> bytes \<Rightarrow> bytes option \<Rightarrow> nat option \<Rightarrow> unit comm" where
  "comm_command env who operation input switch session =
     (let args = trim input in
      eff_bind (if operation = PageCom \<or> operation = AdminCom then eff_return ()
                else eff_bind (eff_get (out_of_character env who)) (\<lambda>ooc. eff_ensure ooc (Said (bstr ''Permission denied.'')))) (\<lambda>_.
      case operation of
        PageCom \<Rightarrow> comm_page env who args
      | AddCom \<Rightarrow> comm_add env who (trim (snd (split_equals args))) (trim (fst (split_equals args))) False False
      | DeleteCom \<Rightarrow> remove_alias env who args
      | ClearCom \<Rightarrow> clear_aliases env who
      | ListCom \<Rightarrow> list_aliases env who session
      | AllCom \<Rightarrow> all_aliases env who args
      | AdminCom \<Rightarrow> comm_admin env who args switch))"

datatype com_action = Continued | Replied bytes | Crashed

definition com_transaction :: "unit comm \<Rightarrow> comms \<Rightarrow> comms \<times> com_action" where
  "com_transaction m s =
     (case atomic rolled_back m s of
        (s', Inr _) \<Rightarrow> (s', Continued)
      | (s', Inl Panicked) \<Rightarrow> (s', Crashed)
      | (s', Inl e) \<Rightarrow> (s', Replied (comm_error_text e)))"

definition comm_run ::
  "comm_env \<Rightarrow> object_id \<Rightarrow> com_operation \<Rightarrow> bytes \<Rightarrow> bytes option \<Rightarrow> nat option \<Rightarrow> comms \<Rightarrow> comms \<times> com_action" where
  "comm_run env who operation input switch session =
     com_transaction (comm_command env who operation input switch session)"

definition comm_alias :: "comm_env \<Rightarrow> object_id \<Rightarrow> bytes \<Rightarrow> comms \<Rightarrow> comms \<times> com_action option" where
  "comm_alias env player line s =
     (case split_once_white (trim line) of
        (token, tail) \<Rightarrow>
          (case alias_target player token s of
             None \<Rightarrow> (s, None)
           | Some channel \<Rightarrow>
               (case com_transaction (comm_say env player channel (trim_start tail)) s of (s', a) \<Rightarrow> (s', Some a))))"

end
