(* ===== verification/Channels_Valid.thy ===== *)
theory Channels_Valid
  imports Channel_Admin "HOL-Library.Multiset"
begin

text \<open>
  The communication state as a transition system. Every operation of the service is a sequence of
  the elementary steps below, whatever the host callbacks do by such steps themselves; the invariant
  of channels and aliases and the finality of removed channels are inductions over the steps.
\<close>

section \<open>Steps\<close>

inductive channel_step :: "channel \<Rightarrow> channel \<Rightarrow> bool" where
  counts: "channel_step c (c\<lparr>ch_messages := ch_messages c + 1\<rparr>)"
| reconciles: "channel_step c (reconciled w c)"
| joins: "channel_step c (with_member who online c)"
| falls_silent: "channel_step c (silenced who c)"
| goes_offline: "channel_step c (without_online who c)"
| leaves: "channel_step c (without_member who c)"
| is_seen: "find_member who (ch_users c) \<noteq> None \<Longrightarrow> channel_step c (seen_online who connected c)"
| remembers: "channel_step c (remembered m c)"
| attaches: "channel_step c (c\<lparr>ch_object := x\<rparr>)"
| sets_flags: "channel_step c (c\<lparr>ch_flags := f\<rparr>)"

definition name_ok :: "nat \<Rightarrow> bytes \<Rightarrow> bool" where
  "name_ok n v \<longleftrightarrow> v \<noteq> [] \<and> length v \<le> n \<and> printable v"

inductive com_step :: "comms \<Rightarrow> comms \<Rightarrow> bool" where
  world_changes: "com_step s (s\<lparr>com_world := w, com_accounts := accounts\<rparr>)"
| stages: "com_step s (s\<lparr>com_outbox := out\<rparr>)"
| pages: "com_step s (s\<lparr>last_pages := ps\<rparr>)"
| channel_changes:
    "bt_get (channels s) k = Some c \<Longrightarrow> channel_step c c' \<Longrightarrow> com_step s (s\<lparr>channels := bt_insert k c' (channels s)\<rparr>)"
| creates:
    "name_ok CHANNEL_NAME_LIMIT name \<Longrightarrow> find_name s name = None \<Longrightarrow>
     com_step s (s\<lparr>channels := bt_insert name (channel_new (next_channel s) name) (channels s),
       next_channel := next_channel s + 1\<rparr>)"
| destroys: "com_step s (s\<lparr>channels := bt_remove k (channels s)\<rparr>)"
| aliases: "name_ok ALIAS_LIMIT a \<Longrightarrow> alias_target who a s = None \<Longrightarrow> com_step s (add_alias who a name s)"
| unaliases: "com_step s (delete_alias_entry who a s)"
| skips: "next_channel s \<le> n \<Longrightarrow> com_step s (s\<lparr>next_channel := n\<rparr>)"

inductive_cases channel_stepE: "channel_step c c'"
inductive_cases com_stepE: "com_step s t"

abbreviation com_steps :: "comms \<Rightarrow> comms \<Rightarrow> bool" where
  "com_steps \<equiv> com_step\<^sup>*\<^sup>*"

section \<open>The invariant\<close>

definition channel_ok :: "bytes \<Rightarrow> channel \<Rightarrow> bool" where
  "channel_ok k c \<longleftrightarrow>
     ch_name c = k \<and> name_ok CHANNEL_NAME_LIMIT k \<and> sorted_wrt (<) (map mem_who (ch_users c))
     \<and> distinct (ch_online c) \<and> set (ch_online c) \<subseteq> mem_who ` set (ch_users c)
     \<and> length (ch_history c) \<le> HISTORY_LIMIT"

definition aliases_ok :: "channel_alias list \<Rightarrow> bool" where
  "aliases_ok es \<longleftrightarrow>
     (\<forall>e\<in>set es. name_ok ALIAS_LIMIT (alias_text e))
     \<and> sorted_wrt (<) (map (\<lambda>e. to_ascii_lowercase (alias_text e)) es)"

definition comms_ok :: "comms \<Rightarrow> bool" where
  "comms_ok s \<longleftrightarrow>
     bt_ok (channels s)
     \<and> (\<forall>(k, c)\<in>set (channels s). channel_ok k c \<and> ch_id c < next_channel s)
     \<and> distinct (map (\<lambda>(k, _). to_ascii_lowercase k) (channels s))
     \<and> distinct (map (\<lambda>(_, c). ch_id c) (channels s))
     \<and> bt_ok (channel_aliases s) \<and> (\<forall>(_, es)\<in>set (channel_aliases s). aliases_ok es)"

subsection \<open>One channel\<close>

lemma sort_key_strict:
  assumes "sorted_wrt (<) (map f xs)" and "f x \<notin> f ` set xs"
  shows "sorted_wrt (<) (map f (sort_key f (xs @ [x])))"
proof -
  have "mset (map f (sort_key f (xs @ [x]))) = mset (map f (xs @ [x]))" by simp
  then have "distinct (map f (sort_key f (xs @ [x]))) = distinct (map f (xs @ [x]))" by (rule mset_eq_imp_distinct_iff)
  then show ?thesis using assms by (simp add: strict_sorted_iff)
qed

lemma find_member_None: "find_member who us = None \<longleftrightarrow> who \<notin> mem_who ` set us"
  by (auto simp: find_member_def find_None_iff)

lemma set_listening_who: "map mem_who (set_listening who on us) = map mem_who us"
  by (induction us) auto

lemma set_listening_set: "mem_who ` set (set_listening who on us) = mem_who ` set us"
  by (metis list.set_map set_listening_who)

lemma sorted_wrt_filter_map: "sorted_wrt (<) (map f xs) \<Longrightarrow> sorted_wrt (<) (map f (filter P xs))" for f :: "'a \<Rightarrow> 'b::order"
  by (simp add: sorted_wrt_map sorted_wrt_filter)

lemma channel_step_ok: "channel_step c c' \<Longrightarrow> channel_ok k c \<Longrightarrow> channel_ok k c' \<and> ch_id c' = ch_id c"
proof (induction rule: channel_step.induct)
  case (reconciles c w)
  then have "distinct (map mem_who (ch_users c))" by (simp add: channel_ok_def strict_sorted_iff)
  then show ?case using reconciles by (auto simp: channel_ok_def reconciled_def Let_def distinct_map_filter)
next
  case (joins c who online)
  then show ?case
    by (auto simp: channel_ok_def with_member_def set_listening_who set_listening_set find_member_None intro!: sort_key_strict)
next
  case (falls_silent c who)
  then show ?case by (simp add: channel_ok_def silenced_def set_listening_who set_listening_set)
next
  case (leaves c who)
  then show ?case by (auto simp: channel_ok_def without_member_def intro: sorted_wrt_filter_map)
next
  case (is_seen who c connected)
  then show ?case by (auto simp: channel_ok_def seen_online_def find_member_None)
next
  case (remembers c m)
  then show ?case by (simp add: channel_ok_def remembered_def HISTORY_LIMIT_def)
qed (auto simp: channel_ok_def without_online_def)

subsection \<open>The table of channels\<close>

lemma bt_insert_replace:
  assumes "bt_ok m" and "bt_get m k = Some c" and "g (k, c') = g (k, c)"
  shows "map g (bt_insert k c' m) = map g m"
  using assms
proof (induction m)
  case (Cons e m)
  obtain j d where e: "e = (j, d)" by fastforce
  show ?case
  proof (cases "j = k")
    case False
    then have "k \<in> fst ` set m" using Cons.prems(2) by (force simp: e bt_get_def dest: map_of_SomeD)
    then have "j < k" using Cons.prems(1) by (auto simp: e bt_ok_Cons)
    then show ?thesis using Cons False by (simp add: e bt_ok_Cons bt_get_def)
  qed (use Cons.prems in \<open>simp add: e bt_get_def\<close>)
qed (simp add: bt_get_def)

lemma mset_bt_insert_new: "k \<notin> fst ` set m \<Longrightarrow> mset (bt_insert k v m) = add_mset (k, v) (mset m)"
  by (induction k v m rule: bt_insert.induct) auto

lemma distinct_bt_insert_new:
  assumes "distinct (map g m)" and "k \<notin> fst ` set m" and "g (k, v) \<notin> g ` set m"
  shows "distinct (map g (bt_insert k v m))"
proof -
  have "mset (map g (bt_insert k v m)) = mset (map g ((k, v) # m))" using assms(2) by (simp add: mset_bt_insert_new)
  then show ?thesis using assms by (simp add: mset_eq_imp_distinct_iff [of "map g (bt_insert k v m)" "map g ((k, v) # m)"])
qed

lemma find_name_None: "find_name s name = None \<longleftrightarrow> to_ascii_lowercase name \<notin> (\<lambda>(k, _). to_ascii_lowercase k) ` set (channels s)"
  by (auto simp: find_name_def find_None_iff eq_ignore_ascii_case_def to_ascii_lowercase_def image_iff)

lemma aliases_of_ok: "comms_ok s \<Longrightarrow> aliases_ok (aliases_of who s)"
proof (cases "bt_get (channel_aliases s) who")
  case (Some es)
  moreover assume "comms_ok s"
  ultimately have "(who, es) \<in> set (channel_aliases s)" "\<forall>(_, es)\<in>set (channel_aliases s). aliases_ok es"
    by (simp_all add: comms_ok_def bt_get_in_set)
  then show ?thesis using Some by (auto simp: aliases_of_def)
qed (simp add: aliases_of_def aliases_ok_def)

lemma add_alias_ok:
  assumes "comms_ok s" and "name_ok ALIAS_LIMIT a" and "alias_target who a s = None"
  shows "aliases_ok (sort_key (\<lambda>e. to_ascii_lowercase (alias_text e)) (aliases_of who s @ [\<lparr>alias_text = a, alias_channel = n\<rparr>]))"
proof -
  have "to_ascii_lowercase a \<notin> (\<lambda>e. to_ascii_lowercase (alias_text e)) ` set (aliases_of who s)"
    using assms(3) by (auto simp: alias_target_def find_None_iff eq_ignore_ascii_case_def to_ascii_lowercase_def)
  then show ?thesis using aliases_of_ok [OF assms(1), of who] assms(2)
    unfolding aliases_ok_def by (auto intro!: sort_key_strict)
qed

lemma in_bt_insert: "bt_ok m \<Longrightarrow> e \<in> set (bt_insert k v m) \<Longrightarrow> e = (k, v) \<or> e \<in> set m"
  by (auto simp: set_bt_insert)

lemma com_step_ok: "com_step s t \<Longrightarrow> comms_ok s \<Longrightarrow> comms_ok t"
proof (induction rule: com_step.induct)
  case (channel_changes s k c c')
  then have ok: "bt_ok (channels s)" and "(k, c) \<in> set (channels s)" by (auto simp: comms_ok_def bt_get_in_set)
  with channel_changes have "channel_ok k c' \<and> ch_id c' = ch_id c \<and> ch_id c < next_channel s"
    using channel_step_ok by (fastforce simp: comms_ok_def)
  then show ?case using channel_changes.prems ok channel_changes.hyps(1)
    by (auto simp: comms_ok_def bt_ok_insert bt_insert_replace dest!: in_bt_insert)
next
  case (creates name s)
  have ok: "bt_ok (channels s)" using creates.prems by (simp add: comms_ok_def)
  have fresh: "to_ascii_lowercase name \<notin> (\<lambda>(k, _). to_ascii_lowercase k) ` set (channels s)"
    using creates.hyps(2) by (simp add: find_name_None)
  then have new: "name \<notin> fst ` set (channels s)" by force
  have "next_channel s \<notin> (\<lambda>(_, c). ch_id c) ` set (channels s)" using creates.prems by (force simp: comms_ok_def)
  then have ids: "distinct (map (\<lambda>(_, c). ch_id c) (bt_insert name (channel_new (next_channel s) name) (channels s)))"
    using creates.prems new by (intro distinct_bt_insert_new) (simp_all add: comms_ok_def channel_new_def)
  have names: "distinct (map (\<lambda>(k, _). to_ascii_lowercase k) (bt_insert name (channel_new (next_channel s) name) (channels s)))"
    using creates.prems new fresh by (intro distinct_bt_insert_new) (simp_all add: comms_ok_def)
  have "channel_ok name (channel_new (next_channel s) name)"
    using creates.hyps(1) by (simp add: channel_ok_def channel_new_def)
  then have "\<forall>(k, c)\<in>set (bt_insert name (channel_new (next_channel s) name) (channels s)). channel_ok k c \<and> ch_id c < next_channel s + 1"
    using creates.prems ok by (force simp: comms_ok_def channel_new_def set_bt_insert)
  then show ?case using creates.prems ids names by (simp add: comms_ok_def bt_ok_insert)
next
  case (destroys s k)
  then show ?case by (auto simp: comms_ok_def bt_remove_def bt_ok_filter distinct_map_filter)
next
  case (aliases a who s n)
  then show ?case using add_alias_ok [OF aliases.prems aliases.hyps, of n]
    by (auto simp: comms_ok_def add_alias_def bt_ok_insert dest!: in_bt_insert)
next
  case (unaliases s who a)
  show ?case
  proof (cases "bt_get (channel_aliases s) who")
    case (Some es)
    then have "aliases_ok es" using unaliases by (auto simp: comms_ok_def bt_get_in_set)
    then have "aliases_ok (filter (\<lambda>e. \<not> eq_ignore_ascii_case (alias_text e) a) es)"
      by (auto simp: aliases_ok_def intro: sorted_wrt_filter_map)
    then show ?thesis using unaliases Some
      by (auto simp: comms_ok_def delete_alias_entry_def bt_ok_insert dest!: in_bt_insert)
  qed (use unaliases in \<open>simp add: delete_alias_entry_def\<close>)
next
  case (skips s n)
  then show ?case by (force simp: comms_ok_def)
qed (auto simp: comms_ok_def)

lemma com_steps_ok: "com_steps s t \<Longrightarrow> comms_ok s \<Longrightarrow> comms_ok t"
  by (induction rule: rtranclp_induct) (auto intro: com_step_ok)

lemma com_steps_next: "com_steps s t \<Longrightarrow> next_channel s \<le> next_channel t"
proof (induction rule: rtranclp_induct)
  case (step t u)
  from step.hyps(2) have "next_channel t \<le> next_channel u"
    by (cases rule: com_step.cases) (auto simp: add_alias_def delete_alias_entry_def split: option.splits)
  then show ?case using step.IH by simp
qed simp

section \<open>Operations are sequences of steps\<close>

definition com_evolved :: "comms \<Rightarrow> comms \<Rightarrow> bool" where
  "com_evolved s t \<longleftrightarrow> (comms_ok s \<longrightarrow> com_steps s t)"

interpretation com: evolution com_evolved
  by unfold_locales (auto simp: com_evolved_def dest: com_steps_ok)

lemmas com_parts [evolving] = com.still com.bind com.each com.branch com.option com.pair

lemma com_evolved_step: "com_step s t \<Longrightarrow> com_evolved s t"
  by (auto simp: com_evolved_def)

lemma com_evolves_ok: "(\<And>s. comms_ok s \<Longrightarrow> com_evolved s (fst (m s))) \<Longrightarrow> evolves com_evolved m"
  by (simp add: evolves_def com_evolved_def)

text \<open>What the code relies on of the host: its callbacks change the state by steps, too.\<close>

definition host_steps :: "comm_env \<Rightarrow> bool" where
  "host_steps env \<longleftrightarrow>
     (\<forall>lock who kind. evolves com_evolved (lock_passes env lock who kind))
     \<and> (\<forall>thing who. evolves com_evolved (channel_leave env thing who))"

lemma com_evolved_rolled_back: "com_evolved s t \<Longrightarrow> com_evolved s (rolled_back s t)"
  unfolding com_evolved_def rolled_back_def by (blast intro: com_steps_next skips)

lemma edit_channel_evolves [evolving]:
  assumes "\<And>c. channel_step c (f c)"
  shows "evolves com_evolved (eff_modify (edit_channel name f))"
proof (rule com.modify)
  fix s
  show "com_evolved s (edit_channel name f s)"
    by (cases "bt_get (channels s) name") (auto simp: edit_channel_def com.stays intro: com_evolved_step channel_changes assms)
qed

lemma reconcile_evolves [evolving]: "evolves com_evolved (eff_modify (\<lambda>s. edit_channel name (reconciled (com_world s)) s))"
proof (rule com.modify)
  fix s
  show "com_evolved s (edit_channel name (reconciled (com_world s)) s)"
    using edit_channel_evolves [of "reconciled (com_world s)" name] by (auto simp: evolves_def intro: reconciles)
qed

lemma reads_evolve [evolving]:
  "evolves com_evolved (comm_name name)" "evolves com_evolved (by_id i)" "evolves com_evolved (channel_at name)"
  "evolves com_evolved (object_of who)"
  by (simp_all add: evolves_def comm_name_def by_id_def channel_at_def object_of_def com.stays eff_some_apply)

lemma still_named_evolves [evolving]: "evolves com_evolved (still_named i name)"
  unfolding still_named_def by (intro evolving)

lemma stages_evolves [evolving]: "evolves com_evolved (eff_modify (\<lambda>s. s\<lparr>com_outbox := out\<rparr>))"
  by (rule com.modify) (rule com_evolved_step [OF stages])

lemma comm_notify_evolves [evolving]: "evolves com_evolved (comm_notify env who m)"
  unfolding comm_notify_def by (intro evolving)

lemma comm_route_evolves [evolving]: "evolves com_evolved (comm_route env r)"
  by (auto simp: evolves_def comm_route_def com.stays intro: com_evolved_step stages split: sum.split)

lemma comm_create_evolves [evolving]: "evolves com_evolved (comm_create name)"
  using com_evolved_step [OF creates [of name]] by (auto simp: evolves_def comm_create_def com.stays name_ok_def)

lemma comm_destroy_evolves [evolving]: "evolves com_evolved (comm_destroy name)"
  unfolding comm_destroy_def by (intro evolving com.modify com_evolved_step destroys)

lemma allowed_evolves [evolving]:
  assumes "host_steps env"
  shows "evolves com_evolved (allowed env who name a)"
  unfolding evolves_def
proof
  fix s
  have lock: "com_evolved s t" if "lock_passes env lock w k s = (t, r)" for lock w k t r
    using assms that by (metis host_steps_def evolves_def fst_conv)
  show "com_evolved s (fst (allowed env who name a s))"
    by (auto simp: allowed_def com.stays intro: lock com_evolved_rolled_back
        split: option.split prod.split sum.split lock_outcome.split bool.split)
qed

lemma online_members_evolves [evolving]: "evolves com_evolved (online_members name)"
  unfolding online_members_def by (intro evolving)

lemma comm_members_evolves [evolving]: "evolves com_evolved (comm_members name all)"
  unfolding comm_members_def by (intro evolving)

lemma deliver_evolves [evolving]: "evolves com_evolved (deliver env who m)"
  unfolding deliver_def by (intro evolving)

lemma emit_one_evolves [evolving]:
  assumes host: "host_steps env"
  shows "evolves com_evolved (emit_one env name i m ex u)"
  unfolding emit_one_def by (intro evolving host)

lemma emit_excluding_evolves [evolving]:
  assumes host: "host_steps env"
  shows "evolves com_evolved (emit_excluding env name m b ex)"
  unfolding emit_excluding_def Let_def by (intro evolving host channel_step.intros)

lemma comm_emit_evolves [evolving]:
  assumes host: "host_steps env"
  shows "evolves com_evolved (comm_emit env name m b)"
  unfolding comm_emit_def by (intro evolving host)

lemma comm_join_evolves [evolving]:
  assumes host: "host_steps env"
  shows "evolves com_evolved (comm_join env who name quiet)"
  unfolding comm_join_def by (intro evolving host channel_step.intros)

lemma leave_one_evolves [evolving]:
  assumes "host_steps env"
  shows "evolves com_evolved (leave_one env who name thing)"
  unfolding evolves_def
proof
  fix s
  have "com_evolved s t" if "channel_leave env thing who s = (t, r)" for t r
    using assms that by (metis host_steps_def evolves_def fst_conv)
  then show "com_evolved s (fst (leave_one env who name thing s))"
    by (auto simp: leave_one_def split: prod.split sum.split comm_error.split)
qed

lemma leave_callbacks_evolves [evolving]:
  assumes host: "host_steps env"
  shows "evolves com_evolved (leave_callbacks env who name)"
  unfolding leave_callbacks_def by (intro evolving host)

lemma comm_leave_evolves [evolving]:
  assumes host: "host_steps env"
  shows "evolves com_evolved (comm_leave env who name)"
  unfolding comm_leave_def by (intro evolving host channel_step.intros)

lemma remove_present_evolves [evolving]:
  assumes host: "host_steps env"
  shows "evolves com_evolved (remove_present env who channel name i u)"
  unfolding remove_present_def by (intro evolving host channel_step.intros)

lemma remove_member_evolves [evolving]:
  assumes host: "host_steps env"
  shows "evolves com_evolved (remove_member env who name)"
  unfolding remove_member_def by (intro evolving host)

lemma delete_alias_entry_evolves [evolving]: "evolves com_evolved (eff_modify (delete_alias_entry who a))"
  by (intro com.modify com_evolved_step unaliases)

lemma remove_alias_evolves [evolving]:
  assumes host: "host_steps env"
  shows "evolves com_evolved (remove_alias env who a)"
  unfolding remove_alias_def by (intro evolving host)

lemma boot_evolves [evolving]:
  assumes host: "host_steps env"
  shows "evolves com_evolved (boot env actor who name)"
  unfolding boot_def identified_def by (intro evolving host)

lemma comm_notify_result: "comm_notify env who m s = (t, Inr u) \<Longrightarrow> \<exists>out. t = s\<lparr>com_outbox := out\<rparr>"
proof -
  have "\<exists>out. s = s\<lparr>com_outbox := out\<rparr>" by (rule exI [of _ "com_outbox s"]) simp
  then show "comm_notify env who m s = (t, Inr u) \<Longrightarrow> \<exists>out. t = s\<lparr>com_outbox := out\<rparr>"
    by (auto simp: comm_notify_def split: if_splits)
qed

lemma alias_and_join_evolves [evolving]:
  assumes host: "host_steps env" and "name_ok ALIAS_LIMIT a"
  shows "evolves com_evolved (alias_and_join env who name a quiet trusted)"
  unfolding evolves_def
proof
  fix s
  let ?join = "eff_bind (comm_join env who name quiet) (\<lambda>_.
    comm_notify env who (bstr ''Channel '' @ name @ bstr '' added with alias '' @ a @ bstr ''.''))"
  have join: "com_evolved t (fst (eff_bind (eff_modify (add_alias who a name)) (\<lambda>_. ?join) t))" if "alias_target who a t = None" for t
  proof (rule com.at_bind)
    show "com_evolved t (fst (eff_modify (add_alias who a name) t))"
      using assms(2) that by (simp add: com_evolved_step aliases)
    show "com_evolved u (fst (?join u))" for u by (rule com.at) (intro evolving host)
  qed
  have tail: "com_evolved s (fst (eff_bind (if listed then comm_notify env who WARNING else eff_return ()) (\<lambda>_.
      eff_bind (eff_modify (add_alias who a name)) (\<lambda>_. ?join)) s))" if none: "alias_target who a s = None" for listed
  proof (rule com.at_bind)
    show "com_evolved s (fst ((if listed then comm_notify env who WARNING else eff_return ()) s))"
      by (rule com.at) (intro evolving)
    fix x t
    assume "(if listed then comm_notify env who WARNING else eff_return ()) s = (t, Inr x)"
    then have "alias_target who a t = None"
      using none by (auto simp: alias_target_def aliases_of_def dest!: comm_notify_result split: if_splits)
    then show "com_evolved t (fst (eff_bind (eff_modify (add_alias who a name)) (\<lambda>_. ?join) t))" by (rule join)
  qed
  show "com_evolved s (fst (alias_and_join env who name a quiet trusted s))"
    unfolding alias_and_join_def
    by (cases "alias_target who a s"; cases trusted; cases "bt_get (channels s) name")
      (use tail tail [of False] in \<open>auto simp: eff_bind_def [of "channel_at name"] eff_bind_def [of "eff_bind m f" for m f] channel_at_def com.stays eff_some_apply\<close>)
qed

lemma comm_add_evolves [evolving]:
  assumes host: "host_steps env"
  shows "evolves com_evolved (comm_add env who channel a quiet trusted)"
proof (cases "name_ok ALIAS_LIMIT a")
  case True
  then show ?thesis unfolding comm_add_def by (intro evolving host)
next
  case False
  then show ?thesis by (auto simp: evolves_def comm_add_def name_ok_def com.stays)
qed

subsection \<open>Commands\<close>

lemma comm_who_evolves [evolving]: "evolves com_evolved (comm_who env viewer name all admin)"
  unfolding comm_who_def who_group_def who_entry_def by (intro evolving)

lemma transmit_evolves [evolving]:
  assumes host: "host_steps env"
  shows "evolves com_evolved (transmit env who name m)"
  unfolding transmit_def by (intro evolving host)

lemma comm_say_evolves [evolving]:
  assumes host: "host_steps env"
  shows "evolves com_evolved (comm_say env who name m)"
  unfolding comm_say_def last_messages_def by (intro evolving host)

lemma find_name_self:
  assumes "comms_ok s" and "bt_get (channels s) k = Some c"
  shows "find_name s k = Some k"
proof -
  have k: "k \<in> fst ` set (channels s)" using assms by (force simp: comms_ok_def bt_get_in_set)
  have "(\<lambda>(k, _). to_ascii_lowercase k) = to_ascii_lowercase \<circ> (fst :: bytes \<times> channel \<Rightarrow> bytes)" by auto
  then have "distinct (map to_ascii_lowercase (map fst (channels s)))"
    using assms(1) by (simp add: comms_ok_def)
  then have "List.find (\<lambda>n. to_ascii_lowercase n = to_ascii_lowercase k) (map fst (channels s)) = Some k"
    using k by (intro find_key_distinct) simp_all
  then show ?thesis by (simp add: find_name_def eq_ignore_ascii_case_def to_ascii_lowercase_def)
qed

lemma online_members_result:
  assumes "comms_ok s" and "bt_get (channels s) k = Some c" and "online_members k s = (t, r)"
  shows "t = s\<lparr>channels := bt_insert k (reconciled (com_world s) c) (channels s)\<rparr>"
    and "r = Inr (online_memberships (reconciled (com_world s) c))"
proof -
  have "bt_get (bt_insert k (reconciled (com_world s) c) (channels s)) k = Some (reconciled (com_world s) c)"
    using assms(1) by (simp add: comms_ok_def bt_get_def map_of_bt_insert)
  then show "t = s\<lparr>channels := bt_insert k (reconciled (com_world s) c) (channels s)\<rparr>"
    and "r = Inr (online_memberships (reconciled (com_world s) c))"
    using assms by (auto simp: online_members_def eff_bind_def comm_name_def find_name_self edit_channel_def channel_at_def eff_some_apply)
qed

lemma reconciled_users [simp]: "ch_users (reconciled w c) = ch_users c" "ch_flags (reconciled w c) = ch_flags c"
  "ch_id (reconciled w c) = ch_id c" "ch_messages (reconciled w c) = ch_messages c" "ch_history (reconciled w c) = ch_history c"
  "ch_object (reconciled w c) = ch_object c" "ch_name (reconciled w c) = ch_name c"
  by (simp_all add: reconciled_def Let_def)

lemma presence_at_evolves [evolving]:
  assumes host: "host_steps env"
  shows "evolves com_evolved (presence_at env who connected obj e)"
proof (rule com_evolves_ok)
  fix s
  assume ok: "comms_ok s"
  show "com_evolved s (fst (presence_at env who connected obj e s))"
  proof (cases "member_slot who (alias_channel e) s")
    case None
    have "com_evolved s (fst ((if connected then comm_notify env who (bad_alias e) else eff_return ()) s))"
      by (rule com.at) (intro evolving)
    then show ?thesis by (simp add: presence_at_def None)
  next
    case (Some p)
    obtain k loud where p: "p = (k, loud)" by fastforce
    obtain c where c: "bt_get (channels s) k = Some c" "find_member who (ch_users c) \<noteq> None"
      using Some by (auto simp: member_slot_def p split: option.splits)
    let ?emit = "if loud \<and> Dark \<notin> flags obj
         then comm_emit env k (obj_name obj @ bstr '' has '' @ (if connected then bstr ''connected'' else bstr ''disconnected'') @ bstr ''.'') False
         else eff_return ()"
    have "com_evolved s (fst (eff_bind (online_members k) (\<lambda>_. eff_bind (eff_modify (edit_channel k (seen_online who connected))) (\<lambda>_. ?emit)) s))"
    proof (rule com.at_bind)
      show "com_evolved s (fst (online_members k s))" by (rule com.at) (rule online_members_evolves)
      fix us t
      assume run: "online_members k s = (t, Inr us)"
      show "com_evolved t (fst (eff_bind (eff_modify (edit_channel k (seen_online who connected))) (\<lambda>_. ?emit) t))"
      proof (rule com.at_bind)
        show "com_evolved u (fst (?emit u))" for u by (rule com.at) (intro evolving host)
        have "bt_get (channels t) k = Some (reconciled (com_world s) c)"
          using online_members_result(1) [OF ok c(1) run] ok by (simp add: comms_ok_def bt_get_def map_of_bt_insert)
        then have "com_step t (edit_channel k (seen_online who connected) t)"
          using c(2) by (simp add: edit_channel_def channel_changes is_seen)
        then show "com_evolved t (fst (eff_modify (edit_channel k (seen_online who connected)) t))" by (simp add: com_evolved_step)
      qed
    qed
    then show ?thesis by (simp add: presence_at_def Some p)
  qed
qed

lemma presence_evolves [evolving]:
  assumes host: "host_steps env"
  shows "evolves com_evolved (presence env who connected peer)"
  unfolding presence_def by (intro evolving host)

lemma find_players_evolves [evolving]: "evolves com_evolved (find_players env sender ns)"
  by (induction ns) (simp_all only: find_players.simps, (intro evolving | assumption)+)

lemma page_recipients_evolves [evolving]: "evolves com_evolved (page_recipients env sender targets saved)"
  unfolding page_recipients_def Let_def by (intro evolving)

lemma page_all_evolves [evolving]: "evolves com_evolved (page_all env sender output ts)"
  by (induction ts) (simp_all only: page_all.simps page_one_def, (intro evolving | assumption)+)

lemma last_pages_evolves [evolving]: "evolves com_evolved (eff_modify (\<lambda>s. s\<lparr>last_pages := bt_insert who ds (last_pages s)\<rparr>))"
  by (intro com.modify com_evolved_step pages)

lemma comm_page_evolves [evolving]: "evolves com_evolved (comm_page env sender args)"
  unfolding comm_page_def page_send_def last_paged_def Let_def by (intro evolving)

lemma atomic_evolves [evolving]: "evolves com_evolved m \<Longrightarrow> evolves com_evolved (atomic rolled_back m)"
  by (erule com.undone) (rule com_evolved_rolled_back)

lemma all_one_evolves [evolving]:
  assumes host: "host_steps env"
  shows "evolves com_evolved (all_one env who args channel)"
  unfolding evolves_def
proof
  fix s
  obtain t r where run: "atomic rolled_back (comm_say env who channel args) s = (t, r)" by fastforce
  have "evolves com_evolved (atomic rolled_back (comm_say env who channel args))" by (intro evolving host)
  then have "com_evolved s t" using run by (metis evolves_def fst_conv)
  moreover have "com_evolved t (fst (comm_notify env who m t))" for m by (rule com.at) (rule comm_notify_evolves)
  ultimately show "com_evolved s (fst (all_one env who args channel s))"
    by (auto simp: all_one_def run split: sum.split comm_error.split intro: com.goes_on)
qed

lemma clear_aliases_evolves [evolving]:
  assumes host: "host_steps env"
  shows "evolves com_evolved (clear_aliases env who)"
  unfolding clear_aliases_def clear_one_def by (intro evolving host)

lemma list_aliases_evolves [evolving]: "evolves com_evolved (list_aliases env who session)"
  unfolding list_aliases_def list_alias_def by (intro evolving)

lemma all_aliases_evolves [evolving]:
  assumes host: "host_steps env"
  shows "evolves com_evolved (all_aliases env who args)"
  unfolding all_aliases_def by (intro evolving host)

lemma admin_name_evolves [evolving]: "evolves com_evolved (admin_name name operation)"
  unfolding admin_name_def by (intro evolving)

lemma comm_list_evolves [evolving]: "evolves com_evolved (comm_list env who names full)"
  unfolding comm_list_def list_header_def list_one_def by (intro evolving)

lemma chan_evolves [evolving]:
  "evolves com_evolved (chan_create env who first)" "evolves com_evolved (chan_destroy env who first)"
  "evolves com_evolved (chan_status env who first full)" "evolves com_evolved (chan_list env who full)"
  "evolves com_evolved (chan_who env who first)"
  unfolding chan_create_def chan_destroy_def chan_status_def chan_list_def chan_who_def list_header_def by (intro evolving)+

lemma chan_emit_evolves [evolving]:
  assumes host: "host_steps env"
  shows "evolves com_evolved (chan_emit env first second b)"
  unfolding chan_emit_def by (intro evolving host)

lemma case_sum_evolves: "(\<And>e. r = Inl e \<Longrightarrow> evolves com_evolved (f e)) \<Longrightarrow> (\<And>x. r = Inr x \<Longrightarrow> evolves com_evolved (g x)) \<Longrightarrow>
    evolves com_evolved (case r of Inl e \<Rightarrow> f e | Inr x \<Rightarrow> g x)"
  by (cases r) simp_all

lemma chan_object_evolves [evolving]: "evolves com_evolved (chan_object env who first second)"
  unfolding chan_object_def object_target_def by (intro evolving case_sum_evolves channel_step.intros)

lemma chan_boot_evolves [evolving]:
  assumes host: "host_steps env"
  shows "evolves com_evolved (chan_boot env who first second)"
  unfolding chan_boot_def by (intro evolving host case_sum_evolves)

lemma chan_flags_evolves [evolving]: "evolves com_evolved (chan_flags env who operation first second)"
  unfolding chan_flags_def by (intro evolving channel_step.intros)

lemma comm_admin_evolves [evolving]:
  assumes host: "host_steps env"
  shows "evolves com_evolved (comm_admin env who args switch)"
  unfolding comm_admin_def Let_def by (intro evolving host)

lemma comm_command_evolves [evolving]:
  assumes host: "host_steps env"
  shows "evolves com_evolved (comm_command env who operation input switch session)"
  unfolding comm_command_def Let_def by (cases operation) (simp_all, (intro evolving host)+)

lemma com_transaction_evolved:
  assumes "evolves com_evolved m"
  shows "com_evolved s (fst (com_transaction m s))"
proof -
  have "com_evolved s (fst (atomic rolled_back m s))" by (rule com.at) (intro evolving assms)
  then show ?thesis by (auto simp: com_transaction_def split: prod.split sum.split comm_error.split)
qed

section \<open>Runs of the server\<close>

text \<open>
  What reaches the communication service: commands and alias lines of players, connections and
  disconnections, and changes of the world between them. Every event has the environment it runs in.
\<close>

datatype com_event =
    CommandEvent comm_env object_id com_operation bytes "bytes option" "nat option"
  | LineEvent comm_env object_id bytes
  | PresenceEvent comm_env object_id bool "bytes option"
  | WorldEvent world "(object_id, bytes option) btree"

fun com_event_run :: "com_event \<Rightarrow> comms \<Rightarrow> comms" where
  "com_event_run (CommandEvent env who operation input switch session) s = fst (comm_run env who operation input switch session s)"
| "com_event_run (LineEvent env who line) s = fst (comm_alias env who line s)"
| "com_event_run (PresenceEvent env who connected peer) s = fst (com_transaction (presence env who connected peer) s)"
| "com_event_run (WorldEvent w accounts) s = s\<lparr>com_world := w, com_accounts := accounts\<rparr>"

fun event_host_steps :: "com_event \<Rightarrow> bool" where
  "event_host_steps (CommandEvent env _ _ _ _ _) = host_steps env"
| "event_host_steps (LineEvent env _ _) = host_steps env"
| "event_host_steps (PresenceEvent env _ _ _) = host_steps env"
| "event_host_steps (WorldEvent _ _) = True"

lemma com_event_evolved:
  assumes "event_host_steps e"
  shows "com_evolved s (com_event_run e s)"
proof (cases e)
  case (CommandEvent env who operation input switch session)
  with assms have "evolves com_evolved (comm_command env who operation input switch session)" by (auto intro: evolving)
  then show ?thesis by (simp add: CommandEvent comm_run_def com_transaction_evolved)
next
  case (LineEvent env who line)
  then have "evolves com_evolved (comm_say env who channel m)" for channel m using assms by (auto intro: evolving)
  then show ?thesis
    using com_transaction_evolved by (auto simp: LineEvent comm_alias_def com.stays split: prod.split option.split) (metis fst_conv)
next
  case (PresenceEvent env who connected peer)
  with assms have "evolves com_evolved (presence env who connected peer)" by (auto intro: evolving)
  then show ?thesis by (simp add: PresenceEvent com_transaction_evolved)
next
  case (WorldEvent w accounts)
  then show ?thesis by (simp add: com_evolved_step world_changes)
qed

lemma com_events_steps:
  assumes "comms_ok s" and "\<forall>e\<in>set es. event_host_steps e"
  shows "com_steps s (fold com_event_run es s)"
  using assms
proof (induction es arbitrary: s)
  case (Cons e es)
  then have "com_steps s (com_event_run e s)" using com_event_evolved [of e s] by (simp add: com_evolved_def)
  moreover from this have "comms_ok (com_event_run e s)" using Cons.prems(1) by (rule com_steps_ok)
  ultimately show ?case using Cons.IH [of "com_event_run e s"] Cons.prems(2) by (simp add: rtranclp_trans)
qed simp

definition live_ids :: "comms \<Rightarrow> nat set" where
  "live_ids s = (\<lambda>(_, c). ch_id c) ` set (channels s)"

lemma channel_step_id: "channel_step c c' \<Longrightarrow> ch_id c' = ch_id c"
  by (cases rule: channel_step.cases)
    (auto simp: with_member_def silenced_def without_online_def without_member_def seen_online_def remembered_def)

lemma live_ids_bt_insert: "live_ids (s\<lparr>channels := bt_insert k c (channels s)\<rparr>) \<subseteq> insert (ch_id c) (live_ids s)"
proof -
  have "(\<lambda>(_, c). ch_id c) ` set (bt_insert k c (channels s)) \<subseteq> (\<lambda>(_, c). ch_id c) ` insert (k, c) (set (channels s))"
    by (intro image_mono set_bt_insert_subset)
  then show ?thesis by (simp add: live_ids_def)
qed

lemma com_step_ids: "com_step s t \<Longrightarrow> live_ids t \<subseteq> live_ids s \<union> {i. next_channel s \<le> i}"
proof (induction rule: com_step.induct)
  case (channel_changes s k c c')
  then have "ch_id c' \<in> live_ids s"
    by (force simp: live_ids_def bt_get_def channel_step_id dest: map_of_SomeD)
  then show ?case using live_ids_bt_insert [where s = s and k = k and c = c'] by auto
next
  case (creates name s)
  show ?case using live_ids_bt_insert [where s = s and k = name and c = "channel_new (next_channel s) name"]
    by (auto simp: live_ids_def channel_new_def)
next
  case (unaliases s who a)
  then show ?case by (auto simp: live_ids_def delete_alias_entry_def split: option.splits)
qed (auto simp: live_ids_def bt_remove_def add_alias_def)

lemma com_steps_ids: "com_steps s t \<Longrightarrow> live_ids t \<subseteq> live_ids s \<union> {i. next_channel s \<le> i}"
proof (induction rule: rtranclp_induct)
  case (step t u)
  then show ?case using com_step_ids [OF step.hyps(2)] com_steps_next [OF step.hyps(1)] by auto
qed simp

lemma by_id_stale: "snd (by_id i s) = Inl (Said (bstr ''channel handle is stale'')) \<longleftrightarrow> i \<notin> live_ids s"
proof -
  have "List.find (\<lambda>c. ch_id c = i) (map snd (channels s)) = None \<longleftrightarrow> i \<notin> live_ids s"
    by (force simp: find_None_iff live_ids_def)
  then show ?thesis by (cases "List.find (\<lambda>c. ch_id c = i) (map snd (channels s))") (simp_all add: by_id_def eff_some_apply)
qed

section \<open>Properties\<close>

definition sample_env :: comm_env where
  "sample_env =
     \<lparr>env_limits = sample_limits, ooc_comsys = 0, allow_chanlurking = 0,
      lock_passes = (\<lambda>lock who kind. eff_return (Decision (lock = who))),
      channel_leave = (\<lambda>thing who. eff_bind (comm_create (bstr ''left'')) (\<lambda>_. eff_return ())),
      terminal_width = (\<lambda>_. None), idle_time = (\<lambda>_. 0), wall_time = 7, plain_text = id,
      column_text = (\<lambda>s n. take n s), truncate_text = (\<lambda>s n. take n s), timestamp_text = (\<lambda>_. [])\<rparr>"

definition sample_comms :: comms where
  "sample_comms =
     \<lparr>com_world = talking_world, com_accounts = [(1, None), (4, None)], channels = [], channel_aliases = [],
      last_pages = [], com_outbox = [], next_channel = 1\<rparr>"

definition sample_events :: "com_event list" where
  "sample_events =
     [CommandEvent sample_env 1 AdminCom (bstr ''Ops'') (Some (bstr ''create'')) None,
      CommandEvent sample_env 4 AddCom (bstr ''o=ops'') None None,
      LineEvent sample_env 4 (bstr ''o hello''),
      CommandEvent sample_env 1 AdminCom (bstr ''Ops'') (Some (bstr ''destroy'')) None]"

lemma sample_host: "host_steps sample_env"
  by (simp only: host_steps_def sample_env_def comm_env.simps) (intro conjI allI evolving)

lemma sample_run_ok: "comms_ok sample_comms" "\<forall>e\<in>set sample_events. event_host_steps e"
  by (simp_all add: comms_ok_def sample_comms_def sample_events_def sample_host)

text \<open>
  C7. Whatever commands, alias lines, connections and callbacks occur, the channels stay well formed: they
  are stored under their valid names, which are unique regardless of case, and have distinct identities below
  the counter; members are in strict order, the online list has no duplicates and only members, at most twenty
  messages are remembered, and the aliases of a player are valid, sorted and unique regardless of case.\<close>
theorem channels_stay_wellformed:
  assumes "comms_ok s" and "\<forall>e\<in>set es. event_host_steps e"
  shows "comms_ok (fold com_event_run es s)"
  using com_events_steps [OF assms] assms(1) by (rule com_steps_ok)

theorem channels_stay_wellformed_witness: "comms_ok (fold com_event_run sample_events sample_comms)"
  using channels_stay_wellformed [OF sample_run_ok] .

text \<open>
  C30. A channel handle that has become stale stays stale: once an identity was handed out and its channel is
  gone, no later command, callback or rollback makes \<open>by_id\<close> resolve it again.\<close>
theorem stale_handles_stay_stale:
  assumes "comms_ok s" and "\<forall>e\<in>set es. event_host_steps e" and "i < next_channel s"
    and "snd (by_id i s) = Inl (Said (bstr ''channel handle is stale''))"
  shows "snd (by_id i (fold com_event_run es s)) = Inl (Said (bstr ''channel handle is stale''))"
  using com_steps_ids [OF com_events_steps [OF assms(1,2)]] assms(3,4) by (auto simp: by_id_stale)

theorem stale_handles_stay_stale_witness:
  "snd (by_id 0 (fold com_event_run sample_events sample_comms)) = Inl (Said (bstr ''channel handle is stale''))"
  using stale_handles_stay_stale [OF sample_run_ok, of 0] by (simp add: by_id_def sample_comms_def eff_some_apply)

end
