(* ===== verification/Channel_Delivery.thy ===== *)
theory Channel_Delivery
  imports Channels_Valid
begin

text \<open>
  Who hears a channel. For hosts whose locks only decide, a message is staged for exactly the online
  members that listen, may receive and are out of character, in the online order, and remembered; a
  speaker is a listening member who may transmit.
\<close>

section \<open>The reference\<close>

text \<open>What the delivery theorems rely on of the host: a lock callback decides and changes nothing.\<close>

definition locks_decide :: "comm_env \<Rightarrow> (world \<Rightarrow> object_id \<Rightarrow> object_id \<Rightarrow> lock_type \<Rightarrow> bool) \<Rightarrow> bool" where
  "locks_decide env dec \<longleftrightarrow>
     (\<forall>lock who kind s. lock_passes env lock who kind s = (s, Inr (Decision (dec (com_world s) lock who kind))))"

definition entitled :: "(world \<Rightarrow> object_id \<Rightarrow> object_id \<Rightarrow> lock_type \<Rightarrow> bool) \<Rightarrow> world \<Rightarrow> channel \<Rightarrow> object_id \<Rightarrow> access \<Rightarrow> bool" where
  "entitled dec w c who a \<longleftrightarrow>
     is_wizard w who
     \<or> (case object_at w who of
          None \<Rightarrow> False
        | Some obj \<Rightarrow>
            access_granted (ch_flags c) a obj
            \<or> (case ch_object c of Some lock \<Rightarrow> lock \<noteq> 0 \<and> dec w lock who (access_lock a) | None \<Rightarrow> False))"

definition hears ::
  "comm_env \<Rightarrow> (world \<Rightarrow> object_id \<Rightarrow> object_id \<Rightarrow> lock_type \<Rightarrow> bool) \<Rightarrow> world \<Rightarrow> channel \<Rightarrow> membership \<Rightarrow> bool" where
  "hears env dec w c u \<longleftrightarrow>
     mem_listening u \<and> live_member w False (mem_who u) \<and> entitled dec w c (mem_who u) ReceiveAccess
     \<and> (is_wizard w (mem_who u) \<or> \<not> in_character env w (mem_who u))"

text \<open>One copy: to a player as it is, to another object by the routing of notifications.\<close>

definition stage :: "comm_env \<Rightarrow> world \<Rightarrow> bytes \<Rightarrow> object_id \<Rightarrow> (outbox, comm_error, unit) effect" where
  "stage env w message who out =
     (if (case object_at w who of Some obj \<Rightarrow> obj_kind obj = Player | None \<Rightarrow> False)
      then if message = [] then (out, Inr ())
           else if length message \<le> output_message_limit (env_limits env) \<and> length out < output_entry_limit (env_limits env)
                   \<and> outbox_bytes out + length message \<le> output_byte_limit (env_limits env)
           then (out @ [(who, Styled message)], Inr ())
           else (out, Inl (Said (bstr ''Communication output limit exceeded'')))
      else (case notification_send (env_limits env) w out (direct_request who message) of
              Inl e \<Rightarrow> (out, Inl (Routing e))
            | Inr out' \<Rightarrow> (out', Inr ())))"

definition hearers ::
  "comm_env \<Rightarrow> (world \<Rightarrow> object_id \<Rightarrow> object_id \<Rightarrow> lock_type \<Rightarrow> bool) \<Rightarrow> world \<Rightarrow> channel \<Rightarrow> object_id option \<Rightarrow> object_id list" where
  "hearers env dec w c excluded =
     map mem_who (filter (\<lambda>u. excluded \<noteq> Some (mem_who u) \<and> hears env dec w c u) (online_memberships (reconciled w c)))"

definition counted :: "channel \<Rightarrow> channel" where
  "counted c = c\<lparr>ch_messages := ch_messages c + 1\<rparr>"

text \<open>The whole emission: the copies are staged in order, and only a complete one is remembered.\<close>

definition emission ::
  "comm_env \<Rightarrow> (world \<Rightarrow> object_id \<Rightarrow> object_id \<Rightarrow> lock_type \<Rightarrow> bool) \<Rightarrow> bytes \<Rightarrow> channel \<Rightarrow> bytes \<Rightarrow> object_id option \<Rightarrow> unit comm" where
  "emission env dec name c message excluded s =
     (let now = reconciled (com_world s) (counted c)
      in case eff_each (stage env (com_world s) message) (hearers env dec (com_world s) c excluded) (com_outbox s) of
           (out, Inl e) \<Rightarrow> (s\<lparr>channels := bt_insert name now (channels s), com_outbox := out\<rparr>, Inl e)
         | (out, Inr _) \<Rightarrow>
             (s\<lparr>channels := bt_insert name (remembered \<lparr>msg_at = wall_time env, msg_text = message\<rparr> now) (channels s),
                com_outbox := out\<rparr>, Inr ()))"

section \<open>Emission\<close>

lemma bt_insert_twice: "bt_insert k v (bt_insert k v' m) = bt_insert k v m"
  by (induction k v m rule: bt_insert.induct) auto

lemma deliver_stage:
  "deliver env who message s = (case stage env (com_world s) message who (com_outbox s) of (out, r) \<Rightarrow> (s\<lparr>com_outbox := out\<rparr>, r))"
  by (auto simp: deliver_def stage_def comm_notify_def comm_route_def split: option.split sum.split)

lemma allowed_entitled:
  assumes "locks_decide env dec" and "bt_get (channels s) name = Some c" and "object_at (com_world s) who = Some obj"
  shows "allowed env who name a s = (s, Inr (entitled dec (com_world s) c who a))"
  using assms by (auto simp: allowed_def entitled_def locks_decide_def split: option.split bool.split)

lemma emit_one_stage:
  assumes "locks_decide env dec" and "bt_get (channels s) name = Some c"
  shows "emit_one env name (ch_id c) message excluded u s =
    (if excluded \<noteq> Some (mem_who u) \<and> hears env dec (com_world s) c u
     then (case stage env (com_world s) message (mem_who u) (com_outbox s) of (out, r) \<Rightarrow> (s\<lparr>com_outbox := out\<rparr>, r))
     else (s, Inr ()))"
proof (cases "excluded \<noteq> Some (mem_who u) \<and> mem_listening u \<and> live_member (com_world s) False (mem_who u)")
  case True
  then obtain obj where "object_at (com_world s) (mem_who u) = Some obj" by (auto simp: live_member_def split: option.splits)
  then have "allowed env (mem_who u) name ReceiveAccess s = (s, Inr (entitled dec (com_world s) c (mem_who u) ReceiveAccess))"
    by (rule allowed_entitled [OF assms])
  then show ?thesis using True assms(2)
    by (auto simp: emit_one_def same_channel_def eff_bind_def [of "allowed env who n a" for who n a] hears_def out_of_character_def deliver_stage)
next
  case False
  then show ?thesis using assms(2) by (auto simp: emit_one_def same_channel_def hears_def)
qed

lemma emit_each_stage:
  assumes "locks_decide env dec" and "bt_get (channels s) name = Some c"
  shows "eff_each (emit_one env name (ch_id c) message excluded) us s =
    (case eff_each (stage env (com_world s) message)
        (map mem_who (filter (\<lambda>u. excluded \<noteq> Some (mem_who u) \<and> hears env dec (com_world s) c u) us)) (com_outbox s) of
       (out, r) \<Rightarrow> (s\<lparr>com_outbox := out\<rparr>, r))"
  using assms(2)
proof (induction us arbitrary: s)
  case (Cons u us)
  show ?case
  proof (cases "excluded \<noteq> Some (mem_who u) \<and> hears env dec (com_world s) c u")
    case True
    obtain out r where st: "stage env (com_world s) message (mem_who u) (com_outbox s) = (out, r)" by fastforce
    show ?thesis using True st Cons.IH [of "s\<lparr>com_outbox := out\<rparr>"] Cons.prems
      by (cases r) (simp_all add: eff_bind_def emit_one_stage [OF assms(1)] split: prod.split)
  next
    case False
    then show ?thesis using Cons by (simp add: eff_bind_def emit_one_stage [OF assms(1)] del: de_Morgan_conj)
  qed
qed simp

lemma counted_simps [simp]:
  "ch_users (counted c) = ch_users c" "ch_flags (counted c) = ch_flags c" "ch_id (counted c) = ch_id c"
  "ch_object (counted c) = ch_object c" "ch_online (counted c) = ch_online c" "ch_initialized (counted c) = ch_initialized c"
  by (simp_all add: counted_def)

lemma hears_same: "ch_flags d = ch_flags c \<Longrightarrow> ch_object d = ch_object c \<Longrightarrow> hears env dec w d u = hears env dec w c u"
  by (simp add: hears_def entitled_def split: option.split)

lemma online_counted: "online_memberships (reconciled w (counted c)) = online_memberships (reconciled w c)"
  by (simp add: online_memberships_def reconciled_def Let_def counted_def)

lemma bt_get_insert_same: "bt_ok m \<Longrightarrow> bt_get (bt_insert k v m) k = Some v"
  by (simp add: bt_get_def map_of_bt_insert)

lemma find_name_key: "comms_ok s \<Longrightarrow> find_name s channel = Some name \<Longrightarrow> \<exists>c. bt_get (channels s) name = Some c"
proof -
  assume "comms_ok s" "find_name s channel = Some name"
  then have "bt_ok (channels s)" "name \<in> fst ` set (channels s)"
    by (auto simp: find_name_def comms_ok_def dest!: find_Some_iff_first)
  then show ?thesis by (auto simp: bt_get_in_set)
qed

lemma emission_exact:
  assumes ok: "comms_ok s" and locks: "locks_decide env dec" and name: "find_name s channel = Some name"
    and c: "bt_get (channels s) name = Some c" and "0 \<notin> set message" and "ch_messages c + 1 < 2 ^ 63"
  shows "emit_excluding env channel message no_header excluded s = emission env dec name c (headed channel message no_header) excluded s"
proof -
  let ?m = "headed channel message no_header" and ?w = "com_world s" and ?now = "reconciled (com_world s) (counted c)"
  let ?s1 = "s\<lparr>channels := bt_insert name (counted c) (channels s)\<rparr>"
  let ?s2 = "s\<lparr>channels := bt_insert name ?now (channels s)\<rparr>"
  have bt: "bt_ok (channels s)" using ok by (simp add: comms_ok_def)
  have "com_step s ?s1" unfolding counted_def by (rule channel_changes [OF c channel_step.counts])
  then have ok1: "comms_ok ?s1" using ok by (rule com_step_ok)
  have c1: "bt_get (channels ?s1) name = Some (counted c)" using bt by (simp add: bt_get_insert_same)
  obtain t us where run: "online_members name ?s1 = (t, us)" by fastforce
  have t: "t = ?s2" and us: "us = Inr (online_memberships (reconciled ?w c))"
    using online_members_result [OF ok1 c1 run] by (simp_all add: bt_insert_twice online_counted)
  have c2: "bt_get (channels ?s2) name = Some ?now" using bt by (simp add: bt_get_insert_same)
  have each: "eff_each (emit_one env name (ch_id c) ?m excluded) (online_memberships (reconciled ?w c)) ?s2 =
    (case eff_each (stage env ?w ?m) (hearers env dec ?w c excluded) (com_outbox s) of (out, r) \<Rightarrow> (?s2\<lparr>com_outbox := out\<rparr>, r))"
    using emit_each_stage [OF locks c2, of ?m excluded] by (simp add: hearers_def hears_same [of ?now c])
  obtain out r where st: "eff_each (stage env ?w ?m) (hearers env dec ?w c excluded) (com_outbox s) = (out, r)" by fastforce
  show ?thesis
    using assms(5,6) c c2 run each st
    by (cases r) (simp_all add: emit_excluding_def emission_def Let_def comm_name_def eff_bind_def [of "comm_name n" for n] name
        channel_at_def eff_bind_def [of "channel_at n" for n] eff_some_apply edit_channel_def t us counted_def [symmetric]
        eff_bind_def [of "online_members n" for n] eff_bind_def [of "eff_each f xs" for f xs] bt_get_insert_same [OF bt] bt_insert_twice)
qed

section \<open>Speech\<close>

lemma emit_guards:
  assumes "emit_excluding env channel message b ex s = (t, Inr ())" and "find_name s channel = Some name"
    and "bt_get (channels s) name = Some c"
  shows "0 \<notin> set message" and "ch_messages c + 1 < 2 ^ 63"
  using assms by (auto simp: emit_excluding_def Let_def comm_name_def channel_at_def eff_some_apply
      eff_bind_def [of "comm_name n" for n] eff_bind_def [of "channel_at n" for n] split: if_splits)

definition spoken :: "comm_env \<Rightarrow> object \<Rightarrow> bytes \<Rightarrow> bytes" where
  "spoken env obj message = obj_name obj @ fst (posed message) @ escape (plain_text env (snd (posed message)))"

lemma transmit_exact:
  assumes ok: "comms_ok s" and locks: "locks_decide env dec" and c: "bt_get (channels s) name = Some c"
    and obj: "object_at (com_world s) who = Some obj" and run: "transmit env who name message s = (t, Inr ())"
  shows "entitled dec (com_world s) c who TransmitAccess"
    and "emission env dec name c (headed name (spoken env obj message) False) None s = (t, Inr ())"
proof -
  have e: "entitled dec (com_world s) c who TransmitAccess"
    and emit: "emit_excluding env name (spoken env obj message) False None s = (t, Inr ())"
    using run allowed_entitled [OF locks c obj, of TransmitAccess]
    by (auto simp: transmit_def eff_bind_Inr eff_ensure_apply channel_at_def c eff_some_apply still_named_def object_of_def obj
        by_id_def spoken_def comm_emit_def case_prod_beta split: if_splits option.splits)
  show "entitled dec (com_world s) c who TransmitAccess" by (rule e)
  have name: "find_name s name = Some name" using ok c by (rule find_name_self)
  show "emission env dec name c (headed name (spoken env obj message) False) None s = (t, Inr ())"
    using emission_exact [OF ok locks name c emit_guards [OF emit name c]] emit by metis
qed

definition KEYWORDS :: "bytes list" where
  "KEYWORDS = [bstr ''on'', bstr ''off'', bstr ''who'', bstr ''last'']"

lemma keyword_lower: "w \<in> set KEYWORDS \<Longrightarrow> map ascii_lower w = w"
  by (auto simp: KEYWORDS_def bstr_def ascii_lower_def)

lemma say_transmits:
  assumes "comm_say env who channel message s = (t, Inr ())" and "to_ascii_lowercase message \<notin> set KEYWORDS"
  shows "\<exists>name c u. find_name s channel = Some name \<and> bt_get (channels s) name = Some c
    \<and> find_member who (ch_users c) = Some u \<and> mem_listening u \<and> out_of_character env who s
    \<and> transmit env who name message s = (t, Inr ())"
proof -
  have "\<not> eq_ignore_ascii_case message (bstr ''who'')" "\<not> eq_ignore_ascii_case message (bstr ''last'')"
    "to_ascii_lowercase message \<noteq> bstr ''on''" "to_ascii_lowercase message \<noteq> bstr ''off''"
    using assms(2) keyword_lower [of "bstr ''who''"] keyword_lower [of "bstr ''last''"]
    by (auto simp: KEYWORDS_def eq_ignore_ascii_case_def to_ascii_lowercase_def)
  then show ?thesis using assms(1)
    by (auto simp: comm_say_def eff_bind_Inr comm_name_def channel_at_def eff_some_apply eff_ensure_apply
        split: if_splits option.splits)
qed

section \<open>Properties\<close>

definition chan_world :: world where
  "chan_world =
     \<lparr>objects = [(1, (sample_object 1 Player (Some 2))\<lparr>flags := {Connected}\<rparr>), (2, sample_object 2 Room None),
        (4, (sample_object 4 Player (Some 2))\<lparr>flags := {Connected}\<rparr>), (5, sample_object 5 Player (Some 2))]\<rparr>"

definition ops_channel :: channel where
  "ops_channel = (channel_new 0 (bstr ''ops''))\<lparr>ch_users :=
     [\<lparr>mem_who = 1, mem_listening = True\<rparr>, \<lparr>mem_who = 4, mem_listening = True\<rparr>, \<lparr>mem_who = 5, mem_listening = True\<rparr>]\<rparr>"

definition chan_comms :: comms where
  "chan_comms = sample_comms\<lparr>com_world := chan_world, channels := [(bstr ''ops'', ops_channel)]\<rparr>"

lemma chan_comms_ok: "comms_ok chan_comms"
  by (simp add: comms_ok_def chan_comms_def sample_comms_def ops_channel_def channel_ok_def channel_new_def name_ok_def
      CHANNEL_NAME_LIMIT_def HISTORY_LIMIT_def printable_def bstr_def bt_ok_Cons)

lemma sample_locks: "locks_decide sample_env (\<lambda>w lock who kind. lock = who)"
  by (simp add: locks_decide_def sample_env_def)

lemma chan_comms_ops:
  "find_name chan_comms (bstr ''OPS'') = Some (bstr ''ops'')" "bt_get (channels chan_comms) (bstr ''ops'') = Some ops_channel"
  by (simp_all add: find_name_def chan_comms_def bt_get_def eq_ignore_ascii_case_def bstr_def ascii_lower_def)

lemma chan_comms_say: "snd (comm_say sample_env 4 (bstr ''OPS'') (bstr ''hi'') chan_comms) = Inr ()"
  by code_simp

text \<open>
  C6. On a well-formed state and with locks that only decide, \<open>emit_excluding\<close> is the reference emission,
  errors included: it stages one copy for every online member, the excluded one apart, that listens, may
  receive and is out of character, in the online order, and when all are staged it has counted the message and
  remembered it among the last twenty; nothing else of the state changes.\<close>
theorem emission_is_exact:
  assumes "comms_ok s" and "locks_decide env dec" and "find_name s channel = Some name"
    and "bt_get (channels s) name = Some c" and "0 \<notin> set message" and "ch_messages c + 1 < 2 ^ 63"
  shows "emit_excluding env channel message no_header excluded s = emission env dec name c (headed channel message no_header) excluded s"
  using assms by (rule emission_exact)

theorem emission_is_exact_witness:
  "com_outbox (fst (emit_excluding sample_env (bstr ''OPS'') (bstr ''hi'') True None chan_comms)) = [(4, Styled [104, 105]), (1, Styled [104, 105])]"
proof -
  have "ch_messages ops_channel + 1 < 2 ^ 63" by (simp add: ops_channel_def channel_new_def)
  moreover have "0 \<notin> set (bstr ''hi'')" by (simp add: bstr_def)
  ultimately have "emit_excluding sample_env (bstr ''OPS'') (bstr ''hi'') True None chan_comms
    = emission sample_env (\<lambda>w lock who kind. lock = who) (bstr ''ops'') ops_channel (headed (bstr ''OPS'') (bstr ''hi'') True) None chan_comms"
    by (intro emission_is_exact [OF chan_comms_ok sample_locks chan_comms_ops])
  moreover have "com_outbox (fst (emission sample_env (\<lambda>w lock who kind. lock = who) (bstr ''ops'') ops_channel
      (headed (bstr ''OPS'') (bstr ''hi'') True) None chan_comms)) = [(4, Styled [104, 105]), (1, Styled [104, 105])]"
    by code_simp
  ultimately show ?thesis by simp
qed

text \<open>
  C31. Ordinary speech on a channel is entitled and exact: when \<open>say\<close> succeeds with a message that is none of
  the keywords, the speaker is a listening member who may transmit and is out of character, and the effect is
  the reference emission of the speaker's name and the plain message under the canonical name.\<close>
theorem speech_is_entitled:
  assumes "comms_ok s" and "locks_decide env dec" and "comm_say env who channel message s = (t, Inr ())"
    and "to_ascii_lowercase message \<notin> set KEYWORDS" and "object_at (com_world s) who = Some obj"
  shows "\<exists>name c u. find_name s channel = Some name \<and> bt_get (channels s) name = Some c
    \<and> find_member who (ch_users c) = Some u \<and> mem_listening u \<and> out_of_character env who s
    \<and> entitled dec (com_world s) c who TransmitAccess
    \<and> emission env dec name c (headed name (spoken env obj message) False) None s = (t, Inr ())"
  using say_transmits [OF assms(3,4)] transmit_exact [OF assms(1,2) _ assms(5)] by blast

theorem speech_is_entitled_witness:
  "\<exists>t name c u. find_name chan_comms (bstr ''OPS'') = Some name \<and> bt_get (channels chan_comms) name = Some c
    \<and> find_member 4 (ch_users c) = Some u \<and> mem_listening u \<and> out_of_character sample_env 4 chan_comms
    \<and> entitled (\<lambda>w lock who kind. lock = who) (com_world chan_comms) c 4 TransmitAccess
    \<and> emission sample_env (\<lambda>w lock who kind. lock = who) name c
        (headed name (spoken sample_env ((sample_object 4 Player (Some 2))\<lparr>flags := {Connected}\<rparr>) (bstr ''hi'')) False) None chan_comms
      = (t, Inr ())"
proof -
  obtain t where run: "comm_say sample_env 4 (bstr ''OPS'') (bstr ''hi'') chan_comms = (t, Inr ())"
    using chan_comms_say by (metis prod.collapse)
  have "to_ascii_lowercase (bstr ''hi'') \<notin> set KEYWORDS"
    by (simp add: KEYWORDS_def bstr_def to_ascii_lowercase_def ascii_lower_def)
  moreover have "object_at (com_world chan_comms) 4 = Some ((sample_object 4 Player (Some 2))\<lparr>flags := {Connected}\<rparr>)"
    by (simp add: object_at_def chan_comms_def chan_world_def bt_get_def)
  ultimately show ?thesis using speech_is_entitled [OF chan_comms_ok sample_locks run] by blast
qed

end
