(* ===== verification/Battle_Dice.thy ===== *)
theory Battle_Dice
  imports Prelude
begin

text \<open>
  Unit dice (\<open>src/btech/dice.rs\<close>) and the histogram of generic checks (\<open>src/btech/roll_statistics.rs\<close>).
  The ChaCha stream of the \<open>rand_chacha\<close> crate is a parameter: a function from a generator to its next
  word and the generator after it. Drawing a die rejects words until one is accepted, so the loop is
  partial, and not returning is \<open>None\<close>.
\<close>

section \<open>Statistics\<close>

datatype dice_error = NoFaces | BadRoll | StatsOverflow

type_synonym roll_statistics = "nat list"

definition stats_default :: roll_statistics where
  "stats_default = replicate 11 0"

definition stats_total :: "roll_statistics \<Rightarrow> nat" where
  "stats_total counts = sum_list counts"

definition stats_record :: "nat \<Rightarrow> roll_statistics \<Rightarrow> (dice_error, roll_statistics) result" where
  "stats_record roll counts =
     ensure_then (2 \<le> roll \<and> roll \<le> 12) BadRoll
       (ensure_then (stats_total counts < 2 ^ 64 - 1) StatsOverflow
         (Inr (counts[roll - 2 := counts ! (roll - 2) + 1])))"

definition stats_merge :: "roll_statistics \<Rightarrow> roll_statistics \<Rightarrow> (dice_error, roll_statistics) result" where
  "stats_merge a b =
     ensure_then (stats_total a + stats_total b < 2 ^ 64) StatsOverflow (Inr (map2 (+) a b))"

section \<open>Dice\<close>

record 'g dice =
  generator :: 'g
  generic_rolls :: roll_statistics

definition word_accepted :: "u16 \<Rightarrow> u32 \<Rightarrow> bool" where
  "word_accepted sides v \<longleftrightarrow> v < - 1 - (- 1) mod ucast sides"

definition word_face :: "u16 \<Rightarrow> u32 \<Rightarrow> u16" where
  "word_face sides v = ucast (v mod ucast sides + 1)"

partial_function (option) die_loop :: "('g \<Rightarrow> u32 \<times> 'g) \<Rightarrow> u16 \<Rightarrow> 'g \<Rightarrow> (u16 \<times> 'g) option" where
  "die_loop nx sides g =
     (case nx g of (v, g') \<Rightarrow> if word_accepted sides v then Some (word_face sides v, g') else die_loop nx sides g')"

definition die :: "('g \<Rightarrow> u32 \<times> 'g) \<Rightarrow> u16 \<Rightarrow> 'g dice \<Rightarrow> (dice_error, u16 \<times> 'g dice) result option" where
  "die nx sides d =
     (if sides = 0 then Some (Inl NoFaces)
      else map_option (\<lambda>(f, g). Inr (f, d\<lparr>generator := g\<rparr>)) (die_loop nx sides (generator d)))"

definition rank_i31 :: "('g \<Rightarrow> u32 \<times> 'g) \<Rightarrow> 'g dice \<Rightarrow> u32 \<times> 'g dice" where
  "rank_i31 nx d = (case nx (generator d) of (v, g) \<Rightarrow> (drop_bit 1 v, d\<lparr>generator := g\<rparr>))"

definition d6 :: "('g \<Rightarrow> u32 \<times> 'g) \<Rightarrow> 'g dice \<Rightarrow> (u8 \<times> 'g dice) option" where
  "d6 nx d = Option.bind (die nx 6 d) (\<lambda>r. case r of Inl _ \<Rightarrow> None | Inr (f, d') \<Rightarrow> Some (ucast f, d'))"

definition two_d6 :: "('g \<Rightarrow> u32 \<times> 'g) \<Rightarrow> 'g dice \<Rightarrow> (u8 \<times> 'g dice) option" where
  "two_d6 nx d = Option.bind (d6 nx d) (\<lambda>(a, d). Option.bind (d6 nx d) (\<lambda>(b, d). Some (a + b, d)))"

definition consciousness_roll :: "('g \<Rightarrow> u32 \<times> 'g) \<Rightarrow> bool \<Rightarrow> 'g dice \<Rightarrow> (u8 \<times> 'g dice) option" where
  "consciousness_roll nx toughness d =
     Option.bind (d6 nx d) (\<lambda>(first, d).
     Option.bind (d6 nx d) (\<lambda>(second, d).
     if \<not> toughness then Some (first + second, d)
     else Option.bind (d6 nx d) (\<lambda>(third, d). Some (first + second + third - min (min first second) third, d))))"

text \<open>A full journal is a panic; the call does not return then, either.\<close>

definition generic_roll :: "('g \<Rightarrow> u32 \<times> 'g) \<Rightarrow> 'g dice \<Rightarrow> (u8 \<times> 'g dice) option" where
  "generic_roll nx d =
     Option.bind (two_d6 nx d) (\<lambda>(r, d).
       case stats_record (unat r) (generic_rolls d) of
         Inl _ \<Rightarrow> None
       | Inr counts \<Rightarrow> Some (r, d\<lparr>generic_rolls := counts\<rparr>))"

fun roll_many :: "('g \<Rightarrow> u32 \<times> 'g) \<Rightarrow> nat \<Rightarrow> 'g dice \<Rightarrow> (u8 list \<times> 'g dice) option" where
  "roll_many nx 0 d = Some ([], d)"
| "roll_many nx (Suc n) d =
     Option.bind (d6 nx d) (\<lambda>(r, d). map_option (\<lambda>(rs, d). (r # rs, d)) (roll_many nx n d))"

section \<open>Drawing\<close>

text \<open>The generator after a number of words.\<close>

fun drawn :: "('g \<Rightarrow> u32 \<times> 'g) \<Rightarrow> nat \<Rightarrow> 'g \<Rightarrow> 'g" where
  "drawn nx 0 g = g"
| "drawn nx (Suc n) g = drawn nx n (snd (nx g))"

definition word_at :: "('g \<Rightarrow> u32 \<times> 'g) \<Rightarrow> nat \<Rightarrow> 'g \<Rightarrow> u32" where
  "word_at nx n g = fst (nx (drawn nx n g))"

lemma die_loop_first:
  assumes "word_accepted sides (word_at nx n g)" and "\<forall>k<n. \<not> word_accepted sides (word_at nx k g)"
  shows "die_loop nx sides g = Some (word_face sides (word_at nx n g), drawn nx (Suc n) g)"
  using assms
proof (induction n arbitrary: g)
  case 0
  then show ?case by (subst die_loop.simps) (auto simp: word_at_def split: prod.split)
next
  case (Suc n)
  have "\<not> word_accepted sides (fst (nx g))" using Suc.prems(2) by (auto simp: word_at_def dest: spec [of _ 0])
  then have "die_loop nx sides g = die_loop nx sides (snd (nx g))"
    by (subst die_loop.simps) (auto split: prod.split)
  also have "\<dots> = Some (word_face sides (word_at nx n (snd (nx g))), drawn nx (Suc n) (snd (nx g)))"
    using Suc.prems by (intro Suc.IH) (auto simp: word_at_def dest: spec [of _ "Suc k" for k])
  finally show ?case by (simp add: word_at_def)
qed

lemma die_loop_Some:
  assumes "die_loop nx sides g = Some r"
  shows "\<exists>v. word_accepted sides v \<and> fst r = word_face sides v"
  by (rule die_loop.raw_induct [where P = "\<lambda>nx sides g r. \<exists>v. word_accepted sides v \<and> fst r = word_face sides v", OF _ assms])
    (auto split: prod.splits if_splits)

text \<open>
  Rolling a die returns whenever the stream ever yields an accepted word: it uses the first accepted word
  and leaves the generator right after it.\<close>
lemma die_returns:
  assumes "sides \<noteq> 0" and "word_accepted sides (word_at nx n (generator d))"
  shows "\<exists>k\<le>n. word_accepted sides (word_at nx k (generator d)) \<and> (\<forall>j<k. \<not> word_accepted sides (word_at nx j (generator d)))
    \<and> die nx sides d = Some (Inr (word_face sides (word_at nx k (generator d)), d\<lparr>generator := drawn nx (Suc k) (generator d)\<rparr>))"
proof -
  let ?ok = "\<lambda>k. word_accepted sides (word_at nx k (generator d))"
  define k where "k = (LEAST k. ?ok k)"
  have k: "k \<le> n" "?ok k" "\<forall>j<k. \<not> ?ok j"
    unfolding k_def using Least_le [of ?ok, OF assms(2)] LeastI [of ?ok, OF assms(2)] not_less_Least [of _ ?ok] by blast+
  then have "die nx sides d = Some (Inr (word_face sides (word_at nx k (generator d)), d\<lparr>generator := drawn nx (Suc k) (generator d)\<rparr>))"
    using assms(1) die_loop_first [OF k(2,3)] by (simp add: die_def)
  with k show ?thesis by blast
qed

section \<open>Faces\<close>

lemma unat_u16_less: "unat (s :: u16) < 65536"
proof -
  have "unat s < 2 ^ LENGTH(16)" by (rule unsigned_less)
  then show ?thesis by simp
qed

lemma unat_sides [simp]: "unat (ucast (s :: u16) :: u32) = unat s"
  using unat_u16_less [of s] by (simp add: unsigned_ucast_eq take_bit_nat_eq_self_iff)

lemma unat_max32: "unat (- 1 :: u32) = 2 ^ 32 - 1"
  by (simp add: unsigned_minus_1_eq_mask mask_eq_exp_minus_1)

lemma word_accepted_nat: "word_accepted sides v \<longleftrightarrow> unat v < unat sides * ((2 ^ 32 - 1) div unat sides)"
proof -
  have "(- 1) mod ucast sides \<le> (- 1 :: u32)" by (simp add: word_le_nat_alt unat_mod_distrib)
  then have "unat (- 1 - (- 1) mod ucast sides :: u32) = (2 ^ 32 - 1) - (2 ^ 32 - 1) mod unat sides"
    by (simp add: unat_sub unat_mod_distrib unat_max32)
  also have "\<dots> = unat sides * ((2 ^ 32 - 1) div unat sides)" by (simp only: minus_mod_eq_mult_div)
  finally show ?thesis by (simp add: word_accepted_def word_less_nat_alt)
qed

lemma word_face_nat:
  assumes "sides \<noteq> 0"
  shows "unat (word_face sides v) = unat v mod unat sides + 1"
proof -
  have s: "0 < unat sides" "unat sides < 65536" using assms unat_u16_less by (simp_all add: unat_gt_0)
  then have "unat (v mod ucast sides + 1 :: u32) = unat v mod unat sides + 1"
    using mod_less_divisor [OF s(1), of "unat v"] by (simp add: unat_word_ariths unat_mod_distrib)
  moreover have "unat v mod unat sides + 1 < 65536" using mod_less_divisor [OF s(1), of "unat v"] s by linarith
  ultimately show ?thesis by (simp add: word_face_def unsigned_ucast_eq take_bit_nat_eq_self_iff)
qed

lemma card_residue: "r < s \<Longrightarrow> card {n. n < s * q \<and> n mod s = r} = q" for s q r :: nat
proof -
  assume r: "r < s"
  have "{n. n < s * q \<and> n mod s = r} = (\<lambda>k. s * k + r) ` {..<q}"
  proof (intro set_eqI iffI)
    fix n
    assume n: "n \<in> {n. n < s * q \<and> n mod s = r}"
    then have "n = s * (n div s) + r" by auto
    moreover have "n div s < q" using n r by (simp add: less_mult_imp_div_less mult.commute)
    ultimately show "n \<in> (\<lambda>k. s * k + r) ` {..<q}" by blast
  next
    fix n
    assume "n \<in> (\<lambda>k. s * k + r) ` {..<q}"
    then obtain k where k: "n = s * k + r" "k < q" by auto
    then have "s * k + s \<le> s * q" by (metis Suc_leI mult_Suc_right mult_le_mono2 add.commute)
    then show "n \<in> {n. n < s * q \<and> n mod s = r}" using k r by simp
  qed
  moreover have "inj_on (\<lambda>k. s * k + r) {..<q}" using r by (auto intro: inj_onI)
  ultimately show ?thesis by (simp add: card_image)
qed

lemma card_words: "(\<And>n. P n \<Longrightarrow> n < 2 ^ 32) \<Longrightarrow> card {v :: u32. P (unat v)} = card {n. P n}"
proof -
  assume P: "\<And>n. P n \<Longrightarrow> n < 2 ^ 32"
  have "unat ` {v :: u32. P (unat v)} = {n. P n}"
  proof (intro set_eqI iffI)
    fix n
    assume "n \<in> {n. P n}"
    moreover from this have "unat (of_nat n :: u32) = n" using P by (simp add: unat_of_nat)
    ultimately show "n \<in> unat ` {v :: u32. P (unat v)}" by (metis (mono_tags) image_eqI mem_Collect_eq)
  qed auto
  moreover have "inj_on unat {v :: u32. P (unat v)}" by (rule inj_onI) (rule unsigned_word_eqI)
  ultimately show ?thesis by (metis card_image)
qed

text \<open>
  C37. A die is fair: for every number of faces, each face has exactly as many accepted words of the stream
  as every other, so the rejection leaves no modulo bias and the result never leaves its sixteen bits.\<close>
theorem die_is_fair:
  assumes "sides \<noteq> 0" and "1 \<le> f" and "f \<le> unat sides"
  shows "card {v. word_accepted sides v \<and> unat (word_face sides v) = f} = (2 ^ 32 - 1) div unat sides"
proof -
  define q where "q = ((2 ^ 32 - 1) :: nat) div unat sides"
  have le: "unat sides * q \<le> 2 ^ 32 - 1" unfolding q_def by (rule times_div_less_eq_dividend)
  have "{v. word_accepted sides v \<and> unat (word_face sides v) = f} = {v. unat v < unat sides * q \<and> unat v mod unat sides = f - 1}"
    using assms(2) by (auto simp: word_accepted_nat word_face_nat [OF assms(1)] q_def)
  moreover have "card {v :: u32. unat v < unat sides * q \<and> unat v mod unat sides = f - 1}
      = card {n. n < unat sides * q \<and> n mod unat sides = f - 1}"
    using le by (intro card_words) linarith
  moreover have "card {n. n < unat sides * q \<and> n mod unat sides = f - 1} = q"
    using assms(2,3) by (intro card_residue) simp
  ultimately show ?thesis by (simp only: q_def)
qed

theorem die_is_fair_witness: "card {v. word_accepted 6 v \<and> unat (word_face 6 v) = 6} = (2 ^ 32 - 1) div unat (6 :: u16)"
  using die_is_fair [of 6 6] by simp

section \<open>Sums of dice\<close>

lemma d6_range:
  assumes "d6 nx d = Some (r, d')"
  shows "1 \<le> unat r \<and> unat r \<le> 6 \<and> generic_rolls d' = generic_rolls d"
proof -
  obtain f g where f: "die_loop nx 6 (generator d) = Some (f, g)" "r = ucast f" "d' = d\<lparr>generator := g\<rparr>"
    using assms by (auto simp: d6_def die_def bind_eq_Some_conv)
  then obtain v where "f = word_face 6 v" using die_loop_Some by fastforce
  then have "unat f = unat v mod 6 + 1" using word_face_nat [of 6 v] by simp
  then have "1 \<le> unat f \<and> unat f \<le> 6" using mod_less_divisor [of 6 "unat v"] by linarith
  moreover from this have "unat r = unat f" by (simp add: f(2) unsigned_ucast_eq take_bit_nat_eq_self_iff)
  ultimately show ?thesis by (simp add: f(3))
qed

lemma two_d6_range:
  assumes "two_d6 nx d = Some (r, d')"
  shows "2 \<le> unat r \<and> unat r \<le> 12 \<and> generic_rolls d' = generic_rolls d"
proof -
  obtain a b e where a: "d6 nx d = Some (a, e)" and b: "d6 nx e = Some (b, d')" and r: "r = a + b"
    using assms by (auto simp: two_d6_def bind_eq_Some_conv)
  have "unat r = unat a + unat b" using d6_range [OF a] d6_range [OF b] by (simp add: r unat_word_ariths)
  then show ?thesis using d6_range [OF a] d6_range [OF b] by auto
qed

text \<open>A generic check never panics below a full journal, and it is counted once.\<close>

lemma stats_total_update: "i < length c \<Longrightarrow> stats_total (c[i := Suc (c ! i)]) = Suc (stats_total c)"
  by (simp add: stats_total_def sum_list_update)

lemma generic_roll_counted:
  assumes "two_d6 nx d = Some (r, d')" and "length (generic_rolls d) = 11" and "stats_total (generic_rolls d) < 2 ^ 64 - 1"
  shows "\<exists>e. generic_roll nx d = Some (r, e) \<and> generator e = generator d'
    \<and> stats_total (generic_rolls e) = stats_total (generic_rolls d) + 1"
  using two_d6_range [OF assms(1)] assms by (auto simp: generic_roll_def stats_record_def stats_total_update)

end
