(* ===== verification/Battle_Rules.thy ===== *)
theory Battle_Rules
  imports Battle_Dice Damage_Field "HOL-Library.Multiset"
begin

text \<open>
  Integer rules of combat: hit locations (\<open>src/btech/hit.rs\<close>), hardened and laser-reflective armor and
  structure (\<open>crates/unit-construction/src/technology.rs\<close>, \<open>src/btech/technology.rs\<close>), ammunition feeds
  (\<open>src/btech/ammunition_feed.rs\<close>, \<open>ammunition_preference.rs\<close>), the cluster table (\<open>src/btech/salvo.rs\<close>), heat
  sink cut-offs (\<open>src/btech/heat_cutoff.rs\<close>) and the turn clock (\<open>src/btech/turn_clock.rs\<close>). What a rule
  reads of a unit is a record; bounded integers are natural numbers, with saturation written out.
\<close>

section \<open>Hit locations\<close>

datatype hit_arc = FrontArc | RearArc | LeftArc | RightArc
datatype hit_table = WeaponTable | PunchTable | KickTable
datatype mech_chassis = Biped | Quad
datatype hit_error = InvalidHitRoll | InvalidClusterRoll | MissingClusterRow | InvalidCutoff | InvalidPhase

definition arc_vehicle_section :: "hit_arc \<Rightarrow> vehicle_section" where
  "arc_vehicle_section a = (case a of FrontArc \<Rightarrow> Front | RearArc \<Rightarrow> Rear | LeftArc \<Rightarrow> Left | RightArc \<Rightarrow> Right)"

definition damage_transfer :: "mech_section \<Rightarrow> mech_section option" where
  "damage_transfer s =
     (case s of
        LeftArm \<Rightarrow> Some LeftTorso | LeftLeg \<Rightarrow> Some LeftTorso
      | RightArm \<Rightarrow> Some RightTorso | RightLeg \<Rightarrow> Some RightTorso
      | LeftTorso \<Rightarrow> Some CenterTorso | RightTorso \<Rightarrow> Some CenterTorso
      | CenterTorso \<Rightarrow> None | Head \<Rightarrow> None)"

fun quad_row :: "hit_table \<Rightarrow> hit_arc \<Rightarrow> mech_section list" where
  "quad_row PunchTable FrontArc = [LeftArm, LeftTorso, CenterTorso, RightTorso, RightArm, Head]"
| "quad_row PunchTable RearArc = [LeftLeg, LeftTorso, CenterTorso, RightTorso, RightLeg, Head]"
| "quad_row PunchTable LeftArc = [LeftTorso, LeftTorso, CenterTorso, LeftArm, LeftLeg, Head]"
| "quad_row PunchTable RightArc = [RightTorso, RightTorso, CenterTorso, RightArm, RightLeg, Head]"
| "quad_row KickTable FrontArc = [RightArm, RightArm, RightArm, LeftArm, LeftArm, LeftArm]"
| "quad_row KickTable RearArc = [RightLeg, RightLeg, RightLeg, LeftLeg, LeftLeg, LeftLeg]"
| "quad_row KickTable LeftArc = [LeftArm, LeftArm, LeftArm, LeftLeg, LeftLeg, LeftLeg]"
| "quad_row KickTable RightArc = [RightArm, RightArm, RightArm, RightLeg, RightLeg, RightLeg]"
| "quad_row WeaponTable _ = []"

fun shared_row :: "hit_table \<Rightarrow> hit_arc \<Rightarrow> mech_section list" where
  "shared_row WeaponTable LeftArc =
     [LeftTorso, LeftLeg, LeftArm, LeftArm, LeftLeg, LeftTorso, CenterTorso, RightTorso, RightArm, RightLeg, Head]"
| "shared_row WeaponTable RightArc =
     [RightTorso, RightLeg, RightArm, RightArm, RightLeg, RightTorso, CenterTorso, LeftTorso, LeftArm, LeftLeg, Head]"
| "shared_row WeaponTable _ =
     [CenterTorso, RightArm, RightArm, RightLeg, RightTorso, CenterTorso, LeftTorso, LeftLeg, LeftArm, LeftArm, Head]"
| "shared_row PunchTable LeftArc = [LeftTorso, LeftTorso, CenterTorso, LeftArm, LeftArm, Head]"
| "shared_row PunchTable RightArc = [RightTorso, RightTorso, CenterTorso, RightArm, RightArm, Head]"
| "shared_row PunchTable _ = [LeftArm, LeftTorso, CenterTorso, RightTorso, RightArm, Head]"
| "shared_row KickTable LeftArc = replicate 6 LeftLeg"
| "shared_row KickTable RightArc = replicate 6 RightLeg"
| "shared_row KickTable _ = [RightLeg, RightLeg, RightLeg, LeftLeg, LeftLeg, LeftLeg]"

definition hit_row :: "hit_table \<Rightarrow> mech_chassis \<Rightarrow> hit_arc \<Rightarrow> mech_section list" where
  "hit_row t chassis arc = (if chassis = Quad \<and> t \<noteq> WeaponTable then quad_row t arc else shared_row t arc)"

definition hit_location :: "hit_table \<Rightarrow> mech_chassis \<Rightarrow> hit_arc \<Rightarrow> nat \<Rightarrow> (hit_error, mech_section) result" where
  "hit_location t chassis arc roll =
     (let (low, high) = (if t = WeaponTable then (2, 12) else (1, 6))
      in ensure_then (low \<le> roll \<and> roll \<le> high) InvalidHitRoll
           (Inr (hit_row t chassis arc ! (roll - low))))"

text \<open>What the rules read of a target.\<close>

record hit_target =
  tgt_chassis :: mech_chassis
  critical_proof :: bool
  rerolls_head :: bool
  combat_safe :: bool
  is_prone :: bool

record hit =
  hit_section :: mech_section
  rear_armor :: bool
  through_armor_critical :: bool

definition safe_hit :: hit where
  "safe_hit = \<lparr>hit_section = LeftArm, rear_armor = False, through_armor_critical = False\<rparr>"

partial_function (option) reroll_head ::
  "('g \<Rightarrow> u32 \<times> 'g) \<Rightarrow> hit_target \<Rightarrow> hit_arc \<Rightarrow> nat \<Rightarrow> mech_section \<Rightarrow> 'g dice
   \<Rightarrow> ((hit_error, nat \<times> mech_section) result \<times> 'g dice) option" where
  "reroll_head nx t arc roll section d =
     (if section = Head \<and> rerolls_head t
      then Option.bind (generic_roll nx d) (\<lambda>(r, d).
             case hit_location WeaponTable (tgt_chassis t) arc (unat r) of
               Inl e \<Rightarrow> Some (Inl e, d)
             | Inr s \<Rightarrow> reroll_head nx t arc (unat r) s d)
      else Some (Inr (roll, section), d))"

definition resolve_hit ::
  "('g \<Rightarrow> u32 \<times> 'g) \<Rightarrow> hit_target \<Rightarrow> hit_arc \<Rightarrow> nat \<Rightarrow> 'g dice \<Rightarrow> ((hit_error, hit) result \<times> 'g dice) option" where
  "resolve_hit nx t arc roll d =
     (if \<not> (2 \<le> roll \<and> roll \<le> 12) then Some (Inl InvalidHitRoll, d)
      else
        Option.bind (if critical_proof t then map_option (\<lambda>(r, d). (unat r, d)) (generic_roll nx d) else Some (roll, d)) (\<lambda>(roll, d).
        case hit_location WeaponTable (tgt_chassis t) arc roll of
          Inl e \<Rightarrow> Some (Inl e, d)
        | Inr s \<Rightarrow>
            map_option (\<lambda>(r, d).
              (case r of
                 Inl e \<Rightarrow> Inl e
               | Inr (roll, s) \<Rightarrow>
                   Inr (if combat_safe t then safe_hit
                        else \<lparr>hit_section = s, rear_armor = (arc = RearArc),
                              through_armor_critical = (roll = 2 \<and> \<not> critical_proof t)\<rparr>), d))
              (reroll_head nx t arc roll s d)))"

partial_function (option) d6_location ::
  "('g \<Rightarrow> u32 \<times> 'g) \<Rightarrow> hit_target \<Rightarrow> hit_table \<Rightarrow> hit_arc \<Rightarrow> 'g dice \<Rightarrow> ((hit_error, mech_section) result \<times> 'g dice) option" where
  "d6_location nx t table arc d =
     Option.bind (d6 nx d) (\<lambda>(r, d).
       case hit_location table (tgt_chassis t) arc (unat r) of
         Inl e \<Rightarrow> Some (Inl e, d)
       | Inr s \<Rightarrow> if s \<noteq> Head \<or> \<not> rerolls_head t then Some (Inr s, d) else d6_location nx t table arc d)"

definition special_row :: "bool \<Rightarrow> mech_chassis \<Rightarrow> mech_section list" where
  "special_row overhead chassis =
     (if overhead then [LeftArm, LeftTorso, CenterTorso, RightTorso, RightArm, Head]
      else if chassis = Quad then [LeftArm, LeftLeg, LeftTorso, RightTorso, RightLeg, RightArm]
      else [LeftLeg, LeftLeg, LeftTorso, RightTorso, RightLeg, RightLeg])"

partial_function (option) special_loop ::
  "('g \<Rightarrow> u32 \<times> 'g) \<Rightarrow> hit_target \<Rightarrow> mech_section list \<Rightarrow> hit_arc \<Rightarrow> 'g dice \<Rightarrow> (hit \<times> 'g dice) option" where
  "special_loop nx t row arc d =
     Option.bind (d6 nx d) (\<lambda>(r, d).
       if row ! (unat r - 1) = Head \<and> rerolls_head t then special_loop nx t row arc d
       else Some (\<lparr>hit_section = row ! (unat r - 1), rear_armor = (arc = RearArc), through_armor_critical = False\<rparr>, d))"

definition special_hit ::
  "('g \<Rightarrow> u32 \<times> 'g) \<Rightarrow> hit_target \<Rightarrow> bool \<Rightarrow> hit_arc \<Rightarrow> 'g dice \<Rightarrow> ((hit_error, hit) result \<times> 'g dice) option" where
  "special_hit nx t overhead arc d =
     (if is_prone t
      then Option.bind (generic_roll nx d) (\<lambda>(r, d). resolve_hit nx t (if arc = RearArc then RearArc else FrontArc) (unat r) d)
      else if combat_safe t then Some (Inr safe_hit, d)
      else map_option (\<lambda>(h, d). (Inr h, d)) (special_loop nx t (special_row overhead (tgt_chassis t)) arc d))"

section \<open>Armor\<close>

datatype damage_class = OrdinaryDamage | EnergyDamage | AreaEffectDamage | ImpactDamage | ArmorPiercingDamage

record hardened_result =
  hard_removed :: nat
  hard_overflow :: nat
  hard_dented :: bool

definition hardened_hit :: "nat \<Rightarrow> nat \<Rightarrow> bool \<Rightarrow> hardened_result" where
  "hardened_hit amount armor dented =
     (let dented = (dented \<and> 0 < armor); capacity = armor * 2 - (if dented then 1 else 0)
      in if capacity \<le> amount
         then \<lparr>hard_removed = armor, hard_overflow = amount - capacity, hard_dented = False\<rparr>
         else (let marked = amount + (if dented then 1 else 0)
               in \<lparr>hard_removed = marked div 2, hard_overflow = 0, hard_dented = (marked mod 2 = 1)\<rparr>))"

definition reflective_hit :: "damage_class \<Rightarrow> nat \<Rightarrow> nat \<Rightarrow> (nat \<times> nat) option" where
  "reflective_hit class amount armor =
     (case class of
        OrdinaryDamage \<Rightarrow> None
      | ArmorPiercingDamage \<Rightarrow> None
      | EnergyDamage \<Rightarrow> Some (min (max (amount div 2) (min amount 1)) armor, amount - armor * 2)
      | _ \<Rightarrow>
          (let doubled = min (amount * 2) (2 ^ 32 - 1)
           in if doubled \<le> armor then Some (doubled, 0) else Some (armor, amount - (armor + 1) div 2)))"

definition structure_damage :: "bool \<Rightarrow> bool \<Rightarrow> nat \<Rightarrow> nat" where
  "structure_damage reinforced composite amount =
     (if reinforced then (amount + 1) div 2 else if composite then min (amount * 2) (2 ^ 16 - 1) else amount)"

record armor_facing =
  facing_section :: mech_section
  facing_rear :: bool

definition facing_struck :: "mech_section \<Rightarrow> bool \<Rightarrow> armor_facing" where
  "facing_struck s rear = \<lparr>facing_section = s, facing_rear = (rear \<and> s \<in> {LeftTorso, CenterTorso, RightTorso})\<rparr>"

record armored =
  hardened_armor :: bool
  reflective_armor :: bool
  arm_sections :: "(mech_section, section_state) btree"
  hardened_dents :: "armor_facing set"

record armor_hit =
  hit_removed :: nat
  hit_overflow :: nat
  hit_dented :: "bool option"

text \<open>\<open>Mech::armor_hit\<close>; a missing section is a panic, the outer \<open>None\<close>.\<close>

definition mech_armor_hit :: "armored \<Rightarrow> mech_section \<Rightarrow> bool \<Rightarrow> nat \<Rightarrow> damage_class \<Rightarrow> armor_hit option option" where
  "mech_armor_hit m s rear amount class =
     (let facing = facing_struck s rear in
      case bt_get (arm_sections m) s of
        None \<Rightarrow> None
      | Some st \<Rightarrow>
          let armor = (if facing_rear facing then cur_rear st else cur_armor st) in
          Some (if hardened_armor m
                then if class = ArmorPiercingDamage then None
                     else (let h = hardened_hit amount armor (facing \<in> hardened_dents m)
                           in Some \<lparr>hit_removed = hard_removed h, hit_overflow = min (hard_overflow h) (2 ^ 16 - 1),
                                    hit_dented = Some (hard_dented h)\<rparr>)
                else if \<not> reflective_armor m then None
                else map_option (\<lambda>(r, ov). \<lparr>hit_removed = r, hit_overflow = min ov (2 ^ 16 - 1), hit_dented = None\<rparr>)
                       (reflective_hit class amount armor)))"

definition mark_hardened_dent :: "armor_facing \<Rightarrow> bool \<Rightarrow> armored \<Rightarrow> armored" where
  "mark_hardened_dent facing dented m =
     m\<lparr>hardened_dents := (if dented then insert facing (hardened_dents m) else hardened_dents m - {facing})\<rparr>"

section \<open>Ammunition\<close>

record ammunition_draw =
  draw_bin :: nat
  draw_rounds :: nat

definition feed_priority :: "'s option \<Rightarrow> 's \<Rightarrow> 's \<Rightarrow> nat" where
  "feed_priority preferred mount bin = (if preferred = Some bin then 0 else if mount = bin then 1 else 2)"

fun take_draws :: "(nat \<times> 'k \<times> nat) list \<Rightarrow> nat \<Rightarrow> ammunition_draw list" where
  "take_draws [] remaining = []"
| "take_draws ((bin, _, available) # bins) remaining =
     (if remaining = 0 then []
      else (let rounds = min available remaining
            in \<lparr>draw_bin = bin, draw_rounds = rounds\<rparr> # take_draws bins (remaining - rounds)))"

definition plan_draws :: "(nat \<times> 'k::linorder \<times> nat) list \<Rightarrow> nat \<Rightarrow> ammunition_draw list" where
  "plan_draws bins wanted = take_draws (sort_key (\<lambda>b. fst (snd b)) bins) wanted"

text \<open>
  What a feed reads of a unit and its loadout: the weapon mounts with their critical slots, the bins, the live
  rounds of each bin, the selected mode and preferred section of each weapon, and the slots that cannot be used.
\<close>

datatype feed_error = WeaponIndex

record ('w, 'm, 's) feed_bin =
  bin_weapon :: 'w
  bin_mode :: 'm
  bin_location :: "'s \<times> nat"

record ('w, 'm, 's) feed_unit =
  feed_mounts :: "('w \<times> ('s \<times> nat) list) list"
  feed_bins :: "('w, 'm, 's) feed_bin list"
  feed_ammunition :: "nat list"
  feed_modes :: "nat \<Rightarrow> 'm option"
  feed_sections :: "nat \<Rightarrow> 's option"
  feed_unavailable :: "'s \<times> nat \<Rightarrow> bool"

text \<open>One step of the filter and projection; an index out of range is a panic, \<open>None\<close>.\<close>

definition feed_entry ::
  "('w, 'm, 's) feed_unit \<Rightarrow> 'w \<times> ('s \<times> nat) list \<Rightarrow> 'm \<Rightarrow> 's option \<Rightarrow> nat \<times> ('w, 'm, 's) feed_bin
   \<Rightarrow> (nat \<times> (nat \<times> 's \<times> nat) \<times> nat) list option" where
  "feed_entry u mount mode preferred b =
     (case b of (i, bin) \<Rightarrow>
       if bin_weapon bin = fst mount \<and> bin_mode bin = mode
       then if length (feed_ammunition u) \<le> i then None
            else if 0 < feed_ammunition u ! i \<and> \<not> feed_unavailable u (bin_location bin)
            then (case snd mount of
                    [] \<Rightarrow> None
                  | c # _ \<Rightarrow> Some [(i, (feed_priority preferred (fst c) (fst (bin_location bin)), bin_location bin),
                                   feed_ammunition u ! i)])
            else Some []
       else Some [])"

definition ammunition_feed ::
  "'m \<Rightarrow> ('w, 'm, 's::linorder) feed_unit \<Rightarrow> nat \<Rightarrow> nat \<Rightarrow> (feed_error, ammunition_draw list) result option" where
  "ammunition_feed default_mode u index wanted =
     (if length (feed_mounts u) \<le> index then Some (Inl WeaponIndex)
      else (let mount = feed_mounts u ! index;
                mode = (case feed_modes u index of None \<Rightarrow> default_mode | Some m \<Rightarrow> m)
            in map_option (\<lambda>bins. Inr (plan_draws (concat bins) wanted))
                 (those (map (feed_entry u mount mode (feed_sections u index)) (enumerate 0 (feed_bins u))))))"

section \<open>Clusters, heat sinks and turns\<close>

definition CLUSTER_HITS :: "(nat \<times> nat list) list" where
  "CLUSTER_HITS =
     [(2, [1, 1, 1, 1, 1, 1, 2, 2, 2, 2, 2]),
      (3, [1, 1, 1, 2, 2, 2, 2, 2, 3, 3, 3]),
      (4, [1, 2, 2, 2, 2, 3, 3, 3, 3, 4, 4]),
      (5, [1, 2, 2, 3, 3, 3, 3, 4, 4, 5, 5]),
      (6, [2, 2, 3, 3, 4, 4, 4, 5, 5, 6, 6]),
      (7, [2, 2, 3, 4, 4, 4, 4, 6, 6, 7, 7]),
      (8, [3, 3, 4, 4, 5, 5, 5, 6, 6, 8, 8]),
      (9, [3, 3, 4, 5, 5, 5, 5, 7, 7, 9, 9]),
      (10, [3, 3, 4, 6, 6, 6, 6, 8, 8, 10, 10]),
      (11, [4, 4, 5, 7, 7, 7, 7, 9, 9, 11, 11]),
      (12, [4, 4, 5, 8, 8, 8, 8, 10, 10, 12, 12]),
      (13, [4, 4, 5, 8, 8, 8, 8, 11, 11, 13, 13]),
      (14, [5, 5, 6, 9, 9, 9, 9, 11, 11, 14, 14]),
      (15, [5, 5, 6, 9, 9, 9, 9, 12, 12, 15, 15]),
      (16, [5, 5, 7, 10, 10, 10, 10, 13, 13, 16, 16]),
      (17, [5, 5, 7, 10, 10, 10, 10, 14, 14, 17, 17]),
      (18, [6, 6, 8, 11, 11, 11, 11, 14, 14, 18, 18]),
      (19, [6, 6, 8, 11, 11, 11, 11, 15, 15, 19, 19]),
      (20, [6, 6, 9, 12, 12, 12, 12, 16, 16, 20, 20]),
      (21, [7, 7, 9, 13, 13, 13, 13, 17, 17, 21, 21]),
      (22, [7, 7, 9, 14, 14, 14, 14, 18, 18, 22, 22]),
      (23, [7, 7, 10, 15, 15, 15, 15, 19, 19, 23, 23]),
      (24, [8, 8, 10, 16, 16, 16, 16, 20, 20, 24, 24]),
      (25, [8, 8, 10, 16, 16, 16, 16, 21, 21, 25, 25]),
      (26, [9, 9, 11, 17, 17, 17, 17, 21, 21, 26, 26]),
      (27, [9, 9, 11, 17, 17, 17, 17, 22, 22, 27, 27]),
      (28, [9, 9, 11, 17, 17, 17, 17, 23, 23, 28, 28]),
      (29, [10, 10, 12, 18, 18, 18, 18, 23, 23, 29, 29]),
      (30, [10, 10, 12, 18, 18, 18, 18, 24, 24, 30, 30]),
      (40, [12, 12, 18, 24, 24, 24, 24, 32, 32, 40, 40])]"

definition cluster_hits :: "nat \<Rightarrow> nat \<Rightarrow> (hit_error, nat) result" where
  "cluster_hits rack roll =
     ensure_then (2 \<le> roll \<and> roll \<le> 12) InvalidClusterRoll
       (case List.find (\<lambda>(n, _). n = rack) CLUSTER_HITS of
          None \<Rightarrow> Inl MissingClusterRow
        | Some (_, row) \<Rightarrow> Inr (row ! (roll - 2)))"

record heat_cutoff =
  cut_requested :: nat
  cut_shut_off :: nat

definition cutoff_validate :: "nat \<Rightarrow> heat_cutoff \<Rightarrow> (hit_error, unit) result" where
  "cutoff_validate installed c = ensure (cut_requested c \<le> installed \<and> cut_shut_off c \<le> installed) InvalidCutoff"

definition cutoff_pending :: "heat_cutoff \<Rightarrow> bool" where
  "cutoff_pending c \<longleftrightarrow> cut_requested c \<noteq> cut_shut_off c"

definition cutoff_apply :: "heat_cutoff \<Rightarrow> heat_cutoff" where
  "cutoff_apply c = c\<lparr>cut_shut_off := cut_requested c\<rparr>"

definition cutoff_clamp :: "nat \<Rightarrow> heat_cutoff \<Rightarrow> heat_cutoff" where
  "cutoff_clamp working c = \<lparr>cut_requested = min (cut_requested c) working, cut_shut_off = min (cut_shut_off c) working\<rparr>"

definition disabled_points :: "nat \<Rightarrow> nat \<Rightarrow> heat_cutoff \<Rightarrow> nat" where
  "disabled_points each capacity c = min (min (cut_shut_off c * each) (2 ^ 16 - 1)) capacity"

definition turn_try_from :: "nat \<Rightarrow> (hit_error, nat) result" where
  "turn_try_from phase = ensure_then (phase < 30) InvalidPhase (Inr phase)"

definition turn_advance :: "nat \<Rightarrow> nat" where "turn_advance phase = (phase + 1) mod 30"
definition starts_turn :: "nat \<Rightarrow> bool" where "starts_turn phase \<longleftrightarrow> phase = 0"
definition seconds_to_end :: "nat \<Rightarrow> nat" where "seconds_to_end phase = 30 - phase"

section \<open>Hardened armor\<close>

text \<open>Every damage point marks half a point of armor or passes through, and none passes through remaining armor.\<close>

lemma hardened_hit_conserves:
  "amount + of_bool (dented \<and> 0 < armor)
     = 2 * hard_removed (hardened_hit amount armor dented) + of_bool (hard_dented (hardened_hit amount armor dented))
       + hard_overflow (hardened_hit amount armor dented)"
  by (auto simp: hardened_hit_def Let_def) presburger+

lemma hardened_hit_bounded: "hard_removed (hardened_hit amount armor dented) \<le> armor"
  by (auto simp: hardened_hit_def Let_def)

lemma hardened_hit_spent:
  "hard_overflow (hardened_hit amount armor dented) = 0 \<or> hard_removed (hardened_hit amount armor dented) = armor"
  by (auto simp: hardened_hit_def Let_def)

lemma hardened_hit_dented: "hard_dented (hardened_hit amount armor dented) \<Longrightarrow> hard_removed (hardened_hit amount armor dented) < armor"
  by (auto simp: hardened_hit_def Let_def split: if_splits)

text \<open>These laws have one solution.\<close>

lemma hardened_hit_unique:
  assumes "amount + of_bool (dented \<and> 0 < armor) = 2 * hard_removed h + of_bool (hard_dented h) + hard_overflow h"
    and "hard_removed h \<le> armor" and "hard_overflow h = 0 \<or> hard_removed h = armor"
    and "hard_dented h \<Longrightarrow> hard_removed h < armor"
  shows "hardened_hit amount armor dented = h"
  using assms by (cases h; cases "hard_dented h") (auto simp: hardened_hit_def Let_def)

text \<open>
  Hardened armor keeps exact account of half points: striking a facing twice, with the armor and the mark
  the first hit leaves, removes the same armor, passes the same damage through and leaves the same mark as one
  hit of both amounts; each hit spends its damage exactly, two for a destroyed point and one for a mark.\<close>
lemma hardened_hits_compose:
  "let first = hardened_hit a armor dented;
       second = hardened_hit b (armor - hard_removed first) (hard_dented first)
   in hardened_hit (a + b) armor dented
        = \<lparr>hard_removed = hard_removed first + hard_removed second,
           hard_overflow = hard_overflow first + hard_overflow second, hard_dented = hard_dented second\<rparr>
    \<and> a + of_bool (dented \<and> 0 < armor) = 2 * hard_removed first + of_bool (hard_dented first) + hard_overflow first"
proof -
  define f where "f = hardened_hit a armor dented"
  define s where "s = hardened_hit b (armor - hard_removed f) (hard_dented f)"
  note laws = hardened_hit_conserves hardened_hit_bounded hardened_hit_spent hardened_hit_dented
  have f: "a + of_bool (dented \<and> 0 < armor) = 2 * hard_removed f + of_bool (hard_dented f) + hard_overflow f"
    "hard_removed f \<le> armor" "hard_overflow f = 0 \<or> hard_removed f = armor" "hard_dented f \<Longrightarrow> hard_removed f < armor"
    unfolding f_def by (rule laws | assumption)+
  have s: "b + of_bool (hard_dented f \<and> 0 < armor - hard_removed f) = 2 * hard_removed s + of_bool (hard_dented s) + hard_overflow s"
    "hard_removed s \<le> armor - hard_removed f" "hard_overflow s = 0 \<or> hard_removed s = armor - hard_removed f"
    "hard_dented s \<Longrightarrow> hard_removed s < armor - hard_removed f"
    unfolding s_def by (rule laws | assumption)+
  have "hardened_hit (a + b) armor dented
      = \<lparr>hard_removed = hard_removed f + hard_removed s, hard_overflow = hard_overflow f + hard_overflow s, hard_dented = hard_dented s\<rparr>"
    using f s by (intro hardened_hit_unique) (cases "hard_dented f"; auto)+
  then show ?thesis using f(1) by (simp add: Let_def f_def s_def)
qed

section \<open>Feeds\<close>

abbreviation held :: "(nat \<times> 'k \<times> nat) list \<Rightarrow> nat" where
  "held bins \<equiv> (\<Sum>b\<leftarrow>bins. snd (snd b))"

lemma take_draws_sum: "(\<Sum>d\<leftarrow>take_draws bins n. draw_rounds d) = min n (held bins)"
  by (induction bins n rule: take_draws.induct) (auto simp: Let_def min_def)

lemma take_draws_nth:
  "i < length (take_draws bins n) \<Longrightarrow> i < length bins \<and> held (take i bins) < n
    \<and> take_draws bins n ! i = \<lparr>draw_bin = fst (bins ! i), draw_rounds = min (snd (snd (bins ! i))) (n - held (take i bins))\<rparr>"
proof (induction bins n arbitrary: i rule: take_draws.induct)
  case (2 bin k available bins remaining)
  then show ?case by (cases i) (force simp: Let_def min_def split: if_splits)+
qed simp

lemma take_draws_length: "i < length bins \<Longrightarrow> held (take i bins) < n \<Longrightarrow> i < length (take_draws bins n)"
proof (induction bins n arbitrary: i rule: take_draws.induct)
  case (2 bin k available bins remaining)
  then show ?case by (cases i) (force simp: Let_def min_def split: if_splits)+
qed simp

text \<open>The bins a weapon may draw from, and their order.\<close>

definition eligible_bin :: "'m \<Rightarrow> ('w, 'm, 's) feed_unit \<Rightarrow> nat \<Rightarrow> nat \<Rightarrow> bool" where
  "eligible_bin default_mode u index i \<longleftrightarrow>
     i < length (feed_bins u) \<and> bin_weapon (feed_bins u ! i) = fst (feed_mounts u ! index)
     \<and> bin_mode (feed_bins u ! i) = (case feed_modes u index of None \<Rightarrow> default_mode | Some m \<Rightarrow> m)
     \<and> 0 < feed_ammunition u ! i \<and> \<not> feed_unavailable u (bin_location (feed_bins u ! i))"

definition bin_rank :: "('w, 'm, 's) feed_unit \<Rightarrow> nat \<Rightarrow> nat \<Rightarrow> nat \<times> 's \<times> nat" where
  "bin_rank u index i =
     (feed_priority (feed_sections u index) (fst (hd (snd (feed_mounts u ! index)))) (fst (bin_location (feed_bins u ! i))),
      bin_location (feed_bins u ! i))"

lemma concat_if: "concat (map (\<lambda>x. if P x then [h x] else []) xs) = map h (filter P xs)"
  by (induction xs) auto

lemma enumerate_nth: "enumerate 0 xs = map (\<lambda>i. (i, xs ! i)) [0..<length xs]"
  by (rule nth_equalityI) (auto simp: nth_enumerate_eq)

definition feed_entries :: "'m \<Rightarrow> ('w, 'm, 's) feed_unit \<Rightarrow> nat \<Rightarrow> (nat \<times> (nat \<times> 's \<times> nat) \<times> nat) list" where
  "feed_entries default_mode u index =
     map (\<lambda>i. (i, bin_rank u index i, feed_ammunition u ! i))
       (filter (eligible_bin default_mode u index) [0..<length (feed_bins u)])"

lemma ammunition_feed_entries:
  assumes "length (feed_ammunition u) = length (feed_bins u)" and "index < length (feed_mounts u)"
    and "snd (feed_mounts u ! index) \<noteq> []"
  shows "ammunition_feed default_mode u index wanted = Some (Inr (plan_draws (feed_entries default_mode u index) wanted))"
proof -
  let ?h = "\<lambda>i. (i, bin_rank u index i, feed_ammunition u ! i)"
  have "feed_entry u (feed_mounts u ! index) (case feed_modes u index of None \<Rightarrow> default_mode | Some m \<Rightarrow> m)
      (feed_sections u index) (i, feed_bins u ! i) = Some (if eligible_bin default_mode u index i then [?h i] else [])"
    if "i < length (feed_bins u)" for i
    using that assms by (auto simp: feed_entry_def eligible_bin_def bin_rank_def split: list.split)
  then have "those (map (feed_entry u (feed_mounts u ! index) (case feed_modes u index of None \<Rightarrow> default_mode | Some m \<Rightarrow> m)
      (feed_sections u index)) (enumerate 0 (feed_bins u)))
    = Some (map (\<lambda>i. if eligible_bin default_mode u index i then [?h i] else []) [0..<length (feed_bins u)])"
    unfolding enumerate_nth map_map by (intro those_map_Some) simp
  then show ?thesis using assms(2) by (simp add: ammunition_feed_def Let_def feed_entries_def concat_if)
qed

text \<open>What any plan over distinct, non-empty bins does.\<close>

lemma plan_draws_total: "(\<Sum>d\<leftarrow>plan_draws bins n. draw_rounds d) = min n (held bins)"
proof -
  have "held (sort_key (\<lambda>b. fst (snd b)) bins) = held bins"
    by (simp flip: sum_mset_sum_list)
  then show ?thesis by (simp add: plan_draws_def take_draws_sum)
qed

lemma map_draw_bin: "map draw_bin (take_draws bins n) = take (length (take_draws bins n)) (map fst bins)"
  by (induction bins n rule: take_draws.induct) (auto simp: Let_def)

lemma take_draws_drained:
  "Suc i < length (take_draws bins n) \<Longrightarrow> draw_rounds (take_draws bins n ! i) = snd (snd (bins ! i))"
  using take_draws_nth [of i bins n] take_draws_nth [of "Suc i" bins n] by (auto simp: take_Suc_conv_app_nth min_def)

lemma take_draws_bounded:
  assumes "d \<in> set (take_draws bins n)" and "\<forall>b\<in>set bins. 0 < snd (snd b)"
  shows "\<exists>b\<in>set bins. draw_bin d = fst b \<and> 0 < draw_rounds d \<and> draw_rounds d \<le> snd (snd b)"
proof -
  obtain i where "i < length (take_draws bins n)" "d = take_draws bins n ! i" using assms(1) by (metis in_set_conv_nth)
  then show ?thesis using take_draws_nth [of i bins n] assms(2) by (intro bexI [of _ "bins ! i"]) auto
qed

lemma feed_entries_held:
  "held (feed_entries default_mode u index)
     = (\<Sum>i | i < length (feed_bins u) \<and> eligible_bin default_mode u index i. feed_ammunition u ! i)"
proof -
  let ?is = "filter (eligible_bin default_mode u index) [0..<length (feed_bins u)]"
  have "(\<Sum>i\<leftarrow>?is. feed_ammunition u ! i) = (\<Sum>i\<in>set ?is. feed_ammunition u ! i)" by (rule sum.distinct_set_conv_list [symmetric]) simp
  then show ?thesis by (simp add: feed_entries_def comp_def)
qed

lemma feed_entries_iff:
  "b \<in> set (feed_entries default_mode u index) \<longleftrightarrow>
     eligible_bin default_mode u index (fst b) \<and> b = (fst b, bin_rank u index (fst b), feed_ammunition u ! fst b)"
  by (cases b) (auto simp: feed_entries_def eligible_bin_def)

lemma sorted_take_rank:
  assumes "\<forall>b\<in>set bins. fst (snd b) = rank (fst b)"
  shows "sorted (map (\<lambda>d. rank (draw_bin d)) (plan_draws bins n))"
proof -
  let ?order = "sort_key (\<lambda>b. fst (snd b)) bins"
  have "map (\<lambda>d. rank (draw_bin d)) (plan_draws bins n) = take (length (plan_draws bins n)) (map (\<lambda>b. fst (snd b)) ?order)"
    using arg_cong [OF map_draw_bin, of "map rank" ?order n] assms by (fastforce simp: plan_draws_def comp_def take_map dest!: in_set_takeD)
  then show ?thesis by (simp add: sorted_wrt_take)
qed

lemma plan_draws_preferred:
  assumes "d \<in> set (plan_draws bins n)" and "b \<in> set bins" and "\<forall>b\<in>set bins. fst (snd b) = rank (fst b)"
    and "rank (fst b) < rank (draw_bin d)"
  shows "\<lparr>draw_bin = fst b, draw_rounds = snd (snd b)\<rparr> \<in> set (plan_draws bins n)"
proof -
  let ?order = "sort_key (\<lambda>b. fst (snd b)) bins"
  obtain q where q: "q < length (take_draws ?order n)" "d = take_draws ?order n ! q"
    using assms(1) unfolding plan_draws_def by (metis in_set_conv_nth)
  obtain p where p: "p < length ?order" "b = ?order ! p" using assms(2) by (metis in_set_conv_nth set_sort)
  have keys: "i < length ?order \<Longrightarrow> fst (snd (?order ! i)) = rank (fst (?order ! i))" for i
    using assms(3) nth_mem [of i ?order] by simp
  have "p < q"
  proof (rule ccontr)
    assume "\<not> p < q"
    then have "map (\<lambda>b. fst (snd b)) ?order ! q \<le> map (\<lambda>b. fst (snd b)) ?order ! p"
      using p(1) by (intro sorted_nth_mono) simp_all
    then show False using assms(4) take_draws_nth [OF q(1)] p keys q(2) by simp
  qed
  then have "take_draws ?order n ! p = \<lparr>draw_bin = fst b, draw_rounds = snd (snd b)\<rparr>"
    using q(1) p(2) take_draws_nth [of p ?order n] take_draws_drained [of p ?order n] by simp
  then show ?thesis using \<open>p < q\<close> q(1) nth_mem [of p "take_draws ?order n"] by (simp add: plan_draws_def)
qed

lemma plan_draws_distinct: "distinct (map fst bins) \<Longrightarrow> distinct (map draw_bin (plan_draws bins n))"
proof -
  assume "distinct (map fst bins)"
  moreover have "mset (map fst (sort_key (\<lambda>b. fst (snd b)) bins)) = mset (map fst bins)" by simp
  ultimately have "distinct (map fst (sort_key (\<lambda>b. fst (snd b)) bins))" by (metis mset_eq_imp_distinct_iff)
  then show ?thesis by (simp add: plan_draws_def map_draw_bin)
qed

text \<open>
  C38. A weapon's ammunition feed draws exactly what it should: on a unit whose ammunition counts match its bins,
  it returns a plan that draws once from each chosen bin, from eligible bins only and never more than they hold,
  as much as is wanted or all there is, in order of preference, and empties every preferred bin before the next.\<close>
theorem feed_plan_exact:
  assumes "length (feed_ammunition u) = length (feed_bins u)" and "index < length (feed_mounts u)"
    and "snd (feed_mounts u ! index) \<noteq> []"
  shows "\<exists>plan. ammunition_feed default_mode u index wanted = Some (Inr plan)
    \<and> distinct (map draw_bin plan)
    \<and> (\<forall>d\<in>set plan. eligible_bin default_mode u index (draw_bin d)
        \<and> 0 < draw_rounds d \<and> draw_rounds d \<le> feed_ammunition u ! draw_bin d)
    \<and> (\<Sum>d\<leftarrow>plan. draw_rounds d)
        = min wanted (\<Sum>i | i < length (feed_bins u) \<and> eligible_bin default_mode u index i. feed_ammunition u ! i)
    \<and> sorted (map (\<lambda>d. bin_rank u index (draw_bin d)) plan)
    \<and> (\<forall>d\<in>set plan. \<forall>i. eligible_bin default_mode u index i \<and> bin_rank u index i < bin_rank u index (draw_bin d)
        \<longrightarrow> \<lparr>draw_bin = i, draw_rounds = feed_ammunition u ! i\<rparr> \<in> set plan)"
proof -
  let ?bins = "feed_entries default_mode u index" and ?plan = "plan_draws (feed_entries default_mode u index) wanted"
  have rank: "\<forall>b\<in>set ?bins. fst (snd b) = bin_rank u index (fst b)" by (auto simp: feed_entries_def)
  have "\<forall>b\<in>set (sort_key (\<lambda>b. fst (snd b)) ?bins). 0 < snd (snd b)" by (auto simp: feed_entries_def eligible_bin_def)
  then have "\<forall>d\<in>set ?plan. eligible_bin default_mode u index (draw_bin d)
      \<and> 0 < draw_rounds d \<and> draw_rounds d \<le> feed_ammunition u ! draw_bin d"
    using take_draws_bounded [of _ "sort_key (\<lambda>b. fst (snd b)) ?bins" wanted]
    by (fastforce simp: plan_draws_def feed_entries_def)
  moreover have "\<forall>d\<in>set ?plan. \<forall>i. eligible_bin default_mode u index i \<and> bin_rank u index i < bin_rank u index (draw_bin d)
        \<longrightarrow> \<lparr>draw_bin = i, draw_rounds = feed_ammunition u ! i\<rparr> \<in> set ?plan"
    using plan_draws_preferred [of _ ?bins wanted "(i, bin_rank u index i, feed_ammunition u ! i)" "bin_rank u index" for i] rank
    by (auto simp: feed_entries_iff)
  moreover have "distinct (map draw_bin ?plan)" by (rule plan_draws_distinct) (simp add: feed_entries_def comp_def)
  ultimately show ?thesis
    using ammunition_feed_entries [OF assms] sorted_take_rank [OF rank, of wanted]
    by (auto simp: plan_draws_total feed_entries_held)
qed

definition sample_feed :: "(nat, nat, mech_section) feed_unit" where
  "sample_feed =
     \<lparr>feed_mounts = [(1, [(LeftArm, 0)])],
      feed_bins = [\<lparr>bin_weapon = 1, bin_mode = 0, bin_location = (RightTorso, 3)\<rparr>,
                   \<lparr>bin_weapon = 2, bin_mode = 0, bin_location = (LeftArm, 4)\<rparr>,
                   \<lparr>bin_weapon = 1, bin_mode = 0, bin_location = (LeftArm, 5)\<rparr>],
      feed_ammunition = [8, 9, 5], feed_modes = (\<lambda>_. None), feed_sections = (\<lambda>_. None), feed_unavailable = (\<lambda>_. False)\<rparr>"

theorem feed_plan_exact_witness:
  "\<exists>plan. ammunition_feed 0 sample_feed 0 7 = Some (Inr plan) \<and> distinct (map draw_bin plan)
    \<and> (\<Sum>d\<leftarrow>plan. draw_rounds d)
        = min 7 (\<Sum>i | i < length (feed_bins sample_feed) \<and> eligible_bin 0 sample_feed 0 i. feed_ammunition sample_feed ! i)
    \<and> sorted (map (\<lambda>d. bin_rank sample_feed 0 (draw_bin d)) plan)
    \<and> plan = [\<lparr>draw_bin = 2, draw_rounds = 5\<rparr>, \<lparr>draw_bin = 0, draw_rounds = 2\<rparr>]"
proof -
  have ok: "length (feed_ammunition sample_feed) = length (feed_bins sample_feed)" "0 < length (feed_mounts sample_feed)"
    "snd (feed_mounts sample_feed ! 0) \<noteq> []" by (simp_all add: sample_feed_def)
  have "ammunition_feed 0 sample_feed 0 7 = Some (Inr [\<lparr>draw_bin = 2, draw_rounds = 5\<rparr>, \<lparr>draw_bin = 0, draw_rounds = 2\<rparr>])"
    by code_simp
  then show ?thesis using feed_plan_exact [OF ok, of 0 7] by auto
qed

section \<open>Locations\<close>

lemma generic_roll_range: "generic_roll nx d = Some (r, d') \<Longrightarrow> 2 \<le> unat r \<and> unat r \<le> 12"
  by (cases "two_d6 nx d") (auto simp: generic_roll_def dest: two_d6_range split: sum.split_asm)

definition mirror_section :: "mech_section \<Rightarrow> mech_section" where
  "mirror_section s =
     (case s of LeftArm \<Rightarrow> RightArm | RightArm \<Rightarrow> LeftArm | LeftLeg \<Rightarrow> RightLeg | RightLeg \<Rightarrow> LeftLeg
      | LeftTorso \<Rightarrow> RightTorso | RightTorso \<Rightarrow> LeftTorso | CenterTorso \<Rightarrow> CenterTorso | Head \<Rightarrow> Head)"

lemma hit_row_length: "length (hit_row t chassis arc) = (if t = WeaponTable then 11 else 6)"
  by (cases t; cases arc) (auto simp: hit_row_def)

lemma hit_row_mirror: "hit_row t chassis RightArc = map mirror_section (hit_row t chassis LeftArc)"
  by (cases t) (auto simp: mirror_section_def hit_row_def)

text \<open>The columns for the two sides are mirror images.\<close>

lemma hit_location_mirror: "hit_location t chassis RightArc roll = map_sum id mirror_section (hit_location t chassis LeftArc roll)"
  by (auto simp: hit_location_def ensure_then_def hit_row_mirror hit_row_length)

lemma hit_location_total:
  "2 \<le> roll \<Longrightarrow> roll \<le> 12 \<Longrightarrow> \<exists>s. hit_location WeaponTable chassis arc roll = Inr s"
  by (simp add: hit_location_def ensure_then_def)

text \<open>Only twelve strikes the head.\<close>

lemma hit_row_head: "i < 11 \<Longrightarrow> hit_row WeaponTable chassis arc ! i = Head \<longleftrightarrow> i = 10"
proof -
  assume "i < 11"
  then have "i = 0 \<or> i = 1 \<or> i = 2 \<or> i = 3 \<or> i = 4 \<or> i = 5 \<or> i = 6 \<or> i = 7 \<or> i = 8 \<or> i = 9 \<or> i = 10" by presburger
  then show ?thesis by (elim disjE) (cases arc; simp add: hit_row_def)+
qed

lemma hit_location_head:
  "hit_location WeaponTable chassis arc roll = Inr s \<Longrightarrow> s = Head \<longleftrightarrow> roll = 12"
  using hit_row_head [of "roll - 2" chassis arc] by (auto simp: hit_location_def ensure_then_def split: if_splits)

text \<open>The n-th generic roll from here.\<close>

fun nth_roll :: "('g \<Rightarrow> u32 \<times> 'g) \<Rightarrow> nat \<Rightarrow> 'g dice \<Rightarrow> (u8 \<times> 'g dice) option" where
  "nth_roll nx 0 d = generic_roll nx d"
| "nth_roll nx (Suc n) d = Option.bind (generic_roll nx d) (\<lambda>(_, d). nth_roll nx n d)"

text \<open>Rerolling ends with the first roll off the head.\<close>

lemma reroll_head_returns:
  assumes "section = Head \<Longrightarrow> nth_roll nx n d = Some (r, e) \<and> unat r \<noteq> 12"
    and "hit_location WeaponTable (tgt_chassis t) arc roll = Inr section"
  shows "\<exists>roll' s d'. reroll_head nx t arc roll section d = Some (Inr (roll', s), d')
    \<and> hit_location WeaponTable (tgt_chassis t) arc roll' = Inr s \<and> (rerolls_head t \<longrightarrow> s \<noteq> Head)
    \<and> (roll' \<noteq> roll \<longrightarrow> rerolls_head t)"
  using assms
proof (induction n arbitrary: d roll "section")
  case 0
  show ?case
  proof (cases "section = Head \<and> rerolls_head t")
    case True
    with 0 have g: "generic_roll nx d = Some (r, e)" "unat r \<noteq> 12" by auto
    then obtain s where s: "hit_location WeaponTable (tgt_chassis t) arc (unat r) = Inr s"
      using hit_location_total generic_roll_range by metis
    then have "s \<noteq> Head" using g(2) hit_location_head by blast
    then show ?thesis using True g s by (subst reroll_head.simps, simp, subst reroll_head.simps) simp
  qed (use 0 in \<open>subst reroll_head.simps, auto\<close>)
next
  case (Suc n)
  show ?case
  proof (cases "section = Head \<and> rerolls_head t")
    case True
    with Suc.prems obtain q f where g: "generic_roll nx d = Some (q, f)" "nth_roll nx n f = Some (r, e)" "unat r \<noteq> 12"
      by (auto simp: bind_eq_Some_conv)
    then obtain s where s: "hit_location WeaponTable (tgt_chassis t) arc (unat q) = Inr s"
      using hit_location_total generic_roll_range by metis
    then have "reroll_head nx t arc roll section d = reroll_head nx t arc (unat q) s f"
      using True g by (subst reroll_head.simps) simp
    then show ?thesis using Suc.IH [of s f "unat q"] g s True by auto
  qed (use Suc.prems in \<open>subst reroll_head.simps, auto\<close>)
qed

text \<open>
  C39. A successful weapon hit is always located: when some later generic roll is off the head, the call returns
  a hit on the section its column gives for a legal roll, never on a head that is to be rerolled, on rear armor
  exactly from the rear arc, with a critical chance exactly on a two of a target that is not critical-proof; a
  combat-safe target only ever loses its left arm's front armor, and the supplied roll stands unless a rule draws
  another.\<close>
theorem hit_is_located:
  assumes "2 \<le> roll" and "roll \<le> 12" and "nth_roll nx n d = Some (r, e)" and "unat r \<noteq> 12"
  shows "\<exists>h d' roll'. resolve_hit nx t arc roll d = Some (Inr h, d')
    \<and> 2 \<le> roll' \<and> roll' \<le> 12 \<and> (roll' \<noteq> roll \<longrightarrow> critical_proof t \<or> rerolls_head t)
    \<and> (if combat_safe t then h = safe_hit
       else hit_location WeaponTable (tgt_chassis t) arc roll' = Inr (hit_section h)
         \<and> (rerolls_head t \<longrightarrow> hit_section h \<noteq> Head) \<and> rear_armor h = (arc = RearArc)
         \<and> through_armor_critical h = (roll' = 2 \<and> \<not> critical_proof t))"
proof -
  obtain q f where q: "2 \<le> q" "q \<le> 12" "q \<noteq> roll \<longrightarrow> critical_proof t"
      "(if critical_proof t then map_option (\<lambda>(r, d). (unat r, d)) (generic_roll nx d) else Some (roll, d)) = Some (q, f)"
      "q = 12 \<Longrightarrow> \<exists>m. nth_roll nx m f = Some (r, e)"
  proof (cases "critical_proof t")
    case True
    obtain a b where ab: "generic_roll nx d = Some (a, b)" using assms(3) by (cases n) (auto simp: bind_eq_Some_conv)
    moreover have "unat a = 12 \<Longrightarrow> \<exists>m. nth_roll nx m b = Some (r, e)" using assms(3,4) ab by (cases n) auto
    ultimately show ?thesis using True generic_roll_range [OF ab] by (intro that [of "unat a" b]) auto
  qed (use assms that [of roll d] in auto)
  obtain s where s: "hit_location WeaponTable (tgt_chassis t) arc q = Inr s" using hit_location_total q by blast
  obtain m where "s = Head \<Longrightarrow> nth_roll nx m f = Some (r, e) \<and> unat r \<noteq> 12"
    using q(5) assms(4) hit_location_head [OF s] by metis
  from reroll_head_returns [OF this s] obtain roll' s' d' where rr:
    "reroll_head nx t arc q s f = Some (Inr (roll', s'), d')" "hit_location WeaponTable (tgt_chassis t) arc roll' = Inr s'"
    "rerolls_head t \<longrightarrow> s' \<noteq> Head" "roll' \<noteq> q \<longrightarrow> rerolls_head t" by blast
  moreover have "2 \<le> roll' \<and> roll' \<le> 12" using rr(2) by (simp add: hit_location_def)
  ultimately show ?thesis using assms(1,2) q s by (auto simp: resolve_hit_def)
qed

definition sample_target :: hit_target where
  "sample_target = \<lparr>tgt_chassis = Biped, critical_proof = False, rerolls_head = True, combat_safe = False, is_prone = False\<rparr>"

abbreviation count_up :: "nat \<Rightarrow> u32 \<times> nat" where
  "count_up \<equiv> \<lambda>g. (of_nat g, Suc g)"

theorem hit_is_located_witness:
  "\<exists>h d' roll'. resolve_hit count_up sample_target RearArc 12 \<lparr>generator = 0, generic_rolls = stats_default\<rparr> = Some (Inr h, d')
    \<and> 2 \<le> roll' \<and> roll' \<le> 12
    \<and> hit_location WeaponTable Biped RearArc roll' = Inr (hit_section h) \<and> hit_section h \<noteq> Head \<and> rear_armor h
    \<and> through_armor_critical h = (roll' = 2)"
proof -
  have faces: "die_loop count_up 6 0 = Some (1, 1)" "die_loop count_up 6 (Suc 0) = Some (2, 2)"
    by (subst die_loop.simps, code_simp)+
  obtain r e where "nth_roll count_up 0 \<lparr>generator = 0, generic_rolls = stats_default\<rparr> = Some (r, e)" "unat r \<noteq> 12"
  proof
    show "nth_roll count_up 0 \<lparr>generator = 0, generic_rolls = stats_default\<rparr>
        = Some (3, \<lparr>generator = 2, generic_rolls = stats_default[1 := 1]\<rparr>)"
      by (simp add: generic_roll_def two_d6_def d6_def die_def faces stats_record_def stats_total_def stats_default_def sum_list_replicate)
  qed code_simp
  from hit_is_located [OF _ _ this, of 12 sample_target RearArc] show ?thesis by (auto simp: sample_target_def)
qed

section \<open>Clusters, sinks and the clock\<close>

text \<open>Every row of the cluster table grows with the roll, from at least one hit to the whole rack.\<close>

lemma cluster_rows: "\<forall>(rack, row)\<in>set CLUSTER_HITS. length row = 11 \<and> sorted row \<and> 1 \<le> row ! 0 \<and> row ! 10 = rack"
  by code_simp

lemma cluster_hits_row:
  assumes "cluster_hits rack roll = Inr h"
  obtains row where "(rack, row) \<in> set CLUSTER_HITS" "h = row ! (roll - 2)" "2 \<le> roll" "roll \<le> 12"
    "List.find (\<lambda>(n, _). n = rack) CLUSTER_HITS = Some (rack, row)"
proof -
  from assms obtain n row where row: "List.find (\<lambda>(n, _). n = rack) CLUSTER_HITS = Some (n, row)" "h = row ! (roll - 2)"
    "2 \<le> roll" "roll \<le> 12"
    by (auto simp: cluster_hits_def split: option.splits)
  have "n = rack" "(n, row) \<in> set CLUSTER_HITS" using row(1) by (auto simp: find_Some_iff in_set_conv_nth)
  then show thesis using row that by blast
qed

lemma cluster_hits_bounds:
  assumes "cluster_hits rack roll = Inr h"
  shows "1 \<le> h \<and> h \<le> rack"
proof -
  from assms obtain row where row: "(rack, row) \<in> set CLUSTER_HITS" "h = row ! (roll - 2)" "2 \<le> roll" "roll \<le> 12"
    by (rule cluster_hits_row)
  then have "length row = 11" "sorted row" "1 \<le> row ! 0" "row ! 10 = rack" using cluster_rows by auto
  moreover from this have "row ! 0 \<le> h" "h \<le> row ! 10" using row by (auto intro!: sorted_nth_mono)
  ultimately show ?thesis by simp
qed

lemma cluster_hits_mono:
  assumes "cluster_hits rack roll = Inr h" and "cluster_hits rack roll' = Inr h'" and "roll \<le> roll'"
  shows "h \<le> h'"
proof -
  from assms(1) obtain row where row: "(rack, row) \<in> set CLUSTER_HITS" "h = row ! (roll - 2)"
    "List.find (\<lambda>(n, _). n = rack) CLUSTER_HITS = Some (rack, row)" by (rule cluster_hits_row)
  from assms(2) obtain row' where row': "h' = row' ! (roll' - 2)" "roll' \<le> 12"
    "List.find (\<lambda>(n, _). n = rack) CLUSTER_HITS = Some (rack, row')" by (rule cluster_hits_row)
  have "length row = 11" "sorted row" using cluster_rows row(1) by auto
  then show ?thesis using row row' assms(3) by (auto intro!: sorted_nth_mono)
qed

text \<open>The cut-off stays within the sinks that work, and the clock within its turn.\<close>

lemma cutoff_clamp_valid: "cutoff_validate n (cutoff_clamp n c) = Inr ()"
  by (simp add: cutoff_validate_def cutoff_clamp_def)

lemma cutoff_apply_valid: "cutoff_validate n c = Inr () \<Longrightarrow> cutoff_validate n (cutoff_apply c) = Inr () \<and> \<not> cutoff_pending (cutoff_apply c)"
  by (simp add: cutoff_validate_def cutoff_apply_def cutoff_pending_def)

lemma disabled_points_bounded: "disabled_points each capacity c \<le> capacity"
  by (simp add: disabled_points_def)

lemma turn_iterate: "phase < 30 \<Longrightarrow> (turn_advance ^^ n) phase = (phase + n) mod 30"
  by (induction n) (simp_all add: turn_advance_def mod_Suc_eq)

lemma turn_boundary:
  assumes "phase < 30"
  shows "starts_turn ((turn_advance ^^ n) phase) \<longleftrightarrow> n mod 30 = seconds_to_end phase mod 30"
proof -
  define k where "k = n mod 30"
  have k: "k < 30" by (simp add: k_def)
  have "(phase + n) mod 30 = (phase + k) mod 30" by (simp add: k_def mod_simps)
  also have "\<dots> = (if phase + k < 30 then phase + k else phase + k - 30)" using k assms by (simp add: le_mod_geq)
  finally have "starts_turn ((turn_advance ^^ n) phase) \<longleftrightarrow> phase + k = 0 \<or> phase + k = 30"
    using k assms by (auto simp: turn_iterate starts_turn_def)
  then show ?thesis using k assms by (cases "phase = 0") (auto simp: seconds_to_end_def k_def [symmetric])
qed

lemma damage_transfer_ends: "damage_transfer s = Some t \<Longrightarrow> damage_transfer t = None \<or> damage_transfer t = Some CenterTorso"
  by (cases s) (auto simp: damage_transfer_def)

end
