(* ===== verification/World_Links.thy ===== *)
theory World_Links
  imports World_Objects
begin

text \<open>
  The legacy relationship lists of the object table: the slots of \<open>src/world/containment.rs\<close> and the part of
  \<open>src/dbck.rs\<close> that walks and rebuilds them. Contents and exits of a container are singly linked lists through
  the slots of their members; the rebuilt slots are shown to list exactly the members of every container.
\<close>

section \<open>Slots\<close>

record link_slots =
  slot_contents :: int
  slot_exits :: int
  slot_next :: int

definition EMPTY_SLOTS :: link_slots where
  "EMPTY_SLOTS = \<lparr>slot_contents = -1, slot_exits = -1, slot_next = -1\<rparr>"

definition slots_head :: "link_slots \<Rightarrow> bool \<Rightarrow> int" where
  "slots_head s exits = (if exits then slot_exits s else slot_contents s)"

definition set_head :: "bool \<Rightarrow> int \<Rightarrow> link_slots \<Rightarrow> link_slots" where
  "set_head exits v s = (if exits then s\<lparr>slot_exits := v\<rparr> else s\<lparr>slot_contents := v\<rparr>)"

type_synonym links = "(object_id, link_slots) btree"

definition next_of :: "links \<Rightarrow> object_id \<Rightarrow> int" where
  "next_of raw i = (case bt_get raw i of None \<Rightarrow> -1 | Some s \<Rightarrow> slot_next s)"

definition list_head :: "links \<Rightarrow> object_id \<Rightarrow> bool \<Rightarrow> int" where
  "list_head raw owner exits = (case bt_get raw owner of None \<Rightarrow> -1 | Some s \<Rightarrow> slots_head s exits)"

section \<open>Walking a list\<close>

definition list_kind :: "bool \<Rightarrow> object \<Rightarrow> bool" where
  "list_kind exits obj \<longleftrightarrow> (if exits then obj_kind obj = Exit else obj_kind obj \<in> {Player, Thing})"

definition holds_lists :: "object \<Rightarrow> bool" where
  "holds_lists obj \<longleftrightarrow> obj_kind obj \<in> {Room, Player, Thing}"

function list_from :: "world \<Rightarrow> links \<Rightarrow> bool \<Rightarrow> object_id list \<Rightarrow> int \<Rightarrow> object_id list" where
  "list_from w raw exits seen i =
     (if i < 0 \<or> i \<in> set seen then []
      else
        (case object_at w i of
           None \<Rightarrow> []
         | Some obj \<Rightarrow> if \<not> list_kind exits obj then [] else i # list_from w raw exits (i # seen) (next_of raw i)))"
  by pat_completeness auto
termination
proof (relation "measure (\<lambda>(w, raw, exits, seen, i). card (fst ` set (objects w) - set seen))", goal_cases)
  case (2 w raw exits seen i obj)
  then have "i \<in> fst ` set (objects w) - set seen" by (auto dest: object_at_key)
  then have "card (fst ` set (objects w) - set seen - {i}) < card (fst ` set (objects w) - set seen)"
    by (intro card_Diff1_less) simp_all
  moreover have "fst ` set (objects w) - set (i # seen) = fst ` set (objects w) - set seen - {i}" by auto
  ultimately show ?case by (simp del: list.set card_Diff_insert)
qed simp

declare list_from.simps [simp del]

definition link_chain :: "world \<Rightarrow> links \<Rightarrow> object_id \<Rightarrow> bool \<Rightarrow> object_id list" where
  "link_chain w raw owner exits = list_from w raw exits [] (list_head raw owner exits)"

definition member_ids :: "world \<Rightarrow> object_id \<Rightarrow> bool \<Rightarrow> object_id list" where
  "member_ids w owner exits =
     sort (remdups (map (\<lambda>(_, v). obj_id v) (filter (\<lambda>(_, v). location v = Some owner \<and> list_kind exits v) (objects w))))"

definition ordered_members :: "world \<Rightarrow> links \<Rightarrow> object_id \<Rightarrow> bool \<Rightarrow> object_id list" where
  "ordered_members w raw owner exits =
     (let members = member_ids w owner exits;
          order = filter (\<lambda>i. i \<in> set members) (link_chain w raw owner exits)
      in order @ filter (\<lambda>i. i \<notin> set order) members)"

section \<open>Rebuilding\<close>

text \<open>The slots of an object of the table are always present, so the update of a missing one never happens.\<close>

definition update_slots :: "object_id \<Rightarrow> (link_slots \<Rightarrow> link_slots) \<Rightarrow> links \<Rightarrow> links" where
  "update_slots i f links = (case bt_get links i of None \<Rightarrow> links | Some s \<Rightarrow> bt_insert i (f s) links)"

definition first_or_none :: "object_id list \<Rightarrow> int" where
  "first_or_none order = (case order of [] \<Rightarrow> -1 | i # _ \<Rightarrow> i)"

fun link_members :: "object_id list \<Rightarrow> links \<Rightarrow> links" where
  "link_members [] links = links"
| "link_members (i # order) links =
     link_members order (update_slots i (\<lambda>s. s\<lparr>slot_next := first_or_none order\<rparr>) links)"

definition link_list :: "world \<Rightarrow> links \<Rightarrow> object_id \<Rightarrow> bool \<Rightarrow> links \<Rightarrow> links" where
  "link_list w raw owner exits links =
     (let order = ordered_members w raw owner exits
      in link_members order (update_slots owner (set_head exits (first_or_none order)) links))"

definition link_object :: "world \<Rightarrow> links \<Rightarrow> object \<Rightarrow> links \<Rightarrow> links" where
  "link_object w raw obj links =
     (let links = (if obj_kind obj = Exit
                   then update_slots (obj_id obj)
                          (\<lambda>s. s\<lparr>slot_exits := (case location obj of None \<Rightarrow> -1 | Some i \<Rightarrow> i)\<rparr>) links
                   else links)
      in if \<not> holds_lists obj then links
         else link_list w raw (obj_id obj) True (link_list w raw (obj_id obj) False links))"

definition rebuild_links :: "world \<Rightarrow> links \<Rightarrow> links" where
  "rebuild_links w raw =
     fold (\<lambda>(_, obj). link_object w raw obj) (objects w) (map (\<lambda>(i, _). (i, EMPTY_SLOTS)) (objects w))"

section \<open>Members\<close>

lemma member_ids_iff:
  assumes "world_ok w"
  shows "i \<in> set (member_ids w owner exits) \<longleftrightarrow>
    (\<exists>obj. object_at w i = Some obj \<and> location obj = Some owner \<and> list_kind exits obj)"
  using assms by (fastforce simp: member_ids_def object_at_def bt_get_in_set world_ok_def list_all_iff)

lemma ordered_members_set: "set (ordered_members w raw owner exits) = set (member_ids w owner exits)"
  by (auto simp: ordered_members_def Let_def)

lemma list_from_distinct: "distinct (list_from w raw exits seen i) \<and> set (list_from w raw exits seen i) \<inter> set seen = {}"
proof (induction w raw exits seen i rule: list_from.induct)
  case (1 w raw exits seen i)
  then show ?case by (subst (1 2) list_from.simps) (auto split: option.split)
qed

lemma ordered_members_distinct: "distinct (ordered_members w raw owner exits)"
  using list_from_distinct [of w raw exits "[]"]
  by (auto simp: ordered_members_def Let_def link_chain_def member_ids_def)

section \<open>What rebuilding writes\<close>

text \<open>The id after another one in a list, or the sentinel.\<close>

fun successor :: "object_id list \<Rightarrow> object_id \<Rightarrow> int" where
  "successor [] i = -1"
| "successor (j # order) i = (if i = j then first_or_none order else successor order i)"

lemma bt_ok_update: "bt_ok links \<Longrightarrow> bt_ok (update_slots i f links)"
  by (auto simp: update_slots_def bt_ok_insert split: option.split)

lemma get_update_slots:
  "bt_ok links \<Longrightarrow> bt_get (update_slots i f links) j = (if j = i then map_option f (bt_get links i) else bt_get links j)"
  by (auto simp: update_slots_def bt.get_insert split: option.split)

lemma bt_ok_link_members: "bt_ok links \<Longrightarrow> bt_ok (link_members order links)"
  by (induction order links rule: link_members.induct) (auto simp: bt_ok_update)

lemma get_link_members:
  "bt_ok links \<Longrightarrow> distinct order \<Longrightarrow> bt_get (link_members order links) j =
     map_option (\<lambda>s. if j \<in> set order then s\<lparr>slot_next := successor order j\<rparr> else s) (bt_get links j)"
proof (induction order links rule: link_members.induct)
  case (2 i order links)
  then show ?case by (cases "bt_get links j"; cases "j \<in> set order") (auto simp: bt_ok_update get_update_slots)
qed (simp add: option.map_ident)

lemma bt_ok_link_object: "bt_ok links \<Longrightarrow> bt_ok (link_object w raw obj links)"
  by (auto simp: link_object_def link_list_def Let_def bt_ok_link_members bt_ok_update)

text \<open>What one object's turn writes to the slots of an id.\<close>

definition object_writes :: "world \<Rightarrow> links \<Rightarrow> object \<Rightarrow> object_id \<Rightarrow> link_slots \<Rightarrow> link_slots" where
  "object_writes w raw obj j s =
     (let lists = holds_lists obj; own = (j = obj_id obj);
          contents = ordered_members w raw (obj_id obj) False; exits = ordered_members w raw (obj_id obj) True
      in \<lparr>slot_contents = (if own \<and> lists then first_or_none contents else slot_contents s),
          slot_exits = (if own \<and> lists then first_or_none exits
                        else if own \<and> obj_kind obj = Exit then (case location obj of None \<Rightarrow> -1 | Some i \<Rightarrow> i)
                        else slot_exits s),
          slot_next = (if lists \<and> j \<in> set exits then successor exits j
                       else if lists \<and> j \<in> set contents then successor contents j else slot_next s)\<rparr>)"

lemma get_link_object:
  assumes "bt_ok links"
  shows "bt_get (link_object w raw obj links) j = map_option (object_writes w raw obj j) (bt_get links j)"
  using assms
  by (cases "bt_get links j"; cases "bt_get links (obj_id obj)")
    (auto simp: link_object_def link_list_def Let_def object_writes_def bt_ok_link_members bt_ok_update
      get_link_members ordered_members_distinct get_update_slots set_head_def holds_lists_def)

lemma get_rebuild:
  assumes "world_ok w"
  shows "bt_get (rebuild_links w raw) j =
    map_option (\<lambda>_. fold (\<lambda>(_, obj). object_writes w raw obj j) (objects w) EMPTY_SLOTS) (object_at w j)"
proof -
  have fold: "bt_get (fold (\<lambda>(_, obj). link_object w raw obj) xs links) j =
      map_option (fold (\<lambda>(_, obj). object_writes w raw obj j) xs) (bt_get links j)" if "bt_ok links"
    for xs :: "(object_id \<times> object) list" and links
    using that
    by (induction xs arbitrary: links)
      (auto simp: get_link_object bt_ok_link_object option.map_comp comp_def option.map_id)
  have "bt_ok (map (\<lambda>(i, _). (i, EMPTY_SLOTS)) (objects w))"
    using assms by (simp add: world_ok_def bt_ok_def case_prod_beta comp_def)
  moreover have "bt_get (map (\<lambda>(i, _). (i, EMPTY_SLOTS)) xs) j = map_option (\<lambda>_. EMPTY_SLOTS) (bt_get xs j)"
    for xs :: "(object_id \<times> object) list"
    by (induction xs) (auto simp: bt_get_def)
  ultimately show ?thesis by (simp add: rebuild_links_def fold object_at_def option.map_comp comp_def)
qed

lemma fold_untouched:
  "(\<And>x t. x \<in> set xs \<Longrightarrow> g (f x t) = g t) \<Longrightarrow> g (fold f xs t) = g t"
  by (induction xs arbitrary: t) auto

lemma fold_at_one:
  assumes "x \<in> set xs" and "distinct xs" and "\<And>t. g (f x t) = v" and "\<And>y t. y \<in> set xs \<Longrightarrow> y \<noteq> x \<Longrightarrow> g (f y t) = g t"
  shows "g (fold f xs t) = v"
proof -
  obtain ys zs where xs: "xs = ys @ x # zs" using assms(1) by (meson split_list)
  have "g (fold f zs t') = g t'" for t' using assms(2,4) xs by (intro fold_untouched) auto
  then show ?thesis using assms(3) xs by simp
qed

lemma world_ok_distinct: "world_ok w \<Longrightarrow> distinct (objects w)"
  using bt_ok_distinct by (auto simp: world_ok_def distinct_map)

lemma world_ok_at: "world_ok w \<Longrightarrow> (i, obj) \<in> set (objects w) \<longleftrightarrow> object_at w i = Some obj"
  by (simp add: world_ok_def object_at_def bt_get_in_set)

lemma world_ok_member: "world_ok w \<Longrightarrow> x \<in> set (objects w) \<Longrightarrow> object_at w (obj_id (snd x)) = Some (snd x)"
  by (cases x) (auto simp: world_ok_at dest: world_ok_id)

lemma world_ok_other:
  assumes "world_ok w" and "object_at w i = Some obj" and "y \<in> set (objects w)" and "y \<noteq> (i, obj)"
  shows "obj_id (snd y) \<noteq> i"
proof -
  obtain j obj' where y: "y = (j, obj')" by (cases y)
  then have "object_at w j = Some obj'" using assms(1,3) by (simp add: world_ok_at)
  then have "obj_id obj' = j" and "j \<noteq> i" using assms world_ok_id y by auto
  then show ?thesis using y by simp
qed

lemma object_writes_head:
  "slots_head (object_writes w raw obj j s) e =
     (if j = obj_id obj \<and> holds_lists obj then first_or_none (ordered_members w raw j e)
      else if j = obj_id obj \<and> obj_kind obj = Exit \<and> e then (case location obj of None \<Rightarrow> -1 | Some i \<Rightarrow> i)
      else slots_head s e)"
  by (auto simp: slots_head_def object_writes_def Let_def)

text \<open>The head of each list is its first member, and each member points to the next.\<close>

lemma rebuild_head:
  assumes "world_ok w" and at: "object_at w i = Some obj" and "holds_lists obj"
  shows "list_head (rebuild_links w raw) i exits = first_or_none (ordered_members w raw i exits)"
proof -
  have id: "obj_id obj = i" using assms(1) at by (rule world_ok_id)
  note other = world_ok_other [OF assms(1) at]
  have "slots_head (fold (\<lambda>(_, obj). object_writes w raw obj i) (objects w) EMPTY_SLOTS) exits
      = first_or_none (ordered_members w raw i exits)"
  proof (rule fold_at_one [of "(i, obj)", where g = "\<lambda>s. slots_head s exits"])
    show "(i, obj) \<in> set (objects w)" using assms(1) at by (simp add: world_ok_at)
    show "slots_head ((case y of (_, obj) \<Rightarrow> object_writes w raw obj i) t) exits = slots_head t exits"
      if "y \<in> set (objects w)" "y \<noteq> (i, obj)" for y t
      using other [OF that] by (auto simp: object_writes_head split: prod.split)
  qed (use assms id in \<open>simp_all add: object_writes_head world_ok_distinct\<close>)
  then show ?thesis using assms(1) at by (simp add: list_head_def get_rebuild)
qed

lemma rebuild_next:
  assumes "world_ok w" and at: "object_at w owner = Some obj" and "holds_lists obj"
    and mem: "i \<in> set (ordered_members w raw owner exits)"
  shows "next_of (rebuild_links w raw) i = successor (ordered_members w raw owner exits) i"
proof -
  note iff = member_ids_iff [OF assms(1)]
  have id: "obj_id obj = owner" using assms(1) at by (rule world_ok_id)
  obtain m where m: "object_at w i = Some m" "location m = Some owner" "list_kind exits m"
    using mem by (auto simp: ordered_members_set iff)
  have not_both: "list_kind e m \<longleftrightarrow> e = exits" for e using m(3) by (cases e; cases exits) (auto simp: list_kind_def)
  have owners: "i \<in> set (ordered_members w raw o' e) \<longleftrightarrow> o' = owner \<and> e = exits" for o' e
    using m not_both by (auto simp: ordered_members_set iff)
  note other = world_ok_other [OF assms(1) at]
  have "slot_next (fold (\<lambda>(_, obj). object_writes w raw obj i) (objects w) EMPTY_SLOTS)
      = successor (ordered_members w raw owner exits) i"
  proof (rule fold_at_one [of "(owner, obj)", where g = slot_next])
    show "(owner, obj) \<in> set (objects w)" using assms(1) at by (simp add: world_ok_at)
    show "slot_next ((case y of (_, obj) \<Rightarrow> object_writes w raw obj i) t) = slot_next t"
      if "y \<in> set (objects w)" "y \<noteq> (owner, obj)" for y t
      using other [OF that] by (auto simp: object_writes_def Let_def owners split: prod.split)
  qed (use assms id in \<open>auto simp: object_writes_def Let_def owners world_ok_distinct\<close>)
  then show ?thesis using m by (simp add: next_of_def get_rebuild [OF assms(1)])
qed

section \<open>Walking rebuilt lists\<close>

text \<open>Identifiers of the table are database row numbers, never negative.\<close>

definition ids_ok :: "world \<Rightarrow> bool" where
  "ids_ok w \<longleftrightarrow> (\<forall>i\<in>fst ` set (objects w). 0 \<le> i)"

lemma list_from_suffix:
  assumes "\<forall>i\<in>set order. 0 \<le> i \<and> (\<exists>obj. object_at w i = Some obj \<and> list_kind exits obj) \<and> next_of links i = successor order i"
    and "distinct order" and "order = pre @ rest" and "set rest \<inter> set seen = {}"
  shows "list_from w links exits seen (first_or_none rest) = rest"
  using assms(3,4)
proof (induction rest arbitrary: pre seen)
  case Nil
  then show ?case by (subst list_from.simps) (simp add: first_or_none_def)
next
  case (Cons i rest)
  have skip: "i \<notin> set pre \<Longrightarrow> successor (pre @ i # rest) i = first_or_none rest" by (induction pre) auto
  have "next_of links i = first_or_none rest" using assms(1,2) Cons.prems skip by auto
  moreover have "list_from w links exits (i # seen) (first_or_none rest) = rest"
    using Cons.prems assms(2) by (intro Cons.IH [of "pre @ [i]"]) auto
  ultimately show ?case using assms(1) Cons.prems by (subst list_from.simps) (auto simp: first_or_none_def)
qed

lemma link_chain_rebuild:
  assumes "world_ok w" and "ids_ok w" and "object_at w owner = Some obj" and "holds_lists obj"
  shows "link_chain w (rebuild_links w raw) owner exits = ordered_members w raw owner exits"
proof -
  let ?order = "ordered_members w raw owner exits"
  have "0 \<le> i \<and> (\<exists>obj. object_at w i = Some obj \<and> list_kind exits obj) \<and> next_of (rebuild_links w raw) i = successor ?order i"
    if "i \<in> set ?order" for i
    using that assms(2) rebuild_next [OF assms(1,3,4) that]
    by (auto simp: ordered_members_set member_ids_iff [OF assms(1)] ids_ok_def dest: object_at_key)
  then have "list_from w (rebuild_links w raw) exits [] (first_or_none ?order) = ?order"
    using ordered_members_distinct by (intro list_from_suffix [where pre = "[]" and order = ?order]) auto
  then show ?thesis by (simp add: link_chain_def rebuild_head [OF assms(1,3,4)])
qed

lemma ordered_members_rebuild:
  assumes "world_ok w" and "ids_ok w" and "object_at w owner = Some obj" and "holds_lists obj"
  shows "ordered_members w (rebuild_links w raw) owner exits = ordered_members w raw owner exits"
proof -
  let ?order = "ordered_members w raw owner exits"
  have "filter (\<lambda>i. i \<in> set (member_ids w owner exits)) ?order = ?order"
    by (intro filter_True) (simp add: ordered_members_set)
  moreover have "filter (\<lambda>i. i \<notin> set ?order) (member_ids w owner exits) = []" by (simp add: ordered_members_set)
  ultimately show ?thesis
    by (subst ordered_members_def) (simp only: link_chain_rebuild [OF assms] Let_def append_Nil2)
qed

lemma rebuild_links_stable:
  assumes "world_ok w" and "ids_ok w"
  shows "rebuild_links w (rebuild_links w raw) = rebuild_links w raw"
proof -
  have "link_object w (rebuild_links w raw) (snd x) links = link_object w raw (snd x) links" if "x \<in> set (objects w)" for x links
    using ordered_members_rebuild [OF assms world_ok_member [OF assms(1) that]]
    by (simp add: link_object_def link_list_def Let_def)
  then show ?thesis
    unfolding rebuild_links_def [of w "rebuild_links w raw"] unfolding rebuild_links_def [of w raw]
    by (intro fold_cong) (auto simp: rebuild_links_def fun_eq_iff)
qed

text \<open>
  C13. The rebuilt relationship lists are exact: for every room, player and thing of the table, walking its
  contents or its exits through the rebuilt slots meets every object located there once and nothing else,
  first the survivors in their old order and then the others by dbref; and rebuilding again changes no slot.\<close>
theorem rebuilt_lists_exact:
  assumes "world_ok w" and "ids_ok w" and "object_at w owner = Some obj" and "holds_lists obj"
  shows "distinct (link_chain w (rebuild_links w raw) owner exits)
    \<and> set (link_chain w (rebuild_links w raw) owner exits)
        = {i. \<exists>m. object_at w i = Some m \<and> location m = Some owner \<and> list_kind exits m}
    \<and> (\<exists>rest. sorted rest \<and> link_chain w (rebuild_links w raw) owner exits
        = filter (\<lambda>i. \<exists>m. object_at w i = Some m \<and> location m = Some owner \<and> list_kind exits m) (link_chain w raw owner exits) @ rest)
    \<and> rebuild_links w (rebuild_links w raw) = rebuild_links w raw"
proof -
  let ?order = "filter (\<lambda>i. i \<in> set (member_ids w owner exits)) (link_chain w raw owner exits)"
  let ?rest = "filter (\<lambda>i. i \<notin> set ?order) (member_ids w owner exits)"
  have "sorted ?rest" by (intro sorted_wrt_filter) (simp add: member_ids_def)
  moreover have "link_chain w (rebuild_links w raw) owner exits = ?order @ ?rest"
    by (simp only: link_chain_rebuild [OF assms] ordered_members_def Let_def)
  ultimately have "\<exists>rest. sorted rest \<and> link_chain w (rebuild_links w raw) owner exits = ?order @ rest" by blast
  then show ?thesis
    using rebuild_links_stable [OF assms(1,2)]
    by (simp add: link_chain_rebuild [OF assms] ordered_members_distinct ordered_members_set member_ids_iff [OF assms(1)] set_eq_iff)
qed

text \<open>The sample world with a broken contents list: the box points to itself and the player is not list_kind.\<close>

definition sample_links :: links where
  "sample_links = [(1, EMPTY_SLOTS), (2, EMPTY_SLOTS\<lparr>slot_contents := 3\<rparr>), (3, EMPTY_SLOTS\<lparr>slot_next := 3\<rparr>)]"

theorem rebuilt_lists_exact_witness:
  "link_chain sample_world (rebuild_links sample_world sample_links) 2 False = [3, 1]
    \<and> set (link_chain sample_world (rebuild_links sample_world sample_links) 2 False)
        = {i. \<exists>m. object_at sample_world i = Some m \<and> location m = Some 2 \<and> list_kind False m}"
proof -
  have ok: "world_ok sample_world" "ids_ok sample_world" "holds_lists (sample_object 2 Room None)"
    "object_at sample_world 2 = Some (sample_object 2 Room None)"
    by (simp_all add: world_ok_def bt_ok_def ids_ok_def holds_lists_def sample_simps)
  have "link_chain sample_world (rebuild_links sample_world sample_links) 2 False = [3, 1]" by code_simp
  then show ?thesis using rebuilt_lists_exact [OF ok(1,2,4,3), of sample_links False] by blast
qed

end
