(* ===== verification/World_Repair.thy ===== *)
theory World_Repair
  imports World_Links World_Authority
begin

text \<open>
  The object phase of the database check (\<open>plan\<close> of \<open>src/dbck.rs\<close>): protected objects, competing list claims,
  doomed exits, the repair of every live object's references, and the purge of doomed objects. Loops that
  only rewrite the object at hand are maps over the table; the loop whose steps read what earlier steps wrote,
  the search for safe homes, is a fold over the ids. Findings are constructors instead of sentences.
\<close>

section \<open>Policies\<close>

record repair_config =
  player_starting_room :: object_id
  player_starting_home :: object_id
  default_home :: object_id

datatype repair_error =
    GodMissing
  | ProtectedMissing object_id
  | ProtectedGarbage object_id
  | NoSafeHome object_id
  | OccupantNowhere object_id
  | AccountMissing | AccountNotPlayer | DuplicatePlayerName | DuplicatePlayerAlias
  | BattleRolls | InvalidWorld

datatype finding =
    ClearedGoing object_id
  | Purged object_id
  | Repaired object_id string
  | WizardObject object_id
  | InsideWizard object_id
  | UnreachableRoom object_id
  | RebuiltSlots object_id

definition live_container :: "world \<Rightarrow> object_id \<Rightarrow> bool" where
  "live_container w i \<longleftrightarrow> (case object_at w i of None \<Rightarrow> False | Some obj \<Rightarrow> holds_lists obj \<and> Going \<notin> flags obj)"

definition is_room :: "world \<Rightarrow> object_id \<Rightarrow> bool" where
  "is_room w i \<longleftrightarrow> (case object_at w i of None \<Rightarrow> False | Some obj \<Rightarrow> obj_kind obj = Room)"

definition safe_home :: "world \<Rightarrow> object_id \<Rightarrow> object_id \<Rightarrow> bool" where
  "safe_home w i dest \<longleftrightarrow>
     (case containment_chain w (Some dest) of
        Inl _ \<Rightarrow> False
      | Inr ch \<Rightarrow> i \<notin> set ch \<and> list_all (live_container w) ch \<and> ch \<noteq> [] \<and> is_room w (last ch))"

definition home_choices :: "world \<Rightarrow> repair_config \<Rightarrow> object_id \<Rightarrow> object \<Rightarrow> object_id list" where
  "home_choices w c i obj =
     filter (controls w i) (List.map_filter id [location obj, home obj])
     @ [default_home c, player_starting_home c, player_starting_room c]"

text \<open>The object is present; indexing at a missing one would panic.\<close>

definition find_home :: "world \<Rightarrow> repair_config \<Rightarrow> object_id \<Rightarrow> (repair_error, object_id) result" where
  "find_home w c i =
     (case object_at w i of
        None \<Rightarrow> Inl (NoSafeHome i)
      | Some obj \<Rightarrow>
          (case List.find (safe_home w i) (home_choices w c i obj) of None \<Rightarrow> Inl (NoSafeHome i) | Some d \<Rightarrow> Inr d))"

definition map_objects :: "(object_id \<Rightarrow> object \<Rightarrow> object) \<Rightarrow> world \<Rightarrow> world" where
  "map_objects f w = w\<lparr>objects := map (\<lambda>(i, obj). (i, f i obj)) (objects w)\<rparr>"

section \<open>Phases\<close>

definition protected_ids :: "repair_config \<Rightarrow> object_id list" where
  "protected_ids c =
     sort (remdups (filter (\<lambda>i. 0 \<le> i) [0, 1, player_starting_room c, player_starting_home c, default_home c]))"

fun clear_protected :: "object_id list \<Rightarrow> world \<Rightarrow> (repair_error, world \<times> finding list) result" where
  "clear_protected [] w = Inr (w, [])"
| "clear_protected (i # ids) w =
     (case object_at w i of
        None \<Rightarrow> Inl (ProtectedMissing i)
      | Some obj \<Rightarrow>
          ensure_then (obj_kind obj \<noteq> Garbage) (ProtectedGarbage i)
            (bind_result (clear_protected ids (put_object i (obj\<lparr>flags := flags obj - {Going}\<rparr>) w)) (\<lambda>(w, fs).
              Inr (w, (if Going \<in> flags obj then [ClearedGoing i] else []) @ fs))))"

definition claimants :: "world \<Rightarrow> links \<Rightarrow> object_id \<Rightarrow> object_id list" where
  "claimants w raw m =
     concat (map (\<lambda>(i, _).
       if live_container w i
       then concat (map (\<lambda>exits. if m \<in> set (link_chain w raw i exits) then [i] else []) [False, True])
       else []) (objects w))"

definition claimed_location :: "object_id option \<Rightarrow> object_id list \<Rightarrow> object_id option" where
  "claimed_location l owners =
     (case owners of
        [] \<Rightarrow> None
      | first # _ \<Rightarrow> (case l of None \<Rightarrow> Some first | Some i \<Rightarrow> if i \<in> set owners then Some i else Some first))"

definition resolve_claims :: "links \<Rightarrow> world \<Rightarrow> world" where
  "resolve_claims raw w =
     map_objects (\<lambda>i obj.
       if obj_kind obj = Garbage \<or> Going \<in> flags obj \<or> obj_kind obj = Room then obj
       else obj\<lparr>location := claimed_location (location obj) (claimants w raw i)\<rparr>) w"

definition endpoint_ok :: "world \<Rightarrow> object_id option \<Rightarrow> bool" where
  "endpoint_ok w e \<longleftrightarrow> (case e of None \<Rightarrow> False | Some i \<Rightarrow> live_container w i)"

definition doom_exits :: "world \<Rightarrow> world" where
  "doom_exits w =
     map_objects (\<lambda>_ obj.
       if obj_kind obj = Exit \<and> (\<not> endpoint_ok w (location obj) \<or> \<not> endpoint_ok w (destination obj))
       then obj\<lparr>flags := insert Going (flags obj)\<rparr> else obj) w"

definition doomed :: "object \<Rightarrow> bool" where
  "doomed obj \<longleftrightarrow> obj_kind obj \<noteq> Garbage \<and> Going \<in> flags obj"

definition purge_ids :: "world \<Rightarrow> object_id list" where
  "purge_ids w = map (\<lambda>(_, obj). obj_id obj) (filter (\<lambda>(_, obj). doomed obj) (objects w))"

definition surviving_ids :: "world \<Rightarrow> object_id list" where
  "surviving_ids w = map (\<lambda>(_, obj). obj_id obj) (filter (\<lambda>(_, obj). obj_kind obj \<noteq> Garbage \<and> obj_id obj \<notin> set (purge_ids w)) (objects w))"

definition keep_live :: "object_id list \<Rightarrow> object_id option \<Rightarrow> object_id option" where
  "keep_live live r = (case r of None \<Rightarrow> None | Some i \<Rightarrow> if i \<in> set live then Some i else None)"

definition tidied :: "object_id list \<Rightarrow> object \<Rightarrow> object" where
  "tidied live obj =
     obj\<lparr>zone := keep_live live (zone obj),
         affiliation := keep_live live (affiliation obj),
         location := (if obj_kind obj = Room then None else location obj),
         home := (if obj_kind obj = Room \<or> obj_kind obj = Exit then None else home obj),
         dropto := keep_live live (dropto obj)\<rparr>"

definition safe_place :: "world \<Rightarrow> object_id \<Rightarrow> object_id option \<Rightarrow> bool" where
  "safe_place w i p \<longleftrightarrow> (case p of None \<Rightarrow> False | Some d \<Rightarrow> safe_home w i d)"

definition repair_home :: "repair_config \<Rightarrow> object_id \<Rightarrow> object \<Rightarrow> world \<Rightarrow> (repair_error, world) result" where
  "repair_home c i obj w =
     (if safe_place w i (home obj) then Inr w
      else bind_result (find_home w c i) (\<lambda>d. Inr (put_object i (obj\<lparr>home := Some d\<rparr>) w)))"

definition repair_location :: "repair_config \<Rightarrow> object_id \<Rightarrow> object \<Rightarrow> world \<Rightarrow> (repair_error, world) result" where
  "repair_location c i obj w =
     (if safe_place w i (location obj) then Inr w
      else bind_result (find_home w c i) (\<lambda>d. Inr (put_object i (obj\<lparr>location := Some d\<rparr>) w)))"

definition repair_object :: "repair_config \<Rightarrow> object_id list \<Rightarrow> object_id \<Rightarrow> world \<Rightarrow> (repair_error, world) result" where
  "repair_object c live i w =
     (case object_at w i of
        None \<Rightarrow> Inr w
      | Some obj \<Rightarrow>
          if i \<notin> set live then Inr w
          else (let obj = tidied live obj; w = put_object i obj w
                in if obj_kind obj \<notin> {Player, Thing} then Inr w
                   else bind_result (repair_home c i obj w) (\<lambda>w.
                     case object_at w i of
                       None \<Rightarrow> Inr w
                     | Some obj \<Rightarrow> repair_location c i obj w)))"

fun repair_loop :: "repair_config \<Rightarrow> object_id list \<Rightarrow> object_id list \<Rightarrow> world \<Rightarrow> (repair_error, world) result" where
  "repair_loop c live [] w = Inr w"
| "repair_loop c live (i # ids) w = bind_result (repair_object c live i w) (repair_loop c live ids)"

definition purged_object :: "object \<Rightarrow> object" where
  "purged_object obj =
     obj\<lparr>obj_kind := Garbage, pending_destroyer := None, obj_name := bstr ''Garbage'', flags := {Going}, powers := {},
         location := None, home := None, destination := None, dropto := None, zone := None, affiliation := None,
         description := None, internal_description := None, lua_parent := []\<rparr>"

definition purge_objects :: "object_id list \<Rightarrow> world \<Rightarrow> world" where
  "purge_objects purges w = map_objects (\<lambda>i obj. if i \<in> set purges then purged_object obj else obj) w"

text \<open>The object phase: the repaired table, the purged ids and the first findings.\<close>

definition repair_objects ::
  "repair_config \<Rightarrow> links \<Rightarrow> world \<Rightarrow> (repair_error, world \<times> object_id list \<times> finding list) result" where
  "repair_objects c raw w =
     ensure_then (case object_at w 1 of None \<Rightarrow> False | Some obj \<Rightarrow> obj_kind obj = Player) GodMissing
       (bind_result (clear_protected (protected_ids c) w) (\<lambda>(w, fs).
         let w = doom_exits (resolve_claims raw w); purges = purge_ids w
         in bind_result (repair_loop c (surviving_ids w) (map fst (objects w)) w) (\<lambda>w.
              Inr (purge_objects purges w, purges, fs @ map Purged purges))))"

text \<open>The object part of \<open>World::validate\<close>: containment, and references to objects that are there.\<close>

definition references :: "object \<Rightarrow> object_id list" where
  "references obj =
     List.map_filter id [location obj, home obj, destination obj, zone obj, affiliation obj, dropto obj]"

definition still_there :: "world \<Rightarrow> object_id \<Rightarrow> bool" where
  "still_there w i \<longleftrightarrow> (case object_at w i of None \<Rightarrow> False | Some obj \<Rightarrow> obj_kind obj \<noteq> Garbage)"

definition validate_objects :: "world \<Rightarrow> bool" where
  "validate_objects w \<longleftrightarrow>
     list_all (\<lambda>(_, obj). obj_kind obj = Garbage
       \<or> validate_location w obj = Inr () \<and> list_all (still_there w) (references obj)) (objects w)"

end
