(* ===== verification/World_Repair_Valid.thy ===== *)
theory World_Repair_Valid
  imports World_Repair
begin

text \<open>
  The object phase of the database check repairs: it succeeds whenever the starting room can serve as the last
  home, the table it returns passes the object part of world validation, and checking the result again, with
  its rebuilt lists, changes nothing. The proofs follow chains of live containers that end in a room: no step
  of the repair breaks one, so what has been repaired stays repaired.
\<close>

section \<open>Tables\<close>

lemma bt_insert_same: "bt_ok m \<Longrightarrow> bt_get m k = Some v \<Longrightarrow> bt_insert k v m = m"
proof (induction m)
  case (Cons x m)
  then show ?case
    by (cases x) (auto simp: bt_get_def bt_ok_Cons split: if_splits dest!: map_of_SomeD)
qed (simp add: bt_get_def)

lemma put_same: "world_ok w \<Longrightarrow> object_at w i = Some obj \<Longrightarrow> put_object i obj w = w"
  by (simp add: put_object_def object_at_def world_ok_def bt_insert_same)

lemma keys_put: "fst ` set (objects (put_object i obj w)) = insert i (fst ` set (objects w))"
  by (simp add: put_object_def keys_bt_insert)

lemma object_at_map_objects: "object_at (map_objects f w) i = map_option (f i) (object_at w i)"
proof -
  have "map_of (map (\<lambda>(i, obj). (i, f i obj)) xs) i = map_option (f i) (map_of xs i)" for xs
    by (induction xs) auto
  then show ?thesis by (simp add: object_at_def map_objects_def bt_get_def)
qed

lemma world_ok_map_objects:
  "world_ok w \<Longrightarrow> (\<And>i obj. object_at w i = Some obj \<Longrightarrow> obj_id (f i obj) = obj_id obj) \<Longrightarrow> world_ok (map_objects f w)"
  by (auto simp: world_ok_def map_objects_def bt_ok_def comp_def case_prod_beta list_all_iff object_at_def
      bt_get_in_set [unfolded bt_ok_def])

lemma map_objects_same:
  assumes "world_ok w" and "\<And>i obj. object_at w i = Some obj \<Longrightarrow> f i obj = obj"
  shows "map_objects f w = w"
proof -
  have "(case x of (i, obj) \<Rightarrow> (i, f i obj)) = x" if "x \<in> set (objects w)" for x
    using that assms by (cases x rule: prod.exhaust) (simp add: world_ok_at)
  then show ?thesis by (simp add: map_objects_def map_idI)
qed

lemma keys_map_objects: "map fst (objects (map_objects f w)) = map fst (objects w)"
  by (simp add: map_objects_def comp_def case_prod_beta)

lemma in_ids:
  assumes "world_ok w"
  shows "i \<in> set (map (\<lambda>(_, obj). obj_id obj) (filter (\<lambda>(_, obj). P obj) (objects w)))
    \<longleftrightarrow> (\<exists>obj. object_at w i = Some obj \<and> P obj)"
proof
  assume "i \<in> set (map (\<lambda>(_, obj). obj_id obj) (filter (\<lambda>(_, obj). P obj) (objects w)))"
  then obtain j obj where "(j, obj) \<in> set (objects w)" "P obj" "i = obj_id obj" by auto
  then show "\<exists>obj. object_at w i = Some obj \<and> P obj" using world_ok_member [OF assms, of "(j, obj)"] by auto
next
  assume "\<exists>obj. object_at w i = Some obj \<and> P obj"
  then obtain obj where "(i, obj) \<in> set (objects w)" "P obj" "obj_id obj = i"
    using assms world_ok_at world_ok_id by blast
  then show "i \<in> set (map (\<lambda>(_, obj). obj_id obj) (filter (\<lambda>(_, obj). P obj) (objects w)))" by force
qed

lemma in_purge_ids: "world_ok w \<Longrightarrow> i \<in> set (purge_ids w) \<longleftrightarrow> (\<exists>obj. object_at w i = Some obj \<and> doomed obj)"
  unfolding purge_ids_def by (rule in_ids)

lemma in_surviving_ids:
  assumes "world_ok w"
  shows "i \<in> set (surviving_ids w) \<longleftrightarrow> (\<exists>obj. object_at w i = Some obj \<and> obj_kind obj \<noteq> Garbage \<and> Going \<notin> flags obj)"
proof (cases "object_at w i")
  case (Some obj)
  then show ?thesis
    using world_ok_id [OF assms Some] unfolding surviving_ids_def in_ids [OF assms] in_purge_ids [OF assms] by (auto simp: doomed_def)
next
  case None
  then show ?thesis unfolding surviving_ids_def in_ids [OF assms] by simp
qed

section \<open>Rooted chains\<close>

definition rooted :: "world \<Rightarrow> object_id option \<Rightarrow> object_id list \<Rightarrow> bool" where
  "rooted w p ch \<longleftrightarrow> enclosed w p ch \<and> (\<forall>j\<in>set ch. live_container w j) \<and> ch \<noteq> [] \<and> is_room w (last ch)"

lemma safe_place_iff: "safe_place w i p \<longleftrightarrow> (\<exists>ch. rooted w p ch \<and> i \<notin> set ch)"
proof (cases p)
  case None
  then show ?thesis by (auto simp: safe_place_def rooted_def elim: enclosed_NoneE)
next
  case (Some d)
  show ?thesis
  proof (cases "containment_chain w (Some d)")
    case (Inl e)
    then have "\<not> enclosed w (Some d) ch" for ch using containment_chain_iff [of w "Some d" ch] by simp
    then show ?thesis using Some Inl by (simp add: safe_place_def safe_home_def rooted_def)
  next
    case (Inr ch)
    then have "enclosed w (Some d) ch' \<longleftrightarrow> ch' = ch" for ch' using containment_chain_iff [of w "Some d" ch'] by auto
    then show ?thesis using Some Inr by (auto simp: safe_place_def safe_home_def rooted_def list_all_iff)
  qed
qed

text \<open>Objects that differ at most in where they are.\<close>

definition same_shape :: "object \<Rightarrow> object \<Rightarrow> bool" where
  "same_shape a b \<longleftrightarrow> obj_kind a = obj_kind b \<and> flags a = flags b \<and> obj_id a = obj_id b \<and> destination a = destination b \<and> obj_name a = obj_name b"

lemma live_container_put:
  "world_ok w \<Longrightarrow> object_at w k = Some obj \<Longrightarrow> same_shape obj' obj \<Longrightarrow> live_container (put_object k obj' w) j = live_container w j"
  by (auto simp: live_container_def same_shape_def holds_lists_def)

lemma is_room_put:
  "world_ok w \<Longrightarrow> object_at w k = Some obj \<Longrightarrow> same_shape obj' obj \<Longrightarrow> is_room (put_object k obj' w) j = is_room w j"
  by (auto simp: is_room_def same_shape_def)

lemma enclosed_put:
  assumes "enclosed w p ch" and "world_ok w" and "object_at w k = Some obj" and "same_shape obj' obj"
    and "k \<in> set ch \<Longrightarrow> location obj' = location obj"
  shows "enclosed (put_object k obj' w) p ch"
  using assms(1,5)
proof (induction rule: enclosed.induct)
  case (enclosed_room j o')
  then show ?case
    using assms(2-4) by (intro enclosed.enclosed_room [of _ _ "if j = k then obj' else o'"]) (auto simp: same_shape_def)
next
  case (enclosed_in j o' ch)
  let ?o = "if j = k then obj' else o'"
  have "enclosed (put_object k obj' w) (location ?o) ch"
    using enclosed_in assms(3) by (cases "j = k") auto
  then show ?case
    using enclosed_in assms(2-4) by (intro enclosed.enclosed_in [of _ _ ?o]) (auto simp: same_shape_def)
qed (simp add: enclosed_none)

lemma rooted_put:
  assumes "rooted w p ch" and "world_ok w" and "object_at w k = Some obj" and "same_shape obj' obj"
    and "k \<in> set ch \<Longrightarrow> location obj' = location obj"
  shows "rooted (put_object k obj' w) p ch"
  using assms(1) enclosed_put [OF _ assms(2-5)] live_container_put [OF assms(2-4)] is_room_put [OF assms(2-4)]
  by (simp add: rooted_def)

lemma rooted_member:
  assumes "rooted w p ch" and "k \<in> set ch" and "object_at w k = Some obj"
  shows "if obj_kind obj = Room then location obj = None else safe_place w k (location obj)"
proof -
  obtain xs ys where ch: "ch = xs @ k # ys" using assms(2) by (meson split_list)
  have e: "enclosed w p ch" "distinct ch" using assms(1) by (auto simp: rooted_def dest: enclosed_distinct)
  then have "enclosed w (Some k) (k # ys)" unfolding ch by (intro enclosed_suffix)
  then show ?thesis
  proof (cases rule: enclosed.cases)
    case (enclosed_room o')
    then show ?thesis using assms(3) by simp
  next
    case (enclosed_in o')
    then have kind: "obj_kind obj \<noteq> Room" and loc: "enclosed w (location obj) ys" using assms(3) by auto
    have "is_room w (last (k # ys))" using assms(1) by (simp add: rooted_def ch)
    then have "ys \<noteq> []" using kind assms(3) by (auto simp: is_room_def)
    then have "rooted w (location obj) ys" using assms(1) loc by (auto simp: rooted_def ch)
    moreover have "k \<notin> set ys" using e(2) by (simp add: ch)
    ultimately show ?thesis using kind by (auto simp: safe_place_iff)
  qed
qed

section \<open>The repair of one object\<close>

definition repaired_at :: "world \<Rightarrow> object_id list \<Rightarrow> object_id \<Rightarrow> bool" where
  "repaired_at w live i \<longleftrightarrow>
     (\<forall>obj. object_at w i = Some obj \<longrightarrow>
        tidied live obj = obj
        \<and> (obj_kind obj \<in> {Player, Thing} \<longrightarrow> safe_place w i (home obj) \<and> safe_place w i (location obj)))"

text \<open>What a step keeps: it changes at most the object at hand, not its shape, and breaks no rooted chain.\<close>

definition repairs :: "object_id \<Rightarrow> world \<Rightarrow> world \<Rightarrow> bool" where
  "repairs i w w' \<longleftrightarrow>
     world_ok w' \<and> map fst (objects w') = map fst (objects w)
     \<and> (\<forall>j. j \<noteq> i \<longrightarrow> object_at w' j = object_at w j)
     \<and> (\<forall>obj. object_at w i = Some obj \<longrightarrow>
          (\<exists>obj'. object_at w' i = Some obj' \<and> same_shape obj' obj \<and> (obj_kind obj = Exit \<longrightarrow> location obj' = location obj)))
     \<and> (object_at w i = None \<longrightarrow> object_at w' i = None)
     \<and> (\<forall>p ch. rooted w p ch \<longrightarrow> rooted w' p ch)"

lemma same_shape_trans: "same_shape a b \<Longrightarrow> same_shape b c \<Longrightarrow> same_shape a c"
  by (simp add: same_shape_def)

lemma repairs_refl: "world_ok w \<Longrightarrow> repairs i w w"
  by (simp add: repairs_def same_shape_def)

lemma repairs_trans: "repairs i w w' \<Longrightarrow> repairs i w' w'' \<Longrightarrow> repairs i w w''"
  unfolding repairs_def by (cases "object_at w i") (fastforce simp: same_shape_def)+

lemma keys_bt_replace: "bt_ok m \<Longrightarrow> bt_get m k = Some v \<Longrightarrow> map fst (bt_insert k v' m) = map fst m"
proof (induction m)
  case (Cons x m)
  then show ?case
    by (cases x) (auto simp: bt_get_def bt_ok_Cons split: if_splits dest!: map_of_SomeD)
qed (simp add: bt_get_def)

lemma repairs_put:
  assumes "world_ok w" and "object_at w i = Some obj" and "same_shape obj' obj"
    and "obj_kind obj = Exit \<Longrightarrow> location obj' = location obj"
    and "\<And>p ch. rooted w p ch \<Longrightarrow> i \<in> set ch \<Longrightarrow> location obj' = location obj"
  shows "repairs i w (put_object i obj' w)"
proof -
  have "obj_id obj' = i" using assms(3) world_ok_id [OF assms(1,2)] by (simp add: same_shape_def)
  moreover have "map fst (objects (put_object i obj' w)) = map fst (objects w)"
    using assms(1,2) by (simp add: put_object_def object_at_def world_ok_def keys_bt_replace)
  ultimately show ?thesis
    using assms rooted_put [OF _ assms(1-3)] by (auto simp: repairs_def world_ok_put)
qed

lemma repairs_safe: "repairs i w w' \<Longrightarrow> safe_place w j p \<Longrightarrow> safe_place w' j p"
  unfolding repairs_def safe_place_iff by blast

lemma find_home_safe: "find_home w c i = Inr d \<Longrightarrow> safe_place w i (Some d)"
  by (auto simp: find_home_def safe_place_def split: option.splits dest: find_Some_iff_first)

lemma find_home_exists:
  "object_at w i = Some obj \<Longrightarrow> safe_place w i (Some (player_starting_room c)) \<Longrightarrow> \<exists>d. find_home w c i = Inr d"
  by (auto simp: find_home_def home_choices_def safe_place_def find_None_iff split: option.split)

lemma tidied_shape: "same_shape (tidied live obj) obj"
  by (simp add: tidied_def same_shape_def)

lemma tidied_twice: "tidied live (tidied live obj) = tidied live obj"
  by (auto simp: tidied_def keep_live_def split: option.split)

lemma repair_home_step:
  assumes "world_ok w" and "object_at w i = Some obj" and "repair_home c i obj w = Inr w'"
  shows "repairs i w w' \<and> (\<exists>h. object_at w' i = Some (obj\<lparr>home := h\<rparr>) \<and> safe_place w' i h)"
proof (cases "safe_place w i (home obj)")
  case True
  then show ?thesis using assms by (auto simp: repair_home_def repairs_refl intro!: exI [of _ "home obj"])
next
  case False
  then obtain d where d: "find_home w c i = Inr d" "w' = put_object i (obj\<lparr>home := Some d\<rparr>) w"
    using assms(3) by (auto simp: repair_home_def bind_result_Inr_iff)
  have r: "repairs i w w'" unfolding d(2) using assms(1,2) by (intro repairs_put) (auto simp: same_shape_def)
  then show ?thesis using repairs_safe [OF r find_home_safe [OF d(1)]] assms(1) by (auto simp: d(2))
qed

lemma repair_location_step:
  assumes "world_ok w" and "object_at w i = Some obj" and "repair_location c i obj w = Inr w'" and "obj_kind obj \<in> {Player, Thing}"
  shows "repairs i w w' \<and> (\<exists>l. object_at w' i = Some (obj\<lparr>location := l\<rparr>) \<and> safe_place w' i l)"
proof (cases "safe_place w i (location obj)")
  case True
  then show ?thesis using assms by (auto simp: repair_location_def repairs_refl intro!: exI [of _ "location obj"])
next
  case False
  then obtain d where d: "find_home w c i = Inr d" "w' = put_object i (obj\<lparr>location := Some d\<rparr>) w"
    using assms(3) by (auto simp: repair_location_def bind_result_Inr_iff)
  have "\<not> (rooted w p ch \<and> i \<in> set ch)" for p ch using rooted_member [OF _ _ assms(2)] False assms(4) by fastforce
  then have r: "repairs i w w'" unfolding d(2) using assms(1,2,4) by (intro repairs_put) (auto simp: same_shape_def)
  then show ?thesis using repairs_safe [OF r find_home_safe [OF d(1)]] assms(1) by (auto simp: d(2))
qed

lemma tidied_step:
  assumes "world_ok w" and "object_at w i = Some obj"
  shows "repairs i w (put_object i (tidied live obj) w)"
proof (intro repairs_put [OF assms tidied_shape])
  show "location (tidied live obj) = location obj" if "rooted w p ch" "i \<in> set ch" for p ch
    using rooted_member [OF that assms(2)] by (auto simp: tidied_def split: if_splits)
qed (simp add: tidied_def)

lemma tidied_home: "obj_kind obj \<in> {Player, Thing} \<Longrightarrow> tidied live (obj\<lparr>home := h\<rparr>) = (tidied live obj)\<lparr>home := h\<rparr>"
  and tidied_location: "obj_kind obj \<in> {Player, Thing} \<Longrightarrow> tidied live (obj\<lparr>location := h\<rparr>) = (tidied live obj)\<lparr>location := h\<rparr>"
  by (auto simp: tidied_def)

lemma repair_object_step:
  assumes "world_ok w" and "repair_object c live i w = Inr w'"
  shows "repairs i w w' \<and> (i \<in> set live \<longrightarrow> repaired_at w' live i)"
proof (cases "object_at w i")
  case None
  then show ?thesis using assms by (auto simp: repair_object_def repairs_refl repaired_at_def)
next
  case (Some obj)
  let ?t = "tidied live obj" and ?w = "put_object i (tidied live obj) w"
  have t: "repairs i w ?w" by (rule tidied_step [OF assms(1) Some])
  then have ok: "world_ok ?w" by (simp add: repairs_def)
  have at: "object_at ?w i = Some ?t" using assms(1) by simp
  show ?thesis
  proof (cases "i \<in> set live \<and> obj_kind obj \<in> {Player, Thing}")
    case False
    then have "if i \<in> set live then w' = ?w else w' = w"
      using assms(2) Some tidied_shape [of live obj] by (auto simp: repair_object_def Let_def same_shape_def)
    then show ?thesis
      using t assms(1) at False tidied_shape [of live obj]
      by (cases "i \<in> set live") (auto simp: repairs_refl repaired_at_def tidied_twice same_shape_def)
  next
    case True
    then have kind: "obj_kind ?t \<in> {Player, Thing}" by (simp add: tidied_def)
    then obtain w1 where h: "repair_home c i ?t ?w = Inr w1"
      and l: "(case object_at w1 i of None \<Rightarrow> Inr w1 | Some o' \<Rightarrow> repair_location c i o' w1) = Inr w'"
      using assms(2) Some True by (auto simp: repair_object_def Let_def bind_result_Inr_iff)
    obtain x where r1: "repairs i ?w w1" and at1: "object_at w1 i = Some (?t\<lparr>home := x\<rparr>)" and x: "safe_place w1 i x"
      using repair_home_step [OF ok at h] by blast
    have ok1: "world_ok w1" using r1 by (simp add: repairs_def)
    have l': "repair_location c i (?t\<lparr>home := x\<rparr>) w1 = Inr w'" using l at1 by simp
    have k: "obj_kind (?t\<lparr>home := x\<rparr>) \<in> {Player, Thing}" using kind by simp
    obtain y where r2: "repairs i w1 w'" and at2: "object_at w' i = Some (?t\<lparr>home := x, location := y\<rparr>)" and y: "safe_place w' i y"
      using repair_location_step [OF ok1 at1 l' k] by auto
    have "tidied live (?t\<lparr>home := x, location := y\<rparr>) = ?t\<lparr>home := x, location := y\<rparr>"
      using kind by (simp add: tidied_location tidied_home tidied_twice)
    then have "repaired_at w' live i" using at2 y repairs_safe [OF r2 x] by (simp add: repaired_at_def)
    then show ?thesis using repairs_trans [OF repairs_trans [OF t r1] r2] by blast
  qed
qed

lemma repair_object_total:
  assumes "world_ok w" and "\<And>obj. object_at w i = Some obj \<Longrightarrow> obj_kind obj \<in> {Player, Thing} \<Longrightarrow>
      safe_place w i (Some (player_starting_room c))"
  shows "\<exists>w'. repair_object c live i w = Inr w'"
proof (cases "object_at w i")
  case (Some obj)
  let ?t = "tidied live obj" and ?w = "put_object i (tidied live obj) w"
  show ?thesis
  proof (cases "i \<in> set live \<and> obj_kind ?t \<in> {Player, Thing}")
    case True
    have t: "repairs i w ?w" by (rule tidied_step [OF assms(1) Some])
    then have ok: "world_ok ?w" by (simp add: repairs_def)
    have at: "object_at ?w i = Some ?t" using assms(1) by simp
    have start: "safe_place ?w i (Some (player_starting_room c))"
      using True tidied_shape [of live obj] by (intro repairs_safe [OF t] assms(2) [OF Some]) (simp add: same_shape_def)
    obtain w1 where h: "repair_home c i ?t ?w = Inr w1"
      using find_home_exists [OF at start] by (cases "safe_place ?w i (home ?t)") (auto simp: repair_home_def)
    obtain x where r1: "repairs i ?w w1" and at1: "object_at w1 i = Some (?t\<lparr>home := x\<rparr>)"
      using repair_home_step [OF ok at h] by blast
    obtain w2 where "repair_location c i (?t\<lparr>home := x\<rparr>) w1 = Inr w2"
      using find_home_exists [OF at1 repairs_safe [OF r1 start]]
      by (cases "safe_place w1 i (location ?t)") (auto simp: repair_location_def)
    then show ?thesis using True Some h at1 by (auto simp: repair_object_def Let_def)
  qed (auto simp: repair_object_def Let_def Some)
qed (simp add: repair_object_def)

section \<open>The loop\<close>

text \<open>What the whole loop keeps.\<close>

definition repaired_from :: "world \<Rightarrow> world \<Rightarrow> bool" where
  "repaired_from w w' \<longleftrightarrow>
     world_ok w' \<and> map fst (objects w') = map fst (objects w)
     \<and> (\<forall>i obj. object_at w i = Some obj \<longrightarrow>
          (\<exists>obj'. object_at w' i = Some obj' \<and> same_shape obj' obj \<and> (obj_kind obj = Exit \<longrightarrow> location obj' = location obj)))
     \<and> (\<forall>i. object_at w i = None \<longrightarrow> object_at w' i = None)
     \<and> (\<forall>p ch. rooted w p ch \<longrightarrow> rooted w' p ch)"

lemma repaired_from_at:
  assumes "repaired_from w w'"
  obtains "object_at w i = None" "object_at w' i = None"
  | obj obj' where "object_at w i = Some obj" "object_at w' i = Some obj'" "obj_kind obj' = obj_kind obj" "flags obj' = flags obj"
      "destination obj' = destination obj" "obj_name obj' = obj_name obj" "obj_kind obj = Exit \<longrightarrow> location obj' = location obj"
proof (cases "object_at w i")
  case None
  then show thesis using assms that(1) by (simp add: repaired_from_def)
next
  case (Some obj)
  then obtain obj' where "object_at w' i = Some obj'" "same_shape obj' obj" "obj_kind obj = Exit \<longrightarrow> location obj' = location obj"
    using assms unfolding repaired_from_def by blast
  then show thesis using Some that(2) by (simp add: same_shape_def)
qed

lemma repairs_from:
  assumes "repairs i w w'"
  shows "repaired_from w w'"
proof -
  have "\<exists>obj'. object_at w' j = Some obj' \<and> same_shape obj' obj \<and> (obj_kind obj = Exit \<longrightarrow> location obj' = location obj)"
    if "object_at w j = Some obj" for j obj
    using assms that by (cases "j = i") (auto simp: repairs_def same_shape_def)
  moreover have "object_at w' j = None" if "object_at w j = None" for j
    using assms that by (cases "j = i") (auto simp: repairs_def)
  ultimately show ?thesis using assms by (simp add: repairs_def repaired_from_def)
qed

lemma repaired_from_trans: "repaired_from w w' \<Longrightarrow> repaired_from w' w'' \<Longrightarrow> repaired_from w w''"
  unfolding repaired_from_def by (fastforce simp: same_shape_def)

lemma repaired_from_safe: "repaired_from w w' \<Longrightarrow> safe_place w j p \<Longrightarrow> safe_place w' j p"
  unfolding repaired_from_def safe_place_iff by blast

lemma repair_loop_step:
  assumes "world_ok w" and "repair_loop c live ids w = Inr w'" and "distinct ids"
  shows "repaired_from w w' \<and> (\<forall>j. j \<notin> set ids \<longrightarrow> object_at w' j = object_at w j)
    \<and> (\<forall>i\<in>set ids \<inter> set live. repaired_at w' live i)"
  using assms
proof (induction ids arbitrary: w)
  case Nil
  then show ?case by (simp add: repaired_from_def same_shape_def)
next
  case (Cons i ids)
  then obtain w1 where w1: "repair_object c live i w = Inr w1" "repair_loop c live ids w1 = Inr w'"
    by (auto simp: bind_result_Inr_iff)
  note step = repair_object_step [OF Cons.prems(1) w1(1)]
  then have ok: "world_ok w1" by (simp add: repairs_def)
  note IH = Cons.IH [OF ok w1(2)]
  have same: "object_at w' i = object_at w1 i" using IH Cons.prems(3) by simp
  have "repaired_at w' live i" if "i \<in> set live"
    using step that repaired_from_safe [of w1 w'] IH Cons.prems(3) same by (auto simp: repaired_at_def)
  moreover have "object_at w' j = object_at w j" if "j \<notin> set (i # ids)" for j
    using that IH Cons.prems(3) step by (simp add: repairs_def)
  ultimately show ?case using IH Cons.prems(3) repaired_from_trans [OF repairs_from] step by auto
qed

lemma repair_loop_total:
  assumes "world_ok w" and "rooted w (Some (player_starting_room c)) [player_starting_room c]"
  shows "\<exists>w'. repair_loop c live ids w = Inr w'"
  using assms
proof (induction ids arbitrary: w)
  case (Cons i ids)
  have "safe_place w i (Some (player_starting_room c))" if "object_at w i = Some obj" "obj_kind obj \<in> {Player, Thing}" for obj
    using Cons.prems(2) that by (auto simp: safe_place_iff rooted_def is_room_def intro!: exI [of _ "[player_starting_room c]"])
  then obtain w1 where w1: "repair_object c live i w = Inr w1" using repair_object_total [OF Cons.prems(1)] by blast
  then have "repairs i w w1" using repair_object_step [OF Cons.prems(1)] by blast
  then have "world_ok w1" "rooted w1 (Some (player_starting_room c)) [player_starting_room c]"
    using Cons.prems(2) by (auto simp: repairs_def)
  then show ?case using Cons.IH w1 by simp
qed simp

section \<open>Phases\<close>

lemma clear_protected_step:
  assumes "world_ok w" and "clear_protected ids w = Inr (w', fs)"
  shows "world_ok w' \<and> map fst (objects w') = map fst (objects w)
    \<and> (\<forall>i. object_at w' i = map_option (\<lambda>obj. if i \<in> set ids then obj\<lparr>flags := flags obj - {Going}\<rparr> else obj) (object_at w i))
    \<and> (\<forall>i\<in>set ids. \<exists>obj. object_at w i = Some obj \<and> obj_kind obj \<noteq> Garbage)"
  using assms
proof (induction ids w arbitrary: w' fs rule: clear_protected.induct)
  case (1 w)
  then show ?case by (simp add: option.map_ident)
next
  case (2 i ids w)
  then obtain obj fs' where obj: "object_at w i = Some obj" "obj_kind obj \<noteq> Garbage"
    and rest: "clear_protected ids (put_object i (obj\<lparr>flags := flags obj - {Going}\<rparr>) w) = Inr (w', fs')"
    by (auto simp: bind_result_Inr_iff split: option.splits)
  let ?w = "put_object i (obj\<lparr>flags := flags obj - {Going}\<rparr>) w"
  have ok: "world_ok ?w" using 2(2) world_ok_id [OF 2(2) obj(1)] by (simp add: world_ok_put)
  have keys: "map fst (objects ?w) = map fst (objects w)"
    using 2(2) obj(1) by (simp add: put_object_def object_at_def world_ok_def keys_bt_replace)
  note IH = 2(1) [OF obj ok rest]
  have "object_at w' j = map_option (\<lambda>obj. if j \<in> set (i # ids) then obj\<lparr>flags := flags obj - {Going}\<rparr> else obj) (object_at w j)" for j
    using IH 2(2) obj(1) by (cases "j = i"; cases "object_at w j") auto
  moreover have "\<exists>obj. object_at w j = Some obj \<and> obj_kind obj \<noteq> Garbage" if "j \<in> set (i # ids)" for j
    using bspec [OF IH [THEN conjunct2, THEN conjunct2, THEN conjunct2], of j] 2(2) obj that by (cases "j = i") auto
  ultimately show ?case using IH keys by simp
qed

lemma clear_protected_total:
  assumes "world_ok w" and "\<forall>i\<in>set ids. \<exists>obj. object_at w i = Some obj \<and> obj_kind obj \<noteq> Garbage"
  shows "\<exists>w' fs. clear_protected ids w = Inr (w', fs)"
  using assms
proof (induction ids w rule: clear_protected.induct)
  case (2 i ids w)
  then obtain obj where obj: "object_at w i = Some obj" "obj_kind obj \<noteq> Garbage" by auto
  let ?w = "put_object i (obj\<lparr>flags := flags obj - {Going}\<rparr>) w"
  have ok: "world_ok ?w" using 2(2) world_ok_id [OF 2(2) obj(1)] by (simp add: world_ok_put)
  have "\<exists>obj. object_at ?w j = Some obj \<and> obj_kind obj \<noteq> Garbage" if "j \<in> set ids" for j
    using 2(2,3) obj that by (cases "j = i") auto
  then obtain w' fs where "clear_protected ids ?w = Inr (w', fs)" using 2(1) [OF obj ok] by blast
  then show ?case using obj by simp
qed simp

lemma object_at_resolve:
  "object_at (resolve_claims raw w) i = map_option (\<lambda>obj.
     if obj_kind obj = Garbage \<or> Going \<in> flags obj \<or> obj_kind obj = Room then obj
     else obj\<lparr>location := claimed_location (location obj) (claimants w raw i)\<rparr>) (object_at w i)"
  unfolding resolve_claims_def by (rule object_at_map_objects)

lemma object_at_doom:
  "object_at (doom_exits w) i = map_option (\<lambda>obj.
     if obj_kind obj = Exit \<and> (\<not> endpoint_ok w (location obj) \<or> \<not> endpoint_ok w (destination obj))
     then obj\<lparr>flags := insert Going (flags obj)\<rparr> else obj) (object_at w i)"
  unfolding doom_exits_def by (rule object_at_map_objects)

lemma world_ok_resolve: "world_ok w \<Longrightarrow> world_ok (resolve_claims raw w)"
  unfolding resolve_claims_def by (rule world_ok_map_objects) auto

lemma world_ok_doom: "world_ok w \<Longrightarrow> world_ok (doom_exits w)"
  unfolding doom_exits_def by (rule world_ok_map_objects) auto

lemma live_container_doom: "live_container (doom_exits w) j = live_container w j"
  by (auto simp: live_container_def object_at_doom holds_lists_def split: option.split)

lemma endpoint_ok_doom: "endpoint_ok (doom_exits w) e = endpoint_ok w e"
  by (simp add: endpoint_ok_def live_container_doom split: option.split)

text \<open>Exits that survive lead from a live container to a live container.\<close>

lemma doom_exits_sound:
  assumes "object_at (doom_exits w) i = Some obj" and "obj_kind obj = Exit" and "Going \<notin> flags obj"
  shows "endpoint_ok (doom_exits w) (location obj) \<and> endpoint_ok (doom_exits w) (destination obj)"
proof -
  obtain o' where o': "obj = (if obj_kind o' = Exit \<and> (\<not> endpoint_ok w (location o') \<or> \<not> endpoint_ok w (destination o'))
      then o'\<lparr>flags := insert Going (flags o')\<rparr> else o')"
    using assms(1) by (auto simp: object_at_doom)
  show ?thesis
  proof (cases "obj_kind o' = Exit \<and> (\<not> endpoint_ok w (location o') \<or> \<not> endpoint_ok w (destination o'))")
    case True
    then show ?thesis using o' assms(3) by simp
  next
    case False
    then have "obj = o'" unfolding o' by (rule if_not_P)
    then show ?thesis using False assms(2) by (simp add: endpoint_ok_doom)
  qed
qed

section \<open>Repaired tables\<close>

text \<open>What a repaired table satisfies.\<close>

definition consistent :: "world \<Rightarrow> bool" where
  "consistent w \<longleftrightarrow>
     (\<forall>i obj. object_at w i = Some obj \<longrightarrow> obj_kind obj \<noteq> Garbage \<longrightarrow>
        Going \<notin> flags obj
        \<and> (obj_kind obj = Exit \<longrightarrow> endpoint_ok w (location obj) \<and> endpoint_ok w (destination obj))
        \<and> repaired_at w (surviving_ids w) i)"

lemma surviving_ids_shape:
  assumes "repaired_from w w'" and "world_ok w"
  shows "set (surviving_ids w') = set (surviving_ids w)"
proof -
  have "world_ok w'" using assms(1) by (simp add: repaired_from_def)
  moreover have "i \<in> set (surviving_ids w') \<longleftrightarrow> i \<in> set (surviving_ids w)" for i
    unfolding in_surviving_ids [OF \<open>world_ok w'\<close>] in_surviving_ids [OF assms(2)]
    by (rule repaired_from_at [OF assms(1), of i]) auto
  ultimately show ?thesis by blast
qed

lemma tidied_live: "set live = set live' \<Longrightarrow> tidied live obj = tidied live' obj"
proof -
  assume "set live = set live'"
  then have "keep_live live = keep_live live'" by (auto simp: keep_live_def fun_eq_iff split: option.split)
  then show ?thesis by (simp add: tidied_def)
qed

lemma object_at_purge:
  "object_at (purge_objects ids w) i = map_option (\<lambda>obj. if i \<in> set ids then purged_object obj else obj) (object_at w i)"
  unfolding purge_objects_def by (rule object_at_map_objects)

lemma world_ok_purge: "world_ok w \<Longrightarrow> world_ok (purge_objects ids w)"
  unfolding purge_objects_def by (rule world_ok_map_objects) (auto simp: purged_object_def)

lemma purge_keeps_rooted:
  assumes "world_ok w" and "rooted w p ch" and "set ids = set (purge_ids w)"
  shows "rooted (purge_objects ids w) p ch"
proof -
  have keep: "object_at (purge_objects ids w) j = object_at w j" if "live_container w j" for j
    using that assms(1,3) by (auto simp: object_at_purge in_purge_ids live_container_def doomed_def split: option.splits)
  have "enclosed (purge_objects ids w) p ch"
    using assms(2) unfolding rooted_def
  proof (induction ch arbitrary: p)
    case Nil
    then show ?case by simp
  next
    case (Cons i ch)
    have "enclosed w p (i # ch)" "live_container w i" using Cons.prems by auto
    then show ?case
    proof (cases rule: enclosed.cases)
      case (enclosed_room obj)
      then show ?thesis using keep [OF \<open>live_container w i\<close>] by (auto intro: enclosed.enclosed_room)
    next
      case (enclosed_in obj)
      have "enclosed (purge_objects ids w) (location obj) ch"
      proof (cases "ch = []")
        case True
        then have "location obj = None" using enclosed_in by (cases "location obj") (auto elim: enclosed_SomeE)
        then show ?thesis using True by (simp add: enclosed_none)
      next
        case False
        then show ?thesis using Cons.prems enclosed_in by (intro Cons.IH) auto
      qed
      then show ?thesis
        using enclosed_in keep [OF \<open>live_container w i\<close>] by (auto intro!: enclosed.enclosed_in [of _ _ obj])
    qed
  qed
  moreover have "live_container (purge_objects ids w) j = live_container w j" if "live_container w j" for j
    using keep [OF that] by (simp add: live_container_def)
  moreover have "is_room (purge_objects ids w) (last ch) = is_room w (last ch)"
    using keep [of "last ch"] assms(2) by (auto simp: rooted_def is_room_def)
  ultimately show ?thesis using assms(2) by (auto simp: rooted_def)
qed

lemma live_container_iff:
  "live_container w j \<longleftrightarrow> (\<exists>obj. object_at w j = Some obj \<and> holds_lists obj \<and> Going \<notin> flags obj)"
  by (auto simp: live_container_def split: option.splits)

lemma kind_purged [simp]: "obj_kind (purged_object obj) = Garbage"
  by (simp add: purged_object_def)

lemma purge_consistent:
  assumes "world_ok w" and "set ids = set (purge_ids w)"
    and exits: "\<And>i obj. object_at w i = Some obj \<Longrightarrow> obj_kind obj = Exit \<Longrightarrow> Going \<notin> flags obj \<Longrightarrow>
      endpoint_ok w (location obj) \<and> endpoint_ok w (destination obj)"
    and live: "\<And>i. i \<in> set (surviving_ids w) \<Longrightarrow> repaired_at w (surviving_ids w) i"
  shows "consistent (purge_objects ids w)"
proof -
  let ?w = "purge_objects ids w"
  have same: "object_at ?w i = Some obj \<and> obj_kind obj \<noteq> Garbage \<longleftrightarrow>
      object_at w i = Some obj \<and> obj_kind obj \<noteq> Garbage \<and> Going \<notin> flags obj" for i obj
    using assms(1,2) by (cases "object_at w i") (auto simp: object_at_purge in_purge_ids doomed_def)
  then have "i \<in> set (surviving_ids ?w) \<longleftrightarrow> i \<in> set (surviving_ids w)" for i
    unfolding in_surviving_ids [OF world_ok_purge [OF assms(1)]] in_surviving_ids [OF assms(1)] by blast
  then have set: "set (surviving_ids ?w) = set (surviving_ids w)" by blast
  have safe: "safe_place ?w i p" if "safe_place w i p" for i p
    using that purge_keeps_rooted [OF assms(1) _ assms(2)] by (auto simp: safe_place_iff)
  have "live_container ?w j" if l: "live_container w j" for j
  proof -
    obtain obj where "object_at w j = Some obj" "holds_lists obj" "Going \<notin> flags obj" using l by (auto simp: live_container_iff)
    then show ?thesis using same [of j obj] by (auto simp: live_container_iff holds_lists_def)
  qed
  then have endpoint: "endpoint_ok ?w e" if "endpoint_ok w e" for e using that by (auto simp: endpoint_ok_def split: option.splits)
  show ?thesis
    unfolding consistent_def
  proof (intro allI impI conjI)
    fix i obj
    assume "object_at ?w i = Some obj" "obj_kind obj \<noteq> Garbage"
    then have at: "object_at w i = Some obj" "Going \<notin> flags obj" "obj_kind obj \<noteq> Garbage" using same by blast+
    then show "Going \<notin> flags obj" by simp
    show "endpoint_ok ?w (location obj)" "endpoint_ok ?w (destination obj)" if "obj_kind obj = Exit"
      using exits [OF at(1) that at(2)] endpoint by auto
    have "i \<in> set (surviving_ids w)" using at in_surviving_ids [OF assms(1)] by blast
    then have "repaired_at w (surviving_ids w) i" by (rule live)
    then show "repaired_at ?w (surviving_ids ?w) i"
      using at same safe tidied_live [OF set] \<open>object_at ?w i = Some obj\<close> by (auto simp: repaired_at_def)
  qed
qed

lemma repair_objects_facts:
  assumes "world_ok w" and "repair_objects c raw w = Inr (w', purges, fs)"
  shows "world_ok w' \<and> map fst (objects w') = map fst (objects w) \<and> consistent w'
    \<and> (\<forall>i obj. object_at w i = Some obj \<longrightarrow> (\<exists>obj'. object_at w' i = Some obj'
        \<and> (if i \<in> set purges then obj_kind obj' = Garbage
           else obj_kind obj' = obj_kind obj \<and> destination obj' = destination obj \<and> obj_name obj' = obj_name obj)
        \<and> (i \<in> set (protected_ids c) \<and> obj_kind obj \<noteq> Exit \<longrightarrow> i \<notin> set purges)))"
proof -
  obtain w1 fs1 where w1: "clear_protected (protected_ids c) w = Inr (w1, fs1)"
    and rest: "(let w = doom_exits (resolve_claims raw w1); purges = purge_ids w
         in bind_result (repair_loop c (surviving_ids w) (map fst (objects w)) w) (\<lambda>w.
              Inr (purge_objects purges w, purges, fs1 @ map Purged purges))) = Inr (w', purges, fs)"
    using assms(2) by (auto simp: repair_objects_def bind_result_Inr_iff)
  note c = clear_protected_step [OF assms(1) w1]
  define w2 where "w2 = doom_exits (resolve_claims raw w1)"
  have ok2: "world_ok w2" unfolding w2_def using c by (simp add: world_ok_doom world_ok_resolve)
  obtain w3 where w3: "repair_loop c (surviving_ids w2) (map fst (objects w2)) w2 = Inr w3"
    and w': "w' = purge_objects (purge_ids w2) w3" and purges_eq: "purges = purge_ids w2"
    using rest by (auto simp: Let_def w2_def bind_result_Inr_iff)
  have "distinct (map fst (objects w2))" using ok2 bt_ok_distinct by (auto simp: world_ok_def)
  note loop = repair_loop_step [OF ok2 w3 this]
  have from2: "repaired_from w2 w3" using loop by simp
  have ok3: "world_ok w3" using from2 by (simp add: repaired_from_def)
  have live: "set (surviving_ids w3) = set (surviving_ids w2)" by (rule surviving_ids_shape [OF from2 ok2])
  have purges: "set (purge_ids w2) = set (purge_ids w3)"
  proof -
    have "i \<in> set (purge_ids w3) \<longleftrightarrow> i \<in> set (purge_ids w2)" for i
      unfolding in_purge_ids [OF ok3] in_purge_ids [OF ok2]
      by (rule repaired_from_at [OF from2, of i]) (auto simp: doomed_def)
    then show ?thesis by blast
  qed
  have keys: "map fst (objects w') = map fst (objects w)"
    using c from2
    by (simp add: w' purge_objects_def keys_map_objects repaired_from_def w2_def doom_exits_def resolve_claims_def)
  have containers: "live_container w3 j" if "live_container w2 j" for j
    using that by (rule_tac repaired_from_at [OF from2, of j]) (auto simp: live_container_iff holds_lists_def)
  then have endpoint: "endpoint_ok w3 e" if "endpoint_ok w2 e" for e using that by (auto simp: endpoint_ok_def split: option.splits)
  have cons: "consistent w'" unfolding w'
  proof (rule purge_consistent [OF ok3 purges])
    fix i obj
    assume "object_at w3 i = Some obj" "obj_kind obj = Exit" "Going \<notin> flags obj"
    then obtain o2 where "object_at w2 i = Some o2" "obj_kind o2 = Exit" "Going \<notin> flags o2"
      "location obj = location o2" "destination obj = destination o2"
      by (rule_tac repaired_from_at [OF from2, of i]) auto
    then show "endpoint_ok w3 (location obj) \<and> endpoint_ok w3 (destination obj)"
      using doom_exits_sound endpoint unfolding w2_def by metis
  next
    fix i
    assume "i \<in> set (surviving_ids w3)"
    then have "i \<in> set (surviving_ids w2)" "i \<in> set (map fst (objects w2))"
      using live in_surviving_ids [OF ok2] by (auto dest: object_at_key)
    then show "repaired_at w3 (surviving_ids w3) i"
      using loop tidied_live [OF live] by (auto simp: repaired_at_def)
  qed
  have "\<exists>obj'. object_at w' i = Some obj'
        \<and> (if i \<in> set purges then obj_kind obj' = Garbage
           else obj_kind obj' = obj_kind obj \<and> destination obj' = destination obj \<and> obj_name obj' = obj_name obj)
        \<and> (i \<in> set (protected_ids c) \<and> obj_kind obj \<noteq> Exit \<longrightarrow> i \<notin> set purges)"
    if at: "object_at w i = Some obj" for i obj
  proof -
    obtain o1 where o1: "object_at w1 i = Some o1" "obj_kind o1 = obj_kind obj" "destination o1 = destination obj" "obj_name o1 = obj_name obj"
      "i \<in> set (protected_ids c) \<Longrightarrow> Going \<notin> flags o1"
      using c at by auto
    obtain o2 where o2: "object_at w2 i = Some o2" "obj_kind o2 = obj_kind obj" "destination o2 = destination obj" "obj_name o2 = obj_name obj"
      "i \<in> set (protected_ids c) \<Longrightarrow> obj_kind obj \<noteq> Exit \<Longrightarrow> Going \<notin> flags o2"
      using o1 by (auto simp: w2_def object_at_doom object_at_resolve)
    obtain o3 where o3: "object_at w3 i = Some o3" "obj_kind o3 = obj_kind obj" "destination o3 = destination obj" "obj_name o3 = obj_name obj"
      using o2(1-4) by (rule_tac repaired_from_at [OF from2, of i]) auto
    show ?thesis
      using o2 o3 ok2 by (auto simp: w' purges_eq object_at_purge in_purge_ids doomed_def)
  qed
  then show ?thesis using keys cons ok3 by (simp add: w' world_ok_purge)
qed

section \<open>Validity\<close>

lemma still_there_iff: "still_there w i \<longleftrightarrow> (\<exists>obj. object_at w i = Some obj \<and> obj_kind obj \<noteq> Garbage)"
  by (auto simp: still_there_def split: option.splits)

lemma endpoint_ok_iff: "endpoint_ok w e \<longleftrightarrow> (\<exists>i. e = Some i \<and> live_container w i)"
  by (auto simp: endpoint_ok_def split: option.splits)

lemma live_container_there: "live_container w i \<Longrightarrow> still_there w i"
  by (auto simp: live_container_iff still_there_def holds_lists_def)

lemma endpoint_there: "endpoint_ok w (Some d) \<Longrightarrow> still_there w d"
  by (simp add: endpoint_ok_def live_container_there)

lemma safe_place_there: "safe_place w i (Some d) \<Longrightarrow> still_there w d"
proof -
  assume "safe_place w i (Some d)"
  then obtain ch where ch: "enclosed w (Some d) ch" "\<forall>j\<in>set ch. live_container w j" by (auto simp: safe_place_iff rooted_def)
  then have "d \<in> set ch" by (cases rule: enclosed.cases) auto
  then show ?thesis using ch(2) live_container_there by blast
qed

lemma keep_live_there:
  assumes "world_ok w" and "keep_live (surviving_ids w) r = r" and "r = Some d"
  shows "still_there w d"
  using assms in_surviving_ids [OF assms(1)] by (auto simp: keep_live_def still_there_def split: if_splits)

lemma tidied_fixed:
  assumes "tidied live obj = obj"
  shows "keep_live live (zone obj) = zone obj" and "keep_live live (affiliation obj) = affiliation obj"
    and "keep_live live (dropto obj) = dropto obj" and "obj_kind obj = Room \<Longrightarrow> location obj = None"
    and "obj_kind obj = Room \<or> obj_kind obj = Exit \<Longrightarrow> home obj = None"
proof -
  show "keep_live live (zone obj) = zone obj" using arg_cong [OF assms, of zone] by (simp add: tidied_def)
  show "keep_live live (affiliation obj) = affiliation obj" using arg_cong [OF assms, of affiliation] by (simp add: tidied_def)
  show "keep_live live (dropto obj) = dropto obj" using arg_cong [OF assms, of dropto] by (simp add: tidied_def)
  show "obj_kind obj = Room \<Longrightarrow> location obj = None" using arg_cong [OF assms, of location] by (simp add: tidied_def)
  show "obj_kind obj = Room \<or> obj_kind obj = Exit \<Longrightarrow> home obj = None" using arg_cong [OF assms, of home] by (auto simp: tidied_def)
qed

text \<open>The chain above a live container.\<close>

lemma consistent_rooted:
  assumes "consistent w" and "live_container w l"
  shows "\<exists>ch. rooted w (Some l) ch"
proof -
  obtain obj where obj: "object_at w l = Some obj" "holds_lists obj" using assms(2) by (auto simp: live_container_iff)
  then have rep: "repaired_at w (surviving_ids w) l" using assms(1) by (auto simp: consistent_def holds_lists_def)
  show ?thesis
  proof (cases "obj_kind obj = Room")
    case True
    then have "location obj = None" using rep obj(1) tidied_fixed by (auto simp: repaired_at_def)
    then have "rooted w (Some l) [l]"
      using True obj(1) assms(2) by (auto simp: rooted_def is_room_def intro: enclosed_room)
    then show ?thesis by blast
  next
    case False
    then have kind: "obj_kind obj = Player \<or> obj_kind obj = Thing" using obj(2) by (auto simp: holds_lists_def)
    then obtain ch where ch: "rooted w (location obj) ch" using rep obj(1) by (auto simp: repaired_at_def safe_place_iff)
    then have "rooted w (Some l) (l # ch)"
      using kind obj(1) assms(2) by (auto simp: rooted_def intro: enclosed_in)
    then show ?thesis by blast
  qed
qed

lemma consistent_valid:
  assumes "world_ok w" and "consistent w"
    and dest: "\<And>i obj. object_at w i = Some obj \<Longrightarrow> obj_kind obj \<notin> {Exit, Garbage} \<Longrightarrow> destination obj = None"
  shows "validate_objects w"
proof -
  have "validate_location w obj = Inr () \<and> list_all (still_there w) (references obj)"
    if at: "object_at w i = Some obj" and live: "obj_kind obj \<noteq> Garbage" for i obj
  proof -
    have id: "obj_id obj = i" using assms(1) at by (rule world_ok_id)
    have rep: "tidied (surviving_ids w) obj = obj"
      "obj_kind obj \<in> {Player, Thing} \<Longrightarrow> safe_place w i (home obj) \<and> safe_place w i (location obj)"
      and exits: "obj_kind obj = Exit \<Longrightarrow> endpoint_ok w (location obj) \<and> endpoint_ok w (destination obj)"
      using assms(2) at live by (auto simp: consistent_def repaired_at_def)
    note fixed = tidied_fixed [OF rep(1)]
    have "location_ok w obj"
    proof (cases "obj_kind obj")
      case Exit
      then obtain l where l: "location obj = Some l" "live_container w l" using exits by (auto simp: endpoint_ok_def split: option.splits)
      obtain ch where "rooted w (Some l) ch" using consistent_rooted [OF assms(2) l(2)] by blast
      moreover have "\<not> live_container w i" using at Exit by (simp add: live_container_iff holds_lists_def)
      ultimately show ?thesis using l(1) Exit by (auto simp: location_ok_def rooted_def id)
    qed (use rep(2) fixed live in \<open>auto simp: location_ok_def id safe_place_iff rooted_def intro: enclosed_none\<close>)
    moreover have "still_there w d" if "Some d \<in> {location obj, home obj, destination obj, zone obj, affiliation obj, dropto obj}" for d
    proof -
      have "still_there w d" if "zone obj = Some d \<or> affiliation obj = Some d \<or> dropto obj = Some d"
        using that keep_live_there [OF assms(1)] fixed(1-3) by blast
      moreover have "still_there w d" if "location obj = Some d \<or> home obj = Some d \<or> destination obj = Some d"
        using that rep(2) exits fixed(4,5) dest [OF at] live safe_place_there [of w i d] endpoint_there [of w d]
        by (cases "obj_kind obj") auto
      ultimately show ?thesis using that by auto
    qed
    ultimately show ?thesis
      by (auto simp: validate_location_iff references_def list_all_iff map_filter_def split: if_splits)
  qed
  then show ?thesis using assms(1) by (auto simp: validate_objects_def list_all_iff world_ok_at)
qed

section \<open>Checking again\<close>

lemma clear_protected_same:
  assumes "world_ok w" and "\<And>i. i \<in> set ids \<Longrightarrow> \<exists>obj. object_at w i = Some obj \<and> obj_kind obj \<noteq> Garbage \<and> Going \<notin> flags obj"
  shows "clear_protected ids w = Inr (w, [])"
  using assms(2)
proof (induction ids)
  case (Cons i ids)
  then obtain obj where "object_at w i = Some obj" "obj_kind obj \<noteq> Garbage" "Going \<notin> flags obj" by auto
  then show ?case using Cons put_same [OF assms(1)] by auto
qed simp

lemma repair_object_same:
  assumes "world_ok w" and "i \<in> set live \<Longrightarrow> repaired_at w live i"
  shows "repair_object c live i w = Inr w"
proof (cases "object_at w i")
  case (Some obj)
  then show ?thesis
    using assms put_same [OF assms(1) Some] by (auto simp: repair_object_def repaired_at_def repair_home_def repair_location_def)
qed (simp add: repair_object_def)

lemma repair_loop_same:
  "world_ok w \<Longrightarrow> (\<And>i. i \<in> set live \<Longrightarrow> repaired_at w live i) \<Longrightarrow> repair_loop c live ids w = Inr w"
  by (induction ids) (simp_all add: repair_object_same)

lemma in_claimants: "l \<in> set (claimants w raw m) \<longleftrightarrow> live_container w l \<and> (\<exists>e. m \<in> set (link_chain w raw l e))"
proof -
  let ?claims = "\<lambda>i. if live_container w i
       then concat (map (\<lambda>exits. if m \<in> set (link_chain w raw i exits) then [i] else []) [False, True]) else []"
  have at: "live_container w l \<Longrightarrow> l \<in> fst ` set (objects w)" by (auto simp: live_container_iff dest: object_at_key)
  have "claimants w raw m = concat (map ?claims (map fst (objects w)))"
    unfolding claimants_def map_map comp_def case_prod_unfold by (rule refl)
  then have "l \<in> set (claimants w raw m) \<longleftrightarrow> l \<in> fst ` set (objects w) \<and> l \<in> set (?claims l)"
    by (auto split: if_splits)
  also have "\<dots> \<longleftrightarrow> live_container w l \<and> (\<exists>e. m \<in> set (link_chain w raw l e))"
    using at by (auto simp: ex_bool_eq)
  finally show ?thesis .
qed

lemma claimed_location_kept: "l \<in> set owners \<Longrightarrow> claimed_location (Some l) owners = Some l"
  by (auto simp: claimed_location_def split: list.split)

text \<open>In a consistent table with rebuilt lists everything that is somewhere is claimed where it is.\<close>

lemma consistent_located:
  assumes "consistent w" and "object_at w i = Some obj" and "obj_kind obj \<notin> {Garbage, Room}"
  shows "\<exists>l. location obj = Some l \<and> live_container w l"
proof (cases "obj_kind obj = Exit")
  case True
  then show ?thesis using assms by (auto simp: consistent_def endpoint_ok_iff)
next
  case False
  then have "safe_place w i (location obj)" using assms by (cases "obj_kind obj") (auto simp: consistent_def repaired_at_def)
  then obtain ch where ch: "rooted w (location obj) ch" unfolding safe_place_iff by blast
  then obtain l where "location obj = Some l" by (cases "location obj") (auto simp: rooted_def elim: enclosed_NoneE)
  with ch have "rooted w (location obj) ch" "location obj = Some l" by simp_all
  moreover from this have "l \<in> set ch" by (auto simp: rooted_def elim: enclosed.cases)
  ultimately show ?thesis by (auto simp: rooted_def)
qed

lemma consistent_claimed:
  assumes "world_ok w" and "ids_ok w" and "consistent w" and at: "object_at w i = Some obj" and "obj_kind obj \<notin> {Garbage, Room}"
  shows "claimed_location (location obj) (claimants w (rebuild_links w raw) i) = location obj"
proof -
  obtain l where l: "location obj = Some l" "live_container w l" using consistent_located [OF assms(3-5)] by blast
  then obtain lo where lo: "object_at w l = Some lo" "holds_lists lo" by (auto simp: live_container_iff)
  have "i \<in> set (link_chain w (rebuild_links w raw) l (obj_kind obj = Exit))"
    unfolding link_chain_rebuild [OF assms(1,2) lo] ordered_members_set member_ids_iff [OF assms(1)]
    using at l(1) assms(5) by (cases "obj_kind obj") (auto simp: list_kind_def)
  then show ?thesis using l in_claimants claimed_location_kept by metis
qed

lemma consistent_fixed:
  assumes "world_ok w" and "ids_ok w" and "consistent w"
    and god: "\<exists>obj. object_at w 1 = Some obj \<and> obj_kind obj = Player"
    and protected: "\<And>i. i \<in> set (protected_ids c) \<Longrightarrow> still_there w i"
  shows "repair_objects c (rebuild_links w raw) w = Inr (w, [], [])"
proof -
  have live: "Going \<notin> flags obj" if "object_at w i = Some obj" "obj_kind obj \<noteq> Garbage" for i obj
    using assms(3) that by (simp add: consistent_def)
  have "clear_protected (protected_ids c) w = Inr (w, [])"
    using protected live unfolding still_there_iff by (intro clear_protected_same [OF assms(1)]) blast
  moreover have "resolve_claims (rebuild_links w raw) w = w"
    unfolding resolve_claims_def
    using consistent_claimed [OF assms(1-3)] by (intro map_objects_same [OF assms(1)]) auto
  moreover have "doom_exits w = w"
    unfolding doom_exits_def
    using assms(3) by (intro map_objects_same [OF assms(1)]) (auto simp: consistent_def)
  moreover have "purge_ids w = []"
  proof -
    have "i \<notin> set (purge_ids w)" for i using live in_purge_ids [OF assms(1)] by (auto simp: doomed_def)
    then show ?thesis by (cases "purge_ids w") auto
  qed
  moreover have "repair_loop c (surviving_ids w) ids w = Inr w" for ids
    using assms(3) in_surviving_ids [OF assms(1)] by (intro repair_loop_same [OF assms(1)]) (auto simp: consistent_def)
  moreover have "purge_objects [] w = w" unfolding purge_objects_def by (intro map_objects_same [OF assms(1)]) simp
  ultimately show ?thesis using god by (auto simp: repair_objects_def Let_def)
qed

section \<open>Properties\<close>

text \<open>
  The object check always repairs: on a table in which God is a player, the protected objects are there, the
  starting room is a room that is nowhere and only exits lead anywhere, it succeeds whatever else is wrong, and
  the table it returns passes the object part of world validation; no object leaves the table, every object
  keeps its kind unless it is purged, and no protected object that is not an exit is purged.\<close>
lemma repair_objects_total:
  assumes "world_ok w" and "object_at w 1 = Some god" and "obj_kind god = Player"
    and "\<forall>i\<in>set (protected_ids c). still_there w i"
    and "0 \<le> player_starting_room c" and "object_at w (player_starting_room c) = Some r" and "obj_kind r = Room" and "location r = None"
    and "\<forall>i obj. object_at w i = Some obj \<and> obj_kind obj \<notin> {Exit, Garbage} \<longrightarrow> destination obj = None"
  shows "\<exists>w' purges fs. repair_objects c raw w = Inr (w', purges, fs) \<and> validate_objects w' \<and> world_ok w'
    \<and> map fst (objects w') = map fst (objects w)
    \<and> (\<forall>i obj. object_at w i = Some obj \<longrightarrow> (\<exists>obj'. object_at w' i = Some obj'
        \<and> (if i \<in> set purges then obj_kind obj' = Garbage
           else obj_kind obj' = obj_kind obj \<and> destination obj' = destination obj \<and> obj_name obj' = obj_name obj)
        \<and> (i \<in> set (protected_ids c) \<and> obj_kind obj \<noteq> Exit \<longrightarrow> i \<notin> set purges)))"
proof -
  let ?start = "player_starting_room c"
  obtain w1 fs1 where w1: "clear_protected (protected_ids c) w = Inr (w1, fs1)"
    using clear_protected_total [OF assms(1)] assms(4) unfolding still_there_iff by blast
  note clear = clear_protected_step [OF assms(1) w1]
  define w2 where "w2 = doom_exits (resolve_claims raw w1)"
  have ok2: "world_ok w2" unfolding w2_def using clear by (simp add: world_ok_doom world_ok_resolve)
  have "?start \<in> set (protected_ids c)" using assms(5) by (simp add: protected_ids_def)
  then have "\<exists>o2. object_at w2 ?start = Some o2 \<and> obj_kind o2 = Room \<and> location o2 = None \<and> Going \<notin> flags o2"
    using clear assms(6-8) by (simp add: w2_def object_at_doom object_at_resolve)
  then have "rooted w2 (Some ?start) [?start]"
    by (auto simp: rooted_def is_room_def live_container_iff holds_lists_def intro: enclosed_room)
  then obtain w3 where "repair_loop c (surviving_ids w2) (map fst (objects w2)) w2 = Inr w3"
    using repair_loop_total [OF ok2] by blast
  then obtain w' purges fs where w': "repair_objects c raw w = Inr (w', purges, fs)"
    using w1 assms(2,3) by (auto simp: repair_objects_def Let_def w2_def)
  note facts = repair_objects_facts [OF assms(1) w']
  have "destination obj' = None" if at: "object_at w' i = Some obj'" and kind: "obj_kind obj' \<notin> {Exit, Garbage}" for i obj'
  proof -
    have "i \<in> set (map fst (objects w))" using facts at by (metis list.set_map object_at_key)
    then obtain obj where obj: "object_at w i = Some obj"
      using assms(1) by (force simp: object_at_def bt_get_in_set world_ok_def)
    then have "\<exists>o'. object_at w' i = Some o' \<and> (if i \<in> set purges then obj_kind o' = Garbage
        else obj_kind o' = obj_kind obj \<and> destination o' = destination obj)" using facts by meson
    then have "obj_kind obj' = obj_kind obj \<and> destination obj' = destination obj" using at kind by (auto split: if_splits)
    then show ?thesis using assms(9) obj kind by auto
  qed
  then have "validate_objects w'" using facts by (intro consistent_valid) auto
  then show ?thesis using w' facts by blast
qed

text \<open>
  A broken table: the box is inside itself, the player is in an object that is gone, an exit leads nowhere and the
  limbo room is marked for destruction.\<close>

definition broken_world :: world where
  "broken_world =
     \<lparr>objects = [(0, (sample_object 0 Room None)\<lparr>flags := {Going}\<rparr>), (1, sample_object 1 Player (Some 9)),
                 (2, sample_object 2 Thing (Some 2)), (3, sample_object 3 Exit (Some 0))]\<rparr>"

definition sample_config :: repair_config where
  "sample_config = \<lparr>player_starting_room = 0, player_starting_home = 0, default_home = 0\<rparr>"

lemma broken_world_at:
  "object_at broken_world i =
     (if i = 0 then Some ((sample_object 0 Room None)\<lparr>flags := {Going}\<rparr>) else if i = 1 then Some (sample_object 1 Player (Some 9))
      else if i = 2 then Some (sample_object 2 Thing (Some 2)) else if i = 3 then Some (sample_object 3 Exit (Some 0)) else None)"
  by (simp add: broken_world_def object_at_def bt_get_def)

lemma protected_sample: "set (protected_ids sample_config) = {0, 1}"
  by (auto simp: protected_ids_def sample_config_def)

text \<open>
  C12. One check is enough: after a check that succeeds, with no exit among the protected objects, checking the
  repaired table with its rebuilt lists finds nothing to repair, relocate or purge, and rebuilding the lists again
  leaves every slot.\<close>
theorem one_check_is_enough:
  assumes "world_ok w" and "ids_ok w" and "repair_objects c raw w = Inr (w', purges, fs)"
    and "\<forall>i\<in>set (protected_ids c). \<forall>obj. object_at w i = Some obj \<longrightarrow> obj_kind obj \<noteq> Exit"
  shows "repair_objects c (rebuild_links w' raw) w' = Inr (w', [], [])
    \<and> rebuild_links w' (rebuild_links w' raw) = rebuild_links w' raw"
proof -
  note facts = repair_objects_facts [OF assms(1,3)]
  have ok: "world_ok w'" "consistent w'" using facts by auto
  have "fst ` set (objects w') = fst ` set (objects w)" using facts by (metis list.set_map)
  then have ids: "ids_ok w'" using assms(2) by (simp add: ids_ok_def)
  obtain w1 fs1 where w1: "clear_protected (protected_ids c) w = Inr (w1, fs1)"
    and god: "case object_at w 1 of None \<Rightarrow> False | Some obj \<Rightarrow> obj_kind obj = Player"
    using assms(3) by (auto simp: repair_objects_def bind_result_Inr_iff)
  note clear = clear_protected_step [OF assms(1) w1]
  have there: "\<exists>obj obj'. object_at w i = Some obj \<and> object_at w' i = Some obj' \<and> obj_kind obj' = obj_kind obj \<and> obj_kind obj \<noteq> Garbage"
    if i: "i \<in> set (protected_ids c)" for i
  proof -
    obtain obj where "object_at w i = Some obj" "obj_kind obj \<noteq> Garbage" using clear i by blast
    moreover have "i \<notin> set purges \<and> (\<exists>o'. object_at w' i = Some o' \<and> (if i \<in> set purges then obj_kind o' = Garbage
        else obj_kind o' = obj_kind obj))" if "object_at w i = Some obj" for obj using facts assms(4) i that by meson
    ultimately show ?thesis by auto
  qed
  have "1 \<in> set (protected_ids c)" by (simp add: protected_ids_def)
  then have "\<exists>obj. object_at w' 1 = Some obj \<and> obj_kind obj = Player" using there god by (fastforce split: option.splits)
  moreover have "still_there w' i" if "i \<in> set (protected_ids c)" for i using there [OF that] by (auto simp: still_there_iff)
  ultimately show ?thesis using consistent_fixed [OF ok(1) ids ok(2)] rebuild_links_stable [OF ok(1) ids] by blast
qed

theorem one_check_is_enough_witness:
  "\<exists>w'. (\<exists>purges fs. repair_objects sample_config [] broken_world = Inr (w', purges, fs))
    \<and> repair_objects sample_config (rebuild_links w' []) w' = Inr (w', [], [])"
proof -
  have ok: "world_ok broken_world" "ids_ok broken_world"
    by (simp_all add: world_ok_def bt_ok_def ids_ok_def broken_world_def sample_object_def)
  have prot: "\<forall>i\<in>set (protected_ids sample_config). \<forall>obj. object_at broken_world i = Some obj \<longrightarrow> obj_kind obj \<noteq> Exit"
    by (simp add: protected_sample broken_world_at sample_object_def)
  have "\<not> isl (repair_objects sample_config [] broken_world)" by code_simp
  then obtain w' purges fs where "repair_objects sample_config [] broken_world = Inr (w', purges, fs)"
    by (cases "repair_objects sample_config [] broken_world") auto
  then show ?thesis using one_check_is_enough [OF ok _ prot] by blast
qed

end
