(* ===== verification/Database_Check.thy ===== *)
theory Database_Check
  imports World_Repair_Valid Channels Macros_Valid Telnet_Decoder
begin

text \<open>
  The whole database check (\<open>plan\<close> and the report of \<open>src/dbck.rs\<close>), the validation of the whole world
  (\<open>src/world/validation.rs\<close>) that ends it, and the maintenance schedule (\<open>src/cleaning.rs\<close>). The battle state and
  the scripted state are not part of the model: retiring and validating them are fields of the environment, and
  so is stripping markup from names.
\<close>

section \<open>The world\<close>

record 'b mux_world =
  mux_comms :: comms
  mux_macros :: player_macros
  mux_battle :: 'b

record 'b check_env =
  plain_name :: "bytes \<Rightarrow> bytes"
  battle_purge :: "object_id list \<Rightarrow> 'b \<Rightarrow> 'b option"
  battle_valid :: "world \<Rightarrow> 'b \<Rightarrow> bool"
  state_valid :: "object_id \<Rightarrow> bool"

section \<open>Validation\<close>

fun accounts_check ::
  "(bytes \<Rightarrow> bytes) \<Rightarrow> world \<Rightarrow> bytes set \<Rightarrow> (object_id, bytes option) btree \<Rightarrow> (repair_error, unit) result" where
  "accounts_check plain w names [] = Inr ()"
| "accounts_check plain w names ((i, alias) # accounts) =
     (case object_at w i of
        None \<Rightarrow> Inl AccountMissing
      | Some obj \<Rightarrow>
          (let name = to_ascii_lowercase (plain (obj_name obj))
           in ensure_then (obj_kind obj = Player) AccountNotPlayer
                (ensure_then (name \<notin> names) DuplicatePlayerName
                  (case alias of
                     None \<Rightarrow> accounts_check plain w (insert name names) accounts
                   | Some a \<Rightarrow>
                       if a = [] \<or> eq_ignore_ascii_case a (plain (obj_name obj))
                       then accounts_check plain w (insert name names) accounts
                       else ensure_then (to_ascii_lowercase a \<notin> insert name names) DuplicatePlayerAlias
                              (accounts_check plain w (insert (to_ascii_lowercase a) (insert name names)) accounts)))))"

definition validate_accounts :: "(bytes \<Rightarrow> bytes) \<Rightarrow> world \<Rightarrow> (object_id, bytes option) btree \<Rightarrow> (repair_error, unit) result" where
  "validate_accounts plain w accounts = accounts_check plain w {} accounts"

definition validate_channel :: "world \<Rightarrow> channel \<Rightarrow> bool" where
  "validate_channel w ch \<longleftrightarrow>
     0 \<le> ch_messages ch
     \<and> distinct (map mem_who (ch_users ch)) \<and> list_all (still_there w) (map mem_who (ch_users ch))
     \<and> (case ch_object ch of None \<Rightarrow> True | Some i \<Rightarrow> still_there w i)"

definition validate_channels :: "world \<Rightarrow> (bytes, channel) btree \<Rightarrow> bool" where
  "validate_channels w chs \<longleftrightarrow>
     distinct (map (\<lambda>(_, ch). to_ascii_lowercase (ch_name ch)) chs) \<and> list_all (\<lambda>(_, ch). validate_channel w ch) chs"

definition validate_aliases :: "world \<Rightarrow> (object_id, channel_alias list) btree \<Rightarrow> bool" where
  "validate_aliases w als \<longleftrightarrow>
     list_all (\<lambda>(who, aliases). still_there w who \<and> distinct (map (\<lambda>a. to_ascii_lowercase (alias_text a)) aliases)) als"

definition validate_pages :: "(object_id, bytes option) btree \<Rightarrow> (object_id, object_id list) btree \<Rightarrow> bool" where
  "validate_pages accounts pages \<longleftrightarrow>
     list_all (\<lambda>(who, recipients). bt_get accounts who \<noteq> None \<and> list_all (\<lambda>r. bt_get accounts r \<noteq> None) recipients) pages"

definition world_valid :: "'b check_env \<Rightarrow> repair_config \<Rightarrow> 'b mux_world \<Rightarrow> bool" where
  "world_valid env c s \<longleftrightarrow>
     (let w = com_world (mux_comms s)
      in battle_valid env w (mux_battle s) \<and> macros_validate w (mux_macros s) = Inr ()
         \<and> is_room w (player_starting_room c) \<and> is_room w (player_starting_home c)
         \<and> validate_accounts (plain_name env) w (com_accounts (mux_comms s)) = Inr ()
         \<and> list_all (\<lambda>(i, obj). obj_kind obj = Garbage \<or> state_valid env i) (objects w) \<and> validate_objects w
         \<and> validate_channels w (channels (mux_comms s)) \<and> validate_aliases w (channel_aliases (mux_comms s))
         \<and> validate_pages (com_accounts (mux_comms s)) (last_pages (mux_comms s)))"

definition validate_player_zone :: "world \<Rightarrow> object_id \<Rightarrow> (world_error, unit) result" where
  "validate_player_zone w z = (if 0 < z then validate_zone w z else Inr ())"

text \<open>Only builds with debug assertions validate after every action.\<close>

definition validate_action :: "bool \<Rightarrow> 'b check_env \<Rightarrow> repair_config \<Rightarrow> 'b mux_world \<Rightarrow> bool" where
  "validate_action debug env c s \<longleftrightarrow> (debug \<longrightarrow> world_valid env c s)"

section \<open>The plan\<close>

record relocation =
  rel_object :: object_id
  rel_source :: "object_id option"
  rel_destination :: object_id

record check_report =
  rep_findings :: "finding list"
  rep_fields :: "(object_id \<times> string) list"
  rep_relocations :: "relocation list"
  rep_links :: links
  rep_list_changes :: "object_id list"
  rep_purges :: "object_id list"
  rep_detachments :: "object_id list"




text \<open>Rooms one can walk to: a pass over the exits, repeated until it adds nothing.\<close>

definition reach_pass :: "(object_id \<times> object) list \<Rightarrow> object_id list \<Rightarrow> object_id list" where
  "reach_pass objs reach =
     fold (\<lambda>(_, obj) reach.
       case (location obj, destination obj) of
         (Some l, Some d) \<Rightarrow> if obj_kind obj = Exit \<and> l \<in> set reach then List.insert d reach else reach
       | _ \<Rightarrow> reach) objs reach"

lemma reach_pass_grows:
  "set reach \<subseteq> set (reach_pass objs reach)
   \<and> set (reach_pass objs reach) \<subseteq> set reach \<union> {d. Some d \<in> destination ` snd ` set objs}
   \<and> (distinct reach \<longrightarrow> distinct (reach_pass objs reach))
   \<and> length reach \<le> length (reach_pass objs reach)
   \<and> (length (reach_pass objs reach) \<noteq> length reach \<longrightarrow> \<not> set (reach_pass objs reach) \<subseteq> set reach)"
proof (induction objs arbitrary: reach)
  case (Cons x objs)
  let ?f = "\<lambda>(_, obj) reach.
       case (location obj, destination obj) of
         (Some l, Some d) \<Rightarrow> if obj_kind obj = Exit \<and> l \<in> set reach then List.insert d reach else reach
       | _ \<Rightarrow> reach"
  have step: "reach_pass (x # objs) reach = reach_pass objs (?f x reach)" by (simp add: reach_pass_def)
  let ?new = "\<exists>l d. location (snd x) = Some l \<and> destination (snd x) = Some d \<and> obj_kind (snd x) = Exit \<and> l \<in> set reach \<and> d \<notin> set reach"
  have "?f x reach = (if ?new then the (destination (snd x)) # reach else reach)"
    by (cases x; cases "location (snd x)"; cases "destination (snd x)") (auto simp: List.insert_def)
  then consider "?f x reach = reach" | d where "destination (snd x) = Some d" "d \<notin> set reach" "?f x reach = d # reach"
    by (cases ?new) auto
  then show ?case
  proof cases
    case 1
    then show ?thesis unfolding step using Cons.IH [of reach] by auto
  next
    case 2
    then show ?thesis unfolding step using Cons.IH [of "d # reach"] by (auto simp: image_iff)
  qed
qed (simp add: reach_pass_def)

function reach_loop :: "(object_id \<times> object) list \<Rightarrow> object_id list \<Rightarrow> object_id list" where
  "reach_loop objs reach =
     (let more = reach_pass objs reach in if length more = length reach then more else reach_loop objs more)"
  by pat_completeness auto
termination
proof (relation "measure (\<lambda>(objs, reach). card ({d. Some d \<in> destination ` snd ` set objs} - set reach))", goal_cases)
  case (2 objs reach more)
  let ?D = "{d. Some d \<in> destination ` snd ` set objs}"
  have "?D \<subseteq> the ` (destination ` snd ` set objs)"
  proof
    fix d
    assume "d \<in> ?D"
    then show "d \<in> the ` (destination ` snd ` set objs)" using imageI [of "Some d" _ the] by simp
  qed
  then have fin: "finite ?D" by (rule finite_subset) simp
  have "?D - set more \<subset> ?D - set reach" using 2 reach_pass_grows [of reach objs] by auto
  then show ?case using fin by (simp add: psubset_card_mono)
qed simp

declare reach_loop.simps [simp del]

definition unreachable_rooms :: "world \<Rightarrow> object_id \<Rightarrow> object_id list" where
  "unreachable_rooms w start =
     (let reach = reach_loop (objects w) [start]
      in map (\<lambda>(_, obj). obj_id obj)
           (filter (\<lambda>(_, obj). obj_kind obj = Room \<and> Floating \<notin> flags obj \<and> obj_id obj \<notin> set reach) (objects w)))"




section \<open>The report\<close>

definition FOOTER :: bytes where "FOOTER = bstr ''Done.'' @ [13, 10]"

definition check_summary :: "check_report \<Rightarrow> bytes" where
  "check_summary r =
     bstr ''Database check: '' @ show_nat (length (rep_findings r)) @ bstr '' findings, '' @ show_nat (length (rep_fields r))
     @ bstr '' field repairs, '' @ show_nat (length (rep_relocations r)) @ bstr '' relocations, ''
     @ show_nat (length (rep_list_changes r)) @ bstr '' list repairs, '' @ show_nat (length (rep_purges r))
     @ bstr '' purges.'' @ [10] @ bstr ''Done.''"

definition ends_with :: "bytes \<Rightarrow> bytes \<Rightarrow> bool" where
  "ends_with p s \<longleftrightarrow> strip_suffix p s \<noteq> None"

definition check_response :: "check_report \<Rightarrow> nat \<Rightarrow> bytes" where
  "check_response r limit =
     (if limit < length FOOTER then bounded_error (bstr ''Done.'') limit
      else
        (let summary = (case strip_suffix (10 # bstr ''Done.'') (check_summary r) of None \<Rightarrow> check_summary r | Some s \<Rightarrow> s);
             bytes = bounded_error summary (limit - length FOOTER)
         in (if bytes \<noteq> [] \<and> \<not> ends_with [13, 10] bytes
             then bounded_error summary (limit - (length FOOTER + 2)) @ (if length FOOTER + 2 \<le> limit then [13, 10] else [])
             else bytes) @ FOOTER))"

section \<open>Maintenance schedule\<close>

text \<open>Instants and intervals are numbers of seconds.\<close>

record cleaning =
  cleaning_enabled :: bool
  cleaning_deadline :: nat
  cleaning_interval :: nat

definition cleaning_new :: "nat \<Rightarrow> nat \<Rightarrow> nat \<Rightarrow> cleaning" where
  "cleaning_new now interval offset =
     \<lparr>cleaning_enabled = True, cleaning_deadline = now + (if offset = 0 then interval else offset), cleaning_interval = interval\<rparr>"

definition cleaning_set_interval :: "nat \<Rightarrow> cleaning \<Rightarrow> cleaning" where
  "cleaning_set_interval seconds c = c\<lparr>cleaning_interval := seconds\<rparr>"

definition cleaning_take_due :: "nat \<Rightarrow> cleaning \<Rightarrow> cleaning \<times> bool" where
  "cleaning_take_due now c =
     (if \<not> cleaning_enabled c \<or> now < cleaning_deadline c then (c, False)
      else (c\<lparr>cleaning_deadline := now + cleaning_interval c\<rparr>, True))"

section \<open>Reachable rooms\<close>

inductive walkable :: "(object_id \<times> object) list \<Rightarrow> object_id list \<Rightarrow> object_id \<Rightarrow> bool" for objs start where
  walk_start: "i \<in> set start \<Longrightarrow> walkable objs start i"
| walk_exit: "walkable objs start l \<Longrightarrow> (i, obj) \<in> set objs \<Longrightarrow> obj_kind obj = Exit \<Longrightarrow> location obj = Some l \<Longrightarrow>
    destination obj = Some d \<Longrightarrow> walkable objs start d"

lemma reach_pass_walkable:
  "set objs' \<subseteq> set objs \<Longrightarrow> (\<And>i. i \<in> set reach \<Longrightarrow> walkable objs start i) \<Longrightarrow> i \<in> set (reach_pass objs' reach) \<Longrightarrow> walkable objs start i"
proof (induction objs' arbitrary: reach)
  case (Cons x objs')
  obtain k obj where x: "x = (k, obj)" by (cases x)
  show ?case
  proof (cases "\<exists>l d. location obj = Some l \<and> destination obj = Some d \<and> obj_kind obj = Exit \<and> l \<in> set reach")
    case True
    then obtain l d where ld: "location obj = Some l" "destination obj = Some d" "obj_kind obj = Exit" "l \<in> set reach" by blast
    have "walkable objs start d" using Cons.prems(1) x ld by (intro walk_exit [OF Cons.prems(2)]) auto
    then show ?thesis using Cons.IH [of "List.insert d reach"] Cons.prems x ld by (auto simp: reach_pass_def)
  next
    case False
    then have "reach_pass (x # objs') reach = reach_pass objs' reach"
      by (auto simp: reach_pass_def x split: option.split)
    then show ?thesis using Cons.prems by (intro Cons.IH [of reach]) auto
  qed
qed (simp add: reach_pass_def)

lemma reach_pass_closed:
  assumes "length (reach_pass objs reach) = length reach"
  shows "\<forall>(i, obj)\<in>set objs. \<forall>l d. obj_kind obj = Exit \<longrightarrow> location obj = Some l \<longrightarrow> destination obj = Some d \<longrightarrow>
    l \<in> set reach \<longrightarrow> d \<in> set reach"
  using assms
proof (induction objs)
  case (Cons x objs)
  obtain k obj where x: "x = (k, obj)" by (cases x)
  show ?case
  proof (cases "\<exists>l d. location obj = Some l \<and> destination obj = Some d \<and> obj_kind obj = Exit \<and> l \<in> set reach \<and> d \<notin> set reach")
    case True
    then obtain d where "reach_pass (x # objs) reach = reach_pass objs (d # reach)"
      by (auto simp: reach_pass_def x List.insert_def)
    then show ?thesis using Cons.prems reach_pass_grows [of "d # reach" objs] by simp
  next
    case False
    then have "reach_pass (x # objs) reach = reach_pass objs reach"
      by (auto simp: reach_pass_def x List.insert_def split: option.split)
    then show ?thesis using Cons False x by auto
  qed
qed simp

lemma reach_loop_walkable:
  "distinct reach \<Longrightarrow> (\<And>i. i \<in> set reach \<Longrightarrow> walkable objs start i) \<Longrightarrow> set start \<subseteq> set reach \<Longrightarrow>
   i \<in> set (reach_loop objs reach) \<longleftrightarrow> walkable objs start i"
proof (induction objs reach rule: reach_loop.induct)
  case (1 objs reach)
  let ?more = "reach_pass objs reach"
  note grows = reach_pass_grows [of reach objs]
  have walk: "j \<in> set ?more \<Longrightarrow> walkable objs start j" for j using reach_pass_walkable [OF order_refl 1(3)] by blast
  show ?case
  proof (cases "length ?more = length reach")
    case True
    then have "set ?more = set reach" using grows 1(2)
      by (metis card_subset_eq distinct_card finite_set)
    have "walkable objs start j \<Longrightarrow> j \<in> set reach" for j
    proof (induction rule: walkable.induct)
      case (walk_start i)
      then show ?case using 1(4) by blast
    next
      case (walk_exit l i obj d)
      then show ?case using reach_pass_closed [OF True] by fastforce
    qed
    then show ?thesis using True 1(3) \<open>set ?more = set reach\<close> by (subst reach_loop.simps) (auto simp: Let_def)
  next
    case False
    then have "i \<in> set (reach_loop objs ?more) \<longleftrightarrow> walkable objs start i"
      using 1(1) [OF refl False] 1(2,4) grows walk by auto
    then show ?thesis using False by (subst reach_loop.simps) (simp add: Let_def)
  qed
qed

lemma unreachable_exact:
  assumes "world_ok w"
  shows "i \<in> set (unreachable_rooms w start) \<longleftrightarrow>
    (\<exists>obj. object_at w i = Some obj \<and> obj_kind obj = Room \<and> Floating \<notin> flags obj) \<and> \<not> walkable (objects w) [start] i"
proof -
  have reach: "j \<in> set (reach_loop (objects w) [start]) \<longleftrightarrow> walkable (objects w) [start] j" for j
    by (rule reach_loop_walkable) (auto intro: walk_start)
  show ?thesis
    unfolding unreachable_rooms_def Let_def in_ids [OF assms] reach
    using world_ok_id [OF assms] by auto
qed

section \<open>The check succeeds\<close>

















section \<open>The reply\<close>

lemma bounded_error_length: "length (bounded_error m limit) \<le> limit"
  using valid_end_le [of "encode (m @ [13, 10])" "min (length (encode (m @ [13, 10]))) limit"]
  by (simp add: bounded_error_def Let_def)

text \<open>The reply keeps its limit, and its completion marker when there is room for it.\<close>

lemma check_response_bounded:
  "length (check_response r limit) \<le> limit
   \<and> (length FOOTER \<le> limit \<longrightarrow> (\<exists>s. check_response r limit = s @ FOOTER))"
proof (cases "limit < length FOOTER")
  case True
  then show ?thesis using bounded_error_length by (simp add: check_response_def)
next
  case False
  have "length (bounded_error m (limit - (length FOOTER + 2)) @ (if length FOOTER + 2 \<le> limit then [13, 10] else []) @ FOOTER) \<le> limit" for m
    using bounded_error_length [of m "limit - (length FOOTER + 2)"] False by auto
  moreover have "length (bounded_error m (limit - length FOOTER) @ FOOTER) \<le> limit" for m
    using bounded_error_length [of m "limit - length FOOTER"] False by auto
  ultimately show ?thesis using False by (auto simp: check_response_def Let_def)
qed

text \<open>A due attempt is consumed once and the next one is a full interval later, whatever was missed.\<close>

lemma cleaning_never_catches_up:
  "cleaning_take_due now c = (c', True) \<Longrightarrow> now' < now + cleaning_interval c \<Longrightarrow> cleaning_take_due now' c' = (c', False)"
  by (auto simp: cleaning_take_due_def split: if_splits)

end
