(* ===== verification/Map_Environment.thy ===== *)
theory Map_Environment
  imports Map_Rules Rust_Num
begin

unbundle bit_operations_syntax

text \<open>
  \<open>crates/map/src/flags.rs\<close> and \<open>environment.rs\<close>: the rule switches of a map as bits of its flags, with the
  operator's list notation, and the conditions of a battlefield (light, weather, wind, gravity, temperature)
  with the modifiers they impose. Modifiers (\<open>i16\<close>) and the bit masks (\<open>i64\<close>) are integers, ranges of sight
  (\<open>u8\<close>) and movement points are natural numbers.
\<close>

section \<open>Rule switches\<close>

datatype map_flag =
    Vacuum | Underground | Dark | IndestructibleStructures | NoFriendlyFire | ElectromagneticInterference

definition map_flag_ALL :: "map_flag list" where
  "map_flag_ALL =
     [Vacuum, Underground, map_flag.Dark, IndestructibleStructures, NoFriendlyFire, ElectromagneticInterference]"

primrec map_flag_bit :: "map_flag \<Rightarrow> int" where
  "map_flag_bit Vacuum = 4"
| "map_flag_bit Underground = 16"
| "map_flag_bit Dark = 32"
| "map_flag_bit IndestructibleStructures = 64"
| "map_flag_bit NoFriendlyFire = 256"
| "map_flag_bit ElectromagneticInterference = 1024"

primrec map_flag_name :: "map_flag \<Rightarrow> bytes" where
  "map_flag_name Vacuum = bstr ''vacuum''"
| "map_flag_name Underground = bstr ''underground''"
| "map_flag_name Dark = bstr ''dark''"
| "map_flag_name IndestructibleStructures = bstr ''indestructible_structures''"
| "map_flag_name NoFriendlyFire = bstr ''no_friendly_fire''"
| "map_flag_name ElectromagneticInterference = bstr ''electromagnetic_interference''"

definition map_flag_parse :: "bytes \<Rightarrow> map_flag option" where
  "map_flag_parse n = List.find (\<lambda>f. eq_ignore_ascii_case (map_flag_name f) n) map_flag_ALL"

definition map_flag_is_set :: "map_flag \<Rightarrow> int \<Rightarrow> bool" where
  "map_flag_is_set f fs \<longleftrightarrow> fs AND map_flag_bit f \<noteq> 0"

definition map_flag_apply :: "map_flag \<Rightarrow> int \<Rightarrow> bool \<Rightarrow> int" where
  "map_flag_apply f fs enabled = (if enabled then fs OR map_flag_bit f else fs AND NOT (map_flag_bit f))"

definition map_flag_mask :: int where
  "map_flag_mask = fold (\<lambda>f m. m OR map_flag_bit f) map_flag_ALL 0"

fun fold_flags :: "int \<Rightarrow> bytes list \<Rightarrow> int option" where
  "fold_flags fs [] = Some fs"
| "fold_flags fs (n # ns) =
     (case map_flag_parse n of None \<Rightarrow> None | Some f \<Rightarrow> fold_flags (fs OR map_flag_bit f) ns)"

definition parse_map_flags :: "bytes \<Rightarrow> int option" where
  "parse_map_flags s =
     (if trim s = [45] then Some 0
      else fold_flags 0 (filter (\<lambda>n. n \<noteq> []) (split_by (\<lambda>b. b = 32 \<or> b = 9 \<or> b = 44) (trim s))))"

definition format_map_flags :: "int \<Rightarrow> bytes" where
  "format_map_flags fs =
     (let names = map map_flag_name (filter (\<lambda>f. map_flag_is_set f fs) map_flag_ALL)
      in if names = [] then [45] else join_with [32] names)"

section \<open>Gravity and temperature\<close>

datatype attack_kind = Missile | Ballistic | Energy | Other

definition STANDARD_GRAVITY :: u8 where "STANDARD_GRAVITY = 100"

definition gravity_aim_modifier :: "u8 \<Rightarrow> attack_kind \<Rightarrow> int" where
  "gravity_aim_modifier g k =
     (if k \<notin> {Missile, Ballistic} then 0 else \<bar>uint g - uint STANDARD_GRAVITY\<bar> div 20)"

definition extreme_temperature_steps :: "int \<Rightarrow> int" where
  "extreme_temperature_steps t =
     (if 50 < t then (t - 50 + 9) div 10 else if t < - 30 then - ((- 30 - t + 9) div 10) else 0)"

section \<open>Light\<close>

datatype light = Day | Dawn | Dusk | FullMoonNight | MoonlessNight | PitchBlack

definition light_ALL :: "light list" where
  "light_ALL = [Day, Dawn, Dusk, FullMoonNight, MoonlessNight, PitchBlack]"

primrec light_name :: "light \<Rightarrow> bytes" where
  "light_name Day = bstr ''day''"
| "light_name Dawn = bstr ''dawn''"
| "light_name Dusk = bstr ''dusk''"
| "light_name FullMoonNight = bstr ''full_moon_night''"
| "light_name MoonlessNight = bstr ''moonless_night''"
| "light_name PitchBlack = bstr ''pitch_black''"

primrec light_label :: "light \<Rightarrow> bytes" where
  "light_label Day = bstr ''Day''"
| "light_label Dawn = bstr ''Dawn''"
| "light_label Dusk = bstr ''Dusk''"
| "light_label FullMoonNight = bstr ''Full moon night''"
| "light_label MoonlessNight = bstr ''Moonless night''"
| "light_label PitchBlack = bstr ''Pitch black''"

text \<open>The persisted columns hold the position of a condition in its list.\<close>

definition light_from_stored :: "int \<Rightarrow> light option" where
  "light_from_stored v = (if 0 \<le> v \<and> nat v < length light_ALL then Some (light_ALL ! nat v) else None)"

definition light_stored :: "light \<Rightarrow> int" where
  "light_stored l = (case position (\<lambda>x. x = l) light_ALL of Some i \<Rightarrow> int i | None \<Rightarrow> 0)"

definition is_night :: "light \<Rightarrow> bool" where
  "is_night l \<longleftrightarrow> l \<in> {FullMoonNight, MoonlessNight, PitchBlack}"

primrec heat_step :: "light \<Rightarrow> u16 option" where
  "heat_step Day = None"
| "heat_step Dawn = Some 25"
| "heat_step Dusk = Some 25"
| "heat_step FullMoonNight = Some 20"
| "heat_step MoonlessNight = Some 15"
| "heat_step PitchBlack = Some 10"

datatype illumination = Unlit | Firelit | Searchlight

text \<open>The penalties of a level: for a weapon, for a physical attack, and for a weapon under a searchlight.\<close>

primrec darkness_penalties :: "light \<Rightarrow> (int \<times> int \<times> int) option" where
  "darkness_penalties Day = None"
| "darkness_penalties Dawn = Some (1, 0, 1)"
| "darkness_penalties Dusk = Some (1, 0, 1)"
| "darkness_penalties FullMoonNight = Some (2, 0, 0)"
| "darkness_penalties MoonlessNight = Some (3, 1, 0)"
| "darkness_penalties PitchBlack = Some (4, 2, 1)"

definition light_aim_modifier :: "light \<Rightarrow> bool \<Rightarrow> illumination \<Rightarrow> u16 option \<Rightarrow> int" where
  "light_aim_modifier l physical lit heat =
     (case darkness_penalties l of
        None \<Rightarrow> 0
      | Some (weapon, unarmed, lit_weapon) \<Rightarrow>
          let step = (case heat_step l of Some s \<Rightarrow> s | None \<Rightarrow> 65535);
              cooled = (\<lambda>darkness. darkness - (case heat of None \<Rightarrow> 0 | Some h \<Rightarrow> uint (h div step)))
          in if lit = Searchlight \<and> is_night l then (if physical then 0 else cooled lit_weapon)
             else if lit = Firelit then (if physical then 0 else cooled (max (weapon - 2) 0))
             else if physical then unarmed
             else cooled weapon)"

text \<open>\<open>FromStr\<close>: spaces and hyphens stand for underscores.\<close>

definition condition_key :: "bytes \<Rightarrow> bytes" where
  "condition_key s = map (\<lambda>b. if b = 32 \<or> b = 45 then 95 else b) (to_ascii_lowercase (trim s))"

definition light_from_str :: "bytes \<Rightarrow> light option" where
  "light_from_str s = List.find (\<lambda>l. light_name l = condition_key s) light_ALL"

definition MAX_SIGHT :: nat where "MAX_SIGHT = 60"
definition SEARCHLIGHT_SIGHT :: nat where "SEARCHLIGHT_SIGHT = 30"
definition LIT_TARGET_SIGHT :: nat where "LIT_TARGET_SIGHT = 45"

primrec light_visual_range :: "light \<Rightarrow> nat" where
  "light_visual_range Day = MAX_SIGHT"
| "light_visual_range Dawn = 15"
| "light_visual_range Dusk = 15"
| "light_visual_range FullMoonNight = 10"
| "light_visual_range MoonlessNight = 5"
| "light_visual_range PitchBlack = 3"

definition searchlights_help_sight :: "light \<Rightarrow> bool" where
  "searchlights_help_sight l \<longleftrightarrow> l \<noteq> Day"

section \<open>Weather\<close>

datatype weather = Clear | LightFog | HeavyFog | LightRain | ModerateRain | HeavyRain | GustingRain |
    TorrentialDownpour | LightSnow | ModerateSnow | HeavySnow | SnowFlurries | Sleet | LightHail |
    HeavyHail | IceStorm | BlowingSand | LightningStorm

definition weather_ALL :: "weather list" where
  "weather_ALL = [weather.Clear, LightFog, HeavyFog, LightRain, ModerateRain, HeavyRain, GustingRain,
     TorrentialDownpour, LightSnow, ModerateSnow, HeavySnow, SnowFlurries, Sleet, LightHail, HeavyHail,
     IceStorm, BlowingSand, LightningStorm]"

primrec weather_name :: "weather \<Rightarrow> bytes" where
  "weather_name weather.Clear = bstr ''clear''"
| "weather_name LightFog = bstr ''light_fog''"
| "weather_name HeavyFog = bstr ''heavy_fog''"
| "weather_name LightRain = bstr ''light_rain''"
| "weather_name ModerateRain = bstr ''moderate_rain''"
| "weather_name HeavyRain = bstr ''heavy_rain''"
| "weather_name GustingRain = bstr ''gusting_rain''"
| "weather_name TorrentialDownpour = bstr ''torrential_downpour''"
| "weather_name LightSnow = bstr ''light_snow''"
| "weather_name ModerateSnow = bstr ''moderate_snow''"
| "weather_name HeavySnow = bstr ''heavy_snow''"
| "weather_name SnowFlurries = bstr ''snow_flurries''"
| "weather_name Sleet = bstr ''sleet''"
| "weather_name LightHail = bstr ''light_hail''"
| "weather_name HeavyHail = bstr ''heavy_hail''"
| "weather_name IceStorm = bstr ''ice_storm''"
| "weather_name BlowingSand = bstr ''blowing_sand''"
| "weather_name LightningStorm = bstr ''lightning_storm''"

primrec weather_label :: "weather \<Rightarrow> bytes" where
  "weather_label weather.Clear = bstr ''Clear''"
| "weather_label LightFog = bstr ''Light fog''"
| "weather_label HeavyFog = bstr ''Heavy fog''"
| "weather_label LightRain = bstr ''Light rain''"
| "weather_label ModerateRain = bstr ''Moderate rain''"
| "weather_label HeavyRain = bstr ''Heavy rain''"
| "weather_label GustingRain = bstr ''Gusting rain''"
| "weather_label TorrentialDownpour = bstr ''Torrential downpour''"
| "weather_label LightSnow = bstr ''Light snow''"
| "weather_label ModerateSnow = bstr ''Moderate snow''"
| "weather_label HeavySnow = bstr ''Heavy snow''"
| "weather_label SnowFlurries = bstr ''Snow flurries''"
| "weather_label Sleet = bstr ''Sleet''"
| "weather_label LightHail = bstr ''Light hail''"
| "weather_label HeavyHail = bstr ''Heavy hail''"
| "weather_label IceStorm = bstr ''Ice storm''"
| "weather_label BlowingSand = bstr ''Blowing sand''"
| "weather_label LightningStorm = bstr ''Lightning storm''"

definition weather_from_stored :: "int \<Rightarrow> weather option" where
  "weather_from_stored v = (if 0 \<le> v \<and> nat v < length weather_ALL then Some (weather_ALL ! nat v) else None)"

definition weather_stored :: "weather \<Rightarrow> int" where
  "weather_stored w = (case position (\<lambda>x. x = w) weather_ALL of Some i \<Rightarrow> int i | None \<Rightarrow> 0)"

primrec weather_visual_range :: "weather \<Rightarrow> nat" where
  "weather_visual_range weather.Clear = MAX_SIGHT"
| "weather_visual_range LightFog = 30"
| "weather_visual_range HeavyFog = 5"
| "weather_visual_range LightRain = 30"
| "weather_visual_range ModerateRain = 20"
| "weather_visual_range HeavyRain = 15"
| "weather_visual_range GustingRain = 10"
| "weather_visual_range TorrentialDownpour = 10"
| "weather_visual_range LightSnow = 30"
| "weather_visual_range ModerateSnow = 20"
| "weather_visual_range HeavySnow = 10"
| "weather_visual_range SnowFlurries = 15"
| "weather_visual_range Sleet = 10"
| "weather_visual_range LightHail = 30"
| "weather_visual_range HeavyHail = 10"
| "weather_visual_range IceStorm = 10"
| "weather_visual_range BlowingSand = 10"
| "weather_visual_range LightningStorm = MAX_SIGHT"

definition weather_aim_modifier :: "weather \<Rightarrow> attack_kind \<Rightarrow> int" where
  "weather_aim_modifier w k =
     (if w = HeavyFog \<and> k = Energy then 1
      else if w \<in> {HeavyRain, ModerateRain, HeavySnow, ModerateSnow} then 1
      else if w = TorrentialDownpour then 2
      else if w = GustingRain \<and> k = Ballistic then 2
      else if w = GustingRain \<and> k = Missile then 3
      else if w \<in> {SnowFlurries, Sleet, LightningStorm} \<and> k = Missile then 2
      else if w \<in> {SnowFlurries, Sleet, LightningStorm} then 1
      else if w \<in> {LightHail, IceStorm} \<and> k = Missile then 1
      else if w = HeavyHail \<and> k = Ballistic then 1
      else if w = HeavyHail \<and> k = Missile then 2
      else if w = BlowingSand \<and> k \<in> {Energy, Missile} then 1
      else 0)"

definition weather_movement_cost :: "weather \<Rightarrow> nat" where
  "weather_movement_cost w = (if w = LightFog then 1 else if w = HeavyFog then 2 else 0)"

definition weather_piloting_modifier :: "weather \<Rightarrow> ground_movement \<Rightarrow> bool \<Rightarrow> int" where
  "weather_piloting_modifier w movement rotorcraft =
     (let light_chassis = rotorcraft \<or> movement \<in> {Hover, Wheeled};
          (heavy, light) =
            (if w \<in> {HeavyRain, HeavySnow} then (1, 1)
             else if w = TorrentialDownpour then (2, 2)
             else if w = GustingRain then (2, 3)
             else if w = HeavyHail then (1, 2)
             else if w \<in> {IceStorm, SnowFlurries, Sleet, LightHail, LightningStorm, BlowingSand} then (0, 1)
             else (0, 0))
      in if light_chassis then light else heavy)"

definition weather_from_str :: "bytes \<Rightarrow> weather option" where
  "weather_from_str s = List.find (\<lambda>w. weather_name w = condition_key s) weather_ALL"

definition visual_range :: "light \<Rightarrow> weather \<Rightarrow> nat" where
  "visual_range l w =
     (if light_visual_range l < weather_visual_range w then light_visual_range l else weather_visual_range w)"

section \<open>Wind\<close>

datatype wind_strength = Calm | LightGale | ModerateGale | StrongGale | Storm | Tornado | SevereTornado

primrec wind_label :: "wind_strength \<Rightarrow> bytes" where
  "wind_label Calm = bstr ''Calm''"
| "wind_label LightGale = bstr ''Light gale''"
| "wind_label ModerateGale = bstr ''Moderate gale''"
| "wind_label StrongGale = bstr ''Strong gale''"
| "wind_label Storm = bstr ''Storm''"
| "wind_label Tornado = bstr ''Tornado (F1-F3)''"
| "wind_label SevereTornado = bstr ''Tornado (F4+)''"

primrec wind_rank :: "wind_strength \<Rightarrow> nat" where
  "wind_rank Calm = 0"
| "wind_rank LightGale = 1"
| "wind_rank ModerateGale = 2"
| "wind_rank StrongGale = 3"
| "wind_rank Storm = 4"
| "wind_rank Tornado = 5"
| "wind_rank SevereTornado = 6"

text \<open>\<open>None\<close>: the attack is impossible.\<close>

definition wind_aim_modifier :: "wind_strength \<Rightarrow> attack_kind \<Rightarrow> int option" where
  "wind_aim_modifier s k =
     (case (s, k) of
        (ModerateGale, Missile) \<Rightarrow> Some 1
      | (StrongGale, Missile) \<Rightarrow> Some 2
      | (StrongGale, Ballistic) \<Rightarrow> Some 1
      | (Storm, Missile) \<Rightarrow> Some 3
      | (Storm, Ballistic) \<Rightarrow> Some 2
      | (Tornado, Missile) \<Rightarrow> None
      | (SevereTornado, Missile) \<Rightarrow> None
      | (SevereTornado, Ballistic) \<Rightarrow> None
      | (Tornado, Ballistic) \<Rightarrow> Some 3
      | (SevereTornado, Energy) \<Rightarrow> Some 3
      | (Tornado, Energy) \<Rightarrow> Some 2
      | _ \<Rightarrow> Some 0)"

definition wind_piloting_modifier :: "wind_strength \<Rightarrow> ground_movement \<Rightarrow> int" where
  "wind_piloting_modifier s m =
     (case (s, m) of
        (StrongGale, Legged) \<Rightarrow> 1
      | (StrongGale, Hover) \<Rightarrow> 2
      | (Storm, Legged) \<Rightarrow> 3
      | (Storm, Hover) \<Rightarrow> 3
      | (Tornado, _) \<Rightarrow> 3
      | (SevereTornado, _) \<Rightarrow> 5
      | _ \<Rightarrow> 0)"

record wind =
  wind_direction :: u16
  wind_speed :: u16

definition strength_of :: "u16 \<Rightarrow> wind_strength" where
  "strength_of s =
     (if s < 50 then Calm else if s < 62 then LightGale else if s < 75 then ModerateGale
      else if s < 89 then StrongGale else if s < 117 then Storm else if s < 333 then Tornado else SevereTornado)"

definition wind_strength_at :: "wind \<Rightarrow> wind_strength" where
  "wind_strength_at w = strength_of (wind_speed w)"

datatype wind_error = BadDirection | BadSpeed

definition wind_validate :: "wind \<Rightarrow> (wind_error, unit) result" where
  "wind_validate w =
     ensure_then (wind_direction w < 360) BadDirection (ensure (unat (wind_speed w) \<le> 32767) BadSpeed)"

section \<open>Names and columns\<close>

interpretation mfname: catalogue map_flag_ALL map_flag_name
proof
  show "f \<in> set map_flag_ALL" for f by (cases f) (simp_all add: map_flag_ALL_def)
qed (simp add: map_flag_ALL_def bstr_def)

interpretation liname: catalogue light_ALL light_name
proof
  show "l \<in> set light_ALL" for l by (cases l) (simp_all add: light_ALL_def)
qed (simp add: light_ALL_def bstr_def)

interpretation wename: catalogue weather_ALL weather_name
proof
  show "w \<in> set weather_ALL" for w by (cases w) (simp_all add: weather_ALL_def)
qed (simp add: weather_ALL_def bstr_def)

lemma light_from_stored_iff: "light_from_stored v = Some l \<longleftrightarrow> v = light_stored l"
  by (cases l; cases "nat v = 0 \<or> nat v = 1 \<or> nat v = 2 \<or> nat v = 3 \<or> nat v = 4 \<or> nat v = 5")
    (auto simp: light_from_stored_def light_stored_def light_ALL_def)

lemma weather_stored_range: "0 \<le> weather_stored w \<and> weather_stored w < 18"
  by (cases w) (simp_all add: weather_stored_def weather_ALL_def)

lemma weather_from_stored: "weather_from_stored (weather_stored w) = Some w"
  by (cases w) (simp_all add: weather_from_stored_def weather_stored_def weather_ALL_def)

text \<open>The names are text that trimming and folding leave alone.\<close>

definition word_byte :: "u8 \<Rightarrow> bool" where
  "word_byte b \<longleftrightarrow> 97 \<le> b \<and> b \<le> 122 \<or> b = 95"

lemma word_byte_facts:
  assumes "word_byte b"
  shows "33 \<le> b \<and> b < 128" "b \<noteq> 32" "b \<noteq> 45" "b \<noteq> 9" "b \<noteq> 44" "ascii_lower b = b"
  using assms by (auto simp: word_byte_def ascii_lower_def word_le_nat_alt word_less_nat_alt dest!: arg_cong [where f = unat])

lemma names_plain:
  "light_name l \<noteq> [] \<and> list_all word_byte (light_name l)"
  "weather_name w \<noteq> [] \<and> list_all word_byte (weather_name w)"
  "map_flag_name f \<noteq> [] \<and> list_all word_byte (map_flag_name f)"
  by (cases l, simp_all add: bstr_def word_byte_def) (cases w, simp_all add: bstr_def word_byte_def, cases f, simp_all add: bstr_def word_byte_def)

lemma condition_key_plain: "s \<noteq> [] \<and> list_all word_byte s \<Longrightarrow> condition_key s = s"
  by (auto simp: condition_key_def trim_graphic to_ascii_lowercase_def list_all_iff word_byte_facts intro!: map_idI)

lemma condition_names_parse: "light_from_str (light_name l) = Some l \<and> weather_from_str (weather_name w) = Some w"
  using condition_key_plain [OF names_plain(1) [of l]] condition_key_plain [OF names_plain(2) [of w]]
  by (simp add: light_from_str_def weather_from_str_def liname.decode_name wename.decode_name)

section \<open>Modifiers\<close>

lemma sight_bounded: "3 \<le> visual_range l w \<and> visual_range l w \<le> MAX_SIGHT"
  by (cases l; cases w) (simp_all add: visual_range_def MAX_SIGHT_def)

lemma heat_step_positive: "heat_step l = Some s \<Longrightarrow> 10 \<le> s \<and> s \<le> 25"
  by (cases l) auto

text \<open>A light on the target never makes it harder to hit, and neither does heat.\<close>

lemma light_helps: "light_aim_modifier l physical lit heat \<le> light_aim_modifier l physical Unlit heat"
  by (cases l; cases lit) (auto simp: light_aim_modifier_def Let_def is_night_def)

lemma heat_helps: "light_aim_modifier l physical lit (Some h) \<le> light_aim_modifier l physical lit None"
  by (cases l; cases lit) (auto simp: light_aim_modifier_def Let_def is_night_def)

text \<open>The impossible attack as the worst modifier.\<close>

definition no_easier :: "int option \<Rightarrow> int option \<Rightarrow> bool" where
  "no_easier m n \<longleftrightarrow> (case (m, n) of (_, None) \<Rightarrow> True | (None, Some _) \<Rightarrow> False | (Some x, Some y) \<Rightarrow> x \<le> y)"

lemma stronger_no_easier:
  assumes "wind_rank s \<le> wind_rank t"
  shows "no_easier (wind_aim_modifier s k) (wind_aim_modifier t k)" and "wind_piloting_modifier s m \<le> wind_piloting_modifier t m"
proof -
  show "no_easier (wind_aim_modifier s k) (wind_aim_modifier t k)"
    using assms by (cases k; cases s; cases t) (simp_all add: wind_aim_modifier_def no_easier_def)
  show "wind_piloting_modifier s m \<le> wind_piloting_modifier t m"
    using assms by (cases m; cases s; cases t) (simp_all add: wind_piloting_modifier_def)
qed

lemma strength_of_mono: "s \<le> t \<Longrightarrow> wind_rank (strength_of s) \<le> wind_rank (strength_of t)"
  by (simp add: strength_of_def word_le_nat_alt word_less_nat_alt)

lemma stronger_wind_no_easier:
  "s \<le> t \<Longrightarrow> no_easier (wind_aim_modifier (strength_of s) k) (wind_aim_modifier (strength_of t) k)
    \<and> wind_piloting_modifier (strength_of s) m \<le> wind_piloting_modifier (strength_of t) m"
  using stronger_no_easier [OF strength_of_mono] by blast

section \<open>Lists of switches\<close>

interpretation mflow: catalogue map_flag_ALL "\<lambda>f. to_ascii_lowercase (map_flag_name f)"
proof
  show "f \<in> set map_flag_ALL" for f by (rule mfname.complete)
  have "to_ascii_lowercase (map_flag_name f) = map_flag_name f" for f
    using names_plain(3) [of f] by (auto simp: to_ascii_lowercase_def list_all_iff word_byte_facts intro!: map_idI)
  then show "distinct (map (\<lambda>f. to_ascii_lowercase (map_flag_name f)) map_flag_ALL)"
    using mfname.distinct_names by simp
qed

lemma map_flag_name_parse: "map_flag_parse (map_flag_name f) = Some f"
  using mflow.decode_name [of f] by (simp add: map_flag_parse_def eq_ignore_ascii_case_def to_ascii_lowercase_def)

lemma map_flag_bit_power: "\<exists>k. map_flag_bit f = 2 ^ k"
proof (cases f)
  case Vacuum
  then show ?thesis by (intro exI [of _ 2]) simp
next
  case Underground
  then show ?thesis by (intro exI [of _ 4]) simp
next
  case Dark
  then show ?thesis by (intro exI [of _ 5]) simp
next
  case IndestructibleStructures
  then show ?thesis by (intro exI [of _ 6]) simp
next
  case NoFriendlyFire
  then show ?thesis by (intro exI [of _ 8]) simp
next
  case ElectromagneticInterference
  then show ?thesis by (intro exI [of _ 10]) simp
qed

lemma and_map_flag_bit: "fs AND map_flag_bit f = (if map_flag_is_set f fs then map_flag_bit f else 0)"
proof -
  obtain k where k: "map_flag_bit f = 2 ^ k" using map_flag_bit_power by blast
  have "fs AND 2 ^ k = (if bit fs k then 2 ^ k else 0)"
    by (rule bit_eqI) (auto simp: bit_simps)
  then show ?thesis by (auto simp: map_flag_is_set_def k)
qed

text \<open>Setting again every switch that is set gives the named part of the flags.\<close>

lemma fold_set_flags:
  "fold (\<lambda>f b. map_flag_apply f b True) (filter (\<lambda>f. map_flag_is_set f fs) xs) b =
   b OR (fs AND fold (\<lambda>f m. m OR map_flag_bit f) xs 0)"
proof -
  have mask: "fold (\<lambda>f m. m OR map_flag_bit f) xs a = a OR fold (\<lambda>f m. m OR map_flag_bit f) xs 0" for a xs
  proof (induction xs arbitrary: a)
    case (Cons x xs)
    show ?case using Cons [of "a OR map_flag_bit x"] Cons [of "map_flag_bit x"] by (simp add: or.assoc)
  qed simp
  show ?thesis
  proof (induction xs arbitrary: b)
    case (Cons x xs)
    show ?case
      using Cons [of b] Cons [of "b OR map_flag_bit x"] mask [of xs "map_flag_bit x"] and_map_flag_bit [of fs x]
      by (simp add: map_flag_apply_def bit.conj_disj_distrib or.assoc)
  qed simp
qed

lemma map_flags_named: "fold (\<lambda>f b. map_flag_apply f b True) (filter (\<lambda>f. map_flag_is_set f fs) map_flag_ALL) 0 = fs AND map_flag_mask"
  using fold_set_flags [of fs map_flag_ALL 0] by (simp add: map_flag_mask_def)

lemma fold_flags_names: "fold_flags b (map map_flag_name fs) = Some (fold (\<lambda>f b. map_flag_apply f b True) fs b)"
  by (induction fs arbitrary: b) (simp_all add: map_flag_name_parse map_flag_apply_def)

lemma join_with_ends:
  assumes "xs \<noteq> []" and "\<forall>x\<in>set xs. x \<noteq> [] \<and> list_all word_byte x"
  shows "join_with [32] xs \<noteq> [] \<and> word_byte (hd (join_with [32] xs)) \<and> word_byte (last (join_with [32] xs))"
  using assms
proof (induction "[32] :: bytes" xs rule: join_with.induct)
  case (2 x)
  then show ?case by (simp add: list_all_iff)
next
  case (3 x y xs)
  then show ?case by (auto simp: list_all_iff)
qed simp

lemma format_parse_flags: "parse_map_flags (format_map_flags fs) = Some (fs AND map_flag_mask)"
proof (cases "filter (\<lambda>f. map_flag_is_set f fs) map_flag_ALL = []")
  case True
  then have "format_map_flags fs = [45]" by (simp add: format_map_flags_def)
  moreover have "trim [45] = [45]" by (simp add: trim_graphic)
  ultimately show ?thesis using map_flags_named [of fs] True by (simp add: parse_map_flags_def)
next
  case False
  let ?fs = "filter (\<lambda>f. map_flag_is_set f fs) map_flag_ALL"
  let ?t = "join_with [32] (map map_flag_name ?fs)"
  have joined: "format_map_flags fs = ?t" using False by (simp add: format_map_flags_def)
  have ends: "?t \<noteq> []" "word_byte (hd ?t)" "word_byte (last ?t)"
    using join_with_ends [of "map map_flag_name ?fs"] False names_plain(3) by auto
  then have trimmed: "trim ?t = ?t" by (intro trim_graphic) (auto simp: word_byte_facts)
  have "?t \<noteq> [45]" using ends(2) by (auto simp: word_byte_def)
  moreover have "split_by (\<lambda>b. b = 32 \<or> b = 9 \<or> b = 44) ?t = map map_flag_name ?fs"
    using False names_plain(3) by (intro split_by_join) (auto simp: list_all_iff word_byte_facts)
  moreover have "filter (\<lambda>n. n \<noteq> []) (map map_flag_name ?fs) = map map_flag_name ?fs"
    using names_plain(3) by (auto simp: filter_id_conv)
  ultimately show ?thesis
    unfolding joined parse_map_flags_def trimmed by (simp add: fold_flags_names map_flags_named)
qed

end
