(* ===== verification/Map_File.thy ===== *)
theory Map_File
  imports Map_Environment BTree_Map
begin

text \<open>
  \<open>crates/map/src/asset.rs\<close>, \<open>file.rs\<close> and the validation of \<open>region.rs\<close>: a map as data, the compact cell
  notation of tests and code, and the TOML map file with one character grid per hex layer. The TOML library is
  a parameter: reading gives the document with its keys, writing gives the text of a flag list, of the points
  of interest and of the regions. A character is the bytes of its encoding. Widths, heights and coordinates
  (\<open>u16\<close>) are natural numbers, flags (\<open>i32\<close>) and temperatures (\<open>i8\<close>) integers. The hexes of a region, which
  are traced in floating point, are not modelled.
\<close>

section \<open>Assets\<close>

record point_of_interest =
  poi_kind :: bytes
  poi_name :: bytes
  poi_x :: nat
  poi_y :: nat
  poi_elevation :: "int option"

record map_region =
  region_kind :: bytes
  region_name :: bytes
  region_corners :: "(nat \<times> nat) list"

record map_asset =
  map_width :: nat
  map_height :: nat
  map_flags :: int
  map_gravity :: u8
  map_temperature :: int
  map_light :: "light option"
  map_weather :: "weather option"
  map_wind :: "wind option"
  map_hexes :: "hex list"
  map_points :: "point_of_interest list"
  map_regions :: "map_region list"

definition has_map_flag :: "map_asset \<Rightarrow> map_flag \<Rightarrow> bool" where
  "has_map_flag a f \<longleftrightarrow> map_flag_is_set f (map_flags a)"

datatype place_error = BadText | NoCorners | OffMap

definition point_validate :: "nat \<Rightarrow> nat \<Rightarrow> point_of_interest \<Rightarrow> (place_error, unit) result" where
  "point_validate w h p =
     ensure_then (list_all (\<lambda>s. s \<noteq> [] \<and> 0 \<notin> set s) [poi_kind p, poi_name p]) BadText
       (ensure (poi_x p < w \<and> poi_y p < h) OffMap)"

definition region_validate :: "nat \<Rightarrow> nat \<Rightarrow> map_region \<Rightarrow> (place_error, unit) result" where
  "region_validate w h r =
     ensure_then (list_all (\<lambda>s. s \<noteq> [] \<and> 0 \<notin> set s) [region_kind r, region_name r]) BadText
       (ensure_then (region_corners r \<noteq> []) NoCorners
         (ensure (list_all (\<lambda>(x, y). x < w \<and> y < h) (region_corners r)) OffMap))"

definition asset_hex :: "map_asset \<Rightarrow> int \<Rightarrow> int \<Rightarrow> hex option" where
  "asset_hex a x y =
     (if x < 0 \<or> y < 0 \<or> int (map_width a) \<le> x \<or> int (map_height a) \<le> y then None
      else
        (let i = nat y * map_width a + nat x
         in if i < length (map_hexes a) then Some (map_hexes a ! i) else None))"

section \<open>The cell notation\<close>

text \<open>\<open>str::lines\<close>: a line feed ends a line, with a carriage return before it.\<close>

definition strip_cr :: "bytes \<Rightarrow> bytes" where
  "strip_cr s = (case strip_suffix [13] s of Some r \<Rightarrow> r | None \<Rightarrow> s)"

definition text_lines :: "bytes \<Rightarrow> bytes list" where
  "text_lines s =
     (let parts = split_on 10 s
      in map strip_cr (butlast parts) @ (if last parts = [] then [] else [last parts]))"

definition parse_u16 :: "bytes \<Rightarrow> nat option" where
  "parse_u16 s = (case parse_usize s of Some n \<Rightarrow> if n < 65536 then Some n else None | None \<Rightarrow> None)"

datatype cells_error =
    MissingDimensions | BadHeader | BadDimensions | MissingRow nat | BadRow nat
  | BadTerrain terrain_error nat nat | BadElevation nat nat | BadSettings | BadFlags | BadGravity | BadTemperature
  | TrailingText

definition cells_header :: "bytes \<Rightarrow> (nat \<times> nat) option" where
  "cells_header header =
     (case split_once 32 header of
        None \<Rightarrow> None
      | Some (w, h) \<Rightarrow>
          (case (parse_u16 w, parse_u16 h) of (Some x, Some y) \<Rightarrow> Some (x, y) | _ \<Rightarrow> None))"

definition cell_hex :: "nat \<Rightarrow> nat \<Rightarrow> u8 \<Rightarrow> u8 \<Rightarrow> (cells_error, hex) result" where
  "cell_hex x y symbol digit =
     bind_result
       (if symbol = of_char CHR ''.'' then Inr terrain.Clear
        else (case from_symbol (char_of (unat symbol)) of Inl e \<Rightarrow> Inl (BadTerrain e x y) | Inr t \<Rightarrow> Inr t))
       (\<lambda>t. ensure_then (is_ascii_digit digit) (BadElevation x y) (Inr (hex_new t (digit - 48))))"

fun row_hexes :: "nat \<Rightarrow> nat \<Rightarrow> bytes \<Rightarrow> (cells_error, hex list) result" where
  "row_hexes x y (symbol # digit # cells) =
     bind_result (cell_hex x y symbol digit) (\<lambda>h.
       bind_result (row_hexes (Suc x) y cells) (\<lambda>hs. Inr (h # hs)))"
| "row_hexes x y _ = Inr []"

text \<open>The rows, each taken from the lines that are left.\<close>

fun cells_rows :: "nat \<Rightarrow> nat \<Rightarrow> nat \<Rightarrow> bytes list \<Rightarrow> (cells_error, hex list \<times> bytes list) result" where
  "cells_rows w y 0 rows = Inr ([], rows)"
| "cells_rows w y (Suc n) [] = Inl (MissingRow y)"
| "cells_rows w y (Suc n) (row # rows) =
     ensure_then (length row = w * 2) (BadRow y)
       (bind_result (row_hexes 0 y row) (\<lambda>hs.
         bind_result (cells_rows w (Suc y) n rows) (\<lambda>(rest, left). Inr (hs @ rest, left))))"

definition cells_settings :: "bytes \<Rightarrow> (cells_error, int \<times> u8 \<times> int) result" where
  "cells_settings s =
     (case split_once 58 s of
        None \<Rightarrow> Inl BadSettings
      | Some (bits, conditions) \<Rightarrow>
          (let cs = split_whitespace conditions in
           ensure_then (length cs = 2) BadSettings
             (case parse_i32 (trim bits) of
                None \<Rightarrow> Inl BadFlags
              | Some fs \<Rightarrow>
                  (case parse_u8 (cs ! 0) of
                     None \<Rightarrow> Inl BadGravity
                   | Some g \<Rightarrow>
                       (case parse_int (- 128) 128 (cs ! 1) of
                          None \<Rightarrow> Inl BadTemperature
                        | Some t \<Rightarrow> Inr (fs, of_nat g, t))))))"

definition left_settings :: "bytes list \<Rightarrow> (cells_error, int \<times> u8 \<times> int) result" where
  "left_settings left = (case left of [] \<Rightarrow> Inr (0, 100, 20) | s # _ \<Rightarrow> cells_settings s)"

definition from_cells :: "bytes \<Rightarrow> (cells_error, map_asset) result" where
  "from_cells source =
     (case text_lines source of
        [] \<Rightarrow> Inl MissingDimensions
      | header # rows \<Rightarrow>
          (case cells_header header of
             None \<Rightarrow> Inl BadHeader
           | Some (w, h) \<Rightarrow>
               ensure_then (1 \<le> w \<and> w \<le> 1000 \<and> 1 \<le> h \<and> h \<le> 1000) BadDimensions
                 (bind_result (cells_rows w 0 h rows) (\<lambda>(hexes, left).
                    bind_result (left_settings left) (\<lambda>(fs, g, t).
                      ensure_then (drop 1 left = []) TrailingText
                        (Inr \<lparr>map_width = w, map_height = h, map_flags = fs, map_gravity = g, map_temperature = t,
                              map_light = None, map_weather = None, map_wind = None, map_hexes = hexes,
                              map_points = [], map_regions = []\<rparr>))))))"

section \<open>Symbols\<close>

definition MAX_DIMENSION :: nat where "MAX_DIMENSION = 1000"

definition glyph :: "char \<Rightarrow> bytes" where "glyph c = [of_char c]"

definition NO_LAYER :: bytes where "NO_LAYER = glyph CHR ''.''"

text \<open>\<open>None\<close>: no such symbol; \<open>Some None\<close>: water.\<close>

definition GROUND_SYMBOLS :: "(ground \<times> char) list" where
  "GROUND_SYMBOLS =
     [(ground.Clear, CHR ''.''), (ground.Pavement, CHR ''_''), (ground.Rough, CHR ''%''),
      (ground.UltraRough, CHR ''^''), (ground.Rubble, CHR '';''), (ground.UltraRubble, CHR ''!''),
      (ground.Sand, CHR ''}''), (ground.Tundra, CHR ''{''), (ground.Swamp, CHR ''w''),
      (ground.MagmaCrust, CHR ''m''), (ground.Magma, CHR ''M''), (ground.HeavyIndustrial, CHR ''$'')]"

definition ground_at :: "bytes \<Rightarrow> ground option option" where
  "ground_at c =
     (if c = glyph CHR ''~'' then Some None
      else map_option (\<lambda>(g, _). Some g) (List.find (\<lambda>(_, s). glyph s = c) GROUND_SYMBOLS))"

definition ground_symbol :: "hex \<Rightarrow> bytes" where
  "ground_symbol h =
     (if water_of h \<noteq> None then glyph CHR ''~''
      else (case ground_of h of
              ground.Clear \<Rightarrow> glyph CHR ''.''
            | ground.Pavement \<Rightarrow> glyph CHR ''_''
            | ground.Rough \<Rightarrow> glyph CHR ''%''
            | ground.UltraRough \<Rightarrow> glyph CHR ''^''
            | ground.Rubble \<Rightarrow> glyph CHR '';''
            | ground.UltraRubble \<Rightarrow> glyph CHR ''!''
            | ground.Sand \<Rightarrow> glyph CHR ''}''
            | ground.Tundra \<Rightarrow> glyph CHR ''{''
            | ground.Swamp \<Rightarrow> glyph CHR ''w''
            | ground.MagmaCrust \<Rightarrow> glyph CHR ''m''
            | ground.Magma \<Rightarrow> glyph CHR ''M''
            | ground.HeavyIndustrial \<Rightarrow> glyph CHR ''$''))"

definition flow_SYMBOLS :: "(flow \<times> char) list" where
  "flow_SYMBOLS = [(flow.Rapids, CHR ''r''), (flow.Torrent, CHR ''t'')]"

definition foliage_SYMBOLS :: "(foliage \<times> char) list" where
  "foliage_SYMBOLS =
     [(foliage.LightWoods, CHR 0x60), (foliage.HeavyWoods, CHR 0x22), (foliage.UltraHeavyWoods, CHR ''W''),
      (foliage.LightJungle, CHR ''j''), (foliage.HeavyJungle, CHR ''J''), (foliage.UltraHeavyJungle, CHR ''U''),
      (foliage.PlantedFields, CHR ''f'')]"

definition route_SYMBOLS :: "(route \<times> char) list" where
  "route_SYMBOLS =
     [(route.PavedRoad, CHR ''#''), (route.GravelRoad, CHR ''g''), (route.DirtRoad, CHR ''d''), (route.Rail, CHR ''|'')]"

definition condition_SYMBOLS :: "(condition \<times> char) list" where
  "condition_SYMBOLS =
     [(condition.Ice, CHR ''-''), (condition.ThinSnow, CHR ''*''), (condition.DeepSnow, CHR ''+''), (condition.Mud, CHR '','')]"

definition overlay_SYMBOLS :: "(decoration_kind \<times> char) list" where
  "overlay_SYMBOLS =
     [(decoration_kind.Fire, CHR ''&''), (decoration_kind.Smoke, CHR '':''), (decoration_kind.HeavySmoke, CHR ''?'')]"

definition layer_decode :: "('a \<times> char) list \<Rightarrow> bytes \<Rightarrow> 'a option option" where
  "layer_decode symbols c =
     (if c = NO_LAYER then Some None
      else map_option (\<lambda>(v, _). Some v) (List.find (\<lambda>(_, s). glyph s = c) symbols))"

definition layer_encode :: "('a \<times> char) list \<Rightarrow> 'a option \<Rightarrow> bytes" where
  "layer_encode symbols v =
     (case v of
        None \<Rightarrow> NO_LAYER
      | Some x \<Rightarrow> (case List.find (\<lambda>(y, _). y = x) symbols of Some (_, s) \<Rightarrow> glyph s | None \<Rightarrow> NO_LAYER))"

text \<open>\<open>char::to_digit\<close> and \<open>char::from_digit\<close> for a radix of at most 36.\<close>

definition to_digit :: "nat \<Rightarrow> bytes \<Rightarrow> nat option" where
  "to_digit radix c =
     (case c of
        [b] \<Rightarrow>
          (let v = (if 48 \<le> b \<and> b \<le> 57 then unat b - 48
                    else if 97 \<le> b \<and> b \<le> 122 then unat b - 87
                    else if 65 \<le> b \<and> b \<le> 90 then unat b - 55 else radix)
           in if v < radix then Some v else None)
      | _ \<Rightarrow> None)"

definition from_digit :: "nat \<Rightarrow> nat \<Rightarrow> bytes option" where
  "from_digit v radix =
     (if v < radix then Some [if v < 10 then of_nat (48 + v) else of_nat (87 + v)] else None)"

definition height_at :: "bytes \<Rightarrow> u8 option" where
  "height_at c = map_option of_nat (to_digit 36 c)"

text \<open>\<open>None\<close>: the panic of a height that no character shows.\<close>

definition height_symbol :: "u8 \<Rightarrow> bytes option" where
  "height_symbol v = from_digit (unat v) 36"

section \<open>Documents\<close>

record structure_entry =
  entry_kind :: structure_kind
  entry_class :: "construction_class option"
  entry_cf :: "u16 option"
  entry_height :: u8
  entry_hexes :: "(nat \<times> nat) list"

record map_document =
  doc_gravity :: "u8 option"
  doc_temperature :: "int option"
  doc_light :: "light option"
  doc_weather :: "weather option"
  doc_wind :: "wind option"
  doc_flags :: "map_flag list option"
  doc_terrain :: bytes
  doc_level :: bytes
  doc_depth :: "bytes option"
  doc_flow :: "bytes option"
  doc_foliage :: "bytes option"
  doc_route :: "bytes option"
  doc_condition :: "bytes option"
  doc_overlay :: "bytes option"
  doc_structures :: "structure_entry list"
  doc_points :: "point_of_interest list"
  doc_regions :: "map_region list"

record toml =
  read_toml :: "bytes \<Rightarrow> map_document option"
  flags_toml :: "map_flag list \<Rightarrow> bytes option"
  points_toml :: "point_of_interest list \<Rightarrow> bytes option"
  regions_toml :: "map_region list \<Rightarrow> bytes option"

datatype grid_kind = TerrainGrid | LevelGrid | DepthGrid | FlowGrid | FoliageGrid | RouteGrid | ConditionGrid | OverlayGrid

datatype file_error =
    InvalidFile | EmptyGrid grid_kind | EmptyFirstRow grid_kind | RaggedRow grid_kind | GridTooLarge grid_kind
  | OtherShape grid_kind | UnknownGround nat nat | InvalidLevel nat nat | DepthWithoutWater nat nat
  | MissingDepth nat nat | InvalidDepth nat nat | FlowWithoutWater nat nat | UnknownLayer grid_kind nat nat
  | BadCf | TooHigh | NoHexes | OffTheMap nat nat | AlreadyBuilt nat nat | InvalidHex hex_error nat nat
  | InvalidPoint place_error | InvalidRegion place_error | InvalidWind wind_error | InvalidFlags
  | TomlFailed | FilePanic

definition default_gravity :: u8 where "default_gravity = 100"
definition default_temperature :: int where "default_temperature = 20"

definition entry_structure :: "structure_entry \<Rightarrow> (file_error, hex_structure) result" where
  "entry_structure e =
     (let class = (case entry_class e of Some c \<Rightarrow> c | None \<Rightarrow> construction_class.Medium);
          full = construction_factor class;
          factor = (case entry_cf e of Some n \<Rightarrow> n | None \<Rightarrow> full)
      in ensure_then (1 \<le> factor \<and> factor \<le> full) BadCf
           (ensure_then (entry_height e \<le> MAX_HEIGHT) TooHigh
             (ensure_then (entry_hexes e \<noteq> []) NoHexes
               (Inr \<lparr>structure_kind = entry_kind e, structure_class = class, structure_height = entry_height e, cf = factor\<rparr>))))"

section \<open>Grids\<close>

type_synonym glyph_rows = "bytes list list"

definition read_grid :: "grid_kind \<Rightarrow> bytes \<Rightarrow> (file_error, glyph_rows) result" where
  "read_grid k s =
     (let rows = map utf8_chars (text_lines s) in
      ensure_then (rows \<noteq> []) (EmptyGrid k)
        (let w = length (rows ! 0) in
         ensure_then (0 < w) (EmptyFirstRow k)
           (ensure_then (list_all (\<lambda>row. length row = w) rows) (RaggedRow k)
             (ensure_then (w \<le> MAX_DIMENSION \<and> length rows \<le> MAX_DIMENSION) (GridTooLarge k) (Inr rows)))))"

definition matching_grid :: "grid_kind \<Rightarrow> bytes option \<Rightarrow> nat \<Rightarrow> nat \<Rightarrow> (file_error, glyph_rows option) result" where
  "matching_grid k s w h =
     (case s of
        None \<Rightarrow> Inr None
      | Some s \<Rightarrow>
          bind_result (read_grid k s) (\<lambda>rows.
            ensure_then (length rows = h \<and> length (rows ! 0) = w) (OtherShape k) (Inr (Some rows))))"

definition layer_at :: "grid_kind \<Rightarrow> ('a \<times> char) list \<Rightarrow> glyph_rows option \<Rightarrow> nat \<Rightarrow> nat \<Rightarrow> (file_error, 'a option) result" where
  "layer_at k symbols rows x y =
     (case rows of
        None \<Rightarrow> Inr None
      | Some rows \<Rightarrow>
          (case layer_decode symbols (rows ! y ! x) of None \<Rightarrow> Inl (UnknownLayer k x y) | Some v \<Rightarrow> Inr v))"

record map_grids =
  terrain_rows :: glyph_rows
  level_rows :: glyph_rows
  depth_rows :: "glyph_rows option"
  flow_rows :: "glyph_rows option"
  foliage_rows :: "glyph_rows option"
  route_rows :: "glyph_rows option"
  condition_rows :: "glyph_rows option"
  overlay_rows :: "glyph_rows option"

definition load_grids :: "map_document \<Rightarrow> (file_error, map_grids) result" where
  "load_grids d =
     bind_result (read_grid TerrainGrid (doc_terrain d)) (\<lambda>terrain.
       let w = length (terrain ! 0); h = length terrain in
       bind_result (matching_grid LevelGrid (Some (doc_level d)) w h) (\<lambda>levels.
       bind_result (matching_grid DepthGrid (doc_depth d) w h) (\<lambda>depths.
       bind_result (matching_grid FlowGrid (doc_flow d) w h) (\<lambda>flows.
       bind_result (matching_grid FoliageGrid (doc_foliage d) w h) (\<lambda>growth.
       bind_result (matching_grid RouteGrid (doc_route d) w h) (\<lambda>routes.
       bind_result (matching_grid ConditionGrid (doc_condition d) w h) (\<lambda>conditions.
       bind_result (matching_grid OverlayGrid (doc_overlay d) w h) (\<lambda>overlays.
       Inr \<lparr>terrain_rows = terrain, level_rows = the levels, depth_rows = depths, flow_rows = flows,
            foliage_rows = growth, route_rows = routes, condition_rows = conditions, overlay_rows = overlays\<rparr>))))))))"

section \<open>Reading\<close>

definition water_at :: "nat \<Rightarrow> nat \<Rightarrow> ground option \<Rightarrow> bytes option \<Rightarrow> (file_error, water option) result" where
  "water_at x y g d =
     (case g of
        Some _ \<Rightarrow> if d = None \<or> d = Some NO_LAYER then Inr None else Inl (DepthWithoutWater x y)
      | None \<Rightarrow>
          (case d of
             None \<Rightarrow> Inl (MissingDepth x y)
           | Some c \<Rightarrow>
               if c = NO_LAYER then Inl (MissingDepth x y)
               else (case to_digit 10 c of None \<Rightarrow> Inl (InvalidDepth x y) | Some n \<Rightarrow> Inr (Some (still_water (of_nat n))))))"

definition load_cell :: "map_grids \<Rightarrow> nat \<times> nat \<Rightarrow> (file_error, hex) result" where
  "load_cell g p =
     (case p of (x, y) \<Rightarrow>
       (case ground_at (terrain_rows g ! y ! x) of
          None \<Rightarrow> Inl (UnknownGround x y)
        | Some ground \<Rightarrow>
            (case height_at (level_rows g ! y ! x) of
               None \<Rightarrow> Inl (InvalidLevel x y)
             | Some lev \<Rightarrow>
                 bind_result (water_at x y ground (map_option (\<lambda>rows. rows ! y ! x) (depth_rows g))) (\<lambda>water.
                 bind_result (layer_at FlowGrid flow_SYMBOLS (flow_rows g) x y) (\<lambda>flow.
                 ensure_then (flow = None \<or> water \<noteq> None) (FlowWithoutWater x y)
                   (let water = map_option (\<lambda>wt. wt\<lparr>water_flow := (case flow of Some f \<Rightarrow> f | None \<Rightarrow> flow.Still)\<rparr>) water;
                        base = with_water (with_ground (at_level lev) (case ground of Some gr \<Rightarrow> gr | None \<Rightarrow> ground.Clear)) water in
                    bind_result (layer_at FoliageGrid foliage_SYMBOLS (foliage_rows g) x y) (\<lambda>growth.
                    bind_result (layer_at RouteGrid route_SYMBOLS (route_rows g) x y) (\<lambda>route.
                    bind_result (layer_at ConditionGrid condition_SYMBOLS (condition_rows g) x y) (\<lambda>condition.
                    bind_result (layer_at OverlayGrid overlay_SYMBOLS (overlay_rows g) x y) (\<lambda>overlay.
                    Inr (with_overlay (with_condition (with_route (with_foliage base growth) route) condition) overlay)))))))))))"

definition load_hexes :: "map_grids \<Rightarrow> (file_error, hex list) result" where
  "load_hexes g =
     collect_result (load_cell g)
       (concat (map (\<lambda>y. map (\<lambda>x. (x, y)) [0..<length (terrain_rows g ! 0)]) [0..<length (terrain_rows g)]))"

fun place_hexes :: "nat \<Rightarrow> nat \<Rightarrow> hex_structure \<Rightarrow> (nat \<times> nat) list \<Rightarrow> hex list \<Rightarrow> (file_error, hex list) result" where
  "place_hexes w h s [] hexes = Inr hexes"
| "place_hexes w h s ((x, y) # places) hexes =
     ensure_then (x < w \<and> y < h) (OffTheMap x y)
       (ensure_then (structure_of (hexes ! (y * w + x)) = None) (AlreadyBuilt x y)
         (place_hexes w h s places
           (hexes[y * w + x := with_structure (hexes ! (y * w + x)) (Some s)])))"

fun place_entries :: "nat \<Rightarrow> nat \<Rightarrow> structure_entry list \<Rightarrow> hex list \<Rightarrow> (file_error, hex list) result" where
  "place_entries w h [] hexes = Inr hexes"
| "place_entries w h (e # es) hexes =
     bind_result (entry_structure e) (\<lambda>s.
       bind_result (place_hexes w h s (entry_hexes e) hexes) (place_entries w h es))"

definition check_hexes :: "nat \<Rightarrow> hex list \<Rightarrow> (file_error, unit) result" where
  "check_hexes w hexes =
     check_all (\<lambda>(i, h). case validate h of Inl e \<Rightarrow> Inl (InvalidHex e (i mod w) (i div w)) | Inr _ \<Rightarrow> Inr ())
       (enumerate 0 hexes)"

definition refine_error :: "('e \<Rightarrow> 'f) \<Rightarrow> ('e, 'a) result \<Rightarrow> ('f, 'a) result" where
  "refine_error f r = (case r of Inl e \<Rightarrow> Inl (f e) | Inr v \<Rightarrow> Inr v)"

definition check_points :: "nat \<Rightarrow> nat \<Rightarrow> point_of_interest list \<Rightarrow> (file_error, unit) result" where
  "check_points w h = check_all (\<lambda>p. refine_error InvalidPoint (point_validate w h p))"

definition check_regions :: "nat \<Rightarrow> nat \<Rightarrow> map_region list \<Rightarrow> (file_error, unit) result" where
  "check_regions w h = check_all (\<lambda>r. refine_error InvalidRegion (region_validate w h r))"

definition parse_with_flags :: "toml \<Rightarrow> bytes \<Rightarrow> int \<Rightarrow> (file_error, map_asset) result" where
  "parse_with_flags t source inherited =
     (case read_toml t source of
        None \<Rightarrow> Inl InvalidFile
      | Some d \<Rightarrow>
          bind_result (load_grids d) (\<lambda>g.
            let w = length (terrain_rows g ! 0); h = length (terrain_rows g) in
            bind_result (load_hexes g) (\<lambda>base.
            bind_result (place_entries w h (doc_structures d) base) (\<lambda>hexes.
            bind_result (check_hexes w hexes) (\<lambda>_.
            bind_result (check_points w h (doc_points d)) (\<lambda>_.
            bind_result (check_regions w h (doc_regions d)) (\<lambda>_.
            bind_result (case doc_wind d of None \<Rightarrow> Inr () | Some v \<Rightarrow> refine_error InvalidWind (wind_validate v)) (\<lambda>_.
            let fs = (case doc_flags d of Some fs \<Rightarrow> fold (\<lambda>f b. map_flag_apply f b True) fs 0 | None \<Rightarrow> inherited) in
            ensure_then (- (2 ^ 31) \<le> fs \<and> fs < 2 ^ 31) InvalidFlags
              (Inr \<lparr>map_width = w, map_height = h, map_flags = fs,
                    map_gravity = (case doc_gravity d of Some v \<Rightarrow> v | None \<Rightarrow> default_gravity),
                    map_temperature = (case doc_temperature d of Some v \<Rightarrow> v | None \<Rightarrow> default_temperature),
                    map_light = doc_light d, map_weather = doc_weather d, map_wind = doc_wind d, map_hexes = hexes,
                    map_points = doc_points d, map_regions = doc_regions d\<rparr>)))))))))"

definition parse_map :: "toml \<Rightarrow> bytes \<Rightarrow> (file_error, map_asset) result" where
  "parse_map t source = parse_with_flags t source 0"

section \<open>Writing\<close>

text \<open>One grid: a symbol for each hex, a line for each row.\<close>

definition grid_rows :: "(hex \<Rightarrow> bytes option) \<Rightarrow> nat \<Rightarrow> hex list \<Rightarrow> bytes option" where
  "grid_rows encode w hexes =
     map_option concat
       (those (map (\<lambda>row. map_option (\<lambda>cs. concat cs @ [10]) (those (map encode row))) (chunks w hexes)))"

definition structure_key :: "hex_structure \<Rightarrow> nat \<times> nat \<times> nat \<times> nat" where
  "structure_key s =
     ((case structure_kind s of structure_kind.Building \<Rightarrow> 0 | structure_kind.Wall \<Rightarrow> 1 | structure_kind.Bridge \<Rightarrow> 2),
      (case structure_class s of
         construction_class.Light \<Rightarrow> 0 | construction_class.Medium \<Rightarrow> 1
       | construction_class.Heavy \<Rightarrow> 2 | construction_class.Hardened \<Rightarrow> 3),
      unat (structure_height s), unat (cf s))"

text \<open>The map of structures to their hexes, in the order that \<open>Structure\<close> derives.\<close>

definition built_hexes :: "nat \<Rightarrow> hex list \<Rightarrow> (hex_structure \<times> nat \<times> nat) list" where
  "built_hexes w hexes =
     concat (map (\<lambda>(i, h). case structure_of h of
                              None \<Rightarrow> [] | Some s \<Rightarrow> [(s, (i mod w) mod 65536, (i div w) mod 65536)])
               (enumerate 0 hexes))"

definition group_structures :: "nat \<Rightarrow> hex list \<Rightarrow> (hex_structure \<times> (nat \<times> nat) list) list" where
  "group_structures w hexes =
     map (\<lambda>(_, g). (fst (hd g), map snd g)) (bt_group (\<lambda>(s, _). structure_key s) (built_hexes w hexes))"

definition written_entry :: "hex_structure \<times> (nat \<times> nat) list \<Rightarrow> structure_entry" where
  "written_entry e =
     (case e of (s, hexes) \<Rightarrow>
       \<lparr>entry_kind = structure_kind s, entry_class = Some (structure_class s),
        entry_cf = (if cf s \<noteq> construction_factor (structure_class s) then Some (cf s) else None),
        entry_height = structure_height s, entry_hexes = hexes\<rparr>)"

definition when_any :: "(hex \<Rightarrow> bool) \<Rightarrow> hex list \<Rightarrow> bytes option \<Rightarrow> bytes option option" where
  "when_any P hexes s = (if list_ex P hexes then map_option Some s else Some None)"

definition depth_symbol :: "hex \<Rightarrow> bytes option" where
  "depth_symbol h = (case water_of h of None \<Rightarrow> Some NO_LAYER | Some wt \<Rightarrow> height_symbol (depth wt))"

text \<open>The values the file spells, in the order they are written; \<open>None\<close> is a panic.\<close>

definition written_document :: "map_asset \<Rightarrow> map_document option" where
  "written_document a =
     (let w = map_width a; hexes = map_hexes a; rows = (\<lambda>encode. grid_rows encode w hexes) in
      Option.bind (rows (\<lambda>h. Some (ground_symbol h))) (\<lambda>terrain.
      Option.bind (rows (\<lambda>h. height_symbol (level h))) (\<lambda>levels.
      Option.bind (when_any (\<lambda>h. water_of h \<noteq> None) hexes (rows depth_symbol)) (\<lambda>depths.
      Option.bind (when_any (\<lambda>h. case water_of h of Some wt \<Rightarrow> \<not> is_still (water_flow wt) | None \<Rightarrow> False) hexes
                    (rows (\<lambda>h. Some (layer_encode flow_SYMBOLS (map_option water_flow (water_of h)))))) (\<lambda>flows.
      Option.bind (when_any (\<lambda>h. foliage_of h \<noteq> None) hexes
                    (rows (\<lambda>h. Some (layer_encode foliage_SYMBOLS (foliage_of h))))) (\<lambda>growth.
      Option.bind (when_any (\<lambda>h. route_of h \<noteq> None) hexes
                    (rows (\<lambda>h. Some (layer_encode route_SYMBOLS (route_of h))))) (\<lambda>routes.
      Option.bind (when_any (\<lambda>h. condition_of h \<noteq> None) hexes
                    (rows (\<lambda>h. Some (layer_encode condition_SYMBOLS (condition_of h))))) (\<lambda>conditions.
      Option.bind (when_any (\<lambda>h. overlay_of h \<noteq> None) hexes
                    (rows (\<lambda>h. Some (layer_encode overlay_SYMBOLS (overlay_of h))))) (\<lambda>overlays.
      Some \<lparr>doc_gravity = Some (map_gravity a), doc_temperature = Some (map_temperature a), doc_light = map_light a,
            doc_weather = map_weather a, doc_wind = map_wind a,
            doc_flags = Some (filter (\<lambda>f. map_flag_is_set f (map_flags a)) map_flag_ALL),
            doc_terrain = terrain, doc_level = levels, doc_depth = depths, doc_flow = flows, doc_foliage = growth,
            doc_route = routes, doc_condition = conditions, doc_overlay = overlays,
            doc_structures = map written_entry (group_structures w hexes),
            doc_points = map_points a, doc_regions = map_regions a\<rparr>)))))))))"

text \<open>The text.\<close>

definition text_line :: "bytes \<Rightarrow> bytes" where "text_line s = s @ [10]"

function trim_start_matches :: "bytes \<Rightarrow> bytes \<Rightarrow> bytes" where
  "trim_start_matches p s =
     (if p = [] then s else (case strip_prefix p s of None \<Rightarrow> s | Some r \<Rightarrow> trim_start_matches p r))"
  by pat_completeness auto
termination
proof (relation "measure (\<lambda>(p, s). length s)", goal_cases)
  case (2 p s r)
  then show ?case by (cases s; cases p) (auto simp: strip_prefix_def split: if_splits)
qed simp

declare trim_start_matches.simps [simp del]

definition quotes :: bytes where "quotes = [39, 39, 39]"

definition grid_text :: "string \<Rightarrow> bytes \<Rightarrow> bytes" where
  "grid_text key rows = text_line (bstr key @ bstr '' = '' @ quotes @ [10] @ rows @ quotes)"

definition optional_grid :: "string \<Rightarrow> bytes option \<Rightarrow> bytes" where
  "optional_grid key rows = (case rows of None \<Rightarrow> [] | Some r \<Rightarrow> grid_text key r)"

primrec kind_name :: "structure_kind \<Rightarrow> bytes" where
  "kind_name structure_kind.Building = bstr ''building''"
| "kind_name structure_kind.Wall = bstr ''wall''"
| "kind_name structure_kind.Bridge = bstr ''bridge''"

definition quoted :: "bytes \<Rightarrow> bytes" where "quoted s = [34] @ s @ [34]"

definition entry_text :: "structure_entry \<Rightarrow> bytes" where
  "entry_text e =
     text_line ([10] @ bstr ''[[structures]]'' @ [10] @ bstr ''kind = '' @ quoted (kind_name (entry_kind e)) @ [10]
       @ bstr ''class = '' @ quoted (case entry_class e of
           Some c \<Rightarrow> to_ascii_lowercase (bstr (construction_class_label c)) | None \<Rightarrow> []))
     @ (case entry_cf e of Some n \<Rightarrow> text_line (bstr ''cf = '' @ show_nat (unat n)) | None \<Rightarrow> [])
     @ text_line (bstr ''height = '' @ show_nat (unat (entry_height e)))
     @ text_line (bstr ''hexes = ['' @ join_with (bstr '', '')
         (map (\<lambda>(x, y). bstr ''['' @ show_nat x @ bstr '', '' @ show_nat y @ bstr '']'') (entry_hexes e)) @ bstr '']'')"

definition conditions_text :: "map_document \<Rightarrow> bytes" where
  "conditions_text d =
     text_line (bstr ''gravity = '' @ show_nat (unat (the (doc_gravity d))))
     @ text_line (bstr ''temperature = '' @ show_int (the (doc_temperature d)))
     @ (case doc_light d of None \<Rightarrow> [] | Some l \<Rightarrow> text_line (bstr ''light = '' @ quoted (light_name l)))
     @ (case doc_weather d of None \<Rightarrow> [] | Some v \<Rightarrow> text_line (bstr ''weather = '' @ quoted (weather_name v)))
     @ (case doc_wind d of
          None \<Rightarrow> []
        | Some v \<Rightarrow> text_line (bstr ''wind = { direction = '' @ show_nat (unat (wind_direction v))
                      @ bstr '', speed = '' @ show_nat (unat (wind_speed v)) @ bstr '' }''))"

definition grids_text :: "map_document \<Rightarrow> bytes" where
  "grids_text d =
     [10] @ grid_text ''terrain'' (doc_terrain d) @ grid_text ''level'' (doc_level d)
     @ optional_grid ''depth'' (doc_depth d) @ optional_grid ''flow'' (doc_flow d)
     @ optional_grid ''foliage'' (doc_foliage d) @ optional_grid ''route'' (doc_route d)
     @ optional_grid ''condition'' (doc_condition d) @ optional_grid ''overlay'' (doc_overlay d)
     @ concat (map entry_text (doc_structures d))"

definition library_text :: "bytes option \<Rightarrow> (file_error, bytes) result" where
  "library_text s = (case s of None \<Rightarrow> Inl TomlFailed | Some r \<Rightarrow> Inr r)"

definition list_text :: "('a list \<Rightarrow> bytes option) \<Rightarrow> 'a list \<Rightarrow> (file_error, bytes) result" where
  "list_text toml xs =
     (if xs = [] then Inr []
      else bind_result (library_text (toml xs)) (\<lambda>s. Inr (text_line ([10] @ trim_end s))))"

definition to_file :: "toml \<Rightarrow> map_asset \<Rightarrow> (file_error, bytes) result" where
  "to_file t a =
     ensure_then (map_width a \<noteq> 0) FilePanic
       (bind_result (check_hexes (map_width a) (map_hexes a)) (\<lambda>_.
        case written_document a of
          None \<Rightarrow> Inl FilePanic
        | Some d \<Rightarrow>
            bind_result (library_text (flags_toml t (the (doc_flags d)))) (\<lambda>flags.
            bind_result (check_points (map_width a) (map_height a) (map_points a)) (\<lambda>_.
            bind_result (list_text (points_toml t) (map_points a)) (\<lambda>points.
            bind_result (check_regions (map_width a) (map_height a) (map_regions a)) (\<lambda>_.
            bind_result (list_text (regions_toml t) (map_regions a)) (\<lambda>regions.
            Inr (conditions_text d
                 @ text_line (bstr ''flags = '' @ trim_end (trim_start_matches (bstr ''flags = '') flags))
                 @ grids_text d @ points @ regions))))))))"

end
