(* ===== verification/Map_File_Valid.thy ===== *)
theory Map_File_Valid
  imports Map_File
begin

text \<open>
  What reading a map file or the cell notation guarantees, and that a map comes back from the file it was
  saved to.
\<close>

lemma index_less:
  fixes x w y h :: nat
  assumes "x < w" and "y < h"
  shows "y * w + x < h * w"
proof -
  have "y * w + x < Suc y * w" using assms(1) by simp
  also have "\<dots> \<le> h * w" using assms(2) by (intro mult_le_mono1) simp
  finally show ?thesis .
qed

section \<open>Maps in good order\<close>

definition map_ok :: "map_asset \<Rightarrow> bool" where
  "map_ok a \<longleftrightarrow>
     1 \<le> map_width a \<and> map_width a \<le> 1000 \<and> 1 \<le> map_height a \<and> map_height a \<le> 1000
     \<and> length (map_hexes a) = map_height a * map_width a \<and> (\<forall>h\<in>set (map_hexes a). hex_ok h)
     \<and> (\<forall>p\<in>set (map_points a). point_validate (map_width a) (map_height a) p = Inr ())
     \<and> (\<forall>r\<in>set (map_regions a). region_validate (map_width a) (map_height a) r = Inr ())
     \<and> (case map_wind a of None \<Rightarrow> True | Some v \<Rightarrow> wind_validate v = Inr ())"

lemma refine_error_simps [simp]:
  "refine_error f (Inl e) = Inl (f e)"
  "refine_error f (Inr v) = Inr v"
  "refine_error f r = Inr v \<longleftrightarrow> r = Inr v"
  by (simp_all add: refine_error_def split: sum.split)

lemma check_points_iff: "check_points w h ps = Inr () \<longleftrightarrow> (\<forall>p\<in>set ps. point_validate w h p = Inr ())"
  by (simp add: check_points_def check_all_ok)

lemma check_regions_iff: "check_regions w h rs = Inr () \<longleftrightarrow> (\<forall>r\<in>set rs. region_validate w h r = Inr ())"
  by (simp add: check_regions_def check_all_ok)

lemma check_hexes_iff: "check_hexes w hexes = Inr () \<longleftrightarrow> (\<forall>h\<in>set hexes. hex_ok h)"
proof -
  have "check_hexes w hexes = Inr () \<longleftrightarrow> (\<forall>(i, h)\<in>set (enumerate 0 hexes). validate h = Inr ())"
    by (auto simp: check_hexes_def check_all_ok split: sum.splits)
  also have "\<dots> \<longleftrightarrow> (\<forall>h\<in>set hexes. validate h = Inr ())"
    using all_enumerate [of 0 hexes "\<lambda>h. validate h = Inr ()"] by (simp add: case_prod_unfold)
  finally show ?thesis by (simp add: validate_iff)
qed

lemma length_collect_result: "collect_result f xs = Inr ys \<Longrightarrow> length ys = length xs"
  by (induction xs arbitrary: ys) (auto simp: bind_result_Inr_iff)

lemma read_grid_shape:
  assumes "read_grid k s = Inr rows"
  shows "1 \<le> length (rows ! 0) \<and> length (rows ! 0) \<le> 1000 \<and> 1 \<le> length rows \<and> length rows \<le> 1000"
  using assms by (cases "map utf8_chars (text_lines s)")
    (auto simp: read_grid_def Let_def ensure_then_def MAX_DIMENSION_def Suc_le_eq split: if_splits)

lemma load_grids_terrain: "load_grids d = Inr g \<Longrightarrow> read_grid TerrainGrid (doc_terrain d) = Inr (terrain_rows g)"
  by (auto simp: load_grids_def bind_result_Inr_iff Let_def)

lemma load_hexes_length:
  assumes "load_hexes g = Inr hexes"
  shows "length hexes = length (terrain_rows g) * length (terrain_rows g ! 0)"
  using length_collect_result [OF assms [unfolded load_hexes_def]]
  by (simp add: length_concat comp_def sum_list_triv)

lemma place_hexes_length: "place_hexes w h s ps hexes = Inr hexes' \<Longrightarrow> length hexes' = length hexes"
  by (induction w h s ps hexes rule: place_hexes.induct) (auto simp: ensure_then_def split: if_splits)

lemma place_entries_length: "place_entries w h es hexes = Inr hexes' \<Longrightarrow> length hexes' = length hexes"
  by (induction es arbitrary: hexes) (auto simp: bind_result_Inr_iff dest: place_hexes_length)

lemma parse_facts:
  assumes "parse_with_flags t source inherited = Inr a"
  shows "map_ok a \<and> - (2 ^ 31) \<le> map_flags a \<and> map_flags a < 2 ^ 31
    \<and> (map_flags a = inherited \<or> (\<exists>fs. map_flags a = fold (\<lambda>f b. map_flag_apply f b True) fs 0))"
proof -
  obtain d g base hexes where run: "read_toml t source = Some d" "load_grids d = Inr g" "load_hexes g = Inr base"
      "place_entries (length (terrain_rows g ! 0)) (length (terrain_rows g)) (doc_structures d) base = Inr hexes"
    and checks: "check_hexes (length (terrain_rows g ! 0)) hexes = Inr ()"
      "check_points (length (terrain_rows g ! 0)) (length (terrain_rows g)) (doc_points d) = Inr ()"
      "check_regions (length (terrain_rows g ! 0)) (length (terrain_rows g)) (doc_regions d) = Inr ()"
      "case doc_wind d of None \<Rightarrow> True | Some v \<Rightarrow> wind_validate v = Inr ()"
    and a: "map_width a = length (terrain_rows g ! 0)" "map_height a = length (terrain_rows g)" "map_hexes a = hexes"
      "map_points a = doc_points d" "map_regions a = doc_regions d" "map_wind a = doc_wind d"
      "map_flags a = (case doc_flags d of Some fs \<Rightarrow> fold (\<lambda>f b. map_flag_apply f b True) fs 0 | None \<Rightarrow> inherited)"
      "- (2 ^ 31) \<le> map_flags a" "map_flags a < 2 ^ 31"
    using assms
    by (auto simp: parse_with_flags_def bind_result_Inr_iff Let_def ensure_then_def split: option.splits if_splits)
  show ?thesis
    using read_grid_shape [OF load_grids_terrain [OF run(2)]] load_hexes_length [OF run(3)] place_entries_length [OF run(4)] checks a
    by (auto simp: map_ok_def check_hexes_iff check_points_iff check_regions_iff split: option.splits)
qed

section \<open>Grids\<close>

text \<open>What a grid shows: one visible character per hex, row by row.\<close>

definition graphic_glyph :: "bytes \<Rightarrow> bool" where
  "graphic_glyph g \<longleftrightarrow> (\<exists>b. g = [b] \<and> 33 \<le> b \<and> b < 127)"

definition spell :: "nat \<Rightarrow> hex list \<Rightarrow> (hex \<Rightarrow> bytes) \<Rightarrow> glyph_rows" where
  "spell w hexes enc = map (map enc) (chunks w hexes)"

lemma utf8_chars_Cons: "b < 127 \<Longrightarrow> utf8_chars (b # s) = [b] # utf8_chars s"
  using order_less_imp_le [of b 127] by (subst utf8_chars.simps) (simp add: tail_checks_def)

lemma utf8_chars_visible: "\<forall>g\<in>set gs. graphic_glyph g \<Longrightarrow> utf8_chars (concat gs) = gs"
proof (induction gs)
  case Nil
  show ?case by (simp add: utf8_chars.simps)
next
  case (Cons g gs)
  then obtain b where "g = [b]" "b < 127" by (auto simp: graphic_glyph_def)
  then show ?case using Cons utf8_chars_Cons [of b "concat gs"] by simp
qed

lemma strip_cr_visible: "\<forall>g\<in>set gs. graphic_glyph g \<Longrightarrow> strip_cr (concat gs) = concat gs"
proof (cases gs rule: rev_cases)
  case (snoc hs g)
  assume "\<forall>g\<in>set gs. graphic_glyph g"
  then obtain b where "g = [b]" "33 \<le> b" using snoc by (auto simp: graphic_glyph_def)
  then show ?thesis using snoc by (auto simp: strip_cr_def strip_suffix_def)
qed (simp add: strip_cr_def strip_suffix_def)

lemma split_on_lines:
  assumes "\<forall>row\<in>set rows. 10 \<notin> set row"
  shows "split_on 10 (concat (map (\<lambda>row. row @ [10]) rows)) = rows @ [[]]"
  using assms
proof (induction rows)
  case (Cons row rows)
  have "split_on 10 (row @ 10 # s) = row # split_on 10 s" if "10 \<notin> set row" for row s :: bytes
    using that by (induction row) auto
  then show ?case using Cons by simp
qed simp

lemma text_lines_visible:
  assumes "\<forall>row\<in>set rows. \<forall>g\<in>set row. graphic_glyph g"
  shows "map utf8_chars (text_lines (concat (map (\<lambda>row. concat row @ [10]) rows))) = rows"
proof -
  have "10 \<notin> set (concat row)" if "row \<in> set rows" for row
    using assms that by (fastforce simp: graphic_glyph_def)
  then have "split_on 10 (concat (map (\<lambda>row. concat row @ [10]) rows)) = map concat rows @ [[]]"
    using split_on_lines [of "map concat rows"] by (simp add: comp_def)
  moreover have "map (utf8_chars \<circ> strip_cr \<circ> concat) rows = rows"
    using assms by (intro map_idI) (simp add: strip_cr_visible utf8_chars_visible)
  ultimately show ?thesis by (simp add: text_lines_def Let_def butlast_append comp_assoc)
qed

lemma spell_nth:
  assumes "0 < w" and "length hexes = h * w" and "x < w" and "y < h"
  shows "spell w hexes enc ! y ! x = enc (hexes ! (y * w + x))"
  using assms by (simp add: spell_def chunks_nth [OF assms(1,2)])

lemma spell_shape:
  assumes "0 < w" and "length hexes = h * w"
  shows "length (spell w hexes enc) = h" and "\<forall>row\<in>set (spell w hexes enc). length row = w"
    and "0 < h \<Longrightarrow> length (spell w hexes enc ! 0) = w"
  using assms by (auto simp: spell_def chunks_nth [OF assms])

lemma concat_chunks: "0 < n \<Longrightarrow> concat (chunks n xs) = xs"
  by (induction n xs rule: chunks.induct) auto

lemma grid_rows_spell:
  assumes w: "0 < w" "w \<le> 1000" and h: "0 < h" "h \<le> 1000" and len: "length hexes = h * w"
    and enc: "\<And>x. x \<in> set hexes \<Longrightarrow> encode x = Some (enc x) \<and> graphic_glyph (enc x)"
  shows "\<exists>s. grid_rows encode w hexes = Some s \<and> read_grid k s = Inr (spell w hexes enc)"
proof -
  have row: "x \<in> set hexes" if "row \<in> set (chunks w hexes)" "x \<in> set row" for x row
    using in_chunks that by fastforce
  let ?s = "concat (map (\<lambda>row. concat row @ [10]) (spell w hexes enc))"
  have "those (map encode row) = Some (map enc row)" if "row \<in> set (chunks w hexes)" for row
    using row [OF that] enc by (intro those_map_Some) blast
  then have "those (map (\<lambda>row. map_option (\<lambda>cs. concat cs @ [10]) (those (map encode row))) (chunks w hexes)) =
      Some (map (\<lambda>row. concat (map enc row) @ [10]) (chunks w hexes))"
    by (intro those_map_Some) simp
  then have "grid_rows encode w hexes = Some ?s" by (simp add: grid_rows_def spell_def comp_def)
  moreover have shown: "map utf8_chars (text_lines ?s) = spell w hexes enc"
    using row enc by (intro text_lines_visible) (auto simp: spell_def)
  moreover have nonempty: "spell w hexes enc \<noteq> []"
    using spell_shape [OF w(1) len, of enc] h(1) by auto
  moreover have "text_lines ?s \<noteq> []"
  proof
    assume "text_lines ?s = []"
    then have "map utf8_chars (text_lines ?s) = []" by simp
    then show False using shown nonempty by simp
  qed
  ultimately show ?thesis
    using spell_shape(1,2) [OF w(1) len, of enc] spell_shape(3) [OF w(1) len h(1), of enc] w h
    by (simp add: read_grid_def Let_def MAX_DIMENSION_def list_all_iff ensure_then_def del: length_0_conv length_greater_0_conv)
qed

lemma matching_grid_spell:
  assumes "0 < w" and "0 < h" and "length hexes = h * w" and "read_grid k s = Inr (spell w hexes enc)"
  shows "matching_grid k (Some s) w h = Inr (Some (spell w hexes enc))"
  using assms spell_shape [OF assms(1,3)] by (simp add: matching_grid_def ensure_then_def)

text \<open>An optional grid is written when some hex has the layer.\<close>

definition spell_any :: "(hex \<Rightarrow> bool) \<Rightarrow> nat \<Rightarrow> hex list \<Rightarrow> (hex \<Rightarrow> bytes) \<Rightarrow> glyph_rows option" where
  "spell_any P w hexes enc = (if list_ex P hexes then Some (spell w hexes enc) else None)"

lemma when_any_spell:
  assumes "0 < w" "w \<le> 1000" "0 < h" "h \<le> 1000" "length hexes = h * w"
    and "\<And>x. x \<in> set hexes \<Longrightarrow> encode x = Some (enc x) \<and> graphic_glyph (enc x)"
  shows "\<exists>s. when_any P hexes (grid_rows encode w hexes) = Some s \<and> matching_grid k s w h = Inr (spell_any P w hexes enc)"
proof -
  obtain s where s: "grid_rows encode w hexes = Some s" "read_grid k s = Inr (spell w hexes enc)"
    using grid_rows_spell [of w h hexes encode enc k] assms by blast
  show ?thesis
    using s matching_grid_spell [OF assms(1,3,5) s(2)]
    by (cases "list_ex P hexes") (auto simp: when_any_def spell_any_def matching_grid_def)
qed

section \<open>Symbols come back\<close>

text \<open>A layer's table: each value once, each symbol once, and none of them the dot.\<close>

locale layer_symbols =
  fixes symbols :: "('a \<times> char) list"
  assumes values_once: "distinct (map fst symbols)"
    and symbols_once: "distinct (map (\<lambda>(_, c). glyph c) symbols)"
    and no_dot: "\<forall>(_, c)\<in>set symbols. glyph c \<noteq> NO_LAYER \<and> graphic_glyph (glyph c)"
begin

lemma encode_listed: "(v, c) \<in> set symbols \<Longrightarrow> layer_encode symbols (Some v) = glyph c"
  using values_once
  by (induction symbols) (auto simp: layer_encode_def rev_image_eqI)

lemma decode_listed: "(v, c) \<in> set symbols \<Longrightarrow> layer_decode symbols (glyph c) = Some (Some v)"
proof -
  assume v: "(v, c) \<in> set symbols"
  have "List.find (\<lambda>(_, s). glyph s = glyph c) symbols = Some (v, c)"
    using symbols_once v by (induction symbols) (auto simp: rev_image_eqI)
  then show ?thesis using v no_dot by (auto simp: layer_decode_def)
qed

lemma decode_encode:
  assumes "\<And>x. v = Some x \<Longrightarrow> x \<in> fst ` set symbols"
  shows "layer_decode symbols (layer_encode symbols v) = Some v"
proof (cases v)
  case None
  then show ?thesis by (simp add: layer_encode_def layer_decode_def)
next
  case (Some x)
  then obtain c where "(x, c) \<in> set symbols" using assms by force
  then show ?thesis using Some encode_listed decode_listed by simp
qed

lemma encode_unlisted: "x \<notin> fst ` set symbols \<Longrightarrow> layer_encode symbols (Some x) = NO_LAYER"
  by (auto simp: layer_encode_def find_None_iff rev_image_eqI split: option.split dest: find_Some_iff_first)

lemma encode_visible: "graphic_glyph (layer_encode symbols v)"
proof -
  have "graphic_glyph NO_LAYER" by (simp add: graphic_glyph_def NO_LAYER_def glyph_def)
  moreover have "graphic_glyph (glyph c)" if "(x, c) \<in> set symbols" for x c using no_dot that by blast
  ultimately show ?thesis
    by (auto simp: layer_encode_def split: option.split dest: find_Some_iff_first)
qed

end

context layer_symbols begin

lemma layer_written:
  assumes "map_ok a"
  shows "\<exists>s. when_any P (map_hexes a) (grid_rows (\<lambda>h. Some (layer_encode symbols (f h))) (map_width a) (map_hexes a)) = Some s
    \<and> matching_grid k s (map_width a) (map_height a) =
        Inr (spell_any P (map_width a) (map_hexes a) (\<lambda>h. layer_encode symbols (f h)))"
  using assms encode_visible by (intro when_any_spell) (auto simp: map_ok_def)

text \<open>Reading a layer where it was written.\<close>

lemma layer_at_spell:
  assumes "0 < w" and "length hexes = h * w" and "x < w" and "y < h"
    and "layer_decode symbols (layer_encode symbols (f (hexes ! (y * w + x)))) = Some (v (hexes ! (y * w + x)))"
    and "\<And>hx. \<not> P hx \<Longrightarrow> v hx = None"
  shows "layer_at k symbols (spell_any P w hexes (\<lambda>h. layer_encode symbols (f h))) x y = Inr (v (hexes ! (y * w + x)))"
proof (cases "list_ex P hexes")
  case True
  then show ?thesis using assms(5) by (simp add: layer_at_def spell_any_def spell_nth [OF assms(1-4)])
next
  case False
  have "y * w + x < h * w" using assms(3,4) by (rule index_less)
  then have "hexes ! (y * w + x) \<in> set hexes" using assms(2) by simp
  then have "\<not> P (hexes ! (y * w + x))" using False by (auto simp: list_ex_iff)
  then show ?thesis using assms(6) False by (simp add: layer_at_def spell_any_def)
qed

end

lemmas symbol_defs = flow_SYMBOLS_def foliage_SYMBOLS_def route_SYMBOLS_def condition_SYMBOLS_def overlay_SYMBOLS_def

interpretation flows: layer_symbols flow_SYMBOLS
  by unfold_locales (simp_all add: flow_SYMBOLS_def glyph_def NO_LAYER_def graphic_glyph_def)

interpretation growths: layer_symbols foliage_SYMBOLS
  by unfold_locales (simp_all add: foliage_SYMBOLS_def glyph_def NO_LAYER_def graphic_glyph_def)

interpretation paths: layer_symbols route_SYMBOLS
  by unfold_locales (simp_all add: route_SYMBOLS_def glyph_def NO_LAYER_def graphic_glyph_def)

interpretation weathers: layer_symbols condition_SYMBOLS
  by unfold_locales (simp_all add: condition_SYMBOLS_def glyph_def NO_LAYER_def graphic_glyph_def)

interpretation overlays: layer_symbols overlay_SYMBOLS
  by unfold_locales (simp_all add: overlay_SYMBOLS_def glyph_def NO_LAYER_def graphic_glyph_def)

lemma all_listed: "f \<in> fst ` set foliage_SYMBOLS" "r \<in> fst ` set route_SYMBOLS" "c \<in> fst ` set condition_SYMBOLS"
  "k \<in> fst ` set overlay_SYMBOLS" "fl \<noteq> flow.Still \<Longrightarrow> fl \<in> fst ` set flow_SYMBOLS"
  by (cases f, simp_all add: symbol_defs) (cases r, simp_all add: symbol_defs, cases c, simp_all add: symbol_defs,
    cases k, simp_all add: symbol_defs, cases fl, simp_all add: symbol_defs)

lemma ground_comes_back:
  "water_of h = None \<Longrightarrow> ground_at (ground_symbol h) = Some (Some (ground_of h))"
  "water_of h \<noteq> None \<Longrightarrow> ground_at (ground_symbol h) = Some None"
  by (cases "ground_of h") (simp_all add: ground_symbol_def ground_at_def glyph_def GROUND_SYMBOLS_def)

lemma ground_symbol_visible: "graphic_glyph (ground_symbol h)"
  by (cases "ground_of h") (simp_all add: ground_symbol_def glyph_def graphic_glyph_def)

lemma digit_comes_back:
  assumes "v < radix" and "radix \<le> 36"
  obtains c where "from_digit v radix = Some c" "to_digit radix c = Some v" "graphic_glyph c" "c \<noteq> NO_LAYER"
proof -
  have fits: "v < 10 \<Longrightarrow> unat (of_nat (48 + v) :: u8) = 48 + v" "v < 36 \<Longrightarrow> unat (of_nat (87 + v) :: u8) = 87 + v"
    unfolding unat_of_nat by simp_all
  define b :: u8 where "b = (if v < 10 then of_nat (48 + v) else of_nat (87 + v))"
  have b: "unat b = (if v < 10 then 48 + v else 87 + v)" using fits assms by (simp only: b_def split: if_split) simp
  have "from_digit v radix = Some [b]" using assms(1) by (simp add: from_digit_def b_def)
  moreover have "to_digit radix [b] = Some v" using b assms by (auto simp: to_digit_def word_le_nat_alt)
  moreover have "graphic_glyph [b]" using b assms by (auto simp: graphic_glyph_def word_le_nat_alt word_less_nat_alt)
  moreover have "[b] \<noteq> NO_LAYER"
  proof
    assume "[b] = NO_LAYER"
    then have "unat b = 46" by (simp add: NO_LAYER_def glyph_def)
    then show False using b by (auto split: if_splits)
  qed
  ultimately show thesis by (rule that)
qed

lemma height_comes_back:
  assumes "v \<le> 35"
  obtains c where "height_symbol v = Some c" "height_at c = Some v" "graphic_glyph c"
    "v \<le> 9 \<Longrightarrow> to_digit 10 c = Some (unat v)" "c \<noteq> NO_LAYER"
proof -
  have "unat v < 36" using assms by (simp add: word_le_nat_alt)
  then obtain c where c: "from_digit (unat v) 36 = Some c" "to_digit 36 c = Some (unat v)" "graphic_glyph c" "c \<noteq> NO_LAYER"
    using digit_comes_back [of "unat v" 36] by auto
  have "to_digit 10 c = Some (unat v)" if "v \<le> 9"
  proof -
    have "unat v < 10" using that by (simp add: word_le_nat_alt)
    then show ?thesis using digit_comes_back [of "unat v" 10] c(1) by (auto simp: from_digit_def)
  qed
  then show thesis using c by (intro that [of c]) (auto simp: height_symbol_def height_at_def)
qed

section \<open>The grids of a saved map\<close>

definition shown_flow :: "hex \<Rightarrow> flow option" where
  "shown_flow h = (case water_of h of Some wt \<Rightarrow> if is_still (water_flow wt) then None else Some (water_flow wt) | None \<Rightarrow> None)"

definition shown_grids :: "map_asset \<Rightarrow> map_grids" where
  "shown_grids a =
     (let w = map_width a; hexes = map_hexes a in
      \<lparr>terrain_rows = spell w hexes ground_symbol,
       level_rows = spell w hexes (\<lambda>h. the (height_symbol (level h))),
       depth_rows = spell_any (\<lambda>h. water_of h \<noteq> None) w hexes (\<lambda>h. the (depth_symbol h)),
       flow_rows = spell_any (\<lambda>h. case water_of h of Some wt \<Rightarrow> \<not> is_still (water_flow wt) | None \<Rightarrow> False) w hexes
         (\<lambda>h. layer_encode flow_SYMBOLS (map_option water_flow (water_of h))),
       foliage_rows = spell_any (\<lambda>h. foliage_of h \<noteq> None) w hexes (\<lambda>h. layer_encode foliage_SYMBOLS (foliage_of h)),
       route_rows = spell_any (\<lambda>h. route_of h \<noteq> None) w hexes (\<lambda>h. layer_encode route_SYMBOLS (route_of h)),
       condition_rows = spell_any (\<lambda>h. condition_of h \<noteq> None) w hexes (\<lambda>h. layer_encode condition_SYMBOLS (condition_of h)),
       overlay_rows = spell_any (\<lambda>h. overlay_of h \<noteq> None) w hexes (\<lambda>h. layer_encode overlay_SYMBOLS (overlay_of h))\<rparr>)"

lemma level_shown: "hex_ok h \<Longrightarrow> height_symbol (level h) = Some (the (height_symbol (level h))) \<and> graphic_glyph (the (height_symbol (level h)))
    \<and> height_at (the (height_symbol (level h))) = Some (level h)"
  by (rule height_comes_back [of "level h"]) (auto simp: hex_ok_def limits_ok_def)

lemma depth_shown:
  assumes "hex_ok h"
  shows "depth_symbol h = Some (the (depth_symbol h)) \<and> graphic_glyph (the (depth_symbol h))
    \<and> (case water_of h of
         None \<Rightarrow> the (depth_symbol h) = NO_LAYER
       | Some wt \<Rightarrow> the (depth_symbol h) \<noteq> NO_LAYER \<and> to_digit 10 (the (depth_symbol h)) = Some (unat (depth wt)))"
proof (cases "water_of h")
  case None
  then show ?thesis by (simp add: depth_symbol_def graphic_glyph_def NO_LAYER_def glyph_def)
next
  case (Some wt)
  then have le: "depth wt \<le> 9" using assms by (simp add: hex_ok_def limits_ok_def)
  show ?thesis
    by (rule height_comes_back [of "depth wt"]) (use Some le order_trans [OF le, of 35] in \<open>auto simp: depth_symbol_def\<close>)
qed

lemma ground_written:
  assumes "map_ok a"
  shows "\<exists>s. grid_rows (\<lambda>h. Some (ground_symbol h)) (map_width a) (map_hexes a) = Some s
    \<and> read_grid TerrainGrid s = Inr (spell (map_width a) (map_hexes a) ground_symbol)"
  using assms ground_symbol_visible by (intro grid_rows_spell) (auto simp: map_ok_def)

lemma level_written:
  assumes "map_ok a"
  shows "\<exists>s. grid_rows (\<lambda>h. height_symbol (level h)) (map_width a) (map_hexes a) = Some s
    \<and> matching_grid LevelGrid (Some s) (map_width a) (map_height a) =
        Inr (Some (spell (map_width a) (map_hexes a) (\<lambda>h. the (height_symbol (level h)))))"
proof -
  have dims: "0 < map_width a" "map_width a \<le> 1000" "0 < map_height a" "map_height a \<le> 1000"
    "length (map_hexes a) = map_height a * map_width a" and ok: "x \<in> set (map_hexes a) \<Longrightarrow> hex_ok x" for x
    using assms by (auto simp: map_ok_def)
  show ?thesis
    using grid_rows_spell [OF dims, of "\<lambda>h. height_symbol (level h)" "\<lambda>h. the (height_symbol (level h))" LevelGrid]
      level_shown [OF ok] matching_grid_spell [OF dims(1,3,5)] by blast
qed

lemma depth_written:
  assumes "map_ok a"
  shows "\<exists>s. when_any (\<lambda>h. water_of h \<noteq> None) (map_hexes a) (grid_rows depth_symbol (map_width a) (map_hexes a)) = Some s
    \<and> matching_grid DepthGrid s (map_width a) (map_height a) =
        Inr (spell_any (\<lambda>h. water_of h \<noteq> None) (map_width a) (map_hexes a) (\<lambda>h. the (depth_symbol h)))"
  using assms depth_shown by (intro when_any_spell) (auto simp: map_ok_def)

lemma written_grids:
  assumes "map_ok a"
  shows "\<exists>d. written_document a = Some d \<and> load_grids d = Inr (shown_grids a)
    \<and> doc_gravity d = Some (map_gravity a) \<and> doc_temperature d = Some (map_temperature a) \<and> doc_light d = map_light a
    \<and> doc_weather d = map_weather a \<and> doc_wind d = map_wind a
    \<and> doc_flags d = Some (filter (\<lambda>f. map_flag_is_set f (map_flags a)) map_flag_ALL)
    \<and> doc_structures d = map written_entry (group_structures (map_width a) (map_hexes a))
    \<and> doc_points d = map_points a \<and> doc_regions d = map_regions a"
  using ground_written [OF assms] level_written [OF assms] depth_written [OF assms]
    flows.layer_written [OF assms, of "\<lambda>h. case water_of h of Some wt \<Rightarrow> \<not> is_still (water_flow wt) | None \<Rightarrow> False"
      "\<lambda>h. map_option water_flow (water_of h)" FlowGrid]
    growths.layer_written [OF assms, of "\<lambda>h. foliage_of h \<noteq> None" foliage_of FoliageGrid]
    paths.layer_written [OF assms, of "\<lambda>h. route_of h \<noteq> None" route_of RouteGrid]
    weathers.layer_written [OF assms, of "\<lambda>h. condition_of h \<noteq> None" condition_of ConditionGrid]
    overlays.layer_written [OF assms, of "\<lambda>h. overlay_of h \<noteq> None" overlay_of OverlayGrid]
proof (elim exE conjE, goal_cases)
  case (1 ts ls ds fs gs rs cs os)
  have "length (spell (map_width a) (map_hexes a) ground_symbol ! 0) = map_width a"
    "length (spell (map_width a) (map_hexes a) ground_symbol) = map_height a"
    using spell_shape [of "map_width a" "map_hexes a" "map_height a"] assms by (auto simp: map_ok_def)
  then show ?case
    by (simp add: written_document_def Let_def load_grids_def shown_grids_def 1 del: not_None_eq)
qed

section \<open>Hexes come back\<close>

definition bare :: "hex \<Rightarrow> hex" where
  "bare h = h\<lparr>structure_of := None\<rparr>"

lemma flow_at:
  "layer_decode flow_SYMBOLS (layer_encode flow_SYMBOLS (map_option water_flow (water_of h))) = Some (shown_flow h)"
proof (cases "shown_flow h")
  case None
  then have "layer_encode flow_SYMBOLS (map_option water_flow (water_of h)) = NO_LAYER"
    using flows.encode_unlisted [of flow.Still]
    by (auto simp: shown_flow_def layer_encode_def is_still_def flow_SYMBOLS_def split: option.splits if_splits)
  then show ?thesis using None by (simp add: layer_decode_def)
next
  case (Some f)
  then have f: "map_option water_flow (water_of h) = Some f" "f \<noteq> flow.Still"
    by (auto simp: shown_flow_def is_still_def split: option.splits if_splits)
  then show ?thesis unfolding f(1) Some using flows.decode_encode [of "Some f"] all_listed(5) by simp
qed

lemma flow_row: "(map_option (\<lambda>wt. wt\<lparr>water_flow := (case shown_flow h of Some f \<Rightarrow> f | None \<Rightarrow> flow.Still)\<rparr>)
    (map_option (\<lambda>wt. still_water (depth wt)) (water_of h))) = water_of h"
  by (cases "water_of h") (auto simp: shown_flow_def still_water_def is_still_def)

lemma water_shown:
  assumes "0 < w" and "length hexes = h * w" and "x < w" and "y < h" and ok: "hex_ok (hexes ! (y * w + x))"
  shows "water_at x y (if water_of (hexes ! (y * w + x)) = None then Some g else None)
      (map_option (\<lambda>rows. rows ! y ! x) (spell_any (\<lambda>h. water_of h \<noteq> None) w hexes (\<lambda>h. the (depth_symbol h)))) =
    Inr (map_option (\<lambda>wt. still_water (depth wt)) (water_of (hexes ! (y * w + x))))"
proof (cases "list_ex (\<lambda>h. water_of h \<noteq> None) hexes")
  case True
  then show ?thesis
    using depth_shown [OF ok]
    by (auto simp: water_at_def spell_any_def spell_nth [OF assms(1-4)] split: option.splits)
next
  case False
  then have "water_of (hexes ! (y * w + x)) = None" using index_less [OF assms(3,4)] assms(2) by (auto simp: list_ex_iff)
  then show ?thesis using False by (simp add: water_at_def spell_any_def)
qed

lemma ground_kept: "hex_ok h \<Longrightarrow> water_of h \<noteq> None \<Longrightarrow> ground_of h = ground.Clear"
  by (auto simp: hex_ok_def water_ok_def split: option.splits)

lemma cell_comes_back:
  assumes "map_ok a" and x: "x < map_width a" and y: "y < map_height a"
  shows "load_cell (shown_grids a) (x, y) = Inr (bare (map_hexes a ! (y * map_width a + x)))"
proof -
  let ?w = "map_width a" and ?hexes = "map_hexes a"
  let ?hx = "?hexes ! (y * ?w + x)"
  have w: "0 < ?w" and len: "length ?hexes = map_height a * ?w" using assms(1) by (auto simp: map_ok_def)
  have ok: "hex_ok ?hx" using assms(1) index_less [OF x y] len by (auto simp: map_ok_def)
  have terrain: "ground_at (terrain_rows (shown_grids a) ! y ! x) =
      Some (if water_of ?hx = None then Some (ground_of ?hx) else None)"
    using ground_comes_back [of ?hx] by (simp add: shown_grids_def Let_def spell_nth [OF w len x y])
  have lev: "height_at (level_rows (shown_grids a) ! y ! x) = Some (level ?hx)"
    using level_shown [OF ok] by (simp add: shown_grids_def Let_def spell_nth [OF w len x y])
  note grids = shown_grids_def Let_def map_grids.simps
  have flow: "layer_at FlowGrid flow_SYMBOLS (flow_rows (shown_grids a)) x y = Inr (shown_flow ?hx)"
    unfolding grids
    by (rule flows.layer_at_spell [OF w len x y, where v = shown_flow]) (rule flow_at, auto simp: shown_flow_def split: option.splits)
  have growth: "layer_at FoliageGrid foliage_SYMBOLS (foliage_rows (shown_grids a)) x y = Inr (foliage_of ?hx)"
    unfolding grids by (rule growths.layer_at_spell [OF w len x y, where v = foliage_of])
      (rule growths.decode_encode, rule all_listed, simp)
  have path: "layer_at RouteGrid route_SYMBOLS (route_rows (shown_grids a)) x y = Inr (route_of ?hx)"
    unfolding grids by (rule paths.layer_at_spell [OF w len x y, where v = route_of])
      (rule paths.decode_encode, rule all_listed, simp)
  have cond: "layer_at ConditionGrid condition_SYMBOLS (condition_rows (shown_grids a)) x y = Inr (condition_of ?hx)"
    unfolding grids by (rule weathers.layer_at_spell [OF w len x y, where v = condition_of])
      (rule weathers.decode_encode, rule all_listed, simp)
  have over: "layer_at OverlayGrid overlay_SYMBOLS (overlay_rows (shown_grids a)) x y = Inr (overlay_of ?hx)"
    unfolding grids by (rule overlays.layer_at_spell [OF w len x y, where v = overlay_of])
      (rule overlays.decode_encode, rule all_listed, simp)
  have wet: "water_at x y (if water_of ?hx = None then Some (ground_of ?hx) else None)
      (map_option (\<lambda>rows. rows ! y ! x) (depth_rows (shown_grids a))) =
      Inr (map_option (\<lambda>wt. still_water (depth wt)) (water_of ?hx))"
    using water_shown [OF w len x y ok] by (simp add: shown_grids_def Let_def)
  have flowing: "shown_flow ?hx = None \<or> map_option (\<lambda>wt. still_water (depth wt)) (water_of ?hx) \<noteq> None"
    by (auto simp: shown_flow_def split: option.splits)
  have ground: "(case (if water_of ?hx = None then Some (ground_of ?hx) else None) of Some g \<Rightarrow> g | None \<Rightarrow> ground.Clear) = ground_of ?hx"
    using ground_kept [OF ok] by simp
  have "load_cell (shown_grids a) (x, y) =
      Inr (with_overlay (with_condition (with_route (with_foliage
        (with_water (with_ground (at_level (level ?hx)) (ground_of ?hx)) (water_of ?hx)) (foliage_of ?hx))
        (route_of ?hx)) (condition_of ?hx)) (overlay_of ?hx))"
    by (simp only: load_cell_def prod.case terrain lev option.case wet flow growth path cond over bind_result_simps
        ensure_then_def flowing if_True Let_def flow_row ground)
  then show ?thesis by (simp add: with_defs at_level_def bare_def)
qed

lemma concat_rows: "0 < w \<Longrightarrow> length xs = h * w \<Longrightarrow> concat (map (\<lambda>y. map (\<lambda>x. xs ! (y * w + x)) [0..<w]) [0..<h]) = xs"
  using concat_chunks [of w xs] by (simp add: chunks_nth)

lemma hexes_come_back:
  assumes "map_ok a"
  shows "load_hexes (shown_grids a) = Inr (map bare (map_hexes a))"
proof -
  let ?w = "map_width a" and ?h = "map_height a" and ?hexes = "map_hexes a"
  have w: "0 < ?w" and h: "0 < ?h" and len: "length ?hexes = ?h * ?w" using assms by (auto simp: map_ok_def)
  have shape: "length (terrain_rows (shown_grids a) ! 0) = ?w" "length (terrain_rows (shown_grids a)) = ?h"
    using spell_shape [OF w len] h by (auto simp: shown_grids_def Let_def)
  have "load_hexes (shown_grids a) =
      Inr (map (\<lambda>(x, y). bare (?hexes ! (y * ?w + x))) (concat (map (\<lambda>y. map (\<lambda>x. (x, y)) [0..<?w]) [0..<?h])))"
    unfolding load_hexes_def shape using cell_comes_back [OF assms] by (intro collect_result_Inr) auto
  also have "map (\<lambda>(x, y). bare (?hexes ! (y * ?w + x))) (concat (map (\<lambda>y. map (\<lambda>x. (x, y)) [0..<?w]) [0..<?h])) =
      map bare (concat (map (\<lambda>y. map (\<lambda>x. ?hexes ! (y * ?w + x)) [0..<?w]) [0..<?h]))"
    by (simp add: map_concat comp_def)
  finally show ?thesis using concat_rows [OF w len] by simp
qed

section \<open>Structures come back\<close>

definition hex_index :: "nat \<Rightarrow> nat \<times> nat \<Rightarrow> nat" where
  "hex_index w p = snd p * w + fst p"

lemma hex_index_inj:
  assumes "hex_index w p = hex_index w q" and "fst p < w" and "fst q < w"
  shows "p = q"
proof -
  have "hex_index w r div w = snd r \<and> hex_index w r mod w = fst r" if "fst r < w" for r
    using that by (simp add: hex_index_def div_mult_self3 [of w] add.commute)
  then show ?thesis using assms by (metis prod_eqI)
qed

lemma place_hexes_exact:
  assumes "distinct ps" and "\<And>p. p \<in> set ps \<Longrightarrow> fst p < w \<and> snd p < h" and "length hexes = h * w"
    and "\<And>p. p \<in> set ps \<Longrightarrow> structure_of (hexes ! hex_index w p) = None"
  shows "\<exists>hexes'. place_hexes w h s ps hexes = Inr hexes' \<and> length hexes' = length hexes
    \<and> (\<forall>i<length hexes. hexes' ! i = (if i \<in> hex_index w ` set ps then with_structure (hexes ! i) (Some s) else hexes ! i))"
  using assms
proof (induction ps arbitrary: hexes)
  case (Cons p ps)
  obtain x y where p: "p = (x, y)" by (cases p)
  let ?i = "y * w + x"
  let ?placed = "hexes[?i := with_structure (hexes ! ?i) (Some s)]"
  have bounds: "x < w" "y < h" using Cons.prems(2) [of p] by (auto simp: p)
  then have i: "?i < length hexes" using index_less Cons.prems(3) by simp
  have other: "hex_index w q \<noteq> ?i" if "q \<in> set ps" for q
    using hex_index_inj [of w q p] that Cons.prems(1,2) bounds by (auto simp: p hex_index_def)
  obtain hexes' where "place_hexes w h s ps ?placed = Inr hexes'" "length hexes' = length hexes"
      "\<forall>i<length hexes. hexes' ! i = (if i \<in> hex_index w ` set ps then with_structure (?placed ! i) (Some s) else ?placed ! i)"
    using Cons.IH [of ?placed] Cons.prems other by fastforce
  moreover have "structure_of (hexes ! ?i) = None" using Cons.prems(4) [of p] by (simp add: p hex_index_def)
  moreover have "?i \<notin> hex_index w ` set ps" using other by (metis imageE)
  ultimately show ?case using bounds i by (auto simp: p hex_index_def ensure_then_def nth_list_update)
qed simp

lemma written_structure:
  assumes "ps \<noteq> []" and "1 \<le> cf s \<and> cf s \<le> construction_factor (structure_class s)" and "structure_height s \<le> 35"
  shows "entry_structure (written_entry (s, ps)) = Inr s"
  using assms order_trans [of 1 "cf s" "construction_factor (structure_class s)"]
  by (simp add: entry_structure_def written_entry_def Let_def ensure_then_def MAX_HEIGHT_def)

lemma place_entries_exact:
  assumes "distinct (concat (map snd es))" and "length hexes = h * w"
    and "\<And>s ps. (s, ps) \<in> set es \<Longrightarrow> ps \<noteq> [] \<and> 1 \<le> cf s \<and> cf s \<le> construction_factor (structure_class s) \<and> structure_height s \<le> 35"
    and "\<And>s ps p. (s, ps) \<in> set es \<Longrightarrow> p \<in> set ps \<Longrightarrow> fst p < w \<and> snd p < h \<and> structure_of (hexes ! hex_index w p) = None"
  shows "\<exists>hexes'. place_entries w h (map written_entry es) hexes = Inr hexes' \<and> length hexes' = length hexes
    \<and> (\<forall>s ps p. (s, ps) \<in> set es \<longrightarrow> p \<in> set ps \<longrightarrow> hexes' ! hex_index w p = with_structure (hexes ! hex_index w p) (Some s))
    \<and> (\<forall>i<length hexes. i \<notin> hex_index w ` (\<Union>e\<in>set es. set (snd e)) \<longrightarrow> hexes' ! i = hexes ! i)"
  using assms
proof (induction es arbitrary: hexes)
  case (Cons e es)
  obtain s ps where e: "e = (s, ps)" by (cases e)
  have str: "entry_structure (written_entry (s, ps)) = Inr s" using Cons.prems(3) [of s ps] by (intro written_structure) (auto simp: e)
  obtain placed where placed: "place_hexes w h s ps hexes = Inr placed" "length placed = length hexes"
      "\<And>i. i < length hexes \<Longrightarrow> placed ! i = (if i \<in> hex_index w ` set ps then with_structure (hexes ! i) (Some s) else hexes ! i)"
  proof -
    have "\<exists>placed. place_hexes w h s ps hexes = Inr placed \<and> length placed = length hexes
      \<and> (\<forall>i<length hexes. placed ! i = (if i \<in> hex_index w ` set ps then with_structure (hexes ! i) (Some s) else hexes ! i))"
    proof (rule place_hexes_exact)
      show "fst p < w \<and> snd p < h" "structure_of (hexes ! hex_index w p) = None" if "p \<in> set ps" for p
        using Cons.prems(4) [of s ps p] that by (simp_all add: e)
    qed (use Cons.prems(1,2) in \<open>simp_all add: e\<close>)
    then show thesis using that by blast
  qed
  have inside: "hex_index w p < length hexes" if "(t, qs) \<in> set (e # es)" "p \<in> set qs" for t qs p
    using Cons.prems(4) [OF that] Cons.prems(2) index_less by (auto simp: hex_index_def)
  have apart: "hex_index w p \<notin> hex_index w ` set ps" if t: "(t, qs) \<in> set es" "p \<in> set qs" for t qs p
  proof
    assume "hex_index w p \<in> hex_index w ` set ps"
    then obtain q where q: "q \<in> set ps" "hex_index w p = hex_index w q" by auto
    then have "p = q" using Cons.prems(4) [of t qs p] Cons.prems(4) [of s ps q] t hex_index_inj by (auto simp: e)
    then show False using Cons.prems(1) t q(1) by (force simp: e)
  qed
  have kept: "placed ! hex_index w p = hexes ! hex_index w p" if "(t, qs) \<in> set es" "p \<in> set qs" for t qs p
    using placed(3) [OF inside] apart that by (meson list.set_intros(2))
  obtain hexes' where hexes': "place_entries w h (map written_entry es) placed = Inr hexes'" "length hexes' = length placed"
      "\<And>t qs p. (t, qs) \<in> set es \<Longrightarrow> p \<in> set qs \<Longrightarrow> hexes' ! hex_index w p = with_structure (placed ! hex_index w p) (Some t)"
      "\<And>i. i < length placed \<Longrightarrow> i \<notin> hex_index w ` (\<Union>e\<in>set es. set (snd e)) \<Longrightarrow> hexes' ! i = placed ! i"
  proof -
    have "\<exists>hexes'. place_entries w h (map written_entry es) placed = Inr hexes' \<and> length hexes' = length placed
      \<and> (\<forall>t qs p. (t, qs) \<in> set es \<longrightarrow> p \<in> set qs \<longrightarrow> hexes' ! hex_index w p = with_structure (placed ! hex_index w p) (Some t))
      \<and> (\<forall>i<length placed. i \<notin> hex_index w ` (\<Union>e\<in>set es. set (snd e)) \<longrightarrow> hexes' ! i = placed ! i)"
    proof (rule Cons.IH)
      show "distinct (concat (map snd es))" using Cons.prems(1) by simp
      show "length placed = h * w" using Cons.prems(2) placed(2) by simp
      show "ps \<noteq> [] \<and> 1 \<le> cf s \<and> cf s \<le> construction_factor (structure_class s) \<and> structure_height s \<le> 35"
        if "(s, ps) \<in> set es" for s ps
        using Cons.prems(3) [of s ps] that by simp
      show "fst p < w \<and> snd p < h \<and> structure_of (placed ! hex_index w p) = None"
        if "(s, ps) \<in> set es" "p \<in> set ps" for s ps p
        using Cons.prems(4) [of s ps p] kept [OF that] that by simp
    qed
    then show thesis using that by blast
  qed
  have here: "hexes' ! hex_index w p = with_structure (hexes ! hex_index w p) (Some s)" if p: "p \<in> set ps" for p
  proof -
    have "hex_index w p \<notin> hex_index w ` (\<Union>e\<in>set es. set (snd e))"
    proof
      assume "hex_index w p \<in> hex_index w ` (\<Union>e\<in>set es. set (snd e))"
      then obtain t qs q where "(t, qs) \<in> set es" "q \<in> set qs" "hex_index w p = hex_index w q" by force
      then show False using apart [of t qs q] imageI [OF p, of "hex_index w"] by simp
    qed
    then show ?thesis using hexes'(4) placed(2,3) inside [of s ps p] p by (auto simp: e)
  qed
  have "entry_hexes (written_entry (s, ps)) = ps" by (simp add: written_entry_def)
  then have "place_entries w h (map written_entry (e # es)) hexes = Inr hexes'"
    using str placed(1) hexes'(1) by (simp add: e)
  moreover have "hexes' ! hex_index w p = with_structure (hexes ! hex_index w p) (Some t)"
    if "(t, qs) \<in> set (e # es)" "p \<in> set qs" for t qs p
  proof (cases "(t, qs) \<in> set es")
    case True
    then show ?thesis using hexes'(3) [OF True that(2)] kept [OF True that(2)] by simp
  next
    case False
    then have "t = s" "p \<in> set ps" using that by (simp_all add: e)
    then show ?thesis using here by simp
  qed
  moreover have "hexes' ! i = hexes ! i"
    if "i < length hexes" "i \<notin> hex_index w ` (\<Union>e\<in>set (e # es). set (snd e))" for i
    using hexes'(4) [of i] placed(2,3) that by (auto simp: e image_Un)
  ultimately show ?case using hexes'(2) placed(2) by auto
qed simp

lemma structure_key_inj:
  assumes "structure_key s = structure_key t"
  shows "s = t"
proof -
  have "structure_kind s = structure_kind t"
    by (cases "structure_kind s"; cases "structure_kind t") (use assms in \<open>simp_all add: structure_key_def\<close>)
  moreover have "structure_class s = structure_class t"
    by (cases "structure_class s"; cases "structure_class t") (use assms in \<open>simp_all add: structure_key_def\<close>)
  moreover have "structure_height s = structure_height t" "cf s = cf t"
    using assms by (simp_all add: structure_key_def word_unat_eq_iff)
  ultimately show ?thesis by (cases s; cases t) simp
qed

lemma concat_options:
  "concat (map (\<lambda>i. case f i of None \<Rightarrow> [] | Some s \<Rightarrow> [g s i]) xs) = map (\<lambda>i. g (the (f i)) i) (filter (\<lambda>i. f i \<noteq> None) xs)"
  by (induction xs) auto

lemma distinct_concat_groups:
  assumes "distinct xs"
  shows "distinct (concat (map snd (bt_group key xs)))" and "set (concat (map snd (bt_group key xs))) = set xs"
proof -
  show set: "set (concat (map snd (bt_group key xs))) = set xs"
  proof (intro set_eqI iffI)
    fix x assume "x \<in> set (concat (map snd (bt_group key xs)))"
    then obtain k g where "(k, g) \<in> set (bt_group key xs)" "x \<in> set g" by auto
    then show "x \<in> set xs" by (auto simp: in_bt_group)
  next
    fix x assume x: "x \<in> set xs"
    then have "filter (\<lambda>y. key y = key x) xs \<noteq> []" by (auto simp: filter_empty_conv)
    then obtain g where g: "(key x, g) \<in> set (bt_group key xs)" "x \<in> set g" using x by (simp add: in_bt_group)
    then show "x \<in> set (concat (map snd (bt_group key xs)))" by (simp, intro bexI [of _ "(key x, g)"]) auto
  qed
  have "length (concat (map snd (bt_group key xs))) = length xs"
    using length_groups [of key xs] by (simp add: length_concat comp_def)
  then show "distinct (concat (map snd (bt_group key xs)))"
    using set distinct_card [OF assms] by (intro card_distinct) simp
qed

lemma built_hexes_map:
  assumes "0 < w" "w \<le> 1000" "h \<le> 1000" "length hexes = h * w"
  shows "built_hexes w hexes = map (\<lambda>i. (the (structure_of (hexes ! i)), i mod w, i div w))
    (filter (\<lambda>i. structure_of (hexes ! i) \<noteq> None) [0..<length hexes])"
proof -
  have small: "(i mod w) mod 65536 = i mod w" "(i div w) mod 65536 = i div w" if "i < length hexes" for i
  proof -
    have "i div w < h" using that assms(4) by (simp add: less_mult_imp_div_less)
    moreover have "i mod w < w" using assms(1) by simp
    ultimately show "(i mod w) mod 65536 = i mod w" "(i div w) mod 65536 = i div w" using assms(2,3) by simp_all
  qed
  have "built_hexes w hexes = concat (map (\<lambda>i. case structure_of (hexes ! i) of
      None \<Rightarrow> [] | Some s \<Rightarrow> [(s, (i mod w) mod 65536, (i div w) mod 65536)]) [0..<length hexes])"
    unfolding built_hexes_def
    by (rule arg_cong [where f = concat], rule nth_equalityI) (auto simp: nth_enumerate_eq split: option.split)
  also have "\<dots> = map (\<lambda>i. (the (structure_of (hexes ! i)), (i mod w) mod 65536, (i div w) mod 65536))
      (filter (\<lambda>i. structure_of (hexes ! i) \<noteq> None) [0..<length hexes])"
    by (rule concat_options)
  also have "\<dots> = map (\<lambda>i. (the (structure_of (hexes ! i)), i mod w, i div w))
      (filter (\<lambda>i. structure_of (hexes ! i) \<noteq> None) [0..<length hexes])"
    by (intro map_cong refl) (simp add: small)
  finally show ?thesis .
qed

lemma in_built_hexes:
  assumes "0 < w" "w \<le> 1000" "h \<le> 1000" "length hexes = h * w"
  shows "(s, p) \<in> set (built_hexes w hexes) \<longleftrightarrow> fst p < w \<and> snd p < h \<and> structure_of (hexes ! hex_index w p) = Some s"
proof -
  have "(s, p) \<in> set (built_hexes w hexes) \<longleftrightarrow>
      (\<exists>i<length hexes. structure_of (hexes ! i) = Some s \<and> p = (i mod w, i div w))"
    unfolding built_hexes_map [OF assms] by (auto simp: image_iff)
  also have "\<dots> \<longleftrightarrow> fst p < w \<and> snd p < h \<and> structure_of (hexes ! hex_index w p) = Some s"
  proof safe
    fix i assume "i < length hexes" "structure_of (hexes ! i) = Some s" "p = (i mod w, i div w)"
    then show "fst (i mod w, i div w) < w" "snd (i mod w, i div w) < h" "structure_of (hexes ! hex_index w (i mod w, i div w)) = Some s"
      using assms(1,4) by (auto simp: hex_index_def less_mult_imp_div_less)
  next
    assume "fst p < w" "snd p < h" "structure_of (hexes ! hex_index w p) = Some s"
    moreover have "hex_index w p mod w = fst p \<and> hex_index w p div w = snd p" if "fst p < w"
      using that by (simp add: hex_index_def)
    ultimately show "\<exists>i<length hexes. structure_of (hexes ! i) = Some s \<and> p = (i mod w, i div w)"
      using index_less [of "fst p" w "snd p" h] assms(4) by (intro exI [of _ "hex_index w p"]) (auto simp: hex_index_def)
  qed
  finally show ?thesis .
qed

lemma distinct_built:
  assumes "0 < w" "w \<le> 1000" "h \<le> 1000" "length hexes = h * w"
  shows "distinct (map snd (built_hexes w hexes))"
proof -
  have "inj_on (\<lambda>i. (i mod w, i div w)) A" for A
    by (rule inj_onI) (metis div_mult_mod_eq prod.inject)
  then show ?thesis unfolding built_hexes_map [OF assms] by (simp add: comp_def distinct_map)
qed

text \<open>The entries name each built hex once, with its structure.\<close>

lemma group_structures_facts:
  assumes "0 < w" "w \<le> 1000" "h \<le> 1000" "length hexes = h * w"
  shows "distinct (concat (map snd (group_structures w hexes)))"
    and "(s, ps) \<in> set (group_structures w hexes) \<Longrightarrow> ps \<noteq> []"
    and "(s, ps) \<in> set (group_structures w hexes) \<Longrightarrow> p \<in> set ps \<Longrightarrow>
      fst p < w \<and> snd p < h \<and> structure_of (hexes ! hex_index w p) = Some s"
    and "fst p < w \<Longrightarrow> snd p < h \<Longrightarrow> structure_of (hexes ! hex_index w p) = Some s \<Longrightarrow>
      \<exists>ps. (s, ps) \<in> set (group_structures w hexes) \<and> p \<in> set ps"
proof -
  let ?built = "built_hexes w hexes"
  let ?key = "\<lambda>(s :: hex_structure, _ :: nat \<times> nat). structure_key s"
  let ?groups = "bt_group ?key ?built"
  note member = in_built_hexes [OF assms] and once = distinct_built [OF assms]
  have key: "?key q = structure_key (fst q)" for q by (cases q) simp
  have same: "g \<noteq> [] \<and> (\<forall>q\<in>set g. q \<in> set ?built \<and> fst q = fst (hd g))" if "(k, g) \<in> set ?groups" for k g
  proof -
    have g: "g = filter (\<lambda>q. ?key q = k) ?built" "g \<noteq> []" using that unfolding in_bt_group by blast+
    then have "structure_key (fst q) = k" if "q \<in> set g" for q using that key by auto
    then have "fst q = fst (hd g)" if "q \<in> set g" for q
      using that structure_key_inj hd_in_set [OF g(2)] by metis
    then show ?thesis using g by auto
  qed
  have dist: "distinct ?built" using once by (simp add: distinct_map)
  have "concat (map snd (group_structures w hexes)) = map snd (concat (map snd ?groups))"
    by (simp add: group_structures_def map_concat comp_def case_prod_unfold)
  moreover have "inj_on snd (set (concat (map snd ?groups)))"
    unfolding distinct_concat_groups(2) [OF dist] using once by (simp add: distinct_map)
  ultimately show "distinct (concat (map snd (group_structures w hexes)))"
    using distinct_concat_groups(1) [OF dist] by (simp add: distinct_map)
  show "ps \<noteq> []" if sp: "(s, ps) \<in> set (group_structures w hexes)"
  proof -
    obtain k g where "(k, g) \<in> set ?groups" "ps = map snd g" using sp by (auto simp: group_structures_def)
    then show ?thesis using same by auto
  qed
  show "fst p < w \<and> snd p < h \<and> structure_of (hexes ! hex_index w p) = Some s"
    if sp: "(s, ps) \<in> set (group_structures w hexes)" "p \<in> set ps"
  proof -
    obtain k g where g: "(k, g) \<in> set ?groups" "s = fst (hd g)" "ps = map snd g" using sp(1) by (auto simp: group_structures_def)
    then obtain q where "q \<in> set g" "p = snd q" using sp(2) by auto
    then have "(s, p) \<in> set ?built" using same [OF g(1)] g(2) by (metis prod.collapse)
    then show ?thesis using member by simp
  qed
  show "\<exists>ps. (s, ps) \<in> set (group_structures w hexes) \<and> p \<in> set ps"
    if "fst p < w" "snd p < h" "structure_of (hexes ! hex_index w p) = Some s"
  proof -
    have "(s, p) \<in> set ?built" using that member by simp
    then have "(s, p) \<in> set (concat (map snd ?groups))" unfolding distinct_concat_groups(2) [OF dist] .
    then obtain k g where g: "(k, g) \<in> set ?groups" "(s, p) \<in> set g" by auto
    then have "fst (hd g) = s" using same by fastforce
    then have "(s, map snd g) \<in> set (group_structures w hexes)" using g(1) by (force simp: group_structures_def)
    moreover have "p \<in> set (map snd g)" using g(2) by force
    ultimately show ?thesis by blast
  qed
qed

lemma structures_come_back:
  assumes "map_ok a"
  shows "place_entries (map_width a) (map_height a) (map written_entry (group_structures (map_width a) (map_hexes a)))
    (map bare (map_hexes a)) = Inr (map_hexes a)"
proof -
  let ?w = "map_width a" and ?h = "map_height a" and ?hexes = "map_hexes a"
  have dims: "0 < ?w" "?w \<le> 1000" "?h \<le> 1000" "length ?hexes = ?h * ?w" and ok: "x \<in> set ?hexes \<Longrightarrow> hex_ok x" for x
    using assms by (auto simp: map_ok_def)
  note facts = group_structures_facts [OF dims]
  have at: "hex_index ?w p < length ?hexes" if "fst p < ?w" "snd p < ?h" for p
    using index_less [OF that] dims(4) by (simp add: hex_index_def)
  have "\<exists>hexes'. place_entries ?w ?h (map written_entry (group_structures ?w ?hexes)) (map bare ?hexes) = Inr hexes'
      \<and> length hexes' = length (map bare ?hexes)
      \<and> (\<forall>s ps p. (s, ps) \<in> set (group_structures ?w ?hexes) \<longrightarrow> p \<in> set ps \<longrightarrow>
            hexes' ! hex_index ?w p = with_structure (map bare ?hexes ! hex_index ?w p) (Some s))
      \<and> (\<forall>i<length (map bare ?hexes). i \<notin> hex_index ?w ` (\<Union>e\<in>set (group_structures ?w ?hexes). set (snd e)) \<longrightarrow>
            hexes' ! i = map bare ?hexes ! i)"
  proof (rule place_entries_exact)
    show "distinct (concat (map snd (group_structures ?w ?hexes)))" by (rule facts(1))
    show "length (map bare ?hexes) = ?h * ?w" using dims(4) by simp
    show "ps \<noteq> [] \<and> 1 \<le> cf s \<and> cf s \<le> construction_factor (structure_class s) \<and> structure_height s \<le> 35"
      if sp: "(s, ps) \<in> set (group_structures ?w ?hexes)" for s ps
    proof -
      obtain p where "p \<in> set ps" using facts(2) [OF sp] by (cases ps) auto
      then have "fst p < ?w" "snd p < ?h" "structure_of (?hexes ! hex_index ?w p) = Some s" using facts(3) [OF sp] by auto
      then show ?thesis
        using ok [of "?hexes ! hex_index ?w p"] at facts(2) [OF sp]
        by (auto simp: hex_ok_def structure_ok_def limits_ok_def split: option.splits)
    qed
    show "fst p < ?w \<and> snd p < ?h \<and> structure_of (map bare ?hexes ! hex_index ?w p) = None"
      if "(s, ps) \<in> set (group_structures ?w ?hexes)" "p \<in> set ps" for s ps p
      using facts(3) [OF that] at by (simp add: bare_def)
  qed
  then obtain hexes' where run: "place_entries ?w ?h (map written_entry (group_structures ?w ?hexes)) (map bare ?hexes) = Inr hexes'"
    and len: "length hexes' = length ?hexes"
    and built: "\<And>s ps p. (s, ps) \<in> set (group_structures ?w ?hexes) \<Longrightarrow> p \<in> set ps \<Longrightarrow>
            hexes' ! hex_index ?w p = with_structure (map bare ?hexes ! hex_index ?w p) (Some s)"
    and free: "\<And>i. i < length ?hexes \<Longrightarrow> i \<notin> hex_index ?w ` (\<Union>e\<in>set (group_structures ?w ?hexes). set (snd e)) \<Longrightarrow>
            hexes' ! i = map bare ?hexes ! i"
    by (metis length_map)
  have "hexes' ! i = ?hexes ! i" if i: "i < length ?hexes" for i
  proof -
    let ?p = "(i mod ?w, i div ?w)"
    have p: "fst ?p < ?w" "snd ?p < ?h" "hex_index ?w ?p = i" using i dims by (auto simp: hex_index_def less_mult_imp_div_less)
    show ?thesis
    proof (cases "structure_of (?hexes ! i)")
      case (Some s)
      then obtain ps where "(s, ps) \<in> set (group_structures ?w ?hexes)" "?p \<in> set ps" using facts(4) [OF p(1,2)] p(3) by auto
      then have "hexes' ! i = with_structure (bare (?hexes ! i)) (Some s)" using built p(3) i by fastforce
      then show ?thesis using Some by (simp add: bare_def with_structure_def)
    next
      case None
      have "i \<notin> hex_index ?w ` (\<Union>e\<in>set (group_structures ?w ?hexes). set (snd e))"
      proof
        assume "i \<in> hex_index ?w ` (\<Union>e\<in>set (group_structures ?w ?hexes). set (snd e))"
        then obtain s ps q where "(s, ps) \<in> set (group_structures ?w ?hexes)" "q \<in> set ps" "i = hex_index ?w q" by force
        then show False using facts(3) None by fastforce
      qed
      then show ?thesis using free [OF i] i None by (simp add: bare_def)
    qed
  qed
  then show ?thesis using run len nth_equalityI [of hexes' ?hexes] by simp
qed

section \<open>Maps come back\<close>

lemma fold_apply_named:
  "b AND map_flag_mask = b \<Longrightarrow> fold (\<lambda>f b. map_flag_apply f b True) fs b AND map_flag_mask = fold (\<lambda>f b. map_flag_apply f b True) fs b"
proof (induction fs arbitrary: b)
  case (Cons f fs)
  have "map_flag_bit f AND map_flag_mask = map_flag_bit f"
    by (cases f) (simp_all add: map_flag_mask_def map_flag_ALL_def)
  then have "(b OR map_flag_bit f) AND map_flag_mask = b OR map_flag_bit f"
    using Cons.prems by (simp add: bit.conj_disj_distrib2)
  then show ?case using Cons.IH by (simp add: map_flag_apply_def)
qed simp

lemma named_flags_small:
  assumes "fs AND map_flag_mask = fs"
  shows "- (2 ^ 31) \<le> fs \<and> fs < (2 :: int) ^ 31"
proof -
  have mask: "map_flag_mask = 1396" by (simp add: map_flag_mask_def map_flag_ALL_def)
  have "0 \<le> fs AND 1396" "fs AND 1396 \<le> 1396" by (simp, rule AND_upper2, simp)
  then have "0 \<le> fs" "fs \<le> 1396" using assms unfolding mask by simp_all
  then show ?thesis by simp
qed




lemma map_reads_back:
  assumes "map_ok a" and "map_flags a AND map_flag_mask = map_flags a" and "read_toml t source = written_document a"
  shows "parse_with_flags t source inherited = Inr a"
proof -
  obtain d where d: "written_document a = Some d" "load_grids d = Inr (shown_grids a)"
      "doc_gravity d = Some (map_gravity a)" "doc_temperature d = Some (map_temperature a)" "doc_light d = map_light a"
      "doc_weather d = map_weather a" "doc_wind d = map_wind a"
      "doc_flags d = Some (filter (\<lambda>f. map_flag_is_set f (map_flags a)) map_flag_ALL)"
      "doc_structures d = map written_entry (group_structures (map_width a) (map_hexes a))"
      "doc_points d = map_points a" "doc_regions d = map_regions a"
    using written_grids [OF assms(1)] by blast
  have shape: "length (terrain_rows (shown_grids a) ! 0) = map_width a" "length (terrain_rows (shown_grids a)) = map_height a"
    using spell_shape [of "map_width a" "map_hexes a" "map_height a"] assms(1) by (auto simp: shown_grids_def Let_def map_ok_def)
  have checks: "check_hexes (map_width a) (map_hexes a) = Inr ()"
      "check_points (map_width a) (map_height a) (map_points a) = Inr ()"
      "check_regions (map_width a) (map_height a) (map_regions a) = Inr ()"
      "(case map_wind a of None \<Rightarrow> Inr () | Some v \<Rightarrow> refine_error InvalidWind (wind_validate v)) = Inr ()"
    using assms(1) by (auto simp: map_ok_def check_hexes_iff check_points_iff check_regions_iff split: option.splits)
  show ?thesis
    using d assms(3) shape checks hexes_come_back [OF assms(1)] structures_come_back [OF assms(1)] map_flags_named [of "map_flags a"]
      named_flags_small [OF assms(2)] assms(2)
    by (simp add: parse_with_flags_def Let_def ensure_then_def)
qed


definition sample_map :: map_asset where
  "sample_map =
     \<lparr>map_width = 2, map_height = 1, map_flags = 36, map_gravity = 80, map_temperature = - 10,
      map_light = Some Dusk, map_weather = None, map_wind = Some \<lparr>wind_direction = 270, wind_speed = 15\<rparr>,
      map_hexes = [with_structure (with_water (at_level 3) (Some \<lparr>depth = 2, water_flow = flow.Rapids\<rparr>)) (Some (structure_bridge 1)),
                   with_foliage (at_level 12) (Some foliage.HeavyWoods)],
      map_points = [\<lparr>poi_kind = bstr ''objective'', poi_name = bstr ''Ford'', poi_x = 1, poi_y = 0, poi_elevation = Some (- 2)\<rparr>],
      map_regions = [\<lparr>region_kind = bstr ''deployment'', region_name = bstr ''Bank'', region_corners = [(0, 0), (1, 0)]\<rparr>]\<rparr>"

definition sample_toml :: toml where
  "sample_toml =
     \<lparr>read_toml = (\<lambda>_. written_document sample_map), flags_toml = (\<lambda>_. Some []), points_toml = (\<lambda>_. Some []),
      regions_toml = (\<lambda>_. Some [])\<rparr>"

lemma sample_map_ok: "map_ok sample_map"
  by (simp add: map_ok_def sample_map_def hex_ok_def rule_defs with_defs at_level_def structure_bridge_def structure_new_def
      is_bridge_def is_still_def supports_foliage_def point_validate_def region_validate_def ensure_then_def ensure_def
      wind_validate_def bstr_def)

lemma sample_flags: "map_flags sample_map AND map_flag_mask = map_flags sample_map"
  by (simp add: sample_map_def map_flag_mask_def map_flag_ALL_def)


text \<open>
  C3. What reading a map file yields is a map in good order, whatever the file says: its dimensions are within the
  limit and match the hexes, every hex is valid, every point of interest and corner of a region is on the map, the
  wind is valid, and the flags are the inherited ones or named switches that fit the field.\<close>
theorem loaded_map_ok:
  assumes "parse_with_flags t source inherited = Inr a"
  shows "map_ok a \<and> - (2 ^ 31) \<le> map_flags a \<and> map_flags a < 2 ^ 31
    \<and> (map_flags a = inherited \<or> map_flags a AND map_flag_mask = map_flags a)"
  using parse_facts [OF assms] fold_apply_named [of 0] by auto

theorem loaded_map_ok_witness: "parse_with_flags sample_toml [] 0 = Inr sample_map \<and> map_ok sample_map"
proof -
  have run: "parse_with_flags sample_toml [] 0 = Inr sample_map"
    by (rule map_reads_back [OF sample_map_ok sample_flags]) (simp add: sample_toml_def)
  then show ?thesis using loaded_map_ok [OF run] by simp
qed

section \<open>The cell notation\<close>

lemma row_hexes_ok:
  "row_hexes x y row = Inr hs \<Longrightarrow> length row = 2 * w \<Longrightarrow> length hs = w \<and> (\<forall>h\<in>set hs. hex_ok h)"
proof (induction x y row arbitrary: hs w rule: row_hexes.induct)
  case (1 x y symbol digit cells)
  then obtain v h hs' where v: "w = Suc v" "length cells = 2 * v" "cell_hex x y symbol digit = Inr h"
      "row_hexes (Suc x) y cells = Inr hs'" "hs = h # hs'"
    by (cases w) (auto simp: bind_result_Inr_iff)
  have "digit - 48 \<le> 9" if "is_ascii_digit digit"
    using that by (auto simp: is_ascii_digit_def word_le_nat_alt unat_sub)
  then have "hex_ok h" using v(3) by (auto simp: cell_hex_def bind_result_Inr_iff ensure_then_def hex_new_ok split: if_splits)
  then show ?case using 1(1) [OF v(4,2)] v by simp
qed auto

lemma cells_rows_ok:
  "cells_rows w y n rows = Inr (hs, left) \<Longrightarrow> length hs = n * w \<and> (\<forall>h\<in>set hs. hex_ok h)"
proof (induction w y n rows arbitrary: hs left rule: cells_rows.induct)
  case (3 w y n row rows)
  then show ?case using row_hexes_ok [of 0 y row _ w]
    by (fastforce simp: ensure_then_def bind_result_Inr_iff mult.commute split: if_splits)
qed auto

lemma cells_map_ok:
  assumes "from_cells source = Inr a"
  shows "map_ok a"
proof -
  obtain w h rows hexes left where "1 \<le> w \<and> w \<le> 1000 \<and> 1 \<le> h \<and> h \<le> 1000" "cells_rows w 0 h rows = Inr (hexes, left)"
      "map_width a = w" "map_height a = h" "map_hexes a = hexes" "map_points a = []" "map_regions a = []" "map_wind a = None"
    using assms by (auto simp: from_cells_def ensure_then_def bind_result_Inr_iff split: list.splits option.splits if_splits)
  then show ?thesis using cells_rows_ok by (auto simp: map_ok_def)
qed

end
