(* ===== verification/Admin_Reports.thy ===== *)
theory Admin_Reports
  imports Telnet_Decoder World_Authority Rust_Num Channel_Commands
begin

text \<open>
  Reports to one player and what they list: \<open>src/reports.rs\<close> (complete rows within the output limit
  of the connection, with room kept for the notice that rows were left out), the search by name of
  \<open>src/find.rs\<close>, and the site rules of \<open>src/sites.rs\<close> (first-match lists of addresses and masks, their
  compilation with warnings, and their listing). The stripping of markup (\<open>text::plain_with\<close>) is a
  parameter. Of the configuration file the TOML library yields the tables in order, an entry as the
  address and the mask it parses to.
\<close>

unbundle bit_operations_syntax

section \<open>Reports\<close>

definition OMITTED :: bytes where
  "OMITTED = bstr ''***Report truncated: additional results omitted***''"

datatype report_error = OutputLimitTooSmall

record report =
  report_body :: bytes
  report_footer :: bytes
  report_remaining :: nat
  report_truncated :: bool
  notice_fits :: bool

definition report_reserved :: "bytes \<Rightarrow> nat" where
  "report_reserved footer = length (encode footer) + length OMITTED + 6"

definition report_new :: "nat \<Rightarrow> bytes \<Rightarrow> (report_error, report) result" where
  "report_new limit footer =
     (let reserved = report_reserved footer
      in ensure_then (length (encode footer) + 2 \<le> limit) OutputLimitTooSmall
           (Inr \<lparr>report_body = [], report_footer = footer, report_remaining = limit - reserved,
                 report_truncated = False, notice_fits = (reserved \<le> limit)\<rparr>))"

definition row_size :: "bytes \<Rightarrow> nat" where
  "row_size row = length (encode row) + 2"

definition report_row :: "report \<Rightarrow> bytes \<Rightarrow> report" where
  "report_row r row =
     (let size = row_size row
      in if report_truncated r \<or> report_remaining r < size then r\<lparr>report_truncated := True\<rparr>
         else r\<lparr>report_remaining := report_remaining r - size, report_body := report_body r @ row @ [10]\<rparr>)"

definition report_finish :: "report \<Rightarrow> (report_error, bytes) result" where
  "report_finish r =
     ensure_then (\<not> report_truncated r \<or> notice_fits r) OutputLimitTooSmall
       (Inr (report_body r @ (if report_truncated r then OMITTED @ [10] else []) @ report_footer r))"

text \<open>The rows of a loop, and what the rows of a complete report are.\<close>

definition report_rows :: "report \<Rightarrow> bytes list \<Rightarrow> report" where
  "report_rows r rows = foldl report_row r rows"

definition report_lines :: "bytes list \<Rightarrow> bytes" where
  "report_lines rows = concat (map (\<lambda>row. row @ [10]) rows)"

definition rows_size :: "bytes list \<Rightarrow> nat" where
  "rows_size rows = sum_list (map row_size rows)"

section \<open>Finding objects by name\<close>

record search_range =
  search_query :: bytes
  search_lower :: int
  search_upper :: int

text \<open>The second and third field of \<open>splitn(3, ',')\<close>, after the first comma.\<close>

definition range_fields :: "bytes \<Rightarrow> bytes \<times> bytes option \<times> bytes option" where
  "range_fields args =
     (case split_once 44 args of
        None \<Rightarrow> (args, None, None)
      | Some (q, rest) \<Rightarrow>
          (case split_once 44 rest of
             None \<Rightarrow> (q, Some rest, None)
           | Some (l, u) \<Rightarrow> (q, Some l, Some u)))"

definition range_bound :: "bytes \<Rightarrow> int option" where
  "range_bound s = parse_i64 (trim (case strip_prefix [35] (trim s) of Some r \<Rightarrow> r | None \<Rightarrow> trim s))"

definition search_range_new :: "bytes \<Rightarrow> int \<Rightarrow> search_range" where
  "search_range_new args maximum =
     (let (query, lower, upper) = range_fields args
      in \<lparr>search_query = trim query,
          search_lower = max (case Option.bind lower range_bound of Some n \<Rightarrow> n | None \<Rightarrow> 0) 0,
          search_upper = min (case Option.bind upper range_bound of Some n \<Rightarrow> n | None \<Rightarrow> maximum) maximum\<rparr>)"

definition display_name :: "(bytes \<Rightarrow> bytes) \<Rightarrow> object \<Rightarrow> bytes" where
  "display_name plain obj =
     concat (map (\<lambda>c. if is_control c then [32] else c) (utf8_chars (plain (obj_name obj))))"

definition identity :: "(bytes \<Rightarrow> bytes) \<Rightarrow> world \<Rightarrow> object_id option \<Rightarrow> bytes" where
  "identity plain w i =
     (case Option.bind i (object_at w) of
        None \<Rightarrow> bstr ''NOWHERE''
      | Some obj \<Rightarrow> display_name plain obj @ suffix obj)"

definition found :: "(bytes \<Rightarrow> bytes) \<Rightarrow> world \<Rightarrow> object_id \<Rightarrow> search_range \<Rightarrow> object \<Rightarrow> bool" where
  "found plain w actor bounds obj \<longleftrightarrow>
     search_lower bounds \<le> obj_id obj \<and> obj_id obj \<le> search_upper bounds
     \<and> obj_kind obj \<notin> {Exit, Garbage} \<and> controls w actor (obj_id obj)
     \<and> word_matches (display_name plain obj) (search_query bounds)"

definition find_report ::
  "(bytes \<Rightarrow> bytes) \<Rightarrow> world \<Rightarrow> object_id \<Rightarrow> bytes \<Rightarrow> nat \<Rightarrow> (report_error, bytes) result" where
  "find_report plain w actor args limit =
     (let maximum = (if objects w = [] then 0 else fst (last (objects w)));
          bounds = search_range_new args maximum
      in bind_result (report_new limit (bstr ''***End of List***'')) (\<lambda>r.
           report_finish (report_rows r
             (map (\<lambda>obj. identity plain w (Some (obj_id obj)))
               (filter (found plain w actor bounds) (map snd (objects w)))))))"

section \<open>Site rules\<close>

datatype ip_addr = V4 u32 | V6 "128 word"

definition is_ipv4 :: "ip_addr \<Rightarrow> bool" where
  "is_ipv4 a \<longleftrightarrow> (case a of V4 _ \<Rightarrow> True | V6 _ \<Rightarrow> False)"

record classification =
  site_forbidden :: bool
  site_suspect :: bool

record site_rule =
  rule_address :: ip_addr
  rule_mask :: ip_addr
  rule_marked :: bool
  rule_origin :: bytes

definition rule_matches :: "site_rule \<Rightarrow> ip_addr \<Rightarrow> bool" where
  "rule_matches r peer \<longleftrightarrow>
     (case (peer, rule_address r, rule_mask r) of
        (V4 p, V4 a, V4 m) \<Rightarrow> p AND m = a
      | _ \<Rightarrow> False)"

record site_policy =
  site_access :: "site_rule list"
  site_suspicion :: "site_rule list"

text \<open>The tables of the configuration in declaration order, each a list of addresses and masks.\<close>

type_synonym site_table = "(bytes \<times> (ip_addr \<times> ip_addr) list) list"

datatype site_list = AccessList | SuspicionList

definition site_list_of :: "bytes \<Rightarrow> (site_list \<times> bool) option" where
  "site_list_of name =
     (if name = bstr ''forbid'' then Some (AccessList, True)
      else if name = bstr ''permit'' then Some (AccessList, False)
      else if name = bstr ''suspect'' then Some (SuspicionList, True)
      else if name = bstr ''trust'' then Some (SuspicionList, False)
      else None)"

definition push_rule :: "site_list \<Rightarrow> site_rule \<Rightarrow> site_policy \<Rightarrow> site_policy" where
  "push_rule l r p =
     (case l of
        AccessList \<Rightarrow> p\<lparr>site_access := site_access p @ [r]\<rparr>
      | SuspicionList \<Rightarrow> p\<lparr>site_suspicion := site_suspicion p @ [r]\<rparr>)"

definition site_warning :: "bytes \<Rightarrow> bytes" where
  "site_warning origin = origin @ bstr '': address bits outside the mask make this rule unmatchable''"

definition bits_outside :: "ip_addr \<Rightarrow> ip_addr \<Rightarrow> bool" where
  "bits_outside address m \<longleftrightarrow>
     (case (address, m) of (V4 a, V4 k) \<Rightarrow> a AND NOT k \<noteq> 0 | _ \<Rightarrow> False)"

definition site_path :: "bytes \<Rightarrow> nat \<Rightarrow> bytes" where
  "site_path name index = bstr ''sites.'' @ name @ [91] @ show_nat index @ [93]"

text \<open>One entry: \<open>origins\<close> gives the file a path was read from, as text.\<close>

definition compile_entry ::
  "(bytes \<Rightarrow> bytes) \<Rightarrow> bytes \<Rightarrow> site_list \<Rightarrow> bool \<Rightarrow> nat \<times> ip_addr \<times> ip_addr
     \<Rightarrow> site_policy \<times> bytes list \<Rightarrow> site_policy \<times> bytes list" where
  "compile_entry origins name l marked e st =
     (let (index, address, m) = e; (p, warnings) = st; path = site_path name index;
          origin = origins path @ bstr '': '' @ path;
          r = \<lparr>rule_address = address, rule_mask = m, rule_marked = marked, rule_origin = origin\<rparr>
      in (push_rule l r p, if bits_outside address m then warnings @ [site_warning origin] else warnings))"

definition compile_list ::
  "(bytes \<Rightarrow> bytes) \<Rightarrow> bytes \<times> (ip_addr \<times> ip_addr) list \<Rightarrow> site_policy \<times> bytes list
     \<Rightarrow> site_policy \<times> bytes list" where
  "compile_list origins entry st =
     (case site_list_of (fst entry) of
        None \<Rightarrow> st
      | Some (l, marked) \<Rightarrow> fold (compile_entry origins (fst entry) l marked) (enumerate 0 (snd entry)) st)"

definition site_compile ::
  "(bytes \<Rightarrow> bytes) \<Rightarrow> site_table \<Rightarrow> bytes list \<Rightarrow> site_policy \<times> bytes list" where
  "site_compile origins table warnings =
     fold (compile_list origins) table (\<lparr>site_access = [], site_suspicion = []\<rparr>, warnings)"

datatype site_error = SiteIpv6Unsupported bytes | SiteIpv6Listener

definition validate_listener :: "site_policy \<Rightarrow> ip_addr \<Rightarrow> (site_error, unit) result" where
  "validate_listener p address =
     bind_result (check_all (\<lambda>r. ensure (is_ipv4 (rule_address r) \<and> is_ipv4 (rule_mask r))
                                   (SiteIpv6Unsupported (rule_origin r)))
                    (site_access p @ site_suspicion p)) (\<lambda>_.
       ensure (site_access p = [] \<and> site_suspicion p = [] \<or> is_ipv4 address) SiteIpv6Listener)"

definition first_mark :: "site_rule list \<Rightarrow> ip_addr \<Rightarrow> bool" where
  "first_mark rules peer =
     (case List.find (\<lambda>r. rule_matches r peer) rules of None \<Rightarrow> False | Some r \<Rightarrow> rule_marked r)"

definition classify :: "site_policy \<Rightarrow> ip_addr \<Rightarrow> classification" where
  "classify p peer =
     \<lparr>site_forbidden = first_mark (site_access p) peer,
      site_suspect = first_mark (site_suspicion p) peer\<rparr>"

text \<open>Addresses as text: \<open>Display\<close> of the standard library.\<close>

definition show_ipv4 :: "u32 \<Rightarrow> bytes" where
  "show_ipv4 a = join_with [46] (map (\<lambda>i. show_nat (unat (drop_bit (8 * (3 - i)) a AND 255))) [0..<4])"

fun show_hex :: "nat \<Rightarrow> bytes" where
  "show_hex n =
     (let d = n mod 16; c = (if d < 10 then 48 + of_nat d else 87 + of_nat d)
      in if n < 16 then [c] else show_hex (n div 16) @ [c])"

declare show_hex.simps [simp del]

definition ip_segments :: "128 word \<Rightarrow> nat list" where
  "ip_segments a = map (\<lambda>i. unat (drop_bit (16 * (7 - i)) a AND 65535)) [0..<8]"

text \<open>
  The longest run of zero segments, the first of several: \<open>(start, length)\<close> of the longest run and of
  the current one after the segments before \<open>i\<close>.
\<close>

fun zero_run :: "nat \<Rightarrow> nat list \<Rightarrow> nat \<times> nat \<Rightarrow> nat \<times> nat \<Rightarrow> nat \<times> nat" where
  "zero_run i [] longest current = longest"
| "zero_run i (s # ss) longest current =
     (if s = 0 then
        (let run = (if snd current = 0 then (i, 1) else (fst current, snd current + 1))
         in zero_run (Suc i) ss (if snd longest < snd run then run else longest) run)
      else zero_run (Suc i) ss longest (0, 0))"

definition show_ipv6 :: "128 word \<Rightarrow> bytes" where
  "show_ipv6 a =
     (let segments = ip_segments a; shown = (\<lambda>ss. join_with [58] (map show_hex ss))
      in if take 6 segments = [0, 0, 0, 0, 0, 65535] then bstr ''::ffff:'' @ show_ipv4 (ucast a)
         else (case zero_run 0 segments (0, 0) (0, 0) of (start, n) \<Rightarrow>
           if 1 < n then shown (take start segments) @ [58, 58] @ shown (drop (start + n) segments)
           else shown segments))"

definition show_ip :: "ip_addr \<Rightarrow> bytes" where
  "show_ip a = (case a of V4 x \<Rightarrow> show_ipv4 x | V6 x \<Rightarrow> show_ipv6 x)"

text \<open>\<open>{:<20}\<close> of ASCII text.\<close>

definition pad_20 :: "bytes \<Rightarrow> bytes" where
  "pad_20 s = s @ replicate (20 - length s) 32"

definition site_status :: "bool \<Rightarrow> bool \<Rightarrow> bytes" where
  "site_status suspicion marked =
     (if suspicion then (if marked then bstr ''Suspected'' else bstr ''Trusted'')
      else (if marked then bstr ''Forbidden'' else bstr ''Unrestricted''))"

definition site_rows :: "bytes \<Rightarrow> bool \<Rightarrow> site_rule list \<Rightarrow> bytes list" where
  "site_rows title suspicion rules =
     [bstr ''----- '' @ title @ bstr '' -----'', bstr ''Address              Mask                 Status'']
     @ map (\<lambda>r. pad_20 (show_ip (rule_address r)) @ [32] @ pad_20 (show_ip (rule_mask r)) @ [32]
                  @ site_status suspicion (rule_marked r)) rules"

definition site_report :: "site_policy \<Rightarrow> nat \<Rightarrow> (report_error, report) result" where
  "site_report p limit =
     bind_result (report_new limit []) (\<lambda>r.
       Inr (report_rows (report_rows r (site_rows (bstr ''Site Access'') False (site_access p)))
              (site_rows (bstr ''Suspected Sites'') True (site_suspicion p))))"

section \<open>Sizes of encoded text\<close>

definition byte_weight :: "u8 \<Rightarrow> nat" where
  "byte_weight b = (if b = 10 \<or> b = IAC then 2 else 1)"

definition text_weight :: "bytes \<Rightarrow> nat" where
  "text_weight s = sum_list (map byte_weight s)"

lemma text_weight_simps [simp]:
  "text_weight [] = 0" "text_weight (b # s) = byte_weight b + text_weight s"
  by (simp_all add: text_weight_def)

lemma length_encode: "length (encode s) = text_weight (crlf_to_lf s)"
proof -
  have "length (escape_iac (lf_to_crlf t)) = text_weight t" for t
    by (induction t) (simp_all add: escape_iac_def lf_to_crlf_def byte_weight_def IAC_def)
  then show ?thesis by (simp add: encode_def)
qed

text \<open>Joining texts can only save bytes: a carriage return before a line feed is not repeated.\<close>

lemma crlf_to_lf_other: "b \<noteq> 13 \<Longrightarrow> crlf_to_lf (b # s) = b # crlf_to_lf s"
  by (cases s) simp_all

lemma encode_append_le: "length (encode (s @ t)) \<le> length (encode s) + length (encode t)"
  unfolding length_encode
proof (induction s rule: crlf_to_lf.induct)
  case (2 b)
  then show ?case by (cases t) (auto simp: byte_weight_def IAC_def crlf_to_lf_other)
qed (auto simp: byte_weight_def)

lemma encode_newline [simp]: "length (encode [10]) = 2"
  by (simp add: length_encode byte_weight_def)

lemma encode_lines_le: "length (encode (report_lines rows)) \<le> rows_size rows"
proof (induction rows)
  case Nil
  then show ?case by (simp add: length_encode report_lines_def)
next
  case (Cons row rows)
  have "length (encode ((row @ [10]) @ report_lines rows)) \<le> length (encode row) + 2 + length (encode (report_lines rows))"
    using encode_append_le [of "row @ [10]" "report_lines rows"] encode_append_le [of row "[10]"] by simp
  then show ?case using Cons by (simp add: report_lines_def rows_size_def row_size_def)
qed

lemma encode_OMITTED: "length (encode (OMITTED @ [10])) = length OMITTED + 2"
  by (simp add: length_encode OMITTED_def bstr_def byte_weight_def IAC_def)

section \<open>What a report holds\<close>

text \<open>The longest prefix of complete rows within a number of bytes.\<close>

fun kept_rows :: "nat \<Rightarrow> bytes list \<Rightarrow> bytes list" where
  "kept_rows n [] = []"
| "kept_rows n (row # rows) = (if row_size row \<le> n then row # kept_rows (n - row_size row) rows else [])"

lemma rows_size_simps [simp]:
  "rows_size [] = 0" "rows_size (row # rows) = row_size row + rows_size rows"
  by (simp_all add: rows_size_def)

lemma report_lines_simps [simp]:
  "report_lines [] = []" "report_lines (row # rows) = row @ 10 # report_lines rows"
  by (simp_all add: report_lines_def)

lemma kept_all: "rows_size rows \<le> n \<Longrightarrow> kept_rows n rows = rows"
  by (induction rows arbitrary: n) auto

lemma kept_some:
  "n < rows_size rows \<Longrightarrow>
     \<exists>k<length rows. kept_rows n rows = take k rows \<and> rows_size (take k rows) \<le> n \<and> n < rows_size (take (Suc k) rows)"
proof (induction rows arbitrary: n)
  case (Cons row rows)
  show ?case
  proof (cases "row_size row \<le> n")
    case True
    then have "n - row_size row < rows_size rows" using Cons.prems by simp
    then obtain k where "k < length rows" "kept_rows (n - row_size row) rows = take k rows"
      "rows_size (take k rows) \<le> n - row_size row" "n - row_size row < rows_size (take (Suc k) rows)"
      using Cons.IH by blast
    then show ?thesis using True by (intro exI [of _ "Suc k"]) auto
  qed (intro exI [of _ 0], simp)
qed simp

lemma kept_size: "rows_size (kept_rows n rows) \<le> n"
  by (induction n rows rule: kept_rows.induct) auto

lemma truncated_stays: "report_truncated r \<Longrightarrow> report_rows r rows = r"
proof -
  assume "report_truncated r"
  then have "report_row r row = r" for row by (cases r) (simp add: report_row_def Let_def)
  then show ?thesis by (induction rows) (simp_all add: report_rows_def)
qed

lemma report_rows_kept:
  assumes "\<not> report_truncated r"
  shows "report_body (report_rows r rows) = report_body r @ report_lines (kept_rows (report_remaining r) rows)
     \<and> report_truncated (report_rows r rows) = (report_remaining r < rows_size rows)
     \<and> report_footer (report_rows r rows) = report_footer r \<and> notice_fits (report_rows r rows) = notice_fits r"
  using assms
proof (induction rows arbitrary: r)
  case Nil
  then show ?case by (simp add: report_rows_def)
next
  case (Cons row rows)
  have step: "report_rows r (row # rows) = report_rows (report_row r row) rows" by (simp add: report_rows_def)
  show ?case
  proof (cases "row_size row \<le> report_remaining r")
    case True
    then show ?thesis unfolding step using Cons.prems Cons.IH [of "report_row r row"]
      by (auto simp: report_row_def Let_def)
  next
    case False
    then show ?thesis unfolding step using Cons.prems truncated_stays [of "report_row r row" rows]
      by (simp add: report_row_def Let_def)
  qed
qed

lemma report_new_fields:
  "report_new limit footer = Inr r \<longleftrightarrow> length (encode footer) + 2 \<le> limit \<and>
     r = \<lparr>report_body = [], report_footer = footer, report_remaining = limit - report_reserved footer,
          report_truncated = False, notice_fits = (report_reserved footer \<le> limit)\<rparr>"
  by (auto simp: report_new_def Let_def)

lemma finished_report:
  assumes "report_new limit footer = Inr r"
  shows "report_finish (report_rows r rows) =
    (let n = limit - report_reserved footer; body = report_lines (kept_rows n rows)
     in if rows_size rows \<le> n then Inr (body @ footer)
        else if report_reserved footer \<le> limit then Inr (body @ OMITTED @ [10] @ footer) else Inl OutputLimitTooSmall)"
  using assms report_rows_kept [of r rows] by (auto simp: report_new_fields report_finish_def Let_def)

lemma finished_report_fits:
  assumes "report_new limit footer = Inr r" and "report_finish (report_rows r rows) = Inr text"
  shows "length (encode (text @ [10])) \<le> limit"
proof -
  let ?n = "limit - report_reserved footer" and ?body = "report_lines (kept_rows (limit - report_reserved footer) rows)"
  have room: "length (encode footer) + 2 \<le> limit" using assms(1) by (simp add: report_new_fields)
  have body: "length (encode ?body) \<le> ?n"
    using encode_lines_le kept_size [of ?n rows] le_trans by blast
  have add: "length (encode (s @ t)) \<le> m + k" if "length (encode s) \<le> m" "length (encode t) \<le> k" for s t m k
    using encode_append_le [of s t] that by linarith
  consider (whole) "rows_size rows \<le> ?n" "text = ?body @ footer"
    | (part) "report_reserved footer \<le> limit" "text = ?body @ (OMITTED @ [10]) @ footer"
    using assms(2) unfolding finished_report [OF assms(1)] by (auto simp: Let_def split: if_splits)
  then show ?thesis
  proof cases
    case whole
    have "length (encode (?body @ footer @ [10])) \<le> ?n + (length (encode footer) + 2)"
      by (intro add body) simp_all
    moreover have "?n + (length (encode footer) + 2) \<le> limit" using room by (simp add: report_reserved_def)
    ultimately show ?thesis using whole by simp
  next
    case part
    have "length (encode (?body @ (OMITTED @ [10]) @ footer @ [10])) \<le>
        ?n + (length OMITTED + 2 + (length (encode footer) + 2))"
      by (rule add [OF body add [OF _ add]]) (simp_all add: encode_OMITTED)
    then show ?thesis using part by (simp add: report_reserved_def)
  qed
qed

section \<open>Site rules\<close>

lemma first_mark_Cons [simp]:
  "first_mark [] peer = False"
  "first_mark (r # rules) peer = (if rule_matches r peer then rule_marked r else first_mark rules peer)"
  by (simp_all add: first_mark_def)

text \<open>A rule on IPv4 addresses matches some peer unless its address has bits outside its mask.\<close>

lemma rule_matchable:
  assumes "is_ipv4 (rule_address r)" and "is_ipv4 (rule_mask r)"
  shows "(\<exists>peer. rule_matches r peer) \<longleftrightarrow> \<not> bits_outside (rule_address r) (rule_mask r)"
proof -
  obtain a m where am: "rule_address r = V4 a" "rule_mask r = V4 m"
    using assms by (auto simp: is_ipv4_def split: ip_addr.splits)
  have "a AND NOT m = 0" if "p AND m = a" for p
    using that by (simp flip: that add: and.assoc)
  moreover have "rule_matches r (V4 a)" if "a AND NOT m = 0"
  proof -
    have "a AND m = a"
      using that by (simp add: bit_eq_iff bit_simps) blast
    then show ?thesis by (simp add: rule_matches_def am)
  qed
  moreover have "\<exists>p. p AND m = a" if "rule_matches r peer" for peer
    using that by (auto simp: am rule_matches_def split: ip_addr.splits)
  ultimately show ?thesis by (auto simp: bits_outside_def am)
qed

text \<open>A rule with an IPv6 address or mask, or a peer with one, never matches.\<close>

lemma ipv6_never_matches:
  "\<not> is_ipv4 peer \<or> \<not> is_ipv4 (rule_address r) \<or> \<not> is_ipv4 (rule_mask r) \<Longrightarrow> \<not> rule_matches r peer"
  by (auto simp: is_ipv4_def rule_matches_def split: ip_addr.splits)

lemma ipv6_peer_unrestricted:
  "\<not> is_ipv4 peer \<Longrightarrow> classify p peer = \<lparr>site_forbidden = False, site_suspect = False\<rparr>"
proof -
  assume "\<not> is_ipv4 peer"
  then have "first_mark rules peer = False" for rules by (induction rules) (auto simp: ipv6_never_matches)
  then show ?thesis by (simp add: classify_def)
qed

text \<open>A server that accepts its rules and listens where they apply gives no IPv6 rule any effect.\<close>

lemma listener_checked:
  "validate_listener p address = Inr () \<longleftrightarrow>
     (\<forall>r\<in>set (site_access p @ site_suspicion p). is_ipv4 (rule_address r) \<and> is_ipv4 (rule_mask r))
     \<and> (site_access p @ site_suspicion p = [] \<or> is_ipv4 address)"
  by (auto simp: validate_listener_def bind_result_Inr_iff check_all_ok)

lemma pad_20_length: "length (pad_20 s) = max 20 (length s)"
  by (simp add: pad_20_def)

text \<open>A deciding rule is the first that matches.\<close>

lemma first_mark_iff:
  "first_mark rules peer \<longleftrightarrow>
     (\<exists>i<length rules. rule_matches (rules ! i) peer \<and> rule_marked (rules ! i) \<and> (\<forall>j<i. \<not> rule_matches (rules ! j) peer))"
proof (induction rules)
  case (Cons r rules)
  have "(\<forall>j<Suc i. P j) \<longleftrightarrow> P 0 \<and> (\<forall>j<i. P (Suc j))" for P :: "nat \<Rightarrow> bool" and i
    by (auto simp: less_Suc_eq_0_disj)
  then show ?case using Cons by (auto simp: Ex_less_Suc2)
qed simp

text \<open>
  Compilation keeps the declaration order within each list and warns of exactly the IPv4 rules that
  no peer can match; those decide nothing, so a policy without them classifies every peer alike.
\<close>

definition entry_rules :: "(bytes \<Rightarrow> bytes) \<Rightarrow> bytes \<times> (ip_addr \<times> ip_addr) list \<Rightarrow> (site_list \<times> site_rule) list" where
  "entry_rules origins entry =
     (case site_list_of (fst entry) of
        None \<Rightarrow> []
      | Some (l, marked) \<Rightarrow>
          map (\<lambda>(i, a, m). (l, \<lparr>rule_address = a, rule_mask = m, rule_marked = marked,
              rule_origin = origins (site_path (fst entry) i) @ bstr '': '' @ site_path (fst entry) i\<rparr>))
            (enumerate 0 (snd entry)))"

definition listed_rules :: "(bytes \<Rightarrow> bytes) \<Rightarrow> site_table \<Rightarrow> (site_list \<times> site_rule) list" where
  "listed_rules origins table = concat (map (entry_rules origins) table)"

definition rules_of :: "site_list \<Rightarrow> (site_list \<times> site_rule) list \<Rightarrow> site_rule list" where
  "rules_of l rules = map snd (filter (\<lambda>r. fst r = l) rules)"

definition unmatchable :: "site_rule \<Rightarrow> bool" where
  "unmatchable r \<longleftrightarrow> is_ipv4 (rule_address r) \<and> is_ipv4 (rule_mask r) \<and> (\<forall>peer. \<not> rule_matches r peer)"

definition with_rules :: "(site_list \<times> site_rule) list \<Rightarrow> site_policy \<times> bytes list \<Rightarrow> site_policy \<times> bytes list" where
  "with_rules rules st =
     (\<lparr>site_access = site_access (fst st) @ rules_of AccessList rules,
       site_suspicion = site_suspicion (fst st) @ rules_of SuspicionList rules\<rparr>,
      snd st @ map (\<lambda>r. site_warning (rule_origin (snd r))) (filter (\<lambda>r. unmatchable (snd r)) rules))"

lemma bits_outside_unmatchable: "bits_outside (rule_address r) (rule_mask r) \<longleftrightarrow> unmatchable r"
proof (cases "is_ipv4 (rule_address r) \<and> is_ipv4 (rule_mask r)")
  case True
  then show ?thesis using rule_matchable [of r] by (auto simp: unmatchable_def)
qed (auto simp: unmatchable_def bits_outside_def is_ipv4_def split: ip_addr.splits)

lemma with_rules_append: "with_rules (xs @ ys) st = with_rules ys (with_rules xs st)"
  by (simp add: with_rules_def rules_of_def)

lemma with_rules_Nil [simp]: "with_rules [] st = st"
  by (cases st) (simp add: with_rules_def rules_of_def)

lemma compile_entry_adds:
  "compile_entry origins name l marked (i, a, m) st =
     with_rules [(l, \<lparr>rule_address = a, rule_mask = m, rule_marked = marked,
       rule_origin = origins (site_path name i) @ bstr '': '' @ site_path name i\<rparr>)] st"
  using bits_outside_unmatchable [of "\<lparr>rule_address = a, rule_mask = m, rule_marked = marked,
       rule_origin = origins (site_path name i) @ bstr '': '' @ site_path name i\<rparr>"]
  by (cases st; cases l) (simp_all add: compile_entry_def push_rule_def with_rules_def rules_of_def Let_def)

lemma compile_entries_add:
  "fold (compile_entry origins name l marked) es st =
     with_rules (map (\<lambda>(i, a, m). (l, \<lparr>rule_address = a, rule_mask = m, rule_marked = marked,
       rule_origin = origins (site_path name i) @ bstr '': '' @ site_path name i\<rparr>)) es) st"
proof (induction es arbitrary: st)
  case (Cons e es)
  then show ?case by (cases e) (simp add: compile_entry_adds flip: with_rules_append)
qed simp

lemma compile_list_adds: "compile_list origins entry st = with_rules (entry_rules origins entry) st"
  by (simp add: compile_list_def entry_rules_def compile_entries_add split: option.split)

lemma site_compile_exact:
  "site_compile origins table warnings =
     with_rules (listed_rules origins table) (\<lparr>site_access = [], site_suspicion = []\<rparr>, warnings)"
proof -
  have "fold (compile_list origins) table st = with_rules (listed_rules origins table) st" for st
    by (induction table arbitrary: st)
      (simp_all add: listed_rules_def with_rules_append compile_list_adds)
  then show ?thesis by (simp add: site_compile_def)
qed

lemma warned_rules_decide_nothing:
  "classify \<lparr>site_access = filter (\<lambda>r. \<not> unmatchable r) (site_access p),
             site_suspicion = filter (\<lambda>r. \<not> unmatchable r) (site_suspicion p)\<rparr> peer = classify p peer"
proof -
  have "first_mark (filter (\<lambda>r. \<not> unmatchable r) rules) peer = first_mark rules peer" for rules
    by (induction rules) (auto simp: unmatchable_def)
  then show ?thesis by (simp add: classify_def)
qed

section \<open>Properties\<close>

text \<open>
  C40. A report is exact and fits. Feed any rows, whatever client controls they hold, into a report that
  was accepted for a limit: when the rows fit the room that remains beside the footer and the notice,
  the finished text is every row and the footer; otherwise it is the longest run of whole rows that
  fits, the notice and the footer, or the error when the limit has no room for the notice. What is
  finished never exceeds the limit once it is encoded for Telnet with its closing line break.
\<close>

theorem report_exact:
  assumes "report_new limit footer = Inr r"
  shows "(rows_size rows \<le> limit - report_reserved footer
            \<longrightarrow> report_finish (report_rows r rows) = Inr (report_lines rows @ footer))
       \<and> (limit - report_reserved footer < rows_size rows
            \<longrightarrow> (\<exists>k<length rows. rows_size (take k rows) \<le> limit - report_reserved footer
                  \<and> limit - report_reserved footer < rows_size (take (Suc k) rows)
                  \<and> report_finish (report_rows r rows) =
                     (if report_reserved footer \<le> limit
                      then Inr (report_lines (take k rows) @ OMITTED @ [10] @ footer) else Inl OutputLimitTooSmall)))
       \<and> (\<forall>text. report_finish (report_rows r rows) = Inr text \<longrightarrow> length (encode (text @ [10])) \<le> limit)"
proof (intro conjI impI allI)
  let ?n = "limit - report_reserved footer"
  show "report_finish (report_rows r rows) = Inr (report_lines rows @ footer)" if "rows_size rows \<le> ?n"
    using that by (simp add: finished_report [OF assms] kept_all)
  show "\<exists>k<length rows. rows_size (take k rows) \<le> ?n \<and> ?n < rows_size (take (Suc k) rows)
      \<and> report_finish (report_rows r rows) =
         (if report_reserved footer \<le> limit
          then Inr (report_lines (take k rows) @ OMITTED @ [10] @ footer) else Inl OutputLimitTooSmall)"
    if "?n < rows_size rows"
    using that kept_some [OF that] by (auto simp: finished_report [OF assms] Let_def)
qed (rule finished_report_fits [OF assms])

theorem report_exact_witness:
  "\<exists>r k. report_new 65 [68] = Inr r \<and> k < 2
     \<and> report_finish (report_rows r [[65], [13, 10, 255]]) =
         Inr (report_lines (take k [[65], [13, 10, 255]]) @ OMITTED @ [10] @ [68])"
proof -
  let ?rows = "[[65], [13, 10, 255]] :: bytes list"
  let ?r = "\<lparr>report_body = [], report_footer = [68], report_remaining = 65 - report_reserved [68],
          report_truncated = False, notice_fits = (report_reserved [68] \<le> 65)\<rparr>"
  have reserved: "report_reserved [68] = 57"
    by (simp add: report_reserved_def OMITTED_def bstr_def length_encode byte_weight_def IAC_def)
  have new: "report_new 65 [68] = Inr ?r"
    by (simp add: report_new_fields length_encode byte_weight_def IAC_def)
  have "65 - report_reserved [68] < rows_size ?rows"
    by (simp add: reserved row_size_def length_encode byte_weight_def IAC_def)
  then obtain k where "k < length ?rows" "report_finish (report_rows ?r ?rows) =
      (if report_reserved [68] \<le> 65 then Inr (report_lines (take k ?rows) @ OMITTED @ [10] @ [68])
       else Inl OutputLimitTooSmall)"
    using report_exact [OF new, of ?rows] by blast
  moreover have "length ?rows = 2" by simp
  moreover have "report_reserved [68] \<le> 65" using reserved by simp
  ultimately have "k < 2" "report_finish (report_rows ?r ?rows) = Inr (report_lines (take k ?rows) @ OMITTED @ [10] @ [68])"
    by (simp_all only: if_True)
  then show ?thesis using new by blast
qed

end
