(* ===== verification/Command_Access.thy ===== *)
theory Command_Access
  imports World_Authority Rust_Num
begin

text \<open>
  \<open>src/access.rs\<close>: the permission bits of a command, their evaluation against the invoker, and the
  edits that the configuration applies to them; \<open>config::Permissions\<close> of \<open>src/config/types.rs\<close> and
  the access constants of \<open>src/lua/command_access.rs\<close>. The TOML library yields the tables in
  declaration order; \<open>origins\<close> gives the file a configuration path was read from, as text.
\<close>

unbundle bit_operations_syntax

section \<open>Permissions\<close>

type_synonym permissions = u16

abbreviation (input) P_EVERYONE :: permissions where "P_EVERYONE \<equiv> 0"
abbreviation (input) P_GOD :: permissions where "P_GOD \<equiv> 1"
abbreviation (input) P_WIZARD :: permissions where "P_WIZARD \<equiv> 2"
abbreviation (input) P_NO_SUSPECT :: permissions where "P_NO_SUSPECT \<equiv> 4"
abbreviation (input) P_QUEUE :: permissions where "P_QUEUE \<equiv> 8"
abbreviation (input) P_DISABLED :: permissions where "P_DISABLED \<equiv> 16"
abbreviation (input) P_LOCATION :: permissions where "P_LOCATION \<equiv> 32"
abbreviation (input) P_CONTENTS :: permissions where "P_CONTENTS \<equiv> 64"
abbreviation (input) P_PLAYER :: permissions where "P_PLAYER \<equiv> 128"
abbreviation (input) P_DARK :: permissions where "P_DARK \<equiv> 256"

definition CATALOG :: "(bytes \<times> nat \<times> permissions) list" where
  "CATALOG =
     [(bstr ''god'', 2, P_GOD), (bstr ''wizard'', 3, P_WIZARD), (bstr ''no_suspect'', 5, P_NO_SUSPECT),
      (bstr ''queue_enabled'', 6, P_QUEUE), (bstr ''disabled'', 4, P_DISABLED),
      (bstr ''need_location'', 6, P_LOCATION), (bstr ''need_contents'', 6, P_CONTENTS),
      (bstr ''need_player'', 6, P_PLAYER), (bstr ''dark'', 4, P_DARK)]"

datatype access_error =
    InvalidPermission bytes
  | UnknownAccessToken bytes
  | AccessEdit bytes access_error
  | InvalidAccessTarget bytes

definition perm_contains :: "permissions \<Rightarrow> permissions \<Rightarrow> bool" where
  "perm_contains p flag \<longleftrightarrow> p AND flag \<noteq> 0"

definition perm_roles :: "permissions \<Rightarrow> permissions" where
  "perm_roles p = p AND 3"

definition perm_parse :: "bytes \<Rightarrow> (access_error, permissions) result" where
  "perm_parse name =
     (if name = bstr ''everyone'' then Inr P_EVERYONE
      else if name = bstr ''wizard'' then Inr P_WIZARD
      else if name = bstr ''god'' then Inr P_GOD
      else Inl (InvalidPermission name))"

definition perm_allows :: "permissions \<Rightarrow> world \<Rightarrow> object_id \<Rightarrow> bool" where
  "perm_allows p w player =
     (if perm_contains p P_DISABLED then False
      else if player = GOD then True
      else
        (let wizard = is_wizard w player
         in if perm_roles p \<noteq> P_EVERYONE \<and> \<not> (wizard \<and> perm_contains p P_WIZARD) then False
            else wizard \<or> \<not> perm_contains p P_NO_SUSPECT \<or> \<not> has_flag w player Suspect))"

definition perm_denial :: "permissions \<Rightarrow> world \<Rightarrow> object_id \<Rightarrow> bool \<Rightarrow> bytes option" where
  "perm_denial p w player queue_enabled =
     (let kind = map_option obj_kind (object_at w player);
          loc = (kind \<in> {Some Player, Some Thing, Some Garbage});
          contents = (loc \<or> kind = Some Room)
      in if perm_contains p P_LOCATION \<and> \<not> loc \<or> perm_contains p P_CONTENTS \<and> \<not> contents
            \<or> perm_contains p P_PLAYER \<and> kind \<noteq> Some Player
         then Some (bstr ''Command incompatible with invoker type.'')
         else if perm_contains p P_QUEUE \<and> \<not> queue_enabled
         then Some (bstr ''Sorry, queueing and triggering are not allowed now.'')
         else if \<not> perm_allows p w player then Some (bstr ''Permission denied.'')
         else None)"

definition perm_names :: "permissions \<Rightarrow> bytes list" where
  "perm_names p = map fst (filter (\<lambda>(_, _, k). perm_contains p k) CATALOG)"

definition perm_name :: "permissions \<Rightarrow> bytes" where
  "perm_name p = (if perm_names p = [] then bstr ''everyone'' else join_with [32] (perm_names p))"

section \<open>Edits\<close>

record access_edit =
  edit_bit :: permissions
  edit_set :: bool

definition one_edit :: "access_edit \<Rightarrow> permissions \<Rightarrow> permissions" where
  "one_edit e p = (if edit_set e then p OR edit_bit e else p AND NOT (edit_bit e))"

definition perm_edit :: "access_edit list \<Rightarrow> permissions \<Rightarrow> permissions" where
  "perm_edit es p = fold one_edit es p"

definition edit_parse :: "bytes \<Rightarrow> (access_error, access_edit) result" where
  "edit_parse word =
     (let word = to_ascii_lowercase word;
          (v, name) = (case strip_prefix [33] word of None \<Rightarrow> (True, word) | Some s \<Rightarrow> (False, s))
      in case List.find (\<lambda>(token, least, _). least \<le> length name \<and> take (length name) token = name) CATALOG of
           None \<Rightarrow> Inl (UnknownAccessToken word)
         | Some (_, _, k) \<Rightarrow> Inr \<lparr>edit_bit = k, edit_set = v\<rparr>)"

datatype token_input = One bytes | Many "bytes list"

definition config_tokens :: "token_input \<Rightarrow> bytes list" where
  "config_tokens i = concat (map split_whitespace (case i of One s \<Rightarrow> [s] | Many v \<Rightarrow> v))"

record access_rule =
  access_target :: bytes
  access_list :: bool
  access_edits :: "access_edit list"
  access_origin :: bytes

definition access_rule_of ::
  "(bytes \<Rightarrow> bytes) \<Rightarrow> bytes \<Rightarrow> bytes \<times> token_input \<Rightarrow> (access_error, access_rule) result" where
  "access_rule_of origins category e =
     (let (target, entry) = e; path = bstr ''access.'' @ category @ [46] @ target;
          origin = origins path @ bstr '': '' @ path
      in case collect_result edit_parse (config_tokens entry) of
           Inl err \<Rightarrow> Inl (AccessEdit origin err)
         | Inr edits \<Rightarrow>
             ensure_then (target \<noteq> [] \<and> \<not> (\<exists>c\<in>set (utf8_chars target). c \<in> set white_space)) (InvalidAccessTarget origin)
               (Inr \<lparr>access_target = to_ascii_lowercase target, access_list = (category = bstr ''lists''),
                     access_edits = edits, access_origin = origin\<rparr>))"

definition access_rules ::
  "(bytes \<Rightarrow> bytes) \<Rightarrow> (bytes \<times> (bytes \<times> token_input) list) list \<Rightarrow> (access_error, access_rule list) result" where
  "access_rules origins table =
     collect_result (\<lambda>(category, e). access_rule_of origins category e)
       (concat (map (\<lambda>(category, entries). if category \<in> {bstr ''commands'', bstr ''lists''}
                                             then map (Pair category) entries else []) table))"

section \<open>Defaults of native commands, and the constants of Lua\<close>

definition native_defaults :: "bytes \<Rightarrow> permissions \<Rightarrow> permissions" where
  "native_defaults name roles =
     roles OR
       (if name \<in> bstr ` {''@clone'', ''@create''} then P_CONTENTS
        else if name \<in> bstr ` {''@emit'', ''@femit'', ''@fpose'', ''@fsay'', ''@oemit'', ''enter'', ''get'',
                               ''give'', ''leave'', ''goto'', ''look'', ''pose'', ''say''} then P_LOCATION
        else if name = bstr ''drop'' then P_CONTENTS OR P_LOCATION
        else if name \<in> bstr ` {''@force'', ''@wait''} then P_QUEUE
        else if name = [59] \<or> name = [92] then P_LOCATION OR P_DARK
        else P_EVERYONE)"

definition switch_default :: "bytes \<Rightarrow> bytes \<Rightarrow> permissions" where
  "switch_default command switch =
     (if command \<in> bstr ` {''@boot'', ''@wall'', ''@btech''} \<or> command = bstr ''@examine'' \<and> switch = bstr ''debug''
      then P_WIZARD else P_EVERYONE)"

datatype command_access = AccessPublic | AccessWizard | AccessGod

primrec command_access_name :: "command_access \<Rightarrow> string" where
  "command_access_name AccessPublic = ''PUBLIC''"
| "command_access_name AccessWizard = ''WIZARD''"
| "command_access_name AccessGod = ''GOD''"

primrec command_access_allows :: "command_access \<Rightarrow> world \<Rightarrow> object_id \<Rightarrow> bool" where
  "command_access_allows AccessPublic w player = True"
| "command_access_allows AccessWizard w player = is_wizard w player"
| "command_access_allows AccessGod w player = (player = GOD)"

section \<open>Permissions decide\<close>

text \<open>A disabled command is denied to everyone, GOD included; nothing but that and the prerequisites stops GOD.\<close>

lemma disabled_denies: "perm_contains p P_DISABLED \<Longrightarrow> perm_denial p w player q \<noteq> None"
  by (simp add: perm_denial_def perm_allows_def)

lemma god_allowed: "perm_allows p w GOD \<longleftrightarrow> \<not> perm_contains p P_DISABLED"
  by (simp add: perm_allows_def)

text \<open>
  Adding restrictions never admits anyone: a bit that is no role alternative can only take rights
  away.
\<close>

lemma contains_OR: "perm_contains (p OR q) b \<longleftrightarrow> perm_contains p b \<or> perm_contains q b"
proof -
  have "(p OR q) AND b = 0 \<longleftrightarrow> p AND b = 0 \<and> q AND b = 0"
    by (simp add: bit_eq_iff bit_simps) blast
  then show ?thesis by (simp add: perm_contains_def)
qed

lemma roles_zero: "perm_roles p = 0 \<longleftrightarrow> \<not> perm_contains p 3"
  by (simp add: perm_roles_def perm_contains_def)

definition compatible :: "permissions \<Rightarrow> kind option \<Rightarrow> bool" where
  "compatible p k \<longleftrightarrow>
     (perm_contains p P_LOCATION \<longrightarrow> k \<in> {Some Player, Some Thing, Some Garbage})
     \<and> (perm_contains p P_CONTENTS \<longrightarrow> k \<in> {Some Player, Some Thing, Some Garbage, Some Room})
     \<and> (perm_contains p P_PLAYER \<longrightarrow> k = Some Player)"

lemma denial_None:
  "perm_denial p w player q = None \<longleftrightarrow>
     compatible p (map_option obj_kind (object_at w player)) \<and> (perm_contains p P_QUEUE \<longrightarrow> q) \<and> perm_allows p w player"
  by (auto simp: perm_denial_def compatible_def Let_def split: if_splits)

lemma restrictions_only_restrict:
  assumes "\<not> perm_contains q P_WIZARD"
    and "perm_denial (p OR q) w player e = None"
  shows "perm_denial p w player e = None"
proof -
  have "perm_allows p w player" if "perm_allows (p OR q) w player"
    using that assms(1) by (auto simp: perm_allows_def roles_zero contains_OR Let_def split: if_splits)
  then show ?thesis using assms(2) by (auto simp: denial_None compatible_def contains_OR)
qed

text \<open>The last edit of a bit decides it.\<close>

definition catalog_bits :: "permissions set" where
  "catalog_bits = {P_GOD, P_WIZARD, P_NO_SUSPECT, P_QUEUE, P_DISABLED, P_LOCATION, P_CONTENTS, P_PLAYER, P_DARK}"

lemma catalog_bits_image: "catalog_bits = (\<lambda>(_, _, k). k) ` set CATALOG"
  by (simp add: CATALOG_def catalog_bits_def)

lemma edit_bit_listed: "edit_parse word = Inr e \<Longrightarrow> edit_bit e \<in> catalog_bits"
  unfolding catalog_bits_image edit_parse_def
  by (force simp: Let_def split: option.splits prod.splits dest: find_Some_iff_first)

lemma bits_apart:
  assumes "b \<in> catalog_bits" and "c \<in> catalog_bits"
  shows "c AND b = (if b = c then b else 0)"
  using assms unfolding catalog_bits_def by (elim insertE emptyE) simp_all

lemma one_edit_bit:
  assumes b: "b \<in> catalog_bits" and e: "edit_bit e \<in> catalog_bits"
  shows "perm_contains (one_edit e p) b \<longleftrightarrow> (if edit_bit e = b then edit_set e else perm_contains p b)"
proof -
  have "b \<noteq> 0" using b by (auto simp: catalog_bits_def)
  moreover have "(p AND NOT (edit_bit e)) AND b = (if edit_bit e = b then 0 else p AND b)"
  proof (cases "edit_bit e = b")
    case False
    then have "edit_bit e AND b = 0" using bits_apart [OF b e] by simp
    then have "NOT (edit_bit e) AND b = b"
      by (simp add: bit_eq_iff bit_simps) blast
    then show ?thesis using False by (simp add: and.assoc)
  qed (simp add: and.assoc)
  moreover have "perm_contains (edit_bit e) b \<longleftrightarrow> edit_bit e = b"
    using bits_apart [OF b e] \<open>b \<noteq> 0\<close> by (cases "b = edit_bit e") (simp_all add: perm_contains_def)
  ultimately show ?thesis
    by (cases "edit_set e") (auto simp: one_edit_def contains_OR, auto simp: perm_contains_def)
qed

lemma last_edit_decides:
  assumes "b \<in> catalog_bits" and "\<forall>e\<in>set es. edit_bit e \<in> catalog_bits"
  shows "perm_contains (perm_edit es p) b \<longleftrightarrow>
    (case List.find (\<lambda>e. edit_bit e = b) (rev es) of Some e \<Rightarrow> edit_set e | None \<Rightarrow> perm_contains p b)"
  using assms(2)
proof (induction es rule: rev_induct)
  case (snoc e es)
  then show ?case using one_edit_bit [OF assms(1), of e "perm_edit es p"] by (simp add: perm_edit_def)
qed (simp add: perm_edit_def)

lemma set_edits_decide:
  assumes b: "b \<in> catalog_bits" and es: "\<forall>e\<in>set es. edit_bit e \<in> catalog_bits \<and> edit_set e"
  shows "perm_contains (perm_edit es P_EVERYONE) b \<longleftrightarrow> (\<exists>e\<in>set es. edit_bit e = b)"
proof (cases "List.find (\<lambda>e. edit_bit e = b) (rev es)")
  case None
  then have "\<not> perm_contains (perm_edit es P_EVERYONE) b"
    using last_edit_decides [OF b, of es P_EVERYONE] es by (simp add: perm_contains_def)
  then show ?thesis using None by (auto simp: find_None_iff)
next
  case (Some e)
  then have "e \<in> set es" "edit_bit e = b" by (auto dest: find_Some_iff_first)
  then show ?thesis using last_edit_decides [OF b, of es P_EVERYONE] es Some by auto
qed

text \<open>The names a permission is shown with are tokens that configure the same permission.\<close>

lemma names_parse:
  "(name, least, k) \<in> set CATALOG \<Longrightarrow> edit_parse name = Inr \<lparr>edit_bit = k, edit_set = True\<rparr>"
  unfolding CATALOG_def
  by (simp only: list.set insert_iff empty_iff prod.inject simp_thms, elim disjE conjE)
    (simp_all add: edit_parse_def CATALOG_def to_ascii_lowercase_def ascii_lower_def strip_prefix_def bstr_def)

lemma shown_names_configure:
  "\<exists>es. collect_result edit_parse (perm_names p) = Inr es
     \<and> (\<forall>b\<in>catalog_bits. perm_contains (perm_edit es P_EVERYONE) b \<longleftrightarrow> perm_contains p b)"
proof -
  let ?shown = "filter (\<lambda>(_, _, k). perm_contains p k) CATALOG"
  let ?edit = "\<lambda>(_, _, k). \<lparr>edit_bit = k, edit_set = True\<rparr>"
  have "collect_result edit_parse (map fst entries) = Inr (map ?edit entries)" if "set entries \<subseteq> set CATALOG" for entries
    using that by (induction entries) (auto simp: names_parse)
  then have parsed: "collect_result edit_parse (perm_names p) = Inr (map ?edit ?shown)"
    by (simp add: perm_names_def)
  have bits: "(\<exists>name least. (name, least, b) \<in> set CATALOG) \<longleftrightarrow> b \<in> catalog_bits" for b
    unfolding catalog_bits_image by force
  have "perm_contains (perm_edit (map ?edit ?shown) P_EVERYONE) b \<longleftrightarrow> perm_contains p b" if b: "b \<in> catalog_bits" for b
  proof -
    have "\<forall>e\<in>set (map ?edit ?shown). edit_bit e \<in> catalog_bits \<and> edit_set e" using bits by auto
    from set_edits_decide [OF b this] have "perm_contains (perm_edit (map ?edit ?shown) P_EVERYONE) b \<longleftrightarrow>
        (\<exists>e\<in>set (map ?edit ?shown). edit_bit e = b)" .
    then show ?thesis using bits b by force
  qed
  then show ?thesis using parsed by blast
qed

text \<open>What native commands add to the declared roles are prerequisites, never a role.\<close>

lemma native_roles_kept: "perm_roles (native_defaults name roles) = perm_roles roles"
proof -
  have "perm_roles (roles OR q) = perm_roles roles" if "q AND 3 = 0" for q
    using that unfolding perm_roles_def bit_eq_iff by (simp add: bit_simps) blast
  then show ?thesis by (simp add: native_defaults_def)
qed

end
