(* ===== verification/Spec2Isabelle.thy ===== *)
theory Spec2Isabelle
  imports Telnet_Session Map_Rules World_Authority Command_Queue Seeded_Rng Cron Network_Topology
    Navigation_Complete Macros_Expand Shared_Map Damage_Roundtrip Channel_Delivery Battle_Rules Database_Check Map_File_Valid
    Admin_Reports Command_Access
begin

text \<open>
  Verification library of Stompymux, a multi-user BattleTech server written in Rust.

  \<^bold>\<open>The program.\<close> Clients connect over Telnet (\<open>crates/telnet\<close>); each completed line becomes a
  command of the client's player. Commands act on the world (\<open>src/world\<close>), a table of durable
  objects with locations, flags, powers and locks, under the rules of authority
  (\<open>src/authority.rs\<close>, \<open>src/flags.rs\<close>, \<open>src/powers.rs\<close>, \<open>src/locks.rs\<close>). The table is a
  copy-on-write map, so that scripts and transactions keep cheap snapshots
  (\<open>src/world/shared_map.rs\<close>), and a database check repairs it (\<open>src/dbck.rs\<close>). Players talk over
  channels and pages (\<open>src/communication\<close>), messages spread through the containment of objects
  (\<open>src/notification.rs\<close>), and dot commands expand player macros (\<open>src/macros\<close>). Forced and delayed
  commands wait in the command queue (\<open>src/commands/queue.rs\<close>), which the server drains in turns;
  Lua schedules fire on cron expressions (\<open>src/lua/schedules/cron.rs\<close>). Units fight on hex maps
  whose terrain, conditions and files are in \<open>crates/map\<close>; the game code proper is \<open>src/btech\<close>: dice
  and tables, damage fields, command networks and the route search of the autopilot. Units follow
  \<open>crates/unit-construction\<close>. Maps and names are generated from seeds with \<open>crates/seeded-rng\<close>.

  \<^bold>\<open>Theories and sources.\<close> Definitions stand in the order of the source and keep its names, with
  a prefix where a name is a method's (\<open>Queue::take\<close> is \<open>queue_take\<close>) or belongs to HOL.

  \<^item> \<open>Prelude\<close>: machine integers, results, checked arithmetic, and two interfaces: \<open>catalogue\<close>
    (an enumeration with names and a decoder that searches it) and \<open>machine\<close> (a deterministic
    consumer of inputs and its invariants). \<open>BTree_Map\<close>: ordered maps with the contract
    \<open>map_store\<close>. \<open>Rust_Str\<close> and \<open>Rust_Num\<close>: UTF-8 strings, decimal numbers and the string
    operations the sources use. \<open>Effects\<close>: operations that may fail after having changed the state,
    and the transactions that undo them.

  \<^item> \<open>QNegotiation\<close> (\<open>q.rs\<close>): the RFC 1143 option engine \<open>negotiator\<close>. Two engines joined by two
    wires, driven by any interleaving of requests and deliveries, agree when the wires are empty,
    stop talking within a bound, and never have more in flight than the bound.

  \<^item> \<open>Telnet_Environment\<close> (\<open>environment.rs\<close>): the NEW-ENVIRON store keeps its budgets and stores what
    an encoder wrote. \<open>Telnet_Mxp\<close> (\<open>mxp.rs\<close>): parsed replies stay within their budgets, quoted
    values cannot close their quotes.

  \<^item> \<open>Telnet_Decoder\<close>, \<open>Telnet_Session\<close> (\<open>lib.rs\<close>): the decoder with every option handler, as a
    function of one byte, \<open>feed\<close> as its iteration. \<open>session_ok\<close> is an invariant of every way to
    drive the decoder, including after an error; \<open>feed\<close> does not depend on how bytes are cut into
    packets; encoded frames and lines are read back; unsupported options are refused.

  \<^item> \<open>Map_Terrain\<close>, \<open>Map_Layers\<close>, \<open>Map_Hex\<close>, \<open>Map_Rules\<close> (\<open>terrain.rs\<close>, \<open>layers.rs\<close>, \<open>hex.rs\<close>,
    \<open>terrain_rules.rs\<close>): terrain identities, the layers of a hex and their validity, freezing,
    thawing, breaking and collapsing, movement costs and prohibitions. Every change of a hex keeps
    it valid; notation round trips; structure damage accounts for every point; costs match the table
    of the rules; more demanding movement is never less restricted.

  \<^item> \<open>Map_Environment\<close> (\<open>flags.rs\<close>, \<open>environment.rs\<close>): rule switches as bits with their list
    notation, light, weather and wind with their names, columns and modifiers; a stronger wind never
    helps an attack. \<open>Map_File\<close>, \<open>Map_File_Valid\<close> (\<open>asset.rs\<close>, \<open>file.rs\<close>, validation of
    \<open>region.rs\<close>): map assets, the cell notation and the TOML map file, read and written. The
    contract of a layer's symbols is the locale \<open>layer_symbols\<close>, interpreted on the five tables of
    the source. What is read is a map in good order, and a saved map comes back.

  \<^item> \<open>Hex_Geometry\<close> (discrete part of \<open>geometry.rs\<close>): the distance of two hexes is the length of a
    shortest walk.

  \<^item> \<open>World_Flags\<close>, \<open>World_Objects\<close>, \<open>World_Authority\<close> (\<open>flags.rs\<close>, \<open>world/model.rs\<close>,
    \<open>world/containment.rs\<close>, \<open>world/validation.rs\<close>, \<open>authority.rs\<close>, \<open>powers.rs\<close>,
    \<open>locks.rs\<close>): a move that \<open>validate_move\<close> accepts keeps containment acyclic; the chain of
    containers is computed exactly or reported as a cycle; no actor gains privileges it could not
    grant; control follows the hierarchy of owners, wizards and God.

  \<^item> \<open>World_Links\<close>, \<open>World_Repair\<close>, \<open>World_Repair_Valid\<close>, \<open>Database_Check\<close> (\<open>dbck.rs\<close>,
    \<open>cleaning.rs\<close>, \<open>world/validation.rs\<close>): the legacy relationship lists, rebuilt so that each
    lists the members of its container once; the object phase of the check, which succeeds,
    passes validation and is idempotent; the whole plan, which completes with the relocations it
    reports; the bounded reply and the schedule of maintenance.

  \<^item> \<open>Shared_Map\<close> (\<open>world/shared_map.rs\<close>): the map over an explicit store of reference-counted
    chunks. Every handle is a value: no write through one handle is seen through another.

  \<^item> \<open>Command_Queue\<close> (\<open>commands/queue.rs\<close>): the byte and entry accounts are exact after every
    operation; work handed out was queued, due and belongs to a live executor; the rotation serves
    everyone that is ready; each turn makes progress; splitting a command list loses nothing.

  \<^item> \<open>Macros\<close>, \<open>Macros_Valid\<close>, \<open>Macros_Expand\<close> (\<open>src/macros\<close>): sets, slots, the trusted operations
    and the dot commands. The state always validates, only writers change a set, removing a set
    detaches it and nothing else, expansion is one substitution.

  \<^item> \<open>Notification\<close> (\<open>notification.rs\<close>): the bounded traversal delivers to exactly those who hear, and
    never exceeds its budgets. \<open>Channels\<close>, \<open>Channel_Commands\<close>, \<open>Channel_Admin\<close> (\<open>src/communication\<close>):
    channels, aliases, history, presence, pages and every registered command as effects;
    \<open>Channels_Valid\<close>: every operation is a sequence of elementary steps, so its invariant holds
    whatever the callbacks of the host do, and a removed channel stays removed; \<open>Channel_Delivery\<close>:
    who hears a message, and who may send one.

  \<^item> \<open>Seeded_Rng\<close> (\<open>seeded-rng/src/lib.rs\<close>): a stream does not repeat before \<open>2 ^ 64\<close> draws and every
    choice is within its range. \<open>Cron\<close> (\<open>cron.rs\<close>): a field's mask is the union of the ranges it
    lists. \<open>Network_Topology\<close> (\<open>btech/network_topology.rs\<close>): automatic C3 and C3i networks hold two
    members at least and what their masters carry at most, the pass returns, and it leaves
    memberships in good order alone.

  \<^item> \<open>Heuristic_Graph\<close> (the contract of a best-first search as a locale), \<open>Navigation\<close>,
    \<open>Navigation_Search\<close>, \<open>Navigation_Complete\<close> (\<open>btech/autopilot/navigation.rs\<close>): the resumable A*
    search. Its paths are cheapest, a negative answer means there is none, it answers within as many
    expansions as the map has hexes, and a search may be cut into calls at will.

  \<^item> \<open>Damage_Records\<close>, \<open>Unit_Systems\<close>, \<open>Damage_Field\<close>, \<open>Damage_Replacement\<close>, \<open>Damage_Roundtrip\<close>
    (\<open>btech/damage_records.rs\<close>, \<open>damage_field.rs\<close>, \<open>damage_replacement.rs\<close>, systems of
    \<open>unit-construction\<close>): the compact text of a unit's damage. Writing back a field just read
    restores the unit, for units whose critical slots stay within what the field can name; beyond
    that the write is refused.

  \<^item> \<open>Battle_Dice\<close>, \<open>Battle_Rules\<close> (\<open>btech/dice.rs\<close>, \<open>roll_statistics.rs\<close>, \<open>hit.rs\<close> and the smaller
    tables named in the theory): fair dice by rejection, hit locations with rerolls, hardened armor,
    ammunition feeds, the cluster table, heat cut-offs and the transfer of damage.

  \<^item> \<open>Admin_Reports\<close> (\<open>reports.rs\<close>, \<open>find.rs\<close>, \<open>sites.rs\<close>): a report is its rows, or the longest
    run of them that fits with the notice, and stays within the limit once encoded; the search by
    name; site rules decide by the first match, and compilation warns of exactly the IPv4 rules that
    nobody can match. \<open>Command_Access\<close> (\<open>access.rs\<close>, \<open>lua/command_access.rs\<close>): permission bits; the
    last configured edit of a bit decides it, restrictions only restrict, the names shown configure
    the same bits.

  \<^bold>\<open>State, errors, integers.\<close> A struct is a record, an enum a datatype, and an operation that
  mutates returns the new record. A fallible operation returns \<open>Inl\<close> with a constructor for the
  message; a panic (an index out of range, \<open>unwrap\<close>) is \<open>None\<close> or an error constructor where it is
  written in the source and shown unreachable where that matters. Integers are words where they wrap,
  saturate or are used bitwise; counters, lengths and coordinates that stay in range are natural
  numbers. Ordered maps are sorted association lists; only \<open>Shared_Map\<close>, where aliasing is the point,
  has a store of addresses.

  \<^bold>\<open>Loops.\<close> Loops over data are structural recursions, and loops with a decreasing quantity are
  \<open>function\<close> with a proved termination (\<open>reach_loop\<close>, the decoders, the expansions of a search).
  Loops that the source itself does not bound are \<open>partial_function (option)\<close>: rejection sampling of
  dice and rerolled hit locations return for every stream of words that eventually has an acceptable
  one (a hypothesis of the claims), and following the parents of a path returns on the records of a
  search. \<open>chain_from\<close> walks at most as many containers as the world has objects, because the code
  stops at a repeated one, and \<open>in_character\<close> at most a hundred, as in the source. No other fuel is
  used.

  \<^bold>\<open>Parameters.\<close> What is not under \<open>src/\<close>, or what the code itself takes as an argument: chrono's
  calendar (\<open>cron_matches\<close>), the clock, the generator behind the dice, the TOML library, the cost of
  a hex and the acceptance of a goal in the route search, and the callbacks of the host of the channels
  (locks, the action of leaving, text layout). \<open>battle_purge\<close>, \<open>battle_valid\<close>, \<open>state_valid\<close> and
  \<open>plain_name\<close> stand for the parts of the database check that work on the battle, on scripted state and
  on markup, which are not modelled.

  \<^bold>\<open>Not modelled.\<close> Asynchronous I/O, the database, the Lua virtual machine, compression and password
  hashing (libraries outside the repository); floating-point geometry, motion and line of sight;
  the graphical map editor and the importers. Of the modelled files, what is
  left out is said in the header of the theory. Of the remaining integer code, local speech
  (\<open>communication/speech.rs\<close>) runs locks through the Lua runtime, the phases of damage and criticals
  change every part of a unit at once, and the construction rules compute masses partly in floating
  point.

  \<^bold>\<open>Possible extensions.\<close> Markup and its renderers (\<open>crates/styled-text\<close>), the command
  registry, object creation, the schedule queue, unit construction rules and
  the name generator.
\<close>

end
